(* ===== verification/Prelude.thy ===== *)
theory Prelude
  imports Main "HOL-Library.AList"
begin

text \<open>
  Shared vocabulary of the development.

  JavaScript strings are lists of UTF-16 code units (\<open>jstr\<close>, naturals below 65536), byte
  sequences are lists of naturals below 256 (\<open>bytes\<close>). A JavaScript \<open>Map\<close> iterates in
  insertion order, keeps the position of a key that is set again and appends a new one: it is an
  association list with \<open>AList.update\<close>, \<open>AList.delete\<close> and \<open>map_of\<close>. A JavaScript
  \<open>Set\<close> is a list without repetitions with \<open>set_add\<close> and \<open>set_del\<close>.

  The collection \<open>js_map\<close> holds the laws of these containers that the component proofs use.
\<close>

named_theorems js_map \<open>laws of insertion-ordered maps and sets\<close>

section \<open>Strings and bytes\<close>

type_synonym jstr = "nat list"

type_synonym bytes = "nat list"

text \<open>An ASCII string literal of the source.\<close>

definition js :: "string \<Rightarrow> jstr" where
  "js s = map of_char s"

lemma js_Nil [simp]: "js [] = []"
  by (simp add: js_def)

lemma js_Cons: "js (c # s) = of_char c # js s"
  by (simp add: js_def)

lemma js_eq_iff [simp]: "js s = js t \<longleftrightarrow> s = t"
  unfolding js_def by (rule inj_map_eq_map) (simp add: inj_on_def)

text \<open>The code units of a JavaScript string are 16 bits wide, bytes are 8 bits wide.\<close>

definition units_ok :: "jstr \<Rightarrow> bool" where
  "units_ok s \<longleftrightarrow> (\<forall>c \<in> set s. c < 65536)"

definition bytes_ok :: "bytes \<Rightarrow> bool" where
  "bytes_ok bs \<longleftrightarrow> (\<forall>b \<in> set bs. b < 256)"

lemma units_ok_simps [simp]:
  "units_ok []"
  "units_ok (c # s) \<longleftrightarrow> c < 65536 \<and> units_ok s"
  "units_ok (s @ t) \<longleftrightarrow> units_ok s \<and> units_ok t"
  by (auto simp: units_ok_def)

section \<open>Insertion-ordered sets\<close>

definition set_add :: "'a \<Rightarrow> 'a list \<Rightarrow> 'a list" where
  "set_add x xs = (if x \<in> set xs then xs else xs @ [x])"

definition set_del :: "'a \<Rightarrow> 'a list \<Rightarrow> 'a list" where
  "set_del x xs = filter (\<lambda>y. y \<noteq> x) xs"

lemma set_set_add [simp, js_map]: "set (set_add x xs) = insert x (set xs)"
  by (auto simp: set_add_def)

lemma set_set_del [simp, js_map]: "set (set_del x xs) = set xs - {x}"
  by (auto simp: set_del_def)

lemma distinct_set_add [simp]: "distinct xs \<Longrightarrow> distinct (set_add x xs)"
  by (simp add: set_add_def)

lemma distinct_set_del [simp]: "distinct xs \<Longrightarrow> distinct (set_del x xs)"
  by (simp add: set_del_def)

lemma set_del_empty_iff: "set_del x xs = [] \<longleftrightarrow> set xs \<subseteq> {x}"
  by (auto simp: set_del_def filter_empty_conv)

section \<open>Insertion-ordered maps\<close>

lemma map_of_update [simp, js_map]: "map_of (AList.update k v m) = (map_of m)(k \<mapsto> v)"
  by (rule AList.update_conv')

lemma map_of_delete_key [simp, js_map]: "map_of (AList.delete k m) = (map_of m)(k := None)"
  by (rule AList.delete_conv')

lemma fst_set_update [simp, js_map]: "fst ` set (AList.update k v m) = insert k (fst ` set m)"
  by (simp add: AList.dom_update)

lemma fst_set_delete [simp, js_map]: "fst ` set (AList.delete k m) = fst ` set m - {k}"
  by (auto simp: AList.delete_eq)

lemma distinct_keys_update [simp]:
  "distinct (map fst m) \<Longrightarrow> distinct (map fst (AList.update k v m))"
  by (rule AList.distinct_update)

lemma distinct_keys_delete [simp]:
  "distinct (map fst m) \<Longrightarrow> distinct (map fst (AList.delete k m))"
  by (rule AList.distinct_delete)

lemma update_fresh: "k \<notin> fst ` set m \<Longrightarrow> AList.update k v m = m @ [(k, v)]"
  by (induction m) auto

section \<open>Event-driven components\<close>

text \<open>
  A component of the system is a state and a handler that takes one event to the next state and
  the effects the handler has, in order. \<open>steps\<close> runs a handler over a sequence of events.
\<close>

fun steps :: "('s \<Rightarrow> 'i \<Rightarrow> 's \<times> 'o list) \<Rightarrow> 's \<Rightarrow> 'i list \<Rightarrow> 's \<times> 'o list" where
  "steps f s [] = (s, [])"
| "steps f s (i # es) =
     (case f s i of (s1, o1) \<Rightarrow> (case steps f s1 es of (s2, o2) \<Rightarrow> (s2, o1 @ o2)))"

lemma steps_append:
  "steps f s (es @ ks) =
     (case steps f s es of (s1, o1) \<Rightarrow> (case steps f s1 ks of (s2, o2) \<Rightarrow> (s2, o1 @ o2)))"
  by (induction es arbitrary: s) (auto split: prod.splits)

lemma steps_map: "steps f s (map g xs) = steps (\<lambda>s x. f s (g x)) s xs"
  by (induction xs arbitrary: s) simp_all

text \<open>Events without effect may be left out.\<close>

lemma steps_filter:
  assumes "\<And>s i. \<not> P i \<Longrightarrow> f s i = (s, [])"
  shows "steps f s es = steps f s (filter P es)"
  by (induction es arbitrary: s) (auto simp: assms split: prod.split)

text \<open>
  The contract of a component: a relation between its state, the events it has handled and
  everything it has done, kept by every event. What holds of the start then holds after every
  sequence of events.
\<close>

locale reactive =
  fixes handle :: "'s \<Rightarrow> 'i \<Rightarrow> 's \<times> 'o list" and inv_of :: "'s \<Rightarrow> 'i list \<Rightarrow> 'o list \<Rightarrow> bool"
  assumes kept: "inv_of s g h \<Longrightarrow> handle s i = (s', out) \<Longrightarrow> inv_of s' (g @ [i]) (h @ out)"
begin

lemma always: "inv_of s g h \<Longrightarrow> steps handle s es = (s', out) \<Longrightarrow> inv_of s' (g @ es) (h @ out)"
proof (induction es arbitrary: s g h s' out)
  case (Cons i es)
  obtain s1 o1 where h: "handle s i = (s1, o1)" by (cases "handle s i")
  obtain s2 o2 where st: "steps handle s1 es = (s2, o2)" by (cases "steps handle s1 es")
  from Cons.IH[OF kept[OF Cons.prems(1) h] st] show ?case using Cons.prems(2) h st by simp
qed simp

lemma from_start: "inv_of s [] [] \<Longrightarrow> inv_of (fst (steps handle s es)) es (snd (steps handle s es))"
  using always[of s "[]" "[]" es] by (cases "steps handle s es") simp

end

end
