(* ===== verification/Json.thy ===== *)
theory Json
  imports Prelude
begin

text \<open>
  JSON values and the two functions of the language's standard library that the wire code
  rests on: \<open>JSON.stringify\<close> (compact, no replacer) and \<open>JSON.parse\<close>, on UTF-16
  code unit strings. The main fact is \<open>json_parse_stringify\<close>: parsing what was
  stringified gives the value back, so a line of the wire carries exactly one message.

  A number is a decimal \<open>JNum m k\<close>, the value \<open>m / 10 ^ k\<close>, in lowest terms
  (\<open>k = 0\<close> exactly for integers). Every number the protocol carries is an integer of at
  most 53 bits, where this agrees with IEEE doubles; the rounding of longer literals and the
  exponent notation \<open>JSON.stringify\<close> uses from \<open>1e21\<close> are not modelled. An object
  is a list of members in insertion order without repeated keys; the reordering of
  integer-like keys is not modelled.
\<close>

section \<open>Values\<close>

datatype json =
    JNull
  | JBool bool
  | JNum int nat
  | JStr jstr
  | JArr "json list"
  | JObj "(jstr \<times> json) list"

type_synonym members = "(jstr \<times> json) list"

definition JInt :: "int \<Rightarrow> json" where
  "JInt n = JNum n 0"

text \<open>\<open>key in obj\<close> and \<open>obj[key]\<close>; a missing key reads as \<open>undefined\<close>.\<close>

definition has_key :: "members \<Rightarrow> string \<Rightarrow> bool" where
  "has_key ms k \<longleftrightarrow> js k \<in> fst ` set ms"

definition get_key :: "members \<Rightarrow> string \<Rightarrow> json option" where
  "get_key ms k = map_of ms (js k)"

lemma get_key_None: "get_key ms k = None \<longleftrightarrow> \<not> has_key ms k"
  by (simp add: get_key_def has_key_def map_of_eq_None_iff)

fun wf_json :: "json \<Rightarrow> bool" where
  "wf_json JNull = True"
| "wf_json (JBool b) = True"
| "wf_json (JNum m k) = (k = 0 \<or> \<not> 10 dvd m)"
| "wf_json (JStr s) = units_ok s"
| "wf_json (JArr vs) = list_all wf_json vs"
| "wf_json (JObj ms) =
     (distinct (map fst ms) \<and> list_all (\<lambda>(k, v). units_ok k \<and> wf_json v) ms)"

section \<open>Printing\<close>

text \<open>Decimal digits of a natural number, most significant first.\<close>

fun digits :: "nat \<Rightarrow> jstr" where
  "digits n = (if n < 10 then [48 + n] else digits (n div 10) @ [48 + n mod 10])"

declare digits.simps [simp del]

definition num_text :: "int \<Rightarrow> nat \<Rightarrow> jstr" where
  "num_text m k =
     (let ds = digits (nat \<bar>m\<bar>); p = replicate (Suc k - length ds) 48 @ ds; n = length p - k
      in (if m < 0 then [45] else []) @
         (if k = 0 then ds else take n p @ [46] @ drop n p))"

definition hex_digit :: "nat \<Rightarrow> nat" where
  "hex_digit n = (if n < 10 then 48 + n else 87 + n)"

definition esc_u :: "nat \<Rightarrow> jstr" where
  "esc_u c = [92, 117, hex_digit (c div 4096), hex_digit (c div 256 mod 16),
     hex_digit (c div 16 mod 16), hex_digit (c mod 16)]"

definition is_high :: "nat \<Rightarrow> bool" where
  "is_high c \<longleftrightarrow> 55296 \<le> c \<and> c \<le> 56319"

definition is_low :: "nat \<Rightarrow> bool" where
  "is_low c \<longleftrightarrow> 56320 \<le> c \<and> c \<le> 57343"

definition esc1 :: "nat \<Rightarrow> jstr" where
  "esc1 c =
     (if c = 34 then [92, 34] else if c = 92 then [92, 92]
      else if c = 8 then [92, 98] else if c = 9 then [92, 116]
      else if c = 10 then [92, 110] else if c = 12 then [92, 102]
      else if c = 13 then [92, 114] else if c < 32 then esc_u c
      else [c])"

text \<open>String contents: a surrogate pair is kept, a lone surrogate is escaped.\<close>

fun esc_str :: "jstr \<Rightarrow> jstr" where
  "esc_str [] = []"
| "esc_str [c] = (if is_high c \<or> is_low c then esc_u c else esc1 c)"
| "esc_str (c # d # r) =
     (if is_high c \<and> is_low d then c # d # esc_str r
      else (if is_high c \<or> is_low c then esc_u c else esc1 c) @ esc_str (d # r))"

definition quote :: "jstr \<Rightarrow> jstr" where
  "quote s = 34 # esc_str s @ [34]"

fun stringify :: "json \<Rightarrow> jstr"
  and items_text :: "json list \<Rightarrow> jstr"
  and members_text :: "members \<Rightarrow> jstr" where
  "stringify JNull = js ''null''"
| "stringify (JBool b) = (if b then js ''true'' else js ''false'')"
| "stringify (JNum m k) = num_text m k"
| "stringify (JStr s) = quote s"
| "stringify (JArr []) = [91, 93]"
| "stringify (JArr (v # vs)) = 91 # stringify v @ items_text vs"
| "stringify (JObj []) = [123, 125]"
| "stringify (JObj ((k, v) # ms)) = 123 # quote k @ 58 # stringify v @ members_text ms"
| "items_text [] = [93]"
| "items_text (v # vs) = 44 # stringify v @ items_text vs"
| "members_text [] = [125]"
| "members_text ((k, v) # ms) = 44 # quote k @ 58 # stringify v @ members_text ms"

section \<open>Parsing\<close>

definition is_json_ws :: "nat \<Rightarrow> bool" where
  "is_json_ws c \<longleftrightarrow> c = 32 \<or> c = 9 \<or> c = 10 \<or> c = 13"

definition skip_ws :: "jstr \<Rightarrow> jstr" where
  "skip_ws s = dropWhile is_json_ws s"

definition is_digit :: "nat \<Rightarrow> bool" where
  "is_digit c \<longleftrightarrow> 48 \<le> c \<and> c \<le> 57"

definition p_digits :: "jstr \<Rightarrow> jstr \<times> jstr" where
  "p_digits s = (takeWhile is_digit s, dropWhile is_digit s)"

definition digits_val :: "jstr \<Rightarrow> nat" where
  "digits_val ds = foldl (\<lambda>a d. 10 * a + (d - 48)) 0 ds"

definition hex_val :: "nat \<Rightarrow> nat option" where
  "hex_val c = (if is_digit c then Some (c - 48)
     else if 97 \<le> c \<and> c \<le> 102 then Some (c - 87)
     else if 65 \<le> c \<and> c \<le> 70 then Some (c - 55) else None)"

definition hex4 :: "nat \<Rightarrow> nat \<Rightarrow> nat \<Rightarrow> nat \<Rightarrow> nat option" where
  "hex4 a b c d = (case (hex_val a, hex_val b, hex_val c, hex_val d) of
     (Some w, Some x, Some y, Some z) \<Rightarrow> Some (4096 * w + 256 * x + 16 * y + z)
   | _ \<Rightarrow> None)"

definition unesc :: "nat \<Rightarrow> nat option" where
  "unesc c = (if c = 34 \<or> c = 92 \<or> c = 47 then Some c
     else if c = 98 then Some 8 else if c = 102 then Some 12 else if c = 110 then Some 10
     else if c = 114 then Some 13 else if c = 116 then Some 9 else None)"

text \<open>The rest of a string literal, after the opening quote.\<close>

fun p_string :: "jstr \<Rightarrow> (jstr \<times> jstr) option" where
  "p_string [] = None"
| "p_string (c # s) =
     (if c = 34 then Some ([], s)
      else if c < 32 then None
      else if c = 92 then
        (case s of
           [] \<Rightarrow> None
         | e # s1 \<Rightarrow>
             if e = 117 then
               (case s1 of
                  a1 # a2 # a3 # a4 # s2 \<Rightarrow>
                    (case hex4 a1 a2 a3 a4 of
                       None \<Rightarrow> None
                     | Some u \<Rightarrow> map_option (\<lambda>(t, r). (u # t, r)) (p_string s2))
                | _ \<Rightarrow> None)
             else
               (case unesc e of
                  None \<Rightarrow> None
                | Some u \<Rightarrow> map_option (\<lambda>(t, r). (u # t, r)) (p_string s1)))
      else map_option (\<lambda>(t, r). (c # t, r)) (p_string s))"

text \<open>A decimal in lowest terms.\<close>

fun lowest :: "int \<Rightarrow> nat \<Rightarrow> json" where
  "lowest m 0 = JNum m 0"
| "lowest m (Suc k) = (if 10 dvd m then lowest (m div 10) k else JNum m (Suc k))"

definition mk_num :: "bool \<Rightarrow> jstr \<Rightarrow> jstr \<Rightarrow> int \<Rightarrow> json" where
  "mk_num neg is fs e =
     (let v = int (digits_val (is @ fs)); m = (if neg then - v else v); k = int (length fs) - e
      in if k \<le> 0 then JNum (m * 10 ^ nat (- k)) 0 else lowest m (nat k))"

definition p_exp :: "jstr \<Rightarrow> (int \<times> jstr) option" where
  "p_exp s = (case s of
     [] \<Rightarrow> Some (0, s)
   | c # r \<Rightarrow>
       if c = 101 \<or> c = 69 then
         (let (neg, r') = (case r of
              [] \<Rightarrow> (False, r)
            | d # r'' \<Rightarrow> if d = 45 then (True, r'') else if d = 43 then (False, r'') else (False, r));
              (ds, q) = p_digits r'
          in if ds = [] then None
             else Some (if neg then - int (digits_val ds) else int (digits_val ds), q))
       else Some (0, s))"

definition p_frac :: "jstr \<Rightarrow> (jstr \<times> jstr) option" where
  "p_frac s = (case s of
     [] \<Rightarrow> Some ([], s)
   | c # r \<Rightarrow>
       if c = 46 then (let (ds, q) = p_digits r in if ds = [] then None else Some (ds, q))
       else Some ([], s))"

definition p_int :: "jstr \<Rightarrow> (jstr \<times> jstr) option" where
  "p_int s = (case s of
     [] \<Rightarrow> None
   | c # r \<Rightarrow> if c = 48 then Some ([48], r)
       else if is_digit c then Some (p_digits s) else None)"

definition p_number :: "jstr \<Rightarrow> (json \<times> jstr) option" where
  "p_number s =
     (let (neg, s1) = (case s of [] \<Rightarrow> (False, s) | c # r \<Rightarrow> if c = 45 then (True, r) else (False, s))
      in (case p_int s1 of
            None \<Rightarrow> None
          | Some (is, s2) \<Rightarrow>
              (case p_frac s2 of
                 None \<Rightarrow> None
               | Some (fs, s3) \<Rightarrow>
                   (case p_exp s3 of
                      None \<Rightarrow> None
                    | Some (e, s4) \<Rightarrow> Some (mk_num neg is fs e, s4)))))"

definition p_lit :: "jstr \<Rightarrow> json \<Rightarrow> jstr \<Rightarrow> (json \<times> jstr) option" where
  "p_lit w v s = (if take (length w) s = w then Some (v, drop (length w) s) else None)"

text \<open>
  Recursive descent with a fuel argument: one unit per nested call. \<open>json_parse\<close> starts
  with twice the length of the text plus two, and \<open>p_value_enough\<close> shows that more fuel
  never changes its answer.
\<close>

fun p_value :: "nat \<Rightarrow> jstr \<Rightarrow> (json \<times> jstr) option"
  and p_items :: "nat \<Rightarrow> jstr \<Rightarrow> (json list \<times> jstr) option"
  and p_members :: "nat \<Rightarrow> jstr \<Rightarrow> (members \<times> jstr) option" where
  "p_value 0 s = None"
| "p_value (Suc n) s =
     (case skip_ws s of
        [] \<Rightarrow> None
      | c # r \<Rightarrow>
          if c = 34 then map_option (\<lambda>(t, q). (JStr t, q)) (p_string r)
          else if c = 91 then
            (case skip_ws r of
               [] \<Rightarrow> None
             | d # q \<Rightarrow> if d = 93 then Some (JArr [], q)
                 else map_option (\<lambda>(vs, q). (JArr vs, q)) (p_items n r))
          else if c = 123 then
            (case skip_ws r of
               [] \<Rightarrow> None
             | d # q \<Rightarrow> if d = 125 then Some (JObj [], q)
                 else map_option (\<lambda>(ms, q). (JObj (fold (\<lambda>(k, v). AList.update k v) ms []), q))
                        (p_members n r))
          else if c = 110 then p_lit (js ''null'') JNull (c # r)
          else if c = 116 then p_lit (js ''true'') (JBool True) (c # r)
          else if c = 102 then p_lit (js ''false'') (JBool False) (c # r)
          else p_number (c # r))"
| "p_items 0 s = None"
| "p_items (Suc n) s =
     (case p_value n s of
        None \<Rightarrow> None
      | Some (v, r) \<Rightarrow>
          (case skip_ws r of
             [] \<Rightarrow> None
           | d # q \<Rightarrow> if d = 93 then Some ([v], q)
               else if d = 44 then map_option (\<lambda>(vs, q). (v # vs, q)) (p_items n q)
               else None))"
| "p_members 0 s = None"
| "p_members (Suc n) s =
     (case skip_ws s of
        [] \<Rightarrow> None
      | c # r \<Rightarrow>
          if c \<noteq> 34 then None
          else
            (case p_string r of
               None \<Rightarrow> None
             | Some (k, r1) \<Rightarrow>
                 (case skip_ws r1 of
                    [] \<Rightarrow> None
                  | d # r2 \<Rightarrow>
                      if d \<noteq> 58 then None
                      else
                        (case p_value n r2 of
                           None \<Rightarrow> None
                         | Some (v, r3) \<Rightarrow>
                             (case skip_ws r3 of
                                [] \<Rightarrow> None
                              | e # r4 \<Rightarrow> if e = 125 then Some ([(k, v)], r4)
                                  else if e = 44 then
                                    map_option (\<lambda>(ms, q). ((k, v) # ms, q)) (p_members n r4)
                                  else None)))))"

definition json_parse :: "jstr \<Rightarrow> json option" where
  "json_parse s = (case p_value (2 * length s + 2) s of
     None \<Rightarrow> None
   | Some (v, r) \<Rightarrow> if skip_ws r = [] then Some v else None)"

section \<open>Parsing what was printed\<close>

subsection \<open>Numbers\<close>

lemma is_digit_range [simp]: "n < 10 \<Longrightarrow> is_digit (48 + n)"
  by (simp add: is_digit_def)

lemma digits_all [simp]: "list_all is_digit (digits n)"
  by (induction n rule: digits.induct) (subst digits.simps, auto)

lemma digits_not_Nil [simp]: "digits n \<noteq> []"
  by (subst digits.simps) simp

lemma digits_val_snoc [simp]: "digits_val (ds @ [d]) = 10 * digits_val ds + (d - 48)"
  by (simp add: digits_val_def)

lemma digits_val_digits [simp]: "digits_val (digits n) = n"
proof (induction n rule: digits.induct)
  case (1 n)
  then show ?case
    by (subst digits.simps) (auto simp: digits_val_def)
qed

lemma digits_hd: "n > 0 \<Longrightarrow> hd (digits n) \<noteq> 48"
proof (induction n rule: digits.induct)
  case (1 n)
  then show ?case
    by (subst digits.simps) (auto simp: hd_append)
qed

lemma digits_0 [simp]: "digits 0 = [48]"
  by (subst digits.simps) simp

lemma digits_val_zeros [simp]: "digits_val (replicate j 48 @ ds) = digits_val ds"
proof -
  have "foldl (\<lambda>a d. 10 * a + (d - 48)) 0 (replicate j (48::nat)) = 0"
    by (induction j) simp_all
  then show ?thesis by (simp add: digits_val_def)
qed

text \<open>What may follow a number without extending it.\<close>

definition num_end :: "jstr \<Rightarrow> bool" where
  "num_end r \<longleftrightarrow> (case r of [] \<Rightarrow> True
     | c # _ \<Rightarrow> \<not> is_digit c \<and> c \<noteq> 46 \<and> c \<noteq> 101 \<and> c \<noteq> 69)"

lemma num_end_simps [simp]:
  "num_end []"
  "num_end (c # r) \<longleftrightarrow> \<not> is_digit c \<and> c \<noteq> 46 \<and> c \<noteq> 101 \<and> c \<noteq> 69"
  by (simp_all add: num_end_def)

lemma p_digits_append:
  assumes "list_all is_digit ds" and "r = [] \<or> \<not> is_digit (hd r)"
  shows "p_digits (ds @ r) = (ds, r)"
proof -
  have "takeWhile is_digit r = []" "dropWhile is_digit r = r"
    using assms(2) by (cases r; simp)+
  moreover have "\<forall>d \<in> set ds. is_digit d"
    using assms(1) by (simp add: list_all_iff)
  ultimately show ?thesis
    by (simp add: p_digits_def takeWhile_append dropWhile_append)
qed

lemma p_int_append:
  assumes "list_all is_digit ds" and "ds \<noteq> []" and "hd ds = 48 \<Longrightarrow> ds = [48]"
    and "r = [] \<or> \<not> is_digit (hd r)"
  shows "p_int (ds @ r) = Some (ds, r)"
proof (cases "hd ds = 48")
  case True
  with assms(3) show ?thesis by (simp add: p_int_def)
next
  case False
  then show ?thesis
    using assms p_digits_append[OF assms(1,4)]
    by (cases ds) (auto simp: p_int_def)
qed

lemma p_frac_append:
  assumes "list_all is_digit fs" and "fs \<noteq> []" and "num_end r"
  shows "p_frac (46 # fs @ r) = Some (fs, r)"
proof -
  have "r = [] \<or> \<not> is_digit (hd r)" using assms(3) by (cases r) auto
  with assms show ?thesis by (simp add: p_frac_def p_digits_append)
qed

lemma p_frac_none: "num_end r \<Longrightarrow> p_frac r = Some ([], r)"
  by (cases r) (auto simp: p_frac_def)

lemma p_exp_none: "num_end r \<Longrightarrow> p_exp r = Some (0, r)"
  by (cases r) (auto simp: p_exp_def)

lemma lowest_id: "\<not> 10 dvd m \<Longrightarrow> lowest m k = JNum m k"
  by (cases k) auto

lemma digit_not_minus: "is_digit c \<Longrightarrow> c \<noteq> 45"
  by (auto simp: is_digit_def)

lemma p_number_sign:
  assumes "is \<noteq> []" and "is_digit (hd is)"
    and "p_int (is @ s) = Some (i, s2)" and "p_frac s2 = Some (fs, s3)" and "p_exp s3 = Some (e, r)"
  shows "p_number ((if neg then [45] else []) @ is @ s) = Some (mk_num neg i fs e, r)"
  using assms digit_not_minus[OF assms(2)] by (cases "is") (auto simp: p_number_def)

lemma p_number_num_text:
  assumes wf: "wf_json (JNum m k)" and r: "num_end r"
  shows "p_number (num_text m k @ r) = Some (JNum m k, r)"
proof (cases "k = 0")
  case True
  let ?ds = "digits (nat \<bar>m\<bar>)"
  have hd48: "hd ?ds = 48 \<Longrightarrow> ?ds = [48]"
    using digits_hd[of "nat \<bar>m\<bar>"] by (cases "m = 0") auto
  have rd: "r = [] \<or> \<not> is_digit (hd r)" using r by (cases r) auto
  have dig: "is_digit (hd ?ds)"
    using digits_all[of "nat \<bar>m\<bar>"] by (cases ?ds) auto
  have "p_number ((if m < 0 then [45] else []) @ ?ds @ r) = Some (mk_num (m < 0) ?ds [] 0, r)"
    using p_number_sign[OF _ dig p_int_append[OF digits_all _ hd48 rd] p_frac_none[OF r] p_exp_none[OF r]]
    by simp
  then show ?thesis
    using True by (simp add: num_text_def Let_def mk_num_def)
next
  case False
  let ?ds = "digits (nat \<bar>m\<bar>)"
  define p where "p = replicate (Suc k - length ?ds) 48 @ ?ds"
  define n where "n = length p - k"
  have ndvd: "\<not> 10 dvd m" using wf False by simp
  then have m0: "m \<noteq> 0" by auto
  have lp: "length p \<ge> Suc k" by (simp add: p_def)
  have n1: "n \<ge> 1" using lp by (simp add: n_def)
  have all: "list_all is_digit p"
    using digits_all[of "nat \<bar>m\<bar>"]
    by (auto simp: p_def list_all_iff is_digit_def)
  have hd48: "hd (take n p) = 48 \<Longrightarrow> take n p = [48]"
  proof (cases "length ?ds \<ge> Suc k")
    case True
    then have "p = ?ds" by (simp add: p_def)
    then show "hd (take n p) = 48 \<Longrightarrow> take n p = [48]"
      using digits_hd[of "nat \<bar>m\<bar>"] m0 n1 by (simp add: hd_take)
  next
    case False
    then have "length p = Suc k" by (simp add: p_def)
    then have "n = 1" by (simp add: n_def)
    moreover have "hd p = 48" using False by (cases "Suc k - length ?ds") (auto simp: p_def)
    moreover have "p \<noteq> []" using lp by auto
    ultimately show "take n p = [48]" by (cases p) auto
  qed
  have parts: "take n p @ drop n p = p" by simp
  have lf: "length (drop n p) = k" using lp by (simp add: n_def)
  have a1: "list_all is_digit (take n p)" "list_all is_digit (drop n p)"
    using all parts by (metis list_all_append)+
  have ne: "take n p \<noteq> []" using n1 lp by auto
  have dig: "is_digit (hd (take n p))" using a1(1) ne by (cases "take n p") auto
  have "p_int (take n p @ 46 # drop n p @ r) = Some (take n p, 46 # drop n p @ r)"
    using p_int_append[OF a1(1) ne hd48] by (simp add: is_digit_def)
  moreover have "p_frac (46 # drop n p @ r) = Some (drop n p, r)"
    using p_frac_append[OF a1(2) _ r] lf False by auto
  ultimately have "p_number ((if m < 0 then [45] else []) @ take n p @ 46 # drop n p @ r) =
      Some (mk_num (m < 0) (take n p) (drop n p) 0, r)"
    using p_number_sign[OF ne dig _ _ p_exp_none[OF r]] by blast
  moreover have "digits_val p = nat \<bar>m\<bar>" by (simp add: p_def)
  then have "mk_num (m < 0) (take n p) (drop n p) 0 = JNum m k"
    using lf False ndvd by (simp add: mk_num_def Let_def lowest_id)
  moreover have "num_text m k = (if m < 0 then [45] else []) @ take n p @ [46] @ drop n p"
    using False by (simp only: num_text_def Let_def p_def n_def if_False)
  ultimately show ?thesis by simp
qed

subsection \<open>Strings\<close>

lemma hex_val_hex_digit [simp]: "n < 16 \<Longrightarrow> hex_val (hex_digit n) = Some n"
  by (auto simp: hex_val_def hex_digit_def is_digit_def)

lemma hex4_esc_u:
  assumes "c < 65536"
  shows "hex4 (hex_digit (c div 4096)) (hex_digit (c div 256 mod 16))
    (hex_digit (c div 16 mod 16)) (hex_digit (c mod 16)) = Some c"
proof -
  have "4096 * (c div 4096) + 256 * (c div 256 mod 16) + 16 * (c div 16 mod 16) + c mod 16 = c"
  proof -
    define x where "x = c div 16"
    define y where "y = x div 16"
    have q: "c div 256 = y" "c div 4096 = y div 16"
      by (simp_all add: x_def y_def div_mult2_eq[symmetric])
    have "16 * x + c mod 16 = c" "16 * y + x mod 16 = x" "16 * (y div 16) + y mod 16 = y"
      by (simp_all add: x_def y_def)
    then show ?thesis unfolding q x_def[symmetric] by linarith
  qed
  moreover have "c div 4096 < 16" using assms by simp
  ultimately show ?thesis by (simp add: hex4_def)
qed

lemma p_string_esc_u:
  "c < 65536 \<Longrightarrow> p_string (esc_u c @ t) = map_option (\<lambda>(u, r). (c # u, r)) (p_string t)"
  by (simp add: esc_u_def hex4_esc_u)

lemma p_string_esc1:
  "c < 65536 \<Longrightarrow> p_string (esc1 c @ t) = map_option (\<lambda>(u, r). (c # u, r)) (p_string t)"
  by (auto simp: esc1_def unesc_def p_string_esc_u)

lemma p_string_surrogate:
  "is_high c \<or> is_low c \<Longrightarrow> p_string (c # t) = map_option (\<lambda>(u, r). (c # u, r)) (p_string t)"
  by (auto simp: is_high_def is_low_def)

lemma p_string_esc_str: "units_ok s \<Longrightarrow> p_string (esc_str s @ 34 # r) = Some (s, r)"
proof (induction s rule: esc_str.induct)
  case 1
  show ?case by simp
next
  case (2 c)
  then show ?case by (simp add: p_string_esc_u p_string_esc1 del: p_string.simps(2)) simp
next
  case (3 c d s)
  show ?case
  proof (cases "is_high c \<and> is_low d")
    case True
    with 3 show ?thesis by (simp add: p_string_surrogate del: p_string.simps)
  next
    case False
    then have "esc_str (c # d # s) = (if is_high c \<or> is_low c then esc_u c else esc1 c) @ esc_str (d # s)"
      by (simp only: esc_str.simps if_False)
    with 3 False show ?thesis
      by (simp add: p_string_esc_u p_string_esc1 del: p_string.simps esc_str.simps)
  qed
qed

lemma p_string_quote: "units_ok s \<Longrightarrow> p_string (tl (quote s) @ r) = Some (s, r)"
  by (simp add: quote_def p_string_esc_str)

subsection \<open>Values\<close>

text \<open>Nesting depth, the fuel a value needs.\<close>

fun need :: "json \<Rightarrow> nat"
  and needs :: "json list \<Rightarrow> nat"
  and needs_m :: "members \<Rightarrow> nat" where
  "need (JArr vs) = Suc (needs vs)"
| "need (JObj ms) = Suc (needs_m ms)"
| "need _ = 1"
| "needs [] = 0"
| "needs (v # vs) = Suc (max (need v) (needs vs))"
| "needs_m [] = 0"
| "needs_m ((k, v) # ms) = Suc (max (need v) (needs_m ms))"

definition start_char :: "nat \<Rightarrow> bool" where
  "start_char c \<longleftrightarrow> c = 34 \<or> c = 91 \<or> c = 123 \<or> c = 110 \<or> c = 116 \<or> c = 102 \<or> c = 45 \<or> is_digit c"

lemma num_text_start: "\<exists>c t. num_text m k = c # t \<and> (c = 45 \<or> is_digit c)"
proof (cases "m < 0")
  case True
  then show ?thesis by (simp add: num_text_def Let_def)
next
  case False
  have d: "is_digit (hd (digits n))" for n
    using digits_all[of n] by (cases "digits n") auto
  let ?ds = "digits (nat \<bar>m\<bar>)"
  let ?p = "replicate (Suc k - length ?ds) 48 @ ?ds"
  have p: "?p \<noteq> []" by simp
  have "is_digit (hd ?p)"
    using d by (cases "Suc k - length ?ds") (auto simp: is_digit_def)
  moreover have "length ?p - k \<ge> 1" by simp
  then obtain j where "length ?p - k = Suc j" by (cases "length ?p - k") auto
  ultimately show ?thesis
    using False p d[of "nat \<bar>m\<bar>"] digits_not_Nil[of "nat \<bar>m\<bar>"]
    by (cases ?p; cases ?ds) (auto simp: num_text_def Let_def)
qed

lemma stringify_start: "\<exists>c t. stringify v = c # t \<and> start_char c"
proof (cases v)
  case (JNum m k)
  then show ?thesis using num_text_start[of m k] by (auto simp: start_char_def)
next
  case (JArr vs)
  then show ?thesis by (cases vs) (auto simp: start_char_def)
next
  case (JObj ms)
  then show ?thesis by (cases ms) (auto simp: start_char_def)
qed (auto simp: start_char_def js_def quote_def)

lemma start_char_not_ws: "start_char c \<Longrightarrow> \<not> is_json_ws c"
  by (auto simp: start_char_def is_json_ws_def is_digit_def)

lemma skip_ws_id: "\<not> is_json_ws c \<Longrightarrow> skip_ws (c # t) = c # t"
  by (simp add: skip_ws_def)

lemma skip_ws_stringify: "skip_ws (stringify v @ r) = stringify v @ r"
  using stringify_start[of v] start_char_not_ws by (auto simp: skip_ws_id)

lemma skip_ws_delim [simp]:
  "skip_ws (44 # r) = 44 # r" "skip_ws (93 # r) = 93 # r" "skip_ws (125 # r) = 125 # r"
  "skip_ws (58 # r) = 58 # r" "skip_ws (34 # r) = 34 # r" "skip_ws (91 # r) = 91 # r"
  "skip_ws (123 # r) = 123 # r"
  by (simp_all add: skip_ws_id is_json_ws_def)

lemma p_lit_append [simp]: "p_lit w v (w @ r) = Some (v, r)"
  by (simp add: p_lit_def)

lemma fold_update_distinct:
  "distinct (map fst ms) \<Longrightarrow> fst ` set acc \<inter> fst ` set ms = {} \<Longrightarrow>
   fold (\<lambda>(k, v). AList.update k v) ms acc = acc @ ms"
proof (induction ms arbitrary: acc)
  case (Cons m ms)
  then show ?case
    by (cases m) (force simp: update_fresh)
qed simp

lemma number_head:
  "c = 45 \<or> is_digit c \<Longrightarrow> c \<noteq> 34 \<and> c \<noteq> 91 \<and> c \<noteq> 123 \<and> c \<noteq> 110 \<and> c \<noteq> 116 \<and> c \<noteq> 102 \<and> \<not> is_json_ws c"
  by (auto simp: is_digit_def is_json_ws_def)

lemma p_value_number:
  assumes "wf_json (JNum m k)" and "num_end r"
  shows "p_value (Suc n) (num_text m k @ r) = Some (JNum m k, r)"
proof -
  obtain c t where ct: "num_text m k = c # t" "c = 45 \<or> is_digit c"
    using num_text_start by blast
  then have "p_value (Suc n) (num_text m k @ r) = p_number (num_text m k @ r)"
    using number_head[OF ct(2)] by (simp add: skip_ws_id)
  then show ?thesis using p_number_num_text[OF assms] by simp
qed

lemma num_end_text [simp]: "num_end (items_text vs @ r)" "num_end (members_text ms @ r)"
  by (cases vs; simp add: is_digit_def) (cases ms; auto simp: is_digit_def)

lemma skip_ws_after [simp]:
  "skip_ws (items_text vs @ r) = items_text vs @ r" "skip_ws (members_text ms @ r) = members_text ms @ r"
  by (cases vs; simp) (cases ms; auto)

lemma stringify_not_close:
  "\<exists>c t. stringify v = c # t \<and> c \<noteq> 93"
  using stringify_start[of v] by (auto simp: start_char_def is_digit_def)

lemma js_heads:
  "js ''null'' = [110, 117, 108, 108]" "js ''true'' = [116, 114, 117, 101]"
  "js ''false'' = [102, 97, 108, 115, 101]"
  by (simp_all add: js_def)

lemma p_value_literals [simp]:
  "p_value (Suc n) (js ''null'' @ r) = Some (JNull, r)"
  "p_value (Suc n) (js ''true'' @ r) = Some (JBool True, r)"
  "p_value (Suc n) (js ''false'' @ r) = Some (JBool False, r)"
  by (simp_all add: js_heads skip_ws_id is_json_ws_def p_lit_def)

lemma p_value_string:
  "units_ok s \<Longrightarrow> p_value (Suc n) (quote s @ r) = Some (JStr s, r)"
  by (simp add: quote_def p_string_esc_str)

lemma p_value_arr:
  assumes "p_items n (stringify v @ items_text vs @ r) = Some (v # vs, r)"
  shows "p_value (Suc n) (stringify (JArr (v # vs)) @ r) = Some (JArr (v # vs), r)"
  using assms stringify_not_close[of v] by (auto simp: skip_ws_stringify)

lemma p_members_step:
  assumes "units_ok k" and "p_value n (stringify v @ members_text ms @ r) = Some (v, members_text ms @ r)"
    and "ms \<noteq> [] \<Longrightarrow> p_members n (tl (members_text ms) @ r) = Some (ms, r)"
  shows "p_members (Suc n) (quote k @ 58 # stringify v @ members_text ms @ r) = Some ((k, v) # ms, r)"
proof (cases ms)
  case Nil
  with assms show ?thesis by (simp add: quote_def p_string_esc_str)
next
  case (Cons m ms')
  with assms show ?thesis by (cases m) (simp add: quote_def p_string_esc_str)
qed

lemma p_items_step:
  assumes "p_value n (stringify v @ items_text vs @ r) = Some (v, items_text vs @ r)"
    and "vs \<noteq> [] \<Longrightarrow> p_items n (tl (items_text vs) @ r) = Some (vs, r)"
  shows "p_items (Suc n) (stringify v @ items_text vs @ r) = Some (v # vs, r)"
  using assms by (cases vs) simp_all

lemma parse_text:
  "wf_json v \<Longrightarrow> need v \<le> n \<Longrightarrow> num_end r \<Longrightarrow> p_value n (stringify v @ r) = Some (v, r)"
  "list_all wf_json vs \<Longrightarrow> needs vs \<le> n \<Longrightarrow> vs \<noteq> [] \<Longrightarrow>
     p_items n (tl (items_text vs) @ r) = Some (vs, r)"
  "list_all (\<lambda>(k, v). units_ok k \<and> wf_json v) ms \<Longrightarrow> needs_m ms \<le> n \<Longrightarrow> ms \<noteq> [] \<Longrightarrow>
     p_members n (tl (members_text ms) @ r) = Some (ms, r)"
proof (induction v and vs and ms arbitrary: n r and n r and n r rule: need_needs_needs_m.induct[case_names arr obj null bool num str Nil_items Cons_items Nil_members Cons_members])
  case (arr vs)
  then obtain n' where n: "n = Suc n'" "needs vs \<le> n'" by (cases n) auto
  show ?case
  proof (cases vs)
    case Nil
    with n show ?thesis by simp
  next
    case (Cons v ws)
    with arr n have "p_items n' (stringify v @ items_text ws @ r) = Some (v # ws, r)" by simp
    then show ?thesis unfolding n(1) Cons by (rule p_value_arr)
  qed
next
  case (obj ms)
  then obtain n' where n: "n = Suc n'" "needs_m ms \<le> n'" by (cases n) auto
  show ?case
  proof (cases ms)
    case Nil
    with n show ?thesis by simp
  next
    case (Cons m ws)
    obtain k v where m: "m = (k, v)" by force
    have "p_members n' (quote k @ 58 # stringify v @ members_text ws @ r) = Some (ms, r)"
      using obj n Cons m by simp
    moreover have "fold (\<lambda>(k, v). AList.update k v) ms [] = ms"
      using obj.prems(1) by (simp add: fold_update_distinct)
    ultimately show ?thesis
      using n Cons m by (simp add: quote_def)
  qed
next
  case null
  then show ?case by (cases n) (simp_all del: p_value.simps)
next
  case (bool b)
  then show ?case by (cases n) (simp_all del: p_value.simps)
next
  case (num m k)
  then show ?case by (cases n) (simp_all add: p_value_number del: p_value.simps)
next
  case (str s)
  then show ?case by (cases n) (simp_all add: p_value_string del: p_value.simps)
next
  case Nil_items
  then show ?case by simp
next
  case (Cons_items v vs)
  then obtain n' where n: "n = Suc n'" "need v \<le> n'" "needs vs \<le> n'" by (cases n) auto
  have "p_items (Suc n') (stringify v @ items_text vs @ r) = Some (v # vs, r)"
    by (rule p_items_step) (use Cons_items n in simp_all)
  with n show ?case by simp
next
  case Nil_members
  then show ?case by simp
next
  case (Cons_members k v ms)
  then obtain n' where n: "n = Suc n'" "need v \<le> n'" "needs_m ms \<le> n'" by (cases n) auto
  have "p_members (Suc n') (quote k @ 58 # stringify v @ members_text ms @ r) = Some ((k, v) # ms, r)"
    by (rule p_members_step) (use Cons_members n in simp_all)
  with n show ?case by simp
qed

lemma need_le_text:
  "need v \<le> 2 * length (stringify v)"
  "Suc (needs vs) \<le> 2 * length (items_text vs)"
  "Suc (needs_m ms) \<le> 2 * length (members_text ms)"
proof (induction v and vs and ms rule: need_needs_needs_m.induct[case_names arr obj null bool num str Nil_items Cons_items Nil_members Cons_members])
  case (arr vs)
  then show ?case by (cases vs) auto
next
  case (obj ms)
  then show ?case by (cases ms) auto
next
  case (num m k)
  then show ?case using num_text_start[of m k] by auto
qed (auto simp: js_heads quote_def)

theorem json_parse_stringify:
  assumes "wf_json v"
  shows "json_parse (stringify v) = Some v"
proof -
  have "p_value (2 * length (stringify v) + 2) (stringify v @ []) = Some (v, [])"
    by (rule parse_text(1)[OF assms]) (use need_le_text(1)[of v] in simp_all)
  then show ?thesis by (simp add: json_parse_def skip_ws_def del: p_value.simps)
qed

subsection \<open>The fuel is enough\<close>

lemma skip_ws_length: "length (skip_ws s) \<le> length s"
  by (simp add: skip_ws_def length_dropWhile_le)

lemma skip_ws_Cons: "skip_ws s = c # r \<Longrightarrow> length r < length s"
  using skip_ws_length[of s] by simp

lemma p_string_consumes: "p_string s = Some (t, r) \<Longrightarrow> length r < length s"
proof (induction s arbitrary: t r rule: length_induct)
  case (1 s)
  have IH: "p_string u = Some (t', r) \<Longrightarrow> length u < length s \<Longrightarrow> length r < length u" for u t'
    using "1.IH" by blast
  show ?case
    using "1.prems" by (cases s) (auto split: if_splits list.splits option.splits dest!: IH)
qed

lemma p_digits_le: "p_digits s = (d, r) \<Longrightarrow> length r \<le> length s"
  by (auto simp: p_digits_def length_dropWhile_le)

lemma p_int_consumes: "p_int s = Some (d, r) \<Longrightarrow> length r < length s"
  by (auto simp: p_int_def p_digits_def length_dropWhile_le le_imp_less_Suc split: list.splits if_splits)

lemma p_frac_consumes: "p_frac s = Some (d, r) \<Longrightarrow> length r \<le> length s"
  by (auto simp: p_frac_def Let_def le_SucI dest!: p_digits_le split: list.splits if_splits prod.splits)

lemma p_exp_consumes: "p_exp s = Some (d, r) \<Longrightarrow> length r \<le> length s"
  by (auto simp: p_exp_def Let_def le_SucI dest!: p_digits_le split: list.splits if_splits prod.splits)

lemma p_number_consumes: "p_number s = Some (v, r) \<Longrightarrow> length r < length s"
  by (auto simp: p_number_def split: list.splits if_splits option.splits
      dest!: p_int_consumes p_frac_consumes p_exp_consumes)

lemma p_lit_consumes: "p_lit w v s = Some (u, r) \<Longrightarrow> w \<noteq> [] \<Longrightarrow> length r < length s"
  by (cases s; cases w) (auto simp: p_lit_def split: if_splits)

lemma js_not_Nil [simp]: "js (c # s) \<noteq> []"
  by (simp add: js_def)

lemmas p_base_consumes = p_string_consumes p_number_consumes p_lit_consumes skip_ws_Cons

lemma p_consumes:
  "p_value n s = Some (v, r) \<Longrightarrow> length r < length s"
  "p_items n s = Some (vs, r) \<Longrightarrow> length r < length s"
  "p_members n s = Some (ms, r) \<Longrightarrow> length r < length s"
proof (induction n s and n s and n s arbitrary: v r and vs r and ms r rule: p_value_p_items_p_members.induct)
  case (2 n s)
  then obtain c t where ct: "skip_ws s = c # t" by (auto split: list.splits)
  then have "length r < length (c # t)"
    using 2 by (fastforce split: if_splits list.splits dest: p_base_consumes)
  with ct skip_ws_length[of s] show ?case by simp
next
  case (4 n s)
  then show ?case
    by (fastforce split: if_splits list.splits option.splits prod.splits dest: skip_ws_Cons)
next
  case (6 n s)
  then show ?case
    by (fastforce split: if_splits list.splits option.splits prod.splits dest: skip_ws_Cons p_string_consumes)
qed simp_all


lemma p_stable:
  "(\<forall>s. 2 * length s < n \<longrightarrow> p_value (Suc n) s = p_value n s) \<and>
   (\<forall>s. 2 * length s + 1 < n \<longrightarrow> p_items (Suc n) s = p_items n s) \<and>
   (\<forall>s. 2 * length s + 1 < n \<longrightarrow> p_members (Suc n) s = p_members n s)"
proof (induction n)
  case (Suc n)
  have IHv: "2 * length s < n \<Longrightarrow> p_value (Suc n) s = p_value n s" for s
    using Suc.IH by blast
  have IHi: "2 * length s + 1 < n \<Longrightarrow> p_items (Suc n) s = p_items n s" for s
    using Suc.IH by blast
  have IHm: "2 * length s + 1 < n \<Longrightarrow> p_members (Suc n) s = p_members n s" for s
    using Suc.IH by blast
  have v: "p_value (Suc (Suc n)) s = p_value (Suc n) s" if "2 * length s < Suc n" for s
  proof -
    have "p_items (Suc n) r = p_items n r" "p_members (Suc n) r = p_members n r"
      if "skip_ws s = c # r" for c r
      using IHi[of r] IHm[of r] skip_ws_Cons[OF that] \<open>2 * length s < Suc n\<close> by linarith+
    then show ?thesis
      by (simp only: p_value.simps(2)) (simp split: list.splits del: p_items.simps p_members.simps)
  qed
  have i: "p_items (Suc (Suc n)) s = p_items (Suc n) s" if "2 * length s + 1 < Suc n" for s
  proof -
    have 1: "p_value (Suc n) s = p_value n s" using IHv that by simp
    have 2: "p_items (Suc n) q = p_items n q"
      if "p_value n s = Some (v, r)" "skip_ws r = d # q" for v r d q
      using IHi[of q] p_consumes(1)[OF that(1)] skip_ws_Cons[OF that(2)]
        \<open>2 * length s + 1 < Suc n\<close> by linarith
    show ?thesis
      unfolding p_items.simps(2)[of "Suc n" s] p_items.simps(2)[of n s] 1
      by (simp split: option.splits list.splits add: 2 del: p_items.simps)
  qed
  have m: "p_members (Suc (Suc n)) s = p_members (Suc n) s" if "2 * length s + 1 < Suc n" for s
  proof -
    have 1: "p_value (Suc n) r2 = p_value n r2"
      if "skip_ws s = c # r" "p_string r = Some (k, r1)" "skip_ws r1 = d # r2" for c r k r1 d r2
      using IHv[of r2] skip_ws_Cons[OF that(1)] p_string_consumes[OF that(2)]
        skip_ws_Cons[OF that(3)] \<open>2 * length s + 1 < Suc n\<close> by linarith
    have 2: "p_members (Suc n) r4 = p_members n r4"
      if "skip_ws s = c # r" "p_string r = Some (k, r1)" "skip_ws r1 = d # r2"
        "p_value n r2 = Some (v, r3)" "skip_ws r3 = e # r4" for c r k r1 d r2 v r3 e r4
      using IHm[of r4] skip_ws_Cons[OF that(1)] p_string_consumes[OF that(2)]
        skip_ws_Cons[OF that(3)] p_consumes(1)[OF that(4)] skip_ws_Cons[OF that(5)]
        \<open>2 * length s + 1 < Suc n\<close> by linarith
    show ?thesis
      unfolding p_members.simps(2)[of "Suc n" s] p_members.simps(2)[of n s]
      by (simp split: option.splits list.splits add: 1 2 del: p_members.simps p_value.simps)
  qed
  show ?case using v i m by blast
qed simp

lemma p_value_enough:
  assumes "2 * length s + 2 \<le> n"
  shows "p_value n s = p_value (2 * length s + 2) s"
  using assms
proof (induction n rule: dec_induct)
  case (step n)
  have "2 * length s < n" using step.hyps by linarith
  then have "p_value (Suc n) s = p_value n s" using p_stable[of n] by blast
  with step.IH show ?case by simp
qed simp

end
