(* ===== verification/Utf8.thy ===== *)
theory Utf8
  imports Json
begin

text \<open>
  The two text codecs of the language's standard library that the framing layer uses:
  \<open>TextEncoder.encode\<close> / \<open>Buffer.byteLength\<close> (UTF-16 code units to UTF-8 bytes, lone
  surrogates become U+FFFD) and the streaming \<open>TextDecoder('utf-8')\<close> (the WHATWG byte
  state machine: a sequence split across chunks is kept in the state, a malformed one becomes
  U+FFFD, a byte order mark at the start of the stream is dropped).

  \<open>td_run_utf8\<close> is the round trip; \<open>td_run_append\<close> says that the decoder does not see
  chunk boundaries; \<open>td_run_length\<close> bounds what it emits.
\<close>

section \<open>Encoding\<close>

definition utf8_cp :: "nat \<Rightarrow> bytes" where
  "utf8_cp cp =
     (if cp < 128 then [cp]
      else if cp < 2048 then [192 + cp div 64, 128 + cp mod 64]
      else if cp < 65536 then [224 + cp div 4096, 128 + cp div 64 mod 64, 128 + cp mod 64]
      else [240 + cp div 262144, 128 + cp div 4096 mod 64, 128 + cp div 64 mod 64, 128 + cp mod 64])"

definition pair_cp :: "nat \<Rightarrow> nat \<Rightarrow> nat" where
  "pair_cp c d = 65536 + (c - 55296) * 1024 + (d - 56320)"

definition scalar :: "nat \<Rightarrow> nat" where
  "scalar c = (if is_high c \<or> is_low c then 65533 else c)"

fun utf8 :: "jstr \<Rightarrow> bytes" where
  "utf8 [] = []"
| "utf8 [c] = utf8_cp (scalar c)"
| "utf8 (c # d # r) =
     (if is_high c \<and> is_low d then utf8_cp (pair_cp c d) @ utf8 r
      else utf8_cp (scalar c) @ utf8 (d # r))"

text \<open>Strings in which every surrogate is part of a pair.\<close>

fun wf_utf16 :: "jstr \<Rightarrow> bool" where
  "wf_utf16 [] = True"
| "wf_utf16 [c] = (c < 65536 \<and> \<not> is_high c \<and> \<not> is_low c)"
| "wf_utf16 (c # d # r) =
     (if is_high c \<and> is_low d then wf_utf16 r
      else c < 65536 \<and> \<not> is_high c \<and> \<not> is_low c \<and> wf_utf16 (d # r))"

section \<open>Streaming decoder\<close>

record text_decoder =
  td_need :: nat
  td_cp :: nat
  td_lo :: nat
  td_hi :: nat
  td_bom :: bool

definition td_idle :: "bool \<Rightarrow> text_decoder" where
  "td_idle b = \<lparr>td_need = 0, td_cp = 0, td_lo = 128, td_hi = 191, td_bom = b\<rparr>"

definition td_new :: text_decoder where
  "td_new = td_idle False"

definition cp_units :: "nat \<Rightarrow> jstr" where
  "cp_units cp = (if cp < 65536 then [cp]
     else [55296 + (cp - 65536) div 1024, 56320 + (cp - 65536) mod 1024])"

text \<open>Emit one scalar value; the first one is dropped if it is a byte order mark.\<close>

definition td_emit :: "bool \<Rightarrow> nat \<Rightarrow> text_decoder \<times> jstr" where
  "td_emit bom cp = (td_idle True, if \<not> bom \<and> cp = 65279 then [] else cp_units cp)"

definition td_start :: "bool \<Rightarrow> nat \<Rightarrow> text_decoder \<times> jstr" where
  "td_start bom b =
     (if b < 128 then td_emit bom b
      else if 194 \<le> b \<and> b \<le> 223 then
        (\<lparr>td_need = 1, td_cp = b mod 32, td_lo = 128, td_hi = 191, td_bom = bom\<rparr>, [])
      else if 224 \<le> b \<and> b \<le> 239 then
        (\<lparr>td_need = 2, td_cp = b mod 16, td_lo = (if b = 224 then 160 else 128),
          td_hi = (if b = 237 then 159 else 191), td_bom = bom\<rparr>, [])
      else if 240 \<le> b \<and> b \<le> 244 then
        (\<lparr>td_need = 3, td_cp = b mod 8, td_lo = (if b = 240 then 144 else 128),
          td_hi = (if b = 244 then 143 else 191), td_bom = bom\<rparr>, [])
      else td_emit bom 65533)"

definition td_step :: "text_decoder \<Rightarrow> nat \<Rightarrow> text_decoder \<times> jstr" where
  "td_step td b =
     (if td_need td = 0 then td_start (td_bom td) b
      else if b < td_lo td \<or> td_hi td < b then
        (let (td1, u1) = td_emit (td_bom td) 65533; (td2, u2) = td_start (td_bom td1) b
         in (td2, u1 @ u2))
      else
        (let cp = td_cp td * 64 + b mod 64
         in if td_need td = 1 then td_emit (td_bom td) cp
            else (\<lparr>td_need = td_need td - 1, td_cp = cp, td_lo = 128, td_hi = 191,
              td_bom = td_bom td\<rparr>, [])))"

text \<open>\<open>decode(chunk, {stream: true})\<close>\<close>

fun td_run :: "text_decoder \<Rightarrow> bytes \<Rightarrow> text_decoder \<times> jstr" where
  "td_run td [] = (td, [])"
| "td_run td (b # bs) =
     (let (td1, u) = td_step td b; (td2, us) = td_run td1 bs in (td2, u @ us))"

text \<open>\<open>decode()\<close>: an unfinished sequence becomes U+FFFD and the decoder is reset.\<close>

definition td_flush :: "text_decoder \<Rightarrow> text_decoder \<times> jstr" where
  "td_flush td = (td_new, if td_need td = 0 then [] else [65533])"

lemma td_run_append:
  "td_run td (xs @ ys) =
     (let (td1, u) = td_run td xs; (td2, v) = td_run td1 ys in (td2, u @ v))"
  by (induction xs arbitrary: td) (auto split: prod.splits)

section \<open>Round trip\<close>

lemma td_idle_sel [simp]:
  "td_need (td_idle b) = 0" "td_bom (td_idle b) = b" "td_lo (td_idle b) = 128" "td_hi (td_idle b) = 191"
  by (simp_all add: td_idle_def)

lemma cont_mod: "p < 64 \<Longrightarrow> (128 + p) mod 64 = (p::nat)"
  using mod_mult_self2[of p 64 2] by (simp add: add.commute)

lemma td_run_2:
  assumes "2 \<le> h" "h < 32" "p < 64"
  shows "td_run (td_idle bom) [192 + h, 128 + p] = td_emit bom (h * 64 + p)"
    and "snd (td_run (td_idle bom) [192 + h]) = []"
proof -
  have "(192 + h) mod 32 = h"
    using mod_mult_self2[of h 32 6] assms by (simp add: add.commute)
  then show "td_run (td_idle bom) [192 + h, 128 + p] = td_emit bom (h * 64 + p)"
    and "snd (td_run (td_idle bom) [192 + h]) = []"
    using assms by (simp_all add: td_step_def td_start_def td_emit_def cont_mod)
qed

lemma td_run_3:
  assumes "h < 16" "p < 64" "q < 64" "h = 0 \<Longrightarrow> 32 \<le> p" "h = 13 \<Longrightarrow> p < 32"
  shows "td_run (td_idle bom) [224 + h, 128 + p, 128 + q] = td_emit bom ((h * 64 + p) * 64 + q)"
    and "snd (td_run (td_idle bom) [224 + h]) = []"
    and "snd (td_run (td_idle bom) [224 + h, 128 + p]) = []"
proof -
  have m: "(224 + h) mod 16 = h"
    using mod_mult_self2[of h 16 14] assms by (simp add: add.commute)
  show "td_run (td_idle bom) [224 + h, 128 + p, 128 + q] = td_emit bom ((h * 64 + p) * 64 + q)"
    using assms m by (cases "h = 0"; cases "h = 13") (simp_all add: td_step_def td_start_def td_emit_def cont_mod)
  show "snd (td_run (td_idle bom) [224 + h]) = []"
    using assms by (simp add: td_step_def td_start_def)
  show "snd (td_run (td_idle bom) [224 + h, 128 + p]) = []"
    using assms by (cases "h = 0"; cases "h = 13") (simp_all add: td_step_def td_start_def)
qed

lemma td_run_4:
  assumes "h < 5" "p < 64" "q < 64" "w < 64" "h = 0 \<Longrightarrow> 16 \<le> p" "h = 4 \<Longrightarrow> p < 16"
  shows "td_run (td_idle bom) [240 + h, 128 + p, 128 + q, 128 + w] =
      td_emit bom (((h * 64 + p) * 64 + q) * 64 + w)"
    and "snd (td_run (td_idle bom) [240 + h]) = []"
    and "snd (td_run (td_idle bom) [240 + h, 128 + p]) = []"
    and "snd (td_run (td_idle bom) [240 + h, 128 + p, 128 + q]) = []"
proof -
  have m: "(240 + h) mod 8 = h"
    using mod_mult_self2[of h 8 30] assms by (simp add: add.commute)
  show "td_run (td_idle bom) [240 + h, 128 + p, 128 + q, 128 + w] =
      td_emit bom (((h * 64 + p) * 64 + q) * 64 + w)"
    using assms m by (cases "h = 0"; cases "h = 4") (simp_all add: td_step_def td_start_def td_emit_def cont_mod)
  show "snd (td_run (td_idle bom) [240 + h]) = []"
    using assms by (simp add: td_step_def td_start_def)
  show "snd (td_run (td_idle bom) [240 + h, 128 + p]) = []"
    using assms by (cases "h = 0"; cases "h = 4") (simp_all add: td_step_def td_start_def)
  show "snd (td_run (td_idle bom) [240 + h, 128 + p, 128 + q]) = []"
    using assms by (cases "h = 0"; cases "h = 4") (simp_all add: td_step_def td_start_def)
qed

text \<open>The shape of an encoded scalar value.\<close>

lemma utf8_cp_cases:
  assumes "cp < 1114112" and "\<not> is_high cp" and "\<not> is_low cp"
  obtains (one) "cp < 128" "utf8_cp cp = [cp]"
  | (two) h p where "2 \<le> h" "h < 32" "p < 64" "cp = h * 64 + p" "utf8_cp cp = [192 + h, 128 + p]"
  | (three) h p q where "h < 16" "p < 64" "q < 64" "h = 0 \<Longrightarrow> 32 \<le> p" "h = 13 \<Longrightarrow> p < 32"
      "cp = (h * 64 + p) * 64 + q" "utf8_cp cp = [224 + h, 128 + p, 128 + q]"
  | (four) h p q w where "h < 5" "p < 64" "q < 64" "w < 64" "h = 0 \<Longrightarrow> 16 \<le> p" "h = 4 \<Longrightarrow> p < 16"
      "cp = ((h * 64 + p) * 64 + q) * 64 + w" "utf8_cp cp = [240 + h, 128 + p, 128 + q, 128 + w]"
proof -
  define x where "x = cp div 64"
  define y where "y = x div 64"
  have q: "cp div 4096 = y" "cp div 262144 = y div 64"
    by (simp_all add: x_def y_def div_mult2_eq[symmetric])
  have r: "x * 64 + cp mod 64 = cp" "y * 64 + x mod 64 = x" "y div 64 * 64 + y mod 64 = y"
    by (simp_all add: x_def y_def)
  have l: "cp mod 64 < 64" "x mod 64 < 64" "y mod 64 < 64" by simp_all
  consider "cp < 128" | "128 \<le> cp" "cp < 2048" | "2048 \<le> cp" "cp < 65536" | "65536 \<le> cp" by linarith
  then show ?thesis
  proof cases
    case 1
    then show ?thesis by (intro one) (simp_all add: utf8_cp_def)
  next
    case 2
    then have "2 \<le> x" "x < 32" using r l by linarith+
    moreover have "utf8_cp cp = [192 + x, 128 + cp mod 64]" using 2 by (simp add: utf8_cp_def x_def)
    ultimately show ?thesis using two[of x "cp mod 64"] l r by simp
  next
    case 3
    then have "y < 16" "y = 0 \<Longrightarrow> 32 \<le> x mod 64" using r l by linarith+
    moreover have "y = 13 \<Longrightarrow> x mod 64 < 32"
      using assms(2,3) 3 r l unfolding is_high_def is_low_def by linarith
    moreover have "cp = (y * 64 + x mod 64) * 64 + cp mod 64" by (simp only: r)
    moreover have "utf8_cp cp = [224 + y, 128 + x mod 64, 128 + cp mod 64]"
      using 3 by (simp add: utf8_cp_def q flip: x_def)
    ultimately show ?thesis by (rule three[OF _ l(2) l(1)])
  next
    case 4
    then have "y div 64 < 5" "y div 64 = 0 \<Longrightarrow> 16 \<le> y mod 64" "y div 64 = 4 \<Longrightarrow> y mod 64 < 16"
      using assms(1) r l by linarith+
    moreover have "cp = ((y div 64 * 64 + y mod 64) * 64 + x mod 64) * 64 + cp mod 64" by (simp only: r)
    moreover have "utf8_cp cp = [240 + y div 64, 128 + y mod 64, 128 + x mod 64, 128 + cp mod 64]"
      using 4 by (simp add: utf8_cp_def q flip: x_def)
    ultimately show ?thesis by (rule four[OF _ l(3) l(2) l(1)])
  qed
qed

lemma td_run_cp:
  assumes "cp < 1114112" and "\<not> is_high cp" and "\<not> is_low cp"
  shows "td_run (td_idle bom) (utf8_cp cp) = td_emit bom cp"
  using assms
proof (cases cp rule: utf8_cp_cases)
  case one
  then show ?thesis by (simp add: td_step_def td_start_def td_emit_def)
next
  case (two h p)
  then show ?thesis by (metis td_run_2(1))
next
  case (three h p q)
  then show ?thesis by (metis td_run_3(1))
next
  case (four h p q w)
  then show ?thesis by (metis td_run_4(1))
qed

text \<open>A proper prefix of an encoded scalar value emits nothing.\<close>

lemma td_run_cp_prefix:
  assumes "cp < 1114112" and "\<not> is_high cp" and "\<not> is_low cp"
    and "utf8_cp cp = bs @ cs" and "cs \<noteq> []"
  shows "snd (td_run (td_idle bom) bs) = []"
  using assms(1-3)
proof (cases cp rule: utf8_cp_cases)
  case one
  then show ?thesis using assms(4,5) by (cases bs) auto
next
  case (two h p)
  then have "bs = [] \<or> bs = [192 + h]" using assms(4,5) by (auto simp: Cons_eq_append_conv)
  then show ?thesis using td_run_2(2) two by auto
next
  case (three h p q)
  then have "bs = [] \<or> bs = [224 + h] \<or> bs = [224 + h, 128 + p]"
    using assms(4,5) by (auto simp: Cons_eq_append_conv)
  then show ?thesis using td_run_3(2,3) three by auto
next
  case (four h p q w)
  then have "bs = [] \<or> bs = [240 + h] \<or> bs = [240 + h, 128 + p] \<or> bs = [240 + h, 128 + p, 128 + q]"
    using assms(4,5) by (auto simp: Cons_eq_append_conv)
  then show ?thesis using td_run_4(2,3,4) four by auto
qed

lemma pair_cp_bounds:
  "is_high c \<Longrightarrow> is_low d \<Longrightarrow> 65536 \<le> pair_cp c d \<and> pair_cp c d < 1114112"
  by (auto simp: is_high_def is_low_def pair_cp_def)

lemma cp_units_pair:
  assumes "is_high c" and "is_low d"
  shows "cp_units (pair_cp c d) = [c, d]"
proof -
  obtain x where c: "c = 55296 + x" using assms(1) by (auto simp: is_high_def le_iff_add)
  obtain y where d: "d = 56320 + y" using assms(2) by (auto simp: is_low_def le_iff_add)
  have "y < 1024" using assms(2) d by (simp add: is_low_def)
  then show ?thesis by (simp add: c d pair_cp_def cp_units_def)
qed

lemma pair_cp_scalar:
  "is_high c \<Longrightarrow> is_low d \<Longrightarrow> \<not> is_high (pair_cp c d) \<and> \<not> is_low (pair_cp c d) \<and> pair_cp c d \<noteq> 65279"
  using pair_cp_bounds[of c d] by (auto simp: is_high_def is_low_def)

lemma td_run_pair:
  assumes "is_high c" and "is_low d"
  shows "td_run (td_idle bom) (utf8_cp (pair_cp c d)) = (td_idle True, [c, d])"
  using td_run_cp[of "pair_cp c d" bom] pair_cp_bounds[OF assms] cp_units_pair[OF assms]
    pair_cp_scalar[OF assms] by (simp add: td_emit_def)

lemma td_run_scalar:
  assumes "c < 65536" and "\<not> is_high c" and "\<not> is_low c" and "bom \<or> c \<noteq> 65279"
  shows "td_run (td_idle bom) (utf8_cp (scalar c)) = (td_idle True, [c])"
  using td_run_cp[of c bom] assms by (auto simp: td_emit_def scalar_def cp_units_def)

lemma td_run_utf8_True: "wf_utf16 s \<Longrightarrow> td_run (td_idle True) (utf8 s) = (td_idle True, s)"
  by (induction s rule: utf8.induct)
     (auto simp: td_run_append td_run_pair td_run_scalar split: if_splits)

lemma td_run_utf8:
  assumes "wf_utf16 s" and "s \<noteq> []" and "hd s \<noteq> 65279"
  shows "td_run (td_idle bom) (utf8 s) = (td_idle True, s)"
proof (cases s rule: utf8.cases)
  case (2 c)
  then show ?thesis using assms by (auto simp: td_run_scalar)
next
  case (3 c d r)
  then show ?thesis using assms
    by (auto simp: td_run_append td_run_pair td_run_scalar td_run_utf8_True split: if_splits)
qed (use assms in simp)

text \<open>What a prefix of an encoded string decodes to takes no more bytes than the prefix.\<close>

lemma prefix_split:
  "xs @ ys = bs @ cs \<Longrightarrow> (\<exists>us. us \<noteq> [] \<and> xs = bs @ us) \<or> (\<exists>us. bs = xs @ us \<and> ys = us @ cs)"
  by (auto simp: append_eq_append_conv2)

lemma utf8_prefix_step:
  assumes cp: "cp < 1114112" "\<not> is_high cp" "\<not> is_low cp"
    and run: "td_run (td_idle bom) (utf8_cp cp) = (td_idle True, us)"
    and enc: "\<And>t. utf8 (us @ t) = utf8_cp cp @ utf8 t"
    and IH: "\<And>bs cs. utf8 r = bs @ cs \<Longrightarrow> length (utf8 (snd (td_run (td_idle True) bs))) \<le> length bs"
    and eq: "utf8_cp cp @ utf8 r = bs @ cs"
  shows "length (utf8 (snd (td_run (td_idle bom) bs))) \<le> length bs"
  using prefix_split[OF eq]
proof
  assume "\<exists>vs. vs \<noteq> [] \<and> utf8_cp cp = bs @ vs"
  then show ?thesis using td_run_cp_prefix[OF cp] by fastforce
next
  assume "\<exists>vs. bs = utf8_cp cp @ vs \<and> utf8 r = vs @ cs"
  then obtain vs where vs: "bs = utf8_cp cp @ vs" "utf8 r = vs @ cs" by blast
  obtain x1 x2 where "td_run (td_idle True) vs = (x1, x2)" by force
  then show ?thesis using vs IH[OF vs(2)] run enc by (simp add: td_run_append)
qed

lemma utf8_scalar_append: "\<not> is_high c \<Longrightarrow> utf8 (c # t) = utf8_cp (scalar c) @ utf8 t"
  by (cases t) simp_all

lemma utf8_prefix_length:
  "wf_utf16 s \<Longrightarrow> utf8 s = bs @ cs \<Longrightarrow> length (utf8 (snd (td_run (td_idle True) bs))) \<le> length bs"
proof (induction s arbitrary: bs cs rule: utf8.induct)
  case 1
  then show ?case by simp
next
  case (2 c)
  then have c: "c < 65536" "\<not> is_high c" "\<not> is_low c" by simp_all
  show ?case
    by (rule utf8_prefix_step[of "scalar c" _ "[c]" "[]"])
       (use 2 c td_run_scalar[OF c] in \<open>auto simp: scalar_def utf8_scalar_append\<close>)
next
  case (3 c d r)
  show ?case
  proof (cases "is_high c \<and> is_low d")
    case True
    show ?thesis
      by (rule utf8_prefix_step[of "pair_cp c d" _ "[c, d]" r bs cs])
         (use 3 True pair_cp_bounds pair_cp_scalar td_run_pair in auto)
  next
    case False
    then have c: "c < 65536" "\<not> is_high c" "\<not> is_low c"
      using "3.prems"(1) by (auto split: if_splits)
    show ?thesis
      by (rule utf8_prefix_step[of "scalar c" _ "[c]" "d # r" bs cs])
         (use 3 False c td_run_scalar[OF c] in \<open>auto simp: scalar_def utf8_scalar_append\<close>)
  qed
qed

lemma utf8_prefix_length_start:
  assumes "wf_utf16 s" and "s \<noteq> []" and "hd s \<noteq> 65279" and "utf8 s = bs @ cs"
  shows "length (utf8 (snd (td_run (td_idle bom) bs))) \<le> length bs"
proof (cases s rule: utf8.cases)
  case (2 c)
  with assms have c: "c < 65536" "\<not> is_high c" "\<not> is_low c" "bom \<or> c \<noteq> 65279" by auto
  show ?thesis
    by (rule utf8_prefix_step[of "scalar c" _ "[c]" "[]"])
       (use assms 2 c td_run_scalar[OF c] in \<open>auto simp: scalar_def utf8_scalar_append\<close>)
next
  case (3 c d r)
  show ?thesis
  proof (cases "is_high c \<and> is_low d")
    case True
    show ?thesis
      by (rule utf8_prefix_step[of "pair_cp c d" _ "[c, d]" r bs cs])
         (use assms 3 True pair_cp_bounds pair_cp_scalar td_run_pair utf8_prefix_length in auto)
  next
    case False
    with 3 assms have c: "c < 65536" "\<not> is_high c" "\<not> is_low c" "bom \<or> c \<noteq> 65279"
      by (auto split: if_splits)
    have "wf_utf16 (d # r)" using 3 assms False by (auto split: if_splits)
    then show ?thesis
      by (intro utf8_prefix_step[of "scalar c" _ "[c]" "d # r" bs cs])
         (use assms 3 False c td_run_scalar[OF c] utf8_prefix_length in
           \<open>auto simp: scalar_def utf8_scalar_append\<close>)
  qed
qed (use assms in simp)

section \<open>Sizes\<close>

lemma utf8_cp_length: "1 \<le> length (utf8_cp cp)" "65536 \<le> cp \<Longrightarrow> length (utf8_cp cp) = 4"
  by (simp_all add: utf8_cp_def)

text \<open>A string never has more code units than UTF-8 bytes.\<close>

lemma utf8_length: "length s \<le> length (utf8 s)"
proof (induction s rule: utf8.induct)
  case (3 c d r)
  then show ?case
    using utf8_cp_length(1)[of "scalar c"] utf8_cp_length(2)[of "pair_cp c d"] pair_cp_bounds[of c d]
    by auto
qed (use utf8_cp_length in simp_all)

definition td_pending :: "text_decoder \<Rightarrow> nat" where
  "td_pending td = (if td_need td = 0 then 0 else 1)"

lemma td_start_length:
  "td_start bom b = (td', u) \<Longrightarrow> length u + td_pending td' \<le> 1"
  by (auto simp: td_start_def td_emit_def td_pending_def cp_units_def split: if_splits)

lemma td_step_length:
  assumes "td_step td b = (td', u)"
  shows "length u + td_pending td' \<le> 1 + td_pending td"
proof (cases "td_need td = 0")
  case True
  then show ?thesis using assms td_start_length by (simp add: td_step_def td_pending_def)
next
  case False
  with assms show ?thesis
    by (auto simp: td_step_def td_emit_def Let_def td_pending_def cp_units_def
        split: if_splits prod.splits dest!: td_start_length)
qed

lemma td_run_length:
  "td_run td bs = (td', u) \<Longrightarrow> length u + td_pending td' \<le> length bs + td_pending td"
proof (induction bs arbitrary: td td' u)
  case (Cons b bs)
  obtain td1 u1 where 1: "td_step td b = (td1, u1)" by force
  obtain td2 u2 where 2: "td_run td1 bs = (td2, u2)" by force
  from 1 2 Cons.prems have "td' = td2" "u = u1 @ u2" by auto
  with td_step_length[OF 1] Cons.IH[OF 2] show ?case by simp
qed simp

section \<open>Newlines\<close>

text \<open>
  A newline byte always decodes to a newline unit and leaves the decoder between two scalar
  values; no other byte sequence produces one.
\<close>

definition td_inv :: "text_decoder \<Rightarrow> bool" where
  "td_inv td \<longleftrightarrow> td_need td = 0 \<and> td = td_idle (td_bom td)
     \<or> td_need td = 1 \<and> 2 \<le> td_cp td \<and> 128 \<le> td_lo td
     \<or> td_need td = 2 \<and> (1 \<le> td_cp td \<and> 128 \<le> td_lo td \<or> td_lo td = 160 \<and> td_hi td = 191)
     \<or> td_need td = 3 \<and> (1 \<le> td_cp td \<and> 128 \<le> td_lo td \<or> td_lo td = 144 \<and> td_hi td = 191)"

lemma td_inv_idle [simp]: "td_inv (td_idle b)"
  by (simp add: td_inv_def)

lemma cp_units_newline: "10 \<in> set (cp_units cp) \<longleftrightarrow> cp = 10"
  by (auto simp: cp_units_def)

lemma mod_shift:
  assumes "k * n \<le> b" and "b < k * n + n"
  shows "b mod n = b - k * (n::nat)"
proof -
  obtain x where "b = k * n + x" using assms(1) by (auto simp: le_iff_add)
  with assms(2) show ?thesis by simp
qed

lemma mod_ge:
  "194 \<le> b \<Longrightarrow> b \<le> 223 \<Longrightarrow> 2 \<le> b mod (32::nat)"
  "225 \<le> b \<Longrightarrow> b \<le> 239 \<Longrightarrow> 1 \<le> b mod (16::nat)"
  "241 \<le> b \<Longrightarrow> b \<le> 244 \<Longrightarrow> 1 \<le> b mod (8::nat)"
  "160 \<le> b \<Longrightarrow> b \<le> 191 \<Longrightarrow> 32 \<le> b mod (64::nat)"
  "144 \<le> b \<Longrightarrow> b \<le> 191 \<Longrightarrow> 16 \<le> b mod (64::nat)"
  using mod_shift[of 6 32 b] mod_shift[of 14 16 b] mod_shift[of 30 8 b] mod_shift[of 2 64 b]
  by simp_all

lemma td_emit_newline:
  "td_emit bom cp = (td', u) \<Longrightarrow> td_inv td' \<and> (10 \<in> set u \<longleftrightarrow> cp = 10)"
  by (auto simp: td_emit_def cp_units_newline split: if_splits)

lemma td_start_newline:
  assumes "td_start bom b = (td', u)"
  shows "td_inv td' \<and> (10 \<in> set u \<longleftrightarrow> b = 10)"
proof -
  consider "b < 128" | "194 \<le> b" "b \<le> 223" | "224 \<le> b" "b \<le> 239" | "240 \<le> b" "b \<le> 244"
    | "128 \<le> b" "b < 194 \<or> 244 < b" by linarith
  then show ?thesis
  proof cases
    case 1
    then have "td_emit bom b = (td', u)" using assms by (simp add: td_start_def)
    then show ?thesis by (rule td_emit_newline)
  next
    case 2
    then have m: "2 \<le> b mod 32" by (rule mod_ge)
    have e: "td' = \<lparr>td_need = 1, td_cp = b mod 32, td_lo = 128, td_hi = 191, td_bom = bom\<rparr>" "u = []"
      using 2 assms unfolding td_start_def by simp_all
    show ?thesis using m 2 by (simp add: e td_inv_def)
  next
    case 3
    then have "b \<noteq> 224 \<Longrightarrow> 1 \<le> b mod 16" using mod_ge(2)[of b] by simp
    moreover have e: "td' = \<lparr>td_need = 2, td_cp = b mod 16, td_lo = (if b = 224 then 160 else 128),
        td_hi = (if b = 237 then 159 else 191), td_bom = bom\<rparr>" "u = []"
      using 3 assms unfolding td_start_def by simp_all
    ultimately show ?thesis using 3 by (simp add: e td_inv_def)
  next
    case 4
    then have "b \<noteq> 240 \<Longrightarrow> 1 \<le> b mod 8" using mod_ge(3)[of b] by simp
    moreover have e: "td' = \<lparr>td_need = 3, td_cp = b mod 8, td_lo = (if b = 240 then 144 else 128),
        td_hi = (if b = 244 then 143 else 191), td_bom = bom\<rparr>" "u = []"
      using 4 assms unfolding td_start_def by simp_all
    ultimately show ?thesis using 4 by (simp add: e td_inv_def)
  next
    case 5
    then have "td_emit bom 65533 = (td', u)" using assms by (auto simp: td_start_def)
    then show ?thesis using td_emit_newline 5 by fastforce
  qed
qed

lemma td_step_newline:
  assumes "td_inv td" and "td_step td b = (td', u)"
  shows "td_inv td' \<and> (10 \<in> set u \<longleftrightarrow> b = 10)"
proof (cases "td_need td = 0 \<or> b < td_lo td \<or> td_hi td < b")
  case True
  show ?thesis
  proof (cases "td_need td = 0")
    case True
    then show ?thesis using assms td_start_newline by (simp add: td_step_def)
  next
    case False
    then have "td_step td b = (let (td1, u1) = td_emit (td_bom td) 65533; (td2, u2) = td_start (td_bom td1) b
         in (td2, u1 @ u2))" using True by (simp add: td_step_def)
    then show ?thesis
      using assms(2) td_start_newline[of True b]
      by (cases "td_start True b") (auto simp: td_emit_def cp_units_def Let_def)
  qed
next
  case False
  then have nz: "td_need td \<noteq> 0" and lo: "td_lo td \<le> b" and hi: "b \<le> td_hi td" by simp_all
  have b: "b \<noteq> 10" using assms(1) nz lo unfolding td_inv_def by linarith
  have "td_need td = 1 \<and> 2 \<le> td_cp td \<or> td_need td = 2 \<and> (1 \<le> td_cp td \<or> 160 \<le> b \<and> b \<le> 191)
      \<or> td_need td = 3 \<and> (1 \<le> td_cp td \<or> 144 \<le> b \<and> b \<le> 191)"
    using assms(1) nz lo hi unfolding td_inv_def by metis
  then consider "td_need td = 1" "2 \<le> td_cp td"
    | "td_need td = 2" "1 \<le> td_cp td \<or> 32 \<le> b mod 64"
    | "td_need td = 3" "1 \<le> td_cp td \<or> 16 \<le> b mod 64"
    using mod_ge(4,5)[of b] by blast
  then show ?thesis
  proof cases
    case 1
    then have "td_cp td * 64 + b mod 64 \<noteq> 10" by linarith
    with 1 b False assms(2) show ?thesis
      by (auto simp: td_step_def td_emit_def Let_def cp_units_newline split: if_splits)
  next
    case 2
    then have c: "2 \<le> td_cp td * 64 + b mod 64" by linarith
    have e: "td' = \<lparr>td_need = 1, td_cp = td_cp td * 64 + b mod 64, td_lo = 128, td_hi = 191,
        td_bom = td_bom td\<rparr>" "u = []"
      using 2(1) lo hi assms(2) unfolding td_step_def Let_def by simp_all
    show ?thesis using c b by (simp add: e td_inv_def)
  next
    case 3
    then have c: "1 \<le> td_cp td * 64 + b mod 64" by linarith
    have e: "td' = \<lparr>td_need = 2, td_cp = td_cp td * 64 + b mod 64, td_lo = 128, td_hi = 191,
        td_bom = td_bom td\<rparr>" "u = []"
      using 3(1) lo hi assms(2) unfolding td_step_def Let_def by simp_all
    show ?thesis using c b by (simp add: e td_inv_def)
  qed
qed

lemma td_run_newline:
  "td_inv td \<Longrightarrow> td_run td bs = (td', u) \<Longrightarrow> td_inv td' \<and> (10 \<in> set u \<longleftrightarrow> 10 \<in> set bs)"
proof (induction bs arbitrary: td td' u)
  case (Cons b bs)
  obtain td1 u1 where 1: "td_step td b = (td1, u1)" by force
  obtain td2 u2 where 2: "td_run td1 bs = (td2, u2)" by force
  from 1 2 Cons.prems have "td' = td2" "u = u1 @ u2" by auto
  with td_step_newline[OF Cons.prems(1) 1] Cons.IH[OF _ 2] show ?case by auto
qed simp

lemma td_step_at_newline:
  assumes "td_inv td"
  shows "\<exists>w. td_step td 10 = (td_idle True, w @ [10]) \<and> 10 \<notin> set w"
  using assms by (auto simp: td_inv_def td_step_def td_start_def td_emit_def cp_units_def)

section \<open>The text of a JSON value\<close>

lemma wf_utf16_append: "wf_utf16 s \<Longrightarrow> wf_utf16 t \<Longrightarrow> wf_utf16 (s @ t)"
proof (induction s rule: wf_utf16.induct)
  case (2 c)
  then show ?case by (cases t) auto
qed (auto split: if_splits)

text \<open>Units that are neither surrogates nor a newline.\<close>

definition plain_unit :: "nat \<Rightarrow> bool" where
  "plain_unit c \<longleftrightarrow> c < 65536 \<and> \<not> is_high c \<and> \<not> is_low c \<and> c \<noteq> 10"

lemma wf_utf16_plain: "list_all plain_unit s \<Longrightarrow> wf_utf16 s"
  by (induction s rule: wf_utf16.induct) (auto simp: plain_unit_def)

definition line_text :: "jstr \<Rightarrow> bool" where
  "line_text s \<longleftrightarrow> wf_utf16 s \<and> 10 \<notin> set s"

lemma line_text_append: "line_text s \<Longrightarrow> line_text t \<Longrightarrow> line_text (s @ t)"
  by (auto simp: line_text_def intro: wf_utf16_append)

lemma line_text_plain: "list_all plain_unit s \<Longrightarrow> line_text s"
  by (auto simp: line_text_def wf_utf16_plain list_all_iff plain_unit_def)

lemma line_text_Cons: "plain_unit c \<Longrightarrow> line_text s \<Longrightarrow> line_text (c # s)"
  using line_text_append[of "[c]" s] by (simp add: line_text_plain)

lemma plain_unit_ascii: "c < 55296 \<Longrightarrow> c \<noteq> 10 \<Longrightarrow> plain_unit c"
  by (simp add: plain_unit_def is_high_def is_low_def)

lemma plain_digit: "is_digit c \<Longrightarrow> plain_unit c"
  by (rule plain_unit_ascii) (auto simp: is_digit_def)

lemma plain_digits: "list_all plain_unit (digits n)"
  using digits_all[of n] by (auto simp: list_all_iff plain_digit)

lemma plain_num_text: "list_all plain_unit (num_text m k)"
proof -
  have "list_all plain_unit (replicate j 48 @ digits n)" for j n
    using plain_digits[of n] by (auto simp: list_all_iff plain_unit_ascii)
  moreover have "list_all plain_unit (take j p @ [46] @ drop j p)" if "list_all plain_unit p" for j p
    using that by (auto simp: list_all_iff plain_unit_ascii dest: in_set_takeD in_set_dropD)
  ultimately show ?thesis
    unfolding num_text_def Let_def
    by (auto simp: plain_digits plain_unit_ascii)
qed

lemma plain_hex_digit: "n < 16 \<Longrightarrow> plain_unit (hex_digit n)"
  by (rule plain_unit_ascii) (simp_all add: hex_digit_def)

lemma plain_esc_u: "c < 65536 \<Longrightarrow> list_all plain_unit (esc_u c)"
  by (simp add: esc_u_def plain_hex_digit plain_unit_ascii)

lemma plain_esc1: "c < 65536 \<Longrightarrow> \<not> is_high c \<Longrightarrow> \<not> is_low c \<Longrightarrow> list_all plain_unit (esc1 c)"
  by (auto simp: esc1_def plain_esc_u plain_unit_def is_high_def is_low_def)

lemma line_text_esc: "c < 65536 \<Longrightarrow> line_text (if is_high c \<or> is_low c then esc_u c else esc1 c)"
  using plain_esc_u plain_esc1 by (auto intro: line_text_plain)

lemma line_text_esc_str: "units_ok s \<Longrightarrow> line_text (esc_str s)"
proof (induction s rule: esc_str.induct)
  case 1
  show ?case by (simp add: line_text_def)
next
  case (2 c)
  then show ?case using line_text_esc[of c] by simp
next
  case (3 c d r)
  show ?case
  proof (cases "is_high c \<and> is_low d")
    case True
    then have "c \<noteq> 10" "d \<noteq> 10" by (auto simp: is_high_def is_low_def)
    with True 3 show ?thesis by (simp add: line_text_def)
  next
    case False
    with 3 line_text_append[OF line_text_esc] show ?thesis by (simp add: esc_str.simps(3) if_not_P)
  qed
qed

lemma line_text_quote: "units_ok s \<Longrightarrow> line_text (quote s)"
  unfolding quote_def
  by (intro line_text_Cons line_text_append line_text_esc_str line_text_plain)
     (simp_all add: plain_unit_ascii)

lemma line_text_js: "line_text (js ''null'')" "line_text (js ''true'')" "line_text (js ''false'')"
  by (simp_all add: js_heads line_text_plain plain_unit_ascii)

lemmas line_text_intros =
  line_text_Cons line_text_append line_text_quote line_text_js
  line_text_plain[OF plain_num_text] plain_unit_ascii

lemma line_text_stringify:
  "wf_json v \<Longrightarrow> line_text (stringify v)"
  "list_all wf_json vs \<Longrightarrow> line_text (items_text vs)"
  "list_all (\<lambda>(k, v). units_ok k \<and> wf_json v) ms \<Longrightarrow> line_text (members_text ms)"
proof (induction v and vs and ms rule: stringify_items_text_members_text.induct)
  case (5)
  show ?case by (simp add: line_text_plain plain_unit_ascii)
next
  case 7
  show ?case by (simp add: line_text_plain plain_unit_ascii)
next
  case 9
  show ?case by (simp add: line_text_plain plain_unit_ascii)
next
  case 11
  show ?case by (simp add: line_text_plain plain_unit_ascii)
qed (auto intro!: line_text_intros)

lemma stringify_no_newline: "wf_json v \<Longrightarrow> 10 \<notin> set (stringify v)"
  using line_text_stringify(1) by (simp add: line_text_def)

lemma wf_utf16_stringify: "wf_json v \<Longrightarrow> wf_utf16 (stringify v)"
  using line_text_stringify(1) by (simp add: line_text_def)

lemma wf_utf16_line: "wf_json v \<Longrightarrow> wf_utf16 (stringify v @ [10])"
  using wf_utf16_append[OF wf_utf16_stringify, of v "[10]"] by (simp add: is_high_def is_low_def)

lemma utf8_append: "wf_utf16 s \<Longrightarrow> utf8 (s @ t) = utf8 s @ utf8 t"
proof (induction s rule: wf_utf16.induct)
  case (2 c)
  then show ?case by (cases t) auto
qed (auto split: if_splits)

lemma utf8_inj: "wf_utf16 s \<Longrightarrow> wf_utf16 t \<Longrightarrow> utf8 s = utf8 t \<Longrightarrow> s = t"
  by (metis td_run_utf8_True snd_conv)

section \<open>Bytes of encoded text\<close>

lemma utf8_cp_bytes: "cp < 1114112 \<Longrightarrow> \<forall>b \<in> set (utf8_cp cp). b < 256"
  by (auto simp: utf8_cp_def)

lemma utf8_units_bytes: "units_ok s \<Longrightarrow> bytes_ok (utf8 s)"
proof (induction s rule: utf8.induct)
  case (2 c)
  then show ?case using utf8_cp_bytes[of "scalar c"] by (simp add: bytes_ok_def scalar_def)
next
  case (3 c d r)
  then show ?case
    using pair_cp_bounds[of c d] utf8_cp_bytes[of "pair_cp c d"] utf8_cp_bytes[of "scalar c"]
    by (auto simp: scalar_def bytes_ok_def)
qed (simp add: bytes_ok_def)

text \<open>The bytes below 128 of an encoded text are its ASCII units; between them the parts are encoded alone.\<close>

lemma utf8_cp_ascii: "b < 128 \<Longrightarrow> b \<in> set (utf8_cp cp) \<longleftrightarrow> cp = b"
  by (auto simp: utf8_cp_def)

lemma utf8_ascii_iff: "b < 128 \<Longrightarrow> b \<in> set (utf8 s) \<longleftrightarrow> b \<in> set s"
proof (induction s rule: utf8.induct)
  case (3 c d r)
  then show ?case
    by (auto simp: utf8_cp_ascii scalar_def is_high_def is_low_def pair_cp_def split: if_splits)
qed (auto simp: utf8_cp_ascii scalar_def is_high_def is_low_def)

lemma utf8_ascii_cut: "b < 128 \<Longrightarrow> utf8 (s @ b # t) = utf8 s @ b # utf8 t"
proof (induction s rule: utf8.induct)
  case 1
  then show ?case by (cases t) (simp_all add: utf8_cp_def scalar_def is_high_def is_low_def)
next
  case (2 c)
  then show ?case by (cases t) (simp_all add: utf8_cp_def scalar_def is_high_def is_low_def)
qed auto

lemma utf8_ascii: "\<forall>c \<in> set s. c < 128 \<Longrightarrow> utf8 s = s"
proof (induction s)
  case (Cons c s)
  then show ?case using utf8_ascii_cut[of c "[]" s] by simp
qed simp

lemma utf8_Nil_iff [simp]: "utf8 s = [] \<longleftrightarrow> s = []"
  using utf8_length[of s] by (cases s rule: utf8.cases) (auto simp: utf8_cp_def)

end
