(* ===== verification/Errors.thy ===== *)
theory Errors
  imports Json
begin

text \<open>
  The stable error vocabulary of \<^verbatim>\<open>remote-core/src/errors.ts\<close>. A JavaScript exception is a
  value of \<open>thrown\<close>: a \<open>RemoteError\<close>, another \<open>Error\<close> with its message, or any other
  thrown value with what \<open>String(value)\<close> makes of it.
\<close>

datatype RemoteErrorCode =
    REMOTE_CONN_LOST
  | REMOTE_AUTH_FAILED
  | REMOTE_TIMEOUT
  | REMOTE_NOT_BOOTSTRAPPED
  | REMOTE_SESSION_LOCKED
  | REMOTE_PROTOCOL_ERROR
  | REMOTE_ABORTED
  | REMOTE_CAPABILITY_UNSUPPORTED

definition REMOTE_ERROR_CODES :: "RemoteErrorCode list" where
  "REMOTE_ERROR_CODES =
     [REMOTE_CONN_LOST, REMOTE_AUTH_FAILED, REMOTE_TIMEOUT, REMOTE_NOT_BOOTSTRAPPED,
      REMOTE_SESSION_LOCKED, REMOTE_PROTOCOL_ERROR, REMOTE_ABORTED,
      REMOTE_CAPABILITY_UNSUPPORTED]"

fun code_text :: "RemoteErrorCode \<Rightarrow> jstr" where
  "code_text REMOTE_CONN_LOST = js ''REMOTE_CONN_LOST''"
| "code_text REMOTE_AUTH_FAILED = js ''REMOTE_AUTH_FAILED''"
| "code_text REMOTE_TIMEOUT = js ''REMOTE_TIMEOUT''"
| "code_text REMOTE_NOT_BOOTSTRAPPED = js ''REMOTE_NOT_BOOTSTRAPPED''"
| "code_text REMOTE_SESSION_LOCKED = js ''REMOTE_SESSION_LOCKED''"
| "code_text REMOTE_PROTOCOL_ERROR = js ''REMOTE_PROTOCOL_ERROR''"
| "code_text REMOTE_ABORTED = js ''REMOTE_ABORTED''"
| "code_text REMOTE_CAPABILITY_UNSUPPORTED = js ''REMOTE_CAPABILITY_UNSUPPORTED''"

text \<open>An \<open>unknown\<close> value is \<open>None\<close> when it is \<open>undefined\<close>.\<close>

definition isRemoteErrorCode :: "json option \<Rightarrow> bool" where
  "isRemoteErrorCode v =
     (case v of Some (JStr s) \<Rightarrow> s \<in> set (map code_text REMOTE_ERROR_CODES) | _ \<Rightarrow> False)"

text \<open>The code a guarded string denotes.\<close>

definition code_of :: "jstr \<Rightarrow> RemoteErrorCode option" where
  "code_of s = find (\<lambda>c. code_text c = s) REMOTE_ERROR_CODES"

datatype remote_error = RemoteError
    (err_code: RemoteErrorCode) (err_message: jstr) (err_data: "json option") (err_cause: "thrown option")
  and thrown =
    TRemote remote_error
  | TError jstr
  | TOther jstr

text \<open>A \<open>RemoteError\<close> built without options.\<close>

definition rerr :: "RemoteErrorCode \<Rightarrow> jstr \<Rightarrow> remote_error" where
  "rerr c m = RemoteError c m None None"

fun toRemoteError :: "thrown \<Rightarrow> RemoteErrorCode \<Rightarrow> remote_error" where
  "toRemoteError (TRemote e) fallback = e"
| "toRemoteError (TError m) fallback = RemoteError fallback m None (Some (TError m))"
| "toRemoteError (TOther m) fallback = RemoteError fallback m None (Some (TOther m))"

lemma code_text_inj [simp]: "code_text a = code_text b \<longleftrightarrow> a = b"
  by (cases a; cases b) (simp_all add: js_def)

lemma code_in_codes [simp]: "c \<in> set REMOTE_ERROR_CODES"
  by (cases c) (simp_all add: REMOTE_ERROR_CODES_def)

lemma code_of_text [simp]: "code_of (code_text c) = Some c"
  by (cases c) (simp_all add: code_of_def REMOTE_ERROR_CODES_def)

lemma isRemoteErrorCode_iff: "isRemoteErrorCode (Some (JStr s)) \<longleftrightarrow> (\<exists>c. s = code_text c)"
  by (auto simp: isRemoteErrorCode_def image_iff)

lemma code_of_guard: "isRemoteErrorCode v \<longleftrightarrow> (\<exists>s c. v = Some (JStr s) \<and> code_of s = Some c)"
proof
  assume "isRemoteErrorCode v"
  then show "\<exists>s c. v = Some (JStr s) \<and> code_of s = Some c"
    by (auto simp: isRemoteErrorCode_def split: option.splits json.splits)
next
  assume "\<exists>s c. v = Some (JStr s) \<and> code_of s = Some c"
  then obtain s c where "v = Some (JStr s)" "code_of s = Some c" by blast
  then show "isRemoteErrorCode v"
    by (auto simp: isRemoteErrorCode_def code_of_def find_Some_iff)
qed

text \<open>Whatever is thrown leaves with a code: its own, or the fallback.\<close>

lemma toRemoteError_code:
  "err_code (toRemoteError t fallback) = (case t of TRemote e \<Rightarrow> err_code e | _ \<Rightarrow> fallback)"
  by (cases t) simp_all

lemma toRemoteError_idem: "toRemoteError (TRemote (toRemoteError t c)) d = toRemoteError t c"
  by simp

end
