(* ===== verification/Framing.thy ===== *)
theory Framing
  imports Utf8 Errors
begin

text \<open>
  Newline-delimited framing, \<^verbatim>\<open>remote-core/src/framing.ts\<close>: \<open>encodeLine\<close>, the incremental
  \<open>LineDecoder\<close> (state \<open>line_decoder\<close>, methods \<open>push\<close> and \<open>flush\<close>) and the data frames
  of the channel multiplexer (\<open>encodeDataFrame\<close>, \<open>isFrameMessage\<close>, \<open>decodeDataFrame\<close>).

  A thrown exception is a value of the result; the decoder object keeps the fields it had
  written before the throw, so \<open>push\<close> always returns the new state. \<open>syn\<close> is the message of
  the engine's \<open>SyntaxError\<close> for a line, which the source passes on but does not define.
\<close>

definition DEFAULT_MAX_LINE_BYTES :: nat where
  "DEFAULT_MAX_LINE_BYTES = 8 * 1024 * 1024"

definition FRAME_MARKER :: jstr where
  "FRAME_MARKER = js ''$dsh-remote-frame''"

definition encodeLine :: "json \<Rightarrow> bytes" where
  "encodeLine obj = utf8 (stringify obj @ [10])"

section \<open>The line decoder\<close>

record line_decoder =
  maxLineBytes :: nat
  ld_decoder :: text_decoder
  ld_tail :: jstr
  ld_lineBytes :: nat

definition LineDecoder :: "nat \<Rightarrow> line_decoder" where
  "LineDecoder n = \<lparr>maxLineBytes = n, ld_decoder = td_new, ld_tail = [], ld_lineBytes = 0\<rparr>"

text \<open>White space and line terminators that \<open>String.prototype.trim\<close> removes.\<close>

definition is_js_ws :: "nat \<Rightarrow> bool" where
  "is_js_ws c \<longleftrightarrow> 9 \<le> c \<and> c \<le> 13 \<or> c = 32 \<or> c = 160 \<or> c = 5760 \<or> 8192 \<le> c \<and> c \<le> 8202
     \<or> c = 8232 \<or> c = 8233 \<or> c = 8239 \<or> c = 8287 \<or> c = 12288 \<or> c = 65279"

definition blank :: "jstr \<Rightarrow> bool" where
  "blank s \<longleftrightarrow> list_all is_js_ws s"

text \<open>\<open>tail.slice(0, nl)\<close> and \<open>tail.slice(nl + 1)\<close> for the first newline, if there is one.\<close>

definition next_line :: "jstr \<Rightarrow> (jstr \<times> jstr) option" where
  "next_line s = (if 10 \<in> set s
     then Some (takeWhile (\<lambda>c. c \<noteq> 10) s, tl (dropWhile (\<lambda>c. c \<noteq> 10) s)) else None)"

lemma next_line_length: "next_line s = Some (raw, rest) \<Longrightarrow> length rest < length s"
proof -
  assume "next_line s = Some (raw, rest)"
  then have n: "10 \<in> set s" and r: "rest = tl (dropWhile (\<lambda>c. c \<noteq> 10) s)"
    by (auto simp: next_line_def split: if_splits)
  from n have "dropWhile (\<lambda>c. c \<noteq> 10) s \<noteq> []" by auto
  then have "length rest < length (dropWhile (\<lambda>c. c \<noteq> 10) s)"
    by (simp add: r)
  then show ?thesis using length_dropWhile_le[of "\<lambda>c. c \<noteq> 10" s] by linarith
qed

text \<open>What one \<open>push\<close> takes out of the tail.\<close>

record drained =
  dr_tail :: jstr
  dr_out :: "json list"
  dr_invalid :: "jstr list"
  dr_throw :: "jstr option"

function drain :: "bool \<Rightarrow> jstr \<Rightarrow> drained" where
  "drain h s =
     (case next_line s of
        None \<Rightarrow> \<lparr>dr_tail = s, dr_out = [], dr_invalid = [], dr_throw = None\<rparr>
      | Some (raw, rest) \<Rightarrow>
          if blank raw then drain h rest
          else
            (case json_parse raw of
               Some v \<Rightarrow> (let d = drain h rest in d\<lparr>dr_out := v # dr_out d\<rparr>)
             | None \<Rightarrow>
                 if h then (let d = drain h rest in d\<lparr>dr_invalid := raw # dr_invalid d\<rparr>)
                 else \<lparr>dr_tail = rest, dr_out = [], dr_invalid = [], dr_throw = Some raw\<rparr>))"
  by pat_completeness auto
termination
  by (relation "measure (\<lambda>(h, s). length s)") (auto dest: next_line_length)

declare drain.simps [simp del]

text \<open>Result of \<open>push\<close>: lines given to the invalid-line handler, and the return value or the throw.\<close>

record push_result =
  pr_invalid :: "jstr list"
  pr_value :: "thrown + json list"

definition push :: "(jstr \<Rightarrow> jstr) \<Rightarrow> bool \<Rightarrow> line_decoder \<Rightarrow> bytes \<Rightarrow> line_decoder \<times> push_result" where
  "push syn h ld chunk =
     (let lb = ld_lineBytes ld + length chunk in
      if lb > maxLineBytes ld then
        (ld\<lparr>ld_lineBytes := lb\<rparr>,
         \<lparr>pr_invalid = [], pr_value = Inl (TRemote (rerr REMOTE_PROTOCOL_ERROR
            (js ''framing line exceeds the '' @ digits (maxLineBytes ld) @ js ''-byte limit'')))\<rparr>)
      else
        (let (td, u) = td_run (ld_decoder ld) chunk;
             s = ld_tail ld @ u;
             d = drain h s
         in (ld\<lparr>ld_decoder := td, ld_tail := dr_tail d,
               ld_lineBytes := (if next_line s = None then lb else length (utf8 (dr_tail d)))\<rparr>,
             \<lparr>pr_invalid = dr_invalid d,
              pr_value = (case dr_throw d of None \<Rightarrow> Inr (dr_out d)
                | Some raw \<Rightarrow> Inl (TError (syn raw)))\<rparr>)))"

definition flush :: "line_decoder \<Rightarrow> line_decoder \<times> (remote_error + unit)" where
  "flush ld =
     (let (td, u) = td_flush (ld_decoder ld); rest = ld_tail ld @ u
      in (ld\<lparr>ld_decoder := td, ld_tail := [], ld_lineBytes := 0\<rparr>,
          if \<not> blank rest
          then Inl (rerr REMOTE_PROTOCOL_ERROR (js ''stream ended with a truncated line''))
          else Inr ()))"

section \<open>Base64\<close>

text \<open>
  \<open>Buffer.toString('base64')\<close> and \<open>Buffer.from(s, 'base64')\<close>; the decoder accepts both
  alphabets and skips every other character.
\<close>

definition b64_char :: "nat \<Rightarrow> nat" where
  "b64_char n = (if n < 26 then 65 + n else if n < 52 then 71 + n else if n < 62 then n - 4
     else if n = 62 then 43 else 47)"

definition b64_val :: "nat \<Rightarrow> nat option" where
  "b64_val c = (if 65 \<le> c \<and> c \<le> 90 then Some (c - 65)
     else if 97 \<le> c \<and> c \<le> 122 then Some (c - 71)
     else if 48 \<le> c \<and> c \<le> 57 then Some (c + 4)
     else if c = 43 \<or> c = 45 then Some 62
     else if c = 47 \<or> c = 95 then Some 63 else None)"

fun b64_encode :: "bytes \<Rightarrow> jstr" where
  "b64_encode [] = []"
| "b64_encode [a] = [b64_char (a div 4), b64_char (a mod 4 * 16), 61, 61]"
| "b64_encode [a, b] =
     [b64_char (a div 4), b64_char (a mod 4 * 16 + b div 16), b64_char (b mod 16 * 4), 61]"
| "b64_encode (a # b # c # r) =
     b64_char (a div 4) # b64_char (a mod 4 * 16 + b div 16) #
     b64_char (b mod 16 * 4 + c div 64) # b64_char (c mod 64) # b64_encode r"

fun b64_group :: "nat list \<Rightarrow> bytes" where
  "b64_group (w # x # y # z # r) =
     (w * 4 + x div 16) # (x mod 16 * 16 + y div 4) # (y mod 4 * 64 + z) # b64_group r"
| "b64_group [w, x, y] = [w * 4 + x div 16, x mod 16 * 16 + y div 4]"
| "b64_group [w, x] = [w * 4 + x div 16]"
| "b64_group _ = []"

definition b64_decode :: "jstr \<Rightarrow> bytes" where
  "b64_decode s = b64_group (List.map_filter b64_val s)"

section \<open>Data frames\<close>

datatype frame_type = FData | FEnd | FError

fun frame_type_text :: "frame_type \<Rightarrow> jstr" where
  "frame_type_text FData = js ''data''"
| "frame_type_text FEnd = js ''end''"
| "frame_type_text FError = js ''error''"

record data_frame =
  fr_channel :: int
  fr_type :: frame_type
  fr_payload :: "bytes option"
  fr_message :: "jstr option"

definition frame_json :: "data_frame \<Rightarrow> json" where
  "frame_json f = JObj
     ([(FRAME_MARKER, JInt 1), (js ''channel'', JInt (fr_channel f)),
       (js ''type'', JStr (frame_type_text (fr_type f)))] @
      (case fr_payload f of None \<Rightarrow> [] | Some p \<Rightarrow> [(js ''payload'', JStr (b64_encode p))]) @
      (case fr_message f of None \<Rightarrow> [] | Some m \<Rightarrow> [(js ''message'', JStr m)]))"

definition encodeDataFrame :: "data_frame \<Rightarrow> bytes" where
  "encodeDataFrame f = encodeLine (frame_json f)"

definition isFrameMessage :: "json \<Rightarrow> bool" where
  "isFrameMessage v = (case v of JObj ms \<Rightarrow> map_of ms FRAME_MARKER = Some (JInt 1) | _ \<Rightarrow> False)"

text \<open>\<open>typeof x === 'number' && Number.isInteger(x) && x >= 0\<close>\<close>

definition channel_of :: "json option \<Rightarrow> int option" where
  "channel_of v = (case v of Some (JNum m k) \<Rightarrow> if k = 0 \<and> 0 \<le> m then Some m else None | _ \<Rightarrow> None)"

definition str_of :: "json option \<Rightarrow> jstr option" where
  "str_of v = (case v of Some (JStr s) \<Rightarrow> Some s | _ \<Rightarrow> None)"

definition decodeDataFrame :: "json \<Rightarrow> data_frame option" where
  "decodeDataFrame v =
     (if \<not> isFrameMessage v then None
      else case v of
        JObj ms \<Rightarrow>
          (case channel_of (get_key ms ''channel'') of
             None \<Rightarrow> None
           | Some ch \<Rightarrow>
               (case find (\<lambda>t. get_key ms ''type'' = Some (JStr (frame_type_text t))) [FData, FEnd, FError] of
                  None \<Rightarrow> None
                | Some t \<Rightarrow> Some \<lparr>fr_channel = ch, fr_type = t,
                    fr_payload = map_option b64_decode (str_of (get_key ms ''payload'')),
                    fr_message = str_of (get_key ms ''message'')\<rparr>))
      | _ \<Rightarrow> None)"

section \<open>Draining lines\<close>

lemma next_line_None [simp]: "next_line s = None \<longleftrightarrow> 10 \<notin> set s"
  by (simp add: next_line_def)

lemma next_line_first: "10 \<notin> set raw \<Longrightarrow> next_line (raw @ 10 # s) = Some (raw, s)"
  by (simp add: next_line_def takeWhile_append dropWhile_append)

lemma drain_no_newline:
  "10 \<notin> set s \<Longrightarrow> drain h s = \<lparr>dr_tail = s, dr_out = [], dr_invalid = [], dr_throw = None\<rparr>"
  by (subst drain.simps) (simp add: next_line_def)

lemma drain_line:
  assumes "10 \<notin> set raw"
  shows "drain h (raw @ 10 # s) =
     (if blank raw then drain h s
      else (case json_parse raw of
              Some v \<Rightarrow> (drain h s)\<lparr>dr_out := v # dr_out (drain h s)\<rparr>
            | None \<Rightarrow> if h then (drain h s)\<lparr>dr_invalid := raw # dr_invalid (drain h s)\<rparr>
                else \<lparr>dr_tail = s, dr_out = [], dr_invalid = [], dr_throw = Some raw\<rparr>))"
  by (subst drain.simps) (simp add: next_line_first[OF assms] Let_def split: option.split)

text \<open>Induction over the lines of a string.\<close>

lemma line_induct [case_names last line]:
  assumes "\<And>s. 10 \<notin> set s \<Longrightarrow> P s"
    and "\<And>raw s. 10 \<notin> set raw \<Longrightarrow> P s \<Longrightarrow> P (raw @ 10 # s)"
  shows "P (s :: jstr)"
proof (induction s rule: length_induct)
  case (1 s)
  show ?case
  proof (cases "10 \<in> set s")
    case True
    then obtain raw r where s: "s = raw @ 10 # r" "10 \<notin> set raw" by (meson split_list_first)
    then have "P r" using 1 by simp
    with s assms(2) show ?thesis by simp
  qed (use assms(1) in simp)
qed

definition dr_seq :: "drained \<Rightarrow> drained \<Rightarrow> drained" where
  "dr_seq d e = \<lparr>dr_tail = dr_tail e, dr_out = dr_out d @ dr_out e,
     dr_invalid = dr_invalid d @ dr_invalid e, dr_throw = dr_throw e\<rparr>"

lemma drain_tail_no_newline: "dr_throw (drain h s) = None \<Longrightarrow> 10 \<notin> set (dr_tail (drain h s))"
  by (induction s rule: line_induct)
     (auto simp: drain_no_newline drain_line split: if_splits option.splits)

lemma drain_append:
  "dr_throw (drain h s) = None \<Longrightarrow>
   drain h (s @ t) = dr_seq (drain h s) (drain h (dr_tail (drain h s) @ t))"
  by (induction s rule: line_induct)
     (auto simp: drain_no_newline drain_line dr_seq_def split: if_splits option.splits)

lemma drain_throw_append: "dr_throw (drain h s) = Some r \<Longrightarrow> dr_throw (drain h (s @ t)) = Some r"
  by (induction s rule: line_induct)
     (auto simp: drain_no_newline drain_line split: if_splits option.splits)

lemma drain_handler_no_throw: "dr_throw (drain True s) = None"
  by (induction s rule: line_induct)
     (auto simp: drain_no_newline drain_line split: if_splits option.splits)

lemma drain_tail_length:
  "dr_throw (drain h s) = None \<Longrightarrow> 10 \<in> set s \<Longrightarrow> length (dr_tail (drain h s)) < length s"
proof (induction s rule: line_induct)
  case (line raw s)
  then show ?case
    by (cases "10 \<in> set s") (auto simp: drain_no_newline drain_line split: if_splits option.splits)
qed simp

text \<open>The tail is what follows the last newline.\<close>

lemma drain_tail_suffix:
  assumes "dr_throw (drain h (s @ 10 # t)) = None" and "10 \<notin> set t"
  shows "dr_tail (drain h (s @ 10 # t)) = t"
  using assms
proof (induction s rule: line_induct)
  case (last s)
  then show ?case by (auto simp: drain_no_newline drain_line split: if_splits option.splits)
next
  case (line raw s)
  have "dr_throw (drain h (raw @ 10 # (s @ 10 # t))) = None" using line.prems by simp
  then show ?case
    using line by (auto simp: drain_line[OF line.hyps] split: if_splits option.splits)
qed

section \<open>Chunks\<close>

text \<open>
  The consumers' loop \<open>for await (const chunk of inbound) for (const msg of decoder.push(chunk))\<close>,
  which stops at the first throw.
\<close>

fun push_all :: "(jstr \<Rightarrow> jstr) \<Rightarrow> bool \<Rightarrow> line_decoder \<Rightarrow> bytes list \<Rightarrow>
    line_decoder \<times> jstr list \<times> json list \<times> thrown option" where
  "push_all syn h ld [] = (ld, [], [], None)"
| "push_all syn h ld (c # cs) =
     (case push syn h ld c of
        (ld1, r) \<Rightarrow>
          (case pr_value r of
             Inl e \<Rightarrow> (ld1, pr_invalid r, [], Some e)
           | Inr vs \<Rightarrow>
               (case push_all syn h ld1 cs of
                  (ld2, bad, out, e) \<Rightarrow> (ld2, pr_invalid r @ bad, vs @ out, e))))"

lemma push_ok:
  assumes "push syn h ld c = (ld', r)" and "pr_value r = Inr vs"
    and "td_run (ld_decoder ld) c = (td, u)" and "d = drain h (ld_tail ld @ u)"
  shows "ld_lineBytes ld + length c \<le> maxLineBytes ld \<and> ld_decoder ld' = td \<and> ld_tail ld' = dr_tail d
    \<and> vs = dr_out d \<and> pr_invalid r = dr_invalid d \<and> dr_throw d = None
    \<and> maxLineBytes ld' = maxLineBytes ld
    \<and> ld_lineBytes ld' = (if 10 \<in> set (ld_tail ld @ u) then length (utf8 (dr_tail d))
        else ld_lineBytes ld + length c)"
  using assms by (auto simp: push_def Let_def split: if_splits option.splits)

text \<open>
  What is decoded is a function of the bytes, not of how they were cut into chunks: the run over
  all chunks is one \<open>drain\<close> of the decoded concatenation.
\<close>

lemma push_all_concat:
  assumes "push_all syn h ld cs = (ld', bad, out, None)" and "10 \<notin> set (ld_tail ld)"
    and "td_run (ld_decoder ld) (concat cs) = (td, u)" and "d = drain h (ld_tail ld @ u)"
  shows "out = dr_out d \<and> bad = dr_invalid d \<and> ld_tail ld' = dr_tail d \<and> ld_decoder ld' = td
    \<and> dr_throw d = None"
  using assms
proof (induction cs arbitrary: ld ld' bad out td u d)
  case Nil
  then show ?case by (simp add: drain_no_newline)
next
  case (Cons c cs)
  obtain ld1 r where p: "push syn h ld c = (ld1, r)" by force
  obtain vs where vs: "pr_value r = Inr vs"
    using Cons.prems(1) p by (auto split: sum.splits)
  obtain ld2 bad2 out2 where q: "push_all syn h ld1 cs = (ld2, bad2, out2, None)"
    and res: "ld' = ld2" "bad = pr_invalid r @ bad2" "out = vs @ out2"
    using Cons.prems(1) p vs by (auto split: prod.splits)
  obtain td1 u1 where t1: "td_run (ld_decoder ld) c = (td1, u1)" by force
  obtain td2 u2 where t2: "td_run td1 (concat cs) = (td2, u2)" by force
  have u: "td = td2" "u = u1 @ u2"
    using Cons.prems(3) t1 t2 by (auto simp: td_run_append)
  let ?d1 = "drain h (ld_tail ld @ u1)"
  note ok = push_ok[OF p vs t1 refl]
  then have nt: "dr_throw ?d1 = None" by blast
  have "10 \<notin> set (ld_tail ld1)" using ok drain_tail_no_newline[OF nt] by simp
  from Cons.IH[OF q this _ refl] t2 ok
  have IH: "out2 = dr_out (drain h (dr_tail ?d1 @ u2))" "bad2 = dr_invalid (drain h (dr_tail ?d1 @ u2))"
    "ld_tail ld2 = dr_tail (drain h (dr_tail ?d1 @ u2))" "ld_decoder ld2 = td2"
    "dr_throw (drain h (dr_tail ?d1 @ u2)) = None" by auto
  have "d = dr_seq ?d1 (drain h (dr_tail ?d1 @ u2))"
    using drain_append[OF nt, of u2] Cons.prems(4) u by simp
  then show ?case using IH ok res u by (simp add: dr_seq_def)
qed

section \<open>Encoded lines\<close>

lemma utf8_newline_iff:
  assumes "wf_utf16 s"
  shows "10 \<in> set (utf8 s) \<longleftrightarrow> 10 \<in> set s"
  using td_run_newline[OF td_inv_idle td_run_utf8_True[OF assms]] by blast

lemma encodeLine_shape:
  assumes "wf_json v"
  obtains e where "encodeLine v = e @ [10]" and "10 \<notin> set e" and "e = utf8 (stringify v)"
proof
  show "encodeLine v = utf8 (stringify v) @ [10]"
    using wf_utf16_stringify[OF assms] by (simp add: encodeLine_def utf8_append utf8_cp_def scalar_def is_high_def is_low_def)
  show "10 \<notin> set (utf8 (stringify v))"
    using utf8_newline_iff[OF wf_utf16_stringify[OF assms]] stringify_no_newline[OF assms] by simp
qed simp

definition lines_of :: "json list \<Rightarrow> jstr" where
  "lines_of ms = concat (map (\<lambda>v. stringify v @ [10]) ms)"

definition encodeLines :: "json list \<Rightarrow> bytes" where
  "encodeLines ms = concat (map encodeLine ms)"

lemma encodeLines_simps [simp]:
  "encodeLines [] = []"
  "encodeLines (v # ms) = encodeLine v @ encodeLines ms"
  "encodeLines (xs @ ys) = encodeLines xs @ encodeLines ys"
  by (simp_all add: encodeLines_def)

lemma lines_of_simps [simp]:
  "lines_of [] = []"
  "lines_of (v # ms) = stringify v @ 10 # lines_of ms"
  by (simp_all add: lines_of_def)

lemma wf_lines: "list_all wf_json ms \<Longrightarrow> wf_utf16 (lines_of ms)"
proof (induction ms)
  case (Cons v ms)
  then show ?case
    using wf_utf16_append[OF wf_utf16_line[of v], of "lines_of ms"] by simp
qed simp

lemma utf8_lines: "list_all wf_json ms \<Longrightarrow> utf8 (lines_of ms) = encodeLines ms"
proof (induction ms)
  case (Cons v ms)
  then show ?case
    using utf8_append[OF wf_utf16_line[of v], of "lines_of ms"] by (simp add: encodeLine_def)
qed simp

lemma start_not_bom: "start_char c \<Longrightarrow> c \<noteq> 65279 \<and> \<not> is_js_ws c"
  by (auto simp: start_char_def is_digit_def is_js_ws_def)

lemma stringify_not_blank: "\<not> blank (stringify v)"
  using stringify_start[of v] start_not_bom by (auto simp: blank_def)

lemma lines_of_hd: "ms \<noteq> [] \<Longrightarrow> lines_of ms \<noteq> [] \<and> hd (lines_of ms) \<noteq> 65279"
  using stringify_start start_not_bom by (cases ms) (auto, metis hd_append list.sel(1) list.distinct(1))

lemma drain_lines:
  "list_all wf_json ms \<Longrightarrow> 10 \<notin> set t \<Longrightarrow>
   drain h (lines_of ms @ t) = \<lparr>dr_tail = t, dr_out = ms, dr_invalid = [], dr_throw = None\<rparr>"
  by (induction ms)
     (simp_all add: drain_no_newline drain_line stringify_no_newline stringify_not_blank json_parse_stringify)

lemma first_newline_unique:
  "a @ 10 # x = b @ 10 # y \<Longrightarrow> 10 \<notin> set a \<Longrightarrow> 10 \<notin> set b \<Longrightarrow> a = b \<and> x = (y :: jstr)"
  by (metis next_line_first option.inject prod.inject)

text \<open>A newline byte in a stream of encoded lines ends one of them.\<close>

lemma encodeLines_split:
  "list_all wf_json ms \<Longrightarrow> encodeLines ms = A @ 10 # B \<Longrightarrow>
   \<exists>ms1 ms2. ms = ms1 @ ms2 \<and> A @ [10] = encodeLines ms1 \<and> B = encodeLines ms2"
proof (induction ms arbitrary: A)
  case (Cons v ms)
  have "wf_json v" using Cons.prems(1) by simp
  then obtain e where e: "encodeLine v = e @ [10]" "10 \<notin> set e" using encodeLine_shape by blast
  have eq: "e @ 10 # encodeLines ms = A @ 10 # B" using Cons.prems(2) e by simp
  show ?case
  proof (cases "10 \<in> set A")
    case False
    then have "A = e" "B = encodeLines ms" using first_newline_unique[OF eq] e(2) by auto
    then show ?thesis using e by (intro exI[of _ "[v]"] exI[of _ ms]) simp
  next
    case True
    then obtain A1 A2 where A: "A = A1 @ 10 # A2" "10 \<notin> set A1" by (meson split_list_first)
    then have "A1 = e" "encodeLines ms = A2 @ 10 # B"
      using first_newline_unique[of e "encodeLines ms" A1 "A2 @ 10 # B"] eq e(2) by simp_all
    then obtain ms1 ms2 where "ms = ms1 @ ms2" "A2 @ [10] = encodeLines ms1" "B = encodeLines ms2"
      using Cons.IH Cons.prems(1) by auto
    then show ?thesis
      using A e \<open>A1 = e\<close> by (intro exI[of _ "v # ms1"] exI[of _ ms2]) simp
  qed
qed simp

lemma encodeLines_partial:
  assumes "list_all wf_json ms" and "Q @ R = encodeLines ms" and "10 \<notin> set Q"
  shows "Q = [] \<or> (\<exists>v \<in> set ms. length Q \<le> length (encodeLine v))"
proof (cases ms)
  case (Cons v vs)
  have "wf_json v" using assms(1) Cons by simp
  then obtain e where e: "encodeLine v = e @ [10]" "10 \<notin> set e" using encodeLine_shape by blast
  have "Q @ R = e @ 10 # encodeLines vs" using assms(2) Cons e by simp
  then have "length Q \<le> length e" using assms(3)
    by (auto simp: append_eq_append_conv2 append_eq_Cons_conv)
  then show ?thesis using Cons e by auto
qed (use assms in simp)

section \<open>The round trip through any chunking\<close>

text \<open>The decoder has read the bytes \<open>Q\<close> of an unfinished line, and nothing else is buffered.\<close>

definition reading :: "line_decoder \<Rightarrow> bytes \<Rightarrow> bool" where
  "reading ld Q \<longleftrightarrow> (\<exists>bom. td_run (td_idle bom) Q = (ld_decoder ld, ld_tail ld))
     \<and> ld_lineBytes ld \<le> length Q"

lemma last_newline:
  "(10 \<notin> set xs) \<or> (\<exists>A B. xs = A @ 10 # B \<and> 10 \<notin> set (B::nat list))"
  by (meson split_list_last)

lemma push_step:
  assumes rd: "reading ld Q" and nQ: "10 \<notin> set Q" and wf: "list_all wf_json ms"
    and eq: "Q @ c @ R = encodeLines ms" and lim: "length Q + length c \<le> maxLineBytes ld"
  shows "\<exists>ms1 ms2 Q'. ms = ms1 @ ms2 \<and> Q' @ R = encodeLines ms2 \<and> 10 \<notin> set Q' \<and>
    (\<exists>ld'. push syn h ld c = (ld', \<lparr>pr_invalid = [], pr_value = Inr ms1\<rparr>) \<and> reading ld' Q' \<and>
      maxLineBytes ld' = maxLineBytes ld)"
proof -
  obtain bom where run: "td_run (td_idle bom) Q = (ld_decoder ld, ld_tail ld)"
    and lb: "ld_lineBytes ld \<le> length Q" using rd by (auto simp: reading_def)
  obtain td u where t: "td_run (ld_decoder ld) c = (td, u)" by force
  have all: "td_run (td_idle bom) (Q @ c) = (td, ld_tail ld @ u)"
    using run t by (simp add: td_run_append)
  have ok: "\<not> ld_lineBytes ld + length c > maxLineBytes ld" using lb lim by linarith
  show ?thesis
  proof (cases "10 \<in> set c")
    case False
    then have n: "10 \<notin> set (ld_tail ld @ u)"
      using td_run_newline[OF td_inv_idle all] nQ by auto
    let ?ld = "ld\<lparr>ld_decoder := td, ld_tail := ld_tail ld @ u, ld_lineBytes := ld_lineBytes ld + length c\<rparr>"
    have "push syn h ld c = (?ld, \<lparr>pr_invalid = [], pr_value = Inr []\<rparr>)"
      using ok t n by (simp add: push_def Let_def drain_no_newline)
    moreover have "reading ?ld (Q @ c)" using all lb by (auto simp: reading_def)
    ultimately show ?thesis
      using eq False nQ by (intro exI[of _ "[]"] exI[of _ ms] exI[of _ "Q @ c"]) simp
  next
    case True
    then obtain A B where AB: "Q @ c = A @ 10 # B" "10 \<notin> set B"
      using last_newline[of "Q @ c"] by auto
    then have "encodeLines ms = A @ 10 # (B @ R)" using eq by (metis append.assoc append_Cons)
    then obtain ms1 ms2 where ms: "ms = ms1 @ ms2" "A @ [10] = encodeLines ms1" "B @ R = encodeLines ms2"
      using encodeLines_split[OF wf] by blast
    have wf12: "list_all wf_json ms1" "list_all wf_json ms2" using wf ms(1) by simp_all
    have ne: "ms1 \<noteq> []" using ms(2) by auto
    obtain tu where tu: "td_run (td_idle True) B = (td, tu)" "ld_tail ld @ u = lines_of ms1 @ tu"
    proof -
      have "td_run (td_idle bom) (encodeLines ms1) = (td_idle True, lines_of ms1)"
        using td_run_utf8[OF wf_lines[OF wf12(1)]] lines_of_hd[OF ne] utf8_lines[OF wf12(1)] by metis
      moreover have "Q @ c = encodeLines ms1 @ B" using AB ms(2) by (metis append.assoc append_Cons append_Nil)
      ultimately show ?thesis using all that by (auto simp: td_run_append split: prod.splits)
    qed
    have nt: "10 \<notin> set tu" using td_run_newline[OF td_inv_idle tu(1)] AB(2) by blast
    have d: "drain h (ld_tail ld @ u) = \<lparr>dr_tail = tu, dr_out = ms1, dr_invalid = [], dr_throw = None\<rparr>"
      using drain_lines[OF wf12(1) nt] tu(2) by simp
    have "next_line (ld_tail ld @ u) \<noteq> None" using tu(2) ne by (cases ms1) auto
    then obtain w where nl: "next_line (ld_tail ld @ u) = Some w" by blast
    have p: "push syn h ld c = (ld\<lparr>ld_decoder := td, ld_tail := tu, ld_lineBytes := length (utf8 tu)\<rparr>,
        \<lparr>pr_invalid = [], pr_value = Inr ms1\<rparr>)"
      using ok t d nl by (simp only: push_def Let_def) (simp del: next_line_None)
    have "length (utf8 tu) \<le> length B"
      using utf8_prefix_length[OF wf_lines[OF wf12(2)]] utf8_lines[OF wf12(2)] ms(3) tu(1)
      by (metis snd_conv)
    then have "reading (ld\<lparr>ld_decoder := td, ld_tail := tu, ld_lineBytes := length (utf8 tu)\<rparr>) B"
      using tu(1) by (auto simp: reading_def)
    with p show ?thesis using ms AB(2) by fastforce
  qed
qed

lemma push_all_messages:
  assumes "reading ld Q" and "10 \<notin> set Q" and "list_all wf_json ms"
    and "Q @ concat cs = encodeLines ms"
    and "\<forall>v \<in> set ms. \<forall>c \<in> set cs. length (encodeLine v) + length c \<le> maxLineBytes ld"
    and "\<forall>c \<in> set cs. length c \<le> maxLineBytes ld"
  shows "\<exists>ld'. push_all syn h ld cs = (ld', [], ms, None) \<and> reading ld' []"
  using assms
proof (induction cs arbitrary: ld Q ms)
  case Nil
  have "Q = []" "ms = []"
  proof -
    have "ms = []"
    proof (rule ccontr)
      assume "ms \<noteq> []"
      then obtain v vs where v: "ms = v # vs" by (cases ms) auto
      then have "wf_json v" using Nil.prems(3) by simp
      then obtain e where "encodeLine v = e @ [10]" using encodeLine_shape by blast
      then have "10 \<in> set (encodeLines ms)" using v by simp
      then show False using Nil.prems by simp
    qed
    then show "Q = []" "ms = []" using Nil.prems by simp_all
  qed
  then show ?case using Nil.prems by simp
next
  case (Cons c cs)
  have lim: "length Q + length c \<le> maxLineBytes ld"
    using encodeLines_partial[OF Cons.prems(3,4,2)] Cons.prems(5,6) by fastforce
  have eq: "Q @ c @ concat cs = encodeLines ms" using Cons.prems(4) by simp
  obtain ms1 ms2 Q' ld1 where s: "ms = ms1 @ ms2" "Q' @ concat cs = encodeLines ms2" "10 \<notin> set Q'"
    "push syn h ld c = (ld1, \<lparr>pr_invalid = [], pr_value = Inr ms1\<rparr>)" "reading ld1 Q'"
    "maxLineBytes ld1 = maxLineBytes ld"
    using push_step[OF Cons.prems(1,2,3) eq lim] by blast
  then obtain ld2 where "push_all syn h ld1 cs = (ld2, [], ms2, None)" "reading ld2 []"
    using Cons.IH[OF s(5,3) _ s(2)] Cons.prems(3,5,6) by auto
  then show ?case using s by simp
qed

lemma reading_flush: "reading ld [] \<Longrightarrow> snd (flush ld) = Inr ()"
proof -
  assume "reading ld []"
  then obtain bom where "ld_decoder ld = td_idle bom" "ld_tail ld = []" by (auto simp: reading_def dest: sym)
  then show ?thesis by (simp add: flush_def td_flush_def blank_def)
qed

lemma reading_new: "reading (LineDecoder n) []"
  by (auto simp: reading_def LineDecoder_def td_new_def)

subsection \<open>The transport contract\<close>

text \<open>
  What the users of the framing layer rely on: messages written with \<open>enc\<close> arrive, whole and in
  order, however the byte stream is cut, as long as chunk and line sizes stay within the limit
  (\<open>fits\<close>).
\<close>

locale line_transport =
  fixes ok :: "'m \<Rightarrow> bool"
    and enc :: "'m \<Rightarrow> bytes"
    and fits :: "nat \<Rightarrow> 'm list \<Rightarrow> bytes list \<Rightarrow> bool"
    and recv :: "nat \<Rightarrow> bytes list \<Rightarrow> 'm list option"
  assumes delivered:
    "list_all ok ms \<Longrightarrow> concat cs = concat (map enc ms) \<Longrightarrow> fits n ms cs \<Longrightarrow> recv n cs = Some ms"
begin

lemma rechunk:
  "list_all ok ms \<Longrightarrow> concat cs = concat (map enc ms) \<Longrightarrow> concat ds = concat cs \<Longrightarrow>
   fits n ms cs \<Longrightarrow> fits n ms ds \<Longrightarrow> recv n ds = recv n cs"
  by (simp add: delivered)

lemma enc_injective:
  "list_all ok ms \<Longrightarrow> list_all ok ms' \<Longrightarrow> concat (map enc ms) = concat (map enc ms') \<Longrightarrow>
   concat cs = concat (map enc ms) \<Longrightarrow> fits n ms cs \<Longrightarrow> fits n ms' cs \<Longrightarrow> ms = ms'"
  by (metis delivered option.inject)

end

text \<open>A transport together with a typed view of its messages.\<close>

locale typed_transport = line_transport ok enc fits recv
  for ok :: "'m \<Rightarrow> bool" and enc fits recv +
  fixes put :: "'f \<Rightarrow> 'm" and get :: "'m \<Rightarrow> 'f option" and good :: "'f \<Rightarrow> bool"
  assumes put_ok: "good f \<Longrightarrow> ok (put f)"
    and get_put: "good f \<Longrightarrow> get (put f) = Some f"
begin

lemma typed_delivered:
  assumes "list_all good fs" and "concat cs = concat (map (\<lambda>f. enc (put f)) fs)"
    and "fits n (map put fs) cs"
  shows "map_option (List.map_filter get) (recv n cs) = Some fs"
proof -
  have "list_all ok (map put fs)" using assms(1) by (auto simp: list_all_iff put_ok)
  moreover have "concat cs = concat (map enc (map put fs))" using assms(2) by (simp add: comp_def)
  ultimately have "recv n cs = Some (map put fs)" using assms(3) by (rule delivered)
  moreover have "List.map_filter get (map put fs) = fs"
    using assms(1) by (induction fs) (simp_all add: get_put)
  ultimately show ?thesis by simp
qed

end

definition fits_limit :: "nat \<Rightarrow> json list \<Rightarrow> bytes list \<Rightarrow> bool" where
  "fits_limit n ms cs \<longleftrightarrow> list_all (\<lambda>c. length c \<le> n) cs
     \<and> list_all (\<lambda>v. list_all (\<lambda>c. length (encodeLine v) + length c \<le> n) cs) ms"

text \<open>A decoder with an invalid-line handler that has consumed a whole stream and was flushed.\<close>

definition receive :: "nat \<Rightarrow> bytes list \<Rightarrow> json list option" where
  "receive n cs =
     (case push_all (\<lambda>_. []) True (LineDecoder n) cs of
        (ld, bad, out, e) \<Rightarrow>
          if bad = [] \<and> e = None \<and> snd (flush ld) = Inr () then Some out else None)"

lemma messages_delivered:
  assumes "list_all wf_json ms" and "concat cs = concat (map encodeLine ms)" and "fits_limit n ms cs"
  shows "\<exists>ld. push_all syn h (LineDecoder n) cs = (ld, [], ms, None) \<and> snd (flush ld) = Inr ()"
proof -
  have m: "maxLineBytes (LineDecoder n) = n" by (simp add: LineDecoder_def)
  have "[] @ concat cs = encodeLines ms" using assms(2) by (simp add: encodeLines_def)
  from push_all_messages[OF reading_new[of n] _ assms(1) this, where syn = syn and h = h] assms(3) m
  obtain ld where "push_all syn h (LineDecoder n) cs = (ld, [], ms, None)" "reading ld []"
    by (auto simp: fits_limit_def list_all_iff)
  then show ?thesis using reading_flush by blast
qed

interpretation json_lines: line_transport wf_json encodeLine fits_limit receive
proof unfold_locales
  fix ms cs n
  assume "list_all wf_json ms" "concat cs = concat (map encodeLine ms)" "fits_limit n ms cs"
  then obtain ld where "push_all (\<lambda>_. []) True (LineDecoder n) cs = (ld, [], ms, None)" "snd (flush ld) = Inr ()"
    using messages_delivered by blast
  then show "receive n cs = Some ms" by (simp add: receive_def)
qed

section \<open>Consumers of a byte stream\<close>

text \<open>
  The peer and the multiplexer both pump chunks through a decoder and handle the decoded messages
  one by one. For any such consumer, delivering the bytes of a sequence of messages in any chunks
  is handling the messages.
\<close>

locale line_pump =
  fixes dec :: "'s \<Rightarrow> line_decoder" and put_dec :: "line_decoder \<Rightarrow> 's \<Rightarrow> 's"
    and handle :: "'s \<Rightarrow> json \<Rightarrow> 's \<times> 'o list" and chunk :: "'s \<Rightarrow> bytes \<Rightarrow> 's \<times> 'o list"
    and live :: "'s \<Rightarrow> bool" and syn :: "jstr \<Rightarrow> jstr"
  assumes dec_put: "dec (put_dec ld s) = ld"
    and put_put: "put_dec ld (put_dec ld' s) = put_dec ld s"
    and put_same: "put_dec (dec s) s = s"
    and live_put: "live (put_dec ld s) = live s"
    and handle_put: "handle (put_dec ld s) v = (case handle s v of (s', out) \<Rightarrow> (put_dec ld s', out))"
    and handle_dec: "dec (fst (handle s v)) = dec s"
    and handle_live: "live (fst (handle s v)) = live s"
    and chunk_ok: "live s \<Longrightarrow> push syn True (dec s) c = (ld, \<lparr>pr_invalid = [], pr_value = Inr vs\<rparr>) \<Longrightarrow>
      chunk s c = steps handle (put_dec ld s) vs"
begin

lemma steps_put:
  "steps handle (put_dec ld s) vs = (case steps handle s vs of (s', out) \<Rightarrow> (put_dec ld s', out))"
  by (induction vs arbitrary: s) (auto simp: handle_put split: prod.splits)

lemma steps_keep: "dec (fst (steps handle s vs)) = dec s \<and> live (fst (steps handle s vs)) = live s"
proof (induction vs arbitrary: s)
  case (Cons v vs)
  then show ?case using Cons.IH[of "fst (handle s v)"] handle_dec[of s v] handle_live[of s v]
    by (simp add: case_prod_beta)
qed simp

lemma chunks_are_messages:
  assumes "push_all syn True (dec s) cs = (ld, [], vs, None)" and "live s"
  shows "steps chunk s cs = (case steps handle s vs of (s', out) \<Rightarrow> (put_dec ld s', out))"
  using assms
proof (induction cs arbitrary: s vs)
  case Nil
  then show ?case using put_same[of s] by (simp only: push_all.simps steps.simps) simp
next
  case (Cons c cs)
  obtain ld1 r where r: "push syn True (dec s) c = (ld1, r)" by force
  obtain v1 v2 where v: "pr_value r = Inr v1" "pr_invalid r = []" "vs = v1 @ v2"
    "push_all syn True ld1 cs = (ld, [], v2, None)"
    using Cons.prems(1) r by (auto split: sum.splits prod.splits)
  obtain s1 o1 where s1: "steps handle s v1 = (s1, o1)" by force
  have "r = \<lparr>pr_invalid = [], pr_value = Inr v1\<rparr>" using v(1,2) by (cases r) simp
  then have c: "chunk s c = (put_dec ld1 s1, o1)"
    using chunk_ok[OF Cons.prems(2)] r s1 by (simp add: steps_put)
  have "steps chunk (put_dec ld1 s1) cs = (case steps handle s1 v2 of (s', out) \<Rightarrow> (put_dec ld s', out))"
    using Cons.IH[of "put_dec ld1 s1" v2] v(4) steps_keep[of s v1] s1 Cons.prems(2)
    by (simp add: dec_put live_put steps_put put_put split: prod.split)
  then show ?case using v(3) s1 c by (simp add: steps_append split: prod.split)
qed

lemma deliver:
  assumes "live s" and "reading (dec s) []" and "list_all wf_json vs" and "concat cs = encodeLines vs"
    and "fits_limit (maxLineBytes (dec s)) vs cs"
  shows "\<exists>ld. reading ld [] \<and>
    steps chunk s cs = (case steps handle s vs of (s', out) \<Rightarrow> (put_dec ld s', out))"
proof -
  obtain ld where "push_all syn True (dec s) cs = (ld, [], vs, None)" "reading ld []"
    using push_all_messages[of "dec s" "[]" vs cs syn True] assms(2-5)
    by (auto simp: fits_limit_def list_all_iff)
  then show ?thesis using chunks_are_messages assms(1) by blast
qed

end

section \<open>Data frames\<close>

lemma b64_val_char [simp]: "n < 64 \<Longrightarrow> b64_val (b64_char n) = Some n"
  by (auto simp: b64_val_def b64_char_def)

lemma b64_val_pad [simp]: "b64_val 61 = None"
  by (simp add: b64_val_def)

lemma b64_bits:
  fixes a b c :: nat
  assumes "a < 256" "b < 256" "c < 256"
  shows "a div 4 < 64" "a mod 4 * 16 + b div 16 < 64" "b mod 16 * 4 + c div 64 < 64"
    "a div 4 * 4 + (a mod 4 * 16 + b div 16) div 16 = a"
    "(a mod 4 * 16 + b div 16) mod 16 * 16 + (b mod 16 * 4 + c div 64) div 4 = b"
    "(b mod 16 * 4 + c div 64) mod 4 * 64 + c mod 64 = c"
proof -
  have d: "a div 4 < 64" "b div 16 < 16" "c div 64 < 4" using assms by auto
  have m: "a mod 4 < 4" "b mod 16 < 16" by simp_all
  show "a div 4 < 64" by (rule d)
  show "a mod 4 * 16 + b div 16 < 64" "b mod 16 * 4 + c div 64 < 64" using d m by linarith+
  show "a div 4 * 4 + (a mod 4 * 16 + b div 16) div 16 = a" using d by simp
  show "(a mod 4 * 16 + b div 16) mod 16 * 16 + (b mod 16 * 4 + c div 64) div 4 = b" using d by simp
  show "(b mod 16 * 4 + c div 64) mod 4 * 64 + c mod 64 = c" using d by simp
qed

lemma b64_group_bits:
  fixes a b c :: nat
  assumes "a < 256" "b < 256" "c < 256"
  shows "b64_group (a div 4 # (a mod 4 * 16 + b div 16) # (b mod 16 * 4 + c div 64) # c mod 64 # r)
    = a # b # c # b64_group r"
  by (simp only: b64_group.simps b64_bits(4-6)[OF assms])

lemma b64_roundtrip: "bytes_ok bs \<Longrightarrow> b64_decode (b64_encode bs) = bs"
proof (induction bs rule: b64_encode.induct)
  case (2 a)
  then show ?case using b64_bits[of a 0 0] by (simp add: b64_decode_def bytes_ok_def)
next
  case (3 a b)
  then show ?case using b64_bits[of a b 0] by (simp add: b64_decode_def bytes_ok_def)
next
  case (4 a b c r)
  then have lt: "a < 256" "b < 256" "c < 256" and IH: "b64_decode (b64_encode r) = r"
    by (simp_all add: bytes_ok_def)
  show ?case
    using b64_group_bits[OF lt] b64_bits(1-3)[OF lt] IH by (simp add: b64_decode_def del: b64_group.simps)
qed (simp add: b64_decode_def)

lemma b64_char_unit: "n < 64 \<Longrightarrow> b64_char n < 65536"
  unfolding b64_char_def by (simp; arith)

lemma b64_encode_units: "bytes_ok bs \<Longrightarrow> units_ok (b64_encode bs)"
proof (induction bs rule: b64_encode.induct)
  case (2 a)
  then show ?case using b64_bits[of a 0 0] by (simp add: bytes_ok_def b64_char_unit)
next
  case (3 a b)
  then show ?case using b64_bits[of a b 0] by (simp add: bytes_ok_def b64_char_unit)
next
  case (4 a b c r)
  then show ?case using b64_bits[of a b c] by (simp add: bytes_ok_def b64_char_unit)
qed simp

text \<open>A frame as the code builds it: a channel number, payload bytes, a message string.\<close>

definition frame_ok :: "data_frame \<Rightarrow> bool" where
  "frame_ok f \<longleftrightarrow> 0 \<le> fr_channel f \<and> (\<forall>p. fr_payload f = Some p \<longrightarrow> bytes_ok p)
     \<and> (\<forall>m. fr_message f = Some m \<longrightarrow> units_ok m)"

lemma units_ok_js [simp]: "units_ok (js s)"
proof -
  have "of_char c < (256::nat)" for c by (metis of_char_mod_256 mod_less_divisor zero_less_numeral)
  then show ?thesis by (auto simp: units_ok_def js_def intro: less_trans[of _ 256])
qed

lemma frame_type_text_inj [simp]: "frame_type_text a = frame_type_text b \<longleftrightarrow> a = b"
  by (cases a; cases b) simp_all

lemma wf_frame_json: "frame_ok f \<Longrightarrow> wf_json (frame_json f)"
  by (cases "fr_type f")
     (auto simp: frame_ok_def frame_json_def JInt_def FRAME_MARKER_def b64_encode_units split: option.split)

lemma isFrameMessage_frame_json [simp]: "isFrameMessage (frame_json f)"
  by (simp add: isFrameMessage_def frame_json_def)

lemma decode_frame_json:
  assumes "frame_ok f"
  shows "decodeDataFrame (frame_json f) = Some f"
proof -
  have b: "b64_decode (b64_encode p) = p" if "fr_payload f = Some p" for p
    using assms that by (simp add: frame_ok_def b64_roundtrip)
  show ?thesis
    using assms b isFrameMessage_frame_json[of f]
    by (cases f; cases "fr_type f"; cases "fr_payload f"; cases "fr_message f")
       (simp_all add: decodeDataFrame_def frame_json_def get_key_def FRAME_MARKER_def channel_of_def
         JInt_def str_of_def frame_ok_def)
qed

interpretation frame_lines: typed_transport wf_json encodeLine fits_limit receive frame_json decodeDataFrame frame_ok
  by unfold_locales (simp_all add: wf_frame_json decode_frame_json)

section \<open>Bounded buffering\<close>

definition buffer_inv :: "line_decoder \<Rightarrow> bool" where
  "buffer_inv ld \<longleftrightarrow> length (ld_tail ld) + td_pending (ld_decoder ld) \<le> ld_lineBytes ld + 1"

lemma drain_tail_le: "length (dr_tail (drain h s)) \<le> length s"
  by (induction s rule: line_induct)
     (auto simp: drain_no_newline drain_line split: option.split)

lemma push_buffer:
  assumes "buffer_inv ld" and "length (ld_tail ld) \<le> maxLineBytes ld + 1" and "push syn h ld c = (ld', r)"
  shows "length (ld_tail ld') \<le> maxLineBytes ld + 1 \<and> maxLineBytes ld' = maxLineBytes ld
    \<and> (pr_value r = Inr vs \<longrightarrow> buffer_inv ld')"
proof (cases "ld_lineBytes ld + length c > maxLineBytes ld")
  case True
  then show ?thesis using assms by (auto simp: push_def)
next
  case False
  obtain td u where t: "td_run (ld_decoder ld) c = (td, u)" by force
  let ?d = "drain h (ld_tail ld @ u)"
  have len: "length u + td_pending td \<le> length c + td_pending (ld_decoder ld)" by (rule td_run_length[OF t])
  have "length (dr_tail ?d) \<le> maxLineBytes ld + 1"
    using drain_tail_le[of h "ld_tail ld @ u"] len assms(1) False by (simp add: buffer_inv_def)
  moreover have "buffer_inv ld'" if "10 \<in> set (ld_tail ld @ u)"
    using that assms(3) False t utf8_length[of "dr_tail ?d"]
    by (auto simp: push_def Let_def buffer_inv_def td_pending_def)
  moreover have "buffer_inv ld'" if "10 \<notin> set (ld_tail ld @ u)"
    using that assms(1,3) False t len by (auto simp: push_def Let_def buffer_inv_def drain_no_newline)
  ultimately show ?thesis using assms(3) False t by (auto simp: push_def Let_def)
qed

lemma push_all_buffer:
  "buffer_inv ld \<Longrightarrow> length (ld_tail ld) \<le> maxLineBytes ld + 1 \<Longrightarrow>
   push_all syn h ld cs = (ld', bad, out, e) \<Longrightarrow> length (ld_tail ld') \<le> maxLineBytes ld + 1"
proof (induction cs arbitrary: ld ld' bad out e)
  case (Cons c cs)
  obtain ld1 r where p: "push syn h ld c = (ld1, r)" by force
  show ?case
  proof (cases "pr_value r")
    case (Inl x)
    then show ?thesis using Cons.prems p push_buffer[OF Cons.prems(1,2) p] by auto
  next
    case (Inr vs)
    obtain ld2 bad2 out2 e2 where q: "push_all syn h ld1 cs = (ld2, bad2, out2, e2)"
      by (metis prod_cases4)
    note b = push_buffer[OF Cons.prems(1,2) p, of vs]
    then have "length (ld_tail ld2) \<le> maxLineBytes ld1 + 1"
      using Cons.IH[OF _ _ q] Inr by simp
    then show ?thesis using Cons.prems(3) p q Inr b by simp
  qed
qed simp

section \<open>Properties\<close>

text \<open>
  Messages written with \<open>encodeLine\<close> and cut into chunks in any way (also inside a multi-byte
  character) come out of \<open>LineDecoder.push\<close> exactly as they went in, in order, with no line given
  to the invalid-line handler, no exception, and a clean \<open>flush\<close> at the end, whether or not a
  handler is installed, as long as a line and a chunk together stay within the byte limit.
\<close>

theorem framing_roundtrip:
  assumes "list_all wf_json ms" and "concat cs = concat (map encodeLine ms)"
    and "\<forall>c \<in> set cs. length c \<le> n"
    and "\<forall>v \<in> set ms. \<forall>c \<in> set cs. length (encodeLine v) + length c \<le> n"
  shows "\<exists>ld. push_all syn h (LineDecoder n) cs = (ld, [], ms, None) \<and> snd (flush ld) = Inr ()"
  using messages_delivered[OF assms(1,2)] assms(3,4) by (simp add: fits_limit_def list_all_iff)

theorem framing_roundtrip_witness:
  "\<exists>ld. push_all (\<lambda>_. []) False (LineDecoder 14)
      [[91, 34], [226, 130], [172, 34, 93, 10, 110, 117], [108, 108, 10]] =
        (ld, [], [JArr [JStr [8364]], JNull], None) \<and> snd (flush ld) = Inr ()"
proof -
  have e: "encodeLine (JArr [JStr [8364]]) = [91, 34, 226, 130, 172, 34, 93, 10]"
    "encodeLine JNull = [110, 117, 108, 108, 10]"
    by (simp_all add: encodeLine_def quote_def esc1_def is_high_def is_low_def utf8_cp_def scalar_def js_heads)
  show ?thesis by (rule framing_roundtrip) (simp_all add: e)
qed

text \<open>
  What the decoder returns depends on the bytes only: two ways of cutting the same byte stream
  into chunks that both get through give the same messages, the same invalid lines, the same
  unfinished tail and the same verdict of \<open>flush\<close>, for any bytes, valid UTF-8 or not.
\<close>

theorem framing_rechunk:
  assumes "concat cs = concat ds"
    and "push_all syn h (LineDecoder n) cs = (ld1, bad1, out1, None)"
    and "push_all syn h (LineDecoder m) ds = (ld2, bad2, out2, None)"
  shows "out1 = out2 \<and> bad1 = bad2 \<and> ld_tail ld1 = ld_tail ld2 \<and> snd (flush ld1) = snd (flush ld2)"
proof -
  obtain td u where t: "td_run td_new (concat cs) = (td, u)" by force
  have "ld_decoder (LineDecoder k) = td_new" "ld_tail (LineDecoder k) = []" for k
    by (simp_all add: LineDecoder_def)
  then show ?thesis
    using push_all_concat[OF assms(2) _ _ refl] push_all_concat[OF assms(3) _ _ refl] t assms(1)
    by (simp add: flush_def split: prod.split)
qed

lemma sample_pushes:
  "push_all syn True (LineDecoder 9) [[116, 114], [117, 101, 10, 120]] =
     (\<lparr>maxLineBytes = 9, ld_decoder = td_idle True, ld_tail = [120], ld_lineBytes = 1\<rparr>, [], [JBool True], None)"
  "push_all syn True (LineDecoder 9) [[116], [114, 117, 101], [10, 120]] =
     (\<lparr>maxLineBytes = 9, ld_decoder = td_idle True, ld_tail = [120], ld_lineBytes = 1\<rparr>, [], [JBool True], None)"
proof -
  have t: "drain True [116, 114, 117, 101, 10, 120] =
      \<lparr>dr_tail = [120], dr_out = [JBool True], dr_invalid = [], dr_throw = None\<rparr>"
    using drain_line[of "[116, 114, 117, 101]" True "[120]"] json_parse_stringify[of "JBool True"]
    by (simp add: blank_def is_js_ws_def js_heads drain_no_newline)
  show "push_all syn True (LineDecoder 9) [[116, 114], [117, 101, 10, 120]] =
     (\<lparr>maxLineBytes = 9, ld_decoder = td_idle True, ld_tail = [120], ld_lineBytes = 1\<rparr>, [], [JBool True], None)"
    and "push_all syn True (LineDecoder 9) [[116], [114, 117, 101], [10, 120]] =
     (\<lparr>maxLineBytes = 9, ld_decoder = td_idle True, ld_tail = [120], ld_lineBytes = 1\<rparr>, [], [JBool True], None)"
    using t by (simp_all add: push_def LineDecoder_def td_new_def td_step_def td_start_def td_emit_def
        cp_units_def drain_no_newline utf8_cp_def scalar_def is_high_def is_low_def)
qed

theorem framing_rechunk_witness:
  "\<exists>ld1 ld2 out1 out2.
     push_all (\<lambda>_. []) True (LineDecoder 9) [[116, 114], [117, 101, 10, 120]] = (ld1, [], out1, None) \<and>
     push_all (\<lambda>_. []) True (LineDecoder 9) [[116], [114, 117, 101], [10, 120]] = (ld2, [], out2, None) \<and>
     out1 = out2 \<and> out1 = [JBool True] \<and> ld_tail ld1 = ld_tail ld2 \<and> snd (flush ld1) = snd (flush ld2)"
  using sample_pushes[of "\<lambda>_. []"] framing_rechunk[OF _ sample_pushes] by simp

text \<open>
  Whatever bytes arrive, in whatever chunks, the decoder never holds more than one code unit
  more than the byte limit, whether the run ends well, in the size error or in a parse error.
\<close>

theorem decoder_bounded:
  "length (ld_tail (fst (push_all syn h (LineDecoder n) cs))) \<le> n + 1"
  using push_all_buffer[of "LineDecoder n" syn h cs]
  by (cases "push_all syn h (LineDecoder n) cs")
     (simp add: buffer_inv_def LineDecoder_def td_pending_def td_new_def)

text \<open>
  Frames of the channel multiplexer written with \<open>encodeDataFrame\<close> (channel number, kind,
  binary payload in base64, message) and cut into chunks in any way are all read back by
  \<open>decodeDataFrame\<close>, unchanged and in order.
\<close>

theorem data_frame_roundtrip:
  assumes "list_all frame_ok fs" and "concat cs = concat (map encodeDataFrame fs)"
    and "fits_limit n (map frame_json fs) cs"
  shows "map_option (List.map_filter decodeDataFrame) (receive n cs) = Some fs"
  using assms by (intro frame_lines.typed_delivered) (simp_all add: encodeDataFrame_def[abs_def])


definition sample_frames :: "data_frame list" where
  "sample_frames =
     [\<lparr>fr_channel = 3, fr_type = FData, fr_payload = Some [255, 0], fr_message = None\<rparr>,
      \<lparr>fr_channel = 3, fr_type = FError, fr_payload = None, fr_message = Some [120, 8364]\<rparr>]"

theorem data_frame_roundtrip_witness:
  "map_option (List.map_filter decodeDataFrame)
     (receive 400 [take 30 (concat (map encodeDataFrame sample_frames)),
        drop 30 (concat (map encodeDataFrame sample_frames))]) = Some sample_frames"
proof (rule data_frame_roundtrip)
  show "list_all frame_ok sample_frames"
    by (simp add: sample_frames_def frame_ok_def bytes_ok_def)
  have e: "map (\<lambda>v. length (encodeLine v)) (map frame_json sample_frames) = [67, 68]"
    by (simp add: sample_frames_def encodeLine_def frame_json_def JInt_def FRAME_MARKER_def js_def
        quote_def esc1_def is_high_def is_low_def scalar_def utf8_cp_def num_text_def Let_def
        digits.simps b64_char_def)
  show "fits_limit 400 (map frame_json sample_frames)
    [take 30 (concat (map encodeDataFrame sample_frames)),
     drop 30 (concat (map encodeDataFrame sample_frames))]"
    using e by (simp add: fits_limit_def sample_frames_def encodeDataFrame_def)
qed simp

end
