(* ===== verification/Auth.thy ===== *)
theory Auth
  imports Framing "HOL-Library.List_Lexorder" "HOL-Library.Multiset"
begin

text \<open>
  Pairing authentication, \<^verbatim>\<open>remote-core/src/auth.ts\<close>: the handshake messages, the canonical
  JSON text that both sides hash, and the HMAC proof. The keyed hash of \<open>node:crypto\<close> is the
  parameter \<open>hmac\<close> (key bytes, message bytes to digest bytes); the random bytes of the nonces are
  an argument.
\<close>

section \<open>Handshake messages\<close>

record hello_message =
  hello_protocolVersion :: int
  hello_capabilities :: "jstr list"
  hello_nonce :: jstr

record challenge_message =
  ch_nonce :: jstr
  ch_capabilities :: "jstr list"

definition hex :: "bytes \<Rightarrow> jstr" where
  "hex bs = concat (map (\<lambda>b. [hex_digit (b div 16 mod 16), hex_digit (b mod 16)]) bs)"

definition createHello :: "bytes \<Rightarrow> jstr option \<Rightarrow> jstr list \<Rightarrow> hello_message" where
  "createHello rnd clientNonce caps =
     \<lparr>hello_protocolVersion = 1, hello_capabilities = caps,
      hello_nonce = (case clientNonce of Some n \<Rightarrow> n | None \<Rightarrow> hex rnd)\<rparr>"

definition createChallenge :: "bytes \<Rightarrow> jstr option \<Rightarrow> jstr list \<Rightarrow> challenge_message" where
  "createChallenge rnd serverNonce caps =
     \<lparr>ch_nonce = (case serverNonce of Some n \<Rightarrow> n | None \<Rightarrow> hex rnd), ch_capabilities = caps\<rparr>"

text \<open>The object that goes over the wire, in the key order of the source.\<close>

definition hello_json :: "hello_message \<Rightarrow> json" where
  "hello_json h = JObj
     [(js ''protocolVersion'', JInt (hello_protocolVersion h)),
      (js ''capabilities'', JArr (map JStr (hello_capabilities h))),
      (js ''nonce'', JStr (hello_nonce h))]"

section \<open>Canonical JSON\<close>

fun join_comma :: "jstr list \<Rightarrow> jstr" where
  "join_comma [] = []"
| "join_comma [s] = s"
| "join_comma (s # t # r) = s @ 44 # join_comma (t # r)"

text \<open>
  Values JSON cannot represent (\<open>undefined\<close>, functions, \<open>bigint\<close>), on which the source throws,
  are not values of \<open>json\<close>. \<open>Array.prototype.sort\<close> on strings compares UTF-16 code units
  lexicographically, which is the order of lists of \<open>List_Lexorder\<close>.
\<close>

fun canonicalJSON :: "json \<Rightarrow> jstr" where
  "canonicalJSON (JArr vs) = 91 # join_comma (map canonicalJSON vs) @ [93]"
| "canonicalJSON (JObj ms) =
     123 # join_comma (map snd (sort_key fst
       (map (\<lambda>(k, v). (k, quote k @ 58 # canonicalJSON v)) ms))) @ [125]"
| "canonicalJSON v = stringify v"

section \<open>Proofs of possession\<close>

type_synonym keyed_hash = "bytes \<Rightarrow> bytes \<Rightarrow> bytes"

definition proof_message :: "jstr \<Rightarrow> jstr \<Rightarrow> json \<Rightarrow> jstr" where
  "proof_message clientNonce serverNonce hello = clientNonce @ serverNonce @ canonicalJSON hello"

definition computeProof :: "keyed_hash \<Rightarrow> jstr \<Rightarrow> jstr \<Rightarrow> jstr \<Rightarrow> json \<Rightarrow> jstr" where
  "computeProof hmac token clientNonce serverNonce hello =
     hex (hmac (utf8 token) (utf8 (proof_message clientNonce serverNonce hello)))"

text \<open>\<open>timingSafeEqual\<close> compares two buffers of the same length byte by byte.\<close>

definition verifyProof :: "keyed_hash \<Rightarrow> jstr \<Rightarrow> jstr \<Rightarrow> jstr \<Rightarrow> json \<Rightarrow> jstr \<Rightarrow> bool" where
  "verifyProof hmac token clientNonce serverNonce hello proof =
     (let expected = utf8 (computeProof hmac token clientNonce serverNonce hello);
          actual = utf8 proof
      in if length expected \<noteq> length actual then False else expected = actual)"

section \<open>Sorting keys\<close>

fun sort_json :: "json \<Rightarrow> json" where
  "sort_json (JArr vs) = JArr (map sort_json vs)"
| "sort_json (JObj ms) = JObj (sort_key fst (map (\<lambda>(k, v). (k, sort_json v)) ms))"
| "sort_json v = v"

lemma items_text_join: "stringify v @ items_text vs = join_comma (map stringify (v # vs)) @ [93]"
  by (induction vs arbitrary: v) simp_all

lemma stringify_arr_join: "stringify (JArr vs) = 91 # join_comma (map stringify vs) @ [93]"
  by (cases vs) (simp_all add: items_text_join del: list.simps(9))

definition member_text :: "jstr \<times> json \<Rightarrow> jstr" where
  "member_text m = quote (fst m) @ 58 # stringify (snd m)"

lemma members_text_join:
  "member_text m @ members_text ms = join_comma (map member_text (m # ms)) @ [125]"
proof (induction ms arbitrary: m)
  case (Cons a ms)
  have "members_text (a # ms) = 44 # member_text a @ members_text ms"
    by (cases a) (simp add: member_text_def)
  with Cons show ?case by simp
qed simp

lemma stringify_obj_join: "stringify (JObj ms) = 123 # join_comma (map member_text ms) @ [125]"
proof (cases ms)
  case (Cons m r)
  have "stringify (JObj (m # r)) = 123 # member_text m @ members_text r"
    by (cases m) (simp add: member_text_def)
  then show ?thesis using Cons by (simp add: members_text_join del: list.simps(9))
qed simp

lemma map_sort_key:
  assumes "\<And>x. x \<in> set xs \<Longrightarrow> key (f x) = key' x"
  shows "map f (sort_key key' xs) = sort_key key (map f xs)"
  using assms
proof (induction xs)
  case (Cons x xs)
  have "map f (insort_key key' x ys) = insort_key key (f x) (map f ys)"
    if "\<forall>y \<in> set ys. key (f y) = key' y" "key (f x) = key' x" for ys
    using that by (induction ys) auto
  then show ?case using Cons by simp
qed simp

lemma canonicalJSON_sort: "canonicalJSON v = stringify (sort_json v)"
proof (induction v rule: canonicalJSON.induct)
  case (1 vs)
  then have "map canonicalJSON vs = map stringify (map sort_json vs)" by simp
  then show ?case by (simp only: canonicalJSON.simps sort_json.simps stringify_arr_join)
next
  case (2 ms)
  let ?f = "\<lambda>m. (fst m, member_text m)"
  have "map (\<lambda>(k, v). (k, quote k @ 58 # canonicalJSON v)) ms = map ?f (map (\<lambda>(k, v). (k, sort_json v)) ms)"
    using 2 by (auto simp: member_text_def)
  then have "sort_key fst (map (\<lambda>(k, v). (k, quote k @ 58 # canonicalJSON v)) ms) =
      map ?f (sort_key fst (map (\<lambda>(k, v). (k, sort_json v)) ms))"
    by (simp only: map_sort_key[where f = ?f and key = fst and key' = fst] fst_conv)
  then have "map snd (sort_key fst (map (\<lambda>(k, v). (k, quote k @ 58 # canonicalJSON v)) ms)) =
      map member_text (sort_key fst (map (\<lambda>(k, v). (k, sort_json v)) ms))"
    by simp
  then show ?case by (simp only: canonicalJSON.simps sort_json.simps stringify_obj_join)
qed simp_all

lemma distinct_keys_sort: "distinct (map fst (sort_key f ms)) \<longleftrightarrow> distinct (map fst ms)"
  by (metis mset_eq_imp_distinct_iff mset_map mset_sort)

lemma wf_sort_json: "wf_json v \<Longrightarrow> wf_json (sort_json v)"
proof (induction v rule: sort_json.induct)
  case (1 vs)
  then show ?case by (auto simp: list_all_iff)
next
  case (2 ms)
  have "map fst (map (\<lambda>(k, v). (k, sort_json v)) ms) = map fst ms" by (induction ms) auto
  then have "distinct (map fst (sort_key fst (map (\<lambda>(k, v). (k, sort_json v)) ms)))"
    using 2 by (metis distinct_keys_sort wf_json.simps(6))
  then show ?case using 2 by (fastforce simp: list_all_iff)
qed simp_all

lemma sort_key_mset_eq:
  assumes "mset xs = mset ys" and "distinct (map fst xs)"
  shows "sort_key fst xs = sort_key fst ys"
  by (rule sort_key_inj_key_eq) (use assms in \<open>simp_all add: distinct_map\<close>)

lemma canonicalJSON_parse: "wf_json v \<Longrightarrow> json_parse (canonicalJSON v) = Some (sort_json v)"
  by (simp add: canonicalJSON_sort json_parse_stringify wf_sort_json)

lemma canonicalJSON_inj:
  "wf_json v \<Longrightarrow> wf_json w \<Longrightarrow> canonicalJSON v = canonicalJSON w \<Longrightarrow> sort_json v = sort_json w"
  by (metis canonicalJSON_parse option.inject)

lemma canonicalJSON_permute:
  assumes "mset ms = mset ns" and "distinct (map fst ms)"
  shows "canonicalJSON (JObj ms) = canonicalJSON (JObj ns)"
proof -
  let ?f = "\<lambda>(k, v). (k, quote k @ 58 # canonicalJSON v)"
  have "map fst (map ?f ms) = map fst ms" by (induction ms) auto
  then have "sort_key fst (map ?f ms) = sort_key fst (map ?f ns)"
    using assms by (intro sort_key_mset_eq) (simp_all add: mset_map del: map_map)
  then show ?thesis by (simp only: canonicalJSON.simps)
qed

section \<open>Comparing proofs\<close>

lemma utf8_cp_all_ascii: "list_all (\<lambda>b. b < 128) (utf8_cp cp) \<Longrightarrow> cp < 128"
  by (auto simp: utf8_cp_def split: if_splits)

lemma scalar_ascii: "scalar c < 128 \<Longrightarrow> scalar c = c"
  by (auto simp: scalar_def split: if_splits)

lemma utf8_ascii_bytes: "list_all (\<lambda>b. b < 128) (utf8 s) \<Longrightarrow> utf8 s = s"
proof (induction s rule: utf8.induct)
  case (2 c)
  then have "scalar c < 128" by (simp add: utf8_cp_all_ascii)
  then show ?case using scalar_ascii by (simp add: utf8_cp_def)
next
  case (3 c d r)
  show ?case
  proof (cases "is_high c \<and> is_low d")
    case True
    then have "pair_cp c d < 128" using 3 by (simp add: utf8_cp_all_ascii)
    then show ?thesis using pair_cp_bounds True by fastforce
  next
    case False
    have e: "utf8 (c # d # r) = utf8_cp (scalar c) @ utf8 (d # r)"
      by (rule trans[OF utf8.simps(3) if_not_P[OF False]])
    then have "scalar c < 128" "list_all (\<lambda>b. b < 128) (utf8 (d # r))"
      using 3 by (simp_all add: utf8_cp_all_ascii del: utf8.simps)
    then show ?thesis using 3 False e scalar_ascii by (simp add: utf8_cp_def del: utf8.simps)
  qed
qed simp

lemma utf8_of_ascii: "list_all (\<lambda>b. b < 128) s \<Longrightarrow> utf8 s = s"
  by (induction s rule: utf8.induct) (auto simp: scalar_def is_high_def is_low_def utf8_cp_def)

lemma hex_ascii: "list_all (\<lambda>b. b < 128) (hex bs)"
  by (auto simp: hex_def list_all_iff hex_digit_def)

lemma utf8_hex_iff: "utf8 (hex bs) = utf8 p \<longleftrightarrow> hex bs = p"
  using utf8_of_ascii[OF hex_ascii] utf8_ascii_bytes[of p] hex_ascii[of bs] by metis

lemma verifyProof_iff:
  "verifyProof hmac token cn sn hello p \<longleftrightarrow> p = computeProof hmac token cn sn hello"
  unfolding verifyProof_def Let_def computeProof_def
  by (metis utf8_hex_iff)

section \<open>What a proof binds\<close>

lemma canonicalJSON_wf: "wf_json v \<Longrightarrow> wf_utf16 (canonicalJSON v)"
  by (simp add: canonicalJSON_sort wf_utf16_stringify wf_sort_json)

lemma proof_message_wf:
  "wf_utf16 cn \<Longrightarrow> wf_utf16 sn \<Longrightarrow> wf_json h \<Longrightarrow> wf_utf16 (proof_message cn sn h)"
  by (simp add: proof_message_def wf_utf16_append canonicalJSON_wf)

lemma proof_message_inj:
  assumes "length cn = length cn'" and "length sn = length sn'" and "wf_json h" and "wf_json h'"
    and "proof_message cn sn h = proof_message cn' sn' h'"
  shows "cn = cn' \<and> sn = sn' \<and> sort_json h = sort_json h'"
proof -
  have "cn = cn' \<and> sn @ canonicalJSON h = sn' @ canonicalJSON h'"
    using assms(1,5) append_eq_append_conv unfolding proof_message_def by blast
  moreover from this have "sn = sn' \<and> canonicalJSON h = canonicalJSON h'"
    using assms(2) append_eq_append_conv by blast
  ultimately show ?thesis using canonicalJSON_inj[OF assms(3,4)] by blast
qed


section \<open>Properties\<close>

text \<open>
  \<open>canonicalJSON\<close> is a canonical text: the members of an object may be inserted in any order
  without changing it, and parsing it gives the value back with its keys sorted at every level, so
  two values have the same text only if they differ in key order alone.
\<close>

theorem canonical_json_canonical:
  assumes "wf_json (JObj ms)"
  shows "json_parse (canonicalJSON (JObj ms)) = Some (sort_json (JObj ms))
    \<and> (\<forall>ns. mset ns = mset ms \<longrightarrow> canonicalJSON (JObj ns) = canonicalJSON (JObj ms))
    \<and> (\<forall>w. wf_json w \<and> canonicalJSON w = canonicalJSON (JObj ms) \<longrightarrow> sort_json w = sort_json (JObj ms))"
  using assms canonicalJSON_parse[OF assms] canonicalJSON_inj[OF _ assms]
    canonicalJSON_permute[of ms] by (metis wf_json.simps(6))

theorem canonical_json_canonical_witness:
  "json_parse (canonicalJSON (JObj [(js ''b'', JNull), (js ''a'', JInt 7)])) =
     Some (JObj [(js ''a'', JInt 7), (js ''b'', JNull)])"
  using canonical_json_canonical[of "[(js ''b'', JNull), (js ''a'', JInt 7)]"]
  by (simp add: JInt_def js_def)

text \<open>
  The backend accepts exactly the proof the frontend computes from the same token, nonces and
  hello; in particular a proof of another length or with any other character is refused.
\<close>

theorem verify_accepts_exactly:
  "verifyProof hmac token clientNonce serverNonce hello p \<longleftrightarrow>
     p = computeProof hmac token clientNonce serverNonce hello"
  by (rule verifyProof_iff)

text \<open>
  A proof binds the nonces and the hello message: if the proof made for one pair of nonces and
  one hello is accepted for others of the same nonce lengths, then the nonces are the same and the
  hellos differ in key order at most, or the two hashed byte strings are an explicit collision of
  the keyed hash.
\<close>

theorem proof_binds_handshake:
  assumes "length cn = length cn'" and "length sn = length sn'"
    and "list_all wf_utf16 [cn, sn, cn', sn']" and "wf_json h" and "wf_json h'"
    and "verifyProof hmac token cn' sn' h' (computeProof hmac token cn sn h)"
  shows "(cn = cn' \<and> sn = sn' \<and> sort_json h = sort_json h') \<or>
    (let m = utf8 (proof_message cn sn h); m' = utf8 (proof_message cn' sn' h')
     in m \<noteq> m' \<and> hex (hmac (utf8 token) m) = hex (hmac (utf8 token) m'))"
proof (cases "utf8 (proof_message cn sn h) = utf8 (proof_message cn' sn' h')")
  case True
  moreover have "wf_utf16 (proof_message cn sn h)" "wf_utf16 (proof_message cn' sn' h')"
    using assms(3-5) by (simp_all add: proof_message_wf)
  ultimately have "proof_message cn sn h = proof_message cn' sn' h'" using utf8_inj by blast
  then show ?thesis using proof_message_inj assms(1,2,4,5) by blast
next
  case False
  then show ?thesis using assms(6) by (simp add: verifyProof_iff computeProof_def Let_def)
qed

definition sample_hello :: "json list" where
  "sample_hello =
     [JObj [(js ''b'', JNull), (js ''a'', JInt 7)], JObj [(js ''a'', JInt 7), (js ''b'', JNull)]]"

lemma sample_hello_facts:
  "list_all wf_json sample_hello" "canonicalJSON (sample_hello ! 1) = canonicalJSON (sample_hello ! 0)"
proof -
  show "canonicalJSON (sample_hello ! 1) = canonicalJSON (sample_hello ! 0)"
    using canonicalJSON_permute[of "[(js ''a'', JInt 7), (js ''b'', JNull)]" "[(js ''b'', JNull), (js ''a'', JInt 7)]"]
    by (simp add: sample_hello_def del: canonicalJSON.simps)
qed (simp add: sample_hello_def JInt_def)

theorem proof_binds_handshake_witness:
  "(js ''aa'' = js ''aa'' \<and> js ''bb'' = js ''bb'' \<and> sort_json (sample_hello ! 0) = sort_json (sample_hello ! 1)) \<or>
    (let m = utf8 (proof_message (js ''aa'') (js ''bb'') (sample_hello ! 0));
         m' = utf8 (proof_message (js ''aa'') (js ''bb'') (sample_hello ! 1))
     in m \<noteq> m' \<and> hex ((\<lambda>k m. take 4 (rev m)) (utf8 (js ''t'')) m) =
       hex ((\<lambda>k m. take 4 (rev m)) (utf8 (js ''t'')) m'))"
proof (rule proof_binds_handshake)
  show "verifyProof (\<lambda>k m. take 4 (rev m)) (js ''t'') (js ''aa'') (js ''bb'') (sample_hello ! 1)
     (computeProof (\<lambda>k m. take 4 (rev m)) (js ''t'') (js ''aa'') (js ''bb'') (sample_hello ! 0))"
    by (simp only: verifyProof_iff computeProof_def proof_message_def sample_hello_facts(2))
qed (use sample_hello_facts(1) in \<open>simp_all add: sample_hello_def js_def is_high_def is_low_def\<close>)

end
