(* ===== verification/Jsonrpc.thy ===== *)
theory Jsonrpc
  imports Framing "HOL-Library.Multiset"
begin

text \<open>
  The JSON-RPC 2.0 peer, \<^verbatim>\<open>remote-core/src/jsonrpc.ts\<close>. The state \<open>peer\<close> has the fields of
  \<open>JsonRpcPeer\<close>; every public operation and every callback it installs is an event of
  \<open>peer_event\<close>, handled by \<open>peer_step\<close>, with its observable effects (\<open>rpc_effect\<close>: a line given
  to the outbound hook, the settling of a call's promise, the start of a handler) in order.

  The promise of a call is identified with the id the call took. A handler is a value of an
  abstract type; the completion of a request handler that \<open>#handleRequest\<close> awaits is the event
  \<open>Done\<close>, and \<open>serving\<close> lists the activations of \<open>#handleRequest\<close> that are suspended there. The
  outbound hook is assumed not to throw; \<open>syn\<close> is the engine's message for a line that is not
  JSON.
\<close>

definition PARSE_ERROR :: int where "PARSE_ERROR = -32700"
definition INVALID_REQUEST :: int where "INVALID_REQUEST = -32600"
definition METHOD_NOT_FOUND :: int where "METHOD_NOT_FOUND = -32601"
definition INTERNAL_ERROR :: int where "INTERNAL_ERROR = -32603"
definition CANCEL_METHOD :: jstr where "CANCEL_METHOD = js ''$/cancel''"

section \<open>State, events and effects\<close>

datatype rpc_id = NumId int nat | StrId jstr

fun id_json :: "rpc_id \<Rightarrow> json" where
  "id_json (NumId m k) = JNum m k"
| "id_json (StrId s) = JStr s"

datatype outcome = Resolved "json option" | Rejected remote_error

datatype 'h rpc_effect =
    Send json
  | Settle rpc_id outcome
  | Run 'h rpc_id "json option"
  | Notified 'h "json option"
  | Closed

text \<open>A pending call is kept with its method, which its abort and timeout callbacks close over.\<close>

record 'h peer =
  jp_decoder :: line_decoder
  nextId :: nat
  pending :: "(rpc_id \<times> jstr) list"
  handlers :: "(jstr \<times> 'h) list"
  notifications :: "(jstr \<times> 'h) list"
  requestTimeoutMs :: nat
  serving :: "rpc_id list"
  jp_ended :: bool

definition JsonRpcPeer :: "int option \<Rightarrow> thrown + 'h peer" where
  "JsonRpcPeer timeout =
     (let ms = (case timeout of None \<Rightarrow> 30000 | Some t \<Rightarrow> t) in
      if ms < 0 then Inl (TError (js ''JsonRpcPeer requestTimeoutMs must be a finite non-negative number''))
      else Inr \<lparr>jp_decoder = LineDecoder DEFAULT_MAX_LINE_BYTES, nextId = 1, pending = [], handlers = [],
        notifications = [], requestTimeoutMs = nat ms, serving = [], jp_ended = False\<rparr>)"

section \<open>Messages\<close>

text \<open>An object literal with an optional member, \<open>...(v !== undefined ? { k: v } : {})\<close>.\<close>

definition opt_member :: "string \<Rightarrow> json option \<Rightarrow> members" where
  "opt_member k v = (case v of None \<Rightarrow> [] | Some x \<Rightarrow> [(js k, x)])"

definition version_member :: members where
  "version_member = [(js ''jsonrpc'', JStr (js ''2.0''))]"

definition request_json :: "rpc_id \<Rightarrow> jstr \<Rightarrow> json option \<Rightarrow> json" where
  "request_json i m params = JObj (version_member @ [(js ''id'', id_json i), (js ''method'', JStr m)]
     @ opt_member ''params'' params)"

definition notification_json :: "jstr \<Rightarrow> json option \<Rightarrow> json" where
  "notification_json m params = JObj (version_member @ [(js ''method'', JStr m)]
     @ opt_member ''params'' params)"

definition result_json :: "rpc_id \<Rightarrow> json option \<Rightarrow> json" where
  "result_json i r = JObj (version_member @ [(js ''id'', id_json i),
     (js ''result'', case r of None \<Rightarrow> JNull | Some v \<Rightarrow> v)])"

definition error_json :: "rpc_id option \<Rightarrow> int \<Rightarrow> jstr \<Rightarrow> json option \<Rightarrow> json" where
  "error_json i code message data = JObj (version_member @
     [(js ''id'', case i of None \<Rightarrow> JNull | Some x \<Rightarrow> id_json x),
      (js ''error'', JObj ([(js ''code'', JInt code), (js ''message'', JStr message)]
         @ opt_member ''data'' data))])"

definition asId :: "json option \<Rightarrow> rpc_id" where
  "asId v = (case v of Some (JNum m k) \<Rightarrow> NumId m k | Some (JStr s) \<Rightarrow> StrId s | _ \<Rightarrow> NumId 0 0)"

text \<open>\<open>String(v)\<close>; the elements of an array are joined by commas, \<open>null\<close> as the empty string.\<close>

fun js_String :: "json \<Rightarrow> jstr"
  and js_elem :: "json \<Rightarrow> jstr"
  and js_elems :: "json list \<Rightarrow> jstr" where
  "js_String JNull = js ''null''"
| "js_String (JBool b) = (if b then js ''true'' else js ''false'')"
| "js_String (JNum m k) = num_text m k"
| "js_String (JStr s) = s"
| "js_String (JArr []) = []"
| "js_String (JArr (v # vs)) = js_elem v @ js_elems vs"
| "js_String (JObj ms) = js ''[object Object]''"
| "js_elem JNull = []"
| "js_elem (JBool b) = js_String (JBool b)"
| "js_elem (JNum m k) = js_String (JNum m k)"
| "js_elem (JStr s) = s"
| "js_elem (JArr []) = []"
| "js_elem (JArr (v # vs)) = js_elem v @ js_elems vs"
| "js_elem (JObj ms) = js ''[object Object]''"
| "js_elems [] = []"
| "js_elems (v # vs) = 44 # js_elem v @ js_elems vs"

text \<open>The members of a value read as an object, \<open>typeof v === 'object' && v !== null ? v : {}\<close>.\<close>

definition members_of :: "json \<Rightarrow> members" where
  "members_of v = (case v of JObj ms \<Rightarrow> ms | _ \<Rightarrow> [])"

definition is_object :: "json \<Rightarrow> bool" where
  "is_object v = (case v of JObj _ \<Rightarrow> True | JArr _ \<Rightarrow> True | _ \<Rightarrow> False)"

definition responseErrorToRemote :: "json \<Rightarrow> remote_error" where
  "responseErrorToRemote error =
     (let e = members_of error;
          message = (case get_key e ''message'' of Some (JStr s) \<Rightarrow> s | _ \<Rightarrow> js ''remote error'');
          data = get_key e ''data'';
          other = RemoteError REMOTE_PROTOCOL_ERROR
            (js ''RPC error '' @ (case get_key e ''code'' of None \<Rightarrow> js ''undefined'' | Some c \<Rightarrow> js_String c)
              @ js '': '' @ message) data None
      in case data of
           Some d \<Rightarrow>
             if is_object d then
               (case get_key (members_of d) ''remoteCode'' of
                  Some (JStr s) \<Rightarrow>
                    (case code_of s of
                       Some c \<Rightarrow> RemoteError c message (get_key (members_of d) ''remoteData'') None
                     | None \<Rightarrow> other)
                | _ \<Rightarrow> other)
             else other
         | None \<Rightarrow> other)"

section \<open>Calls\<close>

definition sendError :: "rpc_id option \<Rightarrow> int \<Rightarrow> jstr \<Rightarrow> json option \<Rightarrow> 'h rpc_effect" where
  "sendError i code message data = Send (error_json i code message data)"

definition call_text :: "jstr \<Rightarrow> string \<Rightarrow> jstr" where
  "call_text m what = js ''call \"'' @ m @ js ''\" '' @ js what"

definition call :: "'h peer \<Rightarrow> jstr \<Rightarrow> json option \<Rightarrow> bool \<Rightarrow> 'h peer \<times> 'h rpc_effect list" where
  "call p m params aborted =
     (let i = NumId (int (nextId p)) 0; p1 = p\<lparr>nextId := Suc (nextId p)\<rparr> in
      if aborted then (p1, [Settle i (Rejected (rerr REMOTE_ABORTED (call_text m ''aborted'')))])
      else (p1\<lparr>pending := AList.update i m (pending p1)\<rparr>, [Send (request_json i m params)]))"

definition notify :: "jstr \<Rightarrow> json option \<Rightarrow> 'h rpc_effect" where
  "notify m params = Send (notification_json m params)"

text \<open>The common part of the \<open>onAbort\<close> and \<open>onTimeout\<close> callbacks of a call.\<close>

definition cancel_call :: "'h peer \<Rightarrow> rpc_id \<Rightarrow> (jstr \<Rightarrow> remote_error) \<Rightarrow> 'h peer \<times> 'h rpc_effect list" where
  "cancel_call p i err =
     (case map_of (pending p) i of
        None \<Rightarrow> (p, [])
      | Some m \<Rightarrow> (p\<lparr>pending := AList.delete i (pending p)\<rparr>,
          [notify CANCEL_METHOD (Some (JObj [(js ''id'', id_json i)])), Settle i (Rejected (err m))]))"

definition onAbort :: "'h peer \<Rightarrow> rpc_id \<Rightarrow> 'h peer \<times> 'h rpc_effect list" where
  "onAbort p i = cancel_call p i (\<lambda>m. rerr REMOTE_ABORTED (call_text m ''aborted''))"

definition onTimeout :: "'h peer \<Rightarrow> rpc_id \<Rightarrow> 'h peer \<times> 'h rpc_effect list" where
  "onTimeout p i =
     (if requestTimeoutMs p = 0 then (p, [])
      else cancel_call p i (\<lambda>m. rerr REMOTE_TIMEOUT
        (call_text m ''timed out after '' @ digits (requestTimeoutMs p) @ js ''ms'')))"

section \<open>Inbound messages\<close>

definition handleRequest :: "'h peer \<Rightarrow> rpc_id \<Rightarrow> jstr \<Rightarrow> json option \<Rightarrow> 'h peer \<times> 'h rpc_effect list" where
  "handleRequest p i m params =
     (case map_of (handlers p) m of
        None \<Rightarrow> (p, [sendError (Some i) METHOD_NOT_FOUND (js ''method not found: '' @ m) None])
      | Some h \<Rightarrow> (p\<lparr>serving := serving p @ [i]\<rparr>, [Run h i params]))"

text \<open>\<open>#handleRequest\<close> from the point where the awaited handler has returned or thrown.\<close>

fun handler_reply :: "rpc_id \<Rightarrow> thrown + json option \<Rightarrow> 'h rpc_effect" where
  "handler_reply i (Inr r) = Send (result_json i r)"
| "handler_reply i (Inl (TRemote e)) =
     sendError (Some i) INTERNAL_ERROR (err_message e)
       (Some (JObj ((js ''remoteCode'', JStr (code_text (err_code e))) # opt_member ''remoteData'' (err_data e))))"
| "handler_reply i (Inl (TError m)) = sendError (Some i) INTERNAL_ERROR m None"
| "handler_reply i (Inl (TOther m)) = sendError (Some i) INTERNAL_ERROR m None"

definition handlerDone :: "'h peer \<Rightarrow> rpc_id \<Rightarrow> thrown + json option \<Rightarrow> 'h peer \<times> 'h rpc_effect list" where
  "handlerDone p i r =
     (if i \<in> set (serving p) then (p\<lparr>serving := remove1 i (serving p)\<rparr>, [handler_reply i r]) else (p, []))"

definition handleNotification :: "'h peer \<Rightarrow> jstr \<Rightarrow> json option \<Rightarrow> 'h peer \<times> 'h rpc_effect list" where
  "handleNotification p m params =
     (case map_of (notifications p) m of None \<Rightarrow> (p, []) | Some h \<Rightarrow> (p, [Notified h params]))"

definition handleResponse :: "'h peer \<Rightarrow> members \<Rightarrow> 'h peer \<times> 'h rpc_effect list" where
  "handleResponse p rec =
     (case get_key rec ''id'' of
        Some v \<Rightarrow>
          (if (case v of JNum _ _ \<Rightarrow> True | JStr _ \<Rightarrow> True | _ \<Rightarrow> False) then
             (let i = asId (Some v) in
              case map_of (pending p) i of
                None \<Rightarrow> (p, [])
              | Some _ \<Rightarrow>
                  (p\<lparr>pending := AList.delete i (pending p)\<rparr>,
                   [Settle i (case get_key rec ''error'' of
                       Some e \<Rightarrow> if e \<noteq> JNull then Rejected (responseErrorToRemote e)
                         else Resolved (get_key rec ''result'')
                     | None \<Rightarrow> Resolved (get_key rec ''result''))]))
           else (p, []))
      | None \<Rightarrow> (p, []))"

definition handleMessage :: "'h peer \<Rightarrow> json \<Rightarrow> 'h peer \<times> 'h rpc_effect list" where
  "handleMessage p msg =
     (if isFrameMessage msg then (p, [])
      else if \<not> is_object msg then
        (p, [sendError None INVALID_REQUEST (js ''invalid request: not an object'') None])
      else
        (let rec = members_of msg in
         case get_key rec ''method'' of
           Some (JStr m) \<Rightarrow>
             if get_key rec ''jsonrpc'' \<noteq> Some (JStr (js ''2.0'')) then
               (p, if has_key rec ''id''
                   then [sendError (Some (asId (get_key rec ''id''))) INVALID_REQUEST
                           (js ''invalid request: jsonrpc must be \"2.0\"'') None]
                   else [])
             else if has_key rec ''id'' then
               handleRequest p (asId (get_key rec ''id'')) m (get_key rec ''params'')
             else handleNotification p m (get_key rec ''params'')
         | _ \<Rightarrow>
             if has_key rec ''id'' \<and> (has_key rec ''result'' \<or> has_key rec ''error'') then handleResponse p rec
             else (p, [sendError None INVALID_REQUEST (js ''invalid request'') None])))"

section \<open>The pump\<close>

text \<open>The end of the inbound stream, with what it failed with, if it did.\<close>

definition teardown_error :: "thrown option \<Rightarrow> remote_error" where
  "teardown_error failure =
     (case failure of Some (TRemote e) \<Rightarrow> e
      | _ \<Rightarrow> RemoteError REMOTE_CONN_LOST (js ''peer closed the byte stream'') None failure)"

definition pump_end :: "'h peer \<Rightarrow> thrown option \<Rightarrow> 'h peer \<times> 'h rpc_effect list" where
  "pump_end p failure =
     (p\<lparr>pending := [], jp_ended := True\<rparr>,
      map (\<lambda>(i, m). Settle i (Rejected (teardown_error failure))) (pending p) @ [Closed])"

definition pump_chunk :: "(jstr \<Rightarrow> jstr) \<Rightarrow> 'h peer \<Rightarrow> bytes \<Rightarrow> 'h peer \<times> 'h rpc_effect list" where
  "pump_chunk syn p chunk =
     (case push syn True (jp_decoder p) chunk of
        (ld, r) \<Rightarrow>
          (let p1 = p\<lparr>jp_decoder := ld\<rparr>;
               bad = map (\<lambda>raw. sendError None PARSE_ERROR (js ''parse error: '' @ syn raw) None) (pr_invalid r)
           in case pr_value r of
                Inl e \<Rightarrow> (case pump_end p1 (Some e) of (p2, effs) \<Rightarrow> (p2, bad @ effs))
              | Inr msgs \<Rightarrow> (case steps handleMessage p1 msgs of (p2, effs) \<Rightarrow> (p2, bad @ effs))))"

datatype 'h peer_event =
    Call jstr "json option" bool
  | Abort rpc_id
  | Timeout rpc_id
  | Notify jstr "json option"
  | On jstr 'h
  | OnNotification jstr 'h
  | Chunk bytes
  | End "thrown option"
  | Done rpc_id "thrown + json option"

fun peer_step :: "(jstr \<Rightarrow> jstr) \<Rightarrow> 'h peer \<Rightarrow> 'h peer_event \<Rightarrow> 'h peer \<times> 'h rpc_effect list" where
  "peer_step syn p (Call m params aborted) = call p m params aborted"
| "peer_step syn p (Abort i) = onAbort p i"
| "peer_step syn p (Timeout i) = onTimeout p i"
| "peer_step syn p (Notify m params) = (p, [notify m params])"
| "peer_step syn p (On m h) = (p\<lparr>handlers := AList.update m h (handlers p)\<rparr>, [])"
| "peer_step syn p (OnNotification m h) = (p\<lparr>notifications := AList.update m h (notifications p)\<rparr>, [])"
| "peer_step syn p (Chunk bs) = (if jp_ended p then (p, []) else pump_chunk syn p bs)"
| "peer_step syn p (End failure) = (if jp_ended p then (p, []) else pump_end p failure)"
| "peer_step syn p (Done i r) = handlerDone p i r"

section \<open>Every call is settled exactly once\<close>

definition settled :: "'h rpc_effect list \<Rightarrow> rpc_id list" where
  "settled = List.map_filter (\<lambda>e. case e of Settle i _ \<Rightarrow> Some i | _ \<Rightarrow> None)"

lemma settled_simps [simp]:
  "settled [] = []"
  "settled (Settle i out # es) = i # settled es"
  "settled (Send j # es) = settled es"
  "settled (Run h i ps # es) = settled es"
  "settled (Notified h ps # es) = settled es"
  "settled (Closed # es) = settled es"
  "settled (es @ fs) = settled es @ settled fs"
  by (simp_all add: settled_def map_filter_def)

lemma settled_sends [simp]: "settled (map (\<lambda>x. Send (f x)) xs) = []"
  by (induction xs) simp_all

lemma settled_settles [simp]: "settled (map (\<lambda>x. Settle (f x) (g x)) xs) = map f xs"
  by (induction xs) simp_all

lemma settled_rejects [simp]: "settled (map (\<lambda>(i, m). Settle i (out i m)) ps) = map fst ps"
  by (induction ps) auto

text \<open>The ids a peer has given to its calls.\<close>

definition call_ids :: "nat \<Rightarrow> rpc_id list" where
  "call_ids n = map (\<lambda>k. NumId (int k) 0) [1..<n]"

lemma call_ids_Suc: "1 \<le> n \<Longrightarrow> call_ids (Suc n) = call_ids n @ [NumId (int n) 0]"
  by (simp add: call_ids_def)

lemma distinct_call_ids: "distinct (call_ids n)"
  by (simp add: call_ids_def distinct_map inj_on_def)

lemma call_id_fresh: "NumId (int n) 0 \<notin> set (call_ids n)"
  by (auto simp: call_ids_def)

definition calls_inv :: "'h peer \<Rightarrow> 'h rpc_effect list \<Rightarrow> bool" where
  "calls_inv p h \<longleftrightarrow> 1 \<le> nextId p \<and>
     mset (settled h) + mset (map fst (pending p)) = mset (call_ids (nextId p))"

lemma calls_inv_distinct:
  assumes "calls_inv p h"
  shows "distinct (settled h @ map fst (pending p))"
proof -
  have "mset (settled h @ map fst (pending p)) = mset (call_ids (nextId p))"
    using assms by (simp add: calls_inv_def)
  then show ?thesis using distinct_call_ids mset_eq_imp_distinct_iff by blast
qed

lemma calls_inv_quiet:
  "calls_inv p h \<Longrightarrow> settled out = [] \<Longrightarrow> pending p' = pending p \<Longrightarrow> nextId p' = nextId p \<Longrightarrow>
   calls_inv p' (h @ out)"
  by (simp add: calls_inv_def)

lemma mset_keys_delete:
  assumes "distinct (map fst m)" and "map_of m k = Some v"
  shows "add_mset k (mset (map fst (AList.delete k m))) = mset (map fst m)"
  using assms
proof (induction m)
  case (Cons a m)
  then show ?case
  proof (cases "fst a = k")
    case True
    then have "AList.delete k m = m" using Cons.prems by (auto intro!: AList.delete_idem)
    then show ?thesis using True by (cases a) simp
  qed (cases a, simp)
qed simp

lemma calls_inv_settle:
  assumes i: "calls_inv p h" and "map_of (pending p) i = Some m" and s: "settled out = [i]"
    and "pending p' = AList.delete i (pending p)" and "nextId p' = nextId p"
  shows "calls_inv p' (h @ out)"
proof -
  have "distinct (map fst (pending p))" using calls_inv_distinct[OF i] by simp
  from mset_keys_delete[OF this assms(2)] show ?thesis using i s assms(4,5)
    by (simp add: calls_inv_def) (metis union_mset_add_mset_right)
qed

lemmas handler_defs = handleMessage_def handleRequest_def handleNotification_def handleResponse_def
  sendError_def notify_def

lemma handleResponse_cases:
  "handleResponse p rec = (p, []) \<or>
   (\<exists>i m res. map_of (pending p) i = Some m \<and>
     handleResponse p rec = (p\<lparr>pending := AList.delete i (pending p)\<rparr>, [Settle i res]))"
  unfolding handleResponse_def Let_def by (simp split: option.split json.split; blast?)

lemma handlers_inv:
  assumes "calls_inv p h"
  shows "calls_inv (fst (handleRequest p i m ps)) (h @ snd (handleRequest p i m ps))"
    and "calls_inv (fst (handleNotification p m ps)) (h @ snd (handleNotification p m ps))"
    and "calls_inv (fst (handleResponse p rec)) (h @ snd (handleResponse p rec))"
proof -
  show "calls_inv (fst (handleRequest p i m ps)) (h @ snd (handleRequest p i m ps))"
    by (rule calls_inv_quiet[OF assms]) (simp_all add: handleRequest_def sendError_def split: option.split)
  show "calls_inv (fst (handleNotification p m ps)) (h @ snd (handleNotification p m ps))"
    by (rule calls_inv_quiet[OF assms]) (simp_all add: handleNotification_def split: option.split)
  show "calls_inv (fst (handleResponse p rec)) (h @ snd (handleResponse p rec))"
    using handleResponse_cases[of p rec]
  proof
    assume "\<exists>i m res. map_of (pending p) i = Some m \<and>
      handleResponse p rec = (p\<lparr>pending := AList.delete i (pending p)\<rparr>, [Settle i res])"
    then obtain i m res where r: "map_of (pending p) i = Some m"
      "handleResponse p rec = (p\<lparr>pending := AList.delete i (pending p)\<rparr>, [Settle i res])" by blast
    show ?thesis by (rule calls_inv_settle[OF assms r(1)]) (simp_all add: r(2))
  qed (simp add: assms)
qed

lemma handleMessage_cases:
  "handleMessage p msg = (p, []) \<or>
   (\<exists>i t. handleMessage p msg = (p, [sendError i INVALID_REQUEST t None])) \<or>
   (\<exists>i m ps. handleMessage p msg = handleRequest p i m ps) \<or>
   (\<exists>m ps. handleMessage p msg = handleNotification p m ps) \<or>
   handleMessage p msg = handleResponse p (members_of msg)"
  unfolding handleMessage_def Let_def by (simp split: option.split json.split; blast?)

lemma handleMessage_inv:
  assumes "calls_inv p h" and "handleMessage p msg = (p', out)"
  shows "calls_inv p' (h @ out)"
proof -
  let ?e = "\<lambda>i t. [sendError i INVALID_REQUEST t None]"
  have e: "calls_inv p (h @ ?e i t)" for i t
    by (rule calls_inv_quiet[OF assms(1)]) (simp_all add: sendError_def)
  show ?thesis using handleMessage_cases[of p msg] handlers_inv[OF assms(1)] e assms
    by (metis append_Nil2 fst_conv snd_conv)
qed

interpretation rpc_messages: reactive handleMessage "\<lambda>p _ h. calls_inv p h"
  by unfold_locales (rule handleMessage_inv)

lemma calls_inv_call:
  assumes "calls_inv p h" and "call p m params ab = (p', out)"
  shows "calls_inv p' (h @ out)"
proof -
  let ?i = "NumId (int (nextId p)) 0"
  have n: "1 \<le> nextId p" using assms(1) by (simp add: calls_inv_def)
  have "set (map fst (pending p)) \<subseteq> set (call_ids (nextId p))"
    using assms(1) by (metis calls_inv_def mset_subset_eq_add_right set_mset_mono set_mset_mset)
  then have "?i \<notin> fst ` set (pending p)" using call_id_fresh[of "nextId p"] by auto
  then show ?thesis using assms n
    by (auto simp: call_def Let_def calls_inv_def call_ids_Suc update_fresh split: if_splits)
qed

lemma calls_inv_cancel:
  "calls_inv p h \<Longrightarrow> cancel_call p i err = (p', out) \<Longrightarrow> calls_inv p' (h @ out)"
  using calls_inv_settle[of p h i _ out p']
  by (auto simp: cancel_call_def notify_def split: option.splits)

lemma calls_inv_end:
  "calls_inv p h \<Longrightarrow> pump_end p f = (p', out) \<Longrightarrow> calls_inv p' (h @ out)"
  by (auto simp: pump_end_def calls_inv_def)

lemma calls_inv_chunk:
  assumes i: "calls_inv p h" and c: "pump_chunk syn p bs = (p', out)"
  shows "calls_inv p' (h @ out)"
proof -
  obtain ld r where r: "push syn True (jp_decoder p) bs = (ld, r)" by force
  define bad :: "'a rpc_effect list"
    where "bad = map (\<lambda>raw. sendError None PARSE_ERROR (js ''parse error: '' @ syn raw) None) (pr_invalid r)"
  let ?p = "p\<lparr>jp_decoder := ld\<rparr>"
  have b: "settled bad = []" by (simp add: bad_def sendError_def)
  have i1: "calls_inv ?p (h @ bad)" using i b by (intro calls_inv_quiet[OF i]) simp_all
  show ?thesis
  proof (cases "pr_value r")
    case (Inl e)
    obtain p2 effs where e: "pump_end ?p (Some e) = (p2, effs)" by force
    then show ?thesis using calls_inv_end[OF i1 e] c r Inl by (simp add: pump_chunk_def bad_def Let_def)
  next
    case (Inr msgs)
    obtain p2 effs where e: "steps handleMessage ?p msgs = (p2, effs)" by force
    then show ?thesis using rpc_messages.always[OF i1 e] c r Inr by (simp add: pump_chunk_def bad_def Let_def)
  qed
qed

lemma peer_step_inv:
  assumes "calls_inv p h" and "peer_step syn p ev = (p', out)"
  shows "calls_inv p' (h @ out)"
proof (cases ev)
  case (On m k)
  then show ?thesis using assms calls_inv_quiet[OF assms(1), of "[]" p'] by auto
next
  case (OnNotification m k)
  then show ?thesis using assms calls_inv_quiet[OF assms(1), of "[]" p'] by auto
next
  case (Done i r)
  then have "settled out = []" "pending p' = pending p" "nextId p' = nextId p"
    using assms(2) by (cases "(i, r)" rule: handler_reply.cases; auto simp: handlerDone_def sendError_def split: if_splits)+
  then show ?thesis using calls_inv_quiet[OF assms(1)] by blast
qed (use assms calls_inv_quiet[OF assms(1)] in
  \<open>auto simp: onAbort_def onTimeout_def notify_def intro: calls_inv_call calls_inv_cancel calls_inv_chunk calls_inv_end
     split: if_splits\<close>)

interpretation rpc: reactive "peer_step syn" "\<lambda>p _ h. calls_inv p h"
  by unfold_locales (rule peer_step_inv)

lemma calls_inv_new: "JsonRpcPeer t = Inr p \<Longrightarrow> calls_inv p []"
  by (auto simp: JsonRpcPeer_def calls_inv_def call_ids_def Let_def split: if_splits)


section \<open>The byte stream and the messages\<close>

lemma handlers_keep:
  "jp_ended (fst (handleRequest p i m ps)) = jp_ended p"
  "jp_ended (fst (handleNotification p m ps)) = jp_ended p"
  "jp_ended (fst (handleResponse p rec)) = jp_ended p"
  "jp_decoder (fst (handleRequest p i m ps)) = jp_decoder p"
  "jp_decoder (fst (handleNotification p m ps)) = jp_decoder p"
  "jp_decoder (fst (handleResponse p rec)) = jp_decoder p"
  by (simp_all add: handleRequest_def handleNotification_def handleResponse_def Let_def split: option.split)

lemma not_ended_message: "jp_ended (fst (handleMessage p v)) = jp_ended p"
  "jp_decoder (fst (handleMessage p v)) = jp_decoder p"
  unfolding handleMessage_def Let_def
  by (simp_all add: handlers_keep split: option.split json.split)

lemma handlers_decoder:
  "handleRequest (p\<lparr>jp_decoder := ld\<rparr>) i m ps =
     (case handleRequest p i m ps of (p', out) \<Rightarrow> (p'\<lparr>jp_decoder := ld\<rparr>, out))"
  "handleNotification (p\<lparr>jp_decoder := ld\<rparr>) m ps =
     (case handleNotification p m ps of (p', out) \<Rightarrow> (p'\<lparr>jp_decoder := ld\<rparr>, out))"
  "handleResponse (p\<lparr>jp_decoder := ld\<rparr>) rec =
     (case handleResponse p rec of (p', out) \<Rightarrow> (p'\<lparr>jp_decoder := ld\<rparr>, out))"
  by (simp_all add: handleRequest_def handleNotification_def handleResponse_def Let_def split: option.split)

lemma handleMessage_decoder:
  "handleMessage (p\<lparr>jp_decoder := ld\<rparr>) v =
     (case handleMessage p v of (p', out) \<Rightarrow> (p'\<lparr>jp_decoder := ld\<rparr>, out))"
  unfolding handleMessage_def Let_def
  by (simp add: handlers_decoder split: option.split json.split)

interpretation rpc_pump: line_pump jp_decoder "\<lambda>ld p. p\<lparr>jp_decoder := ld\<rparr>" handleMessage
  "\<lambda>p c. peer_step syn p (Chunk c)" "\<lambda>p. \<not> jp_ended p" syn
  by unfold_locales
     (simp_all add: handleMessage_decoder not_ended_message pump_chunk_def split: prod.split)

text \<open>A peer that has no partial line buffered.\<close>

definition rpc_idle :: "'h peer \<Rightarrow> bool" where
  "rpc_idle p \<longleftrightarrow> reading (jp_decoder p) [] \<and> \<not> jp_ended p"

lemma rpc_deliver:
  assumes "rpc_idle p" and "list_all wf_json vs" and "concat cs = encodeLines vs"
    and "fits_limit (maxLineBytes (jp_decoder p)) vs cs"
  shows "\<exists>ld. reading ld [] \<and> steps (peer_step syn) p (map Chunk cs) =
    (case steps handleMessage p vs of (p', out) \<Rightarrow> (p'\<lparr>jp_decoder := ld\<rparr>, out))"
  using rpc_pump.deliver[of p vs cs syn] assms by (simp add: rpc_idle_def steps_map)

section \<open>What the peers say to each other\<close>

lemmas message_defs = version_member_def opt_member_def has_key_def get_key_def members_of_def
  is_object_def isFrameMessage_def FRAME_MARKER_def

lemma handle_request_message:
  "handleMessage p (request_json i m params) = handleRequest p i m params"
  by (cases i; cases params)
     (simp_all add: handleMessage_def request_json_def message_defs asId_def)

lemma handle_notification_message:
  "handleMessage p (notification_json m params) = handleNotification p m params"
  by (cases params) (simp_all add: handleMessage_def notification_json_def message_defs)

text \<open>The outcome a caller sees for what the handler of the other side returned or threw.\<close>

fun remote_outcome :: "thrown + json option \<Rightarrow> outcome" where
  "remote_outcome (Inr r) = Resolved (Some (case r of None \<Rightarrow> JNull | Some v \<Rightarrow> v))"
| "remote_outcome (Inl (TRemote e)) = Rejected (RemoteError (err_code e) (err_message e) (err_data e) None)"
| "remote_outcome (Inl (TError m)) =
     Rejected (rerr REMOTE_PROTOCOL_ERROR (js ''RPC error -32603: '' @ m))"
| "remote_outcome (Inl (TOther m)) =
     Rejected (rerr REMOTE_PROTOCOL_ERROR (js ''RPC error -32603: '' @ m))"

lemma code_text_32603 [simp]: "js_String (JInt INTERNAL_ERROR) = js ''-32603''"
  by (simp add: INTERNAL_ERROR_def JInt_def num_text_def digits.simps js_def)

lemma response_error_remote:
  "responseErrorToRemote (JObj [(js ''code'', JInt c), (js ''message'', JStr m),
      (js ''data'', JObj ((js ''remoteCode'', JStr (code_text k)) # opt_member ''remoteData'' d))]) =
   RemoteError k m d None"
  by (cases d) (simp_all add: responseErrorToRemote_def message_defs Let_def)

lemma response_error_other:
  "responseErrorToRemote (JObj [(js ''code'', JInt INTERNAL_ERROR), (js ''message'', JStr m)]) =
   rerr REMOTE_PROTOCOL_ERROR (js ''RPC error -32603: '' @ m)"
  by (simp add: responseErrorToRemote_def message_defs rerr_def Let_def) (simp add: js_def)

lemma handle_response_message:
  assumes "map_of (pending p) i = Some m"
  shows "handleMessage p (result_json i r) =
      (p\<lparr>pending := AList.delete i (pending p)\<rparr>,
       [Settle i (Resolved (Some (case r of None \<Rightarrow> JNull | Some v \<Rightarrow> v)))])"
    and "handleMessage p (error_json (Some i) c t d) =
      (p\<lparr>pending := AList.delete i (pending p)\<rparr>,
       [Settle i (Rejected (responseErrorToRemote
          (JObj ([(js ''code'', JInt c), (js ''message'', JStr t)] @ opt_member ''data'' d))))])"
  using assms
  by (cases i; simp add: handleMessage_def handleResponse_def result_json_def error_json_def
      version_member_def has_key_def get_key_def members_of_def is_object_def isFrameMessage_def
      FRAME_MARKER_def asId_def Let_def)+

lemma handle_reply_message:
  assumes "map_of (pending p) i = Some m" and "handler_reply i r = Send a"
  shows "handleMessage p a =
    (p\<lparr>pending := AList.delete i (pending p)\<rparr>, [Settle i (remote_outcome r)])"
proof (cases r)
  case (Inr v)
  then show ?thesis using assms handle_response_message(1)[OF assms(1)] by auto
next
  case (Inl t)
  then show ?thesis
    using assms handle_response_message(2)[OF assms(1)] response_error_remote response_error_other
    by (cases t) (auto simp: sendError_def opt_member_def)
qed


lemma idle_message:
  assumes "rpc_idle p" and "wf_json v" and "concat cs = encodeLine v"
    and "fits_limit (maxLineBytes (jp_decoder p)) [v] cs" and "handleMessage p v = (p', out)"
  shows "\<exists>ld. steps (peer_step syn) p (map Chunk cs) = (p'\<lparr>jp_decoder := ld\<rparr>, out)
    \<and> rpc_idle (p'\<lparr>jp_decoder := ld\<rparr>)"
proof -
  have "jp_ended p' = jp_ended p" using not_ended_message(1)[of p v] assms(5) by simp
  then show ?thesis using rpc_deliver[OF assms(1), of "[v]" cs syn] assms by (auto simp: rpc_idle_def)
qed

section \<open>Properties\<close>

text \<open>
  C3: Every call of a peer is settled exactly once or still pending: after any sequence of calls,
  aborts, timeouts, inbound bytes, handler completions and the end of the stream, the ids of the
  settled promises together with the pending ids are the ids given out so far, each once. So no
  promise settles twice, none is lost, and no id is used for two calls.
\<close>

theorem rpc_calls_settle_once:
  fixes evs :: "'h peer_event list"
  shows "case JsonRpcPeer timeout of
     Inl e \<Rightarrow> e = TError (js ''JsonRpcPeer requestTimeoutMs must be a finite non-negative number'')
   | Inr p0 \<Rightarrow>
       (case steps (peer_step syn) p0 evs of
          (p, out) \<Rightarrow> mset (settled out) + mset (map fst (pending p)) = mset (call_ids (nextId p)))"
proof (cases "JsonRpcPeer timeout :: thrown + 'h peer")
  case (Inl e)
  then show ?thesis by (auto simp: JsonRpcPeer_def Let_def split: if_splits)
next
  case (Inr p0)
  then show ?thesis using rpc.from_start[OF calls_inv_new, of timeout p0 syn evs]
    by (auto simp: calls_inv_def split: prod.split)
qed

text \<open>
  C2: A call made on one peer and served by the handler of the other ends, through two byte streams
  cut into chunks in any way, in one settlement of its promise with what the handler produced: its
  result (\<open>null\<close> for \<open>undefined\<close>), the code, message and details of a \<open>RemoteError\<close> it threw,
  or a \<open>REMOTE_PROTOCOL_ERROR\<close> with the message of any other failure. The handler runs once, with
  the parameters of the call, and both decoders end with nothing buffered.
\<close>

theorem rpc_end_to_end:
  fixes c s :: "'h peer"
  assumes "rpc_idle c" and "rpc_idle s" and "map_of (handlers s) m = Some h"
    and "i = NumId (int (nextId c)) 0" and "call c m params False = (c1, [Send q])"
    and "wf_json q" and "concat cs = encodeLine q" and "fits_limit (maxLineBytes (jp_decoder s)) [q] cs"
    and "(handler_reply i r :: 'h rpc_effect) = Send a"
    and "wf_json a" and "concat ds = encodeLine a" and "fits_limit (maxLineBytes (jp_decoder c)) [a] ds"
  shows "\<exists>s1 s2 c2.
    steps (peer_step syn) s (map Chunk cs) = (s1, [Run h i params])
    \<and> peer_step syn s1 (Done i r) = (s2, [Send a])
    \<and> steps (peer_step syn) c1 (map Chunk ds) = (c2, [Settle i (remote_outcome r)])
    \<and> rpc_idle s2 \<and> rpc_idle c2 \<and> map_of (pending c2) i = None"
proof -
  have q: "q = request_json i m params"
    and c1: "c1 = c\<lparr>nextId := Suc (nextId c), pending := AList.update i m (pending c)\<rparr>"
    using assms(4,5) by (simp_all add: call_def Let_def)
  have "handleMessage s q = (s\<lparr>serving := serving s @ [i]\<rparr>, [Run h i params])"
    using assms(3) by (simp add: q handle_request_message handleRequest_def)
  then obtain ld where s1: "steps (peer_step syn) s (map Chunk cs) =
      (s\<lparr>serving := serving s @ [i], jp_decoder := ld\<rparr>, [Run h i params])"
    "rpc_idle (s\<lparr>serving := serving s @ [i], jp_decoder := ld\<rparr>)"
    using idle_message[OF assms(2,6-8), of "s\<lparr>serving := serving s @ [i]\<rparr>" "[Run h i params]" syn] by auto
  have idle: "rpc_idle c1" using assms(1) by (simp add: c1 rpc_idle_def)
  have "handleMessage c1 a = (c1\<lparr>pending := AList.delete i (pending c1)\<rparr>, [Settle i (remote_outcome r)])"
    using handle_reply_message[of c1 i m, OF _ assms(9)] by (simp add: c1)
  then obtain ld2 where c2: "steps (peer_step syn) c1 (map Chunk ds) =
      (c1\<lparr>pending := AList.delete i (pending c1), jp_decoder := ld2\<rparr>, [Settle i (remote_outcome r)])"
    "rpc_idle (c1\<lparr>pending := AList.delete i (pending c1), jp_decoder := ld2\<rparr>)"
    using idle_message[OF idle assms(10,11)] assms(12) by (fastforce simp: c1)
  show ?thesis
    by (rule exI, rule exI, rule exI, intro conjI, rule s1(1), simp add: handlerDone_def assms(9), rule c2(1))
       (use s1(2) c2(2) in \<open>simp_all add: rpc_idle_def\<close>)
qed

text \<open>
  When the byte stream ends or fails, every call that was pending is rejected, in the order of
  the calls, with the \<open>RemoteError\<close> the stream failed with or with \<open>REMOTE_CONN_LOST\<close>; then every
  call made so far has been settled exactly once.
\<close>

theorem rpc_teardown_settles_all:
  fixes p0 :: "'h peer"
  assumes "JsonRpcPeer timeout = Inr p0" and "steps (peer_step syn) p0 evs = (p, out)" and "\<not> jp_ended p"
  shows "\<exists>p'. peer_step syn p (End failure) =
      (p', map (\<lambda>i. Settle i (Rejected (teardown_error failure))) (map fst (pending p)) @ [Closed])
    \<and> mset (settled (out @ snd (peer_step syn p (End failure)))) = mset (call_ids (nextId p'))
    \<and> err_code (teardown_error failure) =
        (case failure of Some (TRemote e) \<Rightarrow> err_code e | _ \<Rightarrow> REMOTE_CONN_LOST)"
proof -
  have "calls_inv p out" using rpc.always[OF calls_inv_new[OF assms(1)] assms(2)] by simp
  then have "calls_inv (fst (pump_end p failure)) (out @ snd (pump_end p failure))"
    using calls_inv_end[of p out failure] by (simp add: prod_eq_iff)
  moreover have "map (\<lambda>(i, m). Settle i (Rejected (teardown_error failure)) :: 'h rpc_effect) (pending p) =
      map (\<lambda>i. Settle i (Rejected (teardown_error failure))) (map fst (pending p))"
    by (simp add: case_prod_beta)
  moreover have "err_code (teardown_error failure) =
      (case failure of Some (TRemote e) \<Rightarrow> err_code e | _ \<Rightarrow> REMOTE_CONN_LOST)"
    by (simp add: teardown_error_def split: option.split thrown.split)
  ultimately show ?thesis using assms(3)
    by (simp add: pump_end_def calls_inv_def comp_def)
qed

definition sample_peer :: "nat peer" where
  "sample_peer = \<lparr>jp_decoder = LineDecoder DEFAULT_MAX_LINE_BYTES, nextId = 1, pending = [],
     handlers = [(js ''a'', 7)], notifications = [], requestTimeoutMs = 30000, serving = [], jp_ended = False\<rparr>"

lemma sample_peer_idle: "rpc_idle sample_peer"
  by (simp add: rpc_idle_def sample_peer_def reading_new)

lemmas encode_simps = encodeLine_def quote_def esc1_def is_high_def is_low_def scalar_def utf8_cp_def
  num_text_def digits.simps js_def

theorem rpc_end_to_end_witness:
  "\<exists>s1 s2 c2.
    steps (peer_step (\<lambda>_. [])) sample_peer (map Chunk [encodeLine (request_json (NumId 1 0) (js ''a'') None)]) =
      (s1, [Run 7 (NumId 1 0) None])
    \<and> peer_step (\<lambda>_. []) s1 (Done (NumId 1 0) (Inr (Some (JBool True)))) =
      (s2, [Send (result_json (NumId 1 0) (Some (JBool True)))])
    \<and> steps (peer_step (\<lambda>_. [])) (fst (call sample_peer (js ''a'') None False))
        (map Chunk [encodeLine (result_json (NumId 1 0) (Some (JBool True)))]) =
      (c2, [Settle (NumId 1 0) (Resolved (Some (JBool True)))])
    \<and> rpc_idle s2 \<and> rpc_idle c2 \<and> map_of (pending c2) (NumId 1 0) = None"
proof -
  have q: "length (encodeLine (request_json (NumId 1 0) (js ''a'') None)) < 60"
    by (simp add: request_json_def version_member_def opt_member_def encode_simps)
  have a: "length (encodeLine (result_json (NumId 1 0) (Some (JBool True)))) < 60"
    by (simp add: result_json_def version_member_def encode_simps)
  have m: "maxLineBytes (jp_decoder sample_peer) = 8388608"
    by (simp add: sample_peer_def LineDecoder_def DEFAULT_MAX_LINE_BYTES_def)
  have c: "call sample_peer (js ''a'') None False =
      (fst (call sample_peer (js ''a'') None False), [Send (request_json (NumId 1 0) (js ''a'') None)])"
    by (simp add: call_def sample_peer_def Let_def)
  have "remote_outcome (Inr (Some (JBool True))) = Resolved (Some (JBool True))" by simp
  moreover have "map_of (handlers sample_peer) (js ''a'') = Some 7" "NumId 1 0 = NumId (int (nextId sample_peer)) 0"
    by (simp_all add: sample_peer_def)
  ultimately show ?thesis
    using rpc_end_to_end[OF sample_peer_idle sample_peer_idle _ _ c, of 7 "NumId 1 0"
        "[encodeLine (request_json (NumId 1 0) (js ''a'') None)]" "Inr (Some (JBool True))"
        "result_json (NumId 1 0) (Some (JBool True))"
        "[encodeLine (result_json (NumId 1 0) (Some (JBool True)))]" "\<lambda>_. []"] q a
    by (simp only: fits_limit_def m)
       (simp del: steps.simps add: request_json_def result_json_def version_member_def opt_member_def)
qed

theorem rpc_teardown_settles_all_witness:
  "\<exists>p'. peer_step (\<lambda>_. []) (fst (call sample_peer (js ''a'') None False)) (End None) =
      (p', [Settle (NumId 1 0) (Rejected (RemoteError REMOTE_CONN_LOST (js ''peer closed the byte stream'') None None)), Closed])"
proof -
  have new: "JsonRpcPeer None = Inr (sample_peer\<lparr>handlers := []\<rparr>)"
    by (simp add: JsonRpcPeer_def sample_peer_def)
  have st: "steps (peer_step (\<lambda>_. [])) (sample_peer\<lparr>handlers := []\<rparr>) [On (js ''a'') 7, Call (js ''a'') None False] =
      (fst (call sample_peer (js ''a'') None False), snd (call sample_peer (js ''a'') None False))"
    by (simp add: sample_peer_def call_def)
  have "\<not> jp_ended (fst (call sample_peer (js ''a'') None False))"
    "map fst (pending (fst (call sample_peer (js ''a'') None False))) = [NumId 1 0]"
    by (simp_all add: sample_peer_def call_def Let_def)
  then show ?thesis using rpc_teardown_settles_all[OF new st, of None] by (auto simp: teardown_error_def)
qed

end
