(* ===== verification/Mux.thy ===== *)
theory Mux
  imports Jsonrpc "HOL-Library.Sublist"
begin

text \<open>
  The channel multiplexer, \<^verbatim>\<open>remote-core/src/mux.ts\<close>. A channel (\<open>MuxChannelImpl\<close>) is the record
  \<open>channel\<close> with its methods as functions to the new state and the effects, in order. The mux
  (\<open>ChannelMux\<close>) keeps every channel object ever created in \<open>mx_chans\<close>, so that a channel is its
  position in that list (its identity, as in \<open>this.#channels.get(id) === ch\<close>); \<open>mx_open\<close> is the map
  \<open>#channels\<close>, and \<open>mx_reap\<close> holds the reactions to \<open>onClose\<close> that are waiting for a microtask,
  run one at a time by the event \<open>Reap\<close>. One reader per channel is assumed, as everywhere in the
  source.
\<close>

definition DEFAULT_MAX_QUEUED_BYTES :: nat where
  "DEFAULT_MAX_QUEUED_BYTES = 64 * 1024 * 1024"

definition CONTROL_CHANNEL :: int where
  "CONTROL_CHANNEL = 0"

section \<open>Channels\<close>

datatype chan_end = ChOpen | ChDone | ChFailed remote_error

record channel =
  ch_id :: int
  ch_type :: jstr
  ch_queue :: "bytes list"
  ch_queuedBytes :: nat
  ch_maxQueuedBytes :: nat
  ch_waiter :: bool
  ch_end :: chan_end

definition MuxChannelImpl :: "int \<Rightarrow> jstr \<Rightarrow> nat \<Rightarrow> channel" where
  "MuxChannelImpl i t n = \<lparr>ch_id = i, ch_type = t, ch_queue = [], ch_queuedBytes = 0,
     ch_maxQueuedBytes = n, ch_waiter = False, ch_end = ChOpen\<rparr>"

text \<open>
  What a channel does: a frame to the other side, an exception to the caller of \<open>write\<close>, an answer
  to the reader's pull (a chunk, the end, an error), and the resolution of \<open>onClose\<close>.
\<close>

datatype chan_effect =
    CFrame data_frame
  | CThrow remote_error
  | CValue bytes
  | CEnd
  | CFail remote_error
  | CClosed

definition plain_frame :: "int \<Rightarrow> frame_type \<Rightarrow> data_frame" where
  "plain_frame i t = \<lparr>fr_channel = i, fr_type = t, fr_payload = None, fr_message = None\<rparr>"

definition data_frame_of :: "int \<Rightarrow> bytes \<Rightarrow> data_frame" where
  "data_frame_of i p = (plain_frame i FData)\<lparr>fr_payload := Some p\<rparr>"

definition chan_write :: "channel \<Rightarrow> bytes \<Rightarrow> channel \<times> chan_effect list" where
  "chan_write c p =
     (if ch_end c \<noteq> ChOpen
      then (c, [CThrow (rerr REMOTE_CONN_LOST (js ''channel '' @ num_text (ch_id c) 0 @ js '' is closed''))])
      else (c, [CFrame (data_frame_of (ch_id c) p)]))"

text \<open>\<open>this.#queue.shift()\<close> with the byte count adjusted.\<close>

definition chan_shift :: "channel \<Rightarrow> channel" where
  "chan_shift c = c\<lparr>ch_queue := tl (ch_queue c),
     ch_queuedBytes := ch_queuedBytes c - length (hd (ch_queue c))\<rparr>"

definition drainWaiter :: "channel \<Rightarrow> channel \<times> chan_effect list" where
  "drainWaiter c =
     (if \<not> ch_waiter c then (c, [])
      else (let c1 = c\<lparr>ch_waiter := False\<rparr> in
        if ch_queue c \<noteq> [] then (chan_shift c1, [CValue (hd (ch_queue c))])
        else (case ch_end c of ChFailed e \<Rightarrow> (c1, [CFail e]) | _ \<Rightarrow> (c1, [CEnd]))))"

definition chan_finish :: "channel \<Rightarrow> chan_end \<Rightarrow> channel \<times> chan_effect list" where
  "chan_finish c e =
     (if ch_end c \<noteq> ChOpen then (c, [])
      else (case drainWaiter (c\<lparr>ch_end := e\<rparr>) of (c1, es) \<Rightarrow> (c1, es @ [CClosed])))"

definition chan_close :: "channel \<Rightarrow> channel \<times> chan_effect list" where
  "chan_close c =
     (if ch_end c \<noteq> ChOpen then (c, [])
      else (case chan_finish c ChDone of (c1, es) \<Rightarrow> (c1, CFrame (plain_frame (ch_id c) FEnd) # es)))"

definition chan_data :: "channel \<Rightarrow> bytes \<Rightarrow> channel \<times> chan_effect list" where
  "chan_data c p =
     (if ch_end c \<noteq> ChOpen then (c, [])
      else if ch_waiter c then (c\<lparr>ch_waiter := False\<rparr>, [CValue p])
      else if ch_queuedBytes c + length p > ch_maxQueuedBytes c then
        (let msg = js ''channel '' @ num_text (ch_id c) 0 @ js '' exceeded ''
               @ digits (ch_maxQueuedBytes c) @ js '' queued bytes''
         in case chan_finish c (ChFailed (rerr REMOTE_PROTOCOL_ERROR msg)) of
              (c1, es) \<Rightarrow> (c1, CFrame ((plain_frame (ch_id c) FError)\<lparr>fr_message := Some msg\<rparr>) # es))
      else (c\<lparr>ch_queue := ch_queue c @ [p], ch_queuedBytes := ch_queuedBytes c + length p\<rparr>, []))"

definition chan_pull :: "channel \<Rightarrow> channel \<times> chan_effect list" where
  "chan_pull c =
     (if ch_queue c \<noteq> [] then (chan_shift c, [CValue (hd (ch_queue c))])
      else (case ch_end c of
              ChFailed e \<Rightarrow> (c, [CFail e])
            | ChDone \<Rightarrow> (c, [CEnd])
            | ChOpen \<Rightarrow> (c\<lparr>ch_waiter := True\<rparr>, [])))"

datatype chan_event = CWrite bytes | CClose | CData bytes | CFinish chan_end | CPull

fun chan_step :: "channel \<Rightarrow> chan_event \<Rightarrow> channel \<times> chan_effect list" where
  "chan_step c (CWrite p) = chan_write c p"
| "chan_step c CClose = chan_close c"
| "chan_step c (CData p) = chan_data c p"
| "chan_step c (CFinish e) = (if e = ChOpen then (c, []) else chan_finish c e)"
| "chan_step c CPull = chan_pull c"

section \<open>The open frame\<close>

definition open_json :: "int \<Rightarrow> jstr \<Rightarrow> json" where
  "open_json i t = JObj [(FRAME_MARKER, JInt 1), (js ''channel'', JInt i),
     (js ''type'', JStr (js ''open'')), (js ''channelType'', JStr t)]"

definition encodeOpenFrame :: "int \<Rightarrow> jstr \<Rightarrow> bytes" where
  "encodeOpenFrame i t = encodeLine (open_json i t)"

definition decodeOpenFrame :: "json \<Rightarrow> (int \<times> jstr) option" where
  "decodeOpenFrame v =
     (if \<not> isFrameMessage v then None
      else (let ms = members_of v in
        if get_key ms ''type'' \<noteq> Some (JStr (js ''open'')) then None
        else map_option (\<lambda>i. (i, case str_of (get_key ms ''channelType'') of Some t \<Rightarrow> t | None \<Rightarrow> js ''data''))
          (channel_of (get_key ms ''channel''))))"

section \<open>The mux\<close>

record mux =
  mx_chans :: "channel list"
  mx_open :: "(int \<times> nat) list"
  mx_reap :: "nat list"
  mx_handler :: bool
  mx_decoder :: line_decoder
  mx_maxQueuedBytes :: nat
  mx_ended :: bool

datatype mux_effect =
    At nat chan_effect
  | OpenFrame int jstr
  | MThrow remote_error
  | Opened nat
  | NewChannel nat
  | MuxClosed

definition ChannelMux :: "int option \<Rightarrow> thrown + mux" where
  "ChannelMux opt =
     (let n = (case opt of None \<Rightarrow> int DEFAULT_MAX_QUEUED_BYTES | Some k \<Rightarrow> k) in
      if n < 0 \<or> n > 2 ^ 53 - 1
      then Inl (TError (js ''ChannelMux maxQueuedBytes must be a non-negative safe integer''))
      else Inr \<lparr>mx_chans = [], mx_open = [], mx_reap = [], mx_handler = False,
        mx_decoder = LineDecoder DEFAULT_MAX_LINE_BYTES, mx_maxQueuedBytes = nat n, mx_ended = False\<rparr>)"

text \<open>A method of channel object \<open>u\<close>; resolving \<open>onClose\<close> queues its reaction.\<close>

definition on_chan :: "mux \<Rightarrow> nat \<Rightarrow> (channel \<Rightarrow> channel \<times> chan_effect list) \<Rightarrow> mux \<times> mux_effect list" where
  "on_chan m u f =
     (case f (mx_chans m ! u) of
        (c, es) \<Rightarrow> (m\<lparr>mx_chans := (mx_chans m)[u := c],
            mx_reap := mx_reap m @ (if CClosed \<in> set es then [u] else [])\<rparr>, map (At u) es))"

definition mux_create :: "mux \<Rightarrow> int \<Rightarrow> jstr \<Rightarrow> mux" where
  "mux_create m i t = m\<lparr>mx_chans := mx_chans m @ [MuxChannelImpl i t (mx_maxQueuedBytes m)],
     mx_open := AList.update i (length (mx_chans m)) (mx_open m)\<rparr>"

text \<open>\<open>openChannel\<close> of the number \<open>k / 10 ^ d\<close>.\<close>

definition openChannel :: "mux \<Rightarrow> int \<Rightarrow> nat \<Rightarrow> jstr \<Rightarrow> mux \<times> mux_effect list" where
  "openChannel m k d t =
     (case channel_of (Some (JNum k d)) of
        None \<Rightarrow> (m, [MThrow (rerr REMOTE_PROTOCOL_ERROR (js ''invalid channel id '' @ num_text k d))])
      | Some i \<Rightarrow>
          if map_of (mx_open m) i \<noteq> None then
            (m, [MThrow (rerr REMOTE_PROTOCOL_ERROR (js ''channel '' @ num_text i 0 @ js '' is already open''))])
          else (mux_create m i t, [OpenFrame i t, Opened (length (mx_chans m))]))"

definition mux_reap1 :: "mux \<Rightarrow> mux" where
  "mux_reap1 m =
     (case mx_reap m of
        [] \<Rightarrow> m
      | u # us \<Rightarrow> (let i = ch_id (mx_chans m ! u); m1 = m\<lparr>mx_reap := us\<rparr> in
          if map_of (mx_open m) i = Some u then m1\<lparr>mx_open := AList.delete i (mx_open m)\<rparr> else m1))"

definition frame_end :: "data_frame \<Rightarrow> chan_end" where
  "frame_end f = (if fr_type f = FEnd then ChDone
     else ChFailed (rerr REMOTE_PROTOCOL_ERROR
       (case fr_message f of Some t \<Rightarrow> t | None \<Rightarrow> js ''channel '' @ num_text (fr_channel f) 0 @ js '' failed'')))"

definition handleFrame :: "channel \<Rightarrow> data_frame \<Rightarrow> channel \<times> chan_effect list" where
  "handleFrame c f =
     (if fr_type f = FData then chan_data c (case fr_payload f of Some p \<Rightarrow> p | None \<Rightarrow> [])
      else chan_finish c (frame_end f))"

definition handleLine :: "mux \<Rightarrow> json \<Rightarrow> mux \<times> mux_effect list" where
  "handleLine m v =
     (case decodeOpenFrame v of
        Some (i, t) \<Rightarrow>
          if map_of (mx_open m) i = None
          then (mux_create m i t, if mx_handler m then [NewChannel (length (mx_chans m))] else [])
          else (m, [])
      | None \<Rightarrow>
          (case decodeDataFrame v of
             None \<Rightarrow> (m, [])
           | Some f \<Rightarrow>
               (case map_of (mx_open m) (fr_channel f) of
                  None \<Rightarrow> (m, [])
                | Some u \<Rightarrow> on_chan m u (\<lambda>c. handleFrame c f))))"

definition mux_end :: "mux \<Rightarrow> mux \<times> mux_effect list" where
  "mux_end m =
     (case steps (\<lambda>m u. on_chan m u (\<lambda>c. chan_finish c
         (ChFailed (rerr REMOTE_CONN_LOST (js ''mux byte stream ended''))))) m (map snd (mx_open m)) of
        (m1, es) \<Rightarrow> (m1\<lparr>mx_open := [], mx_ended := True\<rparr>, es @ [MuxClosed]))"

definition mux_chunk :: "mux \<Rightarrow> bytes \<Rightarrow> mux \<times> mux_effect list" where
  "mux_chunk m chunk =
     (case push (\<lambda>_. []) True (mx_decoder m) chunk of
        (ld, r) \<Rightarrow>
          (let m1 = m\<lparr>mx_decoder := ld\<rparr> in
           case pr_value r of Inl e \<Rightarrow> mux_end m1 | Inr vs \<Rightarrow> steps handleLine m1 vs))"

datatype mux_event =
    Open int nat jstr
  | Chan nat chan_event
  | OnChannel
  | MChunk bytes
  | MEnd
  | Reap

text \<open>The users of a channel write, close and pull; only frames and the pump deliver and finish.\<close>

fun local_event :: "chan_event \<Rightarrow> bool" where
  "local_event (CWrite p) = True"
| "local_event CClose = True"
| "local_event CPull = True"
| "local_event _ = False"

fun mux_step :: "mux \<Rightarrow> mux_event \<Rightarrow> mux \<times> mux_effect list" where
  "mux_step m (Open k d t) = openChannel m k d t"
| "mux_step m (Chan u e) =
     (if u < length (mx_chans m) \<and> local_event e then on_chan m u (\<lambda>c. chan_step c e) else (m, []))"
| "mux_step m OnChannel = (m\<lparr>mx_handler := True\<rparr>, [])"
| "mux_step m (MChunk bs) = (if mx_ended m then (m, []) else mux_chunk m bs)"
| "mux_step m MEnd = (if mx_ended m then (m, []) else mux_end m)"
| "mux_step m Reap = (mux_reap1 m, [])"

section \<open>A channel delivers in order, within its budget\<close>

definition delivered :: "chan_effect list \<Rightarrow> bytes list" where
  "delivered = List.map_filter (\<lambda>e. case e of CValue p \<Rightarrow> Some p | _ \<Rightarrow> None)"

lemma delivered_simps [simp]:
  "delivered [] = []"
  "delivered (CValue p # es) = p # delivered es"
  "delivered (CFrame f # es) = delivered es"
  "delivered (CThrow x # es) = delivered es"
  "delivered (CEnd # es) = delivered es"
  "delivered (CFail x # es) = delivered es"
  "delivered (CClosed # es) = delivered es"
  "delivered (es @ fs) = delivered es @ delivered fs"
  by (simp_all add: delivered_def map_filter_def)

text \<open>The payloads that arrive for a channel.\<close>

definition arrivals :: "chan_event list \<Rightarrow> bytes list" where
  "arrivals = List.map_filter (\<lambda>e. case e of CData p \<Rightarrow> Some p | _ \<Rightarrow> None)"

lemma arrivals_simps [simp]:
  "arrivals [] = []"
  "arrivals (CData p # es) = p # arrivals es"
  "arrivals (CWrite p # es) = arrivals es"
  "arrivals (CClose # es) = arrivals es"
  "arrivals (CFinish x # es) = arrivals es"
  "arrivals (CPull # es) = arrivals es"
  "arrivals (es @ fs) = arrivals es @ arrivals fs"
  by (simp_all add: arrivals_def map_filter_def)

definition chan_ok :: "channel \<Rightarrow> bool" where
  "chan_ok c \<longleftrightarrow> ch_queuedBytes c = sum_list (map length (ch_queue c))
     \<and> ch_queuedBytes c \<le> ch_maxQueuedBytes c
     \<and> (ch_waiter c \<longrightarrow> ch_queue c = [] \<and> ch_end c = ChOpen)"

lemma chan_ok_new: "chan_ok (MuxChannelImpl i t n)"
  by (simp add: chan_ok_def MuxChannelImpl_def)

lemmas chan_defs = chan_write_def chan_close_def chan_data_def chan_pull_def chan_finish_def
  drainWaiter_def chan_shift_def

text \<open>What one event does, case by case.\<close>

lemma chan_step_ok:
  assumes "chan_ok c" and "chan_step c e = (c', es)"
  shows "chan_ok c' \<and> ch_id c' = ch_id c \<and> ch_maxQueuedBytes c' = ch_maxQueuedBytes c
    \<and> (ch_end c \<noteq> ChOpen \<longrightarrow> ch_end c' = ch_end c \<and> CClosed \<notin> set es)
    \<and> (ch_end c = ChOpen \<longrightarrow> (CClosed \<in> set es \<longleftrightarrow> ch_end c' \<noteq> ChOpen))"
  using assms
  by (cases e; cases "ch_queue c"; cases "ch_waiter c"; cases "ch_end c")
     (auto simp: chan_defs chan_ok_def Let_def split: if_splits chan_end.splits)

lemma chan_step_flow:
  assumes "chan_ok c" and "chan_step c e = (c', es)"
  shows "ch_queue c @ (if ch_end c' = ChOpen then arrivals [e] else []) = delivered es @ ch_queue c'
    \<and> (ch_end c \<noteq> ChOpen \<longrightarrow> ch_end c' = ch_end c)
    \<and> (CEnd \<in> set es \<longrightarrow> ch_queue c = [] \<and> ch_end c' = ChDone)
    \<and> (\<forall>x. CFail x \<in> set es \<longrightarrow> ch_queue c = [] \<and> ch_end c' = ChFailed x)"
  using assms
  by (cases e; cases "ch_queue c"; cases "ch_waiter c"; cases "ch_end c")
     (auto simp: chan_defs chan_ok_def Let_def split: if_splits chan_end.splits)

text \<open>What a run of a channel has delivered, queues and has refused.\<close>

definition chan_inv :: "channel \<Rightarrow> chan_event list \<Rightarrow> chan_effect list \<Rightarrow> bool" where
  "chan_inv c g h \<longleftrightarrow> chan_ok c
     \<and> (\<exists>rest. arrivals g = delivered h @ ch_queue c @ rest \<and> (ch_end c = ChOpen \<longrightarrow> rest = []))
     \<and> count_list h CClosed = (if ch_end c = ChOpen then 0 else 1)
     \<and> (CEnd \<in> set h \<longrightarrow> ch_queue c = [] \<and> ch_end c = ChDone)
     \<and> (\<forall>x. CFail x \<in> set h \<longrightarrow> ch_queue c = [] \<and> ch_end c = ChFailed x)"

lemma closed_once:
  assumes "chan_step c e = (c', es)"
  shows "count_list es CClosed = (if ch_end c = ChOpen \<and> ch_end c' \<noteq> ChOpen then 1 else 0)"
  using assms
  by (cases e; cases "ch_queue c"; cases "ch_waiter c"; cases "ch_end c")
     (auto simp: chan_defs Let_def split: if_splits chan_end.splits)

lemma arrivals_snoc: "arrivals (g @ [e]) = arrivals g @ arrivals [e]"
  by simp

lemma chan_inv_step:
  assumes "chan_inv c g h" and s: "chan_step c e = (c', es)"
  shows "chan_inv c' (g @ [e]) (h @ es)"
proof -
  from assms(1) obtain rest where i: "chan_ok c" "arrivals g = delivered h @ ch_queue c @ rest"
    "ch_end c = ChOpen \<longrightarrow> rest = []" "count_list h CClosed = (if ch_end c = ChOpen then 0 else 1)"
    "CEnd \<in> set h \<longrightarrow> ch_queue c = [] \<and> ch_end c = ChDone"
    "\<forall>x. CFail x \<in> set h \<longrightarrow> ch_queue c = [] \<and> ch_end c = ChFailed x"
    by (auto simp: chan_inv_def)
  note f = chan_step_flow[OF i(1) s]
  have q: "ch_queue c' = [] \<and> delivered es = [] \<and> ch_end c' = ch_end c"
    if "ch_queue c = []" "ch_end c \<noteq> ChOpen" using f that by (auto split: if_splits)
  have qe: "ch_queue c' = []" if "CEnd \<in> set es \<or> (\<exists>x. CFail x \<in> set es)"
  proof -
    have "ch_queue c = []" "ch_end c' \<noteq> ChOpen" using f that by auto
    then show ?thesis using f by simp
  qed
  have "\<exists>rest. arrivals (g @ [e]) = delivered (h @ es) @ ch_queue c' @ rest \<and> (ch_end c' = ChOpen \<longrightarrow> rest = [])"
  proof (cases "ch_end c' = ChOpen")
    case True
    then have "ch_end c = ChOpen" using f by auto
    then show ?thesis using i(2,3) f True by (simp del: arrivals_simps(7) add: arrivals_snoc)
  next
    case False
    then show ?thesis using i(2) f by (auto simp del: arrivals_simps(7) simp: arrivals_snoc)
  qed
  moreover have "count_list (h @ es) CClosed = (if ch_end c' = ChOpen then 0 else 1)"
    using closed_once[OF s] i(4) f by auto
  ultimately show ?thesis
    using chan_step_ok[OF i(1) s] f i(5,6) q qe unfolding chan_inv_def by auto
qed

interpretation channels: reactive chan_step chan_inv
  by unfold_locales (rule chan_inv_step)

lemma chan_inv_new: "chan_inv (MuxChannelImpl i t n) [] []"
  by (simp add: chan_inv_def chan_ok_new) (simp add: MuxChannelImpl_def)

text \<open>A reader that pulls gets what is queued, in order.\<close>

lemma pulls_deliver:
  "n = length (ch_queue c) \<Longrightarrow>
   snd (steps chan_step c (replicate n CPull)) = map CValue (ch_queue c)
   \<and> ch_queue (fst (steps chan_step c (replicate n CPull))) = []
   \<and> ch_end (fst (steps chan_step c (replicate n CPull))) = ch_end c"
proof (induction n arbitrary: c)
  case (Suc n)
  then obtain p ps where q: "ch_queue c = p # ps" by (metis Zero_not_Suc length_0_conv neq_Nil_conv)
  have "chan_step c CPull = (chan_shift c, [CValue p])" by (simp add: chan_pull_def q)
  moreover have "ch_queue (chan_shift c) = ps" "ch_end (chan_shift c) = ch_end c"
    by (simp_all add: chan_shift_def q)
  ultimately show ?case using Suc.IH[of "chan_shift c"] Suc.prems q by (simp add: case_prod_beta)
qed simp

section \<open>The mux keeps its channels apart\<close>

definition mux_ok :: "mux \<Rightarrow> bool" where
  "mux_ok m \<longleftrightarrow> (\<forall>c \<in> set (mx_chans m). chan_ok c \<and> ch_maxQueuedBytes c = mx_maxQueuedBytes m)
     \<and> (\<forall>i u. map_of (mx_open m) i = Some u \<longrightarrow> u < length (mx_chans m) \<and> ch_id (mx_chans m ! u) = i
          \<and> (ch_end (mx_chans m ! u) = ChOpen \<or> u \<in> set (mx_reap m)))
     \<and> (\<forall>u < length (mx_chans m). ch_end (mx_chans m ! u) = ChOpen \<longrightarrow>
          map_of (mx_open m) (ch_id (mx_chans m ! u)) = Some u)
     \<and> (\<forall>u \<in> set (mx_reap m). u < length (mx_chans m) \<and> ch_end (mx_chans m ! u) \<noteq> ChOpen)
     \<and> distinct (map fst (mx_open m))"

lemma mux_ok_chan: "mux_ok m \<Longrightarrow> u < length (mx_chans m) \<Longrightarrow> chan_ok (mx_chans m ! u)"
  by (simp add: mux_ok_def)

lemma mux_ok_open:
  "mux_ok m \<Longrightarrow> map_of (mx_open m) i = Some u \<Longrightarrow> u < length (mx_chans m) \<and> ch_id (mx_chans m ! u) = i"
  by (simp add: mux_ok_def)

lemma mux_ok_mapped:
  "mux_ok m \<Longrightarrow> map_of (mx_open m) i = Some u \<Longrightarrow> ch_end (mx_chans m ! u) = ChOpen \<or> u \<in> set (mx_reap m)"
  by (simp add: mux_ok_def)

lemma mux_ok_live:
  "mux_ok m \<Longrightarrow> u < length (mx_chans m) \<Longrightarrow> ch_end (mx_chans m ! u) = ChOpen \<Longrightarrow>
   map_of (mx_open m) (ch_id (mx_chans m ! u)) = Some u"
  by (simp add: mux_ok_def)

lemma mux_ok_reaped:
  "mux_ok m \<Longrightarrow> u \<in> set (mx_reap m) \<Longrightarrow> u < length (mx_chans m) \<and> ch_end (mx_chans m ! u) \<noteq> ChOpen"
  by (simp add: mux_ok_def)

lemma mux_ok_cong:
  "mx_chans m' = mx_chans m \<Longrightarrow> mx_open m' = mx_open m \<Longrightarrow> mx_reap m' = mx_reap m \<Longrightarrow>
   mx_maxQueuedBytes m' = mx_maxQueuedBytes m \<Longrightarrow> mux_ok m' = mux_ok m"
  by (simp add: mux_ok_def)

lemma mux_ok_on_chan:
  assumes m: "mux_ok m" and u: "u < length (mx_chans m)" and s: "on_chan m u (\<lambda>c. chan_step c e) = (m', out)"
  shows "mux_ok m' \<and> mx_open m' = mx_open m \<and> length (mx_chans m') = length (mx_chans m)"
proof -
  obtain c es where c: "chan_step (mx_chans m ! u) e = (c, es)" by force
  note k = chan_step_ok[OF mux_ok_chan[OF m u] c]
  have m': "m' = m\<lparr>mx_chans := (mx_chans m)[u := c], mx_reap := mx_reap m @ (if CClosed \<in> set es then [u] else [])\<rparr>"
    using s c by (simp add: on_chan_def)
  have nu: "u \<in> set (mx_reap m) \<Longrightarrow> ch_end (mx_chans m ! u) \<noteq> ChOpen" using m by (simp add: mux_ok_def)
  have "\<forall>c' \<in> set (mx_chans m'). chan_ok c' \<and> ch_maxQueuedBytes c' = mx_maxQueuedBytes m'"
  proof
    fix c' assume "c' \<in> set (mx_chans m')"
    then have "c' = c \<or> c' \<in> set (mx_chans m)" using set_update_subset_insert m' by fastforce
    then show "chan_ok c' \<and> ch_maxQueuedBytes c' = mx_maxQueuedBytes m'"
      using k m u m' by (auto simp: mux_ok_def)
  qed
  moreover have "\<forall>i v. map_of (mx_open m') i = Some v \<longrightarrow> v < length (mx_chans m') \<and> ch_id (mx_chans m' ! v) = i
      \<and> (ch_end (mx_chans m' ! v) = ChOpen \<or> v \<in> set (mx_reap m'))"
  proof (intro allI impI)
    fix i v assume "map_of (mx_open m') i = Some v"
    then have "v < length (mx_chans m)" "ch_id (mx_chans m ! v) = i"
      "ch_end (mx_chans m ! v) = ChOpen \<or> v \<in> set (mx_reap m)"
      using m m' by (auto simp: mux_ok_def)
    then show "v < length (mx_chans m') \<and> ch_id (mx_chans m' ! v) = i
      \<and> (ch_end (mx_chans m' ! v) = ChOpen \<or> v \<in> set (mx_reap m'))"
      using k u m' by (cases "v = u") auto
  qed
  moreover have "\<forall>v < length (mx_chans m'). ch_end (mx_chans m' ! v) = ChOpen \<longrightarrow>
      map_of (mx_open m') (ch_id (mx_chans m' ! v)) = Some v"
  proof (intro allI impI)
    fix v assume v: "v < length (mx_chans m')" "ch_end (mx_chans m' ! v) = ChOpen"
    then show "map_of (mx_open m') (ch_id (mx_chans m' ! v)) = Some v"
      using k u m m' by (cases "v = u") (auto simp: mux_ok_def)
  qed
  moreover have "\<forall>v \<in> set (mx_reap m'). v < length (mx_chans m') \<and> ch_end (mx_chans m' ! v) \<noteq> ChOpen"
  proof
    fix v assume "v \<in> set (mx_reap m')"
    then show "v < length (mx_chans m') \<and> ch_end (mx_chans m' ! v) \<noteq> ChOpen"
      using k u m m' nu by (cases "v = u") (auto simp: mux_ok_def split: if_splits)
  qed
  moreover have "distinct (map fst (mx_open m'))" using m m' by (simp add: mux_ok_def)
  ultimately have "mux_ok m'" unfolding mux_ok_def by blast
  then show ?thesis using m' by simp
qed

lemma mux_ok_create:
  assumes m: "mux_ok m" and i: "map_of (mx_open m) i = None"
  shows "mux_ok (mux_create m i t)"
proof -
  let ?n = "length (mx_chans m)"
  let ?m = "mux_create m i t"
  have new: "ch_id (MuxChannelImpl i t k) = i" "ch_end (MuxChannelImpl i t k) = ChOpen"
    "ch_maxQueuedBytes (MuxChannelImpl i t k) = k" for k
    by (simp_all add: MuxChannelImpl_def)
  have m': "mx_chans ?m = mx_chans m @ [MuxChannelImpl i t (mx_maxQueuedBytes m)]"
    "map_of (mx_open ?m) = (map_of (mx_open m))(i \<mapsto> ?n)" "mx_reap ?m = mx_reap m"
    "mx_maxQueuedBytes ?m = mx_maxQueuedBytes m"
    by (simp_all add: mux_create_def)
  have "\<forall>c \<in> set (mx_chans ?m). chan_ok c \<and> ch_maxQueuedBytes c = mx_maxQueuedBytes ?m"
    using m by (simp add: mux_ok_def m' new chan_ok_new)
  moreover have "u < length (mx_chans ?m) \<and> ch_id (mx_chans ?m ! u) = j
      \<and> (ch_end (mx_chans ?m ! u) = ChOpen \<or> u \<in> set (mx_reap ?m))" if "map_of (mx_open ?m) j = Some u" for j u
    using mux_ok_open[OF m, of j u] mux_ok_mapped[OF m, of j u] that
    by (cases "j = i") (simp_all add: m' new nth_append)
  moreover have "map_of (mx_open ?m) (ch_id (mx_chans ?m ! u)) = Some u"
    if "u < length (mx_chans ?m)" "ch_end (mx_chans ?m ! u) = ChOpen" for u
  proof (cases "u < ?n")
    case True
    then have "map_of (mx_open m) (ch_id (mx_chans m ! u)) = Some u"
      using m that by (simp add: mux_ok_def m' nth_append)
    then show ?thesis using True i by (auto simp: m' nth_append)
  next
    case False
    then show ?thesis using that by (simp add: m' nth_append new)
  qed
  moreover have "u < length (mx_chans ?m) \<and> ch_end (mx_chans ?m ! u) \<noteq> ChOpen" if "u \<in> set (mx_reap ?m)" for u
    using mux_ok_reaped[OF m, of u] that by (simp add: m' nth_append)
  moreover have "distinct (map fst (mx_open ?m))" using m by (simp add: mux_ok_def mux_create_def)
  ultimately show ?thesis unfolding mux_ok_def by blast
qed

lemma mux_ok_unmap:
  assumes m: "mux_ok m" and r: "mx_reap m = u # us"
    and o: "opn = (if map_of (mx_open m) (ch_id (mx_chans m ! u)) = Some u
        then AList.delete (ch_id (mx_chans m ! u)) (mx_open m) else mx_open m)"
  shows "mux_ok (m\<lparr>mx_reap := us, mx_open := opn\<rparr>)"
proof -
  let ?m = "m\<lparr>mx_reap := us, mx_open := opn\<rparr>"
  have u: "u < length (mx_chans m)" "ch_end (mx_chans m ! u) \<noteq> ChOpen"
    using mux_ok_reaped[OF m, of u] r by simp_all
  have sub: "map_of (mx_open m) j = Some v \<and> v \<noteq> u" if "map_of opn j = Some v" for j v
    using that mux_ok_open[OF m, of j v] unfolding o
    by (auto split: if_splits)
  have keep: "map_of opn j = Some v" if "map_of (mx_open m) j = Some v" "v \<noteq> u" for j v
    using that unfolding o by (auto split: if_splits)
  have "\<forall>c \<in> set (mx_chans ?m). chan_ok c \<and> ch_maxQueuedBytes c = mx_maxQueuedBytes ?m"
    using m by (simp add: mux_ok_def)
  moreover have "v < length (mx_chans ?m) \<and> ch_id (mx_chans ?m ! v) = j
      \<and> (ch_end (mx_chans ?m ! v) = ChOpen \<or> v \<in> set (mx_reap ?m))" if v: "map_of (mx_open ?m) j = Some v" for j v
  proof -
    have "map_of (mx_open m) j = Some v" "v \<noteq> u" using sub v by simp_all
    then show ?thesis using mux_ok_open[OF m, of j v] mux_ok_mapped[OF m, of j v] r by simp
  qed
  moreover have "map_of (mx_open ?m) (ch_id (mx_chans ?m ! v)) = Some v"
    if "v < length (mx_chans ?m)" "ch_end (mx_chans ?m ! v) = ChOpen" for v
    using keep[OF mux_ok_live[OF m, of v]] that u by auto
  moreover have "v < length (mx_chans ?m) \<and> ch_end (mx_chans ?m ! v) \<noteq> ChOpen" if "v \<in> set (mx_reap ?m)" for v
    using mux_ok_reaped[OF m, of v] that r by simp
  moreover have "distinct (map fst (mx_open ?m))"
  proof -
    have "distinct (map fst (mx_open m))" using m unfolding mux_ok_def by blast
    then have "distinct (map fst opn)" unfolding o by (simp only: distinct_keys_delete split: if_split) blast
    then show ?thesis by simp
  qed
  ultimately show ?thesis unfolding mux_ok_def by blast
qed

lemma mux_ok_reap: "mux_ok m \<Longrightarrow> mux_ok (mux_reap1 m)"
proof (cases "mx_reap m")
  case (Cons u us)
  assume m: "mux_ok m"
  have "mux_reap1 m = m\<lparr>mx_reap := us, mx_open := (if map_of (mx_open m) (ch_id (mx_chans m ! u)) = Some u
      then AList.delete (ch_id (mx_chans m ! u)) (mx_open m) else mx_open m)\<rparr>"
    by (simp add: mux_reap1_def Cons Let_def)
  with mux_ok_unmap[OF m Cons refl] show ?thesis by (simp only:)
qed (simp add: mux_reap1_def)

text \<open>The event a frame is for the channel it names.\<close>

definition frame_event :: "data_frame \<Rightarrow> chan_event" where
  "frame_event f = (if fr_type f = FData then CData (case fr_payload f of Some p \<Rightarrow> p | None \<Rightarrow> [])
     else CFinish (frame_end f))"

lemma handleFrame_event: "handleFrame c f = chan_step c (frame_event f)"
  by (simp add: handleFrame_def frame_event_def frame_end_def)

text \<open>The event a line is for the channel with number \<open>i\<close>, once that channel is open.\<close>

definition line_event :: "int \<Rightarrow> json \<Rightarrow> chan_event option" where
  "line_event i v =
     (if decodeOpenFrame v \<noteq> None then None
      else (case decodeDataFrame v of None \<Rightarrow> None
        | Some f \<Rightarrow> if fr_channel f = i then Some (frame_event f) else None))"

definition chan_out :: "nat \<Rightarrow> mux_effect list \<Rightarrow> chan_effect list" where
  "chan_out u = List.map_filter (\<lambda>e. case e of At v c \<Rightarrow> if v = u then Some c else None | _ \<Rightarrow> None)"

lemma chan_out_simps [simp]:
  "chan_out u [] = []"
  "chan_out u (At v c # es) = (if v = u then [c] else []) @ chan_out u es"
  "chan_out u (OpenFrame i t # es) = chan_out u es"
  "chan_out u (MThrow x # es) = chan_out u es"
  "chan_out u (Opened v # es) = chan_out u es"
  "chan_out u (NewChannel v # es) = chan_out u es"
  "chan_out u (MuxClosed # es) = chan_out u es"
  "chan_out u (es @ fs) = chan_out u es @ chan_out u fs"
  by (simp_all add: chan_out_def map_filter_def)

lemma chan_out_At [simp]: "chan_out u (map (At v) es) = (if v = u then es else [])"
  by (induction es) simp_all

lemma handleLine_cases:
  obtains "handleLine m v = (m, [])" "\<And>i u. map_of (mx_open m) i = Some u \<Longrightarrow> line_event i v = None"
  | i t where "map_of (mx_open m) i = None" "fst (handleLine m v) = mux_create m i t"
      "\<And>u. chan_out u (snd (handleLine m v)) = []" "\<And>j. line_event j v = None"
  | f u where "map_of (mx_open m) (fr_channel f) = Some u" "decodeOpenFrame v = None" "decodeDataFrame v = Some f"
      "handleLine m v = on_chan m u (\<lambda>c. chan_step c (frame_event f))"
proof (cases "decodeOpenFrame v")
  case (Some it)
  obtain i t where it: "it = (i, t)" by force
  show ?thesis
  proof (cases "map_of (mx_open m) i")
    case None
    show ?thesis by (rule that(2)[of i t]) (simp_all add: handleLine_def Some it None line_event_def)
  next
    case (Some u)
    show ?thesis by (rule that(1)) (simp_all add: handleLine_def it Some \<open>decodeOpenFrame v = Some it\<close> line_event_def)
  qed
next
  case None
  show ?thesis
  proof (cases "decodeDataFrame v")
    case None
    show ?thesis by (rule that(1)) (simp_all add: handleLine_def None \<open>decodeOpenFrame v = None\<close> line_event_def)
  next
    case (Some f)
    show ?thesis
    proof (cases "map_of (mx_open m) (fr_channel f)")
      case None
      show ?thesis
        by (rule that(1)) (auto simp: handleLine_def None Some \<open>decodeOpenFrame v = None\<close> line_event_def)
    next
      case (Some u)
      show ?thesis
        by (rule that(3)[OF Some None \<open>decodeDataFrame v = Some f\<close>])
           (simp add: handleLine_def None Some \<open>decodeDataFrame v = Some f\<close> handleFrame_event)
    qed
  qed
qed

lemma handleLine_ok: "mux_ok m \<Longrightarrow> mux_ok (fst (handleLine m v))"
proof (cases rule: handleLine_cases[of m v])
  case (3 f u)
  assume "mux_ok m"
  then show ?thesis using 3 mux_ok_open mux_ok_on_chan
    by (metis prod.collapse)
qed (simp_all add: mux_ok_create)

text \<open>One line, seen from one open channel.\<close>

lemma handleLine_route:
  assumes m: "mux_ok m" and i: "map_of (mx_open m) i = Some u"
  shows "map_of (mx_open (fst (handleLine m v))) i = Some u
    \<and> steps chan_step (mx_chans m ! u) (case line_event i v of None \<Rightarrow> [] | Some e \<Rightarrow> [e])
      = (mx_chans (fst (handleLine m v)) ! u, chan_out u (snd (handleLine m v)))"
proof (cases rule: handleLine_cases[of m v])
  case 1
  then show ?thesis using i by simp
next
  case (2 j t)
  then show ?thesis using i mux_ok_open[OF m i] by (auto simp: mux_create_def nth_append)
next
  case (3 f w)
  obtain c es where c: "chan_step (mx_chans m ! w) (frame_event f) = (c, es)" by force
  have w: "w < length (mx_chans m)" "ch_id (mx_chans m ! w) = fr_channel f" using mux_ok_open[OF m 3(1)] by simp_all
  have eq: "w = u \<longleftrightarrow> fr_channel f = i" using w(2) mux_ok_open[OF m i] 3(1) i by (metis option.inject)
  have le: "line_event i v = (if w = u then Some (frame_event f) else None)"
    using 3(2,3) eq by (simp add: line_event_def)
  have h: "handleLine m v = (m\<lparr>mx_chans := (mx_chans m)[w := c],
      mx_reap := mx_reap m @ (if CClosed \<in> set es then [w] else [])\<rparr>, map (At w) es)"
    using 3(4) c by (simp add: on_chan_def)
  show ?thesis
  proof (cases "w = u")
    case True
    then show ?thesis using w(1) i c by (simp add: le h)
  next
    case False
    then show ?thesis using i by (simp add: le h)
  qed
qed

lemma handleLine_routes:
  assumes "mux_ok m" and "map_of (mx_open m) i = Some u" and "steps handleLine m vs = (m', out)"
  shows "mux_ok m' \<and> map_of (mx_open m') i = Some u
    \<and> steps chan_step (mx_chans m ! u) (List.map_filter (line_event i) vs) = (mx_chans m' ! u, chan_out u out)"
  using assms
proof (induction vs arbitrary: m m' out)
  case (Cons v vs)
  obtain m1 o1 where s1: "handleLine m v = (m1, o1)" by force
  obtain m2 o2 where s2: "steps handleLine m1 vs = (m2, o2)" by force
  note r = handleLine_route[OF Cons.prems(1,2), of v] and k = handleLine_ok[OF Cons.prems(1), of v]
  have "mux_ok m2 \<and> map_of (mx_open m2) i = Some u
    \<and> steps chan_step (mx_chans m1 ! u) (List.map_filter (line_event i) vs) = (mx_chans m2 ! u, chan_out u o2)"
    using Cons.IH[OF _ _ s2] r k s1 by simp
  moreover have "List.map_filter (line_event i) (v # vs) =
      (case line_event i v of None \<Rightarrow> [] | Some e \<Rightarrow> [e]) @ List.map_filter (line_event i) vs"
    by (simp split: option.split)
  ultimately show ?case using r s1 s2 Cons.prems(3) by (clarsimp simp: steps_append)
qed (simp add: map_filter_def)

interpretation mux_lines: reactive handleLine "\<lambda>m _ _. mux_ok m"
  by unfold_locales (metis fst_conv handleLine_ok)

definition finish_all :: "chan_event \<Rightarrow> mux \<Rightarrow> nat list \<Rightarrow> mux \<times> mux_effect list" where
  "finish_all e = steps (\<lambda>m u. on_chan m u (\<lambda>c. chan_step c e))"

lemma finish_ends: "chan_step c (CFinish (ChFailed x)) = (c', es) \<Longrightarrow> ch_end c' \<noteq> ChOpen"
  by (auto simp: chan_finish_def drainWaiter_def chan_shift_def Let_def split: if_splits chan_end.splits)

lemma finish_all_ok:
  assumes "mux_ok m" and "\<forall>u \<in> set us. u < length (mx_chans m)"
    and "finish_all (CFinish (ChFailed x)) m us = (m', out)"
  shows "mux_ok m' \<and> mx_open m' = mx_open m \<and> length (mx_chans m') = length (mx_chans m)
    \<and> (\<forall>u < length (mx_chans m). u \<in> set us \<or> ch_end (mx_chans m ! u) \<noteq> ChOpen \<longrightarrow>
        ch_end (mx_chans m' ! u) \<noteq> ChOpen)"
  using assms
proof (induction us arbitrary: m m' out)
  case (Cons u us)
  let ?e = "CFinish (ChFailed x)"
  obtain m2 o2 where s2: "on_chan m u (\<lambda>c. chan_step c ?e) = (m2, o2)" by force
  obtain m3 o3 where s3: "finish_all ?e m2 us = (m3, o3)" by force
  obtain c es where c: "chan_step (mx_chans m ! u) ?e = (c, es)" by force
  have ul: "u < length (mx_chans m)" using Cons.prems(2) by simp
  note k = mux_ok_on_chan[OF Cons.prems(1) ul s2]
  have m2: "mx_chans m2 = (mx_chans m)[u := c]" using s2 c unfolding on_chan_def by auto
  have ih: "mux_ok m3 \<and> mx_open m3 = mx_open m2 \<and> length (mx_chans m3) = length (mx_chans m2)
    \<and> (\<forall>v < length (mx_chans m2). v \<in> set us \<or> ch_end (mx_chans m2 ! v) \<noteq> ChOpen \<longrightarrow>
        ch_end (mx_chans m3 ! v) \<noteq> ChOpen)"
    using Cons.IH[OF _ _ s3] k Cons.prems(2) by simp
  have "m' = m3" using Cons.prems(3) s2 s3 by (simp add: finish_all_def)
  moreover have "ch_end (mx_chans m2 ! v) \<noteq> ChOpen"
    if "v < length (mx_chans m)" "v = u \<or> ch_end (mx_chans m ! v) \<noteq> ChOpen" for v
    using that finish_ends[OF c] m2 by (cases "v = u") simp_all
  ultimately show ?case using ih k by (metis set_ConsD)
qed (simp add: finish_all_def)

lemma mux_end_finish_all:
  "mux_end m = (case finish_all (CFinish (ChFailed (rerr REMOTE_CONN_LOST (js ''mux byte stream ended'')))) m
      (map snd (mx_open m)) of (m1, es) \<Rightarrow> (m1\<lparr>mx_open := [], mx_ended := True\<rparr>, es @ [MuxClosed]))"
  by (simp add: mux_end_def finish_all_def)

lemma mux_ok_values: "mux_ok m \<Longrightarrow> u \<in> set (map snd (mx_open m)) \<Longrightarrow> u < length (mx_chans m)"
proof -
  assume m: "mux_ok m" and "u \<in> set (map snd (mx_open m))"
  then obtain i where "(i, u) \<in> set (mx_open m)" by auto
  moreover have "distinct (map fst (mx_open m))" using m by (simp add: mux_ok_def)
  ultimately have "map_of (mx_open m) i = Some u" by simp
  then show ?thesis using mux_ok_open[OF m] by blast
qed

lemma mux_end_ok:
  assumes m: "mux_ok m" and e: "mux_end m = (m', out)"
  shows "mux_ok m' \<and> (\<forall>c \<in> set (mx_chans m'). ch_end c \<noteq> ChOpen) \<and> mx_open m' = [] \<and> mx_ended m'
    \<and> length (mx_chans m') = length (mx_chans m)"
proof -
  obtain m1 o1 where s: "finish_all (CFinish (ChFailed (rerr REMOTE_CONN_LOST (js ''mux byte stream ended'')))) m
      (map snd (mx_open m)) = (m1, o1)" by force
  have m': "m' = m1\<lparr>mx_open := [], mx_ended := True\<rparr>" using e s by (simp add: mux_end_finish_all)
  note k = finish_all_ok[OF m _ s]
  have closed: "ch_end (mx_chans m1 ! u) \<noteq> ChOpen" if u: "u < length (mx_chans m1)" for u
  proof (cases "ch_end (mx_chans m ! u) = ChOpen")
    case True
    then have "map_of (mx_open m) (ch_id (mx_chans m ! u)) = Some u"
      using mux_ok_live[OF m] k u mux_ok_values[OF m] by auto
    then have "u \<in> set (map snd (mx_open m))" by (metis map_of_SomeD image_eqI set_map snd_conv)
    then show ?thesis using k mux_ok_values[OF m] u by auto
  next
    case False
    then show ?thesis using k mux_ok_values[OF m] u by auto
  qed
  then have "\<forall>c \<in> set (mx_chans m1). ch_end c \<noteq> ChOpen" by (metis in_set_conv_nth)
  then show ?thesis using k mux_ok_values[OF m] closed by (auto simp: m' mux_ok_def)
qed

lemma mux_step_ok:
  assumes m: "mux_ok m" and s: "mux_step m ev = (m', out)"
  shows "mux_ok m'"
proof (cases ev)
  case (Open k d t)
  then have "m' = m \<or> (\<exists>i. map_of (mx_open m) i = None \<and> m' = mux_create m i t)"
    using s by (auto simp: openChannel_def split: if_splits option.splits)
  then show ?thesis using m mux_ok_create by blast
next
  case (Chan u e)
  show ?thesis
  proof (cases "u < length (mx_chans m) \<and> local_event e")
    case True
    then have "on_chan m u (\<lambda>c. chan_step c e) = (m', out)" using s Chan by simp
    then show ?thesis using mux_ok_on_chan[OF m] True by blast
  next
    case False
    then have "mux_step m ev = (m, [])" unfolding Chan mux_step.simps by (rule if_not_P)
    then show ?thesis using m s by simp
  qed
next
  case OnChannel
  then have "m' = m\<lparr>mx_handler := True\<rparr>" using s by simp
  then show ?thesis using m mux_ok_cong[of m' m] by simp
next
  case (MChunk bs)
  show ?thesis
  proof (cases "mx_ended m")
    case False
    obtain ld r where p: "push (\<lambda>_. []) True (mx_decoder m) bs = (ld, r)" by force
    have ok: "mux_ok (m\<lparr>mx_decoder := ld\<rparr>)" using m mux_ok_cong[of "m\<lparr>mx_decoder := ld\<rparr>" m] by simp
    show ?thesis
    proof (cases "pr_value r")
      case (Inl e)
      then have "mux_end (m\<lparr>mx_decoder := ld\<rparr>) = (m', out)"
        using s MChunk False p by (simp add: mux_chunk_def Let_def)
      then show ?thesis using mux_end_ok[OF ok] by blast
    next
      case (Inr vs)
      then have "steps handleLine (m\<lparr>mx_decoder := ld\<rparr>) vs = (m', out)"
        using s MChunk False p by (simp add: mux_chunk_def Let_def)
      then show ?thesis using mux_lines.always[OF ok, of vs] by blast
    qed
  next
    case True
    then have "mux_step m ev = (m, [])" by (simp add: MChunk)
    then show ?thesis using m s by simp
  qed
next
  case MEnd
  show ?thesis
  proof (cases "mx_ended m")
    case True
    then have "mux_step m ev = (m, [])" by (simp add: MEnd)
    then show ?thesis using m s by simp
  next
    case False
    then have "mux_end m = (m', out)" using s by (simp add: MEnd)
    then show ?thesis using mux_end_ok[OF m] by blast
  qed
next
  case Reap
  then show ?thesis using mux_ok_reap[OF m] s by simp
qed

interpretation mux: reactive mux_step "\<lambda>m _ _. mux_ok m"
  by unfold_locales (rule mux_step_ok)

lemma mux_ok_new: "ChannelMux opt = Inr m \<Longrightarrow> mux_ok m"
  by (auto simp: ChannelMux_def mux_ok_def Let_def split: if_splits)

section \<open>Sharing one byte stream\<close>

lemma handleLine_not_frame: "\<not> isFrameMessage v \<Longrightarrow> handleLine m v = (m, [])"
  by (simp add: handleLine_def decodeOpenFrame_def decodeDataFrame_def)

lemma handleMessage_frame: "isFrameMessage v \<Longrightarrow> handleMessage p v = (p, [])"
  by (simp add: handleMessage_def)

section \<open>From one end of a channel to the other\<close>

lemma writes_frames:
  "ch_end c = ChOpen \<Longrightarrow>
   steps chan_step c (map CWrite ps) = (c, map (\<lambda>p. CFrame (data_frame_of (ch_id c) p)) ps)"
  by (induction ps) (simp_all add: chan_write_def)

lemma open_frame_data [simp]: "decodeOpenFrame (frame_json f) = None"
  by (cases "fr_type f") (simp_all add: decodeOpenFrame_def members_of_def frame_json_def get_key_def FRAME_MARKER_def)

lemma line_event_data:
  "0 \<le> i \<Longrightarrow> bytes_ok p \<Longrightarrow> line_event j (frame_json (data_frame_of i p)) = (if i = j then Some (CData p) else None)"
  by (simp add: line_event_def decode_frame_json frame_ok_def data_frame_of_def plain_frame_def frame_event_def)

lemma datas_queue:
  "ch_end c = ChOpen \<Longrightarrow> \<not> ch_waiter c \<Longrightarrow> ch_queuedBytes c + sum_list (map length ps) \<le> ch_maxQueuedBytes c \<Longrightarrow>
   steps chan_step c (map CData ps) = (c\<lparr>ch_queue := ch_queue c @ ps,
     ch_queuedBytes := ch_queuedBytes c + sum_list (map length ps)\<rparr>, [])"
  by (induction ps arbitrary: c) (simp_all add: chan_data_def add.assoc)

text \<open>A mux that has no partial line buffered, and delivery of whole lines to it.\<close>

definition mux_idle :: "mux \<Rightarrow> bool" where
  "mux_idle m \<longleftrightarrow> reading (mx_decoder m) [] \<and> \<not> mx_ended m"

lemma on_chan_decoder:
  "on_chan (m\<lparr>mx_decoder := ld\<rparr>) u f = (case on_chan m u f of (m', out) \<Rightarrow> (m'\<lparr>mx_decoder := ld\<rparr>, out))"
  by (simp add: on_chan_def split: prod.split)

lemma handleLine_decoder:
  "handleLine (m\<lparr>mx_decoder := ld\<rparr>) v = (case handleLine m v of (m', out) \<Rightarrow> (m'\<lparr>mx_decoder := ld\<rparr>, out))"
proof (cases "decodeOpenFrame v")
  case (Some it)
  then show ?thesis by (cases it; cases "map_of (mx_open m) (fst it)") (simp_all add: handleLine_def mux_create_def)
next
  case n: None
  show ?thesis
  proof (cases "decodeDataFrame v")
    case (Some f)
    then show ?thesis using n
      by (cases "map_of (mx_open m) (fr_channel f)") (simp_all add: handleLine_def on_chan_decoder)
  qed (simp add: handleLine_def n)
qed

lemma handleLine_keeps:
  "mx_ended (fst (handleLine m v)) = mx_ended m" "mx_decoder (fst (handleLine m v)) = mx_decoder m"
  by (simp_all add: handleLine_def on_chan_def mux_create_def split: option.split prod.split)

interpretation mux_pump: line_pump mx_decoder "\<lambda>ld m. m\<lparr>mx_decoder := ld\<rparr>" handleLine
  "\<lambda>m c. mux_step m (MChunk c)" "\<lambda>m. \<not> mx_ended m" "\<lambda>_. []"
  by unfold_locales
     (simp_all add: handleLine_decoder handleLine_keeps mux_chunk_def split: prod.split)

lemma data_lines_events:
  assumes "0 \<le> i" and "list_all bytes_ok ps"
  shows "List.map_filter (line_event i) (map (\<lambda>p. frame_json (data_frame_of i p)) ps) = map CData ps"
  using assms(2) by (induction ps) (simp_all add: line_event_data assms(1))

interpretation channel_budget: reactive chan_step "\<lambda>c _ _. chan_ok c \<and> ch_maxQueuedBytes c = n"
  by unfold_locales (use chan_step_ok in blast)

section \<open>Properties\<close>

text \<open>
  C5: A channel delivers what arrived, in order and without gaps: after any sequence of writes,
  frames, pulls and closes, the chunks given to the reader followed by the chunks still queued are
  all the payloads that arrived, and once the channel has ended they are a prefix of them. The
  queue never holds more than the byte budget and a reader waits only on an empty queue of an open
  channel. \<open>onClose\<close> resolves once, when the channel ends; the reader is told of the end (clean or
  failed, as the channel ended) only when the queue is empty.
\<close>

theorem channel_delivers_in_order:
  assumes "steps chan_step (MuxChannelImpl i t n) evs = (c, out)"
  shows "(if ch_end c = ChOpen then delivered out @ ch_queue c = arrivals evs
      else prefix (delivered out @ ch_queue c) (arrivals evs))
    \<and> sum_list (map length (ch_queue c)) \<le> n
    \<and> (ch_waiter c \<longrightarrow> ch_queue c = [] \<and> ch_end c = ChOpen)
    \<and> count_list out CClosed = (if ch_end c = ChOpen then 0 else 1)
    \<and> (CEnd \<in> set out \<longrightarrow> ch_queue c = [] \<and> ch_end c = ChDone)
    \<and> (\<forall>x. CFail x \<in> set out \<longrightarrow> ch_queue c = [] \<and> ch_end c = ChFailed x)"
proof -
  have inv: "chan_inv c evs out" using channels.from_start[OF chan_inv_new[of i t n], of evs] assms by simp
  have "chan_ok c \<and> ch_maxQueuedBytes c = n"
    using channel_budget.from_start[of "MuxChannelImpl i t n" n evs] chan_ok_new[of i t n] assms
    by (simp add: MuxChannelImpl_def)
  with inv show ?thesis unfolding chan_inv_def chan_ok_def by (auto simp: prefix_def)
qed

theorem channel_delivers_in_order_witness:
  "let (c, out) = steps chan_step (MuxChannelImpl 1 [] 3)
     [CData [1, 2], CPull, CPull, CData [3], CData [4], CFinish ChDone, CPull, CPull]
   in out = [CValue [1, 2], CValue [3], CClosed, CValue [4], CEnd] \<and> ch_queue c = []
     \<and> prefix (delivered out @ ch_queue c) (arrivals [CData [1, 2], CData [3], CData [4]])"
proof -
  let ?evs = "[CData [1, 2], CPull, CPull, CData [3], CData [4], CFinish ChDone, CPull, CPull]"
  have e: "steps chan_step (MuxChannelImpl 1 [] 3) ?evs =
      (\<lparr>ch_id = 1, ch_type = [], ch_queue = [], ch_queuedBytes = 0, ch_maxQueuedBytes = 3, ch_waiter = False,
        ch_end = ChDone\<rparr>, [CValue [1, 2], CValue [3], CClosed, CValue [4], CEnd])"
    by (simp add: MuxChannelImpl_def chan_defs)
  show ?thesis using channel_delivers_in_order[OF e] unfolding e Let_def prod.case by simp
qed

text \<open>
  Channels do not mix. For a channel that is open under number \<open>i\<close>, handling any lines (its own
  frames, frames of other channels, open frames, other messages) does to the channel exactly what
  its own frames do in order, with exactly their effects, and leaves it open under \<open>i\<close>.
\<close>

theorem mux_routes_frames:
  assumes "ChannelMux opt = Inr m0" and "steps mux_step m0 evs = (m, out0)"
    and "map_of (mx_open m) i = Some u" and "steps handleLine m vs = (m', out)"
  shows "steps chan_step (mx_chans m ! u) (List.map_filter (line_event i) vs) = (mx_chans m' ! u, chan_out u out)
    \<and> map_of (mx_open m') i = Some u"
  using handleLine_routes[OF _ assms(3,4)] mux.always[OF mux_ok_new[OF assms(1)] assms(2)] by simp

text \<open>
  The multiplexer and the JSON-RPC peer can share one byte stream: the peer does what it would
  do without the frame lines, and the multiplexer what it would do with the frame lines alone.
\<close>

theorem mux_rpc_share_stream:
  "steps handleMessage p vs = steps handleMessage p (filter (\<lambda>v. \<not> isFrameMessage v) vs) \<and>
   steps handleLine m vs = steps handleLine m (filter isFrameMessage vs)"
  by (intro conjI steps_filter) (simp_all add: handleMessage_frame handleLine_not_frame)

text \<open>
  C4: Chunks written on one end of a channel come out of the other end, in order and unchanged, with
  the byte stream between them cut in any way: the frames the writer sends arrive in the queue of the
  reader's channel, and as many pulls as there are chunks deliver them, while they fit the budget.
\<close>

theorem mux_end_to_end:
  assumes "ch_end w = ChOpen" and "0 \<le> ch_id w" and "list_all bytes_ok ps"
    and "snd (steps chan_step w (map CWrite ps)) = map CFrame fs"
    and "concat cs = concat (map encodeDataFrame fs)"
    and "mux_ok m" and "mux_idle m" and "map_of (mx_open m) (ch_id w) = Some u"
    and "fits_limit (maxLineBytes (mx_decoder m)) (map frame_json fs) cs"
    and "ch_end (mx_chans m ! u) = ChOpen" and "\<not> ch_waiter (mx_chans m ! u)" and "ch_queue (mx_chans m ! u) = []"
    and "sum_list (map length ps) \<le> ch_maxQueuedBytes (mx_chans m ! u)"
  shows "\<exists>m' out. steps mux_step m (map MChunk cs) = (m', out) \<and> chan_out u out = []
    \<and> ch_queue (mx_chans m' ! u) = ps \<and> mux_idle m'
    \<and> snd (steps chan_step (mx_chans m' ! u) (replicate (length ps) CPull)) = map CValue ps"
proof -
  let ?vs = "map frame_json fs"
  have fs: "fs = map (data_frame_of (ch_id w)) ps"
  proof -
    have "map CFrame fs = map CFrame (map (data_frame_of (ch_id w)) ps)"
      using assms(4) writes_frames[OF assms(1), of ps] by (simp add: comp_def)
    moreover have "inj CFrame" by (simp add: inj_def)
    ultimately show ?thesis by (simp only: inj_map_eq_map)
  qed
  have wf: "list_all wf_json ?vs"
    using assms(2,3) by (auto simp: fs list_all_iff data_frame_of_def plain_frame_def frame_ok_def intro!: wf_frame_json)
  have cs: "concat cs = encodeLines ?vs"
    using assms(5) by (simp add: encodeLines_def encodeDataFrame_def[abs_def] comp_def)
  obtain m1 o1 where s1: "steps handleLine m ?vs = (m1, o1)" by force
  then obtain ld where ld: "reading ld []" "steps mux_step m (map MChunk cs) = (m1\<lparr>mx_decoder := ld\<rparr>, o1)"
    using mux_pump.deliver[of m ?vs cs] assms(7,9) wf cs by (auto simp: mux_idle_def steps_map)
  have "\<not> mx_ended m1" using mux_pump.steps_keep[of m ?vs] s1 assms(7) by (simp add: mux_idle_def)
  moreover have r: "steps chan_step (mx_chans m ! u) (map CData ps) = (mx_chans m1 ! u, chan_out u o1)"
    using handleLine_routes[OF assms(6,8) s1] data_lines_events[OF assms(2,3)] by (simp add: fs comp_def)
  moreover have "ch_queuedBytes (mx_chans m ! u) = 0"
    using mux_ok_chan[OF assms(6)] mux_ok_open[OF assms(6,8)] assms(12) by (simp add: chan_ok_def)
  ultimately have q: "ch_queue (mx_chans m1 ! u) = ps \<and> chan_out u o1 = []"
    using datas_queue[OF assms(10,11), of ps] assms(12,13) by (auto dest!: sym[of _ "mx_chans m1 ! u"])
  then show ?thesis
    using ld pulls_deliver[of "length ps" "mx_chans m1 ! u"] \<open>\<not> mx_ended m1\<close>
    by (intro exI[of _ "m1\<lparr>mx_decoder := ld\<rparr>"] exI[of _ o1]) (simp add: mux_idle_def)
qed

text \<open>
  When the byte stream ends, every channel the multiplexer ever had is closed and none is
  registered any more, whatever happened before.
\<close>

theorem mux_teardown_closes_all:
  assumes "ChannelMux opt = Inr m0" and "steps mux_step m0 evs = (m, out)" and "\<not> mx_ended m"
  shows "\<exists>m' es. mux_step m MEnd = (m', es) \<and> mx_open m' = [] \<and> length (mx_chans m') = length (mx_chans m)
    \<and> (\<forall>c \<in> set (mx_chans m'). ch_end c \<noteq> ChOpen)"
proof -
  have ok: "mux_ok m" using mux.always[OF mux_ok_new[OF assms(1)] assms(2)] by simp
  obtain m' es where e: "mux_end m = (m', es)" by force
  then have "mux_step m MEnd = (m', es)" using assms(3) by simp
  then show ?thesis using mux_end_ok[OF ok e] by blast
qed


text \<open>A mux with channel 5 open and registered, and the writer's end of that channel.\<close>

definition sample_mux :: mux where
  "sample_mux = \<lparr>mx_chans = [MuxChannelImpl 5 (js ''file'') 10], mx_open = [(5, 0)], mx_reap = [],
     mx_handler = False, mx_decoder = LineDecoder DEFAULT_MAX_LINE_BYTES, mx_maxQueuedBytes = 10, mx_ended = False\<rparr>"

lemma sample_mux_run:
  "ChannelMux (Some 10) = Inr (sample_mux\<lparr>mx_chans := [], mx_open := []\<rparr>)"
  "steps mux_step (sample_mux\<lparr>mx_chans := [], mx_open := []\<rparr>) [Open 5 0 (js ''file'')] =
     (sample_mux, [OpenFrame 5 (js ''file''), Opened 0])"
  by (simp_all add: ChannelMux_def sample_mux_def openChannel_def channel_of_def mux_create_def)

lemma sample_mux_ok: "mux_ok sample_mux"
  using mux.always[OF mux_ok_new[OF sample_mux_run(1)] sample_mux_run(2)] by simp

theorem mux_routes_frames_witness:
  "let vs = [frame_json (data_frame_of 5 [1]), JNull, frame_json (data_frame_of 6 [2]), frame_json (plain_frame 5 FEnd)]
   in List.map_filter (line_event 5) vs = [CData [1], CFinish ChDone]
     \<and> ch_queue (mx_chans (fst (steps handleLine sample_mux vs)) ! 0) = [[1]]
     \<and> map_of (mx_open (fst (steps handleLine sample_mux vs))) 5 = Some 0"
proof -
  let ?vs = "[frame_json (data_frame_of 5 [1]), JNull, frame_json (data_frame_of 6 [2]), frame_json (plain_frame 5 FEnd)]"
  have f: "frame_ok (plain_frame 5 FEnd)" by (simp add: frame_ok_def plain_frame_def)
  have n: "line_event 5 JNull = None"
    by (simp add: line_event_def decodeOpenFrame_def decodeDataFrame_def isFrameMessage_def)
  have ev: "List.map_filter (line_event 5) ?vs = [CData [1], CFinish ChDone]"
    by (simp add: line_event_data n bytes_ok_def)
       (simp add: line_event_def decode_frame_json[OF f], simp add: frame_event_def frame_end_def plain_frame_def)
  obtain m out where s: "steps handleLine sample_mux ?vs = (m, out)" by force
  have o: "map_of (mx_open sample_mux) 5 = Some 0" "mx_chans sample_mux ! 0 = MuxChannelImpl 5 (js ''file'') 10"
    by (simp_all add: sample_mux_def)
  show ?thesis
    using mux_routes_frames[OF sample_mux_run o(1) s] unfolding s Let_def ev fst_conv o(2)
    by (auto simp: chan_defs MuxChannelImpl_def dest!: sym[of _ "mx_chans m ! 0"])
qed

theorem mux_end_to_end_witness:
  "\<exists>m' out. steps mux_step sample_mux (map MChunk
      [take 9 (encodeDataFrame (data_frame_of 5 [255, 1])), drop 9 (encodeDataFrame (data_frame_of 5 [255, 1]))]) = (m', out)
    \<and> chan_out 0 out = [] \<and> ch_queue (mx_chans m' ! 0) = [[255, 1]] \<and> mux_idle m'
    \<and> snd (steps chan_step (mx_chans m' ! 0) (replicate (length [[255, 1::nat]]) CPull)) = map CValue [[255, 1]]"
proof -
  let ?f = "data_frame_of 5 [255, 1]" and ?w = "MuxChannelImpl 5 (js ''file'') 10"
  have l: "length (encodeLine (frame_json ?f)) < 100"
    by (simp add: data_frame_of_def plain_frame_def frame_json_def encode_simps JInt_def FRAME_MARKER_def b64_char_def)
  have idle: "mux_idle sample_mux" by (simp add: mux_idle_def sample_mux_def reading_new)
  have m: "maxLineBytes (mx_decoder sample_mux) = 8388608"
    by (simp add: sample_mux_def LineDecoder_def DEFAULT_MAX_LINE_BYTES_def)
  have w: "snd (steps chan_step ?w (map CWrite [[255, 1]])) = map CFrame [?f]"
    by (simp add: chan_write_def MuxChannelImpl_def)
  show ?thesis
  proof (rule mux_end_to_end[where w = ?w and fs = "[?f]"])
    show "fits_limit (maxLineBytes (mx_decoder sample_mux)) (map frame_json [?f])
        [take 9 (encodeDataFrame ?f), drop 9 (encodeDataFrame ?f)]"
      using l by (simp add: fits_limit_def m encodeDataFrame_def) linarith
  qed (use w sample_mux_ok idle in \<open>simp_all add: MuxChannelImpl_def sample_mux_def bytes_ok_def\<close>)
qed

theorem mux_teardown_closes_all_witness:
  "\<exists>m' es. mux_step sample_mux MEnd = (m', es) \<and> mx_open m' = [] \<and> length (mx_chans m') = 1
    \<and> (\<forall>c \<in> set (mx_chans m'). ch_end c \<noteq> ChOpen)"
  using mux_teardown_closes_all[OF sample_mux_run] by (simp add: sample_mux_def)

section \<open>Two hazards of the lifecycle\<close>

text \<open>
  A number that is ended and opened again within one chunk is lost: the closed channel is still
  registered when the open frame is handled, because the reaction to \<open>onClose\<close> waits for a
  microtask, so the open frame is ignored.
\<close>

lemma reopen_in_one_chunk_is_lost:
  assumes m: "mux_ok m" and i: "map_of (mx_open m) i = Some u" "0 \<le> i"
    and s: "steps handleLine m [frame_json (plain_frame i FEnd), open_json i t] = (m', out)"
  shows "length (mx_chans m') = length (mx_chans m) \<and> ch_end (mx_chans m' ! u) \<noteq> ChOpen
    \<and> map_of (mx_open m') i = Some u"
proof -
  let ?e = "frame_json (plain_frame i FEnd)"
  have f: "frame_ok (plain_frame i FEnd)" using i(2) by (simp add: frame_ok_def plain_frame_def)
  have o: "decodeOpenFrame (open_json i t) = Some (i, t)"
    using i(2) by (simp add: decodeOpenFrame_def open_json_def isFrameMessage_def members_of_def get_key_def
      FRAME_MARKER_def channel_of_def JInt_def str_of_def)
  have ev: "List.map_filter (line_event i) [?e, open_json i t] = [CFinish ChDone]"
    by (simp add: line_event_def o decode_frame_json[OF f]) (simp add: frame_event_def frame_end_def plain_frame_def)
  obtain m1 o1 where s1: "handleLine m ?e = (m1, o1)" by force
  have r: "map_of (mx_open m1) i = Some u" using handleLine_route[OF m i(1), of ?e] s1 by simp
  have "length (mx_chans m1) = length (mx_chans m)"
    using s1 i(1) unfolding handleLine_def open_frame_data option.case decode_frame_json[OF f]
    by (auto simp: on_chan_def plain_frame_def split: prod.splits)
  moreover have "handleLine m1 (open_json i t) = (m1, [])" unfolding handleLine_def by (simp add: o r)
  then have "m' = m1" using s s1 by simp
  moreover have "ch_end (fst (steps chan_step c [CFinish ChDone])) \<noteq> ChOpen" for c
    by (cases "ch_queue c"; cases "ch_waiter c"; cases "ch_end c") (simp_all add: chan_defs Let_def)
  then have "ch_end (mx_chans m' ! u) \<noteq> ChOpen"
    using handleLine_routes[OF m i(1) s] unfolding ev by (metis fst_conv)
  ultimately show ?thesis using r by simp
qed

text \<open>
  A channel opened after the byte stream has ended never ends: nothing of the stream can reach it,
  and its reader waits for ever unless the user closes the channel.
\<close>

lemma ended_ignores_stream:
  "mx_ended m \<Longrightarrow> list_all (\<lambda>e. case e of MChunk _ \<Rightarrow> True | MEnd \<Rightarrow> True | Reap \<Rightarrow> True | _ \<Rightarrow> False) evs \<Longrightarrow>
   mx_chans (fst (steps mux_step m evs)) = mx_chans m"
proof (induction evs arbitrary: m)
  case (Cons e evs)
  have "mx_chans (fst (mux_step m e)) = mx_chans m \<and> mx_ended (fst (mux_step m e))"
    using Cons.prems by (cases e) (auto simp: mux_reap1_def Let_def split: list.split)
  then show ?case using Cons.IH[of "fst (mux_step m e)"] Cons.prems(2) by (simp add: case_prod_beta)
qed simp

lemma open_after_end_never_ends:
  assumes "mx_ended m" and "openChannel m k 0 t = (m1, [OpenFrame i t, Opened u])"
    and "list_all (\<lambda>e. case e of MChunk _ \<Rightarrow> True | MEnd \<Rightarrow> True | Reap \<Rightarrow> True | _ \<Rightarrow> False) evs"
  shows "mx_chans (fst (steps mux_step m1 evs)) ! u = MuxChannelImpl k t (mx_maxQueuedBytes m)"
proof -
  have "m1 = mux_create m k t" "u = length (mx_chans m)"
    using assms(2) by (auto simp: openChannel_def channel_of_def split: if_splits)
  then show ?thesis using ended_ignores_stream[of m1 evs] assms(1,3) by (simp add: mux_create_def)
qed

end
