(* ===== verification/Protocol.thy ===== *)
theory Protocol
  imports Auth
begin

text \<open>
  The wire vocabulary of \<^verbatim>\<open>remote-core/src/protocol.ts\<close>: method and notification names, the
  parameter and result shapes as records with the source's field names (prefixed where two shapes
  share a name), unions as datatypes. An optional field is an \<open>option\<close>; times and byte counts are
  integers.
\<close>

section \<open>Names\<close>

definition PROTOCOL_VERSION :: int where "PROTOCOL_VERSION = 1"

datatype rpc_method =
    Hello | HelloProof | SessionList | SessionCreate | SessionAttach | SessionDetach
  | SessionControlRelease | SessionPrompt | SessionCancel | SessionFork | SessionHistory
  | SessionCompact | ApprovalRequest | ApprovalAnswer | QuestionRequest | QuestionAnswer
  | CatalogList | MonitorSubscribe | MonitorUnsubscribe | TransferOpen

fun Methods :: "rpc_method \<Rightarrow> string" where
  "Methods Hello = ''hello''"
| "Methods HelloProof = ''hello.proof''"
| "Methods SessionList = ''session.list''"
| "Methods SessionCreate = ''session.create''"
| "Methods SessionAttach = ''session.attach''"
| "Methods SessionDetach = ''session.detach''"
| "Methods SessionControlRelease = ''session.control-release''"
| "Methods SessionPrompt = ''session.prompt''"
| "Methods SessionCancel = ''session.cancel''"
| "Methods SessionFork = ''session.fork''"
| "Methods SessionHistory = ''session.history''"
| "Methods SessionCompact = ''session.compact''"
| "Methods ApprovalRequest = ''approval.request''"
| "Methods ApprovalAnswer = ''approval.answer''"
| "Methods QuestionRequest = ''question.request''"
| "Methods QuestionAnswer = ''question.answer''"
| "Methods CatalogList = ''catalog.list''"
| "Methods MonitorSubscribe = ''monitor.subscribe''"
| "Methods MonitorUnsubscribe = ''monitor.unsubscribe''"
| "Methods TransferOpen = ''transfer.open''"

datatype rpc_notification =
    SessionEventN | SessionStatusN | SessionControlChangedN | MonitorMetricsN | ApprovalClosedN
  | QuestionClosedN

fun Notifications :: "rpc_notification \<Rightarrow> string" where
  "Notifications SessionEventN = ''session.event''"
| "Notifications SessionStatusN = ''session.status''"
| "Notifications SessionControlChangedN = ''session.control-changed''"
| "Notifications MonitorMetricsN = ''monitor.metrics''"
| "Notifications ApprovalClosedN = ''approval.closed''"
| "Notifications QuestionClosedN = ''question.closed''"

text \<open>Registered under distinct names, the handlers of different methods do not shadow each other.\<close>

lemma Methods_inj [simp]: "Methods a = Methods b \<longleftrightarrow> a = b"
  by (cases a; cases b) simp_all

lemma Notifications_inj [simp]: "Notifications a = Notifications b \<longleftrightarrow> a = b"
  by (cases a; cases b) simp_all

lemma Methods_not_Notifications: "Methods a \<noteq> Notifications b"
  by (cases a; cases b) simp_all

section \<open>Capability bits\<close>

datatype capability = History | Compact | ForkAtSeq | Questions | PromptBlocks | Catalogs
  | PendingInteractions | RequestedSessionId

fun Capabilities :: "capability \<Rightarrow> string" where
  "Capabilities History = ''history''"
| "Capabilities Compact = ''compact''"
| "Capabilities ForkAtSeq = ''fork-at-seq''"
| "Capabilities Questions = ''questions''"
| "Capabilities PromptBlocks = ''prompt-blocks''"
| "Capabilities Catalogs = ''catalogs''"
| "Capabilities PendingInteractions = ''pending-interactions''"
| "Capabilities RequestedSessionId = ''requested-session-id''"

lemma Capabilities_inj [simp]: "Capabilities a = Capabilities b \<longleftrightarrow> a = b"
  by (cases a; cases b) simp_all

section \<open>Handshake\<close>

record hello_proof_params =
  hp_clientNonce :: jstr
  hp_serverNonce :: jstr
  hp_hello :: hello_message
  hp_proof :: jstr

record hello_proof_result =
  hr_authenticated :: bool
  hr_clientId :: jstr

section \<open>Sessions\<close>

record wire_event =
  we_type :: jstr
  we_seq :: int
  we_time :: int
  we_data :: "json option"
  we_ignorable :: bool

datatype attach_mode = ReadMode | WriteMode

record attach_params =
  at_sessionId :: jstr
  at_mode :: attach_mode
  at_force :: "bool option"
  at_sinceSeq :: "int option"

datatype session_status = Idle | Running | WaitingApproval | Ended

datatype control_reason = Acquired | Released | Preempted | Disconnected

record session_summary =
  su_sessionId :: jstr
  su_cwd :: jstr
  su_status :: session_status
  su_attachedClients :: nat
  su_lastSeq :: int
  su_controller :: "jstr option"
  su_title :: "jstr option"
  su_createdAt :: "int option"

record create_params =
  cr_requestedSessionId :: "jstr option"
  cr_cwd :: "jstr option"
  cr_title :: "jstr option"

datatype prompt_block =
    TextBlock jstr
  | ImageBlock (block_mediaType: jstr) (block_data: jstr) (block_name: "jstr option")

record history_params =
  hi_sessionId :: jstr
  hi_beforeSeq :: "int option"
  hi_maxMessages :: "int option"

record history_entry =
  he_seq :: int
  he_event :: wire_event

record history_result =
  hr_entries :: "history_entry list"
  hr_hasMore :: bool

section \<open>Interactions\<close>

datatype decision = Approve | Deny

record approval_request_params =
  aq_requestId :: jstr
  aq_sessionId :: jstr
  aq_kind :: jstr
  aq_summary :: jstr
  aq_detail :: "json option"

record approval_answer_params =
  aa_requestId :: jstr
  aa_decision :: decision
  aa_note :: "jstr option"

record approval_closed =
  ac_requestId :: jstr
  ac_decision :: decision
  ac_winner :: "jstr option"

record question_option =
  qo_id :: jstr
  qo_label :: jstr
  qo_description :: "jstr option"

record question_intent =
  qi_approve :: jstr

record question_item =
  qm_id :: jstr
  qm_question :: jstr
  qm_detail :: "jstr option"
  qm_header :: "jstr option"
  qm_multiSelect :: "bool option"
  qm_intent :: "question_intent option"
  qm_options :: "question_option list"

record question_request_params =
  qq_questionId :: jstr
  qq_sessionId :: jstr
  qq_summary :: "jstr option"
  qq_items :: "question_item list"

datatype answer_value = OneAnswer jstr | ManyAnswers "jstr list"

type_synonym answers = "(jstr \<times> answer_value) list"

record question_answer_params =
  qa_questionId :: jstr
  qa_answers :: answers

record question_closed =
  qc_questionId :: jstr
  qc_answers :: "answers option"
  qc_winner :: "jstr option"

datatype pending_interaction =
    PendingApproval approval_request_params
  | PendingQuestion question_request_params

record attach_result =
  ar_sessionId :: jstr
  ar_holder :: "jstr option"
  ar_lastSeq :: int
  ar_pendingInteractions :: "pending_interaction list option"

text \<open>Everything the backend pushes to a client.\<close>

datatype notification =
    NEvent (n_session: jstr) wire_event
  | NStatus (n_session: jstr) session_status
  | NControl (n_session: jstr) "jstr option" control_reason
  | NApprovalRequest approval_request_params
  | NApprovalClosed approval_closed
  | NQuestionRequest question_request_params
  | NQuestionClosed question_closed

end
