(* ===== verification/Broker.thy ===== *)
theory Broker
  imports Protocol "HOL-Library.Multiset"
begin

text \<open>
  The session broker, \<^verbatim>\<open>remote-backend/src/broker.ts\<close>, over the host interfaces of
  \<^verbatim>\<open>remote-backend/src/host.ts\<close>. The state \<open>broker\<close> has the maps of \<open>SessionBroker\<close>; the host
  (session store, agents, persistence) is a record of its answers, passed to the operations that ask
  it. A connection object is a client id with an identity, and \<open>bad\<close> tells which connections throw
  from \<open>notify\<close> and what. Operations return the new state, the notifications that got through, in
  order, and a result or the error thrown.

  A subscription to the host's event feed is a number; \<open>br_subs\<close> holds the live ones, in the order
  of subscription, with the connection and session their listener closes over.
\<close>

section \<open>The host\<close>

record host_session =
  hs_id :: jstr
  hs_cwd :: "jstr option"
  hs_createdAt :: int
  hs_events :: "wire_event list"
  hs_seq :: int

record cold_session =
  cs_id :: jstr
  cs_cwd :: "jstr option"
  cs_lastSeq :: "int option"

datatype agent_status = AgentIdle | AgentRunning

fun status_of_agent :: "agent_status \<Rightarrow> session_status" where
  "status_of_agent AgentIdle = Idle"
| "status_of_agent AgentRunning = Running"

record persistence =
  ps_inspect :: "jstr \<Rightarrow> bool"
  ps_readFrom :: "jstr \<Rightarrow> wire_event list"

record host =
  ho_sessions :: "host_session list"
  ho_get :: "jstr \<Rightarrow> host_session option"
  ho_cold :: "cold_session list option"
  ho_agent :: "jstr \<Rightarrow> agent_status option"
  ho_create :: bool
  ho_persistence :: "persistence option"
  ho_compaction :: bool
  ho_attachments :: bool

section \<open>State\<close>

record conn =
  cn_clientId :: jstr
  cn_object :: nat

record subscription =
  sb_conn :: conn
  sb_session :: jstr

record lease =
  holderId :: jstr
  attachedAt :: jstr

record broker =
  connections :: "(jstr \<times> conn) list"
  attached :: "(jstr \<times> jstr list) list"
  attachmentsByClient :: "(jstr \<times> (jstr \<times> nat) list) list"
  leases :: "(jstr \<times> lease) list"
  waitingApproval :: "jstr list"
  br_subs :: "(nat \<times> subscription) list"
  br_nextSub :: nat
  br_hostFeeds :: bool

definition SessionBroker :: broker where
  "SessionBroker = \<lparr>connections = [], attached = [], attachmentsByClient = [], leases = [],
     waitingApproval = [], br_subs = [], br_nextSub = 0, br_hostFeeds = True\<rparr>"

type_synonym sent = "(conn \<times> notification) list"

type_synonym failing = "conn \<Rightarrow> thrown option"

section \<open>Queries\<close>

definition attached_of :: "broker \<Rightarrow> jstr \<Rightarrow> jstr list" where
  "attached_of b s = (case map_of (attached b) s of Some cs \<Rightarrow> cs | None \<Rightarrow> [])"

definition attachments_of :: "broker \<Rightarrow> jstr \<Rightarrow> (jstr \<times> nat) list" where
  "attachments_of b c = (case map_of (attachmentsByClient b) c of Some m \<Rightarrow> m | None \<Rightarrow> [])"

definition attachedTo :: "broker \<Rightarrow> jstr \<Rightarrow> conn list" where
  "attachedTo b s = List.map_filter (map_of (connections b)) (attached_of b s)"

definition holder_of :: "broker \<Rightarrow> jstr \<Rightarrow> jstr option" where
  "holder_of b s = map_option holderId (map_of (leases b) s)"

definition writerOf :: "broker \<Rightarrow> jstr \<Rightarrow> conn option" where
  "writerOf b s = Option.bind (holder_of b s) (map_of (connections b))"

definition allConnections :: "broker \<Rightarrow> conn list" where
  "allConnections b = map snd (connections b)"

definition statusOf :: "host \<Rightarrow> broker \<Rightarrow> host_session option \<Rightarrow> session_status" where
  "statusOf h b session =
     (case session of
        None \<Rightarrow> Ended
      | Some s \<Rightarrow>
          if hs_id s \<in> set (waitingApproval b) then WaitingApproval
          else (case ho_agent h (hs_id s) of None \<Rightarrow> Idle | Some a \<Rightarrow> status_of_agent a))"

definition requireConnection :: "broker \<Rightarrow> jstr \<Rightarrow> remote_error + conn" where
  "requireConnection b c =
     (case map_of (connections b) c of
        None \<Rightarrow> Inl (rerr REMOTE_PROTOCOL_ERROR (js ''unknown client \"'' @ c @ js ''\"''))
      | Some cn \<Rightarrow> Inr cn)"

definition locked_data :: "lease option \<Rightarrow> json" where
  "locked_data l = JObj (case l of None \<Rightarrow> []
     | Some x \<Rightarrow> [(js ''holder'', JStr (holderId x)), (js ''attachedAt'', JStr (attachedAt x))])"

definition locked_text :: "jstr \<Rightarrow> lease \<Rightarrow> jstr" where
  "locked_text s x = js ''session \"'' @ s @ js ''\" is controlled by '' @ holderId x"

definition requireHolder :: "broker \<Rightarrow> jstr \<Rightarrow> jstr \<Rightarrow> remote_error option" where
  "requireHolder b c s =
     (if holder_of b s = Some c then None
      else Some (RemoteError REMOTE_SESSION_LOCKED
        (case map_of (leases b) s of
           Some x \<Rightarrow> locked_text s x
         | None \<Rightarrow> js ''session \"'' @ s @ js ''\" requires write control (attach with mode \"write\" first)'')
        (Some (locked_data (map_of (leases b) s))) None))"

definition brokerCapabilities :: "host \<Rightarrow> capability list" where
  "brokerCapabilities h = [ForkAtSeq] @ (if ho_create h then [RequestedSessionId] else [])
     @ (if ho_persistence h \<noteq> None then [History] else []) @ (if ho_compaction h then [Compact] else [])
     @ (if ho_attachments h then [PromptBlocks] else [])"

text \<open>\<open>session.list\<close>: the live sessions in the store's order, then the cold ones that are not live.\<close>

definition listSessions :: "host \<Rightarrow> broker \<Rightarrow> session_summary list" where
  "listSessions h b =
     map (\<lambda>s. \<lparr>su_sessionId = hs_id s, su_cwd = (case hs_cwd s of Some d \<Rightarrow> d | None \<Rightarrow> []),
        su_status = statusOf h b (Some s), su_attachedClients = length (attached_of b (hs_id s)),
        su_lastSeq = hs_seq s - 1, su_controller = holder_of b (hs_id s), su_title = None,
        su_createdAt = Some (hs_createdAt s)\<rparr>) (ho_sessions h) @
     map (\<lambda>c. \<lparr>su_sessionId = cs_id c, su_cwd = (case cs_cwd c of Some d \<Rightarrow> d | None \<Rightarrow> []),
        su_status = Ended, su_attachedClients = 0,
        su_lastSeq = (case cs_lastSeq c of Some n \<Rightarrow> n | None \<Rightarrow> -1), su_controller = None,
        su_title = None, su_createdAt = None\<rparr>)
       (filter (\<lambda>c. cs_id c \<notin> hs_id ` set (ho_sessions h))
         (case ho_cold h of Some cs \<Rightarrow> cs | None \<Rightarrow> []))"

definition stats :: "host \<Rightarrow> broker \<Rightarrow> nat \<times> nat" where
  "stats h b = (length (ho_sessions h), sum_list (map (length \<circ> snd) (attached b)))"

section \<open>Notifications\<close>

definition deliver_to :: "failing \<Rightarrow> conn list \<Rightarrow> notification \<Rightarrow> sent" where
  "deliver_to bad cs n = map (\<lambda>c. (c, n)) (filter (\<lambda>c. bad c = None) cs)"

definition toAttached :: "failing \<Rightarrow> broker \<Rightarrow> jstr \<Rightarrow> notification \<Rightarrow> sent" where
  "toAttached bad b s n = deliver_to bad (attachedTo b s) n"

definition broadcastControl :: "failing \<Rightarrow> broker \<Rightarrow> jstr \<Rightarrow> jstr option \<Rightarrow> control_reason \<Rightarrow> sent" where
  "broadcastControl bad b s holder r = toAttached bad b s (NControl s holder r)"

section \<open>Attachments and leases\<close>

definition unsubscribe :: "nat \<Rightarrow> broker \<Rightarrow> broker" where
  "unsubscribe k b = b\<lparr>br_subs := AList.delete k (br_subs b)\<rparr>"

definition trackAttachment :: "broker \<Rightarrow> jstr \<Rightarrow> jstr \<Rightarrow> nat \<Rightarrow> broker" where
  "trackAttachment b c s k =
     (let b1 = (case map_of (attachments_of b c) s of None \<Rightarrow> b | Some old \<Rightarrow> unsubscribe old b)
      in b1\<lparr>attachmentsByClient := AList.update c (AList.update s k (attachments_of b c)) (attachmentsByClient b),
            attached := AList.update s (set_add c (attached_of b s)) (attached b)\<rparr>)"

definition dropAttachment :: "broker \<Rightarrow> jstr \<Rightarrow> jstr \<Rightarrow> broker" where
  "dropAttachment b c s =
     (case map_of (attachments_of b c) s of
        None \<Rightarrow> b
      | Some k \<Rightarrow>
          (let cs = set_del c (attached_of b s)
           in (unsubscribe k b)\<lparr>
             attachmentsByClient := AList.update c (AList.delete s (attachments_of b c)) (attachmentsByClient b),
             attached := (if map_of (attached b) s = None then attached b
               else if cs = [] then AList.delete s (attached b) else AList.update s cs (attached b))\<rparr>))"

definition acquireLease ::
    "failing \<Rightarrow> jstr \<Rightarrow> broker \<Rightarrow> jstr \<Rightarrow> jstr \<Rightarrow> bool \<Rightarrow> broker \<times> sent \<times> remote_error option" where
  "acquireLease bad now b c s force =
     (let taken = b\<lparr>leases := AList.update s \<lparr>holderId = c, attachedAt = now\<rparr> (leases b)\<rparr> in
      case map_of (leases b) s of
        None \<Rightarrow> (taken, broadcastControl bad taken s (Some c) Acquired, None)
      | Some x \<Rightarrow>
          if holderId x = c then (b, [], None)
          else if \<not> force then
            (b, [], Some (RemoteError REMOTE_SESSION_LOCKED (locked_text s x) (Some (locked_data (Some x))) None))
          else (taken, broadcastControl bad taken s (Some c) Preempted, None))"

text \<open>Sending a list of events to one connection stops at the first exception.\<close>

definition forward_all :: "failing \<Rightarrow> conn \<Rightarrow> jstr \<Rightarrow> wire_event list \<Rightarrow> sent \<times> thrown option" where
  "forward_all bad cn s evs =
     (case bad cn of
        None \<Rightarrow> (map (\<lambda>e. (cn, NEvent s e)) evs, None)
      | Some x \<Rightarrow> ([], if evs = [] then None else Some x))"

text \<open>The loop over the live buffer: an event passes when it is above the watermark, which it raises.\<close>

fun above :: "int \<Rightarrow> wire_event list \<Rightarrow> wire_event list" where
  "above w [] = []"
| "above w (e # es) = (if we_seq e > w then e # above (we_seq e) es else above w es)"

definition add_subscription :: "broker \<Rightarrow> conn \<Rightarrow> jstr \<Rightarrow> broker" where
  "add_subscription b cn s =
     b\<lparr>br_subs := br_subs b @ [(br_nextSub b, \<lparr>sb_conn = cn, sb_session = s\<rparr>)],
       br_nextSub := Suc (br_nextSub b)\<rparr>"

text \<open>
  What a client is sent on attaching: the events after its cursor, then what the live buffer holds
  above the watermark. \<open>current\<close> is the session as the second \<open>sessions.get\<close> answers, \<open>buffered\<close>
  what the listener has collected for the session until the end of the replay.
\<close>

definition replay :: "host_session \<Rightarrow> int option \<Rightarrow> wire_event list \<Rightarrow> wire_event list" where
  "replay current sinceSeq buffered =
     (case sinceSeq of
        None \<Rightarrow> above (hs_seq current - 1) buffered
      | Some q \<Rightarrow> filter (\<lambda>e. we_seq e > q) (hs_events current) @ above q buffered)"

definition attach_reply :: "broker \<Rightarrow> host_session \<Rightarrow> pending_interaction list option \<Rightarrow> attach_result" where
  "attach_reply b session extras =
     \<lparr>ar_sessionId = hs_id session, ar_holder = holder_of b (hs_id session), ar_lastSeq = hs_seq session - 1,
      ar_pendingInteractions = (case extras of Some (p # ps) \<Rightarrow> Some (p # ps) | _ \<Rightarrow> None)\<rparr>"

text \<open>Taking control, with the attachment rolled back when the lease is refused.\<close>

definition attach_control :: "failing \<Rightarrow> jstr \<Rightarrow> broker \<Rightarrow> jstr \<Rightarrow> jstr \<Rightarrow> attach_params \<Rightarrow>
    broker \<times> sent \<times> remote_error option" where
  "attach_control bad now b c s params =
     (if at_mode params = WriteMode then
        (case acquireLease bad now b c s (at_force params = Some True) of
           (b1, out, None) \<Rightarrow> (b1, out, None)
         | (b1, out, Some e) \<Rightarrow> (dropAttachment b1 c s, out, Some e))
      else (b, [], None))"

definition attach :: "host \<Rightarrow> failing \<Rightarrow> jstr \<Rightarrow> host_session option \<Rightarrow> wire_event list \<Rightarrow> broker \<Rightarrow> jstr \<Rightarrow>
    attach_params \<Rightarrow> pending_interaction list option \<Rightarrow> broker \<times> sent \<times> (thrown + attach_result)" where
  "attach h bad now current buffered b c params extras =
     (case requireConnection b c of
        Inl e \<Rightarrow> (b, [], Inl (TRemote e))
      | Inr cn \<Rightarrow>
     (case ho_get h (at_sessionId params) of
        None \<Rightarrow> (b, [], Inl (TRemote (rerr REMOTE_PROTOCOL_ERROR
          (js ''unknown session \"'' @ at_sessionId params @ js ''\"''))))
      | Some session \<Rightarrow>
        (let s = hs_id session; k = br_nextSub b; b1 = add_subscription b cn s;
             cur = (case current of Some x \<Rightarrow> x | None \<Rightarrow> session)
         in case forward_all bad cn s (replay cur (at_sinceSeq params) buffered) of
              (out, Some x) \<Rightarrow> (unsubscribe k b1, out, Inl x)
            | (out, None) \<Rightarrow>
                (case attach_control bad now (trackAttachment b1 c s k) c s params of
                   (b2, out2, None) \<Rightarrow> (b2, out @ out2, Inr (attach_reply b2 session extras))
                 | (b2, out2, Some e) \<Rightarrow> (b2, out @ out2, Inl (TRemote e))))))"

definition release_lease :: "failing \<Rightarrow> control_reason \<Rightarrow> broker \<Rightarrow> jstr \<Rightarrow> broker \<times> sent" where
  "release_lease bad r b s =
     (let b1 = b\<lparr>leases := AList.delete s (leases b)\<rparr> in (b1, broadcastControl bad b1 s None r))"

definition controlRelease :: "failing \<Rightarrow> broker \<Rightarrow> jstr \<Rightarrow> jstr \<Rightarrow> broker \<times> sent" where
  "controlRelease bad b c s = (if holder_of b s = Some c then release_lease bad Released b s else (b, []))"

definition detach :: "failing \<Rightarrow> broker \<Rightarrow> jstr \<Rightarrow> jstr \<Rightarrow> broker \<times> sent" where
  "detach bad b c s = (case controlRelease bad b c s of (b1, out) \<Rightarrow> (dropAttachment b1 c s, out))"

definition connect :: "broker \<Rightarrow> conn \<Rightarrow> broker" where
  "connect b cn = b\<lparr>connections := AList.update (cn_clientId cn) cn (connections b)\<rparr>"

definition disconnect :: "failing \<Rightarrow> broker \<Rightarrow> jstr \<Rightarrow> broker \<times> sent" where
  "disconnect bad b c =
     (let b1 = foldl (\<lambda>b s. dropAttachment b c s) b (map fst (attachments_of b c));
          b2 = b1\<lparr>connections := AList.delete c (connections b1)\<rparr>
      in steps (release_lease bad Disconnected) b2
           (map fst (filter (\<lambda>(s, x). holderId x = c) (leases b2))))"

definition setWaitingApproval :: "host \<Rightarrow> failing \<Rightarrow> broker \<Rightarrow> jstr \<Rightarrow> bool \<Rightarrow> broker \<times> sent" where
  "setWaitingApproval h bad b s w =
     (if w = (s \<in> set (waitingApproval b)) then (b, [])
      else (let b1 = b\<lparr>waitingApproval := (if w then set_add s else set_del s) (waitingApproval b)\<rparr>
        in (b1, toAttached bad b1 s (NStatus s (if w then WaitingApproval else statusOf h b1 (ho_get h s))))))"

text \<open>What the host's feeds make the broker send.\<close>

definition onSessionEvent :: "failing \<Rightarrow> broker \<Rightarrow> jstr \<Rightarrow> wire_event \<Rightarrow> sent" where
  "onSessionEvent bad b s e =
     deliver_to bad (map (sb_conn \<circ> snd) (filter (\<lambda>(k, x). sb_session x = s) (br_subs b))) (NEvent s e)"

definition onStatus :: "failing \<Rightarrow> broker \<Rightarrow> jstr \<Rightarrow> agent_status \<Rightarrow> sent" where
  "onStatus bad b s a = (if br_hostFeeds b then toAttached bad b s (NStatus s (status_of_agent a)) else [])"

definition onSessionDisposed :: "failing \<Rightarrow> broker \<Rightarrow> jstr \<Rightarrow> sent" where
  "onSessionDisposed bad b s = (if br_hostFeeds b then toAttached bad b s (NStatus s Ended) else [])"

definition dispose :: "broker \<Rightarrow> broker" where
  "dispose b = b\<lparr>br_hostFeeds := False\<rparr>"

section \<open>Operations on a session's agent\<close>

definition no_agent :: "jstr \<Rightarrow> remote_error" where
  "no_agent s = rerr REMOTE_PROTOCOL_ERROR (js ''no live agent for session \"'' @ s @ js ''\"'')"

text \<open>The agent of a session its controller may act on.\<close>

definition controlled_agent :: "host \<Rightarrow> broker \<Rightarrow> jstr \<Rightarrow> jstr \<Rightarrow> remote_error + agent_status" where
  "controlled_agent h b c s =
     (case requireHolder b c s of
        Some e \<Rightarrow> Inl e
      | None \<Rightarrow> (case ho_agent h s of None \<Rightarrow> Inl (no_agent s) | Some a \<Rightarrow> Inr a))"

text \<open>
  The content blocks of a prompt. \<open>saved\<close> is what the attachment store does with an image: the
  exception it rejects with, or the reference.
\<close>

datatype message_block = MText jstr | MImage jstr "jstr option" json

fun prompt_blocks :: "bool \<Rightarrow> (bytes \<Rightarrow> jstr \<Rightarrow> jstr option \<Rightarrow> thrown + json) \<Rightarrow> prompt_block list \<Rightarrow>
    thrown + message_block list" where
  "prompt_blocks can saved [] = Inr []"
| "prompt_blocks can saved (TextBlock t # bs) =
     (case prompt_blocks can saved bs of Inl e \<Rightarrow> Inl e | Inr ms \<Rightarrow> Inr (MText t # ms))"
| "prompt_blocks can saved (ImageBlock mt d n # bs) =
     (if \<not> can then Inl (TRemote (rerr REMOTE_CAPABILITY_UNSUPPORTED (js ''this backend cannot accept image prompt blocks'')))
      else (case saved (b64_decode d) mt n of
        Inl e \<Rightarrow> Inl e
      | Inr a \<Rightarrow>
          (case prompt_blocks can saved bs of Inl e \<Rightarrow> Inl e | Inr ms \<Rightarrow> Inr (MImage mt n a # ms))))"

text \<open>The message handed to \<open>agent.followup\<close>, with its id from 8 random bytes; or the error.\<close>

definition prompt :: "host \<Rightarrow> bytes \<Rightarrow> (bytes \<Rightarrow> jstr \<Rightarrow> jstr option \<Rightarrow> thrown + json) \<Rightarrow> broker \<Rightarrow> jstr \<Rightarrow> jstr \<Rightarrow>
    jstr \<Rightarrow> prompt_block list option \<Rightarrow> thrown + jstr \<times> message_block list" where
  "prompt h rnd saved b c s text content =
     (case controlled_agent h b c s of
        Inl e \<Rightarrow> Inl (TRemote e)
      | Inr _ \<Rightarrow>
          (case (case content of None \<Rightarrow> Inr [MText text] | Some bs \<Rightarrow> prompt_blocks (ho_attachments h) saved bs) of
             Inl e \<Rightarrow> Inl e
           | Inr ms \<Rightarrow> Inr (js ''remote-'' @ hex rnd, ms)))"

text \<open>\<open>Inr ()\<close> is one call of \<open>agent.cancel\<close>.\<close>

definition cancel :: "host \<Rightarrow> broker \<Rightarrow> jstr \<Rightarrow> jstr \<Rightarrow> remote_error + unit" where
  "cancel h b c s = map_sum id (\<lambda>_. ()) (controlled_agent h b c s)"

definition thrown_text :: "thrown \<Rightarrow> jstr" where
  "thrown_text t = (case t of TRemote e \<Rightarrow> err_message e | TError m \<Rightarrow> m | TOther m \<Rightarrow> m)"

definition fork :: "(jstr \<Rightarrow> int option \<Rightarrow> int option \<Rightarrow> thrown + host_session) \<Rightarrow> broker \<Rightarrow> jstr \<Rightarrow> jstr \<Rightarrow>
    int option \<Rightarrow> int option \<Rightarrow> remote_error + jstr" where
  "fork host_fork b c s boundary atSeq =
     (case requireHolder b c s of
        Some e \<Rightarrow> Inl e
      | None \<Rightarrow>
          (case host_fork s boundary atSeq of
             Inl t \<Rightarrow> Inl (RemoteError REMOTE_PROTOCOL_ERROR (js ''fork failed: '' @ thrown_text t) None (Some t))
           | Inr child \<Rightarrow> Inr (hs_id child)))"

text \<open>\<open>Inr True\<close> is one call of \<open>compactNow\<close>.\<close>

definition compact :: "host \<Rightarrow> broker \<Rightarrow> jstr \<Rightarrow> jstr \<Rightarrow> remote_error + bool" where
  "compact h b c s =
     (if \<not> ho_compaction h then
        Inl (rerr REMOTE_CAPABILITY_UNSUPPORTED (js ''this backend has no compaction subsystem''))
      else (case controlled_agent h b c s of
        Inl e \<Rightarrow> Inl e
      | Inr a \<Rightarrow>
          if a \<noteq> AgentIdle \<or> s \<in> set (waitingApproval b) then
            Inl (rerr REMOTE_ABORTED (js ''session \"'' @ s @ js ''\" is busy; compact again when the session is idle''))
          else Inr True))"

definition create :: "host \<Rightarrow> (create_params \<Rightarrow> thrown + jstr) \<Rightarrow> broker \<Rightarrow> jstr \<Rightarrow> create_params \<Rightarrow> thrown + jstr" where
  "create h host_create b c params =
     (case requireConnection b c of
        Inl e \<Rightarrow> Inl (TRemote e)
      | Inr _ \<Rightarrow>
          if \<not> ho_create h then
            Inl (TRemote (rerr REMOTE_PROTOCOL_ERROR (js ''this host does not support session creation'')))
          else (case host_create params of
            Inr sid \<Rightarrow> Inr sid
          | Inl cause \<Rightarrow>
              (case cr_requestedSessionId params of
                 None \<Rightarrow> Inl cause
               | Some r \<Rightarrow> Inl (TRemote (RemoteError REMOTE_PROTOCOL_ERROR
                   (js ''cannot create requested session \"'' @ r @ js ''\"'')
                   (Some (JObj [(js ''requestedSessionId'', JStr r)])) (Some cause))))))"

section \<open>History\<close>

definition HISTORY_DEFAULT_MAX :: int where "HISTORY_DEFAULT_MAX = 200"
definition HISTORY_MAX :: int where "HISTORY_MAX = 1000"

definition history_page :: "wire_event list \<Rightarrow> int option \<Rightarrow> int option \<Rightarrow> history_result" where
  "history_page events beforeSeq maxMessages =
     (let limit = min (max 1 (case maxMessages of Some n \<Rightarrow> n | None \<Rightarrow> HISTORY_DEFAULT_MAX)) HISTORY_MAX;
          eligible = (case beforeSeq of None \<Rightarrow> events | Some q \<Rightarrow> filter (\<lambda>e. we_seq e < q) events);
          start = length eligible - nat limit
      in \<lparr>hr_entries = map (\<lambda>e. \<lparr>he_seq = we_seq e, he_event = e\<rparr>) (drop start eligible),
          hr_hasMore = (start > 0)\<rparr>)"

definition history :: "host \<Rightarrow> history_params \<Rightarrow> remote_error + history_result" where
  "history h params =
     (case ho_get h (hi_sessionId params) of
        Some live \<Rightarrow> Inr (history_page (hs_events live) (hi_beforeSeq params) (hi_maxMessages params))
      | None \<Rightarrow>
          (case ho_persistence h of
             None \<Rightarrow> Inl (rerr REMOTE_CAPABILITY_UNSUPPORTED (js ''this backend cannot read cold session history''))
           | Some p \<Rightarrow>
               if ps_inspect p (hi_sessionId params)
               then Inr (history_page (ps_readFrom p (hi_sessionId params)) (hi_beforeSeq params) (hi_maxMessages params))
               else Inl (rerr REMOTE_PROTOCOL_ERROR (js ''unknown session \"'' @ hi_sessionId params @ js ''\"''))))"

section \<open>The broker's tables agree\<close>

definition att :: "broker \<Rightarrow> jstr \<Rightarrow> jstr \<Rightarrow> nat option" where
  "att b c s = map_of (attachments_of b c) s"

abbreviation subs :: "broker \<Rightarrow> nat \<Rightarrow> subscription option" where
  "subs b \<equiv> map_of (br_subs b)"

abbreviation sub_client :: "subscription \<Rightarrow> jstr" where
  "sub_client x \<equiv> cn_clientId (sb_conn x)"

text \<open>
  Every attachment has its own live subscription and every live subscription belongs to an
  attachment; the two attachment tables agree; attached clients are connected; a lease holder other
  than those in \<open>D\<close> is attached to the session it controls.
\<close>

definition broker_ok_but :: "jstr set \<Rightarrow> broker \<Rightarrow> bool" where
  "broker_ok_but D b \<longleftrightarrow>
     (\<forall>c s k. att b c s = Some k \<longrightarrow> (\<exists>x. subs b k = Some x \<and> sub_client x = c \<and> sb_session x = s))
   \<and> (\<forall>k x. subs b k = Some x \<longrightarrow> att b (sub_client x) (sb_session x) = Some k \<and> k < br_nextSub b)
   \<and> (\<forall>c s. c \<in> set (attached_of b s) \<longleftrightarrow> att b c s \<noteq> None)
   \<and> (\<forall>s. distinct (attached_of b s))
   \<and> (\<forall>c s. att b c s \<noteq> None \<longrightarrow> map_of (connections b) c \<noteq> None)
   \<and> (\<forall>s x. map_of (leases b) s = Some x \<longrightarrow> holderId x \<in> D \<or> att b (holderId x) s \<noteq> None)
   \<and> (\<forall>c cn. map_of (connections b) c = Some cn \<longrightarrow> cn_clientId cn = c)
   \<and> distinct (map fst (br_subs b)) \<and> distinct (map fst (leases b))
   \<and> (\<forall>p \<in> set (connections b). cn_clientId (snd p) = fst p)"

abbreviation broker_ok :: "broker \<Rightarrow> bool" where
  "broker_ok \<equiv> broker_ok_but {}"

lemma okD:
  assumes "broker_ok_but D b"
  shows "att b c s = Some k \<Longrightarrow> \<exists>x. subs b k = Some x \<and> sub_client x = c \<and> sb_session x = s"
    and "subs b k = Some x \<Longrightarrow> att b (sub_client x) (sb_session x) = Some k"
    and "subs b k = Some x \<Longrightarrow> k < br_nextSub b"
    and "c \<in> set (attached_of b s) \<longleftrightarrow> att b c s \<noteq> None"
    and "distinct (attached_of b s)"
    and "att b c s \<noteq> None \<Longrightarrow> map_of (connections b) c \<noteq> None"
    and "map_of (leases b) s = Some l \<Longrightarrow> holderId l \<in> D \<or> att b (holderId l) s \<noteq> None"
    and "map_of (connections b) c = Some cn \<Longrightarrow> cn_clientId cn = c"
    and "distinct (map fst (br_subs b))"
    and "distinct (map fst (leases b))"
    and "p \<in> set (connections b) \<Longrightarrow> cn_clientId (snd p) = fst p"
  using assms unfolding broker_ok_but_def by blast+

lemma okI:
  assumes "\<And>c s k. att b c s = Some k \<Longrightarrow> \<exists>x. subs b k = Some x \<and> sub_client x = c \<and> sb_session x = s"
    and "\<And>k x. subs b k = Some x \<Longrightarrow> att b (sub_client x) (sb_session x) = Some k \<and> k < br_nextSub b"
    and "\<And>c s. c \<in> set (attached_of b s) \<longleftrightarrow> att b c s \<noteq> None"
    and "\<And>s. distinct (attached_of b s)"
    and "\<And>c s. att b c s \<noteq> None \<Longrightarrow> map_of (connections b) c \<noteq> None"
    and "\<And>s x. map_of (leases b) s = Some x \<Longrightarrow> holderId x \<in> D \<or> att b (holderId x) s \<noteq> None"
    and "\<And>c cn. map_of (connections b) c = Some cn \<Longrightarrow> cn_clientId cn = c"
    and "distinct (map fst (br_subs b))" and "distinct (map fst (leases b))"
    and "\<And>p. p \<in> set (connections b) \<Longrightarrow> cn_clientId (snd p) = fst p"
  shows "broker_ok_but D b"
  using assms unfolding broker_ok_but_def by blast

lemma ok_new: "broker_ok SessionBroker"
  by (rule okI) (simp_all add: SessionBroker_def att_def attachments_of_def attached_of_def)

text \<open>What the elementary operations do to the views.\<close>

lemma attachments_of_update [simp]:
  "attachments_of (b\<lparr>attachmentsByClient := AList.update c m (attachmentsByClient b')\<rparr>) d =
     (if d = c then m else attachments_of b' d)"
  by (simp add: attachments_of_def)

lemma views_cong:
  "attachmentsByClient b' = attachmentsByClient b \<Longrightarrow> att b' = att b"
  "attached b' = attached b \<Longrightarrow> attached_of b' = attached_of b"
  by (simp_all add: fun_eq_iff att_def attachments_of_def attached_of_def)

lemma track_views:
  "att (trackAttachment b c s k) d t = (if d = c \<and> t = s then Some k else att b d t)"
  "attached_of (trackAttachment b c s k) t = (if t = s then set_add c (attached_of b s) else attached_of b t)"
  "subs (trackAttachment b c s k) = (case att b c s of None \<Rightarrow> subs b | Some old \<Rightarrow> (subs b)(old := None))"
  "distinct (map fst (br_subs b)) \<Longrightarrow> distinct (map fst (br_subs (trackAttachment b c s k)))"
  "connections (trackAttachment b c s k) = connections b"
  "leases (trackAttachment b c s k) = leases b"
  "br_nextSub (trackAttachment b c s k) = br_nextSub b"
  by (simp_all add: trackAttachment_def att_def attachments_of_def attached_of_def unsubscribe_def Let_def
      split: option.split)

lemma drop_views:
  "att (dropAttachment b c s) d t = (if d = c \<and> t = s then None else att b d t)"
  "attached_of (dropAttachment b c s) t =
     (if t = s \<and> att b c s \<noteq> None then set_del c (attached_of b s) else attached_of b t)"
  "subs (dropAttachment b c s) = (case att b c s of None \<Rightarrow> subs b | Some old \<Rightarrow> (subs b)(old := None))"
  "distinct (map fst (br_subs b)) \<Longrightarrow> distinct (map fst (br_subs (dropAttachment b c s)))"
  "connections (dropAttachment b c s) = connections b"
  "leases (dropAttachment b c s) = leases b"
  "br_nextSub (dropAttachment b c s) = br_nextSub b"
  by (auto simp: dropAttachment_def att_def attachments_of_def attached_of_def unsubscribe_def Let_def set_del_def
      split: option.split if_splits)

lemma ok_drop:
  assumes ok: "broker_ok_but D b" and l: "\<And>x. map_of (leases b) s = Some x \<Longrightarrow> holderId x = c \<Longrightarrow> c \<in> D"
  shows "broker_ok_but D (dropAttachment b c s)"
proof (cases "att b c s")
  case None
  then have "dropAttachment b c s = b" by (simp add: dropAttachment_def att_def)
  then show ?thesis using ok by simp
next
  case (Some old)
  let ?b = "dropAttachment b c s"
  have sub: "subs ?b = (subs b)(old := None)" using Some by (simp add: drop_views)
  note view = drop_views(1,2)[of b c s] sub drop_views(5-7)[of b c s]
  show ?thesis
  proof (rule okI)
    fix d t k assume k: "att ?b d t = Some k"
    then have a: "att b d t = Some k" "\<not> (d = c \<and> t = s)" by (auto simp: view split: if_splits)
    then have "k \<noteq> old" using okD(1)[OF ok a(1)] okD(1)[OF ok Some] by auto
    then show "\<exists>x. subs ?b k = Some x \<and> sub_client x = d \<and> sb_session x = t"
      using okD(1)[OF ok a(1)] by (simp add: view)
  next
    fix k x assume "subs ?b k = Some x"
    then have k: "subs b k = Some x" "k \<noteq> old" by (auto simp: view split: if_splits)
    then show "att ?b (sub_client x) (sb_session x) = Some k \<and> k < br_nextSub ?b"
      using okD(2,3)[OF ok k(1)] Some by (auto simp: view)
  next
    fix d t show "d \<in> set (attached_of ?b t) \<longleftrightarrow> att ?b d t \<noteq> None"
      using okD(4)[OF ok] Some by (simp add: view)
  next
    fix t show "distinct (attached_of ?b t)" using okD(5)[OF ok] by (simp add: view)
  next
    fix d t assume "att ?b d t \<noteq> None"
    then show "map_of (connections ?b) d \<noteq> None" using okD(6)[OF ok, of d t] by (simp add: view split: if_splits)
  next
    fix t x assume "map_of (leases ?b) t = Some x"
    then show "holderId x \<in> D \<or> att ?b (holderId x) t \<noteq> None"
      using okD(7)[OF ok, of t x] l by (auto simp: view)
  next
    fix d cn assume "map_of (connections ?b) d = Some cn"
    then show "cn_clientId cn = d" using okD(8)[OF ok] by (simp add: view)
  next
    show "distinct (map fst (br_subs ?b))" using okD(9)[OF ok] by (rule drop_views(4))
  next
    show "distinct (map fst (leases ?b))" using okD(10)[OF ok] by (simp add: view)
  next
    fix p assume "p \<in> set (connections ?b)"
    then show "cn_clientId (snd p) = fst p" using okD(11)[OF ok] by (simp add: view)
  qed
qed

text \<open>A new subscription that is at once recorded as the attachment of its client.\<close>

lemma ok_track:
  assumes ok: "broker_ok b" and cn: "map_of (connections b) c = Some cn"
    and b1: "b1 = add_subscription b cn s"
  shows "broker_ok (trackAttachment b1 c s (br_nextSub b))"
proof -
  let ?k = "br_nextSub b" and ?b = "trackAttachment b1 c s (br_nextSub b)"
  have fresh: "subs b ?k = None" using okD(3)[OF ok, of ?k] by (cases "subs b ?k") auto
  have s1: "subs b1 k = (if k = ?k then Some \<lparr>sb_conn = cn, sb_session = s\<rparr> else subs b k)" for k
    using fresh by (simp add: b1 add_subscription_def map_add_def split: option.split)
  have same: "att b1 = att b" "attached_of b1 = attached_of b"
    by (rule views_cong, simp add: b1 add_subscription_def)+
  have old: "att b c s \<noteq> Some ?k" using okD(1)[OF ok, of c s ?k] fresh by auto
  have cl: "cn_clientId cn = c" using okD(8)[OF ok cn] .
  have sub: "subs ?b k = (if k = ?k then Some \<lparr>sb_conn = cn, sb_session = s\<rparr>
      else if att b c s = Some k then None else subs b k)" for k
    using old by (auto simp: track_views same s1 split: option.split)
  have d1: "distinct (map fst (br_subs b1))"
    using okD(9)[OF ok] fresh by (auto simp: b1 add_subscription_def map_of_eq_None_iff)
  have "br_nextSub b1 = Suc ?k" "connections b1 = connections b" "leases b1 = leases b" by (simp_all add: b1 add_subscription_def)
  note view = track_views(1,2)[of b1 c s ?k] sub track_views(5-7)[of b1 c s ?k] same this
  show ?thesis
  proof (rule okI)
    fix d t k assume k: "att ?b d t = Some k"
    show "\<exists>x. subs ?b k = Some x \<and> sub_client x = d \<and> sb_session x = t"
    proof (cases "d = c \<and> t = s")
      case True
      then have "k = ?k" using k by (simp add: view)
      then show ?thesis using True cl sub[of k] by simp
    next
      case False
      then have a: "att b d t = Some k" using k by (auto simp: view split: if_splits)
      obtain x where x: "subs b k = Some x" "sub_client x = d" "sb_session x = t" using okD(1)[OF ok a] by blast
      have "k \<noteq> ?k" using x fresh by auto
      moreover have "att b c s \<noteq> Some k" using False x okD(1)[OF ok, of c s k] by auto
      ultimately show ?thesis using x by (simp add: view)
    qed
  next
    fix k x assume "subs ?b k = Some x"
    then have k: "k = ?k \<and> x = \<lparr>sb_conn = cn, sb_session = s\<rparr> \<or> k \<noteq> ?k \<and> subs b k = Some x \<and> att b c s \<noteq> Some k"
      by (auto simp: view split: if_splits)
    show "att ?b (sub_client x) (sb_session x) = Some k \<and> k < br_nextSub ?b"
    proof (cases "k = ?k")
      case True
      then show ?thesis using k cl by (simp add: view)
    next
      case False
      then have x: "subs b k = Some x" "att b c s \<noteq> Some k" using k by auto
      then show ?thesis using okD(2,3)[OF ok x(1)] by (auto simp: view)
    qed
  next
    fix d t show "d \<in> set (attached_of ?b t) \<longleftrightarrow> att ?b d t \<noteq> None"
      using okD(4)[OF ok] by (simp add: view)
  next
    fix t show "distinct (attached_of ?b t)" using okD(5)[OF ok] by (simp add: view)
  next
    fix d t assume "att ?b d t \<noteq> None"
    then show "map_of (connections ?b) d \<noteq> None"
      using okD(6)[OF ok, of d t] cn by (auto simp: view split: if_splits)
  next
    fix t x assume "map_of (leases ?b) t = Some x"
    then show "holderId x \<in> {} \<or> att ?b (holderId x) t \<noteq> None"
      using okD(7)[OF ok, of t x] by (simp add: view)
  next
    fix d cn' assume "map_of (connections ?b) d = Some cn'"
    then show "cn_clientId cn' = d" using okD(8)[OF ok] by (simp add: view)
  next
    show "distinct (map fst (br_subs ?b))" using d1 by (rule track_views(4))
  next
    show "distinct (map fst (leases ?b))" using okD(10)[OF ok] by (simp add: view)
  next
    fix p assume "p \<in> set (connections ?b)"
    then show "cn_clientId (snd p) = fst p" using okD(11)[OF ok] by (simp add: view)
  qed
qed

lemma ok_leases:
  assumes "broker_ok_but D b" and "\<And>s x. map_of ls s = Some x \<Longrightarrow> holderId x \<in> E \<or> att b (holderId x) s \<noteq> None"
    and "distinct (map fst ls)"
  shows "broker_ok_but E (b\<lparr>leases := ls\<rparr>)"
proof -
  have "att (b\<lparr>leases := ls\<rparr>) = att b" "attached_of (b\<lparr>leases := ls\<rparr>) = attached_of b"
    by (rule views_cong, simp)+
  then show ?thesis using assms unfolding broker_ok_but_def by (simp del: map_of_eq_Some_iff)
qed

lemma ok_connections:
  assumes "broker_ok_but D b" and "\<And>c s. att b c s \<noteq> None \<Longrightarrow> map_of cs c \<noteq> None"
    and "\<And>p. p \<in> set cs \<Longrightarrow> cn_clientId (snd p) = fst p"
  shows "broker_ok_but D (b\<lparr>connections := cs\<rparr>)"
proof -
  have "\<And>c cn. map_of cs c = Some cn \<Longrightarrow> cn_clientId cn = c" using assms(3) by (force dest: map_of_SomeD)
  moreover
  have "att (b\<lparr>connections := cs\<rparr>) = att b" "attached_of (b\<lparr>connections := cs\<rparr>) = attached_of b"
    by (rule views_cong, simp)+
  ultimately show ?thesis using assms unfolding broker_ok_but_def by (simp del: map_of_eq_Some_iff)
qed

lemma ok_irrelevant:
  "broker_ok_but D b \<Longrightarrow> broker_ok_but D (b\<lparr>waitingApproval := w\<rparr>)"
  "broker_ok_but D b \<Longrightarrow> broker_ok_but D (b\<lparr>br_hostFeeds := f\<rparr>)"
  unfolding broker_ok_but_def att_def attached_of_def attachments_of_def by (simp_all del: map_of_eq_Some_iff)

lemma set_update_cases: "p \<in> set (AList.update k v m) \<Longrightarrow> p = (k, v) \<or> p \<in> set m"
  by (induction m) (auto split: if_splits)

lemma set_delete_subset: "p \<in> set (AList.delete k m) \<Longrightarrow> p \<in> set m"
  by (auto simp: AList.delete_eq)

lemma ok_connect: "broker_ok b \<Longrightarrow> broker_ok (connect b cn)"
  unfolding connect_def
  by (rule ok_connections) (auto dest: okD(6,11) dest!: set_update_cases split: if_splits)

lemma release_lease_views:
  assumes "release_lease bad r b s = (b', out)"
  shows "b' = b\<lparr>leases := AList.delete s (leases b)\<rparr> \<and> att b' = att b \<and> attached_of b' = attached_of b"
  using assms views_cong[of b' b] by (auto simp: release_lease_def Let_def)

lemma ok_release:
  assumes "broker_ok_but D b" and "release_lease bad r b s = (b', out)"
  shows "broker_ok_but D b'"
proof -
  have "broker_ok_but D (b\<lparr>leases := AList.delete s (leases b)\<rparr>)"
    by (rule ok_leases[OF assms(1)]) (use okD(7,10)[OF assms(1)] in \<open>auto split: if_splits\<close>)
  then show ?thesis using release_lease_views[OF assms(2)] by simp
qed

lemma ok_controlRelease:
  assumes "broker_ok b" and "controlRelease bad b c s = (b', out)"
  shows "broker_ok b' \<and> holder_of b' s \<noteq> Some c"
proof (cases "holder_of b s = Some c")
  case True
  then have r: "release_lease bad Released b s = (b', out)" using assms(2) by (simp add: controlRelease_def)
  then have "holder_of b' s = None" using release_lease_views[OF r] by (simp add: holder_of_def)
  then show ?thesis using ok_release[OF assms(1) r] by simp
next
  case False
  then show ?thesis using assms by (simp add: controlRelease_def)
qed

lemma ok_detach:
  assumes "broker_ok b" and "detach bad b c s = (b', out)"
  shows "broker_ok b'"
proof -
  obtain b1 o1 where r: "controlRelease bad b c s = (b1, o1)" by force
  have b': "b' = dropAttachment b1 c s" using assms(2) r by (simp add: detach_def)
  have "broker_ok b1" "holder_of b1 s \<noteq> Some c" using ok_controlRelease[OF assms(1) r] by simp_all
  then show ?thesis unfolding b' by (intro ok_drop) (auto simp: holder_of_def)
qed

lemma acquireLease_cases:
  obtains "acquireLease bad now b c s force = (b, [], None)" "holder_of b s = Some c"
  | x where "map_of (leases b) s = Some x" "holderId x \<noteq> c" "\<not> force"
      "acquireLease bad now b c s force = (b, [], Some (RemoteError REMOTE_SESSION_LOCKED (locked_text s x)
        (Some (locked_data (Some x))) None))"
  | b' r where "b' = b\<lparr>leases := AList.update s \<lparr>holderId = c, attachedAt = now\<rparr> (leases b)\<rparr>"
      "acquireLease bad now b c s force = (b', broadcastControl bad b' s (Some c) r, None)"
      "r = Acquired \<and> holder_of b s = None \<or> r = Preempted \<and> force \<and> holder_of b s \<noteq> None"
proof (cases "map_of (leases b) s")
  case None
  then show ?thesis by (intro that(3)[OF refl, of Acquired]) (simp_all add: acquireLease_def holder_of_def Let_def)
next
  case (Some x)
  consider "holderId x = c" | "holderId x \<noteq> c" "\<not> force" | "holderId x \<noteq> c" force by blast
  then show ?thesis
  proof cases
    case 1
    then show ?thesis using Some by (intro that(1)) (simp_all add: acquireLease_def holder_of_def Let_def)
  next
    case 2
    then show ?thesis using Some by (intro that(2)) (simp_all add: acquireLease_def Let_def)
  next
    case 3
    then show ?thesis using Some
      by (intro that(3)[OF refl, of Preempted]) (simp_all add: acquireLease_def holder_of_def Let_def)
  qed
qed

lemma ok_take:
  assumes "broker_ok b" and "att b c s \<noteq> None"
  shows "broker_ok (b\<lparr>leases := AList.update s \<lparr>holderId = c, attachedAt = now\<rparr> (leases b)\<rparr>)"
  by (rule ok_leases[OF assms(1)]) (use okD(7,10)[OF assms(1)] assms(2) in \<open>auto split: if_splits\<close>)


lemma ok_unsubscribe_new:
  assumes ok: "broker_ok b"
  shows "broker_ok (unsubscribe (br_nextSub b) (add_subscription b cn s))"
proof -
  have "k \<noteq> br_nextSub b" if "(k, y) \<in> set (br_subs b)" for k y
    using okD(3)[OF ok, of k y] okD(9)[OF ok] that by (auto dest: map_of_is_SomeI)
  then have "AList.delete (br_nextSub b) (br_subs b @ [(br_nextSub b, x)]) = br_subs b" for x
    by (auto simp: AList.delete_eq filter_id_conv)
  then have e: "unsubscribe (br_nextSub b) (add_subscription b cn s) = b\<lparr>br_nextSub := Suc (br_nextSub b)\<rparr>"
    by (simp add: unsubscribe_def add_subscription_def)
  have "att (b\<lparr>br_nextSub := n\<rparr>) = att b" "attached_of (b\<lparr>br_nextSub := n\<rparr>) = attached_of b" for n
    by (rule views_cong, simp)+
  then show ?thesis using ok unfolding e broker_ok_but_def by (simp del: map_of_eq_Some_iff) (meson less_SucI)
qed

lemma ok_attach_control:
  assumes ok: "broker_ok b" and at: "att b c s \<noteq> None"
  shows "broker_ok (fst (attach_control bad now b c s params))"
proof (cases rule: acquireLease_cases[of bad now b c s "at_force params = Some True"])
  case 1
  then show ?thesis using ok by (simp add: attach_control_def)
next
  case (2 x)
  then have "broker_ok (dropAttachment b c s)" by (intro ok_drop[OF ok]) auto
  then show ?thesis using ok 2(4) by (simp add: attach_control_def)
next
  case (3 b3 r)
  then show ?thesis using ok_take[OF ok at] ok by (simp add: attach_control_def)
qed

text \<open>The cases of \<open>attach\<close>.\<close>

lemma attach_cases:
  obtains e where "attach h bad now current buffered b c params extras = (b, [], Inl e)"
      "map_of (connections b) c = None \<or> ho_get h (at_sessionId params) = None"
  | cn session out x where "map_of (connections b) c = Some cn" "ho_get h (at_sessionId params) = Some session"
      "attach h bad now current buffered b c params extras =
        (unsubscribe (br_nextSub b) (add_subscription b cn (hs_id session)), out, Inl x)"
      "bad cn = Some x"
  | cn session out b2 out2 err where "map_of (connections b) c = Some cn"
      "ho_get h (at_sessionId params) = Some session"
      "forward_all bad cn (hs_id session) (replay (case current of Some x \<Rightarrow> x | None \<Rightarrow> session)
        (at_sinceSeq params) buffered) = (out, None)"
      "attach_control bad now (trackAttachment (add_subscription b cn (hs_id session)) c (hs_id session) (br_nextSub b))
        c (hs_id session) params = (b2, out2, err)"
      "attach h bad now current buffered b c params extras =
        (b2, out @ out2, case err of None \<Rightarrow> Inr (attach_reply b2 session extras) | Some e \<Rightarrow> Inl (TRemote e))"
proof (cases "map_of (connections b) c")
  case None
  show ?thesis by (rule that(1)) (simp_all add: attach_def requireConnection_def None)
next
  case cn: (Some cn)
  show ?thesis
  proof (cases "ho_get h (at_sessionId params)")
    case None
    show ?thesis by (rule that(1)) (simp_all add: attach_def requireConnection_def cn None)
  next
    case (Some session)
    let ?cur = "case current of Some x \<Rightarrow> x | None \<Rightarrow> session"
    obtain out res where f: "forward_all bad cn (hs_id session) (replay ?cur (at_sinceSeq params) buffered) = (out, res)"
      by force
    show ?thesis
    proof (cases res)
      case None
      obtain b2 out2 err where a: "attach_control bad now (trackAttachment (add_subscription b cn (hs_id session)) c
          (hs_id session) (br_nextSub b)) c (hs_id session) params = (b2, out2, err)" by (metis prod.exhaust)
      show ?thesis
        by (rule that(3)[OF cn Some f[unfolded None] a])
           (simp add: attach_def requireConnection_def cn Some f None a Let_def split: option.split)
    next
      case x: (Some x)
      then have "bad cn = Some x" using f by (auto simp: forward_all_def split: option.splits if_splits)
      then show ?thesis
        by (intro that(2)[OF cn Some])
           (simp_all add: attach_def requireConnection_def cn Some f x Let_def)
    qed
  qed
qed

lemma ok_attach:
  assumes ok: "broker_ok b"
  shows "broker_ok (fst (attach h bad now current buffered b c params extras))"
proof (cases rule: attach_cases[of h bad now current buffered b c params extras])
  case (1 e)
  then show ?thesis using ok by simp
next
  case (2 cn session out x)
  then show ?thesis using ok_unsubscribe_new[OF ok] by simp
next
  case (3 cn session out b2 out2 err)
  let ?b = "trackAttachment (add_subscription b cn (hs_id session)) c (hs_id session) (br_nextSub b)"
  have "broker_ok ?b" using ok_track[OF ok 3(1) refl] .
  moreover have "att ?b c (hs_id session) \<noteq> None" by (simp add: track_views)
  ultimately have "broker_ok b2" using ok_attach_control[of ?b c "hs_id session" bad now params] 3(4) by simp
  then show ?thesis using 3(5) by simp
qed

text \<open>Disconnecting: first every attachment of the client goes, then its connection, then its leases.\<close>

lemma drops_views:
  "att (foldl (\<lambda>b s. dropAttachment b c s) b ss) d t = (if d = c \<and> t \<in> set ss then None else att b d t)"
  "connections (foldl (\<lambda>b s. dropAttachment b c s) b ss) = connections b"
  "leases (foldl (\<lambda>b s. dropAttachment b c s) b ss) = leases b"
  by (induction ss arbitrary: b) (auto simp: drop_views)

lemma ok_drops:
  "broker_ok_but D b \<Longrightarrow> c \<in> D \<Longrightarrow> broker_ok_but D (foldl (\<lambda>b s. dropAttachment b c s) b ss)"
  by (induction ss arbitrary: b) (auto intro: ok_drop)

lemma att_keys: "att b c s \<noteq> None \<Longrightarrow> s \<in> set (map fst (attachments_of b c))"
  unfolding att_def by (metis map_of_eq_None_iff set_map)

lemma ok_weaken: "broker_ok_but D b \<Longrightarrow> D \<subseteq> E \<Longrightarrow> broker_ok_but E b"
  unfolding broker_ok_but_def by blast

lemma releases_views:
  assumes "steps (release_lease bad r) b ss = (b', out)"
  shows "map_of (leases b') = (\<lambda>s. if s \<in> set ss then None else map_of (leases b) s)
    \<and> att b' = att b \<and> attached_of b' = attached_of b \<and> connections b' = connections b
    \<and> (broker_ok_but D b \<longrightarrow> broker_ok_but D b')"
  using assms
proof (induction ss arbitrary: b b' out)
  case (Cons s ss)
  obtain b1 o1 where r: "release_lease bad r b s = (b1, o1)" by force
  obtain b2 o2 where st: "steps (release_lease bad r) b1 ss = (b2, o2)" by force
  have v: "leases b1 = AList.delete s (leases b)" "connections b1 = connections b"
    using release_lease_views[OF r] by simp_all
  have w: "att b1 = att b" "attached_of b1 = attached_of b" using release_lease_views[OF r] by blast+
  have "b' = b2" using Cons.prems r st by simp
  then show ?case using Cons.IH[OF st] v w ok_release[OF _ r, of D] by (auto simp: fun_eq_iff)
qed (simp add: fun_eq_iff)

lemma disconnect_views:
  assumes ok: "broker_ok b" and dc: "disconnect bad b c = (b', out)"
  shows "broker_ok b'"
    and "att b' d s = (if d = c then None else att b d s)"
    and "connections b' = AList.delete c (connections b)"
    and "holder_of b' s = (if holder_of b s = Some c then None else holder_of b s)"
    and "map_of (leases b') s = (if holder_of b s = Some c then None else map_of (leases b) s)"
proof -
  let ?ks = "map fst (attachments_of b c)"
  define b1 where "b1 = foldl (\<lambda>b s. dropAttachment b c s) b ?ks"
  define b2 where "b2 = b1\<lparr>connections := AList.delete c (connections b1)\<rparr>"
  define ss where "ss = map fst (filter (\<lambda>(s, x). holderId x = c) (leases b2))"
  have st: "steps (release_lease bad Disconnected) b2 ss = (b', out)"
    using dc by (simp add: disconnect_def b1_def b2_def ss_def Let_def)
  have a1: "att b1 d s = (if d = c then None else att b d s)" for d s
  proof -
    have "att b c s = None" if "s \<notin> set ?ks" using att_keys[of b c s] that by blast
    then show ?thesis by (auto simp: b1_def drops_views simp del: set_map)
  qed
  have a2: "att b2 = att b1" by (rule views_cong) (simp add: b2_def)
  have c2: "connections b2 = AList.delete c (connections b)" "leases b2 = leases b"
    by (simp_all add: b2_def b1_def drops_views)
  have ok1: "broker_ok_but {c} b1" unfolding b1_def by (rule ok_drops) (auto intro: ok_weaken[OF ok])
  have ok2: "broker_ok_but {c} b2" unfolding b2_def
    by (rule ok_connections[OF ok1])
       (use okD(6,11)[OF ok1] a1 in \<open>auto split: if_splits dest: set_delete_subset\<close>)
  note r = releases_views[OF st, of "{c}"]
  have h: "s \<in> set ss \<longleftrightarrow> holder_of b s = Some c" for s
  proof -
    have "map_of (leases b) s = Some x \<longleftrightarrow> (s, x) \<in> set (leases b)" for x
      using okD(10)[OF ok] by simp
    then show ?thesis by (auto simp: ss_def c2 holder_of_def image_iff simp del: map_of_eq_Some_iff)
  qed
  show "connections b' = AList.delete c (connections b)" using r c2 by simp
  show "att b' d s = (if d = c then None else att b d s)" using r a1 a2 by simp
  have lv: "map_of (leases b') s = (if holder_of b s = Some c then None else map_of (leases b) s)" for s
    using r h by (simp add: c2)
  show "map_of (leases b') s = (if holder_of b s = Some c then None else map_of (leases b) s)" by (rule lv)
  show "holder_of b' s = (if holder_of b s = Some c then None else holder_of b s)"
    using lv[of s] by (auto simp: holder_of_def)
  have ok3: "broker_ok_but {c} b'" using r ok2 by simp
  have "holderId x \<noteq> c" if "map_of (leases b') s = Some x" for s x
    using lv[of s] that by (auto simp: holder_of_def split: if_splits)
  then show "broker_ok b'"
    using okD[OF ok3] by (intro okI) blast+
qed

section \<open>The broker as a component\<close>

text \<open>What happens to a broker, with the host's state and the failing connections at that moment.\<close>

datatype broker_event =
    EConnect conn
  | EDisconnect jstr
  | EAttach jstr "host_session option" "wire_event list" jstr attach_params "pending_interaction list option"
  | EDetach jstr jstr
  | EControlRelease jstr jstr
  | EWaiting jstr bool
  | ESessionEvent jstr wire_event
  | EStatus jstr agent_status
  | EDisposed jstr
  | EDispose

fun broker_step :: "broker \<Rightarrow> host \<times> failing \<times> broker_event \<Rightarrow> broker \<times> sent" where
  "broker_step b (h, bad, EConnect cn) = (connect b cn, [])"
| "broker_step b (h, bad, EDisconnect c) = disconnect bad b c"
| "broker_step b (h, bad, EAttach now current buffered c params extras) =
     (case attach h bad now current buffered b c params extras of (b', out, r) \<Rightarrow> (b', out))"
| "broker_step b (h, bad, EDetach c s) = detach bad b c s"
| "broker_step b (h, bad, EControlRelease c s) = controlRelease bad b c s"
| "broker_step b (h, bad, EWaiting s w) = setWaitingApproval h bad b s w"
| "broker_step b (h, bad, ESessionEvent s e) = (b, onSessionEvent bad b s e)"
| "broker_step b (h, bad, EStatus s a) = (b, onStatus bad b s a)"
| "broker_step b (h, bad, EDisposed s) = (b, onSessionDisposed bad b s)"
| "broker_step b (h, bad, EDispose) = (dispose b, [])"

lemma ok_waiting: "broker_ok b \<Longrightarrow> broker_ok (fst (setWaitingApproval h bad b s w))"
  by (auto simp: setWaitingApproval_def Let_def intro: ok_irrelevant)

lemma ok_step:
  assumes ok: "broker_ok b" and st: "broker_step b ev = (b', out)"
  shows "broker_ok b'"
proof -
  obtain h bad e where ev: "ev = (h, bad, e)" by (metis prod.exhaust)
  show ?thesis
  proof (cases e)
    case (EDisconnect c)
    then show ?thesis using disconnect_views(1)[OF ok] st ev by simp
  next
    case (EAttach now current buffered c params extras)
    then show ?thesis using ok_attach[OF ok, of h bad now current buffered c params extras] st ev
      by (simp split: prod.splits)
  next
    case (EDetach c s)
    then show ?thesis using ok_detach[OF ok] st ev by simp
  next
    case (EControlRelease c s)
    then show ?thesis using ok_controlRelease[OF ok] st ev by simp
  next
    case (EWaiting s w)
    then show ?thesis using ok_waiting[OF ok, of h bad s w] st ev by simp
  qed (use ok st ev ok_connect ok_irrelevant(2) in \<open>auto simp: dispose_def\<close>)
qed

interpretation broker: reactive broker_step "\<lambda>b _ _. broker_ok b"
  by unfold_locales (rule ok_step)

lemma reachable_ok: "steps broker_step SessionBroker evs = (b, out) \<Longrightarrow> broker_ok b"
  using broker.always[OF ok_new] by blast

section \<open>Subscriptions and attachments\<close>

lemma attachedTo_full:
  assumes ok: "broker_ok b"
  shows "map cn_clientId (attachedTo b s) = attached_of b s"
proof -
  have "map cn_clientId (List.map_filter (map_of (connections b)) cs) = cs"
    if "\<forall>c \<in> set cs. map_of (connections b) c \<noteq> None" for cs
    using that okD(8)[OF ok] by (induction cs) auto
  then show ?thesis using okD(4,6)[OF ok] by (auto simp: attachedTo_def)
qed

lemma subscriptions_of_session:
  assumes ok: "broker_ok b"
  shows "mset (map (sub_client \<circ> snd) (filter (\<lambda>(k, x). sb_session x = s) (br_subs b))) = mset (attached_of b s)"
proof -
  let ?l = "filter (\<lambda>(k, x). sb_session x = s) (br_subs b)"
  have in_subs: "subs b k = Some x \<longleftrightarrow> (k, x) \<in> set (br_subs b)" for k x
    using okD(9)[OF ok] by simp
  have inj: "inj_on (sub_client \<circ> snd) (set ?l)"
  proof (rule inj_onI)
    fix p q assume p: "p \<in> set ?l" and q: "q \<in> set ?l" and e: "(sub_client \<circ> snd) p = (sub_client \<circ> snd) q"
    obtain k x where kx: "p = (k, x)" "subs b k = Some x" "sb_session x = s" using p in_subs by auto
    obtain l y where ly: "q = (l, y)" "subs b l = Some y" "sb_session y = s" using q in_subs by auto
    have "k = l" using okD(2)[OF ok kx(2)] okD(2)[OF ok ly(2)] kx ly e by simp
    then show "p = q" using kx ly by simp
  qed
  have "distinct ?l" using okD(9)[OF ok] by (simp add: distinct_map)
  then have d: "distinct (map (sub_client \<circ> snd) ?l)" using inj by (simp add: distinct_map)
  have "c \<in> set (map (sub_client \<circ> snd) ?l) \<longleftrightarrow> c \<in> set (attached_of b s)" for c
  proof
    assume "c \<in> set (map (sub_client \<circ> snd) ?l)"
    then obtain k x where "subs b k = Some x" "sb_session x = s" "c = sub_client x"
      using in_subs by (auto simp del: map_of_eq_Some_iff)
    then show "c \<in> set (attached_of b s)" using okD(2)[OF ok, of k x] okD(4)[OF ok] by auto
  next
    assume "c \<in> set (attached_of b s)"
    then obtain k where "att b c s = Some k" using okD(4)[OF ok] by auto
    then obtain x where "subs b k = Some x" "sub_client x = c" "sb_session x = s" using okD(1)[OF ok] by blast
    then have "(k, x) \<in> set ?l" using in_subs by auto
    then show "c \<in> set (map (sub_client \<circ> snd) ?l)" using \<open>sub_client x = c\<close> by force
  qed
  then have "set (map (sub_client \<circ> snd) ?l) = set (attached_of b s)" by blast
  then show ?thesis using d okD(5)[OF ok] by (metis set_eq_iff_mset_eq_distinct)
qed

lemma count_list_distinct: "distinct xs \<Longrightarrow> count_list xs x = (if x \<in> set xs then 1 else 0)"
  by (induction xs) auto

lemma drops_attached:
  assumes "\<And>t. att b c t = None \<Longrightarrow> c \<notin> set (attached_of b t)"
  shows "attached_of (foldl (\<lambda>b s. dropAttachment b c s) b ss) t =
    (if t \<in> set ss then set_del c (attached_of b t) else attached_of b t)"
  using assms
proof (induction ss arbitrary: b)
  case (Cons s ss)
  have e: "set_del c (attached_of b u) = attached_of b u" if "att b c u = None" for u
    using Cons.prems[OF that] by (auto simp: set_del_def filter_id_conv)
  have "c \<notin> set (attached_of (dropAttachment b c s) u)" if "att (dropAttachment b c s) c u = None" for u
    using that Cons.prems by (auto simp: drop_views split: if_splits)
  from Cons.IH[OF this] show ?case
    using e by (cases "att b c s") (auto simp: drop_views set_del_def)
qed simp

section \<open>Properties\<close>

text \<open>
  C13: Control and attachments stay consistent through every sequence of connects, disconnects,
  attaches, detaches, releases and host events: a session has at most one controller, who is
  connected and attached to it; every attached client is connected, and has exactly one live
  subscription to the host's feed for the session, so none leaks and none is doubled.
\<close>

theorem broker_control_consistent:
  assumes "steps broker_step SessionBroker evs = (b, out)"
  shows "(\<forall>x. map_of (leases b) s = Some x \<longrightarrow>
      holderId x \<in> set (attached_of b s) \<and> map_option cn_clientId (writerOf b s) = Some (holderId x))
    \<and> distinct (attached_of b s)
    \<and> map cn_clientId (attachedTo b s) = attached_of b s
    \<and> mset (map (\<lambda>(k, x). cn_clientId (sb_conn x)) (filter (\<lambda>(k, x). sb_session x = s) (br_subs b))) =
        mset (attached_of b s)"
proof -
  have ok: "broker_ok b" by (rule reachable_ok[OF assms])
  have "map_option cn_clientId (writerOf b s) = Some (holderId x)" if l: "map_of (leases b) s = Some x" for x
  proof -
    have "map_of (connections b) (holderId x) \<noteq> None" using okD(6,7)[OF ok] l by blast
    then show ?thesis using okD(8)[OF ok] l by (auto simp: writerOf_def holder_of_def)
  qed
  moreover have "holderId x \<in> set (attached_of b s)" if "map_of (leases b) s = Some x" for x
    using okD(4,7)[OF ok] that by blast
  moreover have "(\<lambda>(k :: nat, x). cn_clientId (sb_conn x)) = sub_client \<circ> snd" by (auto simp: fun_eq_iff)
  then have "mset (map (\<lambda>(k, x). cn_clientId (sb_conn x)) (filter (\<lambda>(k, x). sb_session x = s) (br_subs b))) =
      mset (attached_of b s)"
    using subscriptions_of_session[OF ok, of s] by (simp only:)
  ultimately show ?thesis using okD(5)[OF ok] attachedTo_full[OF ok] by blast
qed

text \<open>
  C14: An event of a session reaches every client attached to that session exactly once and no other
  client, whatever happened before.
\<close>

theorem session_event_reaches_attached_once:
  assumes "steps broker_step SessionBroker evs = (b, out)"
  shows "mset (map (cn_clientId \<circ> fst) (onSessionEvent (\<lambda>_. None) b s e)) = mset (attached_of b s)
    \<and> snd ` set (onSessionEvent (\<lambda>_. None) b s e) \<subseteq> {NEvent s e}"
  using subscriptions_of_session[OF reachable_ok[OF assms], of s]
  by (auto simp: onSessionEvent_def deliver_to_def comp_def)

text \<open>
  Only the controller of a session may prompt, cancel, fork or compact it: for any other client
  each of these fails with \<open>REMOTE_SESSION_LOCKED\<close>, naming the holder and the time of its attach when
  there is one, before anything reaches the host.
\<close>

theorem control_required:
  assumes "holder_of b s \<noteq> Some c"
  shows "\<exists>e. err_code e = REMOTE_SESSION_LOCKED \<and> err_data e = Some (locked_data (map_of (leases b) s))
    \<and> prompt h rnd saved b c s text content = Inl (TRemote e) \<and> cancel h b c s = Inl e
    \<and> fork host_fork b c s boundary atSeq = Inl e \<and> (ho_compaction h \<longrightarrow> compact h b c s = Inl e)"
proof -
  obtain e where e: "requireHolder b c s = Some e" "err_code e = REMOTE_SESSION_LOCKED"
    "err_data e = Some (locked_data (map_of (leases b) s))"
    using assms by (simp add: requireHolder_def)
  then show ?thesis
    by (intro exI[of _ e]) (simp add: prompt_def cancel_def fork_def compact_def controlled_agent_def)
qed

lemma releases_broadcast:
  assumes "steps (release_lease bad r) b ss = (b', out)" and "s \<in> set ss"
    and "cn \<in> set (attachedTo b s)" and "bad cn = None"
  shows "(cn, NControl s None r) \<in> set out"
  using assms
proof (induction ss arbitrary: b b' out)
  case (Cons t ss)
  obtain b1 o1 where r: "release_lease bad r b t = (b1, o1)" by force
  obtain b2 o2 where st: "steps (release_lease bad r) b1 ss = (b2, o2)" by force
  have a: "attachedTo b1 s = attachedTo b s"
    using r by (auto simp: release_lease_def attachedTo_def attached_of_def Let_def)
  show ?case
  proof (cases "s = t")
    case True
    then have "(cn, NControl s None r) \<in> set o1"
      using r Cons.prems(3,4) a by (auto simp: release_lease_def Let_def broadcastControl_def toAttached_def deliver_to_def)
    then show ?thesis using Cons.prems(1) r st by auto
  next
    case False
    then show ?thesis using Cons.IH[OF st] Cons.prems r st a by auto
  qed
qed simp


text \<open>
  A connection that goes away leaves nothing behind: it is no longer connected, attached to no
  session and controls none; the attachments and leases of all other clients are untouched; and the
  clients still attached to a session it controlled are told that control is free.
\<close>

theorem disconnect_releases_everything:
  assumes "steps broker_step SessionBroker evs = (b, out0)" and "disconnect bad b c = (b', out)"
  shows "map_of (connections b') d = (if d = c then None else map_of (connections b) d)
    \<and> attached_of b' s = filter (\<lambda>d. d \<noteq> c) (attached_of b s)
    \<and> map_of (leases b') s = (if holder_of b s = Some c then None else map_of (leases b) s)
    \<and> (holder_of b s = Some c \<longrightarrow>
        (\<forall>cn \<in> set (attachedTo b' s). bad cn = None \<longrightarrow> (cn, NControl s None Disconnected) \<in> set out))"
proof -
  have ok: "broker_ok b" by (rule reachable_ok[OF assms(1)])
  let ?ks = "map fst (attachments_of b c)"
  define b1 where "b1 = foldl (\<lambda>b s. dropAttachment b c s) b ?ks"
  define b2 where "b2 = b1\<lparr>connections := AList.delete c (connections b1)\<rparr>"
  define ss where "ss = map fst (filter (\<lambda>(s, x). holderId x = c) (leases b2))"
  have st: "steps (release_lease bad Disconnected) b2 ss = (b', out)"
    using assms(2) by (simp add: disconnect_def b1_def b2_def ss_def Let_def)
  have fi: "filter (\<lambda>d. d \<noteq> c) xs = xs" if "c \<notin> set xs" for xs :: "jstr list"
    using that by (induction xs) auto
  have "att b c s = None" if "s \<notin> set ?ks" using att_keys[of b c s] that by blast
  then have at: "attached_of b1 s = filter (\<lambda>d. d \<noteq> c) (attached_of b s)"
    using drops_attached[of b c ?ks s] okD(4)[OF ok, of c] fi
    by (auto simp: b1_def set_del_def simp del: set_map)
  have v: "attached_of b' = attached_of b2" "connections b' = connections b2"
    using releases_views[OF st, of UNIV] by blast+
  have a2: "attached_of b2 = attached_of b1" by (rule views_cong) (simp add: b2_def)
  have "(cn, NControl s None Disconnected) \<in> set out"
    if "holder_of b s = Some c" "cn \<in> set (attachedTo b' s)" "bad cn = None" for cn
  proof -
    have "leases b2 = leases b" by (simp add: b2_def b1_def drops_views)
    then have "s \<in> set ss" using that(1) by (force simp: ss_def holder_of_def dest: map_of_SomeD)
    moreover have "attachedTo b' s = attachedTo b2 s" using v by (simp add: attachedTo_def)
    ultimately show ?thesis using releases_broadcast[OF st] that by simp
  qed
  then show ?thesis
    using disconnect_views[OF ok assms(2)] at a2 v by simp
qed

text \<open>
  Attaching for writing grants control exactly when it is free, already the client's own, or
  taken by force; then the reply names the client as holder. Otherwise the attach fails with
  \<open>REMOTE_SESSION_LOCKED\<close> and the holder's data, the controller keeps the lease, and the client is not
  attached to the session afterwards (even if it was attached for reading before).
\<close>

theorem attach_write_outcome:
  assumes "steps broker_step SessionBroker evs = (b, out0)"
    and "map_of (connections b) c = Some cn" and "bad cn = None"
    and "ho_get h (at_sessionId params) = Some session" and "s = hs_id session"
    and "at_mode params = WriteMode"
    and "attach h bad now current buffered b c params extras = (b', out, r)"
  shows "if holder_of b s = None \<or> holder_of b s = Some c \<or> at_force params = Some True
    then r = Inr (attach_reply b' session extras) \<and> holder_of b' s = Some c \<and> c \<in> set (attached_of b' s)
    else (\<exists>x e. map_of (leases b) s = Some x \<and> r = Inl (TRemote e) \<and> err_code e = REMOTE_SESSION_LOCKED
      \<and> err_data e = Some (locked_data (Some x)) \<and> leases b' = leases b \<and> c \<notin> set (attached_of b' s))"
proof -
  have ok: "broker_ok b" by (rule reachable_ok[OF assms(1)])
  show ?thesis
  proof (cases rule: attach_cases[of h bad now current buffered b c params extras])
    case (3 cn' session' out1 b2 out2 err)
    let ?b = "trackAttachment (add_subscription b cn s) c s (br_nextSub b)"
    have ss: "cn' = cn" "session' = session" using 3 assms by simp_all
    have r: "b' = b2" "r = (case err of None \<Rightarrow> Inr (attach_reply b2 session extras) | Some e \<Rightarrow> Inl (TRemote e))"
      using 3(5) assms(7) ss by auto
    have ctl: "attach_control bad now ?b c s params = (b2, out2, err)" using 3(4) ss assms(5) by simp
    have l: "leases ?b = leases b" by (simp add: track_views add_subscription_def)
    then have hl: "holder_of ?b s = holder_of b s" by (simp add: holder_of_def)
    have at: "att ?b c s = Some (br_nextSub b)" "c \<in> set (attached_of ?b s)" by (simp_all add: track_views)
    show ?thesis
    proof (cases rule: acquireLease_cases[of bad now ?b c s "at_force params = Some True"])
      case 1
      then have "b2 = ?b" "err = None" using ctl assms(6) by (simp_all add: attach_control_def)
      then show ?thesis using 1(2) r hl at by simp
    next
      case (2 x)
      then have "b2 = dropAttachment ?b c s"
        "err = Some (RemoteError REMOTE_SESSION_LOCKED (locked_text s x) (Some (locked_data (Some x))) None)"
        using ctl assms(6) by (simp_all add: attach_control_def)
      then show ?thesis using 2(1-3) r l at by (simp add: holder_of_def drop_views)
    next
      case (3 b3 q)
      then have b2: "b2 = ?b\<lparr>leases := AList.update s \<lparr>holderId = c, attachedAt = now\<rparr> (leases ?b)\<rparr>" "err = None"
        using ctl assms(6) by (simp_all add: attach_control_def)
      then have "holder_of b2 s = Some c" "attached_of b2 = attached_of ?b"
        by (simp add: holder_of_def, intro views_cong, simp add: b2)
      then show ?thesis using 3(3) r at b2 hl by auto
    qed
  qed (use assms in auto)
qed

text \<open>
  A client that attaches with a cursor is sent exactly the events of the session after the
  cursor, in log order and before anything else; without a cursor it is sent nothing. The reply
  carries the position of the end of the log.
\<close>

theorem attach_replays_missed_events:
  assumes "map_of (connections b) c = Some cn" and "bad cn = None"
    and "ho_get h (at_sessionId params) = Some session" and "at_mode params = ReadMode"
    and "attach h bad now (Some session) [] b c params extras = (b', out, r)"
  shows "out = (case at_sinceSeq params of None \<Rightarrow> []
      | Some q \<Rightarrow> map (\<lambda>e. (cn, NEvent (hs_id session) e)) (filter (\<lambda>e. we_seq e > q) (hs_events session)))
    \<and> r = Inr (attach_reply b' session extras) \<and> ar_lastSeq (attach_reply b' session extras) = hs_seq session - 1"
  using assms
  by (auto simp: attach_def requireConnection_def forward_all_def attach_control_def replay_def attach_reply_def
      Let_def split: option.splits)

text \<open>
  An event that the host commits while a client with a cursor attaches, after the subscription and
  before the session is read again, is sent to the client twice: once from the log and once from the
  live buffer, whose watermark is still the cursor.
\<close>

theorem attach_buffered_event_sent_twice:
  assumes "map_of (connections b) c = Some cn" and "bad cn = None"
    and "ho_get h (at_sessionId params) = Some session" and "at_mode params = ReadMode"
    and "at_sinceSeq params = Some q" and "distinct (hs_events current)" and "e \<in> set (hs_events current)"
    and "we_seq e > q"
    and "attach h bad now (Some current) [e] b c params extras = (b', out, r)"
  shows "count_list out (cn, NEvent (hs_id session) e) = 2"
proof -
  have "out = map (\<lambda>e. (cn, NEvent (hs_id session) e)) (filter (\<lambda>e. we_seq e > q) (hs_events current) @ [e])"
    using assms by (auto simp: attach_def requireConnection_def forward_all_def attach_control_def replay_def Let_def)
  moreover have "count_list (filter (\<lambda>e. we_seq e > q) (hs_events current)) e = 1"
    using assms(6-8) by (simp add: count_list_distinct)
  moreover have "count_list (map (\<lambda>e. (cn, NEvent (hs_id session) e)) xs) (cn, NEvent (hs_id session) e) = count_list xs e" for xs
    by (induction xs) auto
  ultimately show ?thesis by simp
qed

section \<open>Reading history backwards\<close>

text \<open>
  A client that reads a session's history from the end: one page, then the page before its first
  entry, for as long as there is more.
\<close>

fun read_back :: "nat \<Rightarrow> wire_event list \<Rightarrow> int option \<Rightarrow> int option \<Rightarrow> wire_event list" where
  "read_back 0 events before n = []"
| "read_back (Suc k) events before n =
     (let r = history_page events before n
      in (if hr_hasMore r then read_back k events (Some (he_seq (hd (hr_entries r)))) n else [])
        @ map he_event (hr_entries r))"

definition page_limit :: "int option \<Rightarrow> nat" where
  "page_limit n = nat (min (max 1 (case n of Some k \<Rightarrow> k | None \<Rightarrow> HISTORY_DEFAULT_MAX)) HISTORY_MAX)"

lemma page_limit_pos: "1 \<le> page_limit n \<and> page_limit n \<le> 1000"
  by (cases n) (auto simp: page_limit_def HISTORY_DEFAULT_MAX_def HISTORY_MAX_def)

lemma history_page_eq:
  assumes "el = (case before of None \<Rightarrow> events | Some q \<Rightarrow> filter (\<lambda>e. we_seq e < q) events)"
  shows "map he_event (hr_entries (history_page events before n)) = drop (length el - page_limit n) el"
    and "hr_hasMore (history_page events before n) \<longleftrightarrow> length el > page_limit n"
    and "map he_seq (hr_entries (history_page events before n)) = map we_seq (drop (length el - page_limit n) el)"
  by (simp_all add: history_page_def page_limit_def Let_def assms comp_def)

lemma sorted_filter_take:
  assumes "sorted_wrt (\<lambda>x y. we_seq x < we_seq y) es" and "k < length es"
  shows "filter (\<lambda>e. we_seq e < we_seq (es ! k)) es = take k es"
  using assms
proof (induction es arbitrary: k)
  case (Cons e es)
  show ?case
  proof (cases k)
    case 0
    then show ?thesis using Cons.prems by (auto simp: filter_empty_conv)
  next
    case (Suc j)
    then show ?thesis using Cons by auto
  qed
qed simp

text \<open>
  Reading a session's history backwards page by page yields the whole log, every event once and in
  order, with pages of at most 1000 entries, however large or small the requested page size is; the
  reader stops after at most as many pages as there are events.
\<close>

theorem history_pages_cover_log:
  assumes "sorted_wrt (\<lambda>x y. we_seq x < we_seq y) events" and "length events < k"
  shows "read_back k events None n = events
    \<and> length (hr_entries (history_page events before n)) \<le> page_limit n \<and> page_limit n \<le> 1000"
proof -
  have rd: "read_back k events before n = take m events"
    if "m \<le> length events" "m < k" "filter (\<lambda>e. case before of None \<Rightarrow> True | Some q \<Rightarrow> we_seq e < q) events = take m events"
    for m k before
    using that
  proof (induction k arbitrary: m before)
    case (Suc k)
    have el: "take m events = (case before of None \<Rightarrow> events | Some q \<Rightarrow> filter (\<lambda>e. we_seq e < q) events)"
      using Suc.prems(3) by (cases before) simp_all
    note p = history_page_eq[OF el, of n]
    have len: "length (take m events) = m" using Suc.prems(1) by simp
    let ?r = "history_page events before n"
    show ?case
    proof (cases "hr_hasMore ?r")
      case False
      then have "m \<le> page_limit n" using p(2) len Suc.prems(1) by simp linarith?
      then show ?thesis using p(1) len False by (simp add: Let_def)
    next
      case True
      define j where "j = m - page_limit n"
      have j: "j < m" "0 < j" using True p(2) len page_limit_pos[of n] Suc.prems(1) by (simp_all add: j_def)
      have ne: "drop j (take m events) \<noteq> []" using j len by simp
      have "he_seq (hd (hr_entries ?r)) = hd (map he_seq (hr_entries ?r))"
        using p(1) ne len by (intro hd_map[symmetric]) (auto simp: j_def)
      also have "\<dots> = we_seq (take m events ! j)"
        using p(3) ne len j by (simp add: j_def hd_map hd_drop_conv_nth)
      finally have hd: "he_seq (hd (hr_entries ?r)) = we_seq (events ! j)" using j by simp
      have "filter (\<lambda>e. we_seq e < we_seq (events ! j)) events = take j events"
        using sorted_filter_take[OF assms(1)] j Suc.prems(1) by simp
      then have "read_back k events (Some (he_seq (hd (hr_entries ?r)))) n = take j events"
        using Suc.IH[of j "Some (we_seq (events ! j))"] j Suc.prems(1,2) hd by simp
      moreover have "map he_event (hr_entries ?r) = drop j (take m events)" using p(1) len by (simp add: j_def)
      ultimately have "read_back (Suc k) events before n = take j (take m events) @ drop j (take m events)"
        using True j by (simp add: Let_def min_def)
      then show ?thesis by (simp only: append_take_drop_id)
    qed
  qed simp
  have "read_back k events None n = events" using rd[of "length events" k None] assms(2) by simp
  moreover have "length (hr_entries (history_page events before n)) \<le> page_limit n"
    using arg_cong[OF history_page_eq(1)[OF refl, of events before n], of length] by simp
  ultimately show ?thesis using page_limit_pos by simp
qed

subsection \<open>A sample run\<close>

definition sample_event :: "int \<Rightarrow> wire_event" where
  "sample_event n = \<lparr>we_type = js ''turn/start'', we_seq = n, we_time = 0, we_data = None, we_ignorable = False\<rparr>"

definition sample_session :: host_session where
  "sample_session = \<lparr>hs_id = js ''s'', hs_cwd = None, hs_createdAt = 0,
     hs_events = [sample_event 0, sample_event 1, sample_event 2], hs_seq = 3\<rparr>"

definition sample_host :: host where
  "sample_host = \<lparr>ho_sessions = [sample_session], ho_get = [js ''s'' \<mapsto> sample_session], ho_cold = None,
     ho_agent = [js ''s'' \<mapsto> AgentIdle], ho_create = True, ho_persistence = None, ho_compaction = True,
     ho_attachments = False\<rparr>"

definition alice :: conn where "alice = \<lparr>cn_clientId = js ''a'', cn_object = 1\<rparr>"
definition bob :: conn where "bob = \<lparr>cn_clientId = js ''b'', cn_object = 2\<rparr>"

definition sample_params :: "attach_mode \<Rightarrow> int option \<Rightarrow> attach_params" where
  "sample_params m q = \<lparr>at_sessionId = js ''s'', at_mode = m, at_force = None, at_sinceSeq = q\<rparr>"

text \<open>Two clients attach to one session, the first one for writing.\<close>

definition sample_events :: "(host \<times> failing \<times> broker_event) list" where
  "sample_events = map (\<lambda>e. (sample_host, \<lambda>_. None, e))
     [EConnect alice, EConnect bob,
      EAttach (js ''t'') None [] (js ''a'') (sample_params WriteMode None) None,
      EAttach (js ''t'') None [] (js ''b'') (sample_params ReadMode (Some 1)) None]"

definition sample_broker :: broker where
  "sample_broker = \<lparr>connections = [(js ''a'', alice), (js ''b'', bob)], attached = [(js ''s'', [js ''a'', js ''b''])],
     attachmentsByClient = [(js ''a'', [(js ''s'', 0)]), (js ''b'', [(js ''s'', 1)])],
     leases = [(js ''s'', \<lparr>holderId = js ''a'', attachedAt = js ''t''\<rparr>)], waitingApproval = [],
     br_subs = [(0, \<lparr>sb_conn = alice, sb_session = js ''s''\<rparr>), (1, \<lparr>sb_conn = bob, sb_session = js ''s''\<rparr>)],
     br_nextSub = 2, br_hostFeeds = True\<rparr>"

lemmas sample_defs = sample_events_def sample_broker_def alice_def bob_def sample_params_def sample_host_def
  sample_session_def sample_event_def

lemmas broker_eval = connect_def attach_def requireConnection_def forward_all_def replay_def add_subscription_def
  trackAttachment_def attachments_of_def attached_of_def set_add_def attach_control_def acquireLease_def
  broadcastControl_def toAttached_def deliver_to_def attachedTo_def attach_reply_def holder_of_def unsubscribe_def

lemma sample_run:
  "steps broker_step SessionBroker sample_events =
     (sample_broker, [(alice, NControl (js ''s'') (Some (js ''a'')) Acquired), (bob, NEvent (js ''s'') (sample_event 2))])"
  by (simp add: sample_defs broker_eval SessionBroker_def Let_def)

theorem broker_control_consistent_witness:
  "map_of (leases sample_broker) (js ''s'') = Some \<lparr>holderId = js ''a'', attachedAt = js ''t''\<rparr>
   \<and> js ''a'' \<in> set (attached_of sample_broker (js ''s''))
   \<and> map_option cn_clientId (writerOf sample_broker (js ''s'')) = Some (js ''a'')"
proof -
  have l: "map_of (leases sample_broker) (js ''s'') = Some \<lparr>holderId = js ''a'', attachedAt = js ''t''\<rparr>"
    by (simp add: sample_broker_def)
  then show ?thesis using broker_control_consistent[OF sample_run, of "js ''s''"] by simp
qed

theorem session_event_reaches_attached_once_witness:
  "mset (map (cn_clientId \<circ> fst) (onSessionEvent (\<lambda>_. None) sample_broker (js ''s'') (sample_event 3))) =
     {#js ''a'', js ''b''#}"
proof -
  have "attached_of sample_broker (js ''s'') = [js ''a'', js ''b'']"
    by (simp add: sample_broker_def attached_of_def)
  then show ?thesis using session_event_reaches_attached_once[OF sample_run, of "js ''s''" "sample_event 3"] by simp
qed

theorem control_required_witness:
  "\<exists>e. cancel sample_host sample_broker (js ''b'') (js ''s'') = Inl e \<and> err_code e = REMOTE_SESSION_LOCKED
     \<and> cancel sample_host sample_broker (js ''a'') (js ''s'') = Inr ()"
proof -
  have "holder_of sample_broker (js ''s'') \<noteq> Some (js ''b'')" by (simp add: sample_broker_def holder_of_def)
  note r = control_required[OF this, of sample_host "[]" "\<lambda>_ _ _. Inr JNull" "[]" None "\<lambda>_ _ _. Inr sample_session" None None]
  have "cancel sample_host sample_broker (js ''a'') (js ''s'') = Inr ()"
    by (simp add: cancel_def controlled_agent_def requireHolder_def sample_broker_def holder_of_def sample_host_def)
  then show ?thesis using r by blast
qed

theorem disconnect_releases_everything_witness:
  "\<exists>b' out. disconnect (\<lambda>_. None) sample_broker (js ''a'') = (b', out)
     \<and> attached_of b' (js ''s'') = [js ''b''] \<and> map_of (leases b') (js ''s'') = None
     \<and> (bob, NControl (js ''s'') None Disconnected) \<in> set out"
proof -
  obtain b' out where d: "disconnect (\<lambda>_. None) sample_broker (js ''a'') = (b', out)" by force
  note r = disconnect_releases_everything[OF sample_run d, where s = "js ''s''"]
  have h: "holder_of sample_broker (js ''s'') = Some (js ''a'')" by (simp add: sample_broker_def holder_of_def)
  have a: "attached_of b' (js ''s'') = [js ''b'']"
    using r by (simp add: sample_broker_def attached_of_def)
  have "map_of (connections b') (js ''b'') = Some bob" using r[of "js ''b''"] by (simp add: sample_broker_def)
  then have "bob \<in> set (attachedTo b' (js ''s''))" by (simp add: attachedTo_def a)
  then show ?thesis using r h a d by auto
qed

theorem attach_write_outcome_witness:
  "\<exists>e. snd (snd (attach sample_host (\<lambda>_. None) (js ''u'') None [] sample_broker (js ''b'')
      (sample_params WriteMode None) None)) = Inl (TRemote e) \<and> err_code e = REMOTE_SESSION_LOCKED
   \<and> js ''b'' \<in> set (attached_of sample_broker (js ''s''))
   \<and> js ''b'' \<notin> set (attached_of (fst (attach sample_host (\<lambda>_. None) (js ''u'') None [] sample_broker (js ''b'')
      (sample_params WriteMode None) None)) (js ''s''))"
proof -
  obtain b' out r where a: "attach sample_host (\<lambda>_. None) (js ''u'') None [] sample_broker (js ''b'')
      (sample_params WriteMode None) None = (b', out, r)" by (metis prod.exhaust)
  have b: "map_of (connections sample_broker) (js ''b'') = Some bob" "holder_of sample_broker (js ''s'') = Some (js ''a'')"
    "js ''b'' \<in> set (attached_of sample_broker (js ''s''))"
    by (simp_all add: sample_broker_def holder_of_def attached_of_def)
  have h: "ho_get sample_host (at_sessionId (sample_params WriteMode None)) = Some sample_session"
    "js ''s'' = hs_id sample_session" "at_mode (sample_params WriteMode None) = WriteMode"
    "at_force (sample_params WriteMode None) = None"
    by (simp_all add: sample_params_def sample_host_def sample_session_def)
  show ?thesis using attach_write_outcome[OF sample_run b(1) refl h(1-3) a] b h(4) unfolding a by auto
qed

theorem attach_replays_missed_events_witness:
  "fst (snd (attach sample_host (\<lambda>_. None) (js ''u'') (Some sample_session) [] sample_broker (js ''b'')
      (sample_params ReadMode (Some 0)) None)) =
   [(bob, NEvent (js ''s'') (sample_event 1)), (bob, NEvent (js ''s'') (sample_event 2))]"
proof -
  obtain b' out r where a: "attach sample_host (\<lambda>_. None) (js ''u'') (Some sample_session) [] sample_broker (js ''b'')
      (sample_params ReadMode (Some 0)) None = (b', out, r)" by (metis prod.exhaust)
  have b: "map_of (connections sample_broker) (js ''b'') = Some bob" by (simp add: sample_broker_def)
  have h: "ho_get sample_host (at_sessionId (sample_params ReadMode (Some 0))) = Some sample_session"
    "at_mode (sample_params ReadMode (Some 0)) = ReadMode"
    by (simp_all add: sample_params_def sample_host_def sample_session_def)
  show ?thesis using attach_replays_missed_events[OF b refl h a] unfolding a
    by (simp add: sample_params_def sample_session_def sample_event_def)
qed

theorem attach_buffered_event_sent_twice_witness:
  "count_list (fst (snd (attach sample_host (\<lambda>_. None) (js ''u'') (Some sample_session) [sample_event 2] sample_broker
      (js ''b'') (sample_params ReadMode (Some 0)) None))) (bob, NEvent (js ''s'') (sample_event 2)) = 2"
proof -
  obtain b' out r where a: "attach sample_host (\<lambda>_. None) (js ''u'') (Some sample_session) [sample_event 2]
      sample_broker (js ''b'') (sample_params ReadMode (Some 0)) None = (b', out, r)" by (metis prod.exhaust)
  have b: "map_of (connections sample_broker) (js ''b'') = Some bob" by (simp add: sample_broker_def)
  have h: "ho_get sample_host (at_sessionId (sample_params ReadMode (Some 0))) = Some sample_session"
    "at_mode (sample_params ReadMode (Some 0)) = ReadMode" "at_sinceSeq (sample_params ReadMode (Some 0)) = Some 0"
    "distinct (hs_events sample_session)" "sample_event 2 \<in> set (hs_events sample_session)" "0 < we_seq (sample_event 2)"
    "hs_id sample_session = js ''s''"
    by (simp_all add: sample_params_def sample_host_def sample_session_def sample_event_def)
  show ?thesis using attach_buffered_event_sent_twice[OF b refl h(1-6) a] h(7) unfolding a by simp
qed

theorem history_pages_cover_log_witness:
  "read_back 4 [sample_event 0, sample_event 1, sample_event 2] None (Some 2) =
     [sample_event 0, sample_event 1, sample_event 2]"
  using history_pages_cover_log[of "[sample_event 0, sample_event 1, sample_event 2]" 4 "Some 2" None]
  by (simp add: sample_event_def)

end
