(* ===== verification/Interaction.thy ===== *)
theory Interaction
  imports Broker
begin

text \<open>
  What the approval and the question bridge (\<^verbatim>\<open>remote-backend/src/approval.ts\<close> and
  \<^verbatim>\<open>question.ts\<close>) have in common: whom a request is sent to, who is told that it was settled, and
  the contract of a table of outstanding requests, each of which is answered once.
\<close>

text \<open>The writer alone when there is one, else everybody attached; everybody when no session is named.\<close>

definition interaction_targets :: "broker \<Rightarrow> jstr option \<Rightarrow> conn list" where
  "interaction_targets b sid =
     (case sid of
        None \<Rightarrow> allConnections b
      | Some s \<Rightarrow> (case writerOf b s of Some w \<Rightarrow> [w] | None \<Rightarrow> attachedTo b s))"

text \<open>\<open>new Set(targets.map((conn) => conn.clientId))\<close>\<close>

definition target_ids :: "conn list \<Rightarrow> jstr list" where
  "target_ids cs = fold (\<lambda>c. set_add (cn_clientId c)) cs []"

text \<open>The other targets that are still connected are told; delivery is best effort.\<close>

definition notify_losers :: "failing \<Rightarrow> broker \<Rightarrow> jstr list \<Rightarrow> jstr option \<Rightarrow> notification \<Rightarrow> sent" where
  "notify_losers bad b targets winner n =
     deliver_to bad
       (List.map_filter (\<lambda>c. if winner = Some c then None else find (\<lambda>cn. cn_clientId cn = c) (allConnections b)) targets)
       n"

lemma set_fold_set_add: "set (fold (\<lambda>c. set_add (f c)) cs acc) = f ` set cs \<union> set acc"
  by (induction cs arbitrary: acc) auto

lemma distinct_fold_set_add: "distinct acc \<Longrightarrow> distinct (fold (\<lambda>c. set_add (f c)) cs acc)"
  by (induction cs arbitrary: acc) auto

lemma set_target_ids [simp]: "set (target_ids cs) = cn_clientId ` set cs"
  by (simp add: target_ids_def set_fold_set_add)

lemma distinct_target_ids [simp]: "distinct (target_ids cs)"
  by (simp add: target_ids_def distinct_fold_set_add)

lemma target_ids_Nil [simp]: "target_ids cs = [] \<longleftrightarrow> cs = []"
  using set_target_ids[of cs] by (metis image_is_empty set_empty)

lemma set_map_filter_iff: "y \<in> set (List.map_filter f xs) \<longleftrightarrow> (\<exists>x \<in> set xs. f x = Some y)"
  by (force simp: map_filter_def)

lemma find_SomeD: "find P xs = Some x \<Longrightarrow> P x \<and> x \<in> set xs"
  by (auto simp: find_Some_iff)

lemma notify_losers_to:
  "(cn, n') \<in> set (notify_losers bad b ts w n) \<Longrightarrow> cn_clientId cn \<in> set ts \<and> w \<noteq> Some (cn_clientId cn)"
  by (auto simp: notify_losers_def deliver_to_def set_map_filter_iff split: if_splits dest!: find_SomeD)

text \<open>Every target of a new request is a connected client.\<close>

lemma targets_connected:
  assumes ok: "broker_ok b" and cn: "cn \<in> set (interaction_targets b sid)"
  shows "cn_clientId cn \<in> fst ` set (connections b)"
proof -
  have m: "map_of (connections b) c = Some cn' \<Longrightarrow> cn_clientId cn' \<in> fst ` set (connections b)" for c cn'
    using okD(8)[OF ok, of c cn'] by (metis map_of_eq_None_iff option.distinct(1))
  have "cn_clientId (snd p) \<in> fst ` set (connections b)" if "p \<in> set (connections b)" for p
    using okD(11)[OF ok that] that by (metis imageI)
  then show ?thesis using cn m
    by (auto simp: interaction_targets_def allConnections_def writerOf_def attachedTo_def map_filter_def
        split: option.splits bind_splits)
qed

section \<open>Association lists seen through a projection\<close>

lemma mset_delete_key:
  assumes "distinct (map fst m)" and "map_of m k = Some v"
  shows "add_mset (f v) (mset (map (f \<circ> snd) (AList.delete k m))) = mset (map (f \<circ> snd) m)"
  using assms
proof (induction m)
  case (Cons a m)
  then show ?case
  proof (cases "fst a = k")
    case True
    then have "AList.delete k m = m" using Cons.prems by (auto intro!: AList.delete_idem)
    then show ?thesis using True Cons.prems by (cases a) simp
  qed (cases a, simp)
qed simp

lemma update_same_projection:
  "map_of m k = Some v \<Longrightarrow> f v' = f v \<Longrightarrow> map (f \<circ> snd) (AList.update k v' m) = map (f \<circ> snd) m"
  "map_of m k = Some v \<Longrightarrow> map fst (AList.update k v' m) = map fst m"
  by (induction m) auto

lemma set_delete_iff: "p \<in> set (AList.delete k m) \<longleftrightarrow> fst p \<noteq> k \<and> p \<in> set m"
  by (auto simp: AList.delete_eq)

lemma delete_update_same: "AList.delete k (AList.update k v m) = AList.delete k m"
  by (induction m) auto

section \<open>Tables of outstanding requests\<close>

text \<open>
  What an operation keeps that opens no call: the table stays well formed, gains no id, and the calls
  that return are exactly those that are no longer open.
\<close>

definition retains :: "('s \<Rightarrow> bool) \<Rightarrow> ('s \<Rightarrow> jstr list) \<Rightarrow> ('s \<Rightarrow> nat list) \<Rightarrow> nat list \<Rightarrow> 's \<Rightarrow> 's \<Rightarrow> bool" where
  "retains wfs keys opn rs s s' \<longleftrightarrow>
     wfs s' \<and> set (keys s') \<subseteq> set (keys s) \<and> mset rs + mset (opn s') = mset (opn s)"

lemma retains_refl: "wfs s \<Longrightarrow> retains wfs keys opn [] s s"
  by (simp add: retains_def)

lemma retains_trans: "retains wfs keys opn r1 s s1 \<Longrightarrow> retains wfs keys opn r2 s1 s2 \<Longrightarrow> retains wfs keys opn (r1 @ r2) s s2"
proof -
  assume k1: "retains wfs keys opn r1 s s1" and k2: "retains wfs keys opn r2 s1 s2"
  have "mset (r1 @ r2) + mset (opn s2) = mset r1 + (mset r2 + mset (opn s2))" by (simp add: add.assoc)
  also have "\<dots> = mset (opn s)" using k1 k2 by (simp add: retains_def)
  finally show ?thesis using k1 k2 unfolding retains_def by (blast intro: subset_trans)
qed

text \<open>
  A component that is asked (\<open>ask\<close>: the id drawn and the call) and answers (\<open>ret\<close>): what was asked is
  answered or still open, each call once, as long as no id is drawn twice.
\<close>

definition ask_invariant :: "('s \<Rightarrow> bool) \<Rightarrow> ('s \<Rightarrow> bool) \<Rightarrow> ('s \<Rightarrow> jstr list) \<Rightarrow> ('s \<Rightarrow> nat list) \<Rightarrow> ('o list \<Rightarrow> nat list) \<Rightarrow>
    ('i \<Rightarrow> (jstr \<times> nat) option) \<Rightarrow> 's \<Rightarrow> 'i list \<Rightarrow> 'o list \<Rightarrow> bool" where
  "ask_invariant ok wfs keys opn ret ask s g h \<longleftrightarrow> ok s \<and> (distinct (map fst (List.map_filter ask g)) \<longrightarrow>
     wfs s \<and> set (keys s) \<subseteq> set (map fst (List.map_filter ask g))
     \<and> mset (ret h) + mset (opn s) = mset (map snd (List.map_filter ask g)))"

locale ask_table =
  fixes handle :: "'s \<Rightarrow> 'i \<Rightarrow> 's \<times> 'o list" and ok :: "'s \<Rightarrow> bool" and wfs :: "'s \<Rightarrow> bool"
    and keys :: "'s \<Rightarrow> jstr list" and opn :: "'s \<Rightarrow> nat list" and ret :: "'o list \<Rightarrow> nat list"
    and ask :: "'i \<Rightarrow> (jstr \<times> nat) option"
  assumes ret_append: "ret (xs @ ys) = ret xs @ ret ys"
    and ok_kept: "ok s \<Longrightarrow> handle s e = (s', out) \<Longrightarrow> ok s'"
    and quiet: "ask e = None \<Longrightarrow> ok s \<Longrightarrow> wfs s \<Longrightarrow> handle s e = (s', out) \<Longrightarrow> retains wfs keys opn (ret out) s s'"
    and asks: "ask e = Some (r, q) \<Longrightarrow> ok s \<Longrightarrow> wfs s \<Longrightarrow> r \<notin> set (keys s) \<Longrightarrow> handle s e = (s', out) \<Longrightarrow>
      wfs s' \<and> set (keys s') \<subseteq> insert r (set (keys s)) \<and> mset (ret out) + mset (opn s') = add_mset q (mset (opn s))"
begin

lemma ask_invariant_step:
  assumes i: "ask_invariant ok wfs keys opn ret ask s g h" and s: "handle s e = (s', out)"
  shows "ask_invariant ok wfs keys opn ret ask s' (g @ [e]) (h @ out)"
proof -
  have o1: "ok s" using i by (simp add: ask_invariant_def)
  show ?thesis
  proof (cases "ask e")
    case None
    then have e: "List.map_filter ask (g @ [e]) = List.map_filter ask g" by (simp add: map_filter_def)
    {
      assume "distinct (map fst (List.map_filter ask g))"
      then have k: "wfs s" "set (keys s) \<subseteq> set (map fst (List.map_filter ask g))"
        "mset (ret h) + mset (opn s) = mset (map snd (List.map_filter ask g))" using i by (simp_all add: ask_invariant_def)
      note q = quiet[OF None o1 k(1) s, unfolded retains_def]
      have "mset (ret (h @ out)) + mset (opn s') = mset (ret h) + (mset (ret out) + mset (opn s'))"
        by (simp add: ret_append add.assoc)
      then have "mset (ret (h @ out)) + mset (opn s') = mset (map snd (List.map_filter ask g))" using q k(3) by simp
      then have "wfs s' \<and> set (keys s') \<subseteq> set (map fst (List.map_filter ask g))
        \<and> mset (ret (h @ out)) + mset (opn s') = mset (map snd (List.map_filter ask g))" using q k(2) by blast
    }
    then show ?thesis using ok_kept[OF o1 s] unfolding ask_invariant_def e by blast
  next
    case (Some rq)
    then obtain r q where rq: "ask e = Some (r, q)" by (cases rq) auto
    then have e: "List.map_filter ask (g @ [e]) = List.map_filter ask g @ [(r, q)]" by (simp add: map_filter_def)
    {
      assume "distinct (map fst (List.map_filter ask g @ [(r, q)]))"
      then have d: "distinct (map fst (List.map_filter ask g))" "r \<notin> set (map fst (List.map_filter ask g))" by simp_all
      then have k: "wfs s" "set (keys s) \<subseteq> set (map fst (List.map_filter ask g))"
        "mset (ret h) + mset (opn s) = mset (map snd (List.map_filter ask g))" using i by (simp_all add: ask_invariant_def)
      then have "r \<notin> set (keys s)" using d(2) by blast
      note q = asks[OF rq o1 k(1) this s]
      have "mset (ret (h @ out)) + mset (opn s') = mset (ret h) + (mset (ret out) + mset (opn s'))"
        by (simp add: ret_append add.assoc)
      then have "mset (ret (h @ out)) + mset (opn s') = mset (map snd (List.map_filter ask g @ [(r, q)]))"
        using q k(3) by simp
      then have "wfs s' \<and> set (keys s') \<subseteq> set (map fst (List.map_filter ask g @ [(r, q)]))
        \<and> mset (ret (h @ out)) + mset (opn s') = mset (map snd (List.map_filter ask g @ [(r, q)]))"
        using q k(2) by auto
    }
    then show ?thesis using ok_kept[OF o1 s] unfolding ask_invariant_def e by blast
  qed
qed

end

sublocale ask_table \<subseteq> reactive handle "ask_invariant ok wfs keys opn ret ask"
  by unfold_locales (rule ask_invariant_step)

context ask_table begin

lemma answered_once:
  assumes "ok s" and "wfs s" and "keys s = []" and "opn s = []" and "ret [] = []"
    and "steps handle s es = (s', out)"
    and "distinct (map fst (List.map_filter ask es))" and "distinct (map snd (List.map_filter ask es))"
  shows "wfs s' \<and> distinct (ret out @ opn s')
    \<and> set (ret out) \<union> set (opn s') = set (map snd (List.map_filter ask es))"
proof -
  have "ask_invariant ok wfs keys opn ret ask s [] []" using assms(1-5) by (simp add: ask_invariant_def map_filter_def)
  from always[OF this assms(6)] have i: "ask_invariant ok wfs keys opn ret ask s' es out" by simp
  then have m: "mset (ret out @ opn s') = mset (map snd (List.map_filter ask es))" using assms(7)
    by (simp add: ask_invariant_def)
  then show ?thesis using i assms(7,8) mset_eq_imp_distinct_iff[OF m] mset_eq_setD[OF m] by (simp add: ask_invariant_def)
qed

end

end
