(* ===== verification/Approval.thy ===== *)
theory Approval
  imports Interaction
begin

text \<open>
  The approval bridge, \<^verbatim>\<open>remote-backend/src/approval.ts\<close>. It works on the broker, so its operations
  take and return both (\<open>broker \<times> approval\<close>). A request of the host is a numbered call; what the
  bridge returns for it (a decision, or the delegation to \<open>next()\<close>) is the effect \<open>AReturn\<close>. When a
  request is settled, the awaiting \<open>#handle\<close> continues in a microtask: \<open>ap_done\<close> holds the
  continuations that are due, run one at a time by \<open>AContinue\<close>.
\<close>

record host_decision =
  hd_decision :: decision
  hd_note :: "jstr option"

record approval_request =
  rq_sessionId :: "jstr option"
  rq_kind :: jstr
  rq_summary :: jstr
  rq_detail :: "json option"

record pending_request =
  pr_sessionId :: "jstr option"
  pr_targets :: "jstr list"
  pr_params :: approval_request_params
  pr_call :: nat

record approval =
  ap_failClosed :: bool
  ap_pending :: "(jstr \<times> pending_request) list"
  ap_hooked :: bool
  ap_done :: "(nat \<times> jstr option \<times> host_decision) list"

definition ApprovalBridge :: "bool option \<Rightarrow> approval" where
  "ApprovalBridge failClosed = \<lparr>ap_failClosed = (case failClosed of None \<Rightarrow> True | Some f \<Rightarrow> f),
     ap_pending = [], ap_hooked = True, ap_done = []\<rparr>"

text \<open>\<open>AReturn q None\<close> is the return of \<open>next()\<close>.\<close>

datatype approval_effect =
    ASend conn notification
  | AReturn nat "host_decision option"
  | AThrow remote_error

type_synonym approval_state = "broker \<times> approval"

definition a_sends :: "sent \<Rightarrow> approval_effect list" where
  "a_sends out = map (\<lambda>(c, n). ASend c n) out"

definition ap_settle :: "failing \<Rightarrow> approval_state \<Rightarrow> jstr \<Rightarrow> host_decision \<Rightarrow> jstr option \<Rightarrow>
    approval_state \<times> approval_effect list" where
  "ap_settle bad st r d winner =
     (case st of (b, a) \<Rightarrow>
       (case map_of (ap_pending a) r of
          None \<Rightarrow> (st, [])
        | Some p \<Rightarrow>
            ((b, a\<lparr>ap_pending := AList.delete r (ap_pending a),
                   ap_done := ap_done a @ [(pr_call p, pr_sessionId p, d)]\<rparr>),
             a_sends (notify_losers bad b (pr_targets p) winner
               (NApprovalClosed \<lparr>ac_requestId = r, ac_decision = hd_decision d, ac_winner = winner\<rparr>)))))"

definition ap_answer :: "failing \<Rightarrow> approval_state \<Rightarrow> jstr \<Rightarrow> approval_answer_params \<Rightarrow>
    approval_state \<times> approval_effect list" where
  "ap_answer bad st c params =
     (case map_of (ap_pending (snd st)) (aa_requestId params) of
        None \<Rightarrow> (st, [AThrow (rerr REMOTE_PROTOCOL_ERROR
          (js ''unknown or already-settled approval request \"'' @ aa_requestId params @ js ''\"''))])
      | Some p \<Rightarrow>
          if c \<notin> set (pr_targets p) then
            (st, [AThrow (rerr REMOTE_PROTOCOL_ERROR (js ''client \"'' @ c @
              js ''\" is not a target of approval request \"'' @ aa_requestId params @ js ''\"''))])
          else ap_settle bad st (aa_requestId params)
            \<lparr>hd_decision = aa_decision params, hd_note = aa_note params\<rparr> (Some c))"

text \<open>One pending request when client \<open>c\<close> goes away.\<close>

definition ap_drop_target :: "failing \<Rightarrow> jstr \<Rightarrow> approval_state \<Rightarrow> jstr \<Rightarrow> approval_state \<times> approval_effect list" where
  "ap_drop_target bad c st r =
     (case st of (b, a) \<Rightarrow>
       (case map_of (ap_pending a) r of
          None \<Rightarrow> (st, [])
        | Some p \<Rightarrow>
            if c \<notin> set (pr_targets p) then (st, [])
            else
              (let p1 = p\<lparr>pr_targets := set_del c (pr_targets p)\<rparr>;
                   st1 = (b, a\<lparr>ap_pending := AList.update r p1 (ap_pending a)\<rparr>)
               in if pr_targets p1 = [] then
                    ap_settle bad st1 r \<lparr>hd_decision = Deny,
                      hd_note = Some (js ''frontend disconnected before answering'')\<rparr> None
                  else (st1, []))))"

definition ap_disconnect :: "failing \<Rightarrow> approval_state \<Rightarrow> jstr \<Rightarrow> approval_state \<times> approval_effect list" where
  "ap_disconnect bad st c = steps (ap_drop_target bad c) st (map fst (ap_pending (snd st)))"

definition ap_pendingForSession :: "approval \<Rightarrow> jstr \<Rightarrow> approval_request_params list" where
  "ap_pendingForSession a s =
     map (pr_params \<circ> snd) (filter (\<lambda>(r, p). pr_sessionId p = Some s) (ap_pending a))"

definition ap_handle :: "host \<Rightarrow> failing \<Rightarrow> bytes \<Rightarrow> nat \<Rightarrow> approval_request \<Rightarrow> approval_state \<Rightarrow>
    approval_state \<times> approval_effect list" where
  "ap_handle h bad rnd q request st =
     (case st of (b, a) \<Rightarrow>
       (let sid = rq_sessionId request; targets = interaction_targets b sid in
        if targets = [] then
          (st, [AReturn q (if ap_failClosed a
            then Some \<lparr>hd_decision = Deny, hd_note = Some (js ''unavailable: no frontend attached'')\<rparr> else None)])
        else
          (let r = js ''apr-'' @ hex rnd;
               params = \<lparr>aq_requestId = r, aq_sessionId = (case sid of None \<Rightarrow> [] | Some s \<Rightarrow> s),
                 aq_kind = rq_kind request, aq_summary = rq_summary request, aq_detail = rq_detail request\<rparr>;
               p = \<lparr>pr_sessionId = sid, pr_targets = target_ids targets, pr_params = params, pr_call = q\<rparr>;
               a1 = a\<lparr>ap_pending := AList.update r p (ap_pending a)\<rparr>;
               (b1, out) = (case sid of None \<Rightarrow> (b, []) | Some s \<Rightarrow> setWaitingApproval h bad b s True)
           in ((b1, a1), a_sends (out @ deliver_to bad targets (NApprovalRequest params))))))"

text \<open>The rest of \<open>#handle\<close> once its decision has arrived.\<close>

definition ap_continue :: "host \<Rightarrow> failing \<Rightarrow> approval_state \<Rightarrow> approval_state \<times> approval_effect list" where
  "ap_continue h bad st =
     (case st of (b, a) \<Rightarrow>
       (case ap_done a of
          [] \<Rightarrow> (st, [])
        | (q, sid, d) # rest \<Rightarrow>
            (let (b1, out) = (case sid of None \<Rightarrow> (b, []) | Some s \<Rightarrow> setWaitingApproval h bad b s False)
             in ((b1, a\<lparr>ap_done := rest\<rparr>), a_sends out @ [AReturn q (Some d)]))))"

datatype approval_event =
    AAsk bytes nat approval_request
  | AAnswer jstr approval_answer_params
  | AGone jstr
  | AContinue
  | ADispose
  | ABroker broker_event

text \<open>After \<open>dispose\<close> the host no longer calls the bridge.\<close>

fun approval_step :: "approval_state \<Rightarrow> host \<times> failing \<times> approval_event \<Rightarrow> approval_state \<times> approval_effect list" where
  "approval_step st (h, bad, AAsk rnd q request) =
     (if ap_hooked (snd st) then ap_handle h bad rnd q request st else (st, [AReturn q None]))"
| "approval_step st (h, bad, AAnswer c params) = ap_answer bad st c params"
| "approval_step st (h, bad, AGone c) = ap_disconnect bad st c"
| "approval_step st (h, bad, AContinue) = ap_continue h bad st"
| "approval_step st (h, bad, ADispose) = ((fst st, (snd st)\<lparr>ap_hooked := False\<rparr>), [])"
| "approval_step st (h, bad, ABroker e) =
     (case broker_step (fst st) (h, bad, e) of (b, out) \<Rightarrow> ((b, snd st), a_sends out))"

section \<open>Every request is answered once\<close>

definition ap_ask :: "host \<times> failing \<times> approval_event \<Rightarrow> (jstr \<times> nat) option" where
  "ap_ask = (\<lambda>(h, bad, e). case e of AAsk rnd q r \<Rightarrow> Some (js ''apr-'' @ hex rnd, q) | _ \<Rightarrow> None)"

definition ap_returned :: "approval_effect list \<Rightarrow> nat list" where
  "ap_returned = List.map_filter (\<lambda>e. case e of AReturn q d \<Rightarrow> Some q | _ \<Rightarrow> None)"

definition ap_open :: "approval_state \<Rightarrow> nat list" where
  "ap_open st = map fst (ap_done (snd st)) @ map (pr_call \<circ> snd) (ap_pending (snd st))"

lemma ap_returned_simps [simp]:
  "ap_returned [] = []"
  "ap_returned (AReturn q d # es) = q # ap_returned es"
  "ap_returned (ASend c n # es) = ap_returned es"
  "ap_returned (AThrow x # es) = ap_returned es"
  "ap_returned (es @ fs) = ap_returned es @ ap_returned fs"
  by (simp_all add: ap_returned_def map_filter_def)

lemma ap_returned_sends [simp]: "ap_returned (a_sends out) = []"
  by (induction out) (auto simp: a_sends_def)

text \<open>What an operation other than a new request keeps.\<close>

definition ap_wf :: "approval_state \<Rightarrow> bool" where
  "ap_wf st \<longleftrightarrow> distinct (map fst (ap_pending (snd st))) \<and> (\<forall>(r, p) \<in> set (ap_pending (snd st)). pr_targets p \<noteq> [])"

definition ap_keys :: "approval_state \<Rightarrow> jstr list" where
  "ap_keys st = map fst (ap_pending (snd st))"

definition ap_keep :: "approval_state \<Rightarrow> approval_state \<Rightarrow> approval_effect list \<Rightarrow> bool" where
  "ap_keep st st' out = retains ap_wf ap_keys ap_open (ap_returned out) st st'"

lemma ap_keep_iff: "ap_keep st st' out \<longleftrightarrow> ap_wf st' \<and> fst ` set (ap_pending (snd st')) \<subseteq> fst ` set (ap_pending (snd st))
     \<and> mset (ap_returned out) + mset (ap_open st') = mset (ap_open st)"
  by (simp add: ap_keep_def retains_def ap_keys_def)

lemma ap_keep_refl: "ap_wf st \<Longrightarrow> ap_returned out = [] \<Longrightarrow> snd st' = snd st \<Longrightarrow> ap_keep st st' out"
  by (simp add: ap_keep_iff ap_wf_def ap_open_def)

lemma ap_keep_trans: "ap_keep st st1 o1 \<Longrightarrow> ap_keep st1 st2 o2 \<Longrightarrow> ap_keep st st2 (o1 @ o2)"
  unfolding ap_keep_def ap_returned_simps(5) by (rule retains_trans)

lemma ap_keep_settle:
  assumes wf: "distinct (map fst (ap_pending a))" "\<forall>(r', p) \<in> set (ap_pending a). r' \<noteq> r \<longrightarrow> pr_targets p \<noteq> []"
    and s: "ap_settle bad (b, a) r d w = (st', out)" and k: "map_of (ap_pending a) r \<noteq> None"
  shows "ap_keep (b, a) st' out \<and> r \<notin> fst ` set (ap_pending (snd st')) \<and> fst st' = b"
proof -
  obtain p where p: "map_of (ap_pending a) r = Some p" using k by auto
  note m = mset_delete_key[OF wf(1) p, of pr_call]
  have "st' = (b, a\<lparr>ap_pending := AList.delete r (ap_pending a),
      ap_done := ap_done a @ [(pr_call p, pr_sessionId p, d)]\<rparr>)" "ap_returned out = []"
    using s p by (auto simp: ap_settle_def)
  then show ?thesis using wf(2) distinct_keys_delete[OF wf(1)] m
    by (auto simp: ap_keep_iff ap_wf_def ap_open_def set_delete_iff)
qed

lemma ap_keep_drop:
  assumes wf: "ap_wf st" and s: "ap_drop_target bad c st r = (st', out)"
  shows "ap_keep st st' out \<and> fst st' = fst st"
proof -
  obtain b a where st: "st = (b, a)" by force
  show ?thesis
  proof (cases "\<exists>p. map_of (ap_pending a) r = Some p \<and> c \<in> set (pr_targets p)")
    case False
    then have "st' = st" "out = []" using s st by (auto simp: ap_drop_target_def split: option.splits if_splits)
    then show ?thesis using wf ap_keep_refl by simp
  next
    case True
    then obtain p where p: "map_of (ap_pending a) r = Some p" "c \<in> set (pr_targets p)" by blast
    define p1 where "p1 = p\<lparr>pr_targets := set_del c (pr_targets p)\<rparr>"
    define a1 where "a1 = a\<lparr>ap_pending := AList.update r p1 (ap_pending a)\<rparr>"
    have keys: "map fst (ap_pending a1) = map fst (ap_pending a)"
      "map (pr_call \<circ> snd) (ap_pending a1) = map (pr_call \<circ> snd) (ap_pending a)"
      using update_same_projection(1)[OF p(1), of pr_call p1] update_same_projection(2)[OF p(1), of p1]
      by (simp_all add: a1_def p1_def)
    have d: "distinct (map fst (ap_pending a1))" using wf st keys by (simp add: ap_wf_def)
    have t: "\<forall>(r', q) \<in> set (ap_pending a1). r' \<noteq> r \<longrightarrow> pr_targets q \<noteq> []"
      using wf st by (auto simp: ap_wf_def a1_def dest: set_update_cases)
    have o1: "ap_open (b, a1) = ap_open (b, a)" using keys by (simp add: ap_open_def a1_def)
    have f1: "fst ` set (ap_pending a1) = fst ` set (ap_pending a)" using keys(1) by (metis set_map)
    show ?thesis
    proof (cases "pr_targets p1 = []")
      case True
      then have e: "ap_settle bad (b, a1) r \<lparr>hd_decision = Deny,
          hd_note = Some (js ''frontend disconnected before answering'')\<rparr> None = (st', out)"
        using s st p by (simp add: ap_drop_target_def p1_def a1_def Let_def)
      have "map_of (ap_pending a1) r \<noteq> None" by (simp add: a1_def)
      from ap_keep_settle[OF d t e this] show ?thesis using st o1 f1 by (auto simp: ap_keep_iff)
    next
      case False
      then have e: "st' = (b, a1)" "out = []"
        using s st p by (simp_all add: ap_drop_target_def p1_def a1_def Let_def)
      have "pr_targets q \<noteq> []" if "(r', q) \<in> set (ap_pending a1)" for r' q
        using t that False map_of_is_SomeI[OF d that] by (cases "r' = r") (auto simp: a1_def)
      then have "ap_wf (b, a1)" using d by (auto simp: ap_wf_def)
      then show ?thesis using e st o1 f1 by (simp add: ap_keep_iff)
    qed
  qed
qed

interpretation ap_drops: reactive "ap_drop_target bad c" "\<lambda>st _ out. ap_keep st0 st out \<and> fst st = fst st0"
proof unfold_locales
  fix s g h i s' out
  assume k: "ap_keep st0 s h \<and> fst s = fst st0" and d: "ap_drop_target bad c s i = (s', out)"
  then have "ap_wf s" by (simp add: ap_keep_iff)
  from ap_keep_drop[OF this d] k show "ap_keep st0 s' (h @ out) \<and> fst s' = fst st0"
    using ap_keep_trans by (metis)
qed

lemma ap_keep_disconnect:
  "ap_wf st \<Longrightarrow> ap_disconnect bad st c = (st', out) \<Longrightarrow> ap_keep st st' out \<and> fst st' = fst st"
  using ap_drops.always[where h = "[]" and s = st and ?st0.0 = st] ap_keep_refl[of st "[]" st]
  by (auto simp: ap_disconnect_def)

lemma ap_keep_answer:
  assumes "ap_wf st" and "ap_answer bad st c params = (st', out)"
  shows "ap_keep st st' out \<and> fst st' = fst st"
proof (cases "\<exists>p. map_of (ap_pending (snd st)) (aa_requestId params) = Some p \<and> c \<in> set (pr_targets p)")
  case True
  obtain b a where st: "st = (b, a)" by force
  have e: "ap_settle bad (b, a) (aa_requestId params) \<lparr>hd_decision = aa_decision params, hd_note = aa_note params\<rparr> (Some c)
      = (st', out)" using True assms(2) st by (auto simp: ap_answer_def)
  have "distinct (map fst (ap_pending a))" "\<forall>(r', p) \<in> set (ap_pending a). r' \<noteq> aa_requestId params \<longrightarrow> pr_targets p \<noteq> []"
    "map_of (ap_pending a) (aa_requestId params) \<noteq> None"
    using assms(1) True st by (auto simp: ap_wf_def)
  from ap_keep_settle[OF this(1,2) e this(3)] show ?thesis using st by simp
next
  case False
  then have "st' = st" "ap_returned out = []" using assms(2) by (auto simp: ap_answer_def split: option.splits if_splits)
  then show ?thesis using ap_keep_refl assms(1) by simp
qed

lemma ap_keep_continue:
  assumes "ap_wf st" and "ap_continue h bad st = (st', out)"
  shows "ap_keep st st' out \<and> (broker_ok (fst st) \<longrightarrow> broker_ok (fst st'))"
proof -
  obtain b a where st: "st = (b, a)" by force
  show ?thesis
  proof (cases "ap_done a")
    case Nil
    then show ?thesis using assms st ap_keep_refl[OF assms(1), of "[]" st] by (simp add: ap_continue_def)
  next
    case (Cons x rest)
    then obtain q sid d where x: "ap_done a = (q, sid, d) # rest" by (cases x) auto
    obtain b1 o1 where w: "(case sid of None \<Rightarrow> (b, []) | Some s \<Rightarrow> setWaitingApproval h bad b s False) = (b1, o1)" by force
    have "broker_ok b \<longrightarrow> broker_ok b1" using w ok_waiting[of b h bad] by (auto split: option.splits) (metis fst_conv)
    moreover have "st' = (b1, a\<lparr>ap_done := rest\<rparr>)" "out = a_sends o1 @ [AReturn q (Some d)]"
      using assms(2) st x w by (simp_all add: ap_continue_def)
    ultimately show ?thesis using assms(1) st x by (simp add: ap_keep_iff ap_wf_def ap_open_def)
  qed
qed


lemma ap_handle_cases:
  obtains d where "ap_handle h bad rnd q request st = (st, [AReturn q d])"
  | b1 a1 out p where "ap_handle h bad rnd q request st = ((b1, a1), a_sends out)"
      "a1 = (snd st)\<lparr>ap_pending := AList.update (js ''apr-'' @ hex rnd) p (ap_pending (snd st))\<rparr>"
      "pr_call p = q" "pr_targets p = target_ids (interaction_targets (fst st) (rq_sessionId request))"
      "pr_targets p \<noteq> []" "broker_ok (fst st) \<Longrightarrow> broker_ok b1"
proof -
  obtain b a where st: "st = (b, a)" by force
  let ?t = "interaction_targets b (rq_sessionId request)"
  show thesis
  proof (cases "?t = []")
    case True
    then show ?thesis using that(1) by (simp add: ap_handle_def st)
  next
    case False
    obtain b1 out where w: "(case rq_sessionId request of None \<Rightarrow> (b, []) | Some s \<Rightarrow> setWaitingApproval h bad b s True) = (b1, out)"
      by force
    have "broker_ok b \<Longrightarrow> broker_ok b1" using w ok_waiting[of b h bad] by (auto split: option.splits) (metis fst_conv)
    then show ?thesis using False w
      by (intro that(2)) (auto simp: ap_handle_def st Let_def)
  qed
qed

lemma ap_handle_opens:
  assumes wf: "ap_wf st" and r: "js ''apr-'' @ hex rnd \<notin> set (ap_keys st)"
    and s: "ap_handle h bad rnd q request st = (st', out)"
  shows "ap_wf st' \<and> set (ap_keys st') \<subseteq> insert (js ''apr-'' @ hex rnd) (set (ap_keys st))
    \<and> mset (ap_returned out) + mset (ap_open st') = add_mset q (mset (ap_open st))"
proof (cases rule: ap_handle_cases[of h bad rnd q request st])
  case (1 d)
  then show ?thesis using wf s by auto
next
  case (2 b1 a1 o1 p)
  have st': "st' = (b1, a1)" "out = a_sends o1" using 2(1) s by simp_all
  have "ap_pending a1 = ap_pending (snd st) @ [(js ''apr-'' @ hex rnd, p)]"
    using r 2(2) update_fresh[of "js ''apr-'' @ hex rnd" "ap_pending (snd st)" p] by (simp add: ap_keys_def)
  then show ?thesis using r wf 2(2,3,5) by (auto simp: st' ap_wf_def ap_open_def ap_keys_def)
qed

lemma ap_handle_ok: "broker_ok (fst st) \<Longrightarrow> broker_ok (fst (fst (ap_handle h bad rnd q request st)))"
  by (cases rule: ap_handle_cases[of h bad rnd q request st]) auto

lemma ap_settle_fst: "fst (fst (ap_settle bad st r d w)) = fst st"
  by (cases st) (simp add: ap_settle_def split: option.split)

lemma ap_answer_fst: "fst (fst (ap_answer bad st c params)) = fst st"
  by (simp add: ap_answer_def ap_settle_fst split: option.split)

lemma ap_drop_fst: "fst (fst (ap_drop_target bad c st r)) = fst st"
  by (cases st) (simp add: ap_drop_target_def Let_def ap_settle_fst split: option.split)

lemma ap_disconnect_fst: "fst (fst (ap_disconnect bad st c)) = fst st"
proof -
  have "fst (fst (steps (ap_drop_target bad c) st rs)) = fst st" for rs
    by (induction rs arbitrary: st) (auto simp: case_prod_beta ap_drop_fst)
  then show ?thesis by (simp add: ap_disconnect_def)
qed

lemma ap_continue_ok:
  assumes ok: "broker_ok (fst st)"
  shows "broker_ok (fst (fst (ap_continue h bad st)))"
proof -
  obtain b a where st: "st = (b, a)" by force
  show ?thesis
  proof (cases "ap_done a")
    case Nil
    then show ?thesis using ok st by (simp add: ap_continue_def)
  next
    case (Cons x rest)
    then obtain q sid d where x: "ap_done a = (q, sid, d) # rest" by (cases x) auto
    obtain b1 o1 where w: "(case sid of None \<Rightarrow> (b, []) | Some s \<Rightarrow> setWaitingApproval h bad b s False) = (b1, o1)" by force
    have "broker_ok b1"
    proof (cases sid)
      case None then show ?thesis using w ok st by simp
    next
      case (Some s) then show ?thesis using w ok st ok_waiting[of b h bad s False] by simp
    qed
    then show ?thesis using st x w by (simp add: ap_continue_def)
  qed
qed

lemma approval_step_ok:
  assumes ok: "broker_ok (fst st)"
  shows "broker_ok (fst (fst (approval_step st e)))"
proof (cases e)
  case (fields h bad ev)
  show ?thesis
  proof (cases ev)
    case (ABroker be)
    obtain b o1 where b: "broker_step (fst st) (h, bad, be) = (b, o1)" by (meson surj_pair)
    then show ?thesis using fields ABroker ok_step[OF ok b] by simp
  qed (use ok fields in \<open>simp_all add: ap_handle_ok ap_continue_ok ap_answer_fst ap_disconnect_fst\<close>)
qed

lemma approval_step_keep:
  assumes n: "ap_ask e = None" and wf: "ap_wf st" and s: "approval_step st e = (st', out)"
  shows "ap_keep st st' out"
proof (cases e)
  case (fields h bad ev)
  show ?thesis
  proof (cases ev)
    case (AAsk rnd q r) then show ?thesis using n fields by (simp add: ap_ask_def)
  next
    case (AAnswer c params) then show ?thesis using s fields ap_keep_answer[OF wf] by simp
  next
    case (AGone c) then show ?thesis using s fields ap_keep_disconnect[OF wf] by simp
  next
    case AContinue then show ?thesis using s fields ap_keep_continue[OF wf] by simp
  next
    case ADispose
    then have "st' = (fst st, snd st\<lparr>ap_hooked := False\<rparr>)" "out = []" using s fields by auto
    then show ?thesis using wf by (simp add: ap_keep_iff ap_wf_def ap_open_def)
  next
    case (ABroker be)
    then show ?thesis using s fields ap_keep_refl[OF wf] by (auto split: prod.splits)
  qed
qed

interpretation approvals: ask_table approval_step "\<lambda>st. broker_ok (fst st)" ap_wf ap_keys ap_open ap_returned ap_ask
proof (unfold_locales, goal_cases)
  case (1 xs ys) show ?case by simp
next
  case (2 s e s' out) then show ?case using approval_step_ok[of s e] by simp
next
  case (3 e s s' out) then show ?case using approval_step_keep[of e s s' out] unfolding ap_keep_def by blast
next
  case (4 e r q s s' out)
  then obtain h bad rnd request where e: "e = (h, bad, AAsk rnd q request)" "r = js ''apr-'' @ hex rnd"
    by (cases e) (auto simp: ap_ask_def split: approval_event.splits)
  show ?case
  proof (cases "ap_hooked (snd s)")
    case True
    then show ?thesis using 4 e ap_handle_opens[OF 4(3), of rnd h bad q request s' out] by simp
  next
    case False
    then show ?thesis using 4 e by auto
  qed
qed

section \<open>Properties\<close>

text \<open>
  C17: Every approval request of the host is answered exactly once or still outstanding: through any
  sequence of requests, answers, disconnects and broker events, the calls that returned and the calls
  still open are the calls made, each once (as long as no two requests draw the same random id). So
  the first answer wins and no request is lost.
\<close>

theorem approval_answered_once:
  assumes "steps approval_step (SessionBroker, ApprovalBridge f) evs = (st, out)"
    and "distinct (map fst (List.map_filter ap_ask evs))" and "distinct (map snd (List.map_filter ap_ask evs))"
  shows "distinct (ap_returned out @ ap_open st)
    \<and> set (ap_returned out) \<union> set (ap_open st) = set (map snd (List.map_filter ap_ask evs))
    \<and> (\<forall>(r, p) \<in> set (ap_pending (snd st)). pr_targets p \<noteq> [])"
proof -
  have new: "broker_ok (fst (SessionBroker, ApprovalBridge f))" "ap_wf (SessionBroker, ApprovalBridge f)"
    "ap_keys (SessionBroker, ApprovalBridge f) = []" "ap_open (SessionBroker, ApprovalBridge f) = []" "ap_returned [] = []"
    by (simp_all add: ok_new ap_wf_def ap_keys_def ap_open_def ApprovalBridge_def)
  show ?thesis using approvals.answered_once[OF new assms] by (simp add: ap_wf_def)
qed

text \<open>
  A request is put to the controller of the session alone when there is one, else to everybody
  attached to it (to every connection when no session is named); when there is nobody it is denied on
  the spot, never left to the host's local handlers, unless the bridge was told not to fail closed.
\<close>

theorem approval_routing:
  "case rq_sessionId request of
      Some s \<Rightarrow> (case writerOf b s of
          Some w \<Rightarrow> \<exists>st' params out. ap_handle h bad rnd q request (b, a) =
            (st', a_sends out @ (if bad w = None then [ASend w (NApprovalRequest params)] else []))
        | None \<Rightarrow> if attachedTo b s = []
            then ap_handle h bad rnd q request (b, a) = ((b, a), [AReturn q (if ap_failClosed a
              then Some \<lparr>hd_decision = Deny, hd_note = Some (js ''unavailable: no frontend attached'')\<rparr> else None)])
            else \<exists>st' params out. ap_handle h bad rnd q request (b, a) = (st', a_sends out
              @ map (\<lambda>c. ASend c (NApprovalRequest params)) (filter (\<lambda>c. bad c = None) (attachedTo b s))))
    | None \<Rightarrow> allConnections b = [] \<or> (\<exists>st' params. ap_handle h bad rnd q request (b, a) =
        (st', map (\<lambda>c. ASend c (NApprovalRequest params)) (filter (\<lambda>c. bad c = None) (allConnections b))))"
  by (auto simp: ap_handle_def interaction_targets_def deliver_to_def a_sends_def Let_def split: option.split prod.split)

text \<open>
  The first answer settles the request: its decision is handed to the waiting call, the targets
  other than the one who answered are told, the request is gone, and any further answer to it, from
  whomever, is refused and changes nothing.
\<close>

theorem approval_first_answer_wins:
  assumes "map_of (ap_pending a) (aa_requestId params) = Some p" and "c \<in> set (pr_targets p)"
    and "ap_answer bad (b, a) c params = (st', out)" and "aa_requestId params2 = aa_requestId params"
  shows "ap_done (snd st') = ap_done a @ [(pr_call p, pr_sessionId p,
        \<lparr>hd_decision = aa_decision params, hd_note = aa_note params\<rparr>)]
    \<and> (\<forall>cn n. ASend cn n \<in> set out \<longrightarrow> cn_clientId cn \<noteq> c \<and> cn_clientId cn \<in> set (pr_targets p))
    \<and> (\<exists>e. ap_answer bad st' d params2 = (st', [AThrow e]))"
proof -
  have st': "st' = (b, a\<lparr>ap_pending := AList.delete (aa_requestId params) (ap_pending a),
      ap_done := ap_done a @ [(pr_call p, pr_sessionId p, \<lparr>hd_decision = aa_decision params, hd_note = aa_note params\<rparr>)]\<rparr>)"
    and out: "out = a_sends (notify_losers bad b (pr_targets p) (Some c)
      (NApprovalClosed \<lparr>ac_requestId = aa_requestId params, ac_decision = aa_decision params, ac_winner = Some c\<rparr>))"
    using assms(1-3) by (simp_all add: ap_answer_def ap_settle_def)
  have "cn_clientId cn \<noteq> c \<and> cn_clientId cn \<in> set (pr_targets p)" if "ASend cn n \<in> set out" for cn n
    using that unfolding out a_sends_def by (auto dest: notify_losers_to)
  then show ?thesis using assms(4) by (simp add: st' ap_answer_def delete_conv')
qed

text \<open>
  When an awaiting call continues, its session is no longer flagged as waiting for an approval,
  whatever else is outstanding: with two approvals open on one session, the first answer clears the
  flag that the second one still needs (\<open>list\<close> and \<open>compact\<close> then take the session for idle).
\<close>

theorem approval_flag_cleared_by_first:
  assumes "ap_done a = (q, Some s, d) # rest" and "distinct (waitingApproval b)"
  shows "s \<notin> set (waitingApproval (fst (fst (ap_continue h bad (b, a)))))
    \<and> ap_pending (snd (fst (ap_continue h bad (b, a)))) = ap_pending a"
  using assms by (auto simp: ap_continue_def setWaitingApproval_def Let_def case_prod_beta)

section \<open>An example\<close>

text \<open>Two clients, no controller: both are asked, the answer of the second one wins.\<close>

definition ask_sample :: "(host \<times> failing \<times> approval_event) list" where
  "ask_sample = map (\<lambda>e. (sample_host, \<lambda>_. None, e))
     [ABroker (EConnect alice), ABroker (EConnect bob),
      AAsk [1] 7 \<lparr>rq_sessionId = None, rq_kind = js ''tool'', rq_summary = js ''run it'', rq_detail = None\<rparr>,
      AAnswer (js ''b'') \<lparr>aa_requestId = js ''apr-01'', aa_decision = Approve, aa_note = None\<rparr>, AContinue]"

theorem approval_answered_once_witness:
  "\<exists>st out. steps approval_step (SessionBroker, ApprovalBridge None) ask_sample = (st, out)
     \<and> ap_returned out = [7] \<and> 7 \<notin> set (ap_open st)"
proof -
  obtain st out where r: "steps approval_step (SessionBroker, ApprovalBridge None) ask_sample = (st, out)" by (meson surj_pair)
  have d: "distinct (map fst (List.map_filter ap_ask ask_sample))" "distinct (map snd (List.map_filter ap_ask ask_sample))"
    "map snd (List.map_filter ap_ask ask_sample) = [7]" by code_simp+
  have "ap_returned (snd (steps approval_step (SessionBroker, ApprovalBridge None) ask_sample)) = [7]" by code_simp
  then show ?thesis using approval_answered_once[OF r d(1,2)] d(3) r by auto
qed

theorem approval_first_answer_wins_witness:
  "\<exists>e st' out. ap_answer (\<lambda>_. None) (sample_broker, \<lparr>ap_failClosed = True,
      ap_pending = [(js ''r'', \<lparr>pr_sessionId = None, pr_targets = [js ''a'', js ''b''], 
          pr_params = \<lparr>aq_requestId = js ''r'', aq_sessionId = [], aq_kind = js ''tool'', aq_summary = [], aq_detail = None\<rparr>, pr_call = 7\<rparr>)],
      ap_hooked = True, ap_done = []\<rparr>) (js ''b'') \<lparr>aa_requestId = js ''r'', aa_decision = Approve, aa_note = None\<rparr> = (st', out)
    \<and> ap_answer (\<lambda>_. None) st' (js ''a'') \<lparr>aa_requestId = js ''r'', aa_decision = Deny, aa_note = None\<rparr> = (st', [AThrow e])"
  (is "\<exists>e st' out. ap_answer ?bad (?b, ?a) ?c ?p = _ \<and> ap_answer _ _ ?d ?p2 = _")
proof -
  obtain st' out where r: "ap_answer ?bad (?b, ?a) ?c ?p = (st', out)" by (meson surj_pair)
  show ?thesis using approval_first_answer_wins[OF _ _ r, of _ ?p2 ?d] r by simp
qed

text \<open>Two requests on one session, the first one answered.\<close>

definition flag_sample :: "(host \<times> failing \<times> approval_event) list" where
  "flag_sample = map (\<lambda>e. (sample_host, \<lambda>_. None, e))
     [ABroker (EConnect alice), ABroker (EAttach (js ''t'') None [] (js ''a'') (sample_params WriteMode None) None),
      AAsk [1] 7 \<lparr>rq_sessionId = Some (js ''s''), rq_kind = js ''tool'', rq_summary = js ''run it'', rq_detail = None\<rparr>,
      AAsk [2] 8 \<lparr>rq_sessionId = Some (js ''s''), rq_kind = js ''tool'', rq_summary = js ''and this'', rq_detail = None\<rparr>,
      AAnswer (js ''a'') \<lparr>aa_requestId = js ''apr-01'', aa_decision = Approve, aa_note = None\<rparr>]"

theorem approval_flag_cleared_by_first_witness:
  "\<exists>b a. fst (steps approval_step (SessionBroker, ApprovalBridge None) flag_sample) = (b, a)
     \<and> js ''s'' \<in> set (waitingApproval b)
     \<and> js ''s'' \<notin> set (waitingApproval (fst (fst (ap_continue sample_host (\<lambda>_. None) (b, a)))))
     \<and> ap_pendingForSession (snd (fst (ap_continue sample_host (\<lambda>_. None) (b, a)))) (js ''s'') \<noteq> []"
proof -
  obtain b a where r: "fst (steps approval_step (SessionBroker, ApprovalBridge None) flag_sample) = (b, a)" by (meson surj_pair)
  have "ap_done (snd (fst (steps approval_step (SessionBroker, ApprovalBridge None) flag_sample))) =
      (7, Some (js ''s''), \<lparr>hd_decision = Approve, hd_note = None\<rparr>) # []"
    "distinct (waitingApproval (fst (fst (steps approval_step (SessionBroker, ApprovalBridge None) flag_sample))))"
    "js ''s'' \<in> set (waitingApproval (fst (fst (steps approval_step (SessionBroker, ApprovalBridge None) flag_sample))))"
    "ap_pendingForSession (snd (fst (steps approval_step (SessionBroker, ApprovalBridge None) flag_sample))) (js ''s'') \<noteq> []"
    by code_simp+
  then show ?thesis
    using approval_flag_cleared_by_first[of a 7 "js ''s''" _ "[]" b sample_host "\<lambda>_. None"] r by (simp add: ap_pendingForSession_def)
qed

end
