(* ===== verification/Question.thy ===== *)
theory Question
  imports Interaction
begin

text \<open>
  The question bridge, \<^verbatim>\<open>remote-backend/src/question.ts\<close>, on the broker it reads (\<open>broker \<times> question\<close>).
  A call of the host's \<open>ask\<close> is numbered; its promise settles with \<open>QResolve\<close> or \<open>QReject\<close>. The abort
  signal of a request is its optional \<open>aborted\<close> flag at the call and at the second check; a later
  abort is the event \<open>QAbort\<close>.
\<close>

record question_request =
  qr_sessionId :: "jstr option"
  qr_summary :: "jstr option"
  qr_signal :: "(bool \<times> bool) option"
  qr_items :: "question_item list"

record pending_question =
  pq_sessionId :: "jstr option"
  pq_targets :: "jstr list"
  pq_params :: question_request_params
  pq_abort :: bool
  pq_call :: nat

record question =
  qs_pending :: "(jstr \<times> pending_question) list"
  qs_registered :: bool

definition QuestionBridge :: question where
  "QuestionBridge = \<lparr>qs_pending = [], qs_registered = True\<rparr>"

datatype question_effect =
    QSend conn notification
  | QResolve nat answers
  | QReject nat jstr
  | QThrow remote_error

type_synonym question_state = "broker \<times> question"

definition q_sends :: "sent \<Rightarrow> question_effect list" where
  "q_sends out = map (\<lambda>(c, n). QSend c n) out"

definition qs_settle :: "failing \<Rightarrow> question_state \<Rightarrow> jstr \<Rightarrow> answers \<Rightarrow> jstr option \<Rightarrow>
    question_state \<times> question_effect list" where
  "qs_settle bad st r ans winner =
     (case st of (b, q) \<Rightarrow>
       (case map_of (qs_pending q) r of
          None \<Rightarrow> (st, [])
        | Some p \<Rightarrow>
            ((b, q\<lparr>qs_pending := AList.delete r (qs_pending q)\<rparr>),
             q_sends (notify_losers bad b (pq_targets p) winner
               (NQuestionClosed \<lparr>qc_questionId = r, qc_answers = Some ans, qc_winner = winner\<rparr>))
             @ [QResolve (pq_call p) ans])))"

definition qs_withdraw :: "failing \<Rightarrow> question_state \<Rightarrow> jstr \<Rightarrow> jstr \<Rightarrow> question_state \<times> question_effect list" where
  "qs_withdraw bad st r err =
     (case st of (b, q) \<Rightarrow>
       (case map_of (qs_pending q) r of
          None \<Rightarrow> (st, [])
        | Some p \<Rightarrow>
            ((b, q\<lparr>qs_pending := AList.delete r (qs_pending q)\<rparr>),
             q_sends (notify_losers bad b (pq_targets p) None
               (NQuestionClosed \<lparr>qc_questionId = r, qc_answers = None, qc_winner = None\<rparr>))
             @ [QReject (pq_call p) err])))"

definition qs_dispose :: "failing \<Rightarrow> question_state \<Rightarrow> question_state \<times> question_effect list" where
  "qs_dispose bad st =
     (case st of (b, q) \<Rightarrow>
       steps (\<lambda>st r. qs_withdraw bad st r (js ''question provider disposed before answering''))
         (b, q\<lparr>qs_registered := False\<rparr>) (map fst (qs_pending q)))"

definition qs_answer :: "failing \<Rightarrow> question_state \<Rightarrow> jstr \<Rightarrow> question_answer_params \<Rightarrow>
    question_state \<times> question_effect list" where
  "qs_answer bad st c params =
     (case map_of (qs_pending (snd st)) (qa_questionId params) of
        None \<Rightarrow> (st, [QThrow (rerr REMOTE_PROTOCOL_ERROR
          (js ''unknown or already-settled question request \"'' @ qa_questionId params @ js ''\"''))])
      | Some p \<Rightarrow>
          if c \<notin> set (pq_targets p) then
            (st, [QThrow (rerr REMOTE_PROTOCOL_ERROR (js ''client \"'' @ c @
              js ''\" is not a target of question request \"'' @ qa_questionId params @ js ''\"''))])
          else qs_settle bad st (qa_questionId params) (qa_answers params) (Some c))"

definition qs_drop_target :: "failing \<Rightarrow> jstr \<Rightarrow> question_state \<Rightarrow> jstr \<Rightarrow> question_state \<times> question_effect list" where
  "qs_drop_target bad c st r =
     (case st of (b, q) \<Rightarrow>
       (case map_of (qs_pending q) r of
          None \<Rightarrow> (st, [])
        | Some p \<Rightarrow>
            if c \<notin> set (pq_targets p) then (st, [])
            else
              (let p1 = p\<lparr>pq_targets := set_del c (pq_targets p)\<rparr>;
                   st1 = (b, q\<lparr>qs_pending := AList.update r p1 (qs_pending q)\<rparr>)
               in if pq_targets p1 = []
                  then qs_withdraw bad st1 r (js ''frontend disconnected before answering'')
                  else (st1, []))))"

definition qs_disconnect :: "failing \<Rightarrow> question_state \<Rightarrow> jstr \<Rightarrow> question_state \<times> question_effect list" where
  "qs_disconnect bad st c = steps (qs_drop_target bad c) st (map fst (qs_pending (snd st)))"

definition qs_pendingForSession :: "question \<Rightarrow> jstr \<Rightarrow> question_request_params list" where
  "qs_pendingForSession q s =
     map (pq_params \<circ> snd) (filter (\<lambda>(r, p). pq_sessionId p = Some s) (qs_pending q))"

definition qs_abort :: "failing \<Rightarrow> question_state \<Rightarrow> jstr \<Rightarrow> question_state \<times> question_effect list" where
  "qs_abort bad st r =
     (case map_of (qs_pending (snd st)) r of
        None \<Rightarrow> (st, [])
      | Some p \<Rightarrow>
          if pq_abort p then qs_withdraw bad st r (js ''ask_user_question aborted before frontend answered'')
          else (st, []))"

definition qs_ask :: "failing \<Rightarrow> bytes \<Rightarrow> nat \<Rightarrow> question_request \<Rightarrow> question_state \<Rightarrow>
    question_state \<times> question_effect list" where
  "qs_ask bad rnd n request st =
     (case st of (b, q) \<Rightarrow>
       if (case qr_signal request of Some (True, _) \<Rightarrow> True | _ \<Rightarrow> False)
       then (st, [QReject n (js ''ask_user_question aborted before frontend answered'')])
       else
         (let sid = qr_sessionId request; targets = interaction_targets b sid in
          if targets = [] then (st, [QReject n (js ''unavailable: no frontend attached'')])
          else
            (let r = js ''qst-'' @ hex rnd;
                 params = \<lparr>qq_questionId = r, qq_sessionId = (case sid of None \<Rightarrow> [] | Some s \<Rightarrow> s),
                   qq_summary = qr_summary request, qq_items = qr_items request\<rparr>;
                 p = \<lparr>pq_sessionId = sid, pq_targets = target_ids targets, pq_params = params,
                   pq_abort = (qr_signal request \<noteq> None), pq_call = n\<rparr>;
                 st1 = (b, q\<lparr>qs_pending := AList.update r p (qs_pending q)\<rparr>)
             in if (case qr_signal request of Some (_, True) \<Rightarrow> True | _ \<Rightarrow> False) then qs_abort bad st1 r
                else (st1, q_sends (deliver_to bad targets (NQuestionRequest params))))))"

datatype question_event =
    QAsk bytes nat question_request
  | QAnswer jstr question_answer_params
  | QGone jstr
  | QAbort jstr
  | QDispose
  | QBroker broker_event

text \<open>
  A host stops calling \<open>ask\<close> of a provider that is no longer registered (\<open>qs_registered\<close>); the closure
  itself does not look.
\<close>

fun question_step :: "question_state \<Rightarrow> host \<times> failing \<times> question_event \<Rightarrow> question_state \<times> question_effect list" where
  "question_step st (h, bad, QAsk rnd n request) = qs_ask bad rnd n request st"
| "question_step st (h, bad, QAnswer c params) = qs_answer bad st c params"
| "question_step st (h, bad, QGone c) = qs_disconnect bad st c"
| "question_step st (h, bad, QAbort r) = qs_abort bad st r"
| "question_step st (h, bad, QDispose) = qs_dispose bad st"
| "question_step st (h, bad, QBroker e) =
     (case broker_step (fst st) (h, bad, e) of (b, out) \<Rightarrow> ((b, snd st), q_sends out))"

section \<open>Every question is answered or withdrawn once\<close>

definition qs_ask_of :: "host \<times> failing \<times> question_event \<Rightarrow> (jstr \<times> nat) option" where
  "qs_ask_of = (\<lambda>(h, bad, e). case e of QAsk rnd n r \<Rightarrow> Some (js ''qst-'' @ hex rnd, n) | _ \<Rightarrow> None)"

definition qs_settled :: "question_effect list \<Rightarrow> nat list" where
  "qs_settled = List.map_filter (\<lambda>e. case e of QResolve n a \<Rightarrow> Some n | QReject n m \<Rightarrow> Some n | _ \<Rightarrow> None)"

definition qs_open :: "question_state \<Rightarrow> nat list" where
  "qs_open st = map (pq_call \<circ> snd) (qs_pending (snd st))"

lemma qs_settled_simps [simp]:
  "qs_settled [] = []"
  "qs_settled (QResolve n a # es) = n # qs_settled es"
  "qs_settled (QReject n m # es) = n # qs_settled es"
  "qs_settled (QSend c x # es) = qs_settled es"
  "qs_settled (QThrow y # es) = qs_settled es"
  "qs_settled (es @ fs) = qs_settled es @ qs_settled fs"
  by (simp_all add: qs_settled_def map_filter_def)

lemma qs_settled_sends [simp]: "qs_settled (q_sends out) = []"
  by (induction out) (auto simp: q_sends_def)

definition qs_wf :: "question_state \<Rightarrow> bool" where
  "qs_wf st \<longleftrightarrow> distinct (map fst (qs_pending (snd st))) \<and> (\<forall>(r, p) \<in> set (qs_pending (snd st)). pq_targets p \<noteq> [])"

definition qs_keys :: "question_state \<Rightarrow> jstr list" where
  "qs_keys st = map fst (qs_pending (snd st))"

definition qs_keep :: "question_state \<Rightarrow> question_state \<Rightarrow> question_effect list \<Rightarrow> bool" where
  "qs_keep st st' out = retains qs_wf qs_keys qs_open (qs_settled out) st st'"

lemma qs_keep_iff: "qs_keep st st' out \<longleftrightarrow> qs_wf st' \<and> fst ` set (qs_pending (snd st')) \<subseteq> fst ` set (qs_pending (snd st))
     \<and> mset (qs_settled out) + mset (qs_open st') = mset (qs_open st)"
  by (simp add: qs_keep_def retains_def qs_keys_def)

lemma qs_keep_refl: "qs_wf st \<Longrightarrow> qs_settled out = [] \<Longrightarrow> snd st' = snd st \<Longrightarrow> qs_keep st st' out"
  by (simp add: qs_keep_iff qs_wf_def qs_open_def)

lemma qs_keep_trans: "qs_keep st st1 o1 \<Longrightarrow> qs_keep st1 st2 o2 \<Longrightarrow> qs_keep st st2 (o1 @ o2)"
  unfolding qs_keep_def qs_settled_simps(6) by (rule retains_trans)

lemma qs_keep_withdraw:
  assumes wf: "distinct (map fst (qs_pending a))" "\<forall>(r', p) \<in> set (qs_pending a). r' \<noteq> r \<longrightarrow> pq_targets p \<noteq> []"
    and s: "qs_withdraw bad (b, a) r e = (st', out)" and k: "map_of (qs_pending a) r \<noteq> None"
  shows "qs_keep (b, a) st' out \<and> fst st' = b"
proof -
  obtain p where p: "map_of (qs_pending a) r = Some p" using k by auto
  note m = mset_delete_key[OF wf(1) p, of pq_call]
  have "st' = (b, a\<lparr>qs_pending := AList.delete r (qs_pending a)\<rparr>)" "qs_settled out = [pq_call p]"
    using s p by (auto simp: qs_withdraw_def)
  then show ?thesis using wf(2) distinct_keys_delete[OF wf(1)] m
    by (auto simp: qs_keep_iff qs_wf_def qs_open_def set_delete_iff)
qed

lemma qs_keep_settle:
  assumes wf: "qs_wf (b, a)" and s: "qs_settle bad (b, a) r ans w = (st', out)"
  shows "qs_keep (b, a) st' out \<and> fst st' = b"
proof (cases "map_of (qs_pending a) r")
  case None
  then show ?thesis using s qs_keep_refl[OF wf] by (auto simp: qs_settle_def)
next
  case (Some p)
  have d: "distinct (map fst (qs_pending a))" using wf by (simp add: qs_wf_def)
  note m = mset_delete_key[OF d Some, of pq_call]
  have "st' = (b, a\<lparr>qs_pending := AList.delete r (qs_pending a)\<rparr>)" "qs_settled out = [pq_call p]"
    using s Some by (auto simp: qs_settle_def)
  then show ?thesis using wf distinct_keys_delete[OF d] m
    by (auto simp: qs_keep_iff qs_wf_def qs_open_def set_delete_iff)
qed

lemma qs_keep_withdraw_any:
  assumes "qs_wf st" and "qs_withdraw bad st r e = (st', out)"
  shows "qs_keep st st' out \<and> fst st' = fst st"
proof (cases "map_of (qs_pending (snd st)) r")
  case None
  then show ?thesis using assms qs_keep_refl by (cases st) (auto simp: qs_withdraw_def)
next
  case (Some p)
  then show ?thesis using assms qs_keep_withdraw[of "snd st" r bad "fst st" e st' out]
    by (auto simp: qs_wf_def)
qed

interpretation qs_withdrawals: reactive "\<lambda>st r. qs_withdraw bad st r e" "\<lambda>st _ out. qs_keep st0 st out \<and> fst st = fst st0"
proof unfold_locales
  fix s g h i s' out
  assume k: "qs_keep st0 s h \<and> fst s = fst st0" and d: "qs_withdraw bad s i e = (s', out)"
  then have "qs_wf s" by (simp add: qs_keep_iff)
  from qs_keep_withdraw_any[OF this d] k show "qs_keep st0 s' (h @ out) \<and> fst s' = fst st0"
    using qs_keep_trans by metis
qed

lemma qs_keep_drop:
  assumes wf: "qs_wf st" and s: "qs_drop_target bad c st r = (st', out)"
  shows "qs_keep st st' out \<and> fst st' = fst st"
proof -
  obtain b a where st: "st = (b, a)" by force
  show ?thesis
  proof (cases "\<exists>p. map_of (qs_pending a) r = Some p \<and> c \<in> set (pq_targets p)")
    case False
    then have "st' = st" "out = []" using s st by (auto simp: qs_drop_target_def split: option.splits if_splits)
    then show ?thesis using wf qs_keep_refl by simp
  next
    case True
    then obtain p where p: "map_of (qs_pending a) r = Some p" "c \<in> set (pq_targets p)" by blast
    define p1 where "p1 = p\<lparr>pq_targets := set_del c (pq_targets p)\<rparr>"
    define a1 where "a1 = a\<lparr>qs_pending := AList.update r p1 (qs_pending a)\<rparr>"
    have keys: "map fst (qs_pending a1) = map fst (qs_pending a)"
      "map (pq_call \<circ> snd) (qs_pending a1) = map (pq_call \<circ> snd) (qs_pending a)"
      using update_same_projection(1)[OF p(1), of pq_call p1] update_same_projection(2)[OF p(1), of p1]
      by (simp_all add: a1_def p1_def)
    have d: "distinct (map fst (qs_pending a1))" using wf st keys by (simp add: qs_wf_def)
    have t: "\<forall>(r', q) \<in> set (qs_pending a1). r' \<noteq> r \<longrightarrow> pq_targets q \<noteq> []"
      using wf st by (auto simp: qs_wf_def a1_def dest: set_update_cases)
    have o1: "qs_open (b, a1) = qs_open (b, a)" using keys by (simp add: qs_open_def a1_def)
    have f1: "fst ` set (qs_pending a1) = fst ` set (qs_pending a)" using keys(1) by (metis set_map)
    show ?thesis
    proof (cases "pq_targets p1 = []")
      case True
      then have e: "qs_withdraw bad (b, a1) r (js ''frontend disconnected before answering'') = (st', out)"
        using s st p by (simp add: qs_drop_target_def p1_def a1_def Let_def)
      have "map_of (qs_pending a1) r \<noteq> None" by (simp add: a1_def)
      from qs_keep_withdraw[OF d t e this] show ?thesis using st o1 f1 by (auto simp: qs_keep_iff)
    next
      case False
      then have e: "st' = (b, a1)" "out = []"
        using s st p by (simp_all add: qs_drop_target_def p1_def a1_def Let_def)
      have "pq_targets q \<noteq> []" if "(r', q) \<in> set (qs_pending a1)" for r' q
        using t that False map_of_is_SomeI[OF d that] by (cases "r' = r") (auto simp: a1_def)
      then have "qs_wf (b, a1)" using d by (auto simp: qs_wf_def)
      then show ?thesis using e st o1 f1 by (simp add: qs_keep_iff)
    qed
  qed
qed

interpretation qs_drops: reactive "qs_drop_target bad c" "\<lambda>st _ out. qs_keep st0 st out \<and> fst st = fst st0"
proof unfold_locales
  fix s g h i s' out
  assume k: "qs_keep st0 s h \<and> fst s = fst st0" and d: "qs_drop_target bad c s i = (s', out)"
  then have "qs_wf s" by (simp add: qs_keep_iff)
  from qs_keep_drop[OF this d] k show "qs_keep st0 s' (h @ out) \<and> fst s' = fst st0"
    using qs_keep_trans by (metis)
qed

lemma qs_keep_disconnect:
  "qs_wf st \<Longrightarrow> qs_disconnect bad st c = (st', out) \<Longrightarrow> qs_keep st st' out \<and> fst st' = fst st"
  using qs_drops.always[where h = "[]" and s = st and ?st0.0 = st] qs_keep_refl[of st "[]" st]
  by (auto simp: qs_disconnect_def)

lemma qs_keep_answer:
  assumes "qs_wf st" and "qs_answer bad st c params = (st', out)"
  shows "qs_keep st st' out \<and> fst st' = fst st"
proof (cases "\<exists>p. map_of (qs_pending (snd st)) (qa_questionId params) = Some p \<and> c \<in> set (pq_targets p)")
  case True
  obtain b a where st: "st = (b, a)" by force
  have e: "qs_settle bad (b, a) (qa_questionId params) (qa_answers params) (Some c) = (st', out)"
    using True assms(2) st by (auto simp: qs_answer_def)
  from qs_keep_settle[OF _ e] show ?thesis using assms(1) st by simp
next
  case False
  then have "st' = st" "qs_settled out = []" using assms(2) by (auto simp: qs_answer_def split: option.splits if_splits)
  then show ?thesis using qs_keep_refl assms(1) by simp
qed

lemma qs_keep_abort: "qs_wf st \<Longrightarrow> qs_abort bad st r = (st', out) \<Longrightarrow> qs_keep st st' out \<and> fst st' = fst st"
  using qs_keep_withdraw_any[of st bad r _ st' out] qs_keep_refl[of st "[]" st]
  by (auto simp: qs_abort_def split: option.splits if_splits)

lemma qs_keep_dispose:
  assumes wf: "qs_wf st" and s: "qs_dispose bad st = (st', out)"
  shows "qs_keep st st' out \<and> fst st' = fst st"
proof -
  obtain b a where st: "st = (b, a)" by force
  have k: "qs_keep st (b, a\<lparr>qs_registered := False\<rparr>) []" using wf st by (simp add: qs_keep_iff qs_wf_def qs_open_def)
  have "steps (\<lambda>st r. qs_withdraw bad st r (js ''question provider disposed before answering''))
      (b, a\<lparr>qs_registered := False\<rparr>) (map fst (qs_pending a)) = (st', out)" using s by (simp add: qs_dispose_def st)
  from qs_withdrawals.always[OF _ this, where ?st0.0 = st and h = "[]"] k show ?thesis by (simp add: st)
qed

lemma qs_ask_opens:
  assumes wf: "qs_wf st" and r: "js ''qst-'' @ hex rnd \<notin> set (qs_keys st)" and s: "qs_ask bad rnd n request st = (st', out)"
  shows "qs_wf st' \<and> set (qs_keys st') \<subseteq> insert (js ''qst-'' @ hex rnd) (set (qs_keys st))
    \<and> mset (qs_settled out) + mset (qs_open st') = add_mset n (mset (qs_open st)) \<and> fst st' = fst st"
proof -
  obtain b q where st: "st = (b, q)" by force
  let ?r = "js ''qst-'' @ hex rnd"
  let ?t = "interaction_targets b (qr_sessionId request)"
  show ?thesis
  proof (cases "(\<exists>x. qr_signal request = Some (True, x)) \<or> ?t = []")
    case True
    then have "st' = st" "qs_settled out = [n]"
      using s by (auto simp: qs_ask_def st Let_def split: option.splits prod.splits bool.splits if_splits)
    then show ?thesis using wf by auto
  next
    case False
    define p where "p = \<lparr>pq_sessionId = qr_sessionId request, pq_targets = target_ids ?t,
      pq_params = \<lparr>qq_questionId = ?r, qq_sessionId = (case qr_sessionId request of None \<Rightarrow> [] | Some s \<Rightarrow> s),
        qq_summary = qr_summary request, qq_items = qr_items request\<rparr>, pq_abort = (qr_signal request \<noteq> None), pq_call = n\<rparr>"
    define st1 where "st1 = (b, q\<lparr>qs_pending := AList.update ?r p (qs_pending q)\<rparr>)"
    have "AList.update ?r p (qs_pending q) = qs_pending q @ [(?r, p)]"
      using r update_fresh[of ?r "qs_pending q" p] by (simp add: qs_keys_def st)
    then have n: "qs_wf st1 \<and> qs_keys st1 = qs_keys st @ [?r] \<and> mset (qs_open st1) = add_mset n (mset (qs_open st))"
      using wf r False by (auto simp: st1_def st qs_wf_def qs_keys_def qs_open_def p_def)
    consider "qs_abort bad st1 ?r = (st', out)"
      | "st' = st1" "qs_settled out = []"
      using s False
      by (auto simp: qs_ask_def st st1_def p_def Let_def split: option.splits prod.splits bool.splits if_splits)
    then show ?thesis
    proof cases
      case 1
      from qs_keep_abort[OF _ this] n have "qs_keep st1 st' out" "fst st' = b" by (simp_all add: st1_def)
      then show ?thesis using n by (auto simp: qs_keep_def retains_def st)
    next
      case 2
      then show ?thesis using n by (simp add: st st1_def)
    qed
  qed
qed

lemma qs_settle_fst [simp]:
  "fst (fst (qs_settle bad st r ans w)) = fst st" "fst (fst (qs_withdraw bad st r e)) = fst st"
  by (cases st; simp add: qs_settle_def qs_withdraw_def split: option.split)+

lemma qs_steps_fst:
  assumes "\<And>st r. fst (fst (f st r)) = fst st"
  shows "fst (fst (steps f st rs)) = fst st"
  by (induction rs arbitrary: st) (auto simp: case_prod_beta assms)

lemma qs_ops_fst [simp]:
  "fst (fst (qs_answer bad st c params)) = fst st"
  "fst (fst (qs_abort bad st r)) = fst st"
  "fst (fst (qs_drop_target bad c st r)) = fst st"
  by (cases st; simp add: qs_answer_def qs_abort_def qs_drop_target_def Let_def split: option.split)+

lemma qs_loops_fst [simp]: "fst (fst (qs_disconnect bad st c)) = fst st" "fst (fst (qs_dispose bad st)) = fst st"
  by (cases st; simp add: qs_disconnect_def qs_dispose_def qs_steps_fst)+

lemma qs_ask_fst [simp]: "fst (fst (qs_ask bad rnd n request st)) = fst st"
  by (cases st) (simp add: qs_ask_def Let_def split: option.split prod.split bool.split)

lemma question_step_ok:
  assumes ok: "broker_ok (fst st)"
  shows "broker_ok (fst (fst (question_step st e)))"
proof (cases e)
  case (fields h bad ev)
  show ?thesis
  proof (cases ev)
    case (QBroker be)
    obtain b o1 where b: "broker_step (fst st) (h, bad, be) = (b, o1)" by (meson surj_pair)
    then show ?thesis using fields QBroker ok_step[OF ok b] by simp
  qed (use ok fields in simp_all)
qed

lemma question_step_keep:
  assumes n: "qs_ask_of e = None" and wf: "qs_wf st" and s: "question_step st e = (st', out)"
  shows "qs_keep st st' out"
proof (cases e)
  case (fields h bad ev)
  show ?thesis
  proof (cases ev)
    case (QAsk rnd q r) then show ?thesis using n fields by (simp add: qs_ask_of_def)
  next
    case (QAnswer c params) then show ?thesis using s fields qs_keep_answer[OF wf] by simp
  next
    case (QGone c) then show ?thesis using s fields qs_keep_disconnect[OF wf] by simp
  next
    case (QAbort r) then show ?thesis using s fields qs_keep_abort[OF wf] by simp
  next
    case QDispose then show ?thesis using s fields qs_keep_dispose[OF wf] by simp
  next
    case (QBroker be)
    then show ?thesis using s fields qs_keep_refl[OF wf] by (auto split: prod.splits)
  qed
qed

interpretation questions: ask_table question_step "\<lambda>st. broker_ok (fst st)" qs_wf qs_keys qs_open qs_settled qs_ask_of
proof (unfold_locales, goal_cases)
  case (1 xs ys) show ?case by simp
next
  case (2 s e s' out) then show ?case using question_step_ok[of s e] by simp
next
  case (3 e s s' out) then show ?case using question_step_keep[of e s s' out] unfolding qs_keep_def by blast
next
  case (4 e r q s s' out)
  then obtain h bad rnd request where e: "e = (h, bad, QAsk rnd q request)" "r = js ''qst-'' @ hex rnd"
    by (cases e) (auto simp: qs_ask_of_def split: question_event.splits)
  then show ?case using 4 qs_ask_opens[OF 4(3), of rnd bad q request s' out] by simp
qed

section \<open>Properties\<close>

text \<open>
  C18: Every question of the host is settled (answered, or withdrawn with an error) exactly once or
  still open: through any sequence of questions, answers, aborts, disconnects, the disposal of the
  bridge and broker events, the calls settled and the calls open are the calls made, each once (as
  long as no two questions draw the same random id). No open question is without a client to answer it.
\<close>

theorem question_settled_once:
  assumes "steps question_step (SessionBroker, QuestionBridge) evs = (st, out)"
    and "distinct (map fst (List.map_filter qs_ask_of evs))" and "distinct (map snd (List.map_filter qs_ask_of evs))"
  shows "distinct (qs_settled out @ qs_open st)
    \<and> set (qs_settled out) \<union> set (qs_open st) = set (map snd (List.map_filter qs_ask_of evs))
    \<and> (\<forall>(r, p) \<in> set (qs_pending (snd st)). pq_targets p \<noteq> [])"
proof -
  have new: "broker_ok (fst (SessionBroker, QuestionBridge))" "qs_wf (SessionBroker, QuestionBridge)"
    "qs_keys (SessionBroker, QuestionBridge) = []" "qs_open (SessionBroker, QuestionBridge) = []" "qs_settled [] = []"
    by (simp_all add: ok_new qs_wf_def qs_keys_def qs_open_def QuestionBridge_def)
  show ?thesis using questions.answered_once[OF new assms] by (simp add: qs_wf_def)
qed

lemma withdraw_steps:
  assumes "steps (\<lambda>st r. qs_withdraw bad st r e) (b, q) rs = (st', out)" and "distinct rs"
    and "\<forall>r \<in> set rs. map_of (qs_pending q) r \<noteq> None"
  shows "qs_pending (snd st') = filter (\<lambda>(r, p). r \<notin> set rs) (qs_pending q)
    \<and> filter (\<lambda>x. \<exists>n m. x = QReject n m) out = map (\<lambda>r. QReject (pq_call (the (map_of (qs_pending q) r))) e) rs"
  using assms
proof (induction rs arbitrary: q out)
  case Nil
  then show ?case by auto
next
  case (Cons r rs)
  then obtain p where p: "map_of (qs_pending q) r = Some p" by auto
  define q1 where "q1 = q\<lparr>qs_pending := AList.delete r (qs_pending q)\<rparr>"
  obtain o1 where w: "qs_withdraw bad (b, q) r e = ((b, q1), q_sends o1 @ [QReject (pq_call p) e])"
    using p by (simp add: qs_withdraw_def q1_def)
  obtain o2 where s: "steps (\<lambda>st r. qs_withdraw bad st r e) (b, q1) rs = (st', o2)"
    and o: "out = q_sends o1 @ QReject (pq_call p) e # o2"
    using Cons.prems(1) w by (auto split: prod.splits)
  have m: "map_of (qs_pending q1) r' = map_of (qs_pending q) r'" if "r' \<in> set rs" for r'
    using that Cons.prems(2) by (auto simp: q1_def delete_conv')
  have f: "filter (\<lambda>x. \<exists>n m. x = QReject n m) (q_sends o1) = []" by (auto simp: q_sends_def filter_empty_conv)
  from Cons.IH[OF s] Cons.prems(2,3) m
  have "qs_pending (snd st') = filter (\<lambda>(r, p). r \<notin> set rs) (qs_pending q1)"
    "filter (\<lambda>x. \<exists>n m. x = QReject n m) o2 = map (\<lambda>r. QReject (pq_call (the (map_of (qs_pending q) r))) e) rs"
    by (auto simp: m)
  then show ?case using p f by (auto simp: o q1_def AList.delete_eq intro!: filter_cong)
qed

text \<open>
  Disposing the bridge leaves no question open: every outstanding call is rejected with the
  disposal error, each once, in the order in which they were asked.
\<close>

theorem question_dispose_withdraws_all:
  assumes "distinct (map fst (qs_pending q))" and "qs_dispose bad (b, q) = (st', out)"
  shows "qs_pending (snd st') = [] \<and> filter (\<lambda>x. \<exists>n m. x = QReject n m) out =
    map (\<lambda>(r, p). QReject (pq_call p) (js ''question provider disposed before answering'')) (qs_pending q)"
proof -
  have "\<forall>r \<in> set (map fst (qs_pending q)). map_of (qs_pending q) r \<noteq> None" by (auto simp: map_of_eq_None_iff)
  with withdraw_steps[of bad _ b "q\<lparr>qs_registered := False\<rparr>" "map fst (qs_pending q)" st' out] assms
  have "qs_pending (snd st') = filter (\<lambda>(r, p). r \<notin> set (map fst (qs_pending q))) (qs_pending q)"
    "filter (\<lambda>x. \<exists>n m. x = QReject n m) out =
      map (\<lambda>r. QReject (pq_call (the (map_of (qs_pending q) r))) (js ''question provider disposed before answering''))
        (map fst (qs_pending q))"
    by (simp_all add: qs_dispose_def)
  moreover have "map_of (qs_pending q) (fst x) = Some (snd x)" if "x \<in> set (qs_pending q)" for x
    using map_of_is_SomeI[OF assms(1), of "fst x" "snd x"] that by simp
  ultimately show ?thesis by (force simp: filter_empty_conv case_prod_beta comp_def)
qed

section \<open>An example\<close>

definition question_sample :: "(host \<times> failing \<times> question_event) list" where
  "question_sample = map (\<lambda>e. (sample_host, \<lambda>_. None, e))
     [QBroker (EConnect alice),
      QAsk [1] 7 \<lparr>qr_sessionId = None, qr_summary = None, qr_signal = Some (False, False), qr_items = []\<rparr>,
      QAsk [2] 8 \<lparr>qr_sessionId = None, qr_summary = None, qr_signal = None, qr_items = []\<rparr>,
      QAsk [3] 9 \<lparr>qr_sessionId = Some (js ''s''), qr_summary = None, qr_signal = None, qr_items = []\<rparr>,
      QAbort (js ''qst-01'')]"

theorem question_settled_once_witness:
  "\<exists>st out. steps question_step (SessionBroker, QuestionBridge) question_sample = (st, out)
     \<and> qs_settled out = [9, 7] \<and> qs_open st = [8] \<and> distinct (qs_settled out @ qs_open st)"
proof -
  obtain st out where r: "steps question_step (SessionBroker, QuestionBridge) question_sample = (st, out)" by (meson surj_pair)
  have d: "distinct (map fst (List.map_filter qs_ask_of question_sample))"
    "distinct (map snd (List.map_filter qs_ask_of question_sample))" by code_simp+
  have "qs_settled (snd (steps question_step (SessionBroker, QuestionBridge) question_sample)) = [9, 7]"
    "qs_open (fst (steps question_step (SessionBroker, QuestionBridge) question_sample)) = [8]" by code_simp+
  then show ?thesis using question_settled_once[OF r d] r by auto
qed

theorem question_dispose_withdraws_all_witness:
  "\<exists>st' out. qs_dispose (\<lambda>_. None) (fst (steps question_step (SessionBroker, QuestionBridge) question_sample)) = (st', out)
     \<and> qs_pending (snd st') = []
     \<and> filter (\<lambda>x. \<exists>n m. x = QReject n m) out = [QReject 8 (js ''question provider disposed before answering'')]"
proof -
  obtain b q where r: "fst (steps question_step (SessionBroker, QuestionBridge) question_sample) = (b, q)" by (meson surj_pair)
  obtain st' out where s: "qs_dispose (\<lambda>_. None) (b, q) = (st', out)" by (meson surj_pair)
  have "distinct (map fst (qs_pending (snd (fst (steps question_step (SessionBroker, QuestionBridge) question_sample)))))"
    "map (pq_call \<circ> snd) (qs_pending (snd (fst (steps question_step (SessionBroker, QuestionBridge) question_sample)))) = [8]"
    by code_simp+
  then have d: "distinct (map fst (qs_pending q))" "map (pq_call \<circ> snd) (qs_pending q) = [8]" unfolding r by simp_all
  obtain x where x: "qs_pending q = [x]" "pq_call (snd x) = 8" using d(2) by auto
  show ?thesis using question_dispose_withdraws_all[OF d(1) s] s r x by (simp add: case_prod_beta)
qed

end
