(* ===== verification/FileTransfer.thy ===== *)
theory FileTransfer
  imports Protocol "HOL-Library.Multiset"
begin

text \<open>
  Bulk file transfers, \<^verbatim>\<open>remote-backend/src/transfer.ts\<close>: \<open>transfer.open\<close> reserves a channel number,
  the mux channel of that number is bound to it, and the upload writes a temporary file that replaces
  the target when it is complete.

  The file system maps a path, as the text the code uses, to what is there. Every call of \<open>node:fs\<close>
  can be refused by the system: \<open>io\<close> gives the error text of a call, if it fails. A write to a file
  handle reports how many bytes it wrote, which is the argument \<open>wrote\<close>.
\<close>

section \<open>Paths and files\<close>

datatype node = FileNode bytes | DirNode | OtherNode

type_synonym file_system = "jstr \<Rightarrow> node option"

text \<open>\<open>dirname\<close> of \<open>node:path\<close>: the index 0 is not looked at for a separator.\<close>

definition dirname :: "jstr \<Rightarrow> jstr" where
  "dirname p =
     (case p of
        [] \<Rightarrow> js ''.''
      | c # body \<Rightarrow>
          (let e = length (dropWhile (\<lambda>x. x \<noteq> 47) (dropWhile (\<lambda>x. x = 47) (rev body)))
           in if e = 0 then (if c = 47 then js ''/'' else js ''.'')
              else if c = 47 \<and> e = 1 then js ''//''
              else take e p))"

text \<open>\<open>mkdir\<close> with \<open>recursive: true\<close>: every missing directory on the way is made.\<close>

definition path_prefixes :: "jstr \<Rightarrow> jstr list" where
  "path_prefixes d = map (\<lambda>i. take i d) (filter (\<lambda>i. d ! i = 47) [1..<length d]) @ [d]"

definition mkdir_p :: "file_system \<Rightarrow> jstr \<Rightarrow> thrown + file_system" where
  "mkdir_p fs d =
     (if \<exists>p \<in> set (path_prefixes d). fs p \<notin> {None, Some DirNode}
      then Inl (TError (js ''EEXIST: file already exists, mkdir ''))
      else Inr (\<lambda>p. if p \<in> set (path_prefixes d) then Some DirNode else fs p))"

section \<open>Reserving a channel\<close>

definition FIRST_TRANSFER_CHANNEL :: nat where "FIRST_TRANSFER_CHANNEL = 1000"

datatype direction = Upload | Download

record transfer_open_params =
  to_direction :: direction
  to_remotePath :: jstr
  to_size :: "nat option"
  to_overwrite :: "bool option"

record transfer_manager =
  tm_pending :: "(nat \<times> transfer_open_params) list"
  tm_nextChannel :: nat

definition TransferManager :: transfer_manager where
  "TransferManager = \<lparr>tm_pending = [], tm_nextChannel = FIRST_TRANSFER_CHANNEL\<rparr>"

datatype file_op = OpStat | OpMkdir | OpOpen | OpWrite nat | OpSync | OpClose | OpRename | OpRm

type_synonym io_errors = "file_op \<Rightarrow> jstr option"

definition ENOENT :: jstr where "ENOENT = js ''ENOENT: no such file or directory''"

text \<open>\<open>stat\<close>: the error text, or what is there.\<close>

definition stat_of :: "io_errors \<Rightarrow> file_system \<Rightarrow> jstr \<Rightarrow> jstr + node" where
  "stat_of io fs p =
     (case io OpStat of
        Some e \<Rightarrow> Inl e
      | None \<Rightarrow> (case fs p of None \<Rightarrow> Inl ENOENT | Some n \<Rightarrow> Inr n))"

definition quoted :: "jstr \<Rightarrow> jstr" where
  "quoted s = js ''\"'' @ s @ js ''\"''"

definition is_file :: "node \<Rightarrow> bool" where
  "is_file n = (case n of FileNode _ \<Rightarrow> True | _ \<Rightarrow> False)"

text \<open>The checks of \<open>open\<close>; an upload makes the directory of its target.\<close>

definition check_open :: "io_errors \<Rightarrow> file_system \<Rightarrow> transfer_open_params \<Rightarrow> thrown + file_system" where
  "check_open io fs params =
     (let path = to_remotePath params in
      case to_direction params of
        Download \<Rightarrow>
          (case stat_of io fs path of
             Inl e \<Rightarrow> Inl (TRemote (rerr REMOTE_PROTOCOL_ERROR (js ''cannot stat '' @ quoted path @ js '': '' @ e)))
           | Inr n \<Rightarrow>
               if is_file n then Inr fs
               else Inl (TRemote (rerr REMOTE_PROTOCOL_ERROR (quoted path @ js '' is not a regular file''))))
      | Upload \<Rightarrow>
          (if \<not> isl (stat_of io fs path) \<and> to_overwrite params \<noteq> Some True then
             Inl (TRemote (rerr REMOTE_PROTOCOL_ERROR (quoted path @ js '' exists; pass overwrite: true to replace it'')))
           else (case io OpMkdir of Some e \<Rightarrow> Inl (TError e) | None \<Rightarrow> mkdir_p fs (dirname path))))"

definition transfer_open :: "io_errors \<Rightarrow> file_system \<Rightarrow> transfer_manager \<Rightarrow> transfer_open_params \<Rightarrow>
    file_system \<times> transfer_manager \<times> (thrown + nat)" where
  "transfer_open io fs tm params =
     (case check_open io fs params of
        Inl e \<Rightarrow> (fs, tm, Inl e)
      | Inr fs1 \<Rightarrow>
          (let c = tm_nextChannel tm
           in (fs1, tm\<lparr>tm_nextChannel := Suc c, tm_pending := AList.update c params (tm_pending tm)\<rparr>, Inr c)))"

text \<open>\<open>Some params\<close> is the start of the transfer in the background, \<open>None\<close> the return of \<open>false\<close>.\<close>

definition handleChannel :: "transfer_manager \<Rightarrow> nat \<Rightarrow> transfer_manager \<times> transfer_open_params option" where
  "handleChannel tm c =
     (case map_of (tm_pending tm) c of
        None \<Rightarrow> (tm, None)
      | Some params \<Rightarrow> (tm\<lparr>tm_pending := AList.delete c (tm_pending tm)\<rparr>, Some params))"

section \<open>Moving the bytes\<close>

datatype channel_op = ChWrite bytes | ChClose

text \<open>
  The chunks are what the read stream yields before it ends or fails; the failure is reported on the
  diagnostics hook.
\<close>

definition runDownload :: "jstr \<Rightarrow> bytes list \<Rightarrow> jstr option \<Rightarrow> channel_op list \<times> jstr list" where
  "runDownload path chunks failure =
     (map ChWrite chunks @ [ChClose],
      case failure of None \<Rightarrow> [] | Some e \<Rightarrow>
        [js ''transfer download of '' @ quoted path @ js '' failed mid-stream: '' @ e])"

definition temp_name :: "bytes \<Rightarrow> jstr \<Rightarrow> jstr" where
  "temp_name rnd path = dirname path @ js ''/.dsh-remote-upload-'' @ hex rnd @ js ''.part''"

text \<open>
  The loop over the channel: each chunk is written, of which the handle accepts \<open>wrote i\<close> bytes, and
  its whole length counted. Returns the content, the count and the error that stopped it.
\<close>

fun write_chunks :: "io_errors \<Rightarrow> (nat \<Rightarrow> nat) \<Rightarrow> nat \<Rightarrow> bytes \<Rightarrow> nat \<Rightarrow> bytes list \<Rightarrow> bytes \<times> nat \<times> jstr option" where
  "write_chunks io wrote i content written [] = (content, written, None)"
| "write_chunks io wrote i content written (c # cs) =
     (case io (OpWrite i) of
        Some e \<Rightarrow> (content, written, Some e)
      | None \<Rightarrow> write_chunks io wrote (Suc i) (content @ take (wrote i) c) (written + length c) cs)"

definition size_error :: "transfer_open_params \<Rightarrow> nat \<Rightarrow> jstr option" where
  "size_error params written =
     (case to_size params of
        None \<Rightarrow> None
      | Some n \<Rightarrow> if n = written then None
          else Some (js ''size mismatch: expected '' @ digits n @ js '' bytes, received '' @ digits written))"

text \<open>
  The body of the \<open>try\<close>: the file system when it is left, and the error, if one was thrown. The chunks
  are what the channel yields before it ends (\<open>None\<close>) or fails. The temporary file is opened with
  \<open>O_EXCL\<close>, in a directory; \<open>rename\<close> does not replace a directory.
\<close>

definition first_error :: "jstr option list \<Rightarrow> jstr option" where
  "first_error es = (case List.map_filter id es of [] \<Rightarrow> None | e # _ \<Rightarrow> Some e)"

definition upload_body :: "io_errors \<Rightarrow> (nat \<Rightarrow> nat) \<Rightarrow> file_system \<Rightarrow> jstr \<Rightarrow> transfer_open_params \<Rightarrow>
    bytes list \<Rightarrow> jstr option \<Rightarrow> file_system \<times> jstr option" where
  "upload_body io wrote fs tmp params chunks failure =
     (case first_error [io OpOpen, if fs tmp = None then None else Some (js ''EEXIST: file already exists, open ''),
        if fs (dirname (to_remotePath params)) = Some DirNode then None else Some ENOENT] of
        Some e \<Rightarrow> (fs, Some e)
      | None \<Rightarrow>
          (case write_chunks io wrote 0 [] 0 chunks of
             (content, written, e) \<Rightarrow>
               (let fs1 = fs(tmp \<mapsto> FileNode content);
                    synced = first_error [e, failure, io OpSync]
                in case first_error [io OpClose, synced, size_error params written, io OpRename,
                     if fs1 (to_remotePath params) = Some DirNode then Some (js ''EISDIR: illegal operation on a directory, rename '')
                     else None] of
                     Some x \<Rightarrow> (fs1, Some x)
                   | None \<Rightarrow> (fs1(tmp := None, to_remotePath params \<mapsto> FileNode content), None))))"

text \<open>The whole upload: on an error the temporary file is removed, if that works, and the error reported.\<close>

definition runUpload :: "io_errors \<Rightarrow> (nat \<Rightarrow> nat) \<Rightarrow> file_system \<Rightarrow> bytes \<Rightarrow> transfer_open_params \<Rightarrow>
    bytes list \<Rightarrow> jstr option \<Rightarrow> file_system \<times> jstr list" where
  "runUpload io wrote fs rnd params chunks failure =
     (let tmp = temp_name rnd (to_remotePath params) in
      case upload_body io wrote fs tmp params chunks failure of
        (fs1, None) \<Rightarrow> (fs1, [])
      | (fs1, Some e) \<Rightarrow>
          ((if io OpRm = None \<and> fs1 tmp \<noteq> Some DirNode then fs1(tmp := None) else fs1),
           [js ''transfer upload to '' @ quoted (to_remotePath params) @ js '' failed: '' @ e]))"

section \<open>Channel numbers\<close>

datatype transfer_event = TOpen io_errors file_system transfer_open_params | TChannel nat

datatype transfer_effect = TReserved nat | TRefused thrown | TBound nat | TUnknown nat

fun transfer_step :: "transfer_manager \<Rightarrow> transfer_event \<Rightarrow> transfer_manager \<times> transfer_effect list" where
  "transfer_step tm (TOpen io fs params) =
     (case transfer_open io fs tm params of
        (_, tm1, Inr c) \<Rightarrow> (tm1, [TReserved c])
      | (_, tm1, Inl e) \<Rightarrow> (tm1, [TRefused e]))"
| "transfer_step tm (TChannel c) =
     (case handleChannel tm c of
        (tm1, Some _) \<Rightarrow> (tm1, [TBound c])
      | (tm1, None) \<Rightarrow> (tm1, [TUnknown c]))"

definition reserved_ids :: "transfer_effect list \<Rightarrow> nat list" where
  "reserved_ids = List.map_filter (\<lambda>e. case e of TReserved c \<Rightarrow> Some c | _ \<Rightarrow> None)"

definition bound_ids :: "transfer_effect list \<Rightarrow> nat list" where
  "bound_ids = List.map_filter (\<lambda>e. case e of TBound c \<Rightarrow> Some c | _ \<Rightarrow> None)"

lemma transfer_ids_simps [simp]:
  "reserved_ids (es @ [TReserved c]) = reserved_ids es @ [c]" "reserved_ids (es @ [TRefused x]) = reserved_ids es"
  "reserved_ids (es @ [TBound c]) = reserved_ids es" "reserved_ids (es @ [TUnknown c]) = reserved_ids es"
  "bound_ids (es @ [TReserved c]) = bound_ids es" "bound_ids (es @ [TRefused x]) = bound_ids es"
  "bound_ids (es @ [TBound c]) = bound_ids es @ [c]" "bound_ids (es @ [TUnknown c]) = bound_ids es"
  by (simp_all add: reserved_ids_def bound_ids_def map_filter_def)

definition transfer_inv :: "transfer_manager \<Rightarrow> transfer_event list \<Rightarrow> transfer_effect list \<Rightarrow> bool" where
  "transfer_inv tm g h \<longleftrightarrow> FIRST_TRANSFER_CHANNEL \<le> tm_nextChannel tm
     \<and> distinct (map fst (tm_pending tm)) \<and> (\<forall>c \<in> fst ` set (tm_pending tm). c < tm_nextChannel tm)
     \<and> reserved_ids h = [FIRST_TRANSFER_CHANNEL..<tm_nextChannel tm]
     \<and> mset (bound_ids h) + mset (map fst (tm_pending tm)) = mset (reserved_ids h)"

lemma mset_delete_keys:
  "distinct (map fst m) \<Longrightarrow> map_of m k = Some v \<Longrightarrow> add_mset k (mset (map fst (AList.delete k m))) = mset (map fst m)"
proof (induction m)
  case (Cons a m)
  then show ?case
  proof (cases "fst a = k")
    case True
    then have "AList.delete k m = m" using Cons.prems by (auto intro!: AList.delete_idem)
    then show ?thesis using True by (cases a) simp
  qed (cases a, simp)
qed simp

lemma transfer_inv_step:
  assumes i: "transfer_inv tm g h" and s: "transfer_step tm e = (tm', out)"
  shows "transfer_inv tm' (g @ [e]) (h @ out)"
proof (cases e)
  case (TOpen io fs params)
  show ?thesis
  proof (cases "check_open io fs params")
    case (Inl x)
    then show ?thesis using i s TOpen by (auto simp: transfer_open_def transfer_inv_def)
  next
    case (Inr fs1)
    let ?n = "tm_nextChannel tm"
    have "?n \<notin> fst ` set (tm_pending tm)" using i by (auto simp: transfer_inv_def)
    then have u: "AList.update ?n params (tm_pending tm) = tm_pending tm @ [(?n, params)]" by (rule update_fresh)
    have "tm' = tm\<lparr>tm_nextChannel := Suc ?n, tm_pending := tm_pending tm @ [(?n, params)]\<rparr>" "out = [TReserved ?n]"
      using s TOpen Inr by (auto simp: transfer_open_def Let_def u)
    then show ?thesis using i by (auto simp: transfer_inv_def)
  qed
next
  case (TChannel c)
  show ?thesis
  proof (cases "map_of (tm_pending tm) c")
    case None
    then show ?thesis using i s TChannel by (auto simp: handleChannel_def transfer_inv_def)
  next
    case (Some params)
    have "tm' = tm\<lparr>tm_pending := AList.delete c (tm_pending tm)\<rparr>" "out = [TBound c]"
      using s TChannel Some by (auto simp: handleChannel_def)
    moreover have k: "distinct (map fst (tm_pending tm))"
      "mset (bound_ids h) + mset (map fst (tm_pending tm)) = mset (reserved_ids h)" using i by (simp_all add: transfer_inv_def)
    moreover have "fst ` set (AList.delete c (tm_pending tm)) \<subseteq> fst ` set (tm_pending tm)"
      by (auto simp: AList.delete_eq)
    moreover have "mset (bound_ids h @ [c]) + mset (map fst (AList.delete c (tm_pending tm))) = mset (reserved_ids h)"
      unfolding k(2)[symmetric] mset_delete_keys[OF k(1) Some, symmetric] by simp
    moreover have "distinct (map fst (AList.delete c (tm_pending tm)))" by (rule distinct_keys_delete[OF k(1)])
    ultimately show ?thesis using i unfolding transfer_inv_def by (simp del: mset_append mset_map) blast
  qed
qed

interpretation transfers: reactive transfer_step transfer_inv
  by unfold_locales (rule transfer_inv_step)

text \<open>
  The channel numbers handed out are 1000, 1001, ... without gaps, so never the control channel
  and never one twice; each is bound to at most one channel, and only a number handed out is bound.
\<close>

theorem transfer_channels_bound_once:
  assumes "steps transfer_step TransferManager evs = (tm, out)"
  shows "reserved_ids out = [FIRST_TRANSFER_CHANNEL..<FIRST_TRANSFER_CHANNEL + length (reserved_ids out)]
    \<and> distinct (bound_ids out) \<and> set (bound_ids out) \<subseteq> set (reserved_ids out)
    \<and> set (map fst (tm_pending tm)) = set (reserved_ids out) - set (bound_ids out)"
proof -
  have "transfer_inv TransferManager [] []"
    by (simp add: transfer_inv_def TransferManager_def reserved_ids_def bound_ids_def map_filter_def)
  from transfers.always[OF this assms] have i: "transfer_inv tm evs out" by simp
  then have r: "reserved_ids out = [FIRST_TRANSFER_CHANNEL..<tm_nextChannel tm]" "FIRST_TRANSFER_CHANNEL \<le> tm_nextChannel tm"
    and m: "mset (bound_ids out @ map fst (tm_pending tm)) = mset (reserved_ids out)" by (simp_all add: transfer_inv_def)
  have d: "distinct (bound_ids out @ map fst (tm_pending tm))"
    using mset_eq_imp_distinct_iff[OF m] r(1) by simp
  have u: "set (bound_ids out) \<union> set (map fst (tm_pending tm)) = set (reserved_ids out)"
    using mset_eq_setD[OF m] by simp
  have "reserved_ids out = [FIRST_TRANSFER_CHANNEL..<FIRST_TRANSFER_CHANNEL + length (reserved_ids out)]"
    using r by simp
  then show ?thesis using d u by auto
qed

section \<open>Uploads\<close>

lemma first_error_None [simp]: "first_error es = None \<longleftrightarrow> (\<forall>e \<in> set es. e = None)"
  by (induction es) (auto simp: first_error_def map_filter_def split: list.splits option.splits)

text \<open>How much of each chunk reaches the file when no write fails.\<close>

lemma write_chunks_ok:
  assumes "write_chunks io wrote i content written cs = (content', written', None)"
  shows "written' = written + length (concat cs)
    \<and> ((\<forall>j. \<forall>c \<in> set cs. length c \<le> wrote j) \<longrightarrow> content' = content @ concat cs)"
  using assms
proof (induction cs arbitrary: i content written)
  case (Cons c cs)
  then have "write_chunks io wrote (Suc i) (content @ take (wrote i) c) (written + length c) cs = (content', written', None)"
    by (auto split: option.splits)
  from Cons.IH[OF this] show ?case by auto
qed simp


text \<open>
  An upload that was accepted by \<open>transfer.open\<close> succeeds when the system refuses no call: its
  directory exists by then, and nothing but a taken temporary name, a directory at the target or a
  wrong size can stop it.
\<close>

theorem upload_succeeds:
  assumes "\<forall>op. io op = None" and "to_direction params = Upload"
    and "transfer_open io fs tm params = (fs1, tm', Inr c)" and "fs1 (temp_name rnd (to_remotePath params)) = None"
    and "fs1 (to_remotePath params) \<noteq> Some DirNode" and "temp_name rnd (to_remotePath params) \<noteq> to_remotePath params"
    and "to_size params \<in> {None, Some (length (concat chunks))}" and "\<forall>j. \<forall>c \<in> set chunks. length c \<le> wrote j"
  shows "runUpload io wrote fs1 rnd params chunks None =
    (fs1(to_remotePath params \<mapsto> FileNode (concat chunks)), [])"
proof -
  let ?d = "dirname (to_remotePath params)" let ?t = "temp_name rnd (to_remotePath params)"
  have "mkdir_p fs ?d = Inr fs1"
    using assms(1-3) by (auto simp: transfer_open_def check_open_def Let_def split: sum.splits if_splits option.splits)
  then have d: "fs1 ?d = Some DirNode" by (auto simp: mkdir_p_def path_prefixes_def split: if_splits)
  have w: "write_chunks io wrote i content written cs = (content @ concat cs, written + length (concat cs), None)"
    if "\<forall>j. \<forall>c \<in> set cs. length c \<le> wrote j" for i content written cs
    using that assms(1) by (induction cs arbitrary: i content written) simp_all
  have n: "first_error [None, None, None] = None" "first_error [None, None, None, None, None] = None" by simp_all
  have "size_error params (length (concat chunks)) = None" using assms(7) by (auto simp: size_error_def)
  then have "upload_body io wrote fs1 ?t params chunks None = (fs1(to_remotePath params \<mapsto> FileNode (concat chunks)), None)"
    using d w[OF assms(8)] assms(1,4,5,6) by (simp add: upload_body_def n fun_eq_iff)
  then show ?thesis by (simp add: runUpload_def Let_def)
qed

section \<open>Examples\<close>

definition no_errors :: io_errors where "no_errors = (\<lambda>_. None)"

definition sample_fs :: file_system where
  "sample_fs = [js ''/d'' \<mapsto> DirNode, js ''/d/old'' \<mapsto> FileNode [9]]"

definition sample_upload :: transfer_open_params where
  "sample_upload = \<lparr>to_direction = Upload, to_remotePath = js ''/d/new'', to_size = Some 3, to_overwrite = None\<rparr>"

theorem transfer_channels_bound_once_witness:
  "\<exists>tm out. steps transfer_step TransferManager
       [TOpen no_errors sample_fs sample_upload, TOpen no_errors sample_fs sample_upload, TChannel 1001, TChannel 1001] = (tm, out)
     \<and> reserved_ids out = [1000, 1001] \<and> bound_ids out = [1001] \<and> set (map fst (tm_pending tm)) = {1000}"
  (is "\<exists>tm out. ?run = (tm, out) \<and> _")
proof -
  obtain tm out where r: "?run = (tm, out)" by (meson surj_pair)
  have "reserved_ids (snd ?run) = [1000, 1001]" "bound_ids (snd ?run) = [1001]" by code_simp+
  then show ?thesis using transfer_channels_bound_once[OF r] r by auto
qed


theorem upload_succeeds_witness:
  "runUpload no_errors (\<lambda>_. 9) (fst (transfer_open no_errors sample_fs TransferManager sample_upload)) [1] sample_upload [[1, 2], [3]] None =
     ((fst (transfer_open no_errors sample_fs TransferManager sample_upload))(js ''/d/new'' \<mapsto> FileNode [1, 2, 3]), [])"
proof -
  obtain fs1 tm r where o: "transfer_open no_errors sample_fs TransferManager sample_upload = (fs1, tm, r)" by (metis prod_cases3)
  have r: "r = Inr 1000"
  proof -
    have "snd (snd (transfer_open no_errors sample_fs TransferManager sample_upload)) = Inr 1000" by code_simp
    then show ?thesis using o by simp
  qed
  have "(fst (transfer_open no_errors sample_fs TransferManager sample_upload)) (temp_name [1] (to_remotePath sample_upload)) = None"
    "(fst (transfer_open no_errors sample_fs TransferManager sample_upload)) (to_remotePath sample_upload) \<noteq> Some DirNode"
    "temp_name [1] (to_remotePath sample_upload) \<noteq> to_remotePath sample_upload"
    by code_simp+
  note f = this[unfolded o fst_conv]
  have e: "\<forall>op. no_errors op = None" "to_direction sample_upload = Upload"
    "to_size sample_upload \<in> {None, Some (length (concat [[1, 2], [3]]))}" "\<forall>j. \<forall>c \<in> set [[1, 2], [3]]. length c \<le> 9"
    by (simp_all add: no_errors_def sample_upload_def)
  have p: "to_remotePath sample_upload = js ''/d/new''" by (simp add: sample_upload_def)
  show ?thesis
    using upload_succeeds[OF e(1,2) o[unfolded r] f, of "[[1, 2], [3]]" "\<lambda>_. 9"] e(3,4) unfolding o p by simp
qed

text \<open>A write that reports fewer bytes than asked is not noticed: the file is short, the size check passes.\<close>

lemma short_write_accepted:
  "case runUpload no_errors (\<lambda>i. if i = 0 then 1 else 9) sample_fs [1] sample_upload [[1, 2], [3]] None of
     (fs', diags) \<Rightarrow> diags = [] \<and> fs' (js ''/d/new'') = Some (FileNode [1, 3])"
  by code_simp

text \<open>Existence is checked at \<open>transfer.open\<close> only: a file made since then is replaced without \<open>overwrite\<close>.\<close>

lemma late_file_overwritten:
  "case transfer_open no_errors sample_fs TransferManager sample_upload of (fs1, _, r) \<Rightarrow> r = Inr 1000 \<and>
     (case runUpload no_errors (\<lambda>_. 9) (fs1(js ''/d/new'' \<mapsto> FileNode [7])) [1] sample_upload [[1, 2], [3]] None of
        (fs', diags) \<Rightarrow> diags = [] \<and> fs' (js ''/d/new'') = Some (FileNode [1, 2, 3]))"
  by code_simp

end
