(* ===== verification/Monitor.thy ===== *)
theory Monitor
  imports Protocol Complex_Main "HOL-Library.Multiset"
begin

text \<open>
  The metrics collector, \<^verbatim>\<open>remote-backend/src/monitor.ts\<close>: subscriptions with their interval timers,
  and the busy ratio of the CPU from two readings of the kernel's counters. A timer is a number;
  \<open>mo_timers\<close> holds the live ones with their interval. The other metrics only reformat what the
  kernel prints and are left out.
\<close>

definition MIN_INTERVAL_MS :: int where "MIN_INTERVAL_MS = 250"
definition DEFAULT_INTERVAL_MS :: int where "DEFAULT_INTERVAL_MS = 2000"

record monitor =
  mo_subscriptions :: "(jstr \<times> nat) list"
  mo_timers :: "(nat \<times> int) list"
  mo_nextTimer :: nat
  mo_prevCpu :: "(int \<times> int) option"

definition MonitorCollector :: monitor where
  "MonitorCollector = \<lparr>mo_subscriptions = [], mo_timers = [], mo_nextTimer = 0, mo_prevCpu = None\<rparr>"

definition mon_unsubscribe :: "monitor \<Rightarrow> jstr \<Rightarrow> monitor" where
  "mon_unsubscribe m key =
     (case map_of (mo_subscriptions m) key of
        None \<Rightarrow> m
      | Some t \<Rightarrow> m\<lparr>mo_timers := AList.delete t (mo_timers m),
          mo_subscriptions := AList.delete key (mo_subscriptions m)\<rparr>)"

definition mon_subscribe :: "monitor \<Rightarrow> jstr \<Rightarrow> int option \<Rightarrow> monitor" where
  "mon_subscribe m key intervalMs =
     (let m1 = mon_unsubscribe m key;
          interval = max MIN_INTERVAL_MS (case intervalMs of Some i \<Rightarrow> i | None \<Rightarrow> DEFAULT_INTERVAL_MS);
          t = mo_nextTimer m1
      in m1\<lparr>mo_timers := mo_timers m1 @ [(t, interval)], mo_nextTimer := Suc t,
            mo_subscriptions := AList.update key t (mo_subscriptions m1)\<rparr>)"

definition mon_dispose :: "monitor \<Rightarrow> monitor" where
  "mon_dispose m = foldl mon_unsubscribe m (map fst (mo_subscriptions m))"

text \<open>
  \<open>#sampleCpu\<close> from the numbers of the first line of \<open>/proc/stat\<close> (\<open>None\<close> is \<open>NaN\<close>); the ratio is the
  fraction of the two differences, clamped to the unit interval.
\<close>

definition sampleCpu :: "monitor \<Rightarrow> int option list \<Rightarrow> monitor \<times> rat option" where
  "sampleCpu m parts =
     (if length parts < 8 \<or> None \<in> set parts then (m, None)
      else
        (let ns = map the parts; idle = ns ! 3 + ns ! 4; total = sum_list ns; busy = total - idle
         in (m\<lparr>mo_prevCpu := Some (busy, total)\<rparr>,
             case mo_prevCpu m of
               None \<Rightarrow> None
             | Some (pbusy, ptotal) \<Rightarrow>
                 if total > ptotal
                 then Some (min 1 (max 0 (Fract (busy - pbusy) (total - ptotal)))) else None)))"

section \<open>One timer per subscription\<close>

definition mon_ok :: "monitor \<Rightarrow> bool" where
  "mon_ok m \<longleftrightarrow> distinct (map fst (mo_subscriptions m)) \<and> distinct (map snd (mo_subscriptions m))
     \<and> distinct (map fst (mo_timers m)) \<and> snd ` set (mo_subscriptions m) = fst ` set (mo_timers m)
     \<and> (\<forall>(t, i) \<in> set (mo_timers m). t < mo_nextTimer m \<and> MIN_INTERVAL_MS \<le> i)"

lemma mon_ok_new: "mon_ok MonitorCollector"
  by (simp add: mon_ok_def MonitorCollector_def)

lemma mon_ok_unsubscribe:
  assumes ok: "mon_ok m"
  shows "mon_ok (mon_unsubscribe m key) \<and> key \<notin> fst ` set (mo_subscriptions (mon_unsubscribe m key))
    \<and> fst ` set (mo_subscriptions (mon_unsubscribe m key)) = fst ` set (mo_subscriptions m) - {key}
    \<and> mo_nextTimer (mon_unsubscribe m key) = mo_nextTimer m"
proof (cases "map_of (mo_subscriptions m) key")
  case None
  then have "mon_unsubscribe m key = m" by (simp add: mon_unsubscribe_def)
  then show ?thesis using ok None by (auto simp: map_of_eq_None_iff)
next
  case (Some t)
  let ?s = "mo_subscriptions m" let ?d = "AList.delete key ?s"
  have d: "distinct (map fst ?s)" "distinct (map snd ?s)" "distinct (map fst (mo_timers m))"
    "snd ` set ?s = fst ` set (mo_timers m)" using ok by (simp_all add: mon_ok_def)
  have kt: "(key, t) \<in> set ?s" using Some by (rule map_of_SomeD)
  have other: "fst x = key \<longleftrightarrow> snd x = t" if "x \<in> set ?s" for x
    using that kt d(1,2) by (metis distinct_map fst_conv inj_onD snd_conv)
  have "snd ` set ?d = snd ` set ?s - {t}"
  proof -
    have "set ?d = {x \<in> set ?s. snd x \<noteq> t}" using other by (auto simp: AList.delete_eq) blast+
    then show ?thesis by auto
  qed
  moreover have "fst ` set (AList.delete t (mo_timers m)) = fst ` set (mo_timers m) - {t}"
    by (auto simp: AList.delete_eq)
  moreover have "distinct (map snd ?d)" using d(2) by (simp add: AList.delete_eq distinct_map_filter)
  moreover have "distinct (map fst ?d)" "distinct (map fst (AList.delete t (mo_timers m)))"
    using d(1,3) by (simp_all add: AList.delete_eq distinct_map_filter)
  ultimately show ?thesis using ok d(4) Some
    by (auto simp: mon_unsubscribe_def mon_ok_def AList.delete_eq)
qed

lemma mon_ok_subscribe: "mon_ok m \<Longrightarrow> mon_ok (mon_subscribe m key i)"
proof -
  assume ok: "mon_ok m"
  define m1 where "m1 = mon_unsubscribe m key"
  have k: "mon_ok m1" "key \<notin> fst ` set (mo_subscriptions m1)" using mon_ok_unsubscribe[OF ok, of key] by (simp_all add: m1_def)
  then have u: "AList.update key t (mo_subscriptions m1) = mo_subscriptions m1 @ [(key, t)]" for t
    by (intro update_fresh) simp
  have "mo_nextTimer m1 \<notin> fst ` set (mo_timers m1)" "mo_nextTimer m1 \<notin> snd ` set (mo_subscriptions m1)"
    using k by (auto simp: mon_ok_def)
  then show ?thesis using k by (auto simp: mon_subscribe_def m1_def[symmetric] u mon_ok_def Let_def)
qed

lemma mon_ok_dispose: "mon_ok m \<Longrightarrow> mon_ok (mon_dispose m) \<and> mo_subscriptions (mon_dispose m) = []"
proof -
  assume ok: "mon_ok m"
  have "mon_ok (foldl mon_unsubscribe m ks) \<and>
      fst ` set (mo_subscriptions (foldl mon_unsubscribe m ks)) = fst ` set (mo_subscriptions m) - set ks" for ks
    using ok
  proof (induction ks arbitrary: m)
    case (Cons k ks)
    show ?case using Cons.IH[of "mon_unsubscribe m k"] mon_ok_unsubscribe[OF Cons.prems, of k] by auto
  qed simp
  from this[of "map fst (mo_subscriptions m)"] show ?thesis by (simp add: mon_dispose_def)
qed

datatype monitor_event = MSubscribe jstr "int option" | MUnsubscribe jstr | MDispose

fun monitor_step :: "monitor \<Rightarrow> monitor_event \<Rightarrow> monitor" where
  "monitor_step m (MSubscribe key i) = mon_subscribe m key i"
| "monitor_step m (MUnsubscribe key) = mon_unsubscribe m key"
| "monitor_step m MDispose = mon_dispose m"

text \<open>
  The collector never leaks a timer: after any sequence of subscriptions, cancellations and
  disposals every live timer belongs to exactly one subscription and pushes at most four times a
  second, and a disposal stops them all.
\<close>

theorem monitor_timers_match_subscriptions:
  "mset (map snd (mo_subscriptions (foldl monitor_step MonitorCollector evs))) =
     mset (map fst (mo_timers (foldl monitor_step MonitorCollector evs)))
   \<and> (\<forall>t i. (t, i) \<in> set (mo_timers (foldl monitor_step MonitorCollector evs)) \<longrightarrow> MIN_INTERVAL_MS \<le> i)
   \<and> mo_timers (mon_dispose (foldl monitor_step MonitorCollector evs)) = []"
proof -
  have "mon_ok (monitor_step m e)" if "mon_ok m" for m e
    using that mon_ok_subscribe mon_ok_unsubscribe mon_ok_dispose by (cases e) auto
  then have "mon_ok (foldl monitor_step m evs)" if "mon_ok m" for m
    using that by (induction evs arbitrary: m) simp_all
  from this[OF mon_ok_new] have ok: "mon_ok (foldl monitor_step MonitorCollector evs)" .
  then have "mset (map snd (mo_subscriptions (foldl monitor_step MonitorCollector evs))) =
      mset (map fst (mo_timers (foldl monitor_step MonitorCollector evs)))"
    by (intro set_eq_iff_mset_eq_distinct[THEN iffD1]) (simp_all add: mon_ok_def)
  moreover have "mo_timers (mon_dispose (foldl monitor_step MonitorCollector evs)) = []"
    using mon_ok_dispose[OF ok] by (auto simp: mon_ok_def)
  ultimately show ?thesis using ok by (auto simp: mon_ok_def)
qed

text \<open>The busy ratio is a ratio, and with counters that only grow it is the exact fraction.\<close>

lemma cpu_ratio_bounds: "sampleCpu m parts = (m', Some r) \<Longrightarrow> 0 \<le> r \<and> r \<le> 1"
  by (auto simp: sampleCpu_def Let_def split: if_splits option.splits)

end
