(* ===== verification/Serve.thy ===== *)
theory Serve
  imports Approval Question FileTransfer Monitor Jsonrpc
begin

text \<open>
  The protocol server, \<^verbatim>\<open>remote-backend/src/serve.ts\<close>: the fan-out of one byte stream, the handshake
  gate, the methods of an authenticated connection, and what happens when the stream ends. The state
  \<open>gateway\<close> holds the server with the subsystems it was given; a method call is \<open>dispatch\<close>ed on its
  decoded parameters, and its answer is the effect \<open>GReply\<close> under the id of the call. What the host,
  the clock, the random source and the file system contribute to a call is its \<open>server_env\<close>. The
  keyed hash is the parameter \<open>hmac\<close>.
\<close>

section \<open>Fan-out of the byte stream\<close>

record fan =
  fn_queues :: "bytes list list"
  fn_waiting :: "bool list"
  fn_ended :: bool

definition fanout :: "nat \<Rightarrow> fan" where
  "fanout k = \<lparr>fn_queues = replicate k [], fn_waiting = replicate k False, fn_ended = False\<rparr>"

datatype fan_effect = Yield nat bytes | Return nat

text \<open>One chunk: a waiting consumer gets it, the queue of another one keeps it.\<close>

definition fan_chunk :: "fan \<Rightarrow> bytes \<Rightarrow> fan \<times> fan_effect list" where
  "fan_chunk f c =
     (f\<lparr>fn_queues := map2 (\<lambda>w q. if w then q else q @ [c]) (fn_waiting f) (fn_queues f),
        fn_waiting := map (\<lambda>_. False) (fn_waiting f)\<rparr>,
      map (\<lambda>i. Yield i c) (filter (\<lambda>i. fn_waiting f ! i) [0..<length (fn_waiting f)]))"

definition fan_end :: "fan \<Rightarrow> fan \<times> fan_effect list" where
  "fan_end f =
     (f\<lparr>fn_ended := True, fn_waiting := map (\<lambda>_. False) (fn_waiting f)\<rparr>,
      map Return (filter (\<lambda>i. fn_waiting f ! i) [0..<length (fn_waiting f)]))"

text \<open>Consumer \<open>i\<close> asks for its next chunk.\<close>

definition fan_next :: "fan \<Rightarrow> nat \<Rightarrow> fan \<times> fan_effect list" where
  "fan_next f i =
     (case fn_queues f ! i of
        c # q \<Rightarrow> (f\<lparr>fn_queues := (fn_queues f)[i := q]\<rparr>, [Yield i c])
      | [] \<Rightarrow> if fn_ended f then (f, [Return i]) else (f\<lparr>fn_waiting := (fn_waiting f)[i := True]\<rparr>, []))"

section \<open>Catalogs\<close>

record catalog_model =
  cm_id :: jstr
  cm_name :: "jstr option"
  cm_reasoningEfforts :: "jstr list option"
  cm_routable :: "bool option"
  cm_current :: "bool option"

record skill_summary =
  sk_name :: jstr
  sk_description :: "jstr option"

record preset =
  pt_id :: jstr
  pt_name :: "jstr option"
  pt_description :: "jstr option"

record preset_summary =
  ps_id :: jstr
  ps_name :: jstr
  ps_description :: "jstr option"
  ps_isDefault :: bool

record catalogs =
  ca_llm :: "((thrown + jstr list) \<times> (jstr \<Rightarrow> thrown + catalog_model list)) option"
  ca_skills :: "(thrown + skill_summary list) option"
  ca_agentPresets :: "(jstr \<times> (thrown + preset list)) option"

datatype catalog_result =
    ModelCatalog "(jstr \<times> catalog_model list) list"
  | SkillCatalog "skill_summary list"
  | PresetCatalog "preset_summary list"

definition unsupported :: "string \<Rightarrow> thrown" where
  "unsupported kind = TRemote (rerr REMOTE_CAPABILITY_UNSUPPORTED (js ''this backend has no '' @ js kind @ js '' catalog''))"

text \<open>\<open>Promise.all\<close> over the providers: it rejects when one of the listings does.\<close>

fun all_models :: "(jstr \<Rightarrow> thrown + catalog_model list) \<Rightarrow> jstr list \<Rightarrow> thrown + (jstr \<times> catalog_model list) list" where
  "all_models models [] = Inr []"
| "all_models models (p # ps) =
     (case models p of
        Inl e \<Rightarrow> Inl e
      | Inr ms \<Rightarrow> (case all_models models ps of Inl e \<Rightarrow> Inl e | Inr r \<Rightarrow> Inr ((p, ms) # r)))"

definition catalogList :: "catalogs option \<Rightarrow> jstr option \<Rightarrow> thrown + catalog_result" where
  "catalogList catalogs kind =
     (if kind = Some (js ''models'') then
        (case Option.bind catalogs ca_llm of
           None \<Rightarrow> Inl (unsupported ''models'')
         | Some (providers, models) \<Rightarrow>
             (case providers of Inl e \<Rightarrow> Inl e | Inr ps \<Rightarrow> map_sum id ModelCatalog (all_models models ps)))
      else if kind = Some (js ''skills'') then
        (case Option.bind catalogs ca_skills of
           None \<Rightarrow> Inl (unsupported ''skills'')
         | Some r \<Rightarrow> map_sum id SkillCatalog r)
      else if kind = Some (js ''agentPresets'') then
        (case Option.bind catalogs ca_agentPresets of
           None \<Rightarrow> Inl (unsupported ''agentPresets'')
         | Some (defaultId, r) \<Rightarrow>
             map_sum id (PresetCatalog \<circ> map (\<lambda>p. \<lparr>ps_id = pt_id p,
               ps_name = (case pt_name p of Some n \<Rightarrow> n | None \<Rightarrow> pt_id p),
               ps_description = pt_description p, ps_isDefault = (pt_id p = defaultId)\<rparr>)) r)
      else Inl (TRemote (rerr REMOTE_PROTOCOL_ERROR
        (js ''unknown catalog kind '' @ quoted (case kind of None \<Rightarrow> js ''undefined'' | Some k \<Rightarrow> k)))))"

section \<open>State\<close>

record auth_options =
  au_maxFailures :: nat
  au_baseDelayMs :: nat
  au_maxDelayMs :: nat

text \<open>
  \<open>sv_registered\<close> is the client id that the registered methods close over, if they are registered;
  \<open>sv_sleeping\<close> lists the calls of \<open>hello.proof\<close> that are in the delay after a failure.
\<close>

record server =
  sv_token :: jstr
  sv_capabilities :: "capability list"
  sv_auth :: auth_options
  sv_onFatal :: bool
  sv_failures :: nat
  sv_clientId :: "jstr option"
  sv_registered :: "jstr option"
  sv_pendingHello :: "(json \<times> jstr \<times> jstr) option"
  sv_sleeping :: "rpc_id list"

record gateway =
  gw_server :: server
  gw_broker :: broker
  gw_approval :: "approval option"
  gw_question :: "question option"
  gw_catalogs :: "catalogs option"
  gw_monitor :: "monitor option"
  gw_transfer :: "transfer_manager option"
  gw_fs :: file_system

definition computeCapabilities :: "host \<Rightarrow> bool \<Rightarrow> bool \<Rightarrow> bool \<Rightarrow> capability list" where
  "computeCapabilities h approval question catalogs =
     (let c1 = fold set_add (brokerCapabilities h) [];
          c2 = (if question then set_add Questions c1 else c1);
          c3 = (if catalogs then set_add Catalogs c2 else c2)
      in if approval \<or> question then set_add PendingInteractions c3 else c3)"

definition BackendServer :: "jstr \<Rightarrow> nat option \<times> nat option \<times> nat option \<Rightarrow> bool \<Rightarrow> host \<Rightarrow> broker \<Rightarrow> approval option \<Rightarrow> question option \<Rightarrow>
    catalogs option \<Rightarrow> monitor option \<Rightarrow> transfer_manager option \<Rightarrow> file_system \<Rightarrow> gateway" where
  "BackendServer token auth fatal h b a q cat m t fs =
     \<lparr>gw_server = \<lparr>sv_token = token,
        sv_capabilities = computeCapabilities h (a \<noteq> None) (q \<noteq> None) (cat \<noteq> None),
        sv_auth = (case auth of (m, d, x) \<Rightarrow> \<lparr>au_maxFailures = (case m of Some n \<Rightarrow> n | None \<Rightarrow> 3),
          au_baseDelayMs = (case d of Some n \<Rightarrow> n | None \<Rightarrow> 500), au_maxDelayMs = (case x of Some n \<Rightarrow> n | None \<Rightarrow> 5000)\<rparr>),
        sv_onFatal = fatal, sv_failures = 0, sv_clientId = None, sv_registered = None,
        sv_pendingHello = None, sv_sleeping = []\<rparr>,
      gw_broker = b, gw_approval = a, gw_question = q, gw_catalogs = cat, gw_monitor = m, gw_transfer = t, gw_fs = fs\<rparr>"

section \<open>Requests, answers and effects\<close>

datatype request =
    RqList
  | RqCreate create_params
  | RqAttach attach_params
  | RqDetach jstr
  | RqPrompt jstr jstr "prompt_block list option"
  | RqCancel jstr
  | RqFork jstr "int option" "int option"
  | RqHistory history_params
  | RqCompact jstr
  | RqControlRelease jstr
  | RqApprovalAnswer approval_answer_params
  | RqQuestionAnswer question_answer_params
  | RqCatalog "jstr option"
  | RqMonitorSubscribe "int option"
  | RqMonitorUnsubscribe
  | RqTransferOpen transfer_open_params

datatype reply =
    RpNull
  | RpChallenge challenge_message
  | RpAuthenticated jstr
  | RpSessions "session_summary list"
  | RpSession jstr
  | RpAttached attach_result
  | RpMessage jstr
  | RpHistory history_result
  | RpCompacted bool
  | RpCatalog catalog_result
  | RpChannel nat

datatype gateway_effect =
    GReply rpc_id "thrown + reply"
  | GNotFound rpc_id
  | GSleep rpc_id nat
  | GFatal
  | GSend conn notification
  | GFollowup jstr jstr "message_block list"
  | GReturn nat "host_decision option"
  | GResolve nat answers
  | GReject nat jstr

fun of_approval :: "approval_effect \<Rightarrow> gateway_effect list" where
  "of_approval (ASend c n) = [GSend c n]"
| "of_approval (AReturn q d) = [GReturn q d]"
| "of_approval (AThrow e) = []"

fun of_question :: "question_effect \<Rightarrow> gateway_effect list" where
  "of_question (QSend c n) = [GSend c n]"
| "of_question (QResolve q a) = [GResolve q a]"
| "of_question (QReject q m) = [GReject q m]"
| "of_question (QThrow e) = []"

definition g_sends :: "sent \<Rightarrow> gateway_effect list" where
  "g_sends out = map (\<lambda>(c, n). GSend c n) out"

record server_env =
  en_host :: host
  en_bad :: failing
  en_now :: jstr
  en_rnd :: bytes
  en_current :: "host_session option"
  en_buffered :: "wire_event list"
  en_create :: "create_params \<Rightarrow> thrown + jstr"
  en_fork :: "jstr \<Rightarrow> int option \<Rightarrow> int option \<Rightarrow> thrown + host_session"
  en_saved :: "bytes \<Rightarrow> jstr \<Rightarrow> jstr option \<Rightarrow> thrown + json"
  en_io :: io_errors

section \<open>The handshake gate\<close>

text \<open>A hello of the right shape, as received, with its nonce.\<close>

definition well_formed_hello :: "json option \<Rightarrow> (json \<times> jstr) option" where
  "well_formed_hello params =
     (case params of
        Some (JObj ms) \<Rightarrow>
          (case (get_key ms ''nonce'', get_key ms ''protocolVersion'', get_key ms ''capabilities'') of
             (Some (JStr n), Some v, Some (JArr _)) \<Rightarrow> if v = JInt 1 then Some (JObj ms, n) else None
           | _ \<Rightarrow> None)
      | _ \<Rightarrow> None)"

definition serve_hello :: "bytes \<Rightarrow> json option \<Rightarrow> server \<Rightarrow> server \<times> (thrown + reply)" where
  "serve_hello rnd params sv =
     (case well_formed_hello params of
        None \<Rightarrow> (sv, Inl (TRemote (rerr REMOTE_PROTOCOL_ERROR (js ''malformed hello''))))
      | Some (hello, n) \<Rightarrow>
          (let challenge = createChallenge rnd None (map (js \<circ> Capabilities) (sv_capabilities sv))
           in (sv\<lparr>sv_pendingHello := Some (hello, n, ch_nonce challenge)\<rparr>, Inr (RpChallenge challenge))))"

definition string_member :: "json option \<Rightarrow> string \<Rightarrow> jstr option" where
  "string_member v k =
     (case v of Some (JObj ms) \<Rightarrow> (case get_key ms k of Some (JStr s) \<Rightarrow> Some s | _ \<Rightarrow> None) | _ \<Rightarrow> None)"

definition proof_ok :: "keyed_hash \<Rightarrow> jstr \<Rightarrow> json \<times> jstr \<times> jstr \<Rightarrow> json option \<Rightarrow> bool" where
  "proof_ok hmac token pend params =
     (case pend of (hello, n, sn) \<Rightarrow>
       (case string_member params ''proof'' of
          None \<Rightarrow> False
        | Some p \<Rightarrow> string_member params ''clientNonce'' = Some n \<and> string_member params ''serverNonce'' = Some sn
            \<and> verifyProof hmac token n sn hello p))"

text \<open>
  \<open>hello.proof\<close>; a failure is counted and its error reply delayed. \<open>minted\<close> is the new client id and
  \<open>obj\<close> the identity of the connection object given to the broker.
\<close>

definition serve_proof :: "keyed_hash \<Rightarrow> rpc_id \<Rightarrow> jstr \<Rightarrow> nat \<Rightarrow> json option \<Rightarrow> gateway \<Rightarrow> gateway \<times> gateway_effect list" where
  "serve_proof hmac i minted obj params gw =
     (let sv = gw_server gw in
      case sv_pendingHello sv of
        None \<Rightarrow> (gw, [GReply i (Inl (TRemote (rerr REMOTE_PROTOCOL_ERROR (js ''hello required before hello.proof''))))])
      | Some pend \<Rightarrow>
          if proof_ok hmac (sv_token sv) pend params then
            (gw\<lparr>gw_server := sv\<lparr>sv_pendingHello := None, sv_clientId := Some minted, sv_registered := Some minted\<rparr>,
                gw_broker := connect (gw_broker gw) \<lparr>cn_clientId = minted, cn_object = obj\<rparr>\<rparr>,
             [GReply i (Inr (RpAuthenticated minted))])
          else
            (let n = Suc (sv_failures sv)
             in (gw\<lparr>gw_server := sv\<lparr>sv_failures := n, sv_sleeping := sv_sleeping sv @ [i]\<rparr>\<rparr>,
                 [GSleep i (min (n * au_baseDelayMs (sv_auth sv)) (au_maxDelayMs (sv_auth sv)))])))"

text \<open>The end of the delay.\<close>

definition serve_wake :: "rpc_id \<Rightarrow> gateway \<Rightarrow> gateway \<times> gateway_effect list" where
  "serve_wake i gw =
     (let sv = gw_server gw in
      if i \<in> set (sv_sleeping sv) then
        (gw\<lparr>gw_server := sv\<lparr>sv_sleeping := remove1 i (sv_sleeping sv)\<rparr>\<rparr>,
         (if sv_failures sv \<ge> au_maxFailures (sv_auth sv) \<and> sv_onFatal sv then [GFatal] else [])
         @ [GReply i (Inl (TRemote (rerr REMOTE_AUTH_FAILED (js ''handshake proof verification failed''))))])
      else (gw, []))"

section \<open>The methods of an authenticated client\<close>

definition pendingInteractions :: "gateway \<Rightarrow> jstr \<Rightarrow> pending_interaction list option" where
  "pendingInteractions gw s =
     (if gw_approval gw = None \<and> gw_question gw = None then None
      else Some
        (map PendingApproval (case gw_approval gw of None \<Rightarrow> [] | Some a \<Rightarrow> ap_pendingForSession a s) @
         map PendingQuestion (case gw_question gw of None \<Rightarrow> [] | Some q \<Rightarrow> qs_pendingForSession q s)))"

definition no_subsystem :: "string \<Rightarrow> thrown" where
  "no_subsystem s = TRemote (rerr REMOTE_CAPABILITY_UNSUPPORTED (js ''this backend has no '' @ js s))"

fun dispatch :: "server_env \<Rightarrow> jstr \<Rightarrow> gateway \<Rightarrow> request \<Rightarrow> gateway \<times> gateway_effect list \<times> (thrown + reply)" where
  "dispatch en c gw RqList = (gw, [], Inr (RpSessions (listSessions (en_host en) (gw_broker gw))))"
| "dispatch en c gw (RqCreate params) =
     (gw, [], map_sum id RpSession (create (en_host en) (en_create en) (gw_broker gw) c params))"
| "dispatch en c gw (RqAttach params) =
     (case attach (en_host en) (en_bad en) (en_now en) (en_current en) (en_buffered en) (gw_broker gw) c params
        (pendingInteractions gw (at_sessionId params)) of
        (b, out, r) \<Rightarrow> (gw\<lparr>gw_broker := b\<rparr>, g_sends out, map_sum id RpAttached r))"
| "dispatch en c gw (RqDetach s) =
     (case detach (en_bad en) (gw_broker gw) c s of (b, out) \<Rightarrow> (gw\<lparr>gw_broker := b\<rparr>, g_sends out, Inr RpNull))"
| "dispatch en c gw (RqPrompt s text content) =
     (case prompt (en_host en) (en_rnd en) (en_saved en) (gw_broker gw) c s text content of
        Inl e \<Rightarrow> (gw, [], Inl e)
      | Inr (m, blocks) \<Rightarrow> (gw, [GFollowup s m blocks], Inr (RpMessage m)))"
| "dispatch en c gw (RqCancel s) =
     (gw, [], map_sum TRemote (\<lambda>_. RpNull) (cancel (en_host en) (gw_broker gw) c s))"
| "dispatch en c gw (RqFork s boundary atSeq) =
     (gw, [], map_sum TRemote RpSession (fork (en_fork en) (gw_broker gw) c s boundary atSeq))"
| "dispatch en c gw (RqHistory params) =
     (gw, [], map_sum TRemote RpHistory (history (en_host en) params))"
| "dispatch en c gw (RqCompact s) =
     (gw, [], map_sum TRemote RpCompacted (Broker.compact (en_host en) (gw_broker gw) c s))"
| "dispatch en c gw (RqControlRelease s) =
     (case controlRelease (en_bad en) (gw_broker gw) c s of (b, out) \<Rightarrow> (gw\<lparr>gw_broker := b\<rparr>, g_sends out, Inr RpNull))"
| "dispatch en c gw (RqApprovalAnswer params) =
     (case gw_approval gw of
        None \<Rightarrow> (gw, [], Inl (no_subsystem ''approval bridge''))
      | Some a \<Rightarrow>
          (case ap_answer (en_bad en) (gw_broker gw, a) c params of
             ((b, a1), out) \<Rightarrow> (gw\<lparr>gw_broker := b, gw_approval := Some a1\<rparr>, concat (map of_approval out),
               case out of [AThrow e] \<Rightarrow> Inl (TRemote e) | _ \<Rightarrow> Inr RpNull)))"
| "dispatch en c gw (RqQuestionAnswer params) =
     (case gw_question gw of
        None \<Rightarrow> (gw, [], Inl (no_subsystem ''question bridge''))
      | Some q \<Rightarrow>
          (case qs_answer (en_bad en) (gw_broker gw, q) c params of
             ((b, q1), out) \<Rightarrow> (gw\<lparr>gw_broker := b, gw_question := Some q1\<rparr>, concat (map of_question out),
               case out of [QThrow e] \<Rightarrow> Inl (TRemote e) | _ \<Rightarrow> Inr RpNull)))"
| "dispatch en c gw (RqCatalog kind) = (gw, [], map_sum id RpCatalog (catalogList (gw_catalogs gw) kind))"
| "dispatch en c gw (RqMonitorSubscribe interval) =
     (case gw_monitor gw of
        None \<Rightarrow> (gw, [], Inl (no_subsystem ''monitor''))
      | Some m \<Rightarrow> (gw\<lparr>gw_monitor := Some (mon_subscribe m c interval)\<rparr>, [], Inr RpNull))"
| "dispatch en c gw RqMonitorUnsubscribe =
     (gw\<lparr>gw_monitor := map_option (\<lambda>m. mon_unsubscribe m c) (gw_monitor gw)\<rparr>, [], Inr RpNull)"
| "dispatch en c gw (RqTransferOpen params) =
     (case gw_transfer gw of
        None \<Rightarrow> (gw, [], Inl (no_subsystem ''transfer endpoint''))
      | Some t \<Rightarrow>
          (case transfer_open (en_io en) (gw_fs gw) t params of
             (fs, t1, r) \<Rightarrow> (gw\<lparr>gw_fs := fs, gw_transfer := Some t1\<rparr>, [], map_sum id RpChannel r)))"

section \<open>The end of the stream\<close>

text \<open>The order of the source: broker, approvals, questions, monitor.\<close>

definition serve_closed :: "failing \<Rightarrow> gateway \<Rightarrow> gateway \<times> gateway_effect list" where
  "serve_closed bad gw =
     (case sv_clientId (gw_server gw) of
        None \<Rightarrow> (gw, [])
      | Some c \<Rightarrow>
          if c = [] then (gw, [])
          else
            (let (b, o1) = disconnect bad (gw_broker gw) c;
                 (a, o2) = (case gw_approval gw of None \<Rightarrow> (None, [])
                   | Some a \<Rightarrow> (case ap_disconnect bad (b, a) c of ((_, a1), out) \<Rightarrow> (Some a1, concat (map of_approval out))));
                 (q, o3) = (case gw_question gw of None \<Rightarrow> (None, [])
                   | Some q \<Rightarrow> (case qs_disconnect bad (b, q) c of ((_, q1), out) \<Rightarrow> (Some q1, concat (map of_question out))))
             in (gw\<lparr>gw_broker := b, gw_approval := a, gw_question := q,
                    gw_monitor := map_option (\<lambda>m. mon_unsubscribe m c) (gw_monitor gw)\<rparr>,
                 g_sends o1 @ o2 @ o3)))"

section \<open>Events\<close>

datatype gateway_event =
    GHello bytes rpc_id "json option"
  | GProof rpc_id jstr nat "json option"
  | GWake rpc_id
  | GRequest server_env rpc_id request
  | GClosed failing
  | GBroker host failing broker_event
  | GAsk host failing bytes nat approval_request
  | GContinue host failing
  | GQuestion failing bytes nat question_request
  | GAbort failing jstr

text \<open>A method that is not registered is answered by the JSON-RPC layer with -32601.\<close>

fun gateway_step :: "keyed_hash \<Rightarrow> gateway \<Rightarrow> gateway_event \<Rightarrow> gateway \<times> gateway_effect list" where
  "gateway_step hmac gw (GHello rnd i params) =
     (case serve_hello rnd params (gw_server gw) of (sv, r) \<Rightarrow> (gw\<lparr>gw_server := sv\<rparr>, [GReply i r]))"
| "gateway_step hmac gw (GProof i minted obj params) = serve_proof hmac i minted obj params gw"
| "gateway_step hmac gw (GWake i) = serve_wake i gw"
| "gateway_step hmac gw (GRequest en i r) =
     (case sv_registered (gw_server gw) of
        None \<Rightarrow> (gw, [GNotFound i])
      | Some c \<Rightarrow> (case dispatch en c gw r of (gw1, out, res) \<Rightarrow> (gw1, out @ [GReply i res])))"
| "gateway_step hmac gw (GClosed bad) = serve_closed bad gw"
| "gateway_step hmac gw (GBroker h bad e) =
     (case broker_step (gw_broker gw) (h, bad, e) of (b, out) \<Rightarrow> (gw\<lparr>gw_broker := b\<rparr>, g_sends out))"
| "gateway_step hmac gw (GAsk h bad rnd q request) =
     (case gw_approval gw of
        None \<Rightarrow> (gw, [])
      | Some a \<Rightarrow> (case approval_step (gw_broker gw, a) (h, bad, AAsk rnd q request) of
          ((b, a1), out) \<Rightarrow> (gw\<lparr>gw_broker := b, gw_approval := Some a1\<rparr>, concat (map of_approval out))))"
| "gateway_step hmac gw (GContinue h bad) =
     (case gw_approval gw of
        None \<Rightarrow> (gw, [])
      | Some a \<Rightarrow> (case ap_continue h bad (gw_broker gw, a) of
          ((b, a1), out) \<Rightarrow> (gw\<lparr>gw_broker := b, gw_approval := Some a1\<rparr>, concat (map of_approval out))))"
| "gateway_step hmac gw (GQuestion bad rnd n request) =
     (case gw_question gw of
        None \<Rightarrow> (gw, [])
      | Some q \<Rightarrow> (case qs_ask bad rnd n request (gw_broker gw, q) of
          ((b, q1), out) \<Rightarrow> (gw\<lparr>gw_broker := b, gw_question := Some q1\<rparr>, concat (map of_question out))))"
| "gateway_step hmac gw (GAbort bad r) =
     (case gw_question gw of
        None \<Rightarrow> (gw, [])
      | Some q \<Rightarrow> (case qs_abort bad (gw_broker gw, q) r of
          ((b, q1), out) \<Rightarrow> (gw\<lparr>gw_broker := b, gw_question := Some q1\<rparr>, concat (map of_question out))))"

section \<open>Both layers see the whole stream\<close>

datatype fan_event = FChunk bytes | FNext nat | FEnd

text \<open>A consumer asks again only after its last request was answered; nothing comes after the end.\<close>

fun fan_step :: "fan \<Rightarrow> fan_event \<Rightarrow> fan \<times> fan_effect list" where
  "fan_step f (FChunk c) = (if fn_ended f then (f, []) else fan_chunk f c)"
| "fan_step f FEnd = (if fn_ended f then (f, []) else fan_end f)"
| "fan_step f (FNext i) =
     (if i < length (fn_waiting f) \<and> \<not> fn_waiting f ! i then fan_next f i else (f, []))"

definition yielded :: "nat \<Rightarrow> fan_effect list \<Rightarrow> bytes list" where
  "yielded i = List.map_filter (\<lambda>e. case e of Yield j c \<Rightarrow> if j = i then Some c else None | _ \<Rightarrow> None)"

text \<open>The chunks of the inbound stream: those before its end.\<close>

fun inbound :: "fan_event list \<Rightarrow> bytes list" where
  "inbound [] = []"
| "inbound (FChunk c # es) = c # inbound es"
| "inbound (FNext i # es) = inbound es"
| "inbound (FEnd # es) = []"

lemma inbound_append: "inbound (g @ [e]) = (if FEnd \<in> set g then inbound g else inbound g @ inbound [e])"
  by (induction g rule: inbound.induct) auto

lemma yielded_simps [simp]:
  "yielded i [] = []"
  "yielded i (es @ fs) = yielded i es @ yielded i fs"
  "yielded i (Return j # es) = yielded i es"
  "yielded i (Yield j c # es) = (if j = i then c # yielded i es else yielded i es)"
  by (simp_all add: yielded_def map_filter_def)

lemma yielded_returns [simp]: "yielded i (map Return ks) = []"
  by (induction ks) auto

lemma yielded_yields: "distinct ks \<Longrightarrow> yielded i (map (\<lambda>j. Yield j c) ks) = (if i \<in> set ks then [c] else [])"
  by (induction ks) auto

definition fan_inv :: "nat \<Rightarrow> fan \<Rightarrow> fan_event list \<Rightarrow> fan_effect list \<Rightarrow> bool" where
  "fan_inv n f g h \<longleftrightarrow> length (fn_queues f) = n \<and> length (fn_waiting f) = n \<and> (fn_ended f \<longleftrightarrow> FEnd \<in> set g)
     \<and> (\<forall>i < n. inbound g = yielded i h @ fn_queues f ! i \<and> (fn_waiting f ! i \<longrightarrow> fn_queues f ! i = [] \<and> \<not> fn_ended f)
         \<and> (Return i \<in> set h \<longrightarrow> fn_ended f \<and> fn_queues f ! i = []))"

lemma fan_inv_step:
  assumes inv: "fan_inv n f g h" and s: "fan_step f e = (f', out)"
  shows "fan_inv n f' (g @ [e]) (h @ out)"
proof (cases e)
  case (FChunk c)
  show ?thesis
  proof (cases "fn_ended f")
    case True
    then show ?thesis using inv s FChunk by (auto simp: fan_inv_def inbound_append)
  next
    case False
    then have "f' = fst (fan_chunk f c)" "out = snd (fan_chunk f c)" using s FChunk by auto
    then show ?thesis using inv False FChunk
      by (auto simp: fan_inv_def fan_chunk_def inbound_append yielded_yields)
  qed
next
  case (FNext i)
  show ?thesis
  proof (cases "i < length (fn_waiting f) \<and> \<not> fn_waiting f ! i")
    case True
    then have n: "fan_next f i = (f', out)" using s FNext by simp
    show ?thesis
    proof (cases "fn_queues f ! i")
      case Nil
      then show ?thesis using inv n True FNext
        by (auto simp: fan_inv_def fan_next_def inbound_append nth_list_update split: if_splits)
    next
      case (Cons c q)
      then show ?thesis using inv n True FNext
        by (auto simp: fan_inv_def fan_next_def inbound_append nth_list_update)
    qed
  next
    case False
    then show ?thesis using inv s FNext by (auto simp: fan_inv_def inbound_append)
  qed
next
  case FEnd
  show ?thesis
  proof (cases "fn_ended f")
    case True
    then show ?thesis using inv s FEnd by (auto simp: fan_inv_def inbound_append)
  next
    case False
    then show ?thesis using inv s FEnd by (auto simp: fan_inv_def fan_end_def inbound_append)
  qed
qed

interpretation fans: reactive fan_step "fan_inv n"
  by unfold_locales (rule fan_inv_step)

text \<open>
  The JSON-RPC peer and the channel mux read the same stream: through any interleaving of arriving
  chunks and reads, what a consumer has been given is a prefix of the inbound chunks, in order, with
  nothing lost in between; it is told the end only after the stream ended and it got every chunk.
\<close>

theorem fanout_delivers_all:
  assumes "steps fan_step (fanout n) evs = (f, out)" and "i < n"
  shows "inbound evs = yielded i out @ fn_queues f ! i
    \<and> (Return i \<in> set out \<longrightarrow> FEnd \<in> set evs \<and> yielded i out = inbound evs)"
proof -
  have "fan_inv n (fanout n) [] []" by (simp add: fan_inv_def fanout_def)
  from fans.always[OF this assms(1)] have "fan_inv n f evs out" by simp
  then show ?thesis using assms(2) by (auto simp: fan_inv_def)
qed

theorem fanout_delivers_all_witness:
  "\<exists>f out. steps fan_step (fanout 2) [FNext 0, FChunk [1], FChunk [2], FNext 1, FNext 0, FEnd, FNext 0] = (f, out)
     \<and> yielded 0 out = [[1], [2]] \<and> Return 0 \<in> set out \<and> yielded 1 out @ fn_queues f ! 1 = [[1], [2]]"
  (is "\<exists>f out. steps fan_step (fanout 2) ?evs = (f, out) \<and> _")
proof -
  obtain f out where r: "steps fan_step (fanout 2) ?evs = (f, out)" by (meson surj_pair)
  have "Return 0 \<in> set (snd (steps fan_step (fanout 2) ?evs))" "inbound ?evs = [[1], [2]]" by code_simp+
  then show ?thesis using fanout_delivers_all[OF r, of 0] fanout_delivers_all[OF r, of 1] r by simp
qed

section \<open>Authentication\<close>

text \<open>The events of a run that make a client of the given id: its hello, and its proof after it.\<close>

definition proved :: "keyed_hash \<Rightarrow> jstr \<Rightarrow> gateway_event list \<Rightarrow> jstr \<Rightarrow> bool" where
  "proved hmac token evs c \<longleftrightarrow>
     (\<exists>g1 rnd i params g2 j obj sent g3 hello n.
        evs = g1 @ GHello rnd i params # g2 @ GProof j c obj sent # g3
        \<and> well_formed_hello params = Some (hello, n)
        \<and> string_member sent ''clientNonce'' = Some n \<and> string_member sent ''serverNonce'' = Some (hex rnd)
        \<and> string_member sent ''proof'' = Some (computeProof hmac token n (hex rnd) hello))"

definition greeted :: "gateway_event list \<Rightarrow> json \<times> jstr \<times> jstr \<Rightarrow> bool" where
  "greeted evs pend \<longleftrightarrow> (\<exists>g1 rnd i params g2. evs = g1 @ GHello rnd i params # g2
     \<and> well_formed_hello params = Some (fst pend, fst (snd pend)) \<and> snd (snd pend) = hex rnd)"

lemma proved_more: "proved hmac token g c \<Longrightarrow> proved hmac token (g @ es) c"
  unfolding proved_def by (metis append.assoc append_Cons)

lemma greeted_more: "greeted g p \<Longrightarrow> greeted (g @ es) p"
  unfolding greeted_def by (metis append.assoc append_Cons)

definition authentications :: "gateway_effect list \<Rightarrow> nat" where
  "authentications h = length (filter (\<lambda>e. \<exists>i c. e = GReply i (Inr (RpAuthenticated c))) h)"

definition hellos :: "gateway_event list \<Rightarrow> nat" where
  "hellos g = length (filter (\<lambda>e. \<exists>rnd i params. e = GHello rnd i params \<and> well_formed_hello params \<noteq> None) g)"

definition auth_inv :: "keyed_hash \<Rightarrow> jstr \<Rightarrow> gateway \<Rightarrow> gateway_event list \<Rightarrow> gateway_effect list \<Rightarrow> bool" where
  "auth_inv hmac token gw g h \<longleftrightarrow> sv_token (gw_server gw) = token
     \<and> sv_clientId (gw_server gw) = sv_registered (gw_server gw)
     \<and> (\<forall>pend. sv_pendingHello (gw_server gw) = Some pend \<longrightarrow> greeted g pend)
     \<and> (\<forall>c. sv_registered (gw_server gw) = Some c \<longrightarrow> proved hmac token g c)
     \<and> authentications h + (if sv_pendingHello (gw_server gw) = None then 0 else 1) \<le> hellos g"

text \<open>An event that leaves the handshake state alone.\<close>

lemma auth_inv_quiet:
  assumes "auth_inv hmac token gw g h" and "gw_server gw' = gw_server gw" and "authentications out = 0"
  shows "auth_inv hmac token gw' (g @ [e]) (h @ out)"
  using assms proved_more[of hmac token g _ "[e]"] greeted_more[of g _ "[e]"]
  by (auto simp: auth_inv_def authentications_def hellos_def)

lemma authentications_simps [simp]:
  "authentications [] = 0"
  "authentications (es @ fs) = authentications es + authentications fs"
  "authentications (g_sends s) = 0"
  "authentications (concat (map of_approval as)) = 0"
  "authentications (concat (map of_question qs)) = 0"
proof -
  show "authentications (concat (map of_approval as)) = 0"
  proof (induction as)
    case (Cons a as) then show ?case by (cases a) (simp_all add: authentications_def)
  qed (simp add: authentications_def)
  show "authentications (concat (map of_question qs)) = 0"
  proof (induction qs)
    case (Cons a qs) then show ?case by (cases a) (simp_all add: authentications_def)
  qed (simp add: authentications_def)
qed (auto simp: authentications_def g_sends_def filter_empty_conv)

lemma authentications_reply [simp]:
  "authentications [GReply i (Inl e)] = 0"
  "authentications [GReply i (map_sum f k r)] = (if \<exists>x c. r = Inr x \<and> k x = RpAuthenticated c then 1 else 0)"
  by (auto simp: authentications_def) (cases r; auto)+

lemma authentications_answers [simp]:
  "authentications [GReply i (Inr RpNull)] = 0"
  "authentications [GReply i (case out of [AThrow e] \<Rightarrow> Inl (TRemote e) | _ \<Rightarrow> Inr RpNull)] = 0"
  "authentications [GReply i (case qout of [QThrow e] \<Rightarrow> Inl (TRemote e) | _ \<Rightarrow> Inr RpNull)] = 0"
  by (auto simp: authentications_def split: list.split approval_effect.split question_effect.split)

lemma dispatch_server:
  assumes "dispatch en c gw r = (gw', out, res)"
  shows "gw_server gw' = gw_server gw \<and> authentications (out @ [GReply i res]) = 0"
  using assms by (cases r) (auto simp: authentications_def[of "[GFollowup _ _ _]"] authentications_def[of "[GReply _ (Inr _)]"] split: prod.splits option.splits sum.splits)

lemma closed_server: "gw_server (fst (serve_closed bad gw)) = gw_server gw \<and> authentications (snd (serve_closed bad gw)) = 0"
  by (auto simp: serve_closed_def Let_def split: option.splits prod.splits)

lemma auth_inv_step:
  assumes inv: "auth_inv hmac token gw g h" and s: "gateway_step hmac gw e = (gw', out)"
  shows "auth_inv hmac token gw' (g @ [e]) (h @ out)"
proof -
  note quiet = auth_inv_quiet[OF inv]
  show ?thesis
  proof (cases e)
    case (GHello rnd i params)
    show ?thesis
    proof (cases "well_formed_hello params")
      case None
      then have "gw' = gw" "authentications out = 0" using s GHello by (auto simp: serve_hello_def)
      then show ?thesis using quiet by simp
    next
      case (Some hn)
      then obtain hello n where hn: "well_formed_hello params = Some (hello, n)" by (cases hn) auto
      have o: "authentications out = 0" and
        st: "gw_server gw' = (gw_server gw)\<lparr>sv_pendingHello := Some (hello, n, hex rnd)\<rparr>"
        using s GHello hn by (auto simp: serve_hello_def createChallenge_def Let_def authentications_def)
      have "greeted (g @ [e]) (hello, n, hex rnd)"
        unfolding greeted_def GHello using hn by (intro exI[of _ g] exI[of _ rnd] exI[of _ i] exI[of _ params] exI[of _ "[]"]) simp
      moreover have "hellos (g @ [e]) = Suc (hellos g)" using hn by (simp add: hellos_def GHello)
      ultimately show ?thesis using inv proved_more[of hmac token g _ "[e]"] by (auto simp: auth_inv_def st o split: if_splits)
    qed
  next
    case (GProof j minted obj sent)
    show ?thesis
    proof (cases "\<exists>pend. sv_pendingHello (gw_server gw) = Some pend \<and> proof_ok hmac token pend sent")
      case False
      have t: "sv_token (gw_server gw) = token" using inv by (simp add: auth_inv_def)
      have "authentications out = 0" "sv_token (gw_server gw') = token"
        "sv_pendingHello (gw_server gw') = sv_pendingHello (gw_server gw)"
        "sv_registered (gw_server gw') = sv_registered (gw_server gw)" "sv_clientId (gw_server gw') = sv_clientId (gw_server gw)"
        using False s GProof t by (auto simp: serve_proof_def Let_def authentications_def split: option.splits)
      then show ?thesis using inv proved_more[of hmac token g _ "[e]"] greeted_more[of g _ "[e]"]
        by (auto simp: auth_inv_def hellos_def)
    next
      case True
      then obtain hello n sn where p: "sv_pendingHello (gw_server gw) = Some (hello, n, sn)" "proof_ok hmac token (hello, n, sn) sent" by auto
      have t: "sv_token (gw_server gw) = token" using inv by (simp add: auth_inv_def)
      have st: "gw_server gw' = (gw_server gw)\<lparr>sv_pendingHello := None, sv_clientId := Some minted, sv_registered := Some minted\<rparr>"
        and o: "authentications out = 1"
        using s GProof p t by (auto simp: serve_proof_def Let_def authentications_def)
      obtain g1 rnd i params g2 where gr: "g = g1 @ GHello rnd i params # g2" "well_formed_hello params = Some (hello, n)" "sn = hex rnd"
        using inv p(1) by (auto simp: auth_inv_def greeted_def)
      have "string_member sent ''clientNonce'' = Some n" "string_member sent ''serverNonce'' = Some (hex rnd)"
        "string_member sent ''proof'' = Some (computeProof hmac token n (hex rnd) hello)"
        using p(2) gr(3) by (auto simp: proof_ok_def verifyProof_iff split: option.splits)
      then have "proved hmac token (g @ [e]) minted"
        unfolding proved_def GProof using gr(1,2)
        by (intro exI[of _ g1] exI[of _ rnd] exI[of _ i] exI[of _ params] exI[of _ g2] exI[of _ j] exI[of _ obj] exI[of _ sent]
          exI[of _ "[]"] exI[of _ hello] exI[of _ n]) simp
      then show ?thesis using inv p(1) by (auto simp: auth_inv_def st o t hellos_def)
    qed
  next
    case (GWake i)
    have "sv_token (gw_server gw') = sv_token (gw_server gw)" "sv_pendingHello (gw_server gw') = sv_pendingHello (gw_server gw)"
      "sv_registered (gw_server gw') = sv_registered (gw_server gw)" "sv_clientId (gw_server gw') = sv_clientId (gw_server gw)"
      "authentications out = 0"
      using s GWake by (auto simp: serve_wake_def Let_def authentications_def split: if_splits)
    then show ?thesis using inv proved_more[of hmac token g _ "[e]"] greeted_more[of g _ "[e]"]
      by (auto simp: auth_inv_def hellos_def)
  next
    case (GRequest en i r)
    show ?thesis
    proof (cases "sv_registered (gw_server gw)")
      case None
      then have "gw' = gw" "authentications out = 0" using s GRequest by (auto simp: authentications_def)
      then show ?thesis using quiet by simp
    next
      case (Some c)
      obtain gw1 o1 res where d: "dispatch en c gw r = (gw1, o1, res)" by (metis prod_cases3)
      then have "gw' = gw1" "out = o1 @ [GReply i res]" using s GRequest Some by simp_all
      then show ?thesis using dispatch_server[OF d, of i] by (intro quiet) simp_all
    qed
  next
    case (GClosed bad)
    then show ?thesis using s closed_server[of bad gw] by (intro quiet) simp_all
  qed (use s in \<open>auto intro!: quiet quiet[where out = "[]", simplified] split: option.splits prod.splits\<close>)
qed

interpretation authentication: reactive "gateway_step hmac" "auth_inv hmac token"
  by unfold_locales (rule auth_inv_step)

text \<open>
  C1: Nobody becomes a client of the backend without the pairing token: whatever arrives on the
  connection, the methods are answered only once a \<open>hello.proof\<close> carried the keyed hash, under the token, of the
  client's nonce, of the nonce the server drew for the hello before it and of that hello; until then every
  request is answered with method not found and changes nothing. Every hello serves for one proof at
  most.
\<close>

theorem authenticated_only_by_token:
  assumes "steps (gateway_step hmac) (BackendServer token opts fatal h b a q cat m t fs) evs = (gw, out)"
  shows "(case sv_registered (gw_server gw) of
      Some c \<Rightarrow> proved hmac token evs c
    | None \<Rightarrow> \<forall>en i r. gateway_step hmac gw (GRequest en i r) = (gw, [GNotFound i]))
    \<and> authentications out \<le> hellos evs"
proof -
  have "auth_inv hmac token (BackendServer token opts fatal h b a q cat m t fs) [] []"
    by (simp add: auth_inv_def BackendServer_def hellos_def)
  from authentication.always[OF this assms] have "auth_inv hmac token gw evs out" by simp
  then show ?thesis by (auto simp: auth_inv_def split: option.split if_splits)
qed

section \<open>Failed proofs are counted and delayed\<close>

definition delays :: "gateway_effect list \<Rightarrow> nat list" where
  "delays = List.map_filter (\<lambda>e. case e of GSleep i ms \<Rightarrow> Some ms | _ \<Rightarrow> None)"

lemma delays_simps [simp]:
  "delays [] = []" "delays (es @ fs) = delays es @ delays fs" "delays [GSleep i ms] = [ms]"
  "delays [GReply i r] = []" "delays [GNotFound i] = []" "delays [GFatal] = []" "delays [GFatal, GReply i r] = []" "delays [GFollowup s m bs] = []"
  "delays (g_sends ns) = []" "delays (concat (map of_approval as)) = []" "delays (concat (map of_question qs)) = []"
proof -
  show "delays (concat (map of_approval as)) = []"
  proof (induction as)
    case (Cons a as) then show ?case by (cases a) (simp_all add: delays_def map_filter_def)
  qed (simp add: delays_def map_filter_def)
  show "delays (concat (map of_question qs)) = []"
  proof (induction qs)
    case (Cons a qs) then show ?case by (cases a) (simp_all add: delays_def map_filter_def)
  qed (simp add: delays_def map_filter_def)
qed (auto simp: delays_def map_filter_def g_sends_def filter_empty_conv)

text \<open>The handshake fields that only \<open>hello.proof\<close> and the end of its delay change.\<close>

definition throttle_inv :: "auth_options \<Rightarrow> bool \<Rightarrow> gateway \<Rightarrow> gateway_event list \<Rightarrow> gateway_effect list \<Rightarrow> bool" where
  "throttle_inv o1 fatal gw g h \<longleftrightarrow> sv_auth (gw_server gw) = o1 \<and> sv_onFatal (gw_server gw) = fatal \<and>
     delays h = map (\<lambda>k. min (k * au_baseDelayMs o1) (au_maxDelayMs o1)) [1..<Suc (sv_failures (gw_server gw))]"

lemma throttle_quiet:
  assumes "throttle_inv o1 fatal gw g h" and "sv_auth (gw_server gw') = sv_auth (gw_server gw)"
    and "sv_onFatal (gw_server gw') = sv_onFatal (gw_server gw)"
    and "sv_failures (gw_server gw') = sv_failures (gw_server gw)" and "delays out = []"
  shows "throttle_inv o1 fatal gw' (g @ [e]) (h @ out)"
  using assms by (simp add: throttle_inv_def)

lemma dispatch_delays: "dispatch en c gw r = (gw', out, res) \<Longrightarrow> delays out = []"
  by (cases r) (auto split: prod.splits option.splits sum.splits)

lemma closed_delays: "delays (snd (serve_closed bad gw)) = []"
  by (auto simp: serve_closed_def Let_def split: option.splits prod.splits)

lemma throttle_step:
  assumes inv: "throttle_inv o1 fatal gw g h" and s: "gateway_step hmac gw e = (gw', out)"
  shows "throttle_inv o1 fatal gw' (g @ [e]) (h @ out)"
proof -
  note quiet = throttle_quiet[OF inv]
  show ?thesis
  proof (cases e)
    case (GHello rnd i params)
    then show ?thesis using s by (intro quiet) (auto simp: serve_hello_def Let_def split: option.splits prod.splits)
  next
    case (GProof j minted obj sent)
    show ?thesis
    proof (cases "\<exists>pend. sv_pendingHello (gw_server gw) = Some pend \<and> \<not> proof_ok hmac (sv_token (gw_server gw)) pend sent")
      case True
      then show ?thesis using inv s GProof by (auto simp: serve_proof_def Let_def throttle_inv_def)
    next
      case False
      then show ?thesis using s GProof by (intro quiet) (auto simp: serve_proof_def Let_def split: option.splits)
    qed
  next
    case (GWake i)
    then show ?thesis using s by (intro quiet) (auto simp: serve_wake_def Let_def split: if_splits)
  next
    case (GRequest en i r)
    show ?thesis
    proof (cases "sv_registered (gw_server gw)")
      case None
      then have "gw' = gw" "delays out = []" using s GRequest by auto
      then show ?thesis using quiet by simp
    next
      case (Some c)
      obtain gw1 o1 res where d: "dispatch en c gw r = (gw1, o1, res)" by (metis prod_cases3)
      then have "gw' = gw1" "out = o1 @ [GReply i res]" using s GRequest Some by simp_all
      then show ?thesis using dispatch_server[OF d, of i] dispatch_delays[OF d] by (intro quiet) simp_all
    qed
  next
    case (GClosed bad)
    then show ?thesis using s closed_server[of bad gw] closed_delays[of bad gw] by (intro quiet) simp_all
  qed (use s in \<open>auto intro!: quiet quiet[where out = "[]", simplified] split: option.splits prod.splits\<close>)
qed

interpretation throttle: reactive "gateway_step hmac" "throttle_inv o1 fatal"
  by unfold_locales (rule throttle_step)

text \<open>
  C27: Guessing is slowed down: the failed proofs of a connection are answered after growing delays,
  the \<open>k\<close>-th after \<open>k\<close> times the base delay up to the cap, over the whole life of the connection, and once
  their number has reached the limit every such answer also asks the entry point to drop the connection.
\<close>

theorem proof_failures_throttled:
  assumes "steps (gateway_step hmac) (BackendServer token (Some mx, Some base, Some cap) True h b a q cat m t fs) evs = (gw, out)"
  shows "delays out = map (\<lambda>k. min (k * base) cap) [1..<Suc (sv_failures (gw_server gw))]
    \<and> (\<forall>i. i \<in> set (sv_sleeping (gw_server gw)) \<longrightarrow> mx \<le> sv_failures (gw_server gw) \<longrightarrow>
         GFatal \<in> set (snd (gateway_step hmac gw (GWake i))))"
proof -
  let ?o = "\<lparr>au_maxFailures = mx, au_baseDelayMs = base, au_maxDelayMs = cap\<rparr>"
  have i: "throttle_inv ?o True (BackendServer token (Some mx, Some base, Some cap) True h b a q cat m t fs) [] []"
    by (simp add: throttle_inv_def BackendServer_def)
  from throttle.always[OF i assms] have t: "throttle_inv ?o True gw evs out" by simp
  show ?thesis using t by (auto simp: throttle_inv_def serve_wake_def Let_def)
qed

section \<open>The end of a connection\<close>

text \<open>A client that goes away stays the target of no approval.\<close>

lemma ap_drop_pending:
  assumes "ap_drop_target bad c st r = (st', out)"
  shows "map_of (ap_pending (snd st')) r' = (if r' \<noteq> r then map_of (ap_pending (snd st)) r'
    else case map_of (ap_pending (snd st)) r of None \<Rightarrow> None | Some p \<Rightarrow>
      if set_del c (pr_targets p) = [] \<and> c \<in> set (pr_targets p) then None else Some (p\<lparr>pr_targets := set_del c (pr_targets p)\<rparr>))"
proof -
  obtain b a where st: "st = (b, a)" by force
  show ?thesis
  proof (cases "map_of (ap_pending a) r")
    case None
    then show ?thesis using assms st by (auto simp: ap_drop_target_def)
  next
    case (Some p)
    show ?thesis
    proof (cases "c \<in> set (pr_targets p)")
      case True
      then show ?thesis using assms st Some
        by (auto simp: ap_drop_target_def ap_settle_def Let_def delete_conv' update_conv' split: if_splits)
    next
      case False
      then have "set_del c (pr_targets p) = pr_targets p" by (auto simp: set_del_def filter_id_conv)
      then show ?thesis using assms st Some False by (auto simp: ap_drop_target_def)
    qed
  qed
qed

lemma ap_drops_pending:
  assumes "steps (ap_drop_target bad c) st rs = (st', out)" and "map_of (ap_pending (snd st')) r = Some p"
  shows "(r \<in> set rs \<longrightarrow> c \<notin> set (pr_targets p))
    \<and> (\<exists>p0. map_of (ap_pending (snd st)) r = Some p0 \<and> set (pr_targets p) \<subseteq> set (pr_targets p0))"
  using assms
proof (induction rs arbitrary: st out)
  case (Cons k rs)
  obtain st1 o1 where d: "ap_drop_target bad c st k = (st1, o1)" by (meson surj_pair)
  obtain o2 where "steps (ap_drop_target bad c) st1 rs = (st', o2)" using Cons.prems(1) d by (auto split: prod.splits)
  from Cons.IH[OF this Cons.prems(2)] obtain p0 where p0: "r \<in> set rs \<longrightarrow> c \<notin> set (pr_targets p)"
    "map_of (ap_pending (snd st1)) r = Some p0" "set (pr_targets p) \<subseteq> set (pr_targets p0)" by blast
  then show ?case using ap_drop_pending[OF d, of r] by (auto split: if_splits option.splits)
qed auto

lemma ap_disconnect_targets:
  assumes "ap_disconnect bad st c = (st', out)" and "map_of (ap_pending (snd st')) r = Some p"
  shows "c \<notin> set (pr_targets p)"
proof -
  note d = ap_drops_pending[OF assms(1)[unfolded ap_disconnect_def] assms(2)]
  then have "r \<in> set (map fst (ap_pending (snd st)))" by (metis map_of_eq_None_iff option.distinct(1) set_map)
  then show ?thesis using d by blast
qed

text \<open>Nor of a question.\<close>

lemma qs_drop_pending:
  assumes "qs_drop_target bad c st r = (st', out)"
  shows "map_of (qs_pending (snd st')) r' = (if r' \<noteq> r then map_of (qs_pending (snd st)) r'
    else case map_of (qs_pending (snd st)) r of None \<Rightarrow> None | Some p \<Rightarrow>
      if set_del c (pq_targets p) = [] \<and> c \<in> set (pq_targets p) then None else Some (p\<lparr>pq_targets := set_del c (pq_targets p)\<rparr>))"
proof -
  obtain b a where st: "st = (b, a)" by force
  show ?thesis
  proof (cases "map_of (qs_pending a) r")
    case None
    then show ?thesis using assms st by (auto simp: qs_drop_target_def)
  next
    case (Some p)
    show ?thesis
    proof (cases "c \<in> set (pq_targets p)")
      case True
      then show ?thesis using assms st Some
        by (auto simp: qs_drop_target_def qs_withdraw_def Let_def delete_conv' update_conv' split: if_splits)
    next
      case False
      then have "set_del c (pq_targets p) = pq_targets p" by (auto simp: set_del_def filter_id_conv)
      then show ?thesis using assms st Some False by (auto simp: qs_drop_target_def)
    qed
  qed
qed

lemma qs_drops_pending:
  assumes "steps (qs_drop_target bad c) st rs = (st', out)" and "map_of (qs_pending (snd st')) r = Some p"
  shows "(r \<in> set rs \<longrightarrow> c \<notin> set (pq_targets p))
    \<and> (\<exists>p0. map_of (qs_pending (snd st)) r = Some p0 \<and> set (pq_targets p) \<subseteq> set (pq_targets p0))"
  using assms
proof (induction rs arbitrary: st out)
  case (Cons k rs)
  obtain st1 o1 where d: "qs_drop_target bad c st k = (st1, o1)" by (meson surj_pair)
  obtain o2 where "steps (qs_drop_target bad c) st1 rs = (st', o2)" using Cons.prems(1) d by (auto split: prod.splits)
  from Cons.IH[OF this Cons.prems(2)] obtain p0 where p0: "r \<in> set rs \<longrightarrow> c \<notin> set (pq_targets p)"
    "map_of (qs_pending (snd st1)) r = Some p0" "set (pq_targets p) \<subseteq> set (pq_targets p0)" by blast
  then show ?case using qs_drop_pending[OF d, of r] by (auto split: if_splits option.splits)
qed auto

lemma qs_disconnect_targets:
  assumes "qs_disconnect bad st c = (st', out)" and "map_of (qs_pending (snd st')) r = Some p"
  shows "c \<notin> set (pq_targets p)"
proof -
  note d = qs_drops_pending[OF assms(1)[unfolded qs_disconnect_def] assms(2)]
  then have "r \<in> set (map fst (qs_pending (snd st)))" by (metis map_of_eq_None_iff option.distinct(1) set_map)
  then show ?thesis using d by blast
qed

text \<open>The broker of a server stays consistent whatever happens on the connection.\<close>

lemma dispatch_ok:
  assumes ok: "broker_ok (gw_broker gw)" and d: "dispatch en c gw r = (gw', out, res)"
  shows "broker_ok (gw_broker gw')"
proof -
  note step = ok_step[OF ok]
  show ?thesis
  proof (cases r)
    case (RqAttach params)
    obtain b o1 x where a: "attach (en_host en) (en_bad en) (en_now en) (en_current en) (en_buffered en) (gw_broker gw) c params
        (pendingInteractions gw (at_sessionId params)) = (b, o1, x)" by (metis prod_cases3)
    then have "broker_ok b"
      using step[of "(en_host en, en_bad en, EAttach (en_now en) (en_current en) (en_buffered en) c params
        (pendingInteractions gw (at_sessionId params)))"] by simp
    then show ?thesis using d a RqAttach by auto
  next
    case (RqDetach s)
    then show ?thesis using d step[of "(en_host en, en_bad en, EDetach c s)"] by (auto split: prod.splits)
  next
    case (RqControlRelease s)
    then show ?thesis using d step[of "(en_host en, en_bad en, EControlRelease c s)"] by (auto split: prod.splits)
  next
    case (RqApprovalAnswer p)
    then show ?thesis using d ok ap_answer_fst[of "en_bad en" "(gw_broker gw, the (gw_approval gw))" c p]
      by (auto split: option.splits prod.splits)
  next
    case (RqQuestionAnswer p)
    then show ?thesis using d ok qs_ops_fst(1)[of "en_bad en" "(gw_broker gw, the (gw_question gw))" c p]
      by (auto simp del: qs_ops_fst split: option.splits prod.splits)
  qed (use d ok in \<open>auto split: option.splits prod.splits sum.splits\<close>)
qed

lemma closed_ok: "broker_ok (gw_broker gw) \<Longrightarrow> broker_ok (gw_broker (fst (serve_closed bad gw)))"
proof (cases "sv_clientId (gw_server gw)")
  case (Some c)
  assume ok: "broker_ok (gw_broker gw)"
  obtain b o1 where d: "disconnect bad (gw_broker gw) c = (b, o1)" by (meson surj_pair)
  show ?thesis using disconnect_views(1)[OF ok d] Some ok by (auto simp: serve_closed_def d Let_def split: prod.splits option.splits)
qed (simp add: serve_closed_def)

lemma gateway_ok_step:
  assumes ok: "broker_ok (gw_broker gw)" and s: "gateway_step hmac gw e = (gw', out)"
  shows "broker_ok (gw_broker gw')"
proof (cases e)
  case (GProof j minted obj sent)
  then show ?thesis using s ok ok_connect[OF ok] by (auto simp: serve_proof_def Let_def split: option.splits if_splits)
next
  case (GRequest en i r)
  then show ?thesis using s ok dispatch_ok[OF ok] by (auto split: option.splits prod.splits)
next
  case (GClosed bad)
  then show ?thesis using s closed_ok[OF ok, of bad] by simp
next
  case (GBroker h bad be)
  then show ?thesis using s ok_step[OF ok, of "(h, bad, be)"] by (auto split: prod.splits)
next
  case (GAsk h bad rnd q request)
  then show ?thesis using s ok approval_step_ok[of "(gw_broker gw, the (gw_approval gw))" "(h, bad, AAsk rnd q request)"]
    by (auto split: option.splits prod.splits if_splits)
next
  case (GContinue h bad)
  then show ?thesis using s ok ap_continue_ok[of "(gw_broker gw, the (gw_approval gw))" h bad]
    by (auto split: option.splits prod.splits)
next
  case (GQuestion bad rnd n request)
  then show ?thesis using s ok qs_ask_fst[of bad rnd n request "(gw_broker gw, the (gw_question gw))"]
    by (auto simp del: qs_ask_fst split: option.splits prod.splits)
next
  case (GAbort bad r)
  then show ?thesis using s ok qs_ops_fst(2)[of bad "(gw_broker gw, the (gw_question gw))" r]
    by (auto simp del: qs_ops_fst split: option.splits prod.splits)
qed (use s ok in \<open>auto simp: serve_hello_def serve_wake_def Let_def split: option.splits prod.splits if_splits\<close>)

interpretation gateways: reactive "gateway_step hmac" "\<lambda>gw _ _. broker_ok (gw_broker gw)"
  by unfold_locales (rule gateway_ok_step)

lemma unsubscribed: "map_of (mo_subscriptions (mon_unsubscribe m c)) c = None"
  by (simp add: mon_unsubscribe_def delete_conv' split: option.split)

lemma closed_effect:
  assumes ok: "broker_ok (gw_broker gw)" and c: "sv_clientId (gw_server gw) = Some c" "c \<noteq> []"
    and s: "serve_closed bad gw = (gw', out)"
  shows "map_of (connections (gw_broker gw')) d = (if d = c then None else map_of (connections (gw_broker gw)) d)"
    and "holder_of (gw_broker gw') x = (if holder_of (gw_broker gw) x = Some c then None else holder_of (gw_broker gw) x)"
    and "d \<in> set (attached_of (gw_broker gw') x) \<longleftrightarrow> d \<noteq> c \<and> d \<in> set (attached_of (gw_broker gw) x)"
    and "gw_approval gw' = Some a \<Longrightarrow> map_of (ap_pending a) r = Some p \<Longrightarrow> c \<notin> set (pr_targets p)"
    and "gw_question gw' = Some q \<Longrightarrow> map_of (qs_pending q) r = Some pq \<Longrightarrow> c \<notin> set (pq_targets pq)"
    and "gw_monitor gw' = Some m \<Longrightarrow> map_of (mo_subscriptions m) c = None"
proof -
  obtain b o1 where d: "disconnect bad (gw_broker gw) c = (b, o1)" by (meson surj_pair)
  have b: "gw_broker gw' = b" using s c d by (auto simp: serve_closed_def Let_def split: prod.splits)
  note v = disconnect_views[OF ok d]
  show "map_of (connections (gw_broker gw')) d = (if d = c then None else map_of (connections (gw_broker gw)) d)"
    by (simp add: b v(3) delete_conv')
  show "holder_of (gw_broker gw') x = (if holder_of (gw_broker gw) x = Some c then None else holder_of (gw_broker gw) x)"
    by (simp add: b v(4))
  show "d \<in> set (attached_of (gw_broker gw') x) \<longleftrightarrow> d \<noteq> c \<and> d \<in> set (attached_of (gw_broker gw) x)"
    using okD(4)[OF v(1), of d x] okD(4)[OF ok, of d x] by (simp add: b v(2))
  show "c \<notin> set (pr_targets p)" if "gw_approval gw' = Some a" "map_of (ap_pending a) r = Some p"
    using s c d that ap_disconnect_targets[of bad "(b, the (gw_approval gw))" c _ _ r p]
    by (auto simp: serve_closed_def Let_def split: prod.splits option.splits)
  show "c \<notin> set (pq_targets pq)" if "gw_question gw' = Some q" "map_of (qs_pending q) r = Some pq"
    using s c d that qs_disconnect_targets[of bad "(b, the (gw_question gw))" c _ _ r pq]
    by (auto simp: serve_closed_def Let_def split: prod.splits option.splits)
  show "map_of (mo_subscriptions m) c = None" if mm: "gw_monitor gw' = Some m"
  proof -
    have "gw_monitor gw' = map_option (\<lambda>m. mon_unsubscribe m c) (gw_monitor gw)"
      using s c d by (auto simp: serve_closed_def Let_def split: prod.splits)
    then obtain m0 where "m = mon_unsubscribe m0 c" using mm by (cases "gw_monitor gw") auto
    then show ?thesis by (simp add: unsubscribed)
  qed
qed


text \<open>
  A second handshake on the same stream replaces the client id the server remembers: when the
  stream then ends, only the second client is disconnected, and the first stays connected to the broker
  with the control it held.
\<close>

theorem second_handshake_leaks_first_client:
  assumes "broker_ok (gw_broker gw)" and "sv_pendingHello (gw_server gw) = Some pend"
    and "proof_ok hmac (sv_token (gw_server gw)) pend sent"
    and "map_of (connections (gw_broker gw)) c1 = Some cn" and "holder_of (gw_broker gw) s = Some c1" and "c2 \<noteq> c1" and "c2 \<noteq> []"
    and "gateway_step hmac gw (GProof i c2 obj sent) = (gw1, out1)" and "gateway_step hmac gw1 (GClosed bad) = (gw2, out2)"
  shows "map_of (connections (gw_broker gw2)) c1 = Some cn \<and> holder_of (gw_broker gw2) s = Some c1
    \<and> map_of (connections (gw_broker gw2)) c2 = None"
proof -
  have g1: "gw_broker gw1 = connect (gw_broker gw) \<lparr>cn_clientId = c2, cn_object = obj\<rparr>" "sv_clientId (gw_server gw1) = Some c2"
    using assms(2,3,8) by (auto simp: serve_proof_def Let_def)
  have ok: "broker_ok (gw_broker gw1)" using ok_connect[OF assms(1)] by (simp add: g1)
  have h: "holder_of (gw_broker gw1) s = Some c1" "map_of (connections (gw_broker gw1)) c1 = Some cn"
    using assms(4-6) by (simp_all add: g1 connect_def holder_of_def update_conv')
  have s: "serve_closed bad gw1 = (gw2, out2)" using assms(9) by simp
  from closed_effect(1,2)[OF ok g1(2) assms(7) s] h assms(6) show ?thesis by simp
qed

section \<open>An example\<close>

text \<open>A keyed hash that tells keys and messages apart, for the examples.\<close>

definition plain_hash :: keyed_hash where "plain_hash key msg = key @ 0 # msg"

definition greeting_sample :: hello_message where
  "greeting_sample = \<lparr>hello_protocolVersion = 1, hello_capabilities = [], hello_nonce = js ''n''\<rparr>"

definition sample_proof :: "jstr \<Rightarrow> json" where
  "sample_proof token = JObj [(js ''clientNonce'', JStr (js ''n'')), (js ''serverNonce'', JStr (hex [7])), (js ''hello'', hello_json greeting_sample),
     (js ''proof'', JStr (computeProof plain_hash token (js ''n'') (hex [7]) (hello_json greeting_sample)))]"

definition sample_server :: gateway where
  "sample_server = BackendServer (js ''k'') (Some 2, Some 500, Some 600) True sample_host SessionBroker (Some (ApprovalBridge None))
     (Some QuestionBridge) None (Some MonitorCollector) (Some TransferManager) (\<lambda>_. None)"

definition sample_env :: server_env where
  "sample_env = \<lparr>en_host = sample_host, en_bad = (\<lambda>_. None), en_now = js ''t'', en_rnd = [1], en_current = None, en_buffered = [],
     en_create = (\<lambda>_. Inr (js ''s2'')), en_fork = (\<lambda>_ _ _. Inr sample_session), en_saved = (\<lambda>_ _ _. Inr JNull), en_io = no_errors\<rparr>"

text \<open>Two failed proofs, then the right one, and an attach with control.\<close>

definition sample_login :: "gateway_event list" where
  "sample_login = [GHello [7] (NumId 1 0) (Some (hello_json greeting_sample)), GProof (NumId 2 0) (js ''x'') 1 None,
     GProof (NumId 3 0) (js ''x'') 1 None, GProof (NumId 4 0) (js ''a'') 1 (Some (sample_proof (js ''k''))),
     GRequest sample_env (NumId 5 0) (RqAttach (sample_params WriteMode None))]"

definition sample_gateway :: gateway where
  "sample_gateway = sample_server\<lparr>gw_server := (gw_server sample_server)\<lparr>sv_failures := 2, sv_clientId := Some (js ''a''),
       sv_registered := Some (js ''a''), sv_sleeping := [NumId 2 0, NumId 3 0]\<rparr>,
     gw_broker := \<lparr>connections = [(js ''a'', alice)], attached = [(js ''s'', [js ''a''])], attachmentsByClient = [(js ''a'', [(js ''s'', 0)])],
       leases = [(js ''s'', \<lparr>holderId = js ''a'', attachedAt = js ''t''\<rparr>)], waitingApproval = [],
       br_subs = [(0, \<lparr>sb_conn = alice, sb_session = js ''s''\<rparr>)], br_nextSub = 1, br_hostFeeds = True\<rparr>\<rparr>"

lemma sample_hello_ok: "well_formed_hello (Some (hello_json greeting_sample)) = Some (hello_json greeting_sample, js ''n'')"
  by (simp add: well_formed_hello_def hello_json_def get_key_def greeting_sample_def js_def)

lemma sample_proof_ok: "proof_ok hmac token pend None = False"
  "proof_ok plain_hash (js ''k'') (hello_json greeting_sample, js ''n'', hex [7]) (Some (sample_proof (js ''k'')))"
  by (simp_all add: proof_ok_def string_member_def sample_proof_def get_key_def verifyProof_iff js_def split: prod.split)

lemma sample_login_run: "fst (steps (gateway_step plain_hash) sample_server sample_login) = sample_gateway"
  by (simp add: sample_login_def sample_server_def sample_gateway_def BackendServer_def serve_hello_def createChallenge_def
    sample_hello_ok sample_proof_ok serve_proof_def Let_def sample_env_def sample_defs broker_eval SessionBroker_def)

lemma sample_login_state:
  "sv_registered (gw_server sample_gateway) = Some (js ''a'')" "sv_clientId (gw_server sample_gateway) = Some (js ''a'')"
  "sv_sleeping (gw_server sample_gateway) = [NumId 2 0, NumId 3 0]" "sv_failures (gw_server sample_gateway) = 2"
  "holder_of (gw_broker sample_gateway) (js ''s'') = Some (js ''a'')"
  "map_of (connections (gw_broker sample_gateway)) (js ''a'') = Some alice"
  "sv_token (gw_server sample_gateway) = js ''k''"
  by (simp_all add: sample_gateway_def holder_of_def sample_server_def BackendServer_def)

theorem authenticated_only_by_token_witness:
  "proved plain_hash (js ''k'') sample_login (js ''a'')
   \<and> (\<forall>en i r. gateway_step plain_hash sample_server (GRequest en i r) = (sample_server, [GNotFound i]))"
proof -
  obtain gw out where r: "steps (gateway_step plain_hash) sample_server sample_login = (gw, out)" by (meson surj_pair)
  have "proved plain_hash (js ''k'') sample_login (js ''a'')"
    using authenticated_only_by_token[OF r[unfolded sample_server_def]] sample_login_state(1) r sample_login_run by simp
  moreover have "\<forall>en i r. gateway_step plain_hash sample_server (GRequest en i r) = (sample_server, [GNotFound i])"
    using authenticated_only_by_token[of plain_hash "js ''k''" _ _ _ _ _ _ _ _ _ _ "[]" sample_server]
    by (auto simp: sample_server_def BackendServer_def split: option.splits)
  ultimately show ?thesis by blast
qed

theorem proof_failures_throttled_witness:
  "\<exists>gw out. steps (gateway_step plain_hash) sample_server sample_login = (gw, out) \<and> delays out = [500, 600]
     \<and> GFatal \<in> set (snd (gateway_step plain_hash gw (GWake (NumId 2 0))))"
proof -
  obtain gw out where r: "steps (gateway_step plain_hash) sample_server sample_login = (gw, out)" by (meson surj_pair)
  then show ?thesis using proof_failures_throttled[OF r[unfolded sample_server_def]] sample_login_state(3,4) r sample_login_run
    by (simp add: upt_rec numeral_2_eq_2)
qed


theorem second_handshake_leaks_first_client_witness:
  "\<exists>gw gw1 gw2 o1 o2. gw = fst (gateway_step plain_hash sample_gateway (GHello [7] (NumId 6 0) (Some (hello_json greeting_sample))))
    \<and> gateway_step plain_hash gw (GProof (NumId 7 0) (js ''b'') 2 (Some (sample_proof (js ''k'')))) = (gw1, o1)
    \<and> gateway_step plain_hash gw1 (GClosed (\<lambda>_. None)) = (gw2, o2)
    \<and> map_of (connections (gw_broker gw2)) (js ''a'') = Some alice \<and> holder_of (gw_broker gw2) (js ''s'') = Some (js ''a'')"
proof -
  define gw where "gw = fst (gateway_step plain_hash sample_gateway (GHello [7] (NumId 6 0) (Some (hello_json greeting_sample))))"
  obtain out where r: "steps (gateway_step plain_hash) sample_server sample_login = (sample_gateway, out)"
    using sample_login_run by (metis eq_fst_iff)
  have "broker_ok (gw_broker sample_server)" by (simp add: sample_server_def BackendServer_def ok_new)
  from gateways.always[OF this r] have ok: "broker_ok (gw_broker gw)" by (simp add: gw_def serve_hello_def sample_hello_ok Let_def)
  have f: "sv_pendingHello (gw_server gw) = Some (hello_json greeting_sample, js ''n'', hex [7])"
    "proof_ok plain_hash (sv_token (gw_server gw)) (hello_json greeting_sample, js ''n'', hex [7]) (Some (sample_proof (js ''k'')))"
    "map_of (connections (gw_broker gw)) (js ''a'') = Some alice" "holder_of (gw_broker gw) (js ''s'') = Some (js ''a'')"
    using sample_login_state(5-7) sample_proof_ok(2)
    by (simp_all add: gw_def serve_hello_def sample_hello_ok createChallenge_def Let_def)
  have n: "js ''b'' \<noteq> js ''a''" "js ''b'' \<noteq> []" by (simp_all add: js_def)
  obtain gw1 o1 where s1: "gateway_step plain_hash gw (GProof (NumId 7 0) (js ''b'') 2 (Some (sample_proof (js ''k'')))) = (gw1, o1)"
    by (meson surj_pair)
  obtain gw2 o2 where s2: "gateway_step plain_hash gw1 (GClosed (\<lambda>_. None)) = (gw2, o2)" by (meson surj_pair)
  show ?thesis using second_handshake_leaks_first_client[OF ok f n s1 s2] s1 s2 gw_def by blast
qed

section \<open>The entry point\<close>

text \<open>
  \<open>runServe\<close> up to the point where it waits for the connection to close: without a token it reports
  and exits with code 1 (\<open>None\<close>), else it builds the subsystems it has a host for.
\<close>

definition runServe :: "jstr option \<Rightarrow> nat option \<times> nat option \<times> nat option \<Rightarrow> host \<Rightarrow> bool option option \<Rightarrow> bool \<Rightarrow>
    catalogs option \<Rightarrow> file_system \<Rightarrow> gateway option" where
  "runServe token auth h approvalHost questionHost cat fs =
     (case token of
        None \<Rightarrow> None
      | Some tok \<Rightarrow> Some (BackendServer tok auth True h SessionBroker (map_option ApprovalBridge approvalHost)
          (if questionHost then Some QuestionBridge else None) cat (Some MonitorCollector) (Some TransferManager) fs))"

text \<open>And after it: the subsystems are disposed; the exit code is 1 when the failure limit closed the connection.\<close>

definition runServe_end :: "failing \<Rightarrow> bool \<Rightarrow> gateway \<Rightarrow> gateway \<times> gateway_effect list \<times> nat" where
  "runServe_end bad fatal gw =
     (let (q, out) = (case gw_question gw of None \<Rightarrow> (None, [])
            | Some q \<Rightarrow> (case qs_dispose bad (gw_broker gw, q) of ((_, q1), out) \<Rightarrow> (Some q1, concat (map of_question out))))
      in (gw\<lparr>gw_monitor := map_option mon_dispose (gw_monitor gw), gw_question := q,
             gw_approval := map_option (\<lambda>a. a\<lparr>ap_hooked := False\<rparr>) (gw_approval gw)\<rparr>,
          out, if fatal then 1 else 0))"

lemma runServe_end_monitor:
  "gw_monitor gw = Some m \<Longrightarrow> mon_ok m \<Longrightarrow> runServe_end bad fatal gw = (gw', out, code) \<Longrightarrow>
   \<exists>m'. gw_monitor gw' = Some m' \<and> mo_timers m' = [] \<and> (code = 0 \<longleftrightarrow> \<not> fatal)"
  using mon_ok_dispose[of m] by (auto simp: runServe_end_def Let_def mon_ok_def split: prod.splits if_splits)

end
