(* ===== verification/Handle.thy ===== *)
theory Handle
  imports Broker
begin

text \<open>
  The handle of an attached session on the frontend, \<^verbatim>\<open>remote-client/src/handle.ts\<close>. A callback is
  a number, and calling it is an effect. What the handle reads of its connection (client id and
  the capabilities of the backend) is the record \<open>conn_view\<close>. An operation that calls the backend is
  two steps: \<open>handle_request\<close>, with its checks, up to the call, and \<open>handle_complete\<close> when the call has
  been answered.
\<close>

section \<open>State\<close>

record conn_view =
  cv_targetId :: jstr
  cv_clientId :: jstr
  cv_capabilities :: "jstr list"

record handle =
  rh_sessionId :: jstr
  rh_mode :: attach_mode
  rh_cursor :: int
  rh_status :: agent_status
  rh_detached :: bool
  rh_wired :: bool
  rh_eventCbs :: "nat list"
  rh_statusCbs :: "nat list"
  rh_controlCbs :: "nat list"
  rh_approvalCbs :: "nat list"
  rh_questionCbs :: "nat list"
  rh_pendingApprovals :: "(jstr \<times> approval_request_params) list"
  rh_pendingQuestions :: "(jstr \<times> question_request_params) list"

datatype handle_effect =
    CbEvent nat wire_event
  | CbStatus nat agent_status
  | CbControl nat "jstr option" control_reason
  | CbApproval nat approval_request_params
  | CbQuestion nat question_request_params
  | Unsubscribed
  | OnDetached

definition toAgentStatus :: "session_status \<Rightarrow> agent_status" where
  "toAgentStatus s = (if s = Running \<or> s = WaitingApproval then AgentRunning else AgentIdle)"

section \<open>Pending interactions\<close>

definition addPendingApproval :: "handle \<Rightarrow> approval_request_params \<Rightarrow> handle \<times> handle_effect list" where
  "addPendingApproval h req =
     (if rh_detached h \<or> map_of (rh_pendingApprovals h) (aq_requestId req) \<noteq> None then (h, [])
      else (h\<lparr>rh_pendingApprovals := AList.update (aq_requestId req) req (rh_pendingApprovals h)\<rparr>,
        map (\<lambda>cb. CbApproval cb req) (rh_approvalCbs h)))"

definition addPendingQuestion :: "handle \<Rightarrow> question_request_params \<Rightarrow> handle \<times> handle_effect list" where
  "addPendingQuestion h req =
     (if rh_detached h \<or> map_of (rh_pendingQuestions h) (qq_questionId req) \<noteq> None then (h, [])
      else (h\<lparr>rh_pendingQuestions := AList.update (qq_questionId req) req (rh_pendingQuestions h)\<rparr>,
        map (\<lambda>cb. CbQuestion cb req) (rh_questionCbs h)))"

fun add_pending :: "handle \<Rightarrow> pending_interaction \<Rightarrow> handle \<times> handle_effect list" where
  "add_pending h (PendingApproval req) = addPendingApproval h req"
| "add_pending h (PendingQuestion req) = addPendingQuestion h req"

definition replayPending :: "handle \<Rightarrow> pending_interaction list option \<Rightarrow> bool \<Rightarrow> handle \<times> handle_effect list" where
  "replayPending h interactions replace =
     (if rh_detached h then (h, [])
      else steps add_pending
        (if replace then h\<lparr>rh_pendingApprovals := [], rh_pendingQuestions := []\<rparr> else h)
        (case interactions of None \<Rightarrow> [] | Some ps \<Rightarrow> ps))"

definition DaemonAgentHandle :: "jstr \<Rightarrow> attach_mode \<Rightarrow> int \<Rightarrow> pending_interaction list option \<Rightarrow> handle" where
  "DaemonAgentHandle s m initialLastSeq pendings =
     fst (replayPending \<lparr>rh_sessionId = s, rh_mode = m, rh_cursor = initialLastSeq, rh_status = AgentIdle,
       rh_detached = False, rh_wired = True, rh_eventCbs = [], rh_statusCbs = [], rh_controlCbs = [],
       rh_approvalCbs = [], rh_questionCbs = [], rh_pendingApprovals = [], rh_pendingQuestions = []\<rparr> pendings False)"

text \<open>The notifications the constructor wires up; requests for other sessions are passed over.\<close>

fun daemon_notification :: "handle \<Rightarrow> notification \<Rightarrow> handle \<times> handle_effect list" where
  "daemon_notification h (NApprovalRequest req) =
     (if rh_wired h \<and> aq_sessionId req = rh_sessionId h then addPendingApproval h req else (h, []))"
| "daemon_notification h (NApprovalClosed n) =
     (if rh_wired h then (h\<lparr>rh_pendingApprovals := AList.delete (ac_requestId n) (rh_pendingApprovals h)\<rparr>, []) else (h, []))"
| "daemon_notification h (NQuestionRequest req) =
     (if rh_wired h \<and> qq_sessionId req = rh_sessionId h then addPendingQuestion h req else (h, []))"
| "daemon_notification h (NQuestionClosed n) =
     (if rh_wired h then (h\<lparr>rh_pendingQuestions := AList.delete (qc_questionId n) (rh_pendingQuestions h)\<rparr>, []) else (h, []))"
| "daemon_notification h _ = (h, [])"

section \<open>Callbacks\<close>

definition onEvent :: "handle \<Rightarrow> nat \<Rightarrow> handle" where
  "onEvent h cb = h\<lparr>rh_eventCbs := set_add cb (rh_eventCbs h)\<rparr>"

definition onStatusCb :: "handle \<Rightarrow> nat \<Rightarrow> handle" where
  "onStatusCb h cb = h\<lparr>rh_statusCbs := set_add cb (rh_statusCbs h)\<rparr>"

definition onControlChanged :: "handle \<Rightarrow> nat \<Rightarrow> handle" where
  "onControlChanged h cb = h\<lparr>rh_controlCbs := set_add cb (rh_controlCbs h)\<rparr>"

text \<open>Registration replays what is still pending to the new callback.\<close>

definition onApproval :: "handle \<Rightarrow> nat \<Rightarrow> handle \<times> handle_effect list" where
  "onApproval h cb = (h\<lparr>rh_approvalCbs := set_add cb (rh_approvalCbs h)\<rparr>,
     map (CbApproval cb \<circ> snd) (rh_pendingApprovals h))"

definition detached_error :: "handle \<Rightarrow> remote_error" where
  "detached_error h = rerr REMOTE_ABORTED (js ''session \"'' @ rh_sessionId h @ js ''\": handle is detached'')"

definition assertAttached :: "handle \<Rightarrow> remote_error option" where
  "assertAttached h = (if rh_detached h then Some (detached_error h) else None)"

definition assertCapability :: "conn_view \<Rightarrow> capability \<Rightarrow> string \<Rightarrow> remote_error option" where
  "assertCapability cv cap feature =
     (if js (Capabilities cap) \<in> set (cv_capabilities cv) then None
      else Some (rerr REMOTE_CAPABILITY_UNSUPPORTED (js ''target \"'' @ cv_targetId cv @ js ''\": backend does not support ''
        @ js feature @ js '' (missing \"'' @ js (Capabilities cap) @ js ''\" capability)'')))"

text \<open>The first of a list of checks that throws.\<close>

fun checks :: "remote_error option list \<Rightarrow> remote_error option" where
  "checks [] = None"
| "checks (Some e # cs) = Some e"
| "checks (None # cs) = checks cs"

definition onQuestion :: "conn_view \<Rightarrow> handle \<Rightarrow> nat \<Rightarrow> remote_error + handle \<times> handle_effect list" where
  "onQuestion cv h cb =
     (case checks [assertAttached h, assertCapability cv Questions ''question requests (questions)''] of
        Some e \<Rightarrow> Inl e
      | None \<Rightarrow> Inr (h\<lparr>rh_questionCbs := set_add cb (rh_questionCbs h)\<rparr>,
          map (CbQuestion cb \<circ> snd) (rh_pendingQuestions h)))"

section \<open>What the connection delivers\<close>

definition reattachRequest :: "handle \<Rightarrow> attach_params" where
  "reattachRequest h = \<lparr>at_sessionId = rh_sessionId h, at_mode = rh_mode h, at_force = None, at_sinceSeq = Some (rh_cursor h)\<rparr>"

definition onReattached :: "handle \<Rightarrow> attach_result \<Rightarrow> handle \<times> handle_effect list" where
  "onReattached h result = replayPending h (ar_pendingInteractions result) True"

definition handleEvent :: "handle \<Rightarrow> wire_event \<Rightarrow> handle \<times> handle_effect list" where
  "handleEvent h e =
     (if rh_detached h \<or> we_seq e \<le> rh_cursor h then (h, [])
      else (h\<lparr>rh_cursor := we_seq e\<rparr>, map (\<lambda>cb. CbEvent cb e) (rh_eventCbs h)))"

definition handleStatus :: "handle \<Rightarrow> session_status \<Rightarrow> handle \<times> handle_effect list" where
  "handleStatus h s =
     (if rh_detached h \<or> toAgentStatus s = rh_status h then (h, [])
      else (h\<lparr>rh_status := toAgentStatus s\<rparr>, map (\<lambda>cb. CbStatus cb (toAgentStatus s)) (rh_statusCbs h)))"

definition handleControl :: "conn_view \<Rightarrow> handle \<Rightarrow> jstr option \<Rightarrow> control_reason \<Rightarrow> handle \<times> handle_effect list" where
  "handleControl cv h holder reason =
     (if rh_detached h then (h, [])
      else
        (let mine = (holder = Some (cv_clientId cv));
             m = (if rh_mode h = WriteMode \<and> \<not> mine then ReadMode
                  else if mine \<and> reason = Acquired then WriteMode else rh_mode h)
         in (h\<lparr>rh_mode := m\<rparr>, map (\<lambda>cb. CbControl cb holder reason) (rh_controlCbs h))))"

definition onReattachFailed :: "handle \<Rightarrow> handle \<times> handle_effect list" where
  "onReattachFailed h =
     (if rh_detached h then (h, [])
      else (h\<lparr>rh_detached := True, rh_wired := False, rh_mode := ReadMode\<rparr>,
        [Unsubscribed] @ (if rh_mode h = WriteMode then map (\<lambda>cb. CbControl cb None Disconnected) (rh_controlCbs h) else [])
        @ [OnDetached]))"

section \<open>Calls\<close>

datatype handle_op =
    OpPrompt jstr "prompt_block list option"
  | OpCancel
  | OpReleaseControl
  | OpDetach
  | OpAcquireWrite bool
  | OpHistory "int option" "int option"
  | OpFork "int option" "int option"
  | OpCompact
  | OpAnswerApproval approval_answer_params
  | OpAnswerQuestion question_answer_params

text \<open>What goes to the backend.\<close>

datatype daemon_call =
    DPrompt jstr jstr "prompt_block list option"
  | DCancel jstr
  | DControlRelease jstr
  | DDetach jstr
  | DAttach attach_params
  | DHistory history_params
  | DFork jstr "int option" "int option"
  | DCompact jstr
  | DApprovalAnswer approval_answer_params
  | DQuestionAnswer question_answer_params

definition no_control :: "handle \<Rightarrow> remote_error" where
  "no_control h = rerr REMOTE_SESSION_LOCKED
     (js ''session \"'' @ rh_sessionId h @ js ''\": this handle holds no write control (read-mode attach)'')"

text \<open>
  The outcome of the part before the call: an error, a return without a call (\<open>Inr None\<close>), or a call.
\<close>

definition guarded :: "handle \<Rightarrow> remote_error option list \<Rightarrow> daemon_call \<Rightarrow> handle \<times> handle_effect list \<times> (remote_error + daemon_call option)" where
  "guarded h cs call = (h, [], case checks cs of Some e \<Rightarrow> Inl e | None \<Rightarrow> Inr (Some call))"

fun handle_request :: "conn_view \<Rightarrow> handle \<Rightarrow> handle_op \<Rightarrow> handle \<times> handle_effect list \<times> (remote_error + daemon_call option)" where
  "handle_request cv h (OpPrompt text content) =
     guarded h [assertAttached h, if rh_mode h = WriteMode then None else Some (no_control h),
       if content = None then None else assertCapability cv PromptBlocks ''structured prompt content (prompt-blocks)'']
       (DPrompt (rh_sessionId h) text content)"
| "handle_request cv h OpCancel = guarded h [assertAttached h] (DCancel (rh_sessionId h))"
| "handle_request cv h OpReleaseControl =
     (if rh_detached h \<or> rh_mode h = WriteMode then guarded h [assertAttached h] (DControlRelease (rh_sessionId h))
      else (h, [], Inr None))"
| "handle_request cv h OpDetach =
     (if rh_detached h then (h, [], Inr None)
      else (h\<lparr>rh_detached := True, rh_wired := False\<rparr>, [Unsubscribed, OnDetached], Inr (Some (DDetach (rh_sessionId h)))))"
| "handle_request cv h (OpAcquireWrite force) =
     (if \<not> rh_detached h \<and> rh_mode h = WriteMode then (h, [], Inr None)
      else guarded h [assertAttached h] (DAttach \<lparr>at_sessionId = rh_sessionId h, at_mode = WriteMode,
        at_force = (if force then Some True else None), at_sinceSeq = Some (rh_cursor h)\<rparr>))"
| "handle_request cv h (OpHistory before maxm) =
     guarded h [assertAttached h, assertCapability cv History ''session.history'']
       (DHistory \<lparr>hi_sessionId = rh_sessionId h, hi_beforeSeq = before, hi_maxMessages = maxm\<rparr>)"
| "handle_request cv h (OpFork boundary atSeq) =
     guarded h [assertAttached h, if atSeq = None then None
       else assertCapability cv ForkAtSeq ''session.fork at a turn boundary (fork-at-seq)'']
       (DFork (rh_sessionId h) boundary atSeq)"
| "handle_request cv h OpCompact =
     guarded h [assertAttached h, assertCapability cv Compact ''session.compact''] (DCompact (rh_sessionId h))"
| "handle_request cv h (OpAnswerApproval a) = guarded h [assertAttached h] (DApprovalAnswer a)"
| "handle_request cv h (OpAnswerQuestion a) =
     guarded h [assertAttached h, assertCapability cv Questions ''question.answer (questions)''] (DQuestionAnswer a)"

text \<open>After the call: what the answer changes, and what the operation throws.\<close>

fun handle_complete :: "handle \<Rightarrow> handle_op \<Rightarrow> remote_error option \<Rightarrow> handle \<times> remote_error option" where
  "handle_complete h OpDetach (Some e) = (h, if err_code e = REMOTE_CONN_LOST then None else Some e)"
| "handle_complete h op (Some e) = (h, Some e)"
| "handle_complete h OpReleaseControl None = (h\<lparr>rh_mode := ReadMode\<rparr>, None)"
| "handle_complete h (OpAcquireWrite f) None = (h\<lparr>rh_mode := WriteMode\<rparr>, None)"
| "handle_complete h (OpAnswerApproval a) None =
     (h\<lparr>rh_pendingApprovals := AList.delete (aa_requestId a) (rh_pendingApprovals h)\<rparr>, None)"
| "handle_complete h (OpAnswerQuestion a) None =
     (h\<lparr>rh_pendingQuestions := AList.delete (qa_questionId a) (rh_pendingQuestions h)\<rparr>, None)"
| "handle_complete h op None = (h, None)"

section \<open>Events reach a callback once and in order\<close>

definition events_to :: "nat \<Rightarrow> handle_effect list \<Rightarrow> wire_event list" where
  "events_to cb = List.map_filter (\<lambda>x. case x of CbEvent c e \<Rightarrow> if c = cb then Some e else None | _ \<Rightarrow> None)"

lemma events_to_simps [simp]:
  "events_to cb [] = []" "events_to cb (xs @ ys) = events_to cb xs @ events_to cb ys"
  by (simp_all add: events_to_def map_filter_def)

lemma events_to_callbacks:
  "distinct cbs \<Longrightarrow> events_to cb (map (\<lambda>c. CbEvent c e) cbs) = (if cb \<in> set cbs then [e] else [])"
  by (induction cbs) (auto simp: events_to_def map_filter_def)

text \<open>The filter on the cursor is the watermark filter of the replay on the backend.\<close>

lemma handleEvents_above:
  assumes "steps handleEvent h es = (h', out)" and "\<not> rh_detached h" and "cb \<in> set (rh_eventCbs h)" and "distinct (rh_eventCbs h)"
  shows "events_to cb out = above (rh_cursor h) es \<and> rh_eventCbs h' = rh_eventCbs h \<and> \<not> rh_detached h'
    \<and> rh_cursor h' = last (rh_cursor h # map we_seq (above (rh_cursor h) es))"
  using assms
proof (induction es arbitrary: h out)
  case (Cons e es)
  obtain h1 o1 where e: "handleEvent h e = (h1, o1)" by (meson surj_pair)
  then obtain o2 where s: "steps handleEvent h1 es = (h', o2)" and out: "out = o1 @ o2"
    using Cons.prems(1) by (auto split: prod.splits)
  show ?case
  proof (cases "we_seq e \<le> rh_cursor h")
    case True
    then have "h1 = h" "o1 = []" using e by (auto simp: handleEvent_def)
    then show ?thesis using Cons.IH[OF s] Cons.prems(2-4) True out by auto
  next
    case False
    then have "h1 = h\<lparr>rh_cursor := we_seq e\<rparr>" "o1 = map (\<lambda>cb. CbEvent cb e) (rh_eventCbs h)"
      using e Cons.prems(2) by (auto simp: handleEvent_def)
    then show ?thesis using Cons.IH[OF s] Cons.prems(2-4) False out events_to_callbacks[OF Cons.prems(4), of cb e] by auto
  qed
qed auto

lemma above_append: "above w (xs @ ys) = above w xs @ above (last (w # map we_seq (above w xs))) ys"
  by (induction xs arbitrary: w) auto

lemma above_sorted: "sorted_wrt (\<lambda>a b. we_seq a < we_seq b) xs \<Longrightarrow> above w xs = filter (\<lambda>e. w < we_seq e) xs"
proof (induction xs arbitrary: w)
  case (Cons x xs)
  have "filter (\<lambda>e. we_seq x < we_seq e) xs = filter (\<lambda>e. w < we_seq e) xs" if "w < we_seq x"
    using Cons.prems that by (intro filter_cong) auto
  then show ?case using Cons by auto
qed simp

lemma above_none: "\<forall>e \<in> set xs. we_seq e \<le> w \<Longrightarrow> above w xs = []"
  by (induction xs) auto

text \<open>The cursor after a sorted list: the last number above it, or what it was.\<close>

lemma last_sorted: "sorted_wrt (\<lambda>a b. we_seq a < we_seq b) ys \<Longrightarrow> e \<in> set ys \<Longrightarrow> we_seq e \<le> we_seq (last ys)"
  by (induction ys) (auto intro: less_imp_le)

lemma last_filter:
  obtains "filter (\<lambda>x. w < we_seq x) xs = []" "last (w # map we_seq (filter (\<lambda>x. w < we_seq x) xs)) = w"
  | x where "x \<in> set xs" "w < we_seq x" "last (w # map we_seq (filter (\<lambda>x. w < we_seq x) xs)) = we_seq x"
      "x = last (filter (\<lambda>x. w < we_seq x) xs)" "filter (\<lambda>x. w < we_seq x) xs \<noteq> []"
proof (cases "filter (\<lambda>x. w < we_seq x) xs = []")
  case True
  then show thesis using that(1) by simp
next
  case False
  then have "last (filter (\<lambda>x. w < we_seq x) xs) \<in> set (filter (\<lambda>x. w < we_seq x) xs)" by (rule last_in_set)
  then show thesis using that(2) False by (simp add: last_map)
qed

lemma last_filter_bound:
  assumes "sorted_wrt (\<lambda>a b. we_seq a < we_seq b) xs" and "e \<in> set xs"
  shows "we_seq e \<le> last (w # map we_seq (filter (\<lambda>x. w < we_seq x) xs))"
proof (cases rule: last_filter[of w xs])
  case 1
  then show ?thesis using assms(2) by (auto simp: filter_empty_conv)
next
  case (2 x)
  show ?thesis
  proof (cases "w < we_seq e")
    case True
    then show ?thesis using last_sorted[OF sorted_wrt_filter[OF assms(1)], of e "\<lambda>x. w < we_seq x"] assms(2) 2 by simp
  next
    case False
    then show ?thesis using 2 by simp
  qed
qed

text \<open>
  C15: A handle that re-attaches misses nothing and repeats nothing. It asks for the events after its
  cursor; whatever the backend replays from the session's log and from what it buffered meanwhile, a
  callback gets exactly the events of the log after the cursor, each once and in order, although the
  backend sends the buffered ones twice. Live events that follow are delivered after them.
\<close>

theorem reattach_delivers_exactly_once:
  assumes "sorted_wrt (\<lambda>a b. we_seq a < we_seq b) (hs_events current @ live)" and "set buffered \<subseteq> set (hs_events current)"
    and "\<not> rh_detached h" and "cb \<in> set (rh_eventCbs h)" and "distinct (rh_eventCbs h)"
    and "\<forall>e \<in> set live. rh_cursor h < we_seq e"
    and "steps handleEvent h (replay current (at_sinceSeq (reattachRequest h)) buffered @ live) = (h', out)"
  shows "events_to cb out = filter (\<lambda>e. rh_cursor h < we_seq e) (hs_events current) @ live"
proof -
  let ?q = "rh_cursor h" let ?new = "filter (\<lambda>e. ?q < we_seq e) (hs_events current)"
  have so: "sorted_wrt (\<lambda>a b. we_seq a < we_seq b) (hs_events current)" "sorted_wrt (\<lambda>a b. we_seq a < we_seq b) live"
    "\<forall>a \<in> set (hs_events current). \<forall>b \<in> set live. we_seq a < we_seq b" using assms(1) by (simp_all add: sorted_wrt_append)
  define w where "w = last (?q # map we_seq ?new)"
  have n: "above ?q ?new = ?new" using above_sorted[OF sorted_wrt_filter[OF so(1)]] by simp
  have "we_seq e \<le> w" if "e \<in> set (above ?q buffered)" for e
  proof -
    have "set (above q es) \<subseteq> set es" for q es by (induction es arbitrary: q) auto
    then have "e \<in> set (hs_events current)" using that assms(2) by blast
    then show ?thesis using last_filter_bound[OF so(1)] by (simp add: w_def)
  qed
  then have b: "above w (above ?q buffered) = []" by (intro above_none) simp
  have "w < we_seq e" if "e \<in> set live" for e
  proof -
    consider "w = ?q" | x where "x \<in> set (hs_events current)" "w = we_seq x"
      unfolding w_def by (cases rule: last_filter[of ?q "hs_events current"]) blast+
    then show ?thesis using that so(3) assms(6) by cases auto
  qed
  then have l: "above w live = live" using above_sorted[OF so(2), of w] by (simp add: filter_id_conv)
  have "replay current (at_sinceSeq (reattachRequest h)) buffered = ?new @ above ?q buffered"
    by (simp add: reattachRequest_def replay_def)
  then have "above ?q (replay current (at_sinceSeq (reattachRequest h)) buffered @ live) = ?new @ live"
  proof -
    have "above ?q (?new @ rest) = ?new @ above w rest" for rest unfolding above_append n w_def ..
    moreover have "above w (above ?q buffered @ live) = live" unfolding above_append b using l by simp
    ultimately show ?thesis by (simp add: \<open>replay current _ buffered = _\<close>)
  qed
  then show ?thesis using handleEvents_above[OF assms(7,3-5)] by simp
qed

section \<open>Local checks\<close>

text \<open>
  The handle makes no call that is bound to fail: a detached handle calls nothing, a prompt is sent
  only in write mode, and prompt blocks, history, compaction, forks at a sequence number and answers to
  questions only to a backend that announced the capability; every refusal is local and leaves the
  handle as it is.
\<close>

theorem handle_calls_are_allowed:
  assumes "handle_request cv h op = (h', out, r)"
  shows "case r of
      Inr (Some call) \<Rightarrow> \<not> rh_detached h
        \<and> (case call of
             DPrompt s text content \<Rightarrow> rh_mode h = WriteMode \<and> (content = None \<or> js (Capabilities PromptBlocks) \<in> set (cv_capabilities cv))
           | DHistory _ \<Rightarrow> js (Capabilities History) \<in> set (cv_capabilities cv)
           | DFork s b atSeq \<Rightarrow> atSeq = None \<or> js (Capabilities ForkAtSeq) \<in> set (cv_capabilities cv)
           | DCompact _ \<Rightarrow> js (Capabilities Compact) \<in> set (cv_capabilities cv)
           | DQuestionAnswer _ \<Rightarrow> js (Capabilities Questions) \<in> set (cv_capabilities cv)
           | DControlRelease _ \<Rightarrow> rh_mode h = WriteMode
           | DAttach p \<Rightarrow> rh_mode h = ReadMode \<and> at_sinceSeq p = Some (rh_cursor h)
           | _ \<Rightarrow> True)
    | Inr None \<Rightarrow> h' = h
    | Inl e \<Rightarrow> h' = h \<and> err_code e \<in> {REMOTE_ABORTED, REMOTE_SESSION_LOCKED, REMOTE_CAPABILITY_UNSUPPORTED}"
proof -
  have two: "m \<noteq> WriteMode \<longleftrightarrow> m = ReadMode" for m by (cases m) simp_all
  show ?thesis using assms
    by (cases op) (auto simp: guarded_def assertAttached_def assertCapability_def no_control_def detached_error_def rerr_def two
      split: if_splits option.splits)
qed

section \<open>Examples\<close>

definition sample_handle :: handle where
  "sample_handle = onEvent (DaemonAgentHandle (js ''s'') ReadMode 0 None) 5"

text \<open>The client has seen event 0; event 2 is in the log and in the buffer; event 3 is live.\<close>

theorem reattach_delivers_exactly_once_witness:
  "\<exists>h' out. steps handleEvent sample_handle
      (replay sample_session (at_sinceSeq (reattachRequest sample_handle)) [sample_event 2] @ [sample_event 3]) = (h', out)
    \<and> events_to 5 out = [sample_event 1, sample_event 2, sample_event 3]"
proof -
  obtain h' out where r: "steps handleEvent sample_handle
      (replay sample_session (at_sinceSeq (reattachRequest sample_handle)) [sample_event 2] @ [sample_event 3]) = (h', out)"
    by (meson surj_pair)
  have h: "\<not> rh_detached sample_handle" "5 \<in> set (rh_eventCbs sample_handle)" "distinct (rh_eventCbs sample_handle)" "rh_cursor sample_handle = 0"
    by (simp_all add: sample_handle_def onEvent_def DaemonAgentHandle_def replayPending_def)
  have e: "sorted_wrt (\<lambda>a b. we_seq a < we_seq b) (hs_events sample_session @ [sample_event 3])"
    "set [sample_event 2] \<subseteq> set (hs_events sample_session)" "\<forall>e \<in> set [sample_event 3]. rh_cursor sample_handle < we_seq e"
    by (simp_all add: sample_session_def sample_event_def h(4))
  show ?thesis using reattach_delivers_exactly_once[OF e(1,2) h(1-3) e(3) r] r h(4)
    by (simp add: sample_session_def sample_event_def)
qed

theorem handle_calls_are_allowed_witness:
  "\<exists>e. handle_request \<lparr>cv_targetId = [], cv_clientId = [], cv_capabilities = []\<rparr> sample_handle (OpPrompt (js ''hi'') None) =
      (sample_handle, [], Inl e) \<and> err_code e \<in> {REMOTE_ABORTED, REMOTE_SESSION_LOCKED, REMOTE_CAPABILITY_UNSUPPORTED}"
proof -
  let ?cv = "\<lparr>cv_targetId = [], cv_clientId = [], cv_capabilities = []\<rparr>"
  obtain e where r: "handle_request ?cv sample_handle (OpPrompt (js ''hi'') None) = (sample_handle, [], Inl e)"
    by (simp add: guarded_def sample_handle_def onEvent_def DaemonAgentHandle_def replayPending_def assertAttached_def)
  then show ?thesis using handle_calls_are_allowed[OF r] by auto
qed

end
