(* ===== verification/Connection.thy ===== *)
theory Connection
  imports Handle
begin

text \<open>
  The daemon channel of a target, \<^verbatim>\<open>remote-client/src/connection.ts\<close>: the connection attempt with its
  handshake, the reconnect loop with backoff, and the re-attachment of the subscribers. An attempt
  (\<open>runOpen\<close>) is suspended in \<open>tc_open\<close>, either until the handshake is through or until the subscribers
  are re-attached; the settling of its promise and the handlers of \<open>launchAttempt\<close> are one step. A peer
  and a subscriber are numbers.
\<close>

section \<open>State\<close>

datatype open_phase = Connecting nat | Reattaching nat

record connection_config =
  cc_initialDelayMs :: nat
  cc_maxDelayMs :: nat
  cc_maxAttempts :: "nat option"

record target_connection =
  tc_targetId :: jstr
  tc_config :: connection_config
  tc_peer :: "nat option"
  tc_gen :: nat
  tc_connected :: bool
  tc_open :: "open_phase option"
  tc_timer :: "nat option"
  tc_backoff :: nat
  tc_attempts :: nat
  tc_disposed :: bool
  tc_clientId :: jstr
  tc_capabilities :: "jstr list"
  tc_subscribers :: "(jstr \<times> nat list) list"

definition TargetConnection :: "jstr \<Rightarrow> connection_config \<Rightarrow> target_connection" where
  "TargetConnection target cfg = \<lparr>tc_targetId = target, tc_config = cfg, tc_peer = None, tc_gen = 0, tc_connected = False,
     tc_open = None, tc_timer = None, tc_backoff = cc_initialDelayMs cfg, tc_attempts = 0, tc_disposed = False,
     tc_clientId = [], tc_capabilities = [], tc_subscribers = []\<rparr>"

datatype connection_effect =
    Launched
  | ResolvedNow
  | RejectedWith remote_error
  | Killed
  | AskDetach nat jstr
  | AskReattach nat

section \<open>Subscribers\<close>

definition subscribers_of :: "target_connection \<Rightarrow> jstr \<Rightarrow> nat list" where
  "subscribers_of tc s = (case map_of (tc_subscribers tc) s of None \<Rightarrow> [] | Some xs \<Rightarrow> xs)"

definition tc_subscribe :: "target_connection \<Rightarrow> jstr \<Rightarrow> nat \<Rightarrow> target_connection" where
  "tc_subscribe tc s sub = tc\<lparr>tc_subscribers := AList.update s (set_add sub (subscribers_of tc s)) (tc_subscribers tc)\<rparr>"

definition tc_unsubscribe :: "target_connection \<Rightarrow> jstr \<Rightarrow> nat \<Rightarrow> target_connection" where
  "tc_unsubscribe tc s sub =
     (case map_of (tc_subscribers tc) s of
        None \<Rightarrow> tc
      | Some xs \<Rightarrow>
          (let ys = set_del sub xs
           in tc\<lparr>tc_subscribers := (if ys = [] then AList.delete s (tc_subscribers tc) else AList.update s ys (tc_subscribers tc))\<rparr>))"

text \<open>Who gets a notification of the session feed.\<close>

definition route :: "target_connection \<Rightarrow> notification \<Rightarrow> nat list" where
  "route tc n = (case n of NEvent s _ \<Rightarrow> subscribers_of tc s | NStatus s _ \<Rightarrow> subscribers_of tc s
     | NControl s _ _ \<Rightarrow> subscribers_of tc s | _ \<Rightarrow> [])"

section \<open>Calls\<close>

definition channel_error :: "target_connection \<Rightarrow> string \<Rightarrow> remote_error" where
  "channel_error tc what = rerr REMOTE_CONN_LOST (js ''target \"'' @ tc_targetId tc @ js ''\": '' @ js what)"

text \<open>The peer a call goes to.\<close>

definition tc_call :: "target_connection \<Rightarrow> remote_error + nat" where
  "tc_call tc =
     (case tc_peer tc of
        None \<Rightarrow> Inl (channel_error tc ''daemon channel is down'')
      | Some p \<Rightarrow> if tc_connected tc then Inr p else Inl (channel_error tc ''daemon channel is down''))"

section \<open>The reconnect loop\<close>

definition scheduleReconnect :: "target_connection \<Rightarrow> target_connection" where
  "scheduleReconnect tc =
     (if tc_disposed tc \<or> tc_connected tc \<or> tc_timer tc \<noteq> None then tc
      else if (case cc_maxAttempts (tc_config tc) of None \<Rightarrow> False | Some n \<Rightarrow> n \<le> tc_attempts tc) then tc
      else tc\<lparr>tc_timer := Some (tc_backoff tc)\<rparr>)"

definition attempt_failed :: "target_connection \<Rightarrow> target_connection" where
  "attempt_failed tc = scheduleReconnect (tc\<lparr>tc_open := None, tc_attempts := Suc (tc_attempts tc),
     tc_backoff := min (tc_backoff tc * 2) (cc_maxDelayMs (tc_config tc))\<rparr>)"

definition attempt_succeeded :: "target_connection \<Rightarrow> target_connection" where
  "attempt_succeeded tc = tc\<lparr>tc_open := None, tc_attempts := 0, tc_backoff := cc_initialDelayMs (tc_config tc)\<rparr>"

text \<open>\<open>runOpen\<close> up to its first await; a disposed connection fails at once.\<close>

definition launchAttempt :: "target_connection \<Rightarrow> target_connection \<times> connection_effect list" where
  "launchAttempt tc =
     (if tc_disposed tc then (attempt_failed tc, [RejectedWith (channel_error tc ''connection is closed'')])
      else (tc\<lparr>tc_open := Some (Connecting (tc_gen tc))\<rparr>, [Launched]))"

definition ensureConnected :: "target_connection \<Rightarrow> target_connection \<times> connection_effect list" where
  "ensureConnected tc =
     (if tc_disposed tc then (tc, [RejectedWith (channel_error tc ''connection is closed'')])
      else if tc_connected tc then (tc, [ResolvedNow])
      else (let tc1 = tc\<lparr>tc_timer := None\<rparr> in if tc_open tc1 \<noteq> None then (tc1, []) else launchAttempt tc1))"

definition timer_fired :: "target_connection \<Rightarrow> target_connection \<times> connection_effect list" where
  "timer_fired tc =
     (if tc_timer tc = None then (tc, [])
      else (let tc1 = tc\<lparr>tc_timer := None\<rparr>
        in if tc_disposed tc1 \<or> tc_connected tc1 \<or> tc_open tc1 \<noteq> None then (tc1, []) else launchAttempt tc1))"

text \<open>The transport, the process and the handshake are there: \<open>runOpen\<close> from its second half on.\<close>

definition opened :: "nat \<Rightarrow> jstr \<Rightarrow> jstr list \<Rightarrow> target_connection \<Rightarrow> target_connection \<times> connection_effect list" where
  "opened peer clientId caps tc =
     (case tc_open tc of
        Some (Connecting g) \<Rightarrow>
          if tc_disposed tc \<or> g \<noteq> tc_gen tc
          then (attempt_failed tc, [Killed, RejectedWith (channel_error tc ''connection superseded'')])
          else (tc\<lparr>tc_peer := Some peer, tc_clientId := clientId, tc_capabilities := caps, tc_open := Some (Reattaching g)\<rparr>,
                map AskReattach (concat (map snd (tc_subscribers tc))))
      | _ \<Rightarrow> (tc, []))"

definition open_failed :: "remote_error \<Rightarrow> target_connection \<Rightarrow> target_connection \<times> connection_effect list" where
  "open_failed e tc =
     (case tc_open tc of Some (Connecting g) \<Rightarrow> (attempt_failed tc, [RejectedWith e]) | _ \<Rightarrow> (tc, []))"

text \<open>\<open>reattachAll\<close> has returned.\<close>

definition reattached :: "target_connection \<Rightarrow> target_connection \<times> connection_effect list" where
  "reattached tc =
     (case tc_open tc of
        Some (Reattaching g) \<Rightarrow> (attempt_succeeded (tc\<lparr>tc_connected := True\<rparr>), [ResolvedNow])
      | _ \<Rightarrow> (tc, []))"

definition onPeerClosed :: "nat \<Rightarrow> target_connection \<Rightarrow> target_connection" where
  "onPeerClosed gen tc =
     (if tc_disposed tc \<or> gen \<noteq> tc_gen tc then tc
      else scheduleReconnect (tc\<lparr>tc_connected := False, tc_peer := None, tc_clientId := [], tc_capabilities := [],
        tc_attempts := 0, tc_backoff := cc_initialDelayMs (tc_config tc)\<rparr>))"

definition tc_close :: "target_connection \<Rightarrow> target_connection \<times> connection_effect list" where
  "tc_close tc =
     (if tc_disposed tc then (tc, [])
      else (tc\<lparr>tc_disposed := True, tc_gen := Suc (tc_gen tc), tc_timer := None, tc_connected := False, tc_peer := None,
          tc_clientId := [], tc_capabilities := [], tc_subscribers := []\<rparr>,
        case tc_peer tc of None \<Rightarrow> [] | Some p \<Rightarrow> map (AskDetach p \<circ> fst) (tc_subscribers tc) @ [Killed]))"

datatype connection_event =
    EnsureConnected
  | TimerFired
  | Opened nat jstr "jstr list"
  | OpenFailed remote_error
  | Reattached
  | PeerClosed nat
  | CloseConnection
  | Subscribe jstr nat
  | Unsubscribe jstr nat

fun connection_step :: "target_connection \<Rightarrow> connection_event \<Rightarrow> target_connection \<times> connection_effect list" where
  "connection_step tc EnsureConnected = ensureConnected tc"
| "connection_step tc TimerFired = timer_fired tc"
| "connection_step tc (Opened p c caps) = opened p c caps tc"
| "connection_step tc (OpenFailed e) = open_failed e tc"
| "connection_step tc Reattached = reattached tc"
| "connection_step tc (PeerClosed g) = (onPeerClosed g tc, [])"
| "connection_step tc CloseConnection = tc_close tc"
| "connection_step tc (Subscribe s sub) = (tc_subscribe tc s sub, [])"
| "connection_step tc (Unsubscribe s sub) = (tc_unsubscribe tc s sub, [])"

section \<open>Handshake and re-attachment\<close>

text \<open>
  The handshake of the client: what it sends as \<open>hello.proof\<close> for its hello and the challenge it got,
  or the error when the target has no token reference or the token cannot be resolved.
\<close>

definition hello_proof_json :: "keyed_hash \<Rightarrow> jstr \<Rightarrow> hello_message \<Rightarrow> jstr \<Rightarrow> json" where
  "hello_proof_json hmac token hello serverNonce = JObj
     [(js ''clientNonce'', JStr (hello_nonce hello)), (js ''serverNonce'', JStr serverNonce), (js ''hello'', hello_json hello),
      (js ''proof'', JStr (computeProof hmac token (hello_nonce hello) serverNonce (hello_json hello)))]"

definition client_handshake :: "keyed_hash \<Rightarrow> jstr \<Rightarrow> jstr option \<Rightarrow> (jstr \<Rightarrow> thrown + jstr) \<Rightarrow> hello_message \<Rightarrow> jstr \<Rightarrow> remote_error + json" where
  "client_handshake hmac target ref resolveToken hello serverNonce =
     (if ref = None \<or> ref = Some [] then Inl (rerr REMOTE_NOT_BOOTSTRAPPED
        (js ''target \"'' @ target @ js ''\" has no pairingTokenRef; run the pairing flow first''))
      else (case resolveToken (the ref) of
        Inl t \<Rightarrow> Inl (toRemoteError t REMOTE_AUTH_FAILED)
      | Inr token \<Rightarrow> Inr (hello_proof_json hmac token hello serverNonce)))"

text \<open>
  One subscriber of \<open>reattachAll\<close>: \<open>answer\<close> is what the backend answers to an attach. A write attach
  that finds the session locked is tried again for reading.
\<close>

definition reattach_sub :: "conn_view \<Rightarrow> (attach_params \<Rightarrow> remote_error + attach_result) \<Rightarrow> handle \<Rightarrow> handle \<times> handle_effect list" where
  "reattach_sub cv answer h =
     (let base = reattachRequest h in
      case answer base of
        Inr r \<Rightarrow> onReattached h r
      | Inl e \<Rightarrow>
          if at_mode base = WriteMode \<and> err_code e = REMOTE_SESSION_LOCKED then
            (case answer (base\<lparr>at_mode := ReadMode, at_force := Some False\<rparr>) of
               Inr r \<Rightarrow> (case onReattached h r of (h1, o1) \<Rightarrow> (case handleControl cv h1 None Disconnected of (h2, o2) \<Rightarrow> (h2, o1 @ o2)))
             | Inl e2 \<Rightarrow> onReattachFailed h)
          else onReattachFailed h)"

section \<open>The channel keeps trying\<close>

definition exhausted :: "target_connection \<Rightarrow> bool" where
  "exhausted tc \<longleftrightarrow> (\<exists>n. cc_maxAttempts (tc_config tc) = Some n \<and> n \<le> tc_attempts tc)"

definition active :: "target_connection \<Rightarrow> bool" where
  "active tc \<longleftrightarrow> tc_connected tc \<or> tc_open tc \<noteq> None \<or> tc_timer tc \<noteq> None \<or> exhausted tc"

definition backoff_ok :: "connection_config \<Rightarrow> target_connection \<Rightarrow> bool" where
  "backoff_ok cfg tc \<longleftrightarrow> tc_config tc = cfg
     \<and> tc_backoff tc = min (cc_initialDelayMs cfg * 2 ^ tc_attempts tc) (cc_maxDelayMs cfg)
     \<and> (\<forall>d. tc_timer tc = Some d \<longrightarrow> d \<le> cc_maxDelayMs cfg)"

definition reconnect_inv :: "connection_config \<Rightarrow> target_connection \<Rightarrow> connection_event list \<Rightarrow> connection_effect list \<Rightarrow> bool" where
  "reconnect_inv cfg tc g h \<longleftrightarrow> backoff_ok cfg tc \<and> (EnsureConnected \<in> set g \<longrightarrow> \<not> tc_disposed tc \<longrightarrow> active tc)"

lemma schedule_ok:
  assumes "backoff_ok cfg tc"
  shows "backoff_ok cfg (scheduleReconnect tc) \<and> (\<not> tc_disposed tc \<longrightarrow> active (scheduleReconnect tc))
    \<and> tc_disposed (scheduleReconnect tc) = tc_disposed tc"
  using assms by (auto simp: scheduleReconnect_def backoff_ok_def active_def exhausted_def split: option.splits)

lemma failed_ok:
  assumes "backoff_ok cfg tc"
  shows "backoff_ok cfg (attempt_failed tc) \<and> (\<not> tc_disposed tc \<longrightarrow> active (attempt_failed tc))
    \<and> tc_disposed (attempt_failed tc) = tc_disposed tc"
proof -
  have "backoff_ok cfg (tc\<lparr>tc_open := None, tc_attempts := Suc (tc_attempts tc),
      tc_backoff := min (tc_backoff tc * 2) (cc_maxDelayMs (tc_config tc))\<rparr>)"
    using assms by (auto simp: backoff_ok_def min_def)
  from schedule_ok[OF this] show ?thesis by (simp add: attempt_failed_def)
qed

lemma launch_ok:
  assumes "backoff_ok cfg tc"
  shows "backoff_ok cfg (fst (launchAttempt tc)) \<and> (\<not> tc_disposed tc \<longrightarrow> active (fst (launchAttempt tc)))
    \<and> tc_disposed (fst (launchAttempt tc)) = tc_disposed tc"
  using assms failed_ok[OF assms] by (auto simp: launchAttempt_def backoff_ok_def active_def)

lemma reconnect_step:
  assumes cfg: "cc_initialDelayMs cfg \<le> cc_maxDelayMs cfg"
    and inv: "reconnect_inv cfg tc g h" and s: "connection_step tc e = (tc', out)"
  shows "reconnect_inv cfg tc' (g @ [e]) (h @ out)"
proof -
  have b: "backoff_ok cfg tc" using inv by (simp add: reconnect_inv_def)
  then have bt: "backoff_ok cfg (tc\<lparr>tc_timer := None\<rparr>)" by (simp add: backoff_ok_def)
  show ?thesis
  proof (cases e)
    case EnsureConnected
    have tc': "tc' = fst (ensureConnected tc)" using s EnsureConnected by simp
    show ?thesis using b bt launch_ok[OF bt] unfolding tc'
      by (auto simp: ensureConnected_def reconnect_inv_def active_def Let_def)
  next
    case TimerFired
    have tc': "tc' = fst (timer_fired tc)" using s TimerFired by simp
    show ?thesis using inv b bt launch_ok[OF bt] unfolding tc'
      by (auto simp: timer_fired_def reconnect_inv_def active_def Let_def TimerFired exhausted_def)
  next
    case (Opened p c caps)
    have tc': "tc' = fst (opened p c caps tc)" using s Opened by simp
    show ?thesis using inv b failed_ok[OF b] unfolding tc'
      by (auto simp: opened_def reconnect_inv_def active_def backoff_ok_def Opened exhausted_def split: option.split open_phase.split)
  next
    case (OpenFailed x)
    have tc': "tc' = fst (open_failed x tc)" using s OpenFailed by simp
    show ?thesis using inv b failed_ok[OF b] unfolding tc'
      by (auto simp: open_failed_def reconnect_inv_def OpenFailed split: option.split open_phase.split)
  next
    case Reattached
    have tc': "tc' = fst (reattached tc)" using s Reattached by simp
    show ?thesis using inv b cfg unfolding tc'
      by (auto simp: reattached_def attempt_succeeded_def reconnect_inv_def active_def backoff_ok_def Reattached split: option.split open_phase.split)
  next
    case (PeerClosed n)
    have "backoff_ok cfg (tc\<lparr>tc_connected := False, tc_peer := None, tc_clientId := [], tc_capabilities := [],
        tc_attempts := 0, tc_backoff := cc_initialDelayMs (tc_config tc)\<rparr>)" using b cfg by (simp add: backoff_ok_def)
    from schedule_ok[OF this] show ?thesis using inv s PeerClosed by (auto simp: onPeerClosed_def reconnect_inv_def)
  next
    case CloseConnection
    then show ?thesis using inv s by (auto simp: tc_close_def reconnect_inv_def backoff_ok_def split: if_splits)
  next
    case (Subscribe x y)
    then show ?thesis using inv s by (auto simp: tc_subscribe_def reconnect_inv_def backoff_ok_def active_def exhausted_def)
  next
    case (Unsubscribe x y)
    then show ?thesis using inv s
      by (auto simp: tc_unsubscribe_def reconnect_inv_def backoff_ok_def active_def exhausted_def Let_def split: option.splits)
  qed
qed

interpretation reconnects: reactive connection_step
    "\<lambda>tc g h. cc_initialDelayMs cfg \<le> cc_maxDelayMs cfg \<longrightarrow> reconnect_inv cfg tc g h"
  by unfold_locales (use reconnect_step in blast)


text \<open>
  When the peer is lost while the subscribers are being re-attached, the channel ends up connected
  in name only: the attempt marks it connected although its peer is gone, the retry that was scheduled
  finds it connected and does nothing, and from then on every call is refused with REMOTE_CONN_LOST
  while \<open>ensureConnected\<close> reports success and nothing ever starts another attempt.
\<close>

theorem peer_loss_while_reattaching_wedges:
  assumes "tc_open tc = Some (Reattaching g)" and "\<not> tc_disposed tc"
    and "steps connection_step tc [PeerClosed (tc_gen tc), Reattached, TimerFired] = (tc', out)"
  shows "tc_call tc' = Inl (channel_error tc' ''daemon channel is down'')
    \<and> connection_step tc' EnsureConnected = (tc', [ResolvedNow])
    \<and> (\<forall>p c caps e. connection_step tc' TimerFired = (tc', []) \<and> connection_step tc' (Opened p c caps) = (tc', [])
        \<and> connection_step tc' (OpenFailed e) = (tc', []) \<and> connection_step tc' Reattached = (tc', []))"
proof -
  define t1 where "t1 = onPeerClosed (tc_gen tc) tc"
  have t1: "tc_open t1 = Some (Reattaching g)" "tc_peer t1 = None" "\<not> tc_disposed t1"
    using assms(1,2) by (auto simp: t1_def onPeerClosed_def scheduleReconnect_def split: option.split)
  define t2 where "t2 = attempt_succeeded (t1\<lparr>tc_connected := True\<rparr>)"
  have s: "steps connection_step tc [PeerClosed (tc_gen tc), Reattached, TimerFired] = (fst (timer_fired t2), [ResolvedNow] @ snd (timer_fired t2))"
    using t1 by (simp add: reattached_def t1_def[symmetric] t2_def[symmetric] case_prod_beta)
  have "tc' = (if tc_timer t2 = None then t2 else t2\<lparr>tc_timer := None\<rparr>)"
    using assms(3) unfolding s by (auto simp: timer_fired_def Let_def t2_def attempt_succeeded_def split: if_splits)
  then have "tc_peer tc' = None" "tc_connected tc'" "\<not> tc_disposed tc'" "tc_open tc' = None" "tc_timer tc' = None"
    using t1 by (auto simp: t2_def attempt_succeeded_def)
  then show ?thesis
    by (simp add: tc_call_def ensureConnected_def timer_fired_def opened_def open_failed_def reattached_def)
qed

section \<open>Re-attachment\<close>

lemma addPending_keeps:
  "rh_mode (fst (add_pending h p)) = rh_mode h" "rh_cursor (fst (add_pending h p)) = rh_cursor h"
  "rh_detached (fst (add_pending h p)) = rh_detached h" "rh_eventCbs (fst (add_pending h p)) = rh_eventCbs h"
  by (cases p; simp add: addPendingApproval_def addPendingQuestion_def)+

lemma replayPending_keeps:
  "rh_mode (fst (replayPending h ps r)) = rh_mode h \<and> rh_cursor (fst (replayPending h ps r)) = rh_cursor h
   \<and> rh_detached (fst (replayPending h ps r)) = rh_detached h \<and> rh_eventCbs (fst (replayPending h ps r)) = rh_eventCbs h"
proof -
  have "rh_mode (fst (steps add_pending h xs)) = rh_mode h \<and> rh_cursor (fst (steps add_pending h xs)) = rh_cursor h
    \<and> rh_detached (fst (steps add_pending h xs)) = rh_detached h \<and> rh_eventCbs (fst (steps add_pending h xs)) = rh_eventCbs h" for xs h
    by (induction xs arbitrary: h) (auto simp: case_prod_beta addPending_keeps)
  then show ?thesis by (simp add: replayPending_def)
qed

text \<open>
  After a reconnect a handle either goes on from where it was, with the same cursor and the same event
  callbacks, or it is detached for good and its owner is told. It keeps write control only when the
  backend granted it again; a session that somebody else controls by now is followed for reading.
\<close>

theorem reattach_outcome:
  assumes "\<not> rh_detached h" and "reattach_sub cv answer h = (h', out)"
  shows "if rh_detached h' then OnDetached \<in> set out \<and> rh_mode h' = ReadMode \<and> isl (answer (reattachRequest h))
    else rh_cursor h' = rh_cursor h \<and> rh_eventCbs h' = rh_eventCbs h
      \<and> (rh_mode h' = WriteMode \<longrightarrow> rh_mode h = WriteMode \<and> \<not> isl (answer (reattachRequest h)))
      \<and> (rh_mode h = WriteMode \<and> rh_mode h' = ReadMode \<longrightarrow>
          (\<exists>e r. answer (reattachRequest h) = Inl e \<and> err_code e = REMOTE_SESSION_LOCKED
            \<and> answer ((reattachRequest h)\<lparr>at_mode := ReadMode, at_force := Some False\<rparr>) = Inr r))"
proof (cases "answer (reattachRequest h)")
  case (Inr r)
  then have "h' = fst (replayPending h (ar_pendingInteractions r) True)"
    using assms(2) by (simp add: reattach_sub_def onReattached_def Let_def)
  then show ?thesis using replayPending_keeps[of h "ar_pendingInteractions r" True] assms(1) Inr by simp
next
  case (Inl e)
  let ?base = "(reattachRequest h)\<lparr>at_mode := ReadMode, at_force := Some False\<rparr>"
  have m: "at_mode (reattachRequest h) = rh_mode h" by (simp add: reattachRequest_def)
  show ?thesis
  proof (cases "rh_mode h = WriteMode \<and> err_code e = REMOTE_SESSION_LOCKED \<and> (\<exists>r. answer ?base = Inr r)")
    case True
    then obtain r where r: "answer ?base = Inr r" by blast
    define h1 where "h1 = fst (replayPending h (ar_pendingInteractions r) True)"
    note k = replayPending_keeps[of h "ar_pendingInteractions r" True, folded h1_def]
    have "h' = fst (handleControl cv h1 None Disconnected)"
      using assms(2) True Inl r m by (auto simp: reattach_sub_def onReattached_def Let_def h1_def split: prod.splits)
    then show ?thesis using k assms(1) True Inl r by (auto simp: handleControl_def Let_def)
  next
    case False
    then have "(h', out) = onReattachFailed h"
      using assms(2) Inl m by (auto simp: reattach_sub_def Let_def split: sum.splits if_splits)
    then show ?thesis using assms(1) Inl by (auto simp: onReattachFailed_def)
  qed
qed

section \<open>Examples\<close>

definition sample_config :: connection_config where
  "sample_config = \<lparr>cc_initialDelayMs = 250, cc_maxDelayMs = 600, cc_maxAttempts = None\<rparr>"


theorem peer_loss_while_reattaching_wedges_witness:
  "\<exists>tc out. steps connection_step (fst (steps connection_step (TargetConnection (js ''t'') sample_config)
        [EnsureConnected, Opened 1 (js ''a'') []])) [PeerClosed 0, Reattached, TimerFired] = (tc, out)
     \<and> isl (tc_call tc) \<and> connection_step tc EnsureConnected = (tc, [ResolvedNow])"
  (is "\<exists>tc out. steps _ ?tc0 _ = _ \<and> _")
proof -
  have f: "tc_open ?tc0 = Some (Reattaching 0)" "\<not> tc_disposed ?tc0" "tc_gen ?tc0 = 0" by code_simp+
  obtain tc out where r: "steps connection_step ?tc0 [PeerClosed (tc_gen ?tc0), Reattached, TimerFired] = (tc, out)" by (meson surj_pair)
  show ?thesis using peer_loss_while_reattaching_wedges[OF f(1,2) r] r f(3) by auto
qed

text \<open>A controller that comes back while somebody else has taken control.\<close>

theorem reattach_outcome_witness:
  "\<exists>h' out. reattach_sub \<lparr>cv_targetId = [], cv_clientId = js ''a'', cv_capabilities = []\<rparr>
      (\<lambda>p. if at_mode p = WriteMode then Inl (rerr REMOTE_SESSION_LOCKED [])
        else Inr \<lparr>ar_sessionId = js ''s'', ar_holder = Some (js ''b''), ar_lastSeq = 9, ar_pendingInteractions = None\<rparr>)
      (DaemonAgentHandle (js ''s'') WriteMode 4 None) = (h', out)
    \<and> \<not> rh_detached h' \<and> rh_mode h' = ReadMode \<and> rh_cursor h' = 4"
  (is "\<exists>h' out. reattach_sub ?cv ?ans ?h = _ \<and> _")
proof -
  obtain h' out where r: "reattach_sub ?cv ?ans ?h = (h', out)" by (meson surj_pair)
  have "rh_detached ?h = False" "rh_cursor ?h = 4" "rh_detached (fst (reattach_sub ?cv ?ans ?h)) = False"
    "rh_mode (fst (reattach_sub ?cv ?ans ?h)) = ReadMode" by code_simp+
  then show ?thesis using reattach_outcome[OF _ r] r by auto
qed

end
