(* ===== verification/Client.thy ===== *)
theory Client
  imports Connection
begin

text \<open>
  The client, \<^verbatim>\<open>remote-client/src/client.ts\<close>: the registry of channels by target and of handles by
  target and session. A handle object is a number; \<open>cl_owner\<close> keeps its target and the key it was
  registered under, \<open>cl_gone\<close> the ones that are detached. An attach is two steps around its call to the
  backend.
\<close>

section \<open>Names and summaries\<close>

definition handleKey :: "jstr \<Rightarrow> jstr \<Rightarrow> jstr" where
  "handleKey targetId sessionId = targetId @ js ''::'' @ sessionId"

record remote_summary =
  rs_sessionId :: jstr
  rs_createdAt :: int
  rs_cold :: bool
  rs_attached :: bool
  rs_title :: "jstr option"
  rs_cwd :: "jstr option"
  rs_controller :: "jstr option"

definition mapSummary :: "session_summary \<Rightarrow> remote_summary" where
  "mapSummary s = \<lparr>rs_sessionId = su_sessionId s,
     rs_createdAt = (case su_createdAt s of Some n \<Rightarrow> n | None \<Rightarrow> 0),
     rs_cold = (su_status s = Ended), rs_attached = (su_attachedClients s > 0), rs_title = su_title s,
     rs_cwd = (if su_cwd s = [] then None else Some (su_cwd s)), rs_controller = su_controller s\<rparr>"

definition client_config :: "nat option \<Rightarrow> nat option \<Rightarrow> nat option \<Rightarrow> connection_config" where
  "client_config initialDelayMs maxDelayMs maxAttempts =
     \<lparr>cc_initialDelayMs = (case initialDelayMs of Some n \<Rightarrow> n | None \<Rightarrow> 250),
      cc_maxDelayMs = (case maxDelayMs of Some n \<Rightarrow> n | None \<Rightarrow> 10000), cc_maxAttempts = maxAttempts\<rparr>"

section \<open>The registry\<close>

record client =
  cl_conns :: "jstr list"
  cl_handles :: "(jstr \<times> nat) list"
  cl_owner :: "(nat \<times> jstr \<times> jstr) list"
  cl_gone :: "nat list"
  cl_next :: nat
  cl_disposed :: bool

definition RemoteClient :: client where
  "RemoteClient = \<lparr>cl_conns = [], cl_handles = [], cl_owner = [], cl_gone = [], cl_next = 0, cl_disposed = False\<rparr>"

definition connection_of :: "client \<Rightarrow> jstr \<Rightarrow> remote_error + client" where
  "connection_of cl target =
     (if cl_disposed cl then Inl (rerr REMOTE_CONN_LOST (js ''remote client is disposed''))
      else Inr (cl\<lparr>cl_conns := set_add target (cl_conns cl)\<rparr>))"

datatype attach_start =
    Existing nat "bool option"
  | CallAttach jstr attach_mode bool
  | Refused remote_error

text \<open>Up to the call: a live handle is returned, after an escalation (\<open>Some force\<close>) for write mode.\<close>

definition attach_begin :: "client \<Rightarrow> jstr \<Rightarrow> jstr \<Rightarrow> attach_mode option \<Rightarrow> bool option \<Rightarrow> client \<times> attach_start" where
  "attach_begin cl target session mode force =
     (let m = (case mode of Some x \<Rightarrow> x | None \<Rightarrow> ReadMode) in
      case map_of (cl_handles cl) (handleKey target session) of
        Some i \<Rightarrow>
          if i \<notin> set (cl_gone cl) then (cl, Existing i (if m = WriteMode then Some (force = Some True) else None))
          else (case connection_of cl target of Inl e \<Rightarrow> (cl, Refused e) | Inr c \<Rightarrow> (c, CallAttach session m (force = Some True)))
      | None \<Rightarrow> (case connection_of cl target of Inl e \<Rightarrow> (cl, Refused e) | Inr c \<Rightarrow> (c, CallAttach session m (force = Some True))))"

text \<open>After it: a new handle is made, subscribed and registered.\<close>

definition attach_end :: "client \<Rightarrow> jstr \<Rightarrow> jstr \<Rightarrow> client \<times> nat" where
  "attach_end cl target session =
     (let k = handleKey target session; i = cl_next cl
      in (cl\<lparr>cl_handles := AList.update k i (cl_handles cl), cl_owner := cl_owner cl @ [(i, target, k)], cl_next := Suc i\<rparr>, i))"

text \<open>The \<open>onDetached\<close> callback of a handle.\<close>

definition handle_gone :: "client \<Rightarrow> nat \<Rightarrow> client" where
  "handle_gone cl i =
     (case map_of (cl_owner cl) i of
        None \<Rightarrow> cl
      | Some (target, k) \<Rightarrow> cl\<lparr>cl_gone := set_add i (cl_gone cl), cl_handles := AList.delete k (cl_handles cl)\<rparr>)"

text \<open>The handles \<open>detachAll\<close> detaches: the registered ones, of the target if one is given.\<close>

definition detach_targets :: "client \<Rightarrow> jstr option \<Rightarrow> nat list" where
  "detach_targets cl target =
     filter (\<lambda>i. target = None \<or> map_option fst (map_of (cl_owner cl) i) = target) (map snd (cl_handles cl))"

definition detachAll :: "client \<Rightarrow> jstr option \<Rightarrow> client" where
  "detachAll cl target = foldl handle_gone cl (detach_targets cl target)"

definition client_dispose :: "client \<Rightarrow> client" where
  "client_dispose cl =
     (if cl_disposed cl then cl
      else (detachAll (cl\<lparr>cl_disposed := True\<rparr>) None)\<lparr>cl_conns := []\<rparr>)"

text \<open>The checks of \<open>create\<close> and \<open>listCatalog\<close> on what the backend announced.\<close>

definition create_check :: "jstr \<Rightarrow> jstr list \<Rightarrow> create_params \<Rightarrow> remote_error option" where
  "create_check target caps opts =
     (if cr_requestedSessionId opts \<noteq> None \<and> js (Capabilities RequestedSessionId) \<notin> set caps
      then Some (rerr REMOTE_CAPABILITY_UNSUPPORTED (js ''target \"'' @ target @ js ''\": backend does not support caller-selected session ids''))
      else None)"

definition catalog_check :: "jstr \<Rightarrow> jstr list \<Rightarrow> remote_error option" where
  "catalog_check target caps =
     (if js (Capabilities Catalogs) \<in> set caps then None
      else Some (rerr REMOTE_CAPABILITY_UNSUPPORTED
        (js ''target \"'' @ target @ js ''\": backend does not support catalog.list (missing \"catalogs\" capability)'')))"

section \<open>Attaching is idempotent, one attach at a time\<close>

lemma attach_end_registered:
  assumes "attach_end cl target session = (cl', i)" and "i \<notin> set (cl_gone cl)"
  shows "attach_begin cl' target session mode force =
    (cl', Existing i (if mode = Some WriteMode then Some (force = Some True) else None))"
  using assms by (auto simp: attach_end_def attach_begin_def Let_def split: option.splits)

lemma handle_gone_unregisters:
  "map_of (cl_owner cl) i = Some (target, k) \<Longrightarrow> map_of (cl_handles (handle_gone cl i)) k = None \<and> i \<in> set (cl_gone (handle_gone cl i))"
  by (simp add: handle_gone_def)

text \<open>Two attaches that overlap make two handles, of which the registry knows the second only; when the first
  detaches it takes the entry of the second with it.\<close>

lemma overlapping_attaches_make_two_handles:
  "case attach_begin RemoteClient (js ''t'') (js ''s'') None None of (c1, r1) \<Rightarrow>
   case attach_begin c1 (js ''t'') (js ''s'') None None of (c2, r2) \<Rightarrow>
   case attach_end c2 (js ''t'') (js ''s'') of (c3, i) \<Rightarrow>
   case attach_end c3 (js ''t'') (js ''s'') of (c4, j) \<Rightarrow>
     r1 = CallAttach (js ''s'') ReadMode False \<and> r2 = CallAttach (js ''s'') ReadMode False \<and> i \<noteq> j
     \<and> map_of (cl_handles c4) (handleKey (js ''t'') (js ''s'')) = Some j
     \<and> map_of (cl_handles (handle_gone c4 i)) (handleKey (js ''t'') (js ''s'')) = None \<and> j \<notin> set (cl_gone (handle_gone c4 i))"
  by code_simp

text \<open>The registry key does not tell all pairs of names apart.\<close>

lemma handleKey_ambiguous: "handleKey (js ''a'') (js ''b::c'') = handleKey (js ''a::b'') (js ''c'')"
  by code_simp

end
