(* ===== verification/KeyedMutex.thy ===== *)
theory KeyedMutex
  imports Prelude
begin

text \<open>
  The per-key promise-chain mutex of \<^verbatim>\<open>fs-ssh/src/mutex.ts\<close>.

  A call of \<open>run\<close> is a ticket: it chains its task behind the ticket that was the tail of its
  key, and becomes the tail. \<open>jobs\<close> is the list of all tickets in call order; what the promise
  machinery does later are the events \<open>Start\<close> (the \<open>then\<close> callback of the predecessor runs the
  task), \<open>Settle\<close> (the task's promise settles, either way) and \<open>Cleanup\<close> (the last microtask
  removes the tail when it is still this ticket's). An event that the promises do not allow in a
  state leaves it unchanged.
\<close>

datatype phase = Queued | Running | Settled | Cleaned

record 'k job =
  job_key :: 'k
  job_prev :: "nat option"
  job_phase :: phase

record 'k mutex =
  tails :: "('k \<times> nat) list"
  jobs :: "'k job list"

definition new_mutex :: "'k mutex" where
  "new_mutex = \<lparr>tails = [], jobs = []\<rparr>"

datatype 'k mutex_event =
    Run 'k
  | Start nat
  | Settle nat
  | Cleanup nat

text \<open>\<open>run\<close>: the ticket's number is its position in \<open>jobs\<close>.\<close>

definition mutex_run :: "'k mutex \<Rightarrow> 'k \<Rightarrow> 'k mutex" where
  "mutex_run m k =
     m\<lparr>jobs := jobs m @ [\<lparr>job_key = k, job_prev = map_of (tails m) k, job_phase = Queued\<rparr>],
       tails := AList.update k (length (jobs m)) (tails m)\<rparr>"

definition done_job :: "'k mutex \<Rightarrow> nat \<Rightarrow> bool" where
  "done_job m i \<longleftrightarrow> job_phase (jobs m ! i) \<in> {Settled, Cleaned}"

definition may_start :: "'k mutex \<Rightarrow> nat \<Rightarrow> bool" where
  "may_start m i \<longleftrightarrow> i < length (jobs m) \<and> job_phase (jobs m ! i) = Queued \<and>
     (case job_prev (jobs m ! i) of None \<Rightarrow> True | Some p \<Rightarrow> done_job m p)"

definition set_phase :: "phase \<Rightarrow> nat \<Rightarrow> 'k mutex \<Rightarrow> 'k mutex" where
  "set_phase ph i m = m\<lparr>jobs := (jobs m)[i := (jobs m ! i)\<lparr>job_phase := ph\<rparr>]\<rparr>"

definition mutex_step :: "'k mutex \<Rightarrow> 'k mutex_event \<Rightarrow> 'k mutex" where
  "mutex_step m e =
     (case e of
        Run k \<Rightarrow> mutex_run m k
      | Start i \<Rightarrow> if may_start m i then set_phase Running i m else m
      | Settle i \<Rightarrow>
          if i < length (jobs m) \<and> job_phase (jobs m ! i) = Running then set_phase Settled i m else m
      | Cleanup i \<Rightarrow>
          if i < length (jobs m) \<and> job_phase (jobs m ! i) = Settled then
            let m1 = set_phase Cleaned i m; k = job_key (jobs m ! i) in
            if map_of (tails m) k = Some i then m1\<lparr>tails := AList.delete k (tails m)\<rparr> else m1
          else m)"

definition mutex_runs :: "'k mutex \<Rightarrow> 'k mutex_event list \<Rightarrow> 'k mutex" where
  "mutex_runs = foldl mutex_step"

section \<open>Invariant\<close>

text \<open>
  \<open>earlier m j i\<close>: ticket \<open>j\<close> was drawn before ticket \<open>i\<close> of the same key. The tail of a key is its
  latest ticket and not yet cleaned; a key without tail has only settled tickets; a ticket's
  predecessor is the latest earlier ticket of its key, if that was not settled already; and a
  ticket leaves the queue only after all earlier ones.
\<close>

definition earlier :: "'k mutex \<Rightarrow> nat \<Rightarrow> nat \<Rightarrow> bool" where
  "earlier m j i \<longleftrightarrow> j < i \<and> i < length (jobs m) \<and> job_key (jobs m ! j) = job_key (jobs m ! i)"

definition tail_inv :: "'k mutex \<Rightarrow> bool" where
  "tail_inv m \<longleftrightarrow>
     (\<forall>k i. map_of (tails m) k = Some i \<longrightarrow>
        i < length (jobs m) \<and> job_key (jobs m ! i) = k \<and> job_phase (jobs m ! i) \<noteq> Cleaned \<and>
        (\<forall>j < length (jobs m). job_key (jobs m ! j) = k \<longrightarrow> j \<le> i)) \<and>
     (\<forall>j < length (jobs m). map_of (tails m) (job_key (jobs m ! j)) = None \<longrightarrow> done_job m j)"

definition prev_inv :: "'k mutex \<Rightarrow> bool" where
  "prev_inv m \<longleftrightarrow> (\<forall>i < length (jobs m).
     case job_prev (jobs m ! i) of
       None \<Rightarrow> \<forall>j. earlier m j i \<longrightarrow> done_job m j
     | Some p \<Rightarrow> earlier m p i \<and> (\<forall>j. earlier m j i \<longrightarrow> j \<le> p))"

definition order_inv :: "'k mutex \<Rightarrow> bool" where
  "order_inv m \<longleftrightarrow>
     (\<forall>i j. earlier m j i \<longrightarrow> job_phase (jobs m ! i) \<noteq> Queued \<longrightarrow> done_job m j)"

definition mutex_inv :: "'k mutex \<Rightarrow> bool" where
  "mutex_inv m \<longleftrightarrow> tail_inv m \<and> prev_inv m \<and> order_inv m"

lemma set_phase_jobs [simp]:
  "length (jobs (set_phase ph i m)) = length (jobs m)"
  "job_key (jobs (set_phase ph i m) ! j) = job_key (jobs m ! j)"
  "job_prev (jobs (set_phase ph i m) ! j) = job_prev (jobs m ! j)"
  "i < length (jobs m) \<Longrightarrow>
     job_phase (jobs (set_phase ph i m) ! j) = (if j = i then ph else job_phase (jobs m ! j))"
  "tails (set_phase ph i m) = tails m"
  by (cases "i < length (jobs m)"; cases "i = j"; simp add: set_phase_def list_update_beyond)+

lemma earlier_set_phase [simp]: "earlier (set_phase ph i m) = earlier m"
  by (auto simp: earlier_def fun_eq_iff)

lemma earlier_trans: "earlier m j i \<Longrightarrow> earlier m l j \<Longrightarrow> earlier m l i"
  by (auto simp: earlier_def)

lemma done_set_phase:
  "i < length (jobs m) \<Longrightarrow>
     done_job (set_phase ph i m) j = (if j = i then ph \<in> {Settled, Cleaned} else done_job m j)"
  by (simp add: done_job_def)

text \<open>Only the jobs list matters to the last two parts.\<close>

lemma inv_jobs_cong:
  assumes "jobs m' = jobs m"
  shows "prev_inv m' = prev_inv m" "order_inv m' = order_inv m"
proof -
  have "earlier m' = earlier m" "done_job m' = done_job m"
    using assms by (auto simp: earlier_def done_job_def fun_eq_iff)
  then show "prev_inv m' = prev_inv m" "order_inv m' = order_inv m"
    using assms by (simp_all add: prev_inv_def order_inv_def cong: option.case_cong)
qed

lemma may_start_earlier:
  assumes "mutex_inv m" "may_start m i" "earlier m j i"
  shows "done_job m j"
proof (cases "job_prev (jobs m ! i)")
  case None
  then show ?thesis
    using assms by (force simp: mutex_inv_def prev_inv_def may_start_def)
next
  case (Some p)
  then have p: "earlier m p i" "j \<le> p" "done_job m p"
    using assms by (force simp: mutex_inv_def prev_inv_def may_start_def)+
  show ?thesis
  proof (cases "j = p")
    case False
    then have "earlier m j p" using p assms(3) by (auto simp: earlier_def)
    moreover have "job_phase (jobs m ! p) \<noteq> Queued" using p(3) by (auto simp: done_job_def)
    ultimately show ?thesis using assms(1) by (auto simp: mutex_inv_def order_inv_def)
  qed (use p in simp)
qed

lemma phase_change_inv:
  assumes inv: "mutex_inv m" and i: "i < length (jobs m)"
    and first: "\<And>j. earlier m j i \<Longrightarrow> done_job m j"
    and keep: "done_job m i \<Longrightarrow> ph \<in> {Settled, Cleaned}" and nc: "ph \<noteq> Cleaned"
  shows "mutex_inv (set_phase ph i m)"
  unfolding mutex_inv_def
proof (intro conjI)
  show "tail_inv (set_phase ph i m)"
    using inv i keep nc
    by (auto simp: mutex_inv_def tail_inv_def done_set_phase)
  show "prev_inv (set_phase ph i m)"
    using inv i keep
    by (auto simp: mutex_inv_def prev_inv_def done_set_phase split: option.splits)
  show "order_inv (set_phase ph i m)"
    using inv i keep first
    by (auto simp: mutex_inv_def order_inv_def done_set_phase)
qed

lemma run_jobs:
  "i < length (jobs m) \<Longrightarrow> jobs (mutex_run m k) ! i = jobs m ! i"
  "jobs (mutex_run m k) ! length (jobs m) = \<lparr>job_key = k, job_prev = map_of (tails m) k, job_phase = Queued\<rparr>"
  "length (jobs (mutex_run m k)) = Suc (length (jobs m))"
  by (simp_all add: mutex_run_def nth_append)

lemma run_done: "i < length (jobs m) \<Longrightarrow> done_job (mutex_run m k) i = done_job m i"
  by (simp add: done_job_def run_jobs)

lemma run_earlier: "i < length (jobs m) \<Longrightarrow> earlier (mutex_run m k) j i = earlier m j i"
  by (auto simp: earlier_def run_jobs)

lemma run_earlier_new:
  "earlier (mutex_run m k) j (length (jobs m)) \<longleftrightarrow> j < length (jobs m) \<and> job_key (jobs m ! j) = k"
  by (auto simp: earlier_def run_jobs)

lemma run_inv:
  assumes inv: "mutex_inv m"
  shows "mutex_inv (mutex_run m k)"
  unfolding mutex_inv_def
proof (intro conjI)
  let ?m = "mutex_run m k" and ?n = "length (jobs m)"
  have t: "map_of (tails ?m) = (map_of (tails m))(k \<mapsto> ?n)"
    by (simp add: mutex_run_def)
  show "tail_inv ?m"
    using inv
    by (auto simp: mutex_inv_def tail_inv_def t run_jobs run_done less_Suc_eq split: if_splits)
  show "prev_inv ?m"
    unfolding prev_inv_def
  proof (intro allI impI)
    fix i assume "i < length (jobs ?m)"
    then consider (old) "i < ?n" | (new) "i = ?n" by (auto simp: run_jobs less_Suc_eq)
    then show "case job_prev (jobs ?m ! i) of
        None \<Rightarrow> \<forall>j. earlier ?m j i \<longrightarrow> done_job ?m j
      | Some p \<Rightarrow> earlier ?m p i \<and> (\<forall>j. earlier ?m j i \<longrightarrow> j \<le> p)"
    proof cases
      case old
      have "done_job ?m j = done_job m j" if "earlier m j i" for j
        using that by (intro run_done) (auto simp: earlier_def)
      then show ?thesis
        using inv old by (auto simp: mutex_inv_def prev_inv_def run_jobs run_earlier split: option.splits)
    next
      case new
      then show ?thesis
        using inv by (auto simp: mutex_inv_def tail_inv_def run_jobs run_earlier_new run_done
            split: option.splits)
    qed
  qed
  show "order_inv ?m"
    unfolding order_inv_def
  proof (intro allI impI)
    fix i j assume e: "earlier ?m j i" and q: "job_phase (jobs ?m ! i) \<noteq> Queued"
    have i: "i < ?n" using e q by (auto simp: earlier_def run_jobs less_Suc_eq)
    then have "j < ?n" using e by (auto simp: earlier_def)
    then show "done_job ?m j"
      using inv e q i by (auto simp: mutex_inv_def order_inv_def run_jobs run_earlier run_done)
  qed
qed

lemma tail_invD:
  assumes "tail_inv m" "map_of (tails m) k = Some i"
  shows "i < length (jobs m)" "job_key (jobs m ! i) = k" "job_phase (jobs m ! i) \<noteq> Cleaned"
    "j < length (jobs m) \<Longrightarrow> job_key (jobs m ! j) = k \<Longrightarrow> j \<le> i"
  using assms unfolding tail_inv_def by blast+

lemma tail_inv_None:
  "tail_inv m \<Longrightarrow> j < length (jobs m) \<Longrightarrow> map_of (tails m) (job_key (jobs m ! j)) = None \<Longrightarrow> done_job m j"
  unfolding tail_inv_def by blast

lemma cleanup_inv:
  assumes inv: "mutex_inv m" and i: "i < length (jobs m)" and s: "job_phase (jobs m ! i) = Settled"
  shows "mutex_inv (mutex_step m (Cleanup i))"
proof -
  let ?k = "job_key (jobs m ! i)" and ?m1 = "set_phase Cleaned i m" and ?m = "mutex_step m (Cleanup i)"
  have d: "done_job m i" using s by (simp add: done_job_def)
  have dj: "done_job ?m1 = done_job m" using d i by (auto simp: done_set_phase fun_eq_iff)
  have jobs: "jobs ?m = jobs ?m1"
    using i s by (simp add: mutex_step_def Let_def)
  have tl: "map_of (tails ?m) =
      (if map_of (tails m) ?k = Some i then (map_of (tails m))(?k := None) else map_of (tails m))"
    using i s by (simp add: mutex_step_def Let_def)
  have "done_job ?m j = done_job ?m1 j" for j
    by (simp only: done_job_def jobs)
  then have dm: "done_job ?m j = done_job m j" for j
    by (simp only: dj)
  have ord: "order_inv m" and prv: "prev_inv m" and tli: "tail_inv m"
    using inv by (auto simp: mutex_inv_def)
  have "order_inv ?m1"
    unfolding order_inv_def
  proof (intro allI impI)
    fix l j assume e: "earlier ?m1 j l" and q: "job_phase (jobs ?m1 ! l) \<noteq> Queued"
    have "job_phase (jobs m ! l) \<noteq> Queued" using q i s by (auto split: if_splits)
    then show "done_job ?m1 j" using ord e by (simp add: order_inv_def dj)
  qed
  moreover have "prev_inv ?m1"
    using prv by (simp add: prev_inv_def dj cong: option.case_cong)
  moreover have "tail_inv ?m"
  proof -
    have all: "done_job m j" if "map_of (tails m) ?k = Some i" "j < length (jobs m)" "job_key (jobs m ! j) = ?k" for j
    proof (cases "j = i")
      case False
      moreover have "j \<le> i" by (rule tail_invD(4)[OF tli that])
      ultimately have "earlier m j i" using that i by (simp add: earlier_def)
      then show ?thesis using ord s by (simp add: order_inv_def)
    qed (use d in simp)
    have "done_job ?m j" if "j < length (jobs ?m)" "map_of (tails ?m) (job_key (jobs ?m ! j)) = None" for j
      using that tail_inv_None[OF tli, of j] all[of j] by (auto simp: tl jobs dm split: if_splits)
    moreover have "l < length (jobs m) \<and> job_key (jobs m ! l) = k \<and> job_phase (jobs ?m1 ! l) \<noteq> Cleaned \<and>
        (\<forall>j < length (jobs m). job_key (jobs m ! j) = k \<longrightarrow> j \<le> l)"
      if "map_of (tails ?m) k = Some l" for k l
    proof -
      have "map_of (tails m) k = Some l \<and> l \<noteq> i"
        using that tail_invD(2)[OF tli, of k l] by (auto simp: tl split: if_splits)
      then show ?thesis using tail_invD[OF tli, of k l] i by simp
    qed
    ultimately show ?thesis by (simp add: tail_inv_def jobs)
  qed
  ultimately show ?thesis
    by (simp only: mutex_inv_def inv_jobs_cong[OF jobs])
qed

lemma mutex_step_inv:
  assumes inv: "mutex_inv m"
  shows "mutex_inv (mutex_step m e)"
proof (cases e)
  case (Run k)
  then show ?thesis using run_inv[OF inv] by (simp add: mutex_step_def)
next
  case (Start i)
  show ?thesis
  proof (cases "may_start m i")
    case True
    then have "i < length (jobs m)" "\<not> done_job m i" by (auto simp: may_start_def done_job_def)
    then have "mutex_inv (set_phase Running i m)"
      using may_start_earlier[OF inv True] by (intro phase_change_inv[OF inv]) auto
    then show ?thesis using True Start by (simp add: mutex_step_def)
  qed (use inv Start in \<open>simp add: mutex_step_def\<close>)
next
  case (Settle i)
  show ?thesis
  proof (cases "i < length (jobs m) \<and> job_phase (jobs m ! i) = Running")
    case True
    then have "mutex_inv (set_phase Settled i m)"
      using inv by (intro phase_change_inv[OF inv]) (auto simp: mutex_inv_def order_inv_def)
    then show ?thesis using True Settle by (simp add: mutex_step_def)
  qed (use inv Settle in \<open>auto simp: mutex_step_def\<close>)
next
  case (Cleanup i)
  show ?thesis
  proof (cases "i < length (jobs m) \<and> job_phase (jobs m ! i) = Settled")
    case True
    then show ?thesis using cleanup_inv[OF inv, of i] Cleanup by simp
  next
    case False
    then have "mutex_step m e = m" using Cleanup by (auto simp: mutex_step_def)
    then show ?thesis using inv by simp
  qed
qed

lemma mutex_runs_inv: "mutex_inv m \<Longrightarrow> mutex_inv (mutex_runs m es)"
  by (induction es arbitrary: m) (simp_all add: mutex_runs_def mutex_step_inv)

lemma new_mutex_inv: "mutex_inv new_mutex"
  by (simp add: mutex_inv_def tail_inv_def prev_inv_def order_inv_def new_mutex_def earlier_def)

lemma map_of_empty_list: "(\<And>k. map_of m k = None) \<Longrightarrow> m = []"
  by (simp add: fun_eq_iff flip: map_of_eq_empty_iff)

lemma mutex_progress:
  assumes inv: "mutex_inv m" and i: "i < length (jobs m)" and q: "job_phase (jobs m ! i) = Queued"
  shows "\<exists>j \<le> i. job_key (jobs m ! j) = job_key (jobs m ! i) \<and>
    (job_phase (jobs m ! j) = Running \<or> may_start m j)"
  using i q
proof (induction i rule: less_induct)
  case (less i)
  show ?case
  proof (cases "job_prev (jobs m ! i)")
    case None
    then have "may_start m i" using less.prems by (simp add: may_start_def)
    then show ?thesis by blast
  next
    case (Some p)
    then have e: "earlier m p i"
      using inv less.prems by (force simp: mutex_inv_def prev_inv_def)
    then have p: "p < i" "p < length (jobs m)" "job_key (jobs m ! p) = job_key (jobs m ! i)"
      by (auto simp: earlier_def)
    consider "done_job m p" | "job_phase (jobs m ! p) = Queued" | "job_phase (jobs m ! p) = Running"
      by (cases "job_phase (jobs m ! p)") (auto simp: done_job_def)
    then show ?thesis
    proof cases
      case 1
      then have "may_start m i" using less.prems Some by (simp add: may_start_def)
      then show ?thesis by blast
    next
      case 2
      from less.IH[OF p(1,2) this] p show ?thesis by (metis less_imp_le_nat order_trans)
    next
      case 3
      then show ?thesis using p less_imp_le_nat by blast
    qed
  qed
qed



end
