(* ===== verification/TextEdit.thy ===== *)
theory TextEdit
  imports Prelude
begin

text \<open>
  The text helpers of \<^verbatim>\<open>fs-ssh/src/text.ts\<close>: the line-ending conversions of the edit path,
  the incremental binary detector, and the literal search and replacement of \<open>editText\<close>.
  \<open>String.prototype.indexOf\<close>, \<open>split\<close> and \<open>join\<close> of the standard library are written
  out; the search loop of \<open>countLiteral\<close> is a \<open>partial_function\<close>, because with an empty
  needle it does not end.
\<close>

section \<open>Line endings\<close>

text \<open>\<open>text.replace(/\r\n/g, '\n')\<close>\<close>

fun normalizeLf :: "jstr \<Rightarrow> jstr" where
  "normalizeLf [] = []"
| "normalizeLf [c] = [c]"
| "normalizeLf (c # d # r) =
     (if c = 13 \<and> d = 10 then 10 # normalizeLf r else c # normalizeLf (d # r))"

text \<open>\<open>text.includes('\r\n')\<close>\<close>

fun hasCrlf :: "jstr \<Rightarrow> bool" where
  "hasCrlf [] = False"
| "hasCrlf [c] = False"
| "hasCrlf (c # d # r) = (c = 13 \<and> d = 10 \<or> hasCrlf (d # r))"

text \<open>\<open>text.replace(/\n/g, '\r\n')\<close>\<close>

definition toCrlf :: "jstr \<Rightarrow> jstr" where
  "toCrlf s = concat (map (\<lambda>c. if c = 10 then [13, 10] else [c]) s)"

text \<open>Texts whose line feeds all follow a carriage return; \<open>cr\<close> tells whether one stands before.\<close>

fun crlf_only :: "bool \<Rightarrow> jstr \<Rightarrow> bool" where
  "crlf_only cr [] = True"
| "crlf_only cr (c # r) = ((c = 10 \<longrightarrow> cr) \<and> crlf_only (c = 13) r)"

lemma toCrlf_simps [simp]:
  "toCrlf [] = []"
  "toCrlf (c # s) = (if c = 10 then [13, 10] else [c]) @ toCrlf s"
  "toCrlf (s @ t) = toCrlf s @ toCrlf t"
  by (simp_all add: toCrlf_def)

lemma normalizeLf_Cons_other [simp]: "c \<noteq> 13 \<Longrightarrow> normalizeLf (c # s) = c # normalizeLf s"
  by (cases s) simp_all

lemma normalizeLf_hd:
  "normalizeLf (13 # s) = (case s of [] \<Rightarrow> [13] | d # r \<Rightarrow> if d = 10 then 10 # normalizeLf r
     else 13 # normalizeLf s)"
  by (cases s) simp_all

lemma normalizeLf_toCrlf: "normalizeLf (toCrlf s) = s"
proof (induction s rule: normalizeLf.induct)
  case (3 c d r)
  then show ?case by (cases "c = 13") auto
qed auto

lemma toCrlf_normalizeLf_iff: "toCrlf (normalizeLf s) = s \<longleftrightarrow> crlf_only False s"
  by (induction s rule: normalizeLf.induct) auto

lemma hasCrlf_normalizeLf: "normalizeLf s = s \<longleftrightarrow> \<not> hasCrlf s"
proof (induction s rule: normalizeLf.induct)
  case (3 c d r)
  have "length (normalizeLf t) \<le> length t" for t
    by (induction t rule: normalizeLf.induct) auto
  from this[of r] have "10 # normalizeLf r \<noteq> c # d # r"
    by (metis Suc_n_not_le_n le_SucI length_Cons list.inject)
  with 3 show ?case by auto
qed auto

lemma normalizeLf_length: "length (normalizeLf s) \<le> length s"
  by (induction s rule: normalizeLf.induct) auto

section \<open>Binary detection\<close>

definition BINARY_PROBE_BYTES :: nat where
  "BINARY_PROBE_BYTES = 8192"

record BinaryProbe =
  inspected :: nat
  binary :: bool

definition new_probe :: BinaryProbe where
  "new_probe = \<lparr>inspected = 0, binary = False\<rparr>"

text \<open>Feed one chunk: the state after it and the verdict returned.\<close>

definition probe_push :: "BinaryProbe \<Rightarrow> bytes \<Rightarrow> BinaryProbe \<times> bool" where
  "probe_push p chunk =
     (if binary p then (p, True)
      else if inspected p \<ge> BINARY_PROBE_BYTES then (p, False)
      else let n = min (length chunk) (BINARY_PROBE_BYTES - inspected p) in
        if 0 \<in> set (take n chunk) then (p\<lparr>binary := True\<rparr>, True)
        else (p\<lparr>inspected := inspected p + n\<rparr>, False))"

fun probe_pushes :: "BinaryProbe \<Rightarrow> bytes list \<Rightarrow> BinaryProbe" where
  "probe_pushes p [] = p"
| "probe_pushes p (c # cs) = probe_pushes (fst (probe_push p c)) cs"

lemma probe_push_verdict: "snd (probe_push p c) = binary (fst (probe_push p c))"
  by (auto simp: probe_push_def Let_def)

lemma probe_pushes_binary:
  "binary (probe_pushes p cs) \<longleftrightarrow>
     binary p \<or> 0 \<in> set (take (BINARY_PROBE_BYTES - inspected p) (concat cs))"
proof (induction cs arbitrary: p)
  case (Cons c cs)
  show ?case
    by (auto simp: Cons.IH probe_push_def Let_def min_def not_le)
qed simp

section \<open>Literal search and replacement\<close>

definition starts_with :: "jstr \<Rightarrow> jstr \<Rightarrow> bool" where
  "starts_with n s \<longleftrightarrow> take (length n) s = n"

text \<open>\<open>haystack.indexOf(needle)\<close>, \<open>None\<close> for \<open>-1\<close>, and the form with a start position.\<close>

fun indexOf :: "jstr \<Rightarrow> jstr \<Rightarrow> nat option" where
  "indexOf [] n = (if n = [] then Some 0 else None)"
| "indexOf (c # s) n =
     (if starts_with n (c # s) then Some 0 else map_option Suc (indexOf s n))"

definition indexOf_from :: "jstr \<Rightarrow> jstr \<Rightarrow> nat \<Rightarrow> nat option" where
  "indexOf_from s n k = (let k = min k (length s) in map_option ((+) k) (indexOf (drop k s) n))"

partial_function (option) count_from :: "jstr \<Rightarrow> jstr \<Rightarrow> nat \<Rightarrow> nat \<Rightarrow> nat option" where
  "count_from h n k start =
     (case indexOf_from h n start of
        None \<Rightarrow> Some k
      | Some at \<Rightarrow> count_from h n (k + 1) (at + length n))"

definition countLiteral :: "jstr \<Rightarrow> jstr \<Rightarrow> nat option" where
  "countLiteral h n = count_from h n 0 0"

text \<open>\<open>haystack.split(needle)\<close>: with an empty needle the code units one by one.\<close>

lemma indexOf_bound: "indexOf s n = Some i \<Longrightarrow> i + length n \<le> length s"
proof (induction s arbitrary: i)
  case (Cons c s)
  show ?case
  proof (cases "starts_with n (c # s)")
    case True
    then have "length n \<le> length (c # s)"
      unfolding starts_with_def by (metis length_take min.absorb_iff1 min.commute)
    with True Cons.prems show ?thesis by simp
  next
    case False
    with Cons.prems Cons.IH show ?thesis by auto
  qed
qed (auto split: if_splits)

function split_lit :: "jstr \<Rightarrow> jstr \<Rightarrow> jstr list" where
  "split_lit h n =
     (if n = [] then map (\<lambda>c. [c]) h
      else case indexOf h n of
        None \<Rightarrow> [h]
      | Some at \<Rightarrow> take at h # split_lit (drop (at + length n) h) n)"
  by auto
termination
  by (relation "measure (\<lambda>(h, n). length h)") (auto dest!: indexOf_bound simp flip: length_greater_0_conv)

declare split_lit.simps [simp del]

fun join :: "jstr list \<Rightarrow> jstr \<Rightarrow> jstr" where
  "join [] sep = []"
| "join [p] sep = p"
| "join (p # q # ps) sep = p @ sep @ join (q # ps) sep"

definition replaceLiteral :: "jstr \<Rightarrow> jstr \<Rightarrow> jstr \<Rightarrow> bool \<Rightarrow> jstr" where
  "replaceLiteral h n r all =
     (if all then join (split_lit h n) r
      else case indexOf h n of
        None \<Rightarrow> h
      | Some at \<Rightarrow> take at h @ r @ drop (at + length n) h)"

lemma indexOf_split:
  "indexOf s n = Some i \<Longrightarrow> s = take i s @ n @ drop (i + length n) s"
proof (induction s arbitrary: i)
  case (Cons c s)
  show ?case
  proof (cases "starts_with n (c # s)")
    case True
    with Cons.prems show ?thesis
      by (simp add: starts_with_def) (metis append_take_drop_id)
  next
    case False
    with Cons show ?thesis by auto
  qed
qed (auto split: if_splits)

lemma starts_with_append: "starts_with n (n @ s)"
  by (simp add: starts_with_def)

lemma indexOf_hit: "indexOf (n @ s) n = Some 0"
proof (cases "n @ s")
  case (Cons c r)
  then show ?thesis using starts_with_append[of n s] by simp
qed simp

lemma indexOf_append: "indexOf (p @ n @ s) n \<noteq> None"
  by (induction p) (auto simp: indexOf_hit)

lemma indexOf_None_iff: "indexOf s n = None \<longleftrightarrow> (\<nexists>p q. s = p @ n @ q)"
  using indexOf_append[of _ n] indexOf_split[of s n] by (cases "indexOf s n") blast+

lemma indexOf_first: "indexOf s n = Some i \<Longrightarrow> s = p @ n @ q \<Longrightarrow> i \<le> length p"
proof (induction s arbitrary: i p)
  case (Cons c s)
  show ?case
  proof (cases "starts_with n (c # s)")
    case False
    then have "p \<noteq> []" using Cons.prems starts_with_append by auto
    with False Cons show ?thesis by (cases p) auto
  next
    case True
    with Cons.prems(1) show ?thesis by simp
  qed
qed (auto split: if_splits)

text \<open>The part before the first occurrence does not contain the needle.\<close>

lemma indexOf_take_None:
  assumes "indexOf s n = Some i" "n \<noteq> []"
  shows "indexOf (take i s) n = None"
proof (rule ccontr)
  assume "\<not> ?thesis"
  then obtain p q where e: "take i s = p @ n @ q"
    unfolding indexOf_None_iff by blast
  have "s = p @ n @ (q @ drop i s)"
    by (metis append_take_drop_id append.assoc e)
  then have "i \<le> length p" by (rule indexOf_first[OF assms(1)])
  moreover have "length (take i s) = length p + length n + length q"
    by (subst e) simp
  ultimately show False using assms(2) by (cases n) (auto simp: min_def split: if_splits)
qed

lemma split_lit_None: "n \<noteq> [] \<Longrightarrow> indexOf h n = None \<Longrightarrow> split_lit h n = [h]"
  by (subst split_lit.simps) simp

lemma split_lit_Some: "n \<noteq> [] \<Longrightarrow> indexOf h n = Some i \<Longrightarrow>
  split_lit h n = take i h # split_lit (drop (i + length n) h) n"
  by (subst split_lit.simps) simp

lemma split_lit_nonempty: "n \<noteq> [] \<Longrightarrow> split_lit h n \<noteq> []"
  by (subst split_lit.simps) (simp split: option.splits)

lemma join_Cons: "ps \<noteq> [] \<Longrightarrow> join (p # ps) sep = p @ sep @ join ps sep"
  by (cases ps) simp_all

lemma split_lit_props:
  assumes "n \<noteq> []"
  shows "join (split_lit h n) n = h \<and> (\<forall>p \<in> set (split_lit h n). indexOf p n = None)"
  using assms
proof (induction h n rule: split_lit.induct)
  case (1 h n)
  show ?case
  proof (cases "indexOf h n")
    case None
    with 1 show ?thesis by (simp add: split_lit_None)
  next
    case (Some i)
    let ?r = "split_lit (drop (i + length n) h) n"
    have IH: "join ?r n = drop (i + length n) h" "\<forall>p \<in> set ?r. indexOf p n = None"
      using 1 Some by simp_all
    have "join (split_lit h n) n = take i h @ n @ drop (i + length n) h"
      using 1(2) by (simp add: split_lit_Some[OF _ Some] join_Cons split_lit_nonempty IH(1))
    also have "\<dots> = h" by (rule indexOf_split[OF Some, symmetric])
    finally show ?thesis
      using 1(2) IH(2) indexOf_take_None[OF Some] by (simp add: split_lit_Some[OF _ Some])
  qed
qed

lemma count_from_split:
  assumes "n \<noteq> []" "k0 \<le> length h"
  shows "count_from h n k k0 = Some (k + length (split_lit (drop k0 h) n) - 1)"
  using assms
proof (induction "length h - k0" arbitrary: k0 k rule: less_induct)
  case less
  show ?case
  proof (cases "indexOf (drop k0 h) n")
    case None
    with less.prems show ?thesis
      by (subst count_from.simps) (simp add: indexOf_from_def split_lit_None)
  next
    case (Some i)
    have b: "i + length n \<le> length h - k0" using indexOf_bound[OF Some] by simp
    have ne: "length n > 0" using less.prems by simp
    have "count_from h n k k0 = count_from h n (k + 1) (k0 + i + length n)"
      using less.prems Some by (subst count_from.simps) (simp add: indexOf_from_def)
    also have "\<dots> = Some (k + 1 + length (split_lit (drop (k0 + i + length n) h) n) - 1)"
      using less.prems b ne by (intro less.hyps) linarith+
    finally show ?thesis
      using less.prems Some split_lit_nonempty[of n "drop (k0 + i + length n) h"]
      by (simp add: split_lit_Some add.assoc add.commute[of k0] add.left_commute)
  qed
qed

lemma countLiteral_split:
  "n \<noteq> [] \<Longrightarrow> countLiteral h n = Some (length (split_lit h n) - 1)"
  using count_from_split[of n 0 h 0] by (simp add: countLiteral_def)


text \<open>With an empty needle the counting loop finds position after position and never ends.\<close>

lemma indexOf_empty: "indexOf s [] = Some 0"
  by (cases s) (simp_all add: starts_with_def)

lemma count_from_returns_nonempty: "count_from h n k j = Some y \<Longrightarrow> n \<noteq> []"
proof (rule count_from.raw_induct[of "\<lambda>h n k j y. n \<noteq> []"])
  fix cf h n k j y
  assume "\<And>h n k j y. cf h n k j = Some y \<Longrightarrow> n \<noteq> []"
    and "(case indexOf_from h n j of None \<Rightarrow> Some k
      | Some at \<Rightarrow> cf h n (k + 1) (at + length n)) = Some y"
  then show "n \<noteq> []" by (fastforce simp: indexOf_from_def Let_def indexOf_empty)
qed

lemma countLiteral_empty: "countLiteral h [] = None"
  using count_from_returns_nonempty[of h "[]"] by (cases "count_from h [] 0 0") (auto simp: countLiteral_def)

lemma split_lit_leftmost:
  assumes "n \<noteq> []"
  shows "\<forall>p \<in> set (butlast (split_lit h n)). indexOf (p @ n) n = Some (length p)"
  using assms
proof (induction h n rule: split_lit.induct)
  case (1 h n)
  show ?case
  proof (cases "indexOf h n")
    case None
    with 1 show ?thesis by (simp add: split_lit_None)
  next
    case (Some i)
    let ?r = "split_lit (drop (i + length n) h) n"
    have ne: "?r \<noteq> []" using 1(2) by (rule split_lit_nonempty)
    have IH: "\<forall>p \<in> set (butlast ?r). indexOf (p @ n) n = Some (length p)"
      using 1 Some by simp
    have li: "length (take i h) = i" using indexOf_bound[OF Some] by simp
    obtain j where j: "indexOf (take i h @ n) n = Some j"
      using indexOf_append[of "take i h" n "[]"] by auto
    have "j \<le> i" using indexOf_first[OF j, of "take i h" "[]"] li by simp
    moreover have "i \<le> j"
    proof -
      have "take i h @ n = take j (take i h @ n) @ n @ drop (j + length n) (take i h @ n)"
        by (rule indexOf_split[OF j])
      then have "h = take j (take i h @ n) @ n @ (drop (j + length n) (take i h @ n) @ drop (i + length n) h)"
        using indexOf_split[OF Some] by (metis append.assoc)
      from indexOf_first[OF Some this] show ?thesis by simp
    qed
    ultimately show ?thesis
      using 1(2) j li IH ne by (simp add: split_lit_Some[OF _ Some])
  qed
qed

lemma replace_all_split: "replaceLiteral h n r True = join (split_lit h n) r"
  by (simp add: replaceLiteral_def)

lemma replace_one_split:
  assumes "n \<noteq> []" "length (split_lit h n) = 2"
  shows "replaceLiteral h n r False = join (split_lit h n) r"
proof -
  obtain i where i: "indexOf h n = Some i"
    using assms split_lit_None[of n h] by (cases "indexOf h n") auto
  have l: "length (split_lit (drop (i + length n) h) n) = 1"
    using assms split_lit_Some[OF _ i] by simp
  then obtain q where q: "split_lit (drop (i + length n) h) n = [q]"
    by (auto simp: length_Suc_conv)
  have "q = drop (i + length n) h"
    using split_lit_props[OF assms(1), of "drop (i + length n) h"] q by simp
  then show ?thesis
    using assms(1) i q by (simp add: replaceLiteral_def split_lit_Some)
qed

text \<open>Replacing a needle by itself changes nothing, whatever the mode.\<close>

lemma replace_self: "n \<noteq> [] \<Longrightarrow> replaceLiteral h n n all = h"
  using split_lit_props[of n h] indexOf_split[of h n]
  by (auto simp: replaceLiteral_def split: option.splits)

text \<open>
  C40: Literal search and replacement agree. For a non-empty needle a text is cut, leftmost
  occurrence first, into pieces that do not contain the needle; \<open>countLiteral\<close> returns the number
  of the cuts, replacing every occurrence joins the pieces with the replacement, and when there
  is exactly one occurrence the single replacement does the same. For an empty needle the
  counting loop does not return, which is why \<open>editText\<close> refuses an empty \<open>oldString\<close> first.
\<close>

theorem literal_edit_spec:
  "countLiteral h [] = None \<and>
   (n \<noteq> [] \<longrightarrow>
     (\<exists>pieces. join pieces n = h \<and> pieces \<noteq> [] \<and> (\<forall>p \<in> set pieces. indexOf p n = None) \<and>
       (\<forall>p \<in> set (butlast pieces). indexOf (p @ n) n = Some (length p)) \<and>
       countLiteral h n = Some (length pieces - 1) \<and>
       (\<forall>r. replaceLiteral h n r True = join pieces r) \<and>
       (\<forall>r. countLiteral h n = Some 1 \<longrightarrow> replaceLiteral h n r False = join pieces r) \<and>
       (\<forall>r. countLiteral h n = Some 0 \<longrightarrow> replaceLiteral h n r False = h)))"
proof (intro conjI impI)
  assume n: "n \<noteq> []"
  have z: "replaceLiteral h n r False = h" if "length (split_lit h n) \<le> Suc 0" for r
  proof (cases "indexOf h n")
    case (Some i)
    then show ?thesis
      using that n split_lit_nonempty[of n "drop (i + length n) h"]
      by (auto simp: split_lit_Some[OF _ Some])
  qed (simp add: replaceLiteral_def)
  have two: "replaceLiteral h n r False = join (split_lit h n) r"
    if "length (split_lit h n) - Suc 0 = Suc 0" for r
    using that by (intro replace_one_split[OF n]) simp
  show "\<exists>pieces. join pieces n = h \<and> pieces \<noteq> [] \<and> (\<forall>p \<in> set pieces. indexOf p n = None) \<and>
       (\<forall>p \<in> set (butlast pieces). indexOf (p @ n) n = Some (length p)) \<and>
       countLiteral h n = Some (length pieces - 1) \<and>
       (\<forall>r. replaceLiteral h n r True = join pieces r) \<and>
       (\<forall>r. countLiteral h n = Some 1 \<longrightarrow> replaceLiteral h n r False = join pieces r) \<and>
       (\<forall>r. countLiteral h n = Some 0 \<longrightarrow> replaceLiteral h n r False = h)"
    using split_lit_props[OF n, of h] split_lit_leftmost[OF n, of h] split_lit_nonempty[OF n, of h]
      countLiteral_split[OF n, of h] replace_all_split[of h n] two z
    by (intro exI[of _ "split_lit h n"]) simp
qed (rule countLiteral_empty)

lemma literal_edit_spec_witness:
  "\<exists>pieces. join pieces (js ''aa'') = js ''xaaaya'' \<and>
     countLiteral (js ''xaaaya'') (js ''aa'') = Some (length pieces - 1) \<and>
     replaceLiteral (js ''xaaaya'') (js ''aa'') (js ''b'') True = join pieces (js ''b'')"
  using literal_edit_spec[of "js ''xaaaya''" "js ''aa''"] by (auto simp: js_def)

text \<open>
  The verdict of the binary detector does not depend on the chunking: after any chunks it is
  \<open>binary\<close> exactly when one of the first 8192 bytes received is zero.
\<close>

theorem probe_chunking:
  "binary (probe_pushes new_probe cs) \<longleftrightarrow> 0 \<in> set (take 8192 (concat cs))"
  by (simp add: probe_pushes_binary new_probe_def BINARY_PROBE_BYTES_def)

section \<open>Concatenation\<close>

text \<open>\<open>concatBytes\<close>: chunk after chunk is written at a running offset of a buffer of zeros.\<close>

fun fill_bytes :: "bytes \<Rightarrow> nat \<Rightarrow> bytes list \<Rightarrow> bytes" where
  "fill_bytes out k [] = out"
| "fill_bytes out k (c # cs) =
     fill_bytes (take k out @ c @ drop (k + length c) out) (k + length c) cs"

definition concatBytes :: "bytes list \<Rightarrow> bytes" where
  "concatBytes cs =
     (let total = foldl (\<lambda>n c. n + length c) 0 cs in fill_bytes (replicate total 0) 0 cs)"

lemma foldl_length: "foldl (\<lambda>n c. n + length c) k cs = k + length (concat cs)"
  by (induction cs arbitrary: k) simp_all

lemma fill_bytes_concat:
  "length pre = k \<Longrightarrow> length rest = length (concat cs) \<Longrightarrow>
     fill_bytes (pre @ rest) k cs = pre @ concat cs"
proof (induction cs arbitrary: pre k rest)
  case (Cons c cs)
  have "fill_bytes (pre @ rest) k (c # cs) = fill_bytes ((pre @ c) @ drop (length c) rest) (k + length c) cs"
    using Cons.prems by simp
  also have "\<dots> = (pre @ c) @ concat cs"
    using Cons.prems by (intro Cons.IH) auto
  finally show ?case by simp
qed simp

lemma concatBytes_concat [simp]: "concatBytes cs = concat cs"
  using fill_bytes_concat[of "[]" 0 "replicate (length (concat cs)) 0" cs]
  by (simp add: concatBytes_def foldl_length)

end
