(* ===== verification/PosixPath.thy ===== *)
theory PosixPath
  imports TextEdit Utf8
begin

text \<open>
  POSIX path text, as far as \<^verbatim>\<open>fs-ssh\<close> uses it: \<open>posix_normalize\<close>, \<open>isAbsolute\<close>, \<open>dirname\<close> and
  \<open>basename\<close> of \<open>node:path\<close>'s \<open>posix\<close>, and shell quoting (\<open>sq\<close>) with the reader of
  single-quoted words it is meant for. The file's own path functions (\<open>toAbsolute\<close>,
  \<open>contains\<close>, \<open>fileUrl\<close>, \<open>tempPathFor\<close>) follow.
\<close>

section \<open>\<open>node:path\<close>\<close>

definition isAbsolute :: "jstr \<Rightarrow> bool" where
  "isAbsolute p \<longleftrightarrow> (case p of [] \<Rightarrow> False | c # _ \<Rightarrow> c = 47)"

abbreviation DOT :: jstr where "DOT \<equiv> [46]"

abbreviation DOTDOT :: jstr where "DOTDOT \<equiv> [46, 46]"

text \<open>\<open>normalizeString\<close> on the segments; \<open>acc\<close> holds the segments kept so far, last one first.\<close>

fun norm_segs :: "bool \<Rightarrow> jstr list \<Rightarrow> jstr list \<Rightarrow> jstr list" where
  "norm_segs up acc [] = rev acc"
| "norm_segs up acc (s # ss) =
     (if s = [] \<or> s = DOT then norm_segs up acc ss
      else if s = DOTDOT then
        (case acc of
           a # r \<Rightarrow> if a \<noteq> DOTDOT then norm_segs up r ss
             else if up then norm_segs up (s # acc) ss else norm_segs up acc ss
         | [] \<Rightarrow> if up then norm_segs up [s] ss else norm_segs up [] ss)
      else norm_segs up (s # acc) ss)"

definition posix_normalize :: "jstr \<Rightarrow> jstr" where
  "posix_normalize path =
     (if path = [] then DOT
      else let abs = isAbsolute path; trailing = (last path = 47);
               q = join (norm_segs (\<not> abs) [] (split_lit path [47])) [47] in
        if q = [] then (if abs then [47] else if trailing then [46, 47] else DOT)
        else (if abs then [47] else []) @ q @ (if trailing then [47] else []))"

definition dirname :: "jstr \<Rightarrow> jstr" where
  "dirname path =
     (case path of
        [] \<Rightarrow> DOT
      | c # r \<Rightarrow>
          (let b = dropWhile (\<lambda>x. x \<noteq> 47) (dropWhile (\<lambda>x. x = 47) (rev r)) in
           if b = [] then (if c = 47 then [47] else DOT)
           else if c = 47 \<and> length b = 1 then [47, 47]
           else take (length b) path))"

definition basename :: "jstr \<Rightarrow> jstr" where
  "basename path = rev (takeWhile (\<lambda>x. x \<noteq> 47) (dropWhile (\<lambda>x. x = 47) (rev path)))"

section \<open>Segments\<close>

definition segs :: "jstr \<Rightarrow> jstr list" where
  "segs p = split_lit p [47]"

text \<open>Path segments of a resolved path: not empty, not \<open>.\<close> or \<open>..\<close>, without a slash.\<close>

definition plain_seg :: "jstr \<Rightarrow> bool" where
  "plain_seg s \<longleftrightarrow> s \<noteq> [] \<and> s \<noteq> DOT \<and> s \<noteq> DOTDOT \<and> 47 \<notin> set s"

definition abs_path :: "jstr list \<Rightarrow> jstr" where
  "abs_path ss = 47 # join ss [47]"

lemma indexOf_slash: "indexOf s [47] = None \<longleftrightarrow> 47 \<notin> set s"
  by (induction s) (auto simp: starts_with_def)

lemma split_slash: "\<forall>s \<in> set (segs p). 47 \<notin> set s" "join (segs p) [47] = p"
  using split_lit_props[of "[47]" p] by (auto simp: segs_def indexOf_slash)

lemma norm_segs_plain:
  assumes "\<forall>s \<in> set ss. 47 \<notin> set s" "\<forall>s \<in> set acc. plain_seg s"
  shows "\<forall>s \<in> set (norm_segs False acc ss). plain_seg s"
  using assms
proof (induction ss arbitrary: acc)
  case (Cons s ss)
  have pa: "plain_seg a" "a \<noteq> DOTDOT" if "acc = a # r" for a r
    using Cons.prems(2) that by (auto simp: plain_seg_def)
  have rest: "\<forall>s \<in> set ss. 47 \<notin> set s" using Cons.prems(1) by simp
  consider "s = [] \<or> s = DOT" | "s = DOTDOT" | "plain_seg s"
    using Cons.prems(1) by (auto simp: plain_seg_def)
  then show ?case
  proof cases
    case 1
    then have "norm_segs False acc (s # ss) = norm_segs False acc ss" by auto
    then show ?thesis using Cons.IH[OF rest Cons.prems(2)] by simp
  next
    case 2
    show ?thesis
    proof (cases acc)
      case (Cons a r)
      then show ?thesis using 2 pa(2)[OF Cons] Cons.IH[OF rest, of r] Cons.prems(2) by simp
    qed (use 2 Cons.IH[OF rest, of "[]"] in simp)
  next
    case 3
    then have "norm_segs False acc (s # ss) = norm_segs False (s # acc) ss" by (auto simp: plain_seg_def)
    then show ?thesis using Cons.IH[OF rest, of "s # acc"] Cons.prems(2) 3 by simp
  qed
qed simp

lemma norm_segs_id: "\<forall>s \<in> set ss. plain_seg s \<Longrightarrow> norm_segs up acc ss = rev acc @ ss"
  by (induction ss arbitrary: acc) (auto simp: plain_seg_def)

lemma indexOf_slash_at: "47 \<notin> set s \<Longrightarrow> indexOf (s @ 47 # r) [47] = Some (length s)"
  by (induction s) (auto simp: starts_with_def)

lemma segs_Cons: "47 \<notin> set s \<Longrightarrow> segs (s @ 47 # r) = s # segs r"
  unfolding segs_def by (subst split_lit_Some[of _ _ "length s"]) (auto simp: indexOf_slash_at)

lemma segs_single: "47 \<notin> set s \<Longrightarrow> segs s = [s]"
  unfolding segs_def by (subst split_lit_None) (auto simp: indexOf_slash)

lemma segs_join:
  assumes "ss \<noteq> []" "\<forall>s \<in> set ss. 47 \<notin> set s"
  shows "segs (join ss [47]) = ss"
  using assms
proof (induction ss)
  case (Cons s ss)
  then show ?case by (cases ss) (auto simp: segs_Cons segs_single)
qed simp

lemma segs_abs_path: "\<forall>s \<in> set ss. plain_seg s \<Longrightarrow> segs (abs_path ss) = [] # (if ss = [] then [[]] else ss)"
  using segs_Cons[of "[]" "join ss [47]"] segs_join[of ss]
  by (auto simp: abs_path_def plain_seg_def segs_single)

lemma join_nonempty: "ss \<noteq> [] \<Longrightarrow> last ss \<noteq> [] \<Longrightarrow> join ss sep \<noteq> []"
  by (induction ss) (auto simp: join_Cons split: if_splits)

lemma join_plain_nonempty: "ss \<noteq> [] \<Longrightarrow> \<forall>s \<in> set ss. plain_seg s \<Longrightarrow> join ss [47] \<noteq> []"
  by (rule join_nonempty) (auto simp: plain_seg_def dest: last_in_set)

lemma last_join: "ss \<noteq> [] \<Longrightarrow> last ss \<noteq> [] \<Longrightarrow> last (join ss [47]) = last (last ss)"
proof (induction ss)
  case (Cons s ss)
  show ?case
  proof (cases "ss = []")
    case False
    then show ?thesis using Cons join_nonempty[of ss "[47]"] by (simp add: join_Cons)
  qed (use Cons in simp)
qed simp

lemma last_abs_path:
  assumes "ss \<noteq> []" "\<forall>s \<in> set ss. plain_seg s"
  shows "last (abs_path ss) \<noteq> 47"
proof -
  have p: "plain_seg (last ss)" using assms by simp
  have "last (abs_path ss) = last (last ss)"
    using assms p last_join[of ss] join_plain_nonempty[of ss]
    by (simp add: abs_path_def plain_seg_def)
  moreover have "last (last ss) \<in> set (last ss)" "47 \<notin> set (last ss)"
    using p by (simp_all add: plain_seg_def)
  ultimately show ?thesis by metis
qed

text \<open>Normalising an absolute path gives its kept segments, with the trailing slash it had.\<close>

lemma normalize_abs:
  assumes "isAbsolute p"
  defines "ss \<equiv> norm_segs False [] (segs p)"
  shows "posix_normalize p = abs_path ss @ (if ss \<noteq> [] \<and> last p = 47 then [47] else [])"
    "\<forall>s \<in> set ss. plain_seg s"
proof -
  have ne: "p \<noteq> []" using assms(1) by (auto simp: isAbsolute_def)
  show pl: "\<forall>s \<in> set ss. plain_seg s"
    unfolding ss_def using split_slash(1)[of p] by (intro norm_segs_plain) auto
  show "posix_normalize p = abs_path ss @ (if ss \<noteq> [] \<and> last p = 47 then [47] else [])"
  proof (cases "ss = []")
    case True
    then show ?thesis
      using ne assms(1) unfolding ss_def by (simp add: posix_normalize_def abs_path_def segs_def)
  next
    case False
    then show ?thesis
      using ne assms(1) join_plain_nonempty[OF _ pl] unfolding ss_def
      by (simp add: posix_normalize_def abs_path_def segs_def Let_def)
  qed
qed

section \<open>Paths of the provider\<close>

text \<open>\<open>abs.replace(/\/+$/, '')\<close>\<close>

definition strip_slashes :: "jstr \<Rightarrow> jstr" where
  "strip_slashes s = rev (dropWhile (\<lambda>x. x = 47) (rev s))"

definition base_dir :: "jstr option \<Rightarrow> jstr option \<Rightarrow> jstr" where
  "base_dir defaultCwd cwd =
     (case cwd of Some c \<Rightarrow> c | None \<Rightarrow> (case defaultCwd of Some c \<Rightarrow> c | None \<Rightarrow> [47]))"

definition joined_path :: "jstr \<Rightarrow> jstr \<Rightarrow> jstr" where
  "joined_path base path =
     (if isAbsolute path then path else (if base = [47] then [] else base) @ [47] @ path)"

definition toAbsolute :: "jstr option \<Rightarrow> jstr \<Rightarrow> jstr option \<Rightarrow> jstr" where
  "toAbsolute defaultCwd path cwd =
     (let r = posix_normalize (joined_path (base_dir defaultCwd cwd) path) in
      if length r > 1 then strip_slashes r else r)"

lemma strip_slashes_id: "s \<noteq> [] \<Longrightarrow> last s \<noteq> 47 \<Longrightarrow> strip_slashes s = s"
  by (cases s rule: rev_cases) (auto simp: strip_slashes_def)

lemma strip_slashes_snoc: "strip_slashes (s @ [47]) = strip_slashes s"
  by (simp add: strip_slashes_def)

lemma abs_path_length: "ss \<noteq> [] \<Longrightarrow> \<forall>s \<in> set ss. plain_seg s \<Longrightarrow> length (abs_path ss) > 1"
  using join_plain_nonempty[of ss] by (simp add: abs_path_def)

lemma normalize_strip:
  assumes "isAbsolute p"
  shows "(if length (posix_normalize p) > 1 then strip_slashes (posix_normalize p) else posix_normalize p) =
    abs_path (norm_segs False [] (segs p))"
proof (cases "norm_segs False [] (segs p) = []")
  case True
  then show ?thesis using normalize_abs[OF assms] by (simp add: abs_path_def)
next
  case False
  note n = normalize_abs[OF assms]
  have "strip_slashes (abs_path (norm_segs False [] (segs p))) = abs_path (norm_segs False [] (segs p))"
    using last_abs_path[OF False n(2)] by (intro strip_slashes_id) (simp_all add: abs_path_def)
  then show ?thesis
    using False n abs_path_length[OF False n(2)] by (simp add: strip_slashes_snoc)
qed

text \<open>
  What \<open>resolve\<close> and \<open>lstat\<close> work on is a clean absolute path. When the path is absolute, or the
  base it is joined to is, \<open>toAbsolute\<close> returns a slash followed by segments none of which is
  empty, \<open>.\<close> or \<open>..\<close>, and applying it to the result gives the result again.
\<close>

theorem toAbsolute_clean:
  assumes "isAbsolute path \<or> isAbsolute (base_dir dcwd cwd)"
  shows "(\<exists>ss. toAbsolute dcwd path cwd = abs_path ss \<and> (\<forall>s \<in> set ss. plain_seg s)) \<and>
    toAbsolute dcwd' (toAbsolute dcwd path cwd) cwd' = toAbsolute dcwd path cwd"
proof -
  define j where "j = joined_path (base_dir dcwd cwd) path"
  have "isAbsolute j"
    using assms by (auto simp: j_def joined_path_def isAbsolute_def split: list.splits if_splits)
  note n = normalize_strip[OF this] normalize_abs(2)[OF this]
  define ss where "ss = norm_segs False [] (segs j)"
  have t: "toAbsolute dcwd path cwd = abs_path ss"
    using n(1) by (simp only: toAbsolute_def Let_def j_def ss_def)
  have pl: "\<forall>s \<in> set ss. plain_seg s" using n(2) by (simp add: ss_def)
  have a: "isAbsolute (abs_path ss)" by (simp add: abs_path_def isAbsolute_def)
  have "norm_segs False [] (segs (abs_path ss)) = ss"
    using norm_segs_id[OF pl, of False "[]"] segs_abs_path[OF pl] by auto
  then have "toAbsolute dcwd' (abs_path ss) cwd' = abs_path ss"
    using normalize_strip[OF a] a by (simp add: toAbsolute_def joined_path_def Let_def)
  then show ?thesis using t pl by auto
qed

lemma toAbsolute_clean_witness:
  "toAbsolute None (toAbsolute (Some (js ''/home/u'')) (js ''../x//./y/'') None) (Some (js ''q'')) =
     toAbsolute (Some (js ''/home/u'')) (js ''../x//./y/'') None"
  using toAbsolute_clean[where path = "js ''../x//./y/''" and cwd = None and dcwd = "Some (js ''/home/u'')"
      and dcwd' = None and cwd' = "Some (js ''q'')"]
  by (simp add: isAbsolute_def base_dir_def js_def)

text \<open>\<open>contains\<close> on target keys.\<close>

definition contains :: "jstr \<Rightarrow> jstr \<Rightarrow> bool" where
  "contains p c \<longleftrightarrow> c = p \<or> starts_with (if p = [47] then [47] else p @ [47]) c"

lemma starts_with_iff: "starts_with n s \<longleftrightarrow> (\<exists>r. s = n @ r)"
  by (auto simp: starts_with_def) (metis append_take_drop_id)

lemma join_append: "ss \<noteq> [] \<Longrightarrow> ts \<noteq> [] \<Longrightarrow> join (ss @ ts) sep = join ss sep @ sep @ join ts sep"
proof (induction ss)
  case (Cons a ss)
  then show ?case by (cases "ss = []") (simp_all add: join_Cons)
qed simp

lemma abs_path_inj:
  assumes "\<forall>s \<in> set ss. plain_seg s" "\<forall>s \<in> set ts. plain_seg s" "abs_path ss = abs_path ts"
  shows "ss = ts"
proof -
  have "segs (abs_path ss) = segs (abs_path ts)" using assms(3) by (rule arg_cong)
  then have "(if ss = [] then [[]] else ss) = (if ts = [] then [[]] else ts)"
    unfolding segs_abs_path[OF assms(1)] segs_abs_path[OF assms(2)] by (metis list.inject)
  moreover have "\<not> plain_seg []" by (simp add: plain_seg_def)
  then have "[[]] \<noteq> ss" "[[]] \<noteq> ts" using assms(1,2) by (metis list.set_intros(1))+
  ultimately show ?thesis by metis
qed

text \<open>
  Containment is containment of the directory trees: for two clean absolute paths,
  \<open>contains\<close> holds exactly when the segments of the parent are a prefix of the child's
  segments, so \<open>/a/b\<close> does not contain \<open>/a/bc\<close>.
\<close>

theorem contains_iff_segments:
  assumes "\<forall>s \<in> set ps. plain_seg s" "\<forall>s \<in> set cs. plain_seg s"
  shows "contains (abs_path ps) (abs_path cs) \<longleftrightarrow> (\<exists>rest. cs = ps @ rest)"
proof
  assume "\<exists>rest. cs = ps @ rest"
  then obtain rest where r: "cs = ps @ rest" by blast
  show "contains (abs_path ps) (abs_path cs)"
  proof (cases "ps = [] \<or> rest = []")
    case True
    then show ?thesis using r by (auto simp: contains_def abs_path_def starts_with_def)
  next
    case False
    then have "abs_path cs = (abs_path ps @ [47]) @ join rest [47]"
      using r by (simp add: abs_path_def join_append)
    moreover have "abs_path ps \<noteq> [47]" using False assms(1) abs_path_length[of ps] by auto
    ultimately show ?thesis by (auto simp: contains_def starts_with_iff)
  qed
next
  assume c: "contains (abs_path ps) (abs_path cs)"
  show "\<exists>rest. cs = ps @ rest"
  proof (cases "ps = [] \<or> abs_path cs = abs_path ps")
    case True
    then show ?thesis using abs_path_inj[OF assms(2,1)] by auto
  next
    case False
    then have "abs_path ps \<noteq> [47]" using assms(1) abs_path_length[of ps] by auto
    then obtain r where r: "abs_path cs = abs_path ps @ 47 # r"
      using c False by (auto simp: contains_def starts_with_iff)
    have sp: "\<forall>s \<in> set ps. 47 \<notin> set s" using assms(1) by (auto simp: plain_seg_def)
    have "segs r \<noteq> []" by (simp add: segs_def split_lit_nonempty)
    then have "join (ps @ segs r) [47] = join ps [47] @ [47] @ r"
      using False join_append[of ps "segs r" "[47]"] split_slash(2)[of r] by metis
    then have e: "abs_path cs = abs_path (ps @ segs r)"
      unfolding r by (simp add: abs_path_def)
    have "segs (join (ps @ segs r) [47]) = ps @ segs r"
      using False sp split_slash(1)[of r] by (intro segs_join) auto
    then have "segs (abs_path (ps @ segs r)) = [] # ps @ segs r"
      using segs_Cons[of "[]" "join (ps @ segs r) [47]"] unfolding abs_path_def by (metis append_Nil empty_iff empty_set)
    then have f: "(if cs = [] then [[]] else cs) = ps @ segs r"
      using segs_abs_path[OF assms(2)] unfolding e by (metis list.inject)
    show ?thesis
    proof (cases "cs = []")
      case True
      then have "[] \<in> set ps" using f False by (cases ps) auto
      then show ?thesis using assms(1) by (auto simp: plain_seg_def)
    qed (use f in auto)
  qed
qed

lemma contains_iff_segments_witness:
  "contains (abs_path [[97], [98]]) (abs_path [[97], [98], [99]]) \<and>
   \<not> contains (abs_path [[97], [98]]) (abs_path [[97], [98, 99]])"
  using contains_iff_segments[of "[[97], [98]]" "[[97], [98], [99]]"]
    contains_iff_segments[of "[[97], [98]]" "[[97], [98, 99]]"]
  by (simp add: plain_seg_def)

section \<open>Shell quoting\<close>

text \<open>\<open>value.replace(/'/g, `'\''`)\<close> between single quotes.\<close>

definition sq :: "jstr \<Rightarrow> jstr" where
  "sq v = [39] @ concat (map (\<lambda>c. if c = 39 then [39, 92, 39, 39] else [c]) v) @ [39]"

text \<open>
  How a POSIX shell reads the words of a simple command, for the text the provider sends:
  \<open>sh_word q s\<close> reads up to the end of the current word, inside quotes when \<open>q\<close>. Outside quotes
  a backslash quotes the next character and a space ends the word; any other character that is
  not a plain one would mean something to the shell and is refused.
\<close>

definition sh_plain :: "nat \<Rightarrow> bool" where
  "sh_plain c \<longleftrightarrow> 48 \<le> c \<and> c \<le> 57 \<or> 65 \<le> c \<and> c \<le> 90 \<or> 97 \<le> c \<and> c \<le> 122 \<or>
     c \<in> {45, 46, 47, 95}"

fun sh_word :: "bool \<Rightarrow> jstr \<Rightarrow> (jstr \<times> jstr) option" where
  "sh_word True [] = None"
| "sh_word True (c # r) =
     (if c = 39 then sh_word False r else map_option (map_prod ((#) c) id) (sh_word True r))"
| "sh_word False [] = Some ([], [])"
| "sh_word False [c] =
     (if c = 32 then Some ([], []) else if sh_plain c then Some ([c], []) else None)"
| "sh_word False (c # d # r) =
     (if c = 39 then sh_word True (d # r)
      else if c = 92 then map_option (map_prod ((#) d) id) (sh_word False r)
      else if c = 32 then Some ([], d # r)
      else if sh_plain c then map_option (map_prod ((#) c) id) (sh_word False (d # r))
      else None)"

lemma sh_word_length: "sh_word q s = Some (w, r) \<Longrightarrow> length r \<le> length s"
  by (induction q s arbitrary: w rule: sh_word.induct) (fastforce split: if_splits)+

lemma sh_word_shorter: "sh_word False (c # s) = Some (w, r) \<Longrightarrow> length r < length (c # s)"
  by (cases s) (auto dest!: sh_word_length split: if_splits)

function sh_words :: "jstr \<Rightarrow> jstr list option" where
  "sh_words [] = Some []"
| "sh_words (c # s) =
     (case sh_word False (c # s) of
        None \<Rightarrow> None
      | Some (w, r) \<Rightarrow> map_option ((#) w) (sh_words r))"
  by pat_completeness auto
termination
  by (relation "measure length") (auto dest!: sh_word_shorter)

lemma sh_word_quoted_tail: "sh_word True (39 # r) = sh_word False r"
  by simp

definition sq_body :: "jstr \<Rightarrow> jstr" where
  "sq_body v = concat (map (\<lambda>c. if c = 39 then [39, 92, 39, 39] else [c]) v)"

lemma sq_body_simps [simp]:
  "sq_body [] = []"
  "sq_body (c # v) = (if c = 39 then [39, 92, 39, 39] else [c]) @ sq_body v"
  by (simp_all add: sq_body_def)

lemma sq_sq_body: "sq v = 39 # sq_body v @ [39]"
  by (simp add: sq_def sq_body_def)

lemma sh_word_body:
  "sh_word True (sq_body v @ 39 # r) = map_option (map_prod ((@) v) id) (sh_word False r)"
proof (induction v)
  case Nil
  show ?case by (cases "sh_word False r") simp_all
next
  case (Cons c v)
  obtain x xs where x: "sq_body v @ 39 # r = x # xs" by (cases "sq_body v @ 39 # r") auto
  show ?case
  proof (cases "c = 39")
    case True
    have "sh_word True (sq_body (c # v) @ 39 # r) = sh_word False (92 # 39 # 39 # x # xs)"
      using True x by simp
    also have "\<dots> = map_option (map_prod ((#) 39) id) (sh_word True (x # xs))"
      by simp
    finally show ?thesis
      using Cons.IH True unfolding x by (cases "sh_word False r") auto
  next
    case False
    then show ?thesis using Cons.IH by (cases "sh_word False r") auto
  qed
qed

lemma sh_word_sq_end: "sh_word False (sq v) = Some (v, [])"
  using sh_word_body[of v "[]"] by (cases v) (auto simp: sq_sq_body)

lemma sh_word_sq: "sh_word False (sq v @ 32 # r) = Some (v, r)"
proof -
  have "sh_word False (sq v @ 32 # r) = sh_word True (sq_body v @ 39 # 32 # r)"
    by (cases "sq_body v @ 39 # 32 # r") (auto simp: sq_sq_body)
  also have "\<dots> = Some (v, r)" by (cases r) (simp_all add: sh_word_body)
  finally show ?thesis .
qed

lemma sh_words_sq: "sh_words (join (map sq vs) [32]) = Some vs"
proof (induction vs)
  case (Cons v vs)
  have c: "\<exists>s. sq v = 39 # s" by (simp add: sq_sq_body)
  show ?case
  proof (cases "vs = []")
    case True
    then show ?thesis using c sh_word_sq_end[of v] by auto
  next
    case False
    obtain s where s: "sq v = 39 # s" using c by blast
    have "sh_word False (39 # s @ 32 # join (map sq vs) [32]) = Some (v, join (map sq vs) [32])"
      using sh_word_sq[of v "join (map sq vs) [32]"] s by simp
    then show ?thesis using False Cons.IH s by (simp add: join_Cons)
  qed
qed simp

text \<open>
  Quoting is safe: whatever characters the arguments contain, quotes, spaces, newlines and
  shell metacharacters included, the shell reads the command line built with \<open>sq\<close> as exactly
  these arguments; behind a command of plain words the same holds for the whole line.
\<close>

theorem quoting_exact:
  "sh_words (join (map sq vs) [32]) = Some vs \<and>
   (vs \<noteq> [] \<longrightarrow> sh_words (js ''realpath -mz -- '' @ join (map sq vs) [32]) =
     Some (js ''realpath'' # js ''-mz'' # js ''--'' # vs))"
proof -
  have "sh_words (js ''realpath -mz -- '' @ r) =
      map_option (\<lambda>vs. js ''realpath'' # js ''-mz'' # js ''--'' # vs) (sh_words r)" if "r \<noteq> []" for r
    using that by (cases r) (auto simp: js_def sh_plain_def option.map_comp o_def split: option.splits)
  moreover have "join (map sq vs) [32] \<noteq> []" if "vs \<noteq> []"
    using that by (intro join_nonempty) (auto simp: sq_sq_body last_map)
  ultimately show ?thesis by (simp add: sh_words_sq)
qed

lemma quoting_exact_witness:
  "sh_words (js ''realpath -mz -- '' @ join (map sq [js ''/tmp/a;rm b'']) [32]) =
     Some [js ''realpath'', js ''-mz'', js ''--'', js ''/tmp/a;rm b'']"
  using quoting_exact[of "[js ''/tmp/a;rm b'']"] by simp


section \<open>File URLs and staging names\<close>

definition uri_unreserved :: "nat \<Rightarrow> bool" where
  "uri_unreserved c \<longleftrightarrow> 48 \<le> c \<and> c \<le> 57 \<or> 65 \<le> c \<and> c \<le> 90 \<or> 97 \<le> c \<and> c \<le> 122 \<or>
     c \<in> {33, 39, 40, 41, 42, 45, 46, 95, 126}"

definition hex_upper :: "nat \<Rightarrow> nat" where
  "hex_upper n = (if n < 10 then 48 + n else 55 + n)"

definition pct_byte :: "nat \<Rightarrow> jstr" where
  "pct_byte b = (if uri_unreserved b then [b] else [37, hex_upper (b div 16), hex_upper (b mod 16)])"

text \<open>\<open>encodeURIComponent\<close>; \<open>None\<close> is the \<open>URIError\<close> of an unpaired surrogate.\<close>

definition encodeURIComponent :: "jstr \<Rightarrow> jstr option" where
  "encodeURIComponent s = (if wf_utf16 s then Some (concat (map pct_byte (utf8 s))) else None)"

definition fileUrl :: "jstr \<Rightarrow> jstr option" where
  "fileUrl key =
     (let parts = map encodeURIComponent (split_lit key [47]) in
      if None \<in> set parts then None else Some (js ''file://'' @ join (map the parts) [47]))"

text \<open>Decoding a URL path back to bytes.\<close>

definition unhex_upper :: "nat \<Rightarrow> nat" where
  "unhex_upper c = (if c < 58 then c - 48 else c - 55)"

fun pct_decode :: "jstr \<Rightarrow> bytes" where
  "pct_decode (c # d # e # r) =
     (if c = 37 then (16 * unhex_upper d + unhex_upper e) # pct_decode r
      else c # pct_decode (d # e # r))"
| "pct_decode (c # r) = c # pct_decode r"
| "pct_decode [] = []"

lemma unhex_hex: "n < 16 \<Longrightarrow> unhex_upper (hex_upper n) = n"
  by (auto simp: unhex_upper_def hex_upper_def)

lemma pct_decode_Cons: "c \<noteq> 37 \<Longrightarrow> pct_decode (c # r) = c # pct_decode r"
  by (cases r; cases "tl r") auto

lemma pct_decode_bytes:
  "\<forall>b \<in> set bs. b < 256 \<Longrightarrow> pct_decode (concat (map pct_byte bs) @ r) = bs @ pct_decode r"
proof (induction bs)
  case (Cons b bs)
  then have "b div 16 < 16" "b mod 16 < 16" by (simp_all add: less_mult_imp_div_less)
  moreover have "uri_unreserved b \<Longrightarrow> b \<noteq> 37" by (auto simp: uri_unreserved_def)
  ultimately show ?case
    using Cons by (auto simp: pct_byte_def unhex_hex pct_decode_Cons)
qed simp

lemma wf_utf16_split:
  assumes "wf_utf16 (s @ c # r)" "\<not> is_high c" "\<not> is_low c"
  shows "wf_utf16 s \<and> wf_utf16 r"
  using assms(1)
proof (induction s rule: wf_utf16.induct)
  case 1
  then show ?case using assms by (cases r) (auto split: if_splits)
next
  case (2 x)
  then show ?case using assms by (cases r) (auto split: if_splits)
qed (auto split: if_splits)

lemma utf8_bytes: "wf_utf16 s \<Longrightarrow> \<forall>b \<in> set (utf8 s). b < 256"
proof (induction s rule: wf_utf16.induct)
  case (3 c d r)
  then show ?case
    using pair_cp_bounds[of c d] utf8_cp_bytes[of "pair_cp c d"] utf8_cp_bytes[of "scalar c"]
    by (auto simp: scalar_def split: if_splits)
qed (auto simp: scalar_def dest!: utf8_cp_bytes[THEN bspec, rotated])

lemma encode_decode_join:
  assumes "wf_utf16 (join ss [47])" "ss \<noteq> []"
  shows "\<forall>s \<in> set ss. wf_utf16 s"
    "pct_decode (join (map (the \<circ> encodeURIComponent) ss) [47]) = utf8 (join ss [47])"
proof -
  have "(\<forall>s \<in> set ss. wf_utf16 s) \<and>
    pct_decode (join (map (the \<circ> encodeURIComponent) ss) [47]) = utf8 (join ss [47])"
    using assms
  proof (induction ss)
    case (Cons s ss)
    show ?case
    proof (cases "ss = []")
      case True
      then show ?thesis
        using Cons.prems utf8_bytes[of s] pct_decode_bytes[of "utf8 s" "[]"]
        by (simp add: encodeURIComponent_def)
    next
      case False
      have "wf_utf16 (s @ 47 # join ss [47])" using Cons.prems False by (simp add: join_Cons)
      from wf_utf16_split[OF this] have w: "wf_utf16 s" "wf_utf16 (join ss [47])"
        by (auto simp: is_high_def is_low_def)
      note IH = Cons.IH[OF w(2) False]
      have "utf8 (s @ [47] @ join ss [47]) = utf8 s @ 47 # utf8 (join ss [47])"
        using utf8_append[OF w(1)] utf8_append[of "[47]" "join ss [47]"]
        by (simp add: is_high_def is_low_def utf8_cp_def scalar_def)
      then show ?thesis
        using w IH False utf8_bytes[OF w(1)] pct_decode_bytes[of "utf8 s" "47 # _"]
        by (simp add: join_Cons encodeURIComponent_def pct_decode_Cons)
    qed
  qed simp
  then show "\<forall>s \<in> set ss. wf_utf16 s"
    "pct_decode (join (map (the \<circ> encodeURIComponent) ss) [47]) = utf8 (join ss [47])" by auto
qed

text \<open>
  The file URL of a path denotes the path: for a well-formed key \<open>fileUrl\<close> succeeds, and
  percent-decoding what follows \<open>file://\<close> gives the UTF-8 bytes of the key.
\<close>

theorem fileUrl_roundtrip:
  assumes "wf_utf16 key"
  shows "\<exists>u. fileUrl key = Some (js ''file://'' @ u) \<and> pct_decode u = utf8 key"
proof -
  let ?ss = "split_lit key [47]"
  have j: "join ?ss [47] = key" "?ss \<noteq> []"
    using split_lit_props[of "[47]" key] split_lit_nonempty[of "[47]" key] by auto
  note e = encode_decode_join[of ?ss, unfolded j(1), OF assms j(2)]
  have "None \<notin> set (map encodeURIComponent ?ss)"
    using e(1) by (auto simp: encodeURIComponent_def)
  then show ?thesis using e(2) by (simp add: fileUrl_def)
qed

lemma fileUrl_roundtrip_witness:
  "\<exists>u. fileUrl [47, 97, 32, 233, 47, 98] = Some (js ''file://'' @ u) \<and>
     pct_decode u = [47, 97, 32, 195, 169, 47, 98]"
  using fileUrl_roundtrip[of "[47, 97, 32, 233, 47, 98]"]
  by (simp add: is_high_def is_low_def utf8_cp_def scalar_def)

text \<open>\<open>tempPathFor\<close>; \<open>rand\<close> is the text of the random suffix.\<close>

definition tempPathFor :: "jstr \<Rightarrow> jstr \<Rightarrow> jstr" where
  "tempPathFor rand key =
     (let dir = dirname key in
      (if dir = [47] then [] else dir) @ [47] @ basename key @ js ''.dsh-remote-tmp-'' @ rand)"

end
