(* ===== verification/SshHost.thy ===== *)
theory SshHost
  imports Errors PosixPath
begin

text \<open>
  The remote host as the filesystem provider of \<^verbatim>\<open>fs-ssh\<close> sees it, and the version tokens
  of \<^verbatim>\<open>fs-ssh/src/version.ts\<close>.

  The host is a store from canonical absolute paths to nodes (a file with its bytes, a
  directory, a symbolic link with the path it names, anything else). A \<open>world\<close> is that store, the
  number of remote calls made so far, and what the provider keeps and has emitted. Every remote
  call \<open>enter\<close>s the host: other processes change the store first (\<open>e_interf\<close>), and the call may
  then fail (\<open>e_fault\<close>); both are arbitrary functions of the number of the call, collected with
  the clock, the abort signal and the liveness of the connection in an environment \<open>env\<close>. The
  answers of SFTP follow the transport of the repository's own tests.

  The publish script is the text the provider sends. \<open>sh_publish\<close> is the shell function that
  text defines, and \<open>remote_exec\<close> reads the command text as the shell does.
\<close>

section \<open>Attributes and version tokens\<close>

datatype node_kind = KFile | KDirectory | KSymlink | KOther

record SftpAttrs =
  a_size :: nat
  a_mode :: nat
  a_mtime :: nat
  a_kind :: node_kind

definition isFile :: "SftpAttrs \<Rightarrow> bool" where
  "isFile a \<longleftrightarrow> a_kind a = KFile"

definition isDirectory :: "SftpAttrs \<Rightarrow> bool" where
  "isDirectory a \<longleftrightarrow> a_kind a = KDirectory"

definition isSymbolicLink :: "SftpAttrs \<Rightarrow> bool" where
  "isSymbolicLink a \<longleftrightarrow> a_kind a = KSymlink"

text \<open>\<open>n.toString(8)\<close>\<close>

fun octal :: "nat \<Rightarrow> jstr" where
  "octal n = (if n < 8 then [48 + n] else octal (n div 8) @ [48 + n mod 8])"

declare octal.simps [simp del]

record VersionElements =
  v_size :: nat
  v_mtime :: nat
  v_modeOct :: jstr

definition versionElementsOf :: "SftpAttrs \<Rightarrow> VersionElements" where
  "versionElementsOf a =
     \<lparr>v_size = a_size a, v_mtime = a_mtime a, v_modeOct = octal (a_mode a mod 512)\<rparr>"

text \<open>The digest \<open>sha\<close> maps the hashed text to the hex digest.\<close>

definition versionTokenOf :: "(jstr \<Rightarrow> jstr) \<Rightarrow> VersionElements \<Rightarrow> jstr" where
  "versionTokenOf sha v =
     sha (stringify (JArr [JInt (int (v_size v)), JInt (int (v_mtime v)), JStr (v_modeOct v)]))"

definition versionOfAttrs :: "(jstr \<Rightarrow> jstr) \<Rightarrow> SftpAttrs \<Rightarrow> jstr" where
  "versionOfAttrs sha a = versionTokenOf sha (versionElementsOf a)"

lemma octal_nonempty: "octal n \<noteq> []"
  by (subst octal.simps) simp

lemma octal_inj: "octal m = octal n \<Longrightarrow> m = n"
proof (induction m arbitrary: n rule: octal.induct)
  case (1 m)
  show ?case
  proof (cases "m < 8")
    case True
    then have m: "octal m = [48 + m]" by (subst octal.simps) simp
    have "n < 8"
    proof (rule ccontr)
      assume "\<not> n < 8"
      then have "octal n = octal (n div 8) @ [48 + n mod 8]" by (subst octal.simps) simp
      then show False using m 1(2) octal_nonempty[of "n div 8"] by (cases "octal (n div 8)") auto
    qed
    then have "octal n = [48 + n]" by (subst octal.simps) simp
    then show ?thesis using m 1(2) by simp
  next
    case False
    then have m: "octal m = octal (m div 8) @ [48 + m mod 8]" by (subst octal.simps) simp
    have n: "\<not> n < 8"
    proof
      assume "n < 8"
      then have "octal n = [48 + n]" by (subst octal.simps) simp
      then show False using m 1(2) octal_nonempty[of "m div 8"] by (cases "octal (m div 8)") auto
    qed
    then have "octal n = octal (n div 8) @ [48 + n mod 8]" by (subst octal.simps) simp
    then have "octal (m div 8) = octal (n div 8)" "m mod 8 = n mod 8" using m 1(2) by simp_all
    then show ?thesis using 1(1)[OF False] by (metis mod_div_decomp)
  qed
qed

lemma octal_units: "units_ok (octal n)"
proof (induction n rule: octal.induct)
  case (1 n)
  have "n mod 8 < 8" by simp
  then have "n mod 8 < 65488" by linarith
  then show ?case using 1 by (subst octal.simps) simp
qed

lemma digits_inj: "digits m = digits n \<Longrightarrow> m = n"
  by (metis digits_val_digits)

text \<open>
  With a digest without collisions two attribute records have the same version token
  exactly when size, modification second and the nine permission bits agree; nothing else of a
  file enters its version.
\<close>

theorem version_token_exact:
  assumes "inj sha"
  shows "versionOfAttrs sha a = versionOfAttrs sha b \<longleftrightarrow>
    a_size a = a_size b \<and> a_mtime a = a_mtime b \<and> a_mode a mod 512 = a_mode b mod 512"
proof
  assume "versionOfAttrs sha a = versionOfAttrs sha b"
  then have e: "stringify (JArr [JInt (int (a_size a)), JInt (int (a_mtime a)), JStr (octal (a_mode a mod 512))]) =
      stringify (JArr [JInt (int (a_size b)), JInt (int (a_mtime b)), JStr (octal (a_mode b mod 512))])"
    using assms by (simp add: versionOfAttrs_def versionTokenOf_def versionElementsOf_def inj_eq)
  have w: "wf_json (JArr [JInt (int s), JInt (int t), JStr (octal m)])" for s t m
    by (simp add: JInt_def octal_units)
  from e have "JArr [JInt (int (a_size a)), JInt (int (a_mtime a)), JStr (octal (a_mode a mod 512))] =
      JArr [JInt (int (a_size b)), JInt (int (a_mtime b)), JStr (octal (a_mode b mod 512))]"
    using json_parse_stringify[OF w] by (metis option.inject)
  then show "a_size a = a_size b \<and> a_mtime a = a_mtime b \<and> a_mode a mod 512 = a_mode b mod 512"
    by (auto simp: JInt_def dest: octal_inj)
qed (simp add: versionOfAttrs_def versionTokenOf_def versionElementsOf_def)

lemma version_token_exact_witness:
  "versionOfAttrs id \<lparr>a_size = 3, a_mode = 33188, a_mtime = 7, a_kind = KFile\<rparr> \<noteq>
   versionOfAttrs id \<lparr>a_size = 3, a_mode = 33261, a_mtime = 7, a_kind = KFile\<rparr>"
  using version_token_exact[of id "\<lparr>a_size = 3, a_mode = 33188, a_mtime = 7, a_kind = KFile\<rparr>"
      "\<lparr>a_size = 3, a_mode = 33261, a_mtime = 7, a_kind = KFile\<rparr>"] by simp

section \<open>Errors\<close>

datatype transport_code = NO_SUCH_FILE | PERMISSION_DENIED | NOT_DIRECTORY | IO_ERROR | CONN_LOST

text \<open>A rejection of the transport: a \<open>TransportError\<close> with its code, or another error.\<close>

datatype transport_error = TErr "transport_code option" jstr

datatype FsErrorCode =
    FS_NOT_FOUND
  | FS_NOT_DIRECTORY
  | FS_NOT_TEXT
  | FS_NOT_REGULAR_FILE
  | FS_TOO_LARGE
  | FS_PERMISSION_DENIED
  | FS_SANDBOX_DENIED
  | FS_IO_ERROR
  | FS_STALE_VERSION
  | FS_NOT_OBSERVED
  | FS_AMBIGUOUS_EDIT
  | FS_EDIT_NOT_FOUND
  | FS_ABORTED

datatype fs_error = FsError (fs_code: FsErrorCode) (fs_message: jstr)

definition transportCode :: "transport_error \<Rightarrow> transport_code option" where
  "transportCode e = (case e of TErr c _ \<Rightarrow> c)"

definition isNoSuch :: "transport_error \<Rightarrow> bool" where
  "isNoSuch e \<longleftrightarrow> transportCode e = Some NO_SUCH_FILE"

definition mapFsError :: "transport_error \<Rightarrow> jstr \<Rightarrow> fs_error" where
  "mapFsError e what =
     (case e of TErr c m \<Rightarrow>
       (case c of
          Some NO_SUCH_FILE \<Rightarrow> FsError FS_NOT_FOUND (what @ js '': no such file ('' @ m @ js '')'')
        | Some PERMISSION_DENIED \<Rightarrow>
            FsError FS_PERMISSION_DENIED (what @ js '': permission denied ('' @ m @ js '')'')
        | Some NOT_DIRECTORY \<Rightarrow>
            FsError FS_NOT_DIRECTORY (what @ js '': not a directory ('' @ m @ js '')'')
        | _ \<Rightarrow> FsError FS_IO_ERROR (what @ js '': I/O failure ('' @ m @ js '')'')))"

section \<open>The store\<close>

record node_meta =
  n_mode :: nat
  n_mtime :: nat

datatype node =
    File bytes node_meta
  | Directory nat node_meta
  | Symlink jstr node_meta
  | Special nat node_meta

type_synonym store = "jstr \<Rightarrow> node option"

fun node_attrs :: "node \<Rightarrow> SftpAttrs" where
  "node_attrs (File d m) = \<lparr>a_size = length d, a_mode = n_mode m, a_mtime = n_mtime m, a_kind = KFile\<rparr>"
| "node_attrs (Directory n m) = \<lparr>a_size = n, a_mode = n_mode m, a_mtime = n_mtime m, a_kind = KDirectory\<rparr>"
| "node_attrs (Symlink t m) = \<lparr>a_size = length t, a_mode = n_mode m, a_mtime = n_mtime m, a_kind = KSymlink\<rparr>"
| "node_attrs (Special n m) = \<lparr>a_size = n, a_mode = n_mode m, a_mtime = n_mtime m, a_kind = KOther\<rparr>"

text \<open>Following links from a path, at most so many.\<close>

fun follow :: "nat \<Rightarrow> store \<Rightarrow> jstr \<Rightarrow> jstr option" where
  "follow 0 st p = None"
| "follow (Suc n) st p =
     (case st p of None \<Rightarrow> None | Some (Symlink t _) \<Rightarrow> follow n st t | Some _ \<Rightarrow> Some p)"

definition MAX_LINKS :: nat where
  "MAX_LINKS = 40"

definition resolved :: "store \<Rightarrow> jstr \<Rightarrow> node option" where
  "resolved st p = (case follow MAX_LINKS st p of None \<Rightarrow> None | Some q \<Rightarrow> st q)"

definition is_dir :: "store \<Rightarrow> jstr \<Rightarrow> bool" where
  "is_dir st p \<longleftrightarrow> (case resolved st p of Some (Directory _ _) \<Rightarrow> True | _ \<Rightarrow> False)"

definition is_link :: "store \<Rightarrow> jstr \<Rightarrow> bool" where
  "is_link st p \<longleftrightarrow> (case st p of Some (Symlink _ _) \<Rightarrow> True | _ \<Rightarrow> False)"

lemma resolved_plain: "st p = Some nd \<Longrightarrow> \<not> is_link st p \<Longrightarrow> resolved st p = Some nd"
  by (cases nd) (auto simp: resolved_def MAX_LINKS_def is_link_def eval_nat_numeral)

lemma resolved_absent: "st p = None \<Longrightarrow> resolved st p = None"
  by (simp add: resolved_def MAX_LINKS_def eval_nat_numeral)

section \<open>The publish script\<close>

definition child_path :: "jstr \<Rightarrow> jstr \<Rightarrow> jstr" where
  "child_path d name = (if d = [47] then [47] else d @ [47]) @ name"

text \<open>\<open>mv -f -- src dst\<close>: into \<open>dst\<close> when that is a directory, else a rename over it.\<close>

definition mv_force :: "store \<Rightarrow> jstr \<Rightarrow> jstr \<Rightarrow> nat \<times> store" where
  "mv_force st src dst =
     (case st src of
        None \<Rightarrow> (1, st)
      | Some nd \<Rightarrow>
          (let d = (if is_dir st dst then child_path (the (follow MAX_LINKS st dst)) (basename src) else dst) in
           if d = src \<or> is_dir st dst \<and> (case st d of Some (Directory _ _) \<Rightarrow> True | _ \<Rightarrow> False) then (1, st)
           else (0, (st(src := None))(d := Some nd))))"

text \<open>The words of \<open>stat -c '%s %Y %a'\<close>: size, modification second, all twelve mode bits.\<close>

definition stat_words :: "node \<Rightarrow> jstr list" where
  "stat_words nd =
     (let a = node_attrs nd in [digits (a_size a), digits (a_mtime a), octal (a_mode a mod 4096)])"

text \<open>
  The function \<open>dsh_remote_publish\<close> on its six arguments: exit code and store. \<open>st_ok\<close> and
  \<open>mv_ok\<close> tell whether the external commands \<open>stat\<close> and \<open>mv\<close> succeed at all.
\<close>

definition sh_publish :: "bool \<Rightarrow> bool \<Rightarrow> store \<Rightarrow> jstr list \<Rightarrow> nat \<times> store" where
  "sh_publish st_ok mv_ok st args =
     (case args of
        [mode, sz, mtime, bits, staged, file] \<Rightarrow>
          (let move = (if mv_ok then mv_force st staged file else (1, st)) in
           if mode = js ''create'' then
             if resolved st file \<noteq> None \<or> is_link st file then (3, st) else move
           else if mode = js ''replace'' then
             if resolved st file = None \<and> \<not> is_link st file then (4, st)
             else (case st file of
                     None \<Rightarrow> (4, st)
                   | Some nd \<Rightarrow>
                       if \<not> st_ok then (4, st)
                       else if stat_words nd \<noteq> [sz, mtime, bits] then (4, st)
                       else move)
           else move)
      | _ \<Rightarrow> (127, st))"


text \<open>The script itself, line by line as the provider joins it.\<close>

definition publish_function :: jstr where
  \<open>publish_function = join
     [js ''dsh_remote_publish() {'',
      js ''  dsh_mode=$1 dsh_size=$2 dsh_mtime=$3 dsh_bits=$4 dsh_tmp=$5 dsh_file=$6'',
      js ''  if [ "$dsh_mode" = create ]; then'',
      js ''    if [ -e "$dsh_file" ] || [ -L "$dsh_file" ]; then exit 3; fi'',
      js ''  elif [ "$dsh_mode" = replace ]; then'',
      js ''    if [ ! -e "$dsh_file" ] && [ ! -L "$dsh_file" ]; then exit 4; fi'',
      js ''    dsh_v=$(command stat -c '%s %Y %a' -- "$dsh_file") || exit 4'',
      js ''    set -- $dsh_v'',
      js ''    if [ "$1" != "$dsh_size" ] || [ "$2" != "$dsh_mtime" ] || [ "$3" != "$dsh_bits" ]; then exit 4; fi'',
      js ''  fi'',
      js ''  mv -f -- "$dsh_tmp" "$dsh_file"'',
      js ''}'']
     [10] @ [10]\<close>

definition publish_script :: "jstr list \<Rightarrow> jstr" where
  "publish_script args = publish_function @ join (js ''dsh_remote_publish'' # map sq args) [32]"

section \<open>The world and its calls\<close>

datatype fault =
    Refused transport_error bool
  | NoExit bool
  | StatFails
  | MvFails

record target =
  targetKey :: jstr
  displayPath :: jstr

datatype observation = Present jstr | Absent

record env =
  e_interf :: "nat \<Rightarrow> store \<Rightarrow> store"
  e_fault :: "nat \<Rightarrow> fault option"
  e_aborted :: "nat \<Rightarrow> bool"
  e_live :: "nat \<Rightarrow> bool"
  e_now :: "nat \<Rightarrow> nat"
  e_chunk :: nat
  e_real :: "store \<Rightarrow> jstr \<Rightarrow> jstr"
  e_stderr :: "nat \<Rightarrow> jstr"
  e_sha :: "jstr \<Rightarrow> jstr"
  e_rand :: "nat \<Rightarrow> jstr"
  e_cwd :: "jstr option"

record world =
  w_store :: store
  w_calls :: nat
  w_cache :: "(jstr \<times> (target \<times> nat)) list"
  w_observed :: "(target \<times> observation) list"

definition enter :: "env \<Rightarrow> world \<Rightarrow> world" where
  "enter E w = w\<lparr>w_store := e_interf E (w_calls w) (w_store w), w_calls := Suc (w_calls w)\<rparr>"

text \<open>A rejected call; the flag of \<open>Refused\<close> tells whether it took effect before that.\<close>

definition refused :: "env \<Rightarrow> world \<Rightarrow> transport_error option" where
  "refused E w = (case e_fault E (w_calls w) of Some (Refused e _) \<Rightarrow> Some e | _ \<Rightarrow> None)"

definition no_such :: "jstr \<Rightarrow> transport_error" where
  "no_such p = TErr (Some NO_SUCH_FILE) (js ''no such file: '' @ p)"

definition sftp_stat :: "env \<Rightarrow> jstr \<Rightarrow> world \<Rightarrow> (transport_error + SftpAttrs) \<times> world" where
  "sftp_stat E p w =
     (let w1 = enter E w in
      case refused E w of
        Some e \<Rightarrow> (Inl e, w1)
      | None \<Rightarrow> (case resolved (w_store w1) p of
          None \<Rightarrow> (Inl (no_such p), w1)
        | Some nd \<Rightarrow> (Inr (node_attrs nd), w1)))"

definition sftp_lstat :: "env \<Rightarrow> jstr \<Rightarrow> world \<Rightarrow> (transport_error + SftpAttrs) \<times> world" where
  "sftp_lstat E p w =
     (let w1 = enter E w in
      case refused E w of
        Some e \<Rightarrow> (Inl e, w1)
      | None \<Rightarrow> (case w_store w1 p of
          None \<Rightarrow> (Inl (no_such p), w1)
        | Some nd \<Rightarrow> (Inr (node_attrs nd), w1)))"

text \<open>
  What a read stream yields: the content as of its opening cut into chunks of
  \<open>e_chunk E + 1\<close> bytes, or an error at the first chunk.
\<close>

function chunks_of :: "nat \<Rightarrow> bytes \<Rightarrow> bytes list" where
  "chunks_of n bs = (if bs = [] then [] else take (Suc n) bs # chunks_of n (drop (Suc n) bs))"
  by auto
termination by (relation "measure (\<lambda>(n, bs). length bs)") auto

declare chunks_of.simps [simp del]

lemma concat_chunks [simp]: "concat (chunks_of n bs) = bs"
  by (induction n bs rule: chunks_of.induct) (subst chunks_of.simps, simp)

definition read_stream :: "env \<Rightarrow> store \<Rightarrow> jstr \<Rightarrow> transport_error + bytes list" where
  "read_stream E st p =
     (case resolved st p of
        None \<Rightarrow> Inl (no_such p)
      | Some (File d _) \<Rightarrow> Inr (chunks_of (e_chunk E) d)
      | Some _ \<Rightarrow> Inl (TErr (Some IO_ERROR) (js ''not a regular file: '' @ p)))"

text \<open>
  Writing a file and closing the stream. A rejected write may leave the first half of the bytes.
  An existing file keeps its permission bits, a new one gets \<open>mode\<close>.
\<close>

definition put_file :: "env \<Rightarrow> nat \<Rightarrow> jstr \<Rightarrow> nat \<Rightarrow> bytes \<Rightarrow> store \<Rightarrow> store" where
  "put_file E n p mode d st =
     st(p \<mapsto> File d \<lparr>n_mode = (case st p of Some (File _ m) \<Rightarrow> n_mode m | _ \<Rightarrow> 32768 + mode),
       n_mtime = e_now E n div 1000\<rparr>)"

definition sftp_write :: "env \<Rightarrow> jstr \<Rightarrow> nat \<Rightarrow> bytes \<Rightarrow> world \<Rightarrow> (transport_error + unit) \<times> world" where
  "sftp_write E p mode d w =
     (let w1 = enter E w; n = w_calls w in
      case e_fault E n of
        Some (Refused e part) \<Rightarrow>
          (Inl e, if part then w1\<lparr>w_store := put_file E n p mode (take (length d div 2) d) (w_store w1)\<rparr> else w1)
      | _ \<Rightarrow>
          if \<not> is_dir (w_store w1) (dirname p) then (Inl (no_such (dirname p)), w1)
          else if is_dir (w_store w1) p then (Inl (TErr (Some IO_ERROR) p), w1)
          else (Inr (), w1\<lparr>w_store := put_file E n p mode d (w_store w1)\<rparr>))"

definition sftp_unlink :: "env \<Rightarrow> jstr \<Rightarrow> world \<Rightarrow> (transport_error + unit) \<times> world" where
  "sftp_unlink E p w =
     (let w1 = enter E w in
      case refused E w of
        Some e \<Rightarrow> (Inl e, w1)
      | None \<Rightarrow> (case w_store w1 p of
          None \<Rightarrow> (Inl (no_such p), w1)
        | Some (Directory _ _) \<Rightarrow> (Inl (TErr (Some IO_ERROR) (js ''is a directory: '' @ p)), w1)
        | Some _ \<Rightarrow> (Inr (), w1\<lparr>w_store := (w_store w1)(p := None)\<rparr>)))"

text \<open>
  An exec channel: what the remote shell makes of the command text, as exit code, output and store.
\<close>

definition strip_prefix :: "jstr \<Rightarrow> jstr \<Rightarrow> jstr option" where
  "strip_prefix p s = (if starts_with p s then Some (drop (length p) s) else None)"

definition remote_shell :: "env \<Rightarrow> fault option \<Rightarrow> jstr \<Rightarrow> store \<Rightarrow> nat \<times> jstr \<times> store" where
  "remote_shell E f cmd st =
     (case strip_prefix publish_function cmd of
        Some line \<Rightarrow>
          (case sh_words line of
             Some (c # args) \<Rightarrow>
               if c = js ''dsh_remote_publish'' then
                 (case sh_publish (f \<noteq> Some StatFails) (f \<noteq> Some MvFails) st args of
                    (code, st') \<Rightarrow> (code, [], st'))
               else (127, [], st)
           | _ \<Rightarrow> (2, [], st))
      | None \<Rightarrow>
          (case sh_words cmd of
             Some [c, opts, dashes, p] \<Rightarrow>
               if c = js ''realpath'' \<and> opts = js ''-mz'' \<and> dashes = js ''--''
               then (0, e_real E st p @ [0], st) else (127, [], st)
           | _ \<Rightarrow> (127, [], st)))"

definition remote_exec ::
  "env \<Rightarrow> jstr \<Rightarrow> world \<Rightarrow> (transport_error + nat option \<times> jstr \<times> jstr) \<times> world" where
  "remote_exec E cmd w =
     (let w1 = enter E w; n = w_calls w; f = e_fault E n in
      case remote_shell E f cmd (w_store w1) of
        (code, out, st') \<Rightarrow>
          (case f of
             Some (Refused e eff) \<Rightarrow> (Inl e, if eff then w1\<lparr>w_store := st'\<rparr> else w1)
           | Some (NoExit eff) \<Rightarrow>
               (Inr (None, if eff then out else [], e_stderr E n), if eff then w1\<lparr>w_store := st'\<rparr> else w1)
           | _ \<Rightarrow> (Inr (Some code, out, e_stderr E n), w1\<lparr>w_store := st'\<rparr>)))"

lemma sh_words_publish: "sh_words (join (js ''dsh_remote_publish'' # map sq args) [32]) =
  Some (js ''dsh_remote_publish'' # args)"
proof -
  have w: "sh_word False (js ''dsh_remote_publish'') = Some (js ''dsh_remote_publish'', [])"
    "sh_word False (js ''dsh_remote_publish'' @ 32 # r) = Some (js ''dsh_remote_publish'', r)" for r
    by (cases r; simp add: js_def sh_plain_def)+
  have c: "js ''dsh_remote_publish'' = 100 # js ''sh_remote_publish''" by (simp add: js_def)
  show ?thesis
  proof (cases "args = []")
    case True
    then show ?thesis using w(1) unfolding c by simp
  next
    case False
    have "join (js ''dsh_remote_publish'' # map sq args) [32] = js ''dsh_remote_publish'' @ 32 # join (map sq args) [32]"
      using False by (simp add: join_Cons)
    then show ?thesis
      using w(2)[of "join (map sq args) [32]"] sh_words_sq[of args] unfolding c by simp
  qed
qed

lemma remote_shell_publish:
  "remote_shell E f (publish_script args) st =
     (case sh_publish (f \<noteq> Some StatFails) (f \<noteq> Some MvFails) st args of (code, st') \<Rightarrow> (code, [], st'))"
  by (simp add: remote_shell_def publish_script_def strip_prefix_def starts_with_def sh_words_publish
      del: join.simps)


lemma mv_force_fails: "mv_force st src dst = (c, st') \<Longrightarrow> c \<noteq> 0 \<Longrightarrow> st' = st"
  by (auto simp: mv_force_def Let_def split: option.splits if_splits)

lemma sh_publish_guard:
  assumes "sh_publish st_ok mv_ok st [mode, sz, mt, bits, staged, file] = (code, st')"
  shows "code \<noteq> 0 \<Longrightarrow> st' = st"
    "code = 0 \<Longrightarrow> mode = js ''create'' \<Longrightarrow> st file = None"
    "code = 0 \<Longrightarrow> mode = js ''replace'' \<Longrightarrow> \<exists>nd. st file = Some nd \<and> stat_words nd = [sz, mt, bits]"
    "code = 0 \<Longrightarrow> mv_force st staged file = (0, st')"
proof -
  have lk: "st file = None" if "resolved st file = None" "\<not> is_link st file"
    using that resolved_plain[of st "file"] by (cases "st file") auto
  show "code \<noteq> 0 \<Longrightarrow> st' = st"
    using assms mv_force_fails[of st staged "file"]
    by (auto simp: sh_publish_def Let_def split: if_splits option.splits)
  show "code = 0 \<Longrightarrow> mode = js ''create'' \<Longrightarrow> st file = None"
    using assms lk by (auto simp: sh_publish_def Let_def split: if_splits)
  show "code = 0 \<Longrightarrow> mode = js ''replace'' \<Longrightarrow> \<exists>nd. st file = Some nd \<and> stat_words nd = [sz, mt, bits]"
    using assms by (auto simp: sh_publish_def Let_def split: if_splits option.splits)
  show "code = 0 \<Longrightarrow> mv_force st staged file = (0, st')"
    using assms by (auto simp: sh_publish_def Let_def split: if_splits option.splits)
qed

text \<open>
  The publish script keeps its guard in the same critical section as the move. Whatever the
  paths contain, the command text run by the remote shell either leaves the store as it is and
  ends with a code other than 0, or performs exactly \<open>mv -f\<close> of the staged file and ends with 0;
  and the latter in mode \<open>create\<close> only when nothing exists at the target, in mode \<open>replace\<close> only
  when the target exists and its size, modification second and mode bits are those asked for.
\<close>

lemma publish_guarded:
  assumes "remote_shell E f (publish_script [mode, sz, mt, bits, staged, file]) st = (code, out, st')"
  shows "(code \<noteq> 0 \<longrightarrow> st' = st) \<and>
    (code = 0 \<longrightarrow> mv_force st staged file = (0, st') \<and>
      (mode = js ''create'' \<longrightarrow> st file = None) \<and>
      (mode = js ''replace'' \<longrightarrow> (\<exists>nd. st file = Some nd \<and> stat_words nd = [sz, mt, bits])))"
proof -
  have "sh_publish (f \<noteq> Some StatFails) (f \<noteq> Some MvFails) st [mode, sz, mt, bits, staged, file] = (code, st')"
    using assms by (simp add: remote_shell_publish split: prod.splits)
  from sh_publish_guard[OF this] show ?thesis by blast
qed

end
