(* ===== verification/SshFs.thy ===== *)
theory SshFs
  imports SshHost
begin

text \<open>
  The SSH filesystem provider, \<^verbatim>\<open>fs-ssh/src/fs-ssh.ts\<close>, one definition per method. A method
  takes the environment and the world to its result (an \<open>FsError\<close> or a value) and the world after
  it; \<open>andThen\<close> is the sequencing of \<open>await\<close>ed calls in which an exception ends the method. The
  per-key mutex of \<open>writeText\<close> and \<open>editText\<close> is the theory \<open>KeyedMutex\<close>; \<open>performWrite\<close> and
  \<open>performEdit\<close> are the tasks it runs.
\<close>

section \<open>Sequencing\<close>

type_synonym 'a outcome = "(fs_error + 'a) \<times> world"

definition andThen :: "('e + 'a) \<times> world \<Rightarrow> ('a \<Rightarrow> world \<Rightarrow> ('e + 'b) \<times> world) \<Rightarrow> ('e + 'b) \<times> world" where
  "andThen r f = (case r of (Inl e, w) \<Rightarrow> (Inl e, w) | (Inr a, w) \<Rightarrow> f a w)"

text \<open>\<open>catch (e) { throw mapFsError(e, what) }\<close> around a transport call.\<close>

definition mapping :: "jstr \<Rightarrow> (transport_error + 'a) \<times> world \<Rightarrow> 'a outcome" where
  "mapping what r = (case r of (Inl e, w) \<Rightarrow> (Inl (mapFsError e what), w) | (Inr a, w) \<Rightarrow> (Inr a, w))"

lemma andThen_simps [simp]:
  "andThen (Inl e, w) f = (Inl e, w)"
  "andThen (Inr a, w) f = f a w"
  by (simp_all add: andThen_def)

lemma mapping_simps [simp]:
  "mapping what (Inl e, w) = (Inl (mapFsError e what), w)"
  "mapping what (Inr a, w) = (Inr a, w)"
  by (simp_all add: mapping_def)

lemma andThen_cases:
  assumes "andThen r f = (res, w')"
  obtains (err) e where "r = (Inl e, w')" "res = Inl e"
  | (ok) a w where "r = (Inr a, w)" "f a w = (res, w')"
  using assms by (auto simp: andThen_def split: prod.splits sum.splits)

definition checkAborted :: "env \<Rightarrow> world \<Rightarrow> unit outcome" where
  "checkAborted E w =
     (if e_aborted E (w_calls w) then Inl (FsError FS_ABORTED (js ''operation aborted'')) else Inr (), w)"

definition transport :: "env \<Rightarrow> world \<Rightarrow> unit outcome" where
  "transport E w =
     (if e_live E (w_calls w) then Inr () else Inl (FsError FS_IO_ERROR (js ''no live SSH connection'')), w)"

text \<open>
  \<open>sftp()\<close>: the transport's own error is an \<open>FsError\<close> and passes \<open>mapFsError\<close> unchanged; a
  rejected acquisition of the subsystem is mapped.
\<close>

definition sftp :: "env \<Rightarrow> world \<Rightarrow> unit outcome" where
  "sftp E w =
     andThen (transport E w) (\<lambda>_ w.
       (case refused E w of
          Some e \<Rightarrow> (Inl (mapFsError e (js ''acquire sftp'')), enter E w)
        | None \<Rightarrow> (Inr (), enter E w)))"

definition emitObserved :: "target \<Rightarrow> observation \<Rightarrow> world \<Rightarrow> world" where
  "emitObserved t ob w = w\<lparr>w_observed := w_observed w @ [(t, ob)]\<rparr>"

definition execCapture :: "env \<Rightarrow> jstr \<Rightarrow> world \<Rightarrow> (nat option \<times> jstr \<times> jstr) outcome" where
  "execCapture E cmd w = mapping (js ''exec'') (remote_exec E cmd w)"

section \<open>Identity\<close>

definition RESOLVE_CACHE_TTL_MS :: nat where
  "RESOLVE_CACHE_TTL_MS = 5000"

definition realpath_command :: "jstr \<Rightarrow> jstr" where
  "realpath_command ab = js ''realpath -mz -- '' @ sq ab"

text \<open>\<open>stderr.trim()\<close> in a message.\<close>

definition js_space :: "nat \<Rightarrow> bool" where
  "js_space c \<longleftrightarrow> c \<in> {9, 10, 11, 12, 13, 32, 160, 5760, 8232, 8233, 8239, 8287, 12288, 65279} \<or>
     8192 \<le> c \<and> c \<le> 8202"

definition trim :: "jstr \<Rightarrow> jstr" where
  "trim s = rev (dropWhile js_space (rev (dropWhile js_space s)))"

definition resolve :: "env \<Rightarrow> jstr \<Rightarrow> jstr option \<Rightarrow> world \<Rightarrow> target outcome" where
  "resolve E path cwd w =
     andThen (checkAborted E w) (\<lambda>_ w.
       let ab = toAbsolute (e_cwd E) path cwd;
           miss = andThen (transport E w) (\<lambda>_ w.
             andThen (execCapture E (realpath_command ab) w) (\<lambda>(code, out, err) w.
               if code \<noteq> Some 0 \<or> out = [] then
                 (Inl (FsError FS_IO_ERROR (js ''realpath failed for '' @ ab @ js '': '' @ trim err)), w)
               else
                 let real = (if last out = 0 then butlast out else out);
                     t = \<lparr>targetKey = real, displayPath = ab\<rparr> in
                 (Inr t, w\<lparr>w_cache := AList.update ab (t, e_now E (w_calls w) + RESOLVE_CACHE_TTL_MS)
                    (w_cache w)\<rparr>)))
       in (case map_of (w_cache w) ab of
             Some (t, expires) \<Rightarrow> if expires > e_now E (w_calls w) then (Inr t, w) else miss
           | None \<Rightarrow> miss))"

definition processPath :: "target \<Rightarrow> jstr" where
  "processPath t = targetKey t"

definition invalidateResolveCache :: "jstr \<Rightarrow> world \<Rightarrow> world" where
  "invalidateResolveCache key w =
     w\<lparr>w_cache := filter (\<lambda>(_, t, _). targetKey t \<noteq> key) (w_cache w)\<rparr>"

section \<open>Metadata\<close>

datatype entry_type = TFile | TDirectory | TSymlink | TOther

definition entryType :: "SftpAttrs \<Rightarrow> entry_type" where
  "entryType a = (if isFile a then TFile else if isDirectory a then TDirectory else TOther)"

definition pathType :: "SftpAttrs \<Rightarrow> entry_type" where
  "pathType a =
     (if isSymbolicLink a then TSymlink else if isFile a then TFile
      else if isDirectory a then TDirectory else TOther)"

record FsInfo =
  i_version :: jstr
  i_type :: entry_type
  i_size :: "nat option"

definition info_of :: "env \<Rightarrow> (SftpAttrs \<Rightarrow> entry_type) \<Rightarrow> SftpAttrs \<Rightarrow> FsInfo" where
  "info_of E ty a = \<lparr>i_version = versionOfAttrs (e_sha E) a, i_type = ty a,
     i_size = (if isFile a then Some (a_size a) else None)\<rparr>"

definition fs_stat :: "env \<Rightarrow> target \<Rightarrow> world \<Rightarrow> FsInfo option outcome" where
  "fs_stat E t w =
     andThen (checkAborted E w) (\<lambda>_ w.
     andThen (sftp E w) (\<lambda>_ w.
       (case sftp_stat E (targetKey t) w of
          (Inl e, w) \<Rightarrow>
            if isNoSuch e then (Inr None, emitObserved t Absent w)
            else (Inl (mapFsError e (js ''stat '' @ displayPath t)), w)
        | (Inr a, w) \<Rightarrow>
            andThen (checkAborted E w) (\<lambda>_ w.
              let info = info_of E entryType a in
              (Inr (Some info), emitObserved t (Present (i_version info)) w)))))"

definition fs_lstat :: "env \<Rightarrow> jstr \<Rightarrow> jstr option \<Rightarrow> world \<Rightarrow> FsInfo option outcome" where
  "fs_lstat E path cwd w =
     andThen (checkAborted E w) (\<lambda>_ w.
       let ab = toAbsolute (e_cwd E) path cwd in
       andThen (sftp E w) (\<lambda>_ w.
         (case sftp_lstat E ab w of
            (Inl e, w) \<Rightarrow>
              if isNoSuch e then (Inr None, w) else (Inl (mapFsError e (js ''lstat '' @ ab)), w)
          | (Inr a, w) \<Rightarrow> andThen (checkAborted E w) (\<lambda>_ w. (Inr (Some (info_of E pathType a)), w)))))"

record FsDirEntry =
  d_name :: jstr
  d_type :: entry_type
  d_target :: target
  d_version :: jstr
  d_size :: "nat option"

text \<open>
  \<open>readdir\<close> answers with names and attributes in some order (\<open>dir\<close> gives what the server lists
  for a store and a path); the listing is sorted by code units.
\<close>

definition child_entry :: "env \<Rightarrow> jstr \<Rightarrow> jstr \<times> SftpAttrs \<Rightarrow> FsDirEntry" where
  "child_entry E key na =
     (case na of (name, a) \<Rightarrow>
        let joined = (if key = [47] then [47] @ name else key @ [47] @ name);
            childKey = posix_normalize joined in
        \<lparr>d_name = name, d_type = entryType a,
         d_target = \<lparr>targetKey = childKey, displayPath = childKey\<rparr>,
         d_version = versionOfAttrs (e_sha E) a,
         d_size = (if isFile a then Some (a_size a) else None)\<rparr>)"

fun unit_less :: "jstr \<Rightarrow> jstr \<Rightarrow> bool" where
  "unit_less s [] = False"
| "unit_less [] (d # t) = True"
| "unit_less (c # s) (d # t) = (c < d \<or> c = d \<and> unit_less s t)"

fun insert_entry :: "jstr \<times> 'a \<Rightarrow> (jstr \<times> 'a) list \<Rightarrow> (jstr \<times> 'a) list" where
  "insert_entry x [] = [x]"
| "insert_entry x (y # ys) = (if unit_less (fst y) (fst x) then y # insert_entry x ys else x # y # ys)"

definition sort_entries :: "(jstr \<times> 'a) list \<Rightarrow> (jstr \<times> 'a) list" where
  "sort_entries xs = foldr insert_entry xs []"

definition listDir ::
  "env \<Rightarrow> (store \<Rightarrow> jstr \<Rightarrow> (jstr \<times> SftpAttrs) list) \<Rightarrow> target \<Rightarrow> world \<Rightarrow> FsDirEntry list outcome" where
  "listDir E dir t w =
     andThen (checkAborted E w) (\<lambda>_ w.
     andThen (sftp E w) (\<lambda>_ w.
       (case sftp_stat E (targetKey t) w of
          (Inl e, w) \<Rightarrow>
            if isNoSuch e then
              (Inl (FsError FS_NOT_FOUND (js ''no such directory: '' @ displayPath t)), emitObserved t Absent w)
            else (Inl (mapFsError e (js ''stat '' @ displayPath t)), w)
        | (Inr a, w) \<Rightarrow>
            if \<not> isDirectory a then
              (Inl (FsError FS_NOT_DIRECTORY (js ''not a directory: '' @ displayPath t)), w)
            else (case refused E w of
                Some e \<Rightarrow> (Inl (mapFsError e (js ''readdir '' @ displayPath t)), enter E w)
              | None \<Rightarrow>
                  let w1 = enter E w; entries = dir (w_store w1) (targetKey t) in
                  andThen (checkAborted E w1) (\<lambda>_ w.
                    (Inr (map (child_entry E (targetKey t)) (sort_entries entries)),
                     emitObserved t (Present (versionOfAttrs (e_sha E) a)) w))))))"


section \<open>Reads\<close>

definition statForRead :: "env \<Rightarrow> target \<Rightarrow> world \<Rightarrow> FsInfo outcome" where
  "statForRead E t w =
     andThen (fs_stat E t w) (\<lambda>info w.
       (case info of
          None \<Rightarrow> (Inl (FsError FS_NOT_FOUND (js ''no such file: '' @ displayPath t)), w)
        | Some i \<Rightarrow>
            if i_type i \<noteq> TFile then
              (Inl (FsError FS_NOT_REGULAR_FILE (js ''not a regular file: '' @ displayPath t)), w)
            else (Inr i, w)))"

text \<open>
  The \<open>for await\<close> loop over a read stream: each turn is a call, and the stream hands out the
  content it was opened on.
\<close>

fun read_loop :: "env \<Rightarrow> nat option \<Rightarrow> jstr \<Rightarrow> bytes list \<Rightarrow> nat \<Rightarrow> bytes list \<Rightarrow> world \<Rightarrow> bytes list outcome" where
  "read_loop E cap what acc got [] w =
     (case refused E w of
        Some e \<Rightarrow> (Inl (mapFsError e (js ''read '' @ what)), enter E w)
      | None \<Rightarrow> (Inr acc, enter E w))"
| "read_loop E cap what acc got (c # cs) w =
     (case refused E w of
        Some e \<Rightarrow> (Inl (mapFsError e (js ''read '' @ what)), enter E w)
      | None \<Rightarrow>
          andThen (checkAborted E (enter E w)) (\<lambda>_ w.
            let got = got + length c in
            (case cap of
               Some m \<Rightarrow>
                 if got > m then
                   (Inl (FsError FS_TOO_LARGE (js ''file too large: '' @ what @ js '' (>'' @ digits m @ js '' bytes)'')), w)
                 else read_loop E cap what (acc @ [c]) got cs w
             | None \<Rightarrow> read_loop E cap what (acc @ [c]) got cs w)))"

definition readAll :: "env \<Rightarrow> jstr \<Rightarrow> nat option \<Rightarrow> jstr \<Rightarrow> world \<Rightarrow> bytes outcome" where
  "readAll E key cap what w =
     andThen (sftp E w) (\<lambda>_ w.
       (case read_stream E (w_store w) key of
          Inl e \<Rightarrow> (Inl (mapFsError e (js ''read '' @ what)), enter E w)
        | Inr chunks \<Rightarrow>
            andThen (read_loop E cap what [] 0 chunks w) (\<lambda>cs w. (Inr (concatBytes cs), w))))"

definition decode :: "bytes \<Rightarrow> jstr" where
  "decode bs = (case td_run td_new bs of (td, u) \<Rightarrow> u @ snd (td_flush td))"

definition binary_error :: "jstr \<Rightarrow> fs_error" where
  "binary_error what = FsError FS_NOT_TEXT (js ''binary content rejected: '' @ what)"

definition readText :: "env \<Rightarrow> target \<Rightarrow> world \<Rightarrow> jstr outcome" where
  "readText E t w =
     andThen (statForRead E t w) (\<lambda>_ w.
     andThen (readAll E (targetKey t) None (displayPath t) w) (\<lambda>bs w.
       if snd (probe_push new_probe bs) then (Inl (binary_error (displayPath t)), w)
       else andThen (checkAborted E w) (\<lambda>_ w. (Inr (decode bs), w))))"

text \<open>
  The generator of \<open>streamText\<close>: the texts yielded, the error it ends with if any, and the world
  after it was consumed.
\<close>

fun stream_loop ::
  "env \<Rightarrow> jstr \<Rightarrow> BinaryProbe \<Rightarrow> text_decoder \<Rightarrow> jstr list \<Rightarrow> bytes list \<Rightarrow> world \<Rightarrow>
     jstr list \<times> fs_error option \<times> world" where
  "stream_loop E what p td out [] w =
     (case refused E w of
        Some e \<Rightarrow> (out, Some (mapFsError e (js ''read '' @ what)), enter E w)
      | None \<Rightarrow>
          let tail = snd (td_flush td) in (if tail = [] then out else out @ [tail], None, enter E w))"
| "stream_loop E what p td out (c # cs) w =
     (case refused E w of
        Some e \<Rightarrow> (out, Some (mapFsError e (js ''read '' @ what)), enter E w)
      | None \<Rightarrow>
          (case checkAborted E (enter E w) of
             (Inl e, w) \<Rightarrow> (out, Some e, w)
           | (Inr _, w) \<Rightarrow>
               (case probe_push p c of
                  (p1, bin) \<Rightarrow>
                    if bin then (out, Some (binary_error what), w)
                    else (case td_run td c of
                        (td1, u) \<Rightarrow> stream_loop E what p1 td1 (if u = [] then out else out @ [u]) cs w))))"

definition streamText :: "env \<Rightarrow> target \<Rightarrow> world \<Rightarrow> (jstr list \<times> fs_error option) outcome" where
  "streamText E t w =
     andThen (statForRead E t w) (\<lambda>_ w.
     andThen (sftp E w) (\<lambda>_ w.
       (case read_stream E (w_store w) (targetKey t) of
          Inl e \<Rightarrow> (Inr ([], Some (mapFsError e (js ''read '' @ displayPath t))), enter E w)
        | Inr chunks \<Rightarrow>
            (case stream_loop E (displayPath t) new_probe td_new [] chunks w of
               (out, e, w) \<Rightarrow> (Inr (out, e), w)))))"

definition readBytes :: "env \<Rightarrow> target \<Rightarrow> nat \<Rightarrow> world \<Rightarrow> bytes outcome" where
  "readBytes E t maxBytes w =
     andThen (statForRead E t w) (\<lambda>info w.
       let big = (case i_size info of Some n \<Rightarrow> n > maxBytes | None \<Rightarrow> False) in
       if big then
         (Inl (FsError FS_TOO_LARGE (js ''file too large: '' @ displayPath t @ js '' ('' @
            digits (the (i_size info)) @ js '' > '' @ digits maxBytes @ js '' bytes)'')), w)
       else readAll E (targetKey t) (Some maxBytes) (displayPath t) w)"

section \<open>Mutations\<close>

datatype FsWriteIntent = CreateIfAbsent | ReplaceIfVersion jstr

record FsWriteOutcome =
  o_created :: bool
  o_version :: jstr
  o_before :: "jstr option"
  o_after :: jstr

record FsEditRequest =
  oldString :: jstr
  newString :: jstr
  replaceAll :: bool

record FsEditOutcome =
  e_version :: jstr
  e_before :: jstr
  e_after :: jstr

definition statOrUndefined :: "env \<Rightarrow> jstr \<Rightarrow> jstr \<Rightarrow> world \<Rightarrow> SftpAttrs option outcome" where
  "statOrUndefined E key what w =
     (case sftp_stat E key w of
        (Inl e, w) \<Rightarrow> if isNoSuch e then (Inr None, w) else (Inl (mapFsError e (js ''stat '' @ what)), w)
      | (Inr a, w) \<Rightarrow> (Inr (Some a), w))"

text \<open>\<open>tryReadBasis\<close>: \<open>null\<close> on binary content or any failure.\<close>

fun basis_loop :: "env \<Rightarrow> BinaryProbe \<Rightarrow> bytes list \<Rightarrow> bytes list \<Rightarrow> world \<Rightarrow> bytes list option \<times> world" where
  "basis_loop E p acc [] w = (if refused E w = None then Some acc else None, enter E w)"
| "basis_loop E p acc (c # cs) w =
     (if refused E w \<noteq> None then (None, enter E w)
      else (case probe_push p c of
          (p1, bin) \<Rightarrow> if bin then (None, enter E w) else basis_loop E p1 (acc @ [c]) cs (enter E w)))"

definition tryReadBasis :: "env \<Rightarrow> jstr \<Rightarrow> world \<Rightarrow> jstr option \<times> world" where
  "tryReadBasis E key w =
     (case read_stream E (w_store w) key of
        Inl e \<Rightarrow> (None, enter E w)
      | Inr chunks \<Rightarrow>
          (case basis_loop E new_probe [] chunks w of
             (cs, w) \<Rightarrow> (map_option (\<lambda>cs. normalizeLf (decode (concatBytes cs))) cs, w)))"

definition upload :: "env \<Rightarrow> jstr \<Rightarrow> jstr \<Rightarrow> world \<Rightarrow> (transport_error + unit) \<times> world" where
  "upload E p content w = sftp_write E p 384 (utf8 content) w"

definition silentUnlink :: "env \<Rightarrow> jstr \<Rightarrow> world \<Rightarrow> world" where
  "silentUnlink E p w = snd (sftp_unlink E p w)"

definition publish_mode :: "FsWriteIntent option \<Rightarrow> jstr" where
  "publish_mode guard =
     (case guard of None \<Rightarrow> js ''force'' | Some CreateIfAbsent \<Rightarrow> js ''create''
      | Some (ReplaceIfVersion _) \<Rightarrow> js ''replace'')"

text \<open>The size, time and mode arguments of the script.\<close>

definition publish_elements :: "FsWriteIntent option \<Rightarrow> SftpAttrs option \<Rightarrow> jstr list" where
  "publish_elements guard before =
     (case (guard, before) of
        (Some (ReplaceIfVersion _), Some a) \<Rightarrow>
          (let v = versionElementsOf a in [digits (v_size v), digits (v_mtime v), v_modeOct v])
      | _ \<Rightarrow> [js ''-'', js ''-'', js ''-''])"

definition publish_command :: "FsWriteIntent option \<Rightarrow> SftpAttrs option \<Rightarrow> jstr \<Rightarrow> jstr \<Rightarrow> jstr" where
  "publish_command guard before staged dest =
     publish_script (publish_mode guard # publish_elements guard before @ [staged, dest])"

definition code_text :: "nat option \<Rightarrow> jstr" where
  "code_text c = (case c of None \<Rightarrow> js ''null'' | Some n \<Rightarrow> digits n)"

definition execPublish ::
  "env \<Rightarrow> FsWriteIntent option \<Rightarrow> SftpAttrs option \<Rightarrow> jstr \<Rightarrow> jstr \<Rightarrow> jstr \<Rightarrow> world \<Rightarrow> unit outcome" where
  "execPublish E guard before staged dest what w =
     andThen (execCapture E (publish_command guard before staged dest) w) (\<lambda>(code, _, err) w.
       if code = Some 0 then (Inr (), w)
       else if code = Some 3 then
         (Inl (FsError FS_NOT_OBSERVED (js ''target already exists: '' @ what)), w)
       else if code = Some 4 then
         (Inl (FsError FS_STALE_VERSION (js ''target changed underneath the write: '' @ what)), w)
       else (Inl (FsError FS_IO_ERROR (js ''remote publish failed for '' @ what @ js '' (exit '' @
          code_text code @ js ''): '' @ trim err)), w))"

text \<open>
  The tail shared by both mutations: stage the text under a temporary name, publish it, remove the
  staging file when either fails, drop the cached resolutions and read back the attributes.
\<close>

definition stage_and_publish ::
  "env \<Rightarrow> target \<Rightarrow> jstr \<Rightarrow> FsWriteIntent option \<Rightarrow> SftpAttrs option \<Rightarrow> jstr \<Rightarrow> world \<Rightarrow> SftpAttrs outcome" where
  "stage_and_publish E t content guard before post w =
     (let key = targetKey t; what = displayPath t; staged = tempPathFor (e_rand E (w_calls w)) key in
      case upload E staged content w of
        (Inl e, w) \<Rightarrow> (Inl (mapFsError e (js ''stage '' @ what)), silentUnlink E staged w)
      | (Inr _, w) \<Rightarrow>
          (case execPublish E guard before staged key what w of
             (Inl e, w) \<Rightarrow> (Inl e, silentUnlink E staged w)
           | (Inr _, w) \<Rightarrow>
               mapping (post @ what) (sftp_stat E key (invalidateResolveCache key w))))"

definition write_precheck :: "env \<Rightarrow> FsWriteIntent option \<Rightarrow> SftpAttrs option \<Rightarrow> jstr \<Rightarrow> fs_error option" where
  "write_precheck E guard before what =
     (case guard of
        None \<Rightarrow> None
      | Some CreateIfAbsent \<Rightarrow>
          if before \<noteq> None then Some (FsError FS_NOT_OBSERVED (js ''target already exists: '' @ what)) else None
      | Some (ReplaceIfVersion v) \<Rightarrow>
          (case before of
             None \<Rightarrow> Some (FsError FS_STALE_VERSION (js ''target absent, cannot replace: '' @ what))
           | Some a \<Rightarrow>
               if versionOfAttrs (e_sha E) a \<noteq> v
               then Some (FsError FS_STALE_VERSION (js ''stale version for: '' @ what)) else None))"

definition performWrite ::
  "env \<Rightarrow> target \<Rightarrow> jstr \<Rightarrow> FsWriteIntent option \<Rightarrow> world \<Rightarrow> FsWriteOutcome outcome" where
  "performWrite E t content guard w =
     andThen (checkAborted E w) (\<lambda>_ w.
     andThen (transport E w) (\<lambda>_ w.
     andThen (sftp E w) (\<lambda>_ w.
     andThen (statOrUndefined E (targetKey t) (displayPath t) w) (\<lambda>before w.
       (case write_precheck E guard before (displayPath t) of
          Some e \<Rightarrow> (Inl e, w)
        | None \<Rightarrow>
            (case (case before of
                Some a \<Rightarrow> if isFile a then tryReadBasis E (targetKey t) w else (None, w)
              | None \<Rightarrow> (None, w)) of
               (basis, w) \<Rightarrow>
                 andThen (checkAborted E w) (\<lambda>_ w.
                 andThen (stage_and_publish E t content guard before (js ''post-write stat '') w) (\<lambda>a w.
                   (Inr \<lparr>o_created = (before = None), o_version = versionOfAttrs (e_sha E) a,
                      o_before = basis, o_after = normalizeLf content\<rparr>, w)))))))))"

text \<open>The text an edit writes: the replacement on the LF basis, in the line-ending style found.\<close>

definition edit_text :: "jstr \<Rightarrow> FsEditRequest \<Rightarrow> jstr \<times> jstr \<times> jstr" where
  "edit_text raw ed =
     (let before = normalizeLf raw;
          after = replaceLiteral before (oldString ed) (newString ed) (replaceAll ed) in
      (before, after, if hasCrlf raw then toCrlf after else after))"

definition edit_matches :: "jstr \<Rightarrow> FsEditRequest \<Rightarrow> jstr \<Rightarrow> fs_error option" where
  "edit_matches before ed what =
     (let n = the (countLiteral before (oldString ed)) in
      if n = 0 then Some (FsError FS_EDIT_NOT_FOUND (js ''edit target text not found in: '' @ what))
      else if n > 1 \<and> \<not> replaceAll ed then
        Some (FsError FS_AMBIGUOUS_EDIT
          (js ''edit target text matches '' @ digits n @ js '' times in: '' @ what))
      else None)"

definition performEdit ::
  "env \<Rightarrow> target \<Rightarrow> FsEditRequest \<Rightarrow> jstr option \<Rightarrow> world \<Rightarrow> FsEditOutcome outcome" where
  "performEdit E t ed guard w =
     andThen (checkAborted E w) (\<lambda>_ w.
       if oldString ed = [] then
         (Inl (FsError FS_EDIT_NOT_FOUND (js ''oldString must be non-empty'')), w)
       else
     andThen (transport E w) (\<lambda>_ w.
     andThen (sftp E w) (\<lambda>_ w.
     andThen (statOrUndefined E (targetKey t) (displayPath t) w) (\<lambda>attrs w.
       (case attrs of
          None \<Rightarrow> (Inl (FsError FS_NOT_FOUND (js ''no such file: '' @ displayPath t)), w)
        | Some a \<Rightarrow>
            if \<not> isFile a then
              (Inl (FsError FS_NOT_REGULAR_FILE (js ''not a regular file: '' @ displayPath t)), w)
            else if guard \<noteq> None \<and> guard \<noteq> Some (versionOfAttrs (e_sha E) a) then
              (Inl (FsError FS_STALE_VERSION (js ''stale version for: '' @ displayPath t)), w)
            else
              andThen (readAll E (targetKey t) None (displayPath t) w) (\<lambda>bs w.
                if snd (probe_push new_probe bs) then (Inl (binary_error (displayPath t)), w)
                else
                  (case edit_text (decode bs) ed of
                     (before, after, wire) \<Rightarrow>
                       (case edit_matches before ed (displayPath t) of
                          Some e \<Rightarrow> (Inl e, w)
                        | None \<Rightarrow>
                            andThen (checkAborted E w) (\<lambda>_ w.
                            andThen (stage_and_publish E t wire
                                (Some (ReplaceIfVersion (versionOfAttrs (e_sha E) a))) (Some a)
                                (js ''post-edit stat '') w) (\<lambda>a' w.
                              (Inr \<lparr>e_version = versionOfAttrs (e_sha E) a', e_before = before,
                                 e_after = after\<rparr>, w)))))))))))"

text \<open>
  \<open>writeText\<close> and \<open>editText\<close>: an explicit guard wins over the one the policy layer injects; the
  mutation runs as a task of the per-key mutex.
\<close>

definition writeText ::
  "env \<Rightarrow> FsWriteIntent option \<Rightarrow> target \<Rightarrow> jstr \<Rightarrow> FsWriteIntent option \<Rightarrow> world \<Rightarrow> FsWriteOutcome outcome" where
  "writeText E injected t content expected w =
     performWrite E t content (case expected of Some g \<Rightarrow> Some g | None \<Rightarrow> injected) w"

definition editText ::
  "env \<Rightarrow> jstr option \<Rightarrow> target \<Rightarrow> FsEditRequest \<Rightarrow> jstr option \<Rightarrow> world \<Rightarrow> FsEditOutcome outcome" where
  "editText E injected t ed expected w =
     performEdit E t ed (case expected of Some v \<Rightarrow> Some v | None \<Rightarrow> injected) w"

end
