(* ===== verification/SshPublish.thy ===== *)
theory SshPublish
  imports SshFs
begin

text \<open>
  Staging and publishing of the filesystem provider. The staging name of a clean path lies in the
  same directory and is another path; the guarded publish never overwrites a change made by
  somebody else (\<open>publish_never_overwrites_changes\<close>); reads leave the store alone; and
  \<open>stage_and_publish_frame\<close> says what the tail shared by \<open>performWrite\<close> and \<open>performEdit\<close> may
  do to a store that nobody else changes (\<open>mutates\<close>).
\<close>

section \<open>Staging names\<close>

lemma rev_join_plain: "47 \<notin> set s \<Longrightarrow> rev (abs_path (ss @ [s])) =
  rev s @ 47 # (if ss = [] then [] else rev (abs_path ss))"
  by (cases "ss = []") (simp_all add: abs_path_def join_append)

lemma dropWhile_plain: "plain_seg s \<Longrightarrow> dropWhile (\<lambda>x. x = 47) (rev s @ r) = rev s @ r"
  by (cases s rule: rev_cases) (auto simp: plain_seg_def)

lemma takeWhile_plain: "plain_seg s \<Longrightarrow> takeWhile (\<lambda>x. x \<noteq> 47) (rev s @ 47 # r) = rev s"
  by (subst takeWhile_append2) (auto simp: plain_seg_def)

lemma basename_abs_path:
  assumes "plain_seg s"
  shows "basename (abs_path (ss @ [s])) = s"
proof -
  have "47 \<notin> set s" using assms by (simp add: plain_seg_def)
  then show ?thesis
    unfolding basename_def rev_join_plain[OF \<open>47 \<notin> set s\<close>] dropWhile_plain[OF assms] takeWhile_plain[OF assms]
    by simp
qed

lemma dirname_abs_path:
  assumes "plain_seg s" "\<forall>x \<in> set ss. plain_seg x"
  shows "dirname (abs_path (ss @ [s])) = abs_path ss"
proof -
  have ne: "join ss [47] \<noteq> []" if "ss \<noteq> []" using join_plain_nonempty[OF that assms(2)] .
  define r where "r = join (ss @ [s]) [47]"
  have r: "rev r = rev s @ (if ss = [] then [] else 47 # rev (join ss [47]))"
    by (simp add: r_def join_append)
  have n: "\<forall>x \<in> set (rev s). x \<noteq> 47" using assms(1) by (auto simp: plain_seg_def)
  have d: "dropWhile (\<lambda>x. x \<noteq> 47) (dropWhile (\<lambda>x. x = 47) (rev r)) =
      (if ss = [] then [] else 47 # rev (join ss [47]))"
  proof (cases "ss = []")
    case True
    then show ?thesis
      unfolding r dropWhile_plain[OF assms(1)] using n by simp
  next
    case False
    then show ?thesis
      unfolding r dropWhile_plain[OF assms(1)] using n by (simp add: dropWhile_append3)
  qed
  have a: "abs_path (ss @ [s]) = 47 # r" by (simp add: abs_path_def r_def)
  have tk: "take (length (join ss [47]) + 1) (47 # r) = abs_path ss" if "ss \<noteq> []"
    using that by (simp add: r_def abs_path_def join_append)
  show ?thesis
  proof (cases "ss = []")
    case True
    then show ?thesis
      unfolding a dirname_def using d by (simp add: Let_def abs_path_def del: dropWhile_eq_Nil_conv)
  next
    case False
    then have "dirname (47 # r) = take (length (join ss [47]) + 1) (47 # r)"
      using d ne unfolding dirname_def by (simp only: list.case Let_def) simp
    then show ?thesis unfolding a using tk[OF False] by simp
  qed
qed

lemma tempPathFor_abs_path:
  assumes "plain_seg s" "\<forall>x \<in> set ss. plain_seg x"
  shows "tempPathFor rand (abs_path (ss @ [s])) = abs_path (ss @ [s @ js ''.dsh-remote-tmp-'' @ rand])"
proof -
  have "abs_path ss = [47] \<longleftrightarrow> ss = []"
    using join_plain_nonempty[OF _ assms(2)] by (auto simp: abs_path_def)
  then show ?thesis
    unfolding tempPathFor_def dirname_abs_path[OF assms] basename_abs_path[OF assms(1)] Let_def
    by (cases "ss = []") (simp_all add: abs_path_def join_append)
qed

lemma tempPathFor_other:
  assumes "plain_seg s" "\<forall>x \<in> set ss. plain_seg x"
  shows "tempPathFor rand (abs_path (ss @ [s])) \<noteq> abs_path (ss @ [s])"
proof
  assume "tempPathFor rand (abs_path (ss @ [s])) = abs_path (ss @ [s])"
  then have "length (abs_path (ss @ [s @ js ''.dsh-remote-tmp-'' @ rand])) = length (abs_path (ss @ [s]))"
    by (simp only: tempPathFor_abs_path[OF assms])
  then show False by (cases "ss = []") (simp_all add: abs_path_def join_append js_def)
qed

section \<open>Publishing\<close>

text \<open>What the guard asks of the store the script sees.\<close>

definition guard_holds :: "FsWriteIntent option \<Rightarrow> SftpAttrs option \<Rightarrow> jstr \<Rightarrow> store \<Rightarrow> bool" where
  "guard_holds guard before key st =
     (case guard of
        None \<Rightarrow> True
      | Some CreateIfAbsent \<Rightarrow> st key = None
      | Some (ReplaceIfVersion _) \<Rightarrow>
          (\<exists>nd. st key = Some nd \<and> stat_words nd = publish_elements guard before))"

lemma publish_elements_three:
  obtains a b c where "publish_elements guard before = [a, b, c]"
proof (cases "\<exists>v a. guard = Some (ReplaceIfVersion v) \<and> before = Some a")
  case True
  then show ?thesis using that by (auto simp: publish_elements_def Let_def)
next
  case False
  then have "publish_elements guard before = [js ''-'', js ''-'', js ''-'']"
    by (auto simp: publish_elements_def split: option.split FsWriteIntent.split)
  then show ?thesis by (rule that)
qed

lemma mode_texts: "js ''force'' \<noteq> js ''create''" "js ''force'' \<noteq> js ''replace''"
  "js ''create'' \<noteq> js ''replace''"
  by simp_all

lemma remote_exec_publish:
  assumes "remote_exec E (publish_command guard before staged key) w = (r, w')"
  defines "s \<equiv> e_interf E (w_calls w) (w_store w)"
  shows "(w_store w' = s \<or> guard_holds guard before key s \<and> mv_force s staged key = (0, w_store w')) \<and>
    (\<forall>out err. r = Inr (Some 0, out, err) \<longrightarrow>
       guard_holds guard before key s \<and> mv_force s staged key = (0, w_store w')) \<and>
    (\<forall>code out err. r = Inr (Some code, out, err) \<longrightarrow> code \<noteq> 0 \<longrightarrow> w_store w' = s)"
proof -
  let ?f = "e_fault E (w_calls w)"
  obtain x y z where el: "publish_elements guard before = [x, y, z]" by (rule publish_elements_three)
  obtain code out st' where sh: "remote_shell E ?f (publish_command guard before staged key) s = (code, out, st')"
    by (metis prod_cases3)
  have "remote_shell E ?f (publish_script [publish_mode guard, x, y, z, staged, key]) s = (code, out, st')"
    using sh el by (simp add: publish_command_def)
  note g = publish_guarded[OF this]
  have gh: "guard_holds guard before key s" if "code = 0"
    using g that el
    by (auto simp: guard_holds_def publish_mode_def split: option.splits FsWriteIntent.splits)
  show ?thesis
    using assms(1) sh g gh unfolding remote_exec_def Let_def enter_def s_def
    by (auto split: option.splits fault.splits if_splits prod.splits)
qed


text \<open>The guard of a replacement in terms of version tokens.\<close>

lemma mod_4096_512: "m mod 4096 = n mod 512 \<Longrightarrow> m mod 512 = n mod (512::nat)"
proof -
  assume a: "m mod 4096 = n mod 512"
  have "m mod 4096 mod 512 = m mod 512" by (rule mod_mod_cancel) simp
  then show ?thesis using a by simp
qed

lemma guard_holds_token:
  assumes "guard_holds (Some (ReplaceIfVersion v)) (Some a) key st"
  shows "\<exists>nd. st key = Some nd \<and> a_mode (node_attrs nd) mod 4096 = a_mode a mod 512 \<and>
    versionOfAttrs sha (node_attrs nd) = versionOfAttrs sha a"
proof -
  obtain nd where nd: "st key = Some nd"
    "stat_words nd = publish_elements (Some (ReplaceIfVersion v)) (Some a)"
    using assms by (auto simp: guard_holds_def)
  let ?b = "node_attrs nd"
  have "a_size ?b = a_size a" "a_mtime ?b = a_mtime a" "a_mode ?b mod 4096 = a_mode a mod 512"
    using nd(2)
    by (auto simp: stat_words_def publish_elements_def versionElementsOf_def Let_def
        dest: digits_inj octal_inj)
  then show ?thesis
    using nd(1) mod_4096_512[of "a_mode ?b" "a_mode a"]
    by (simp add: versionOfAttrs_def versionElementsOf_def)
qed

lemma mapFsError_code:
  "fs_code (mapFsError e what) \<in> {FS_NOT_FOUND, FS_PERMISSION_DENIED, FS_NOT_DIRECTORY, FS_IO_ERROR}"
  by (auto simp: mapFsError_def split: transport_error.split option.split transport_code.split)

lemma mapFsError_not [simp]:
  "fs_code (mapFsError e what) \<noteq> FS_STALE_VERSION" "fs_code (mapFsError e what) \<noteq> FS_NOT_OBSERVED"
  "fs_code (mapFsError e what) \<noteq> FS_TOO_LARGE"
  using mapFsError_code[of e what] by auto

lemma execPublish_result:
  assumes "execPublish E guard before staged key what w = (r, w')"
  defines "s \<equiv> e_interf E (w_calls w) (w_store w)"
  shows "(w_store w' = s \<or> guard_holds guard before key s \<and> mv_force s staged key = (0, w_store w')) \<and>
    (r = Inr () \<longrightarrow> guard_holds guard before key s \<and> mv_force s staged key = (0, w_store w')) \<and>
    (\<forall>e. r = Inl e \<longrightarrow> fs_code e \<in> {FS_STALE_VERSION, FS_NOT_OBSERVED} \<longrightarrow> w_store w' = s)"
proof -
  obtain x w1 where x: "remote_exec E (publish_command guard before staged key) w = (x, w1)"
    by (cases "remote_exec E (publish_command guard before staged key) w")
  note g = remote_exec_publish[OF x, folded s_def]
  have w1: "w' = w1"
    using assms(1) x by (auto simp: execPublish_def execCapture_def mapping_def andThen_def
        split: sum.splits if_splits prod.splits)
  have ok: "\<exists>out err. x = Inr (Some 0, out, err)" if "r = Inr ()"
    using assms(1) x that by (auto simp: execPublish_def execCapture_def mapping_def andThen_def
        split: sum.splits if_splits prod.splits)
  have bad: "\<exists>code out err. x = Inr (Some code, out, err) \<and> code \<noteq> 0"
    if "r = Inl e" "fs_code e \<in> {FS_STALE_VERSION, FS_NOT_OBSERVED}" for e
    using assms(1) x that
    by (auto simp: execPublish_def execCapture_def mapping_def andThen_def
        split: sum.splits if_splits prod.splits)
  show ?thesis
    using g ok bad unfolding w1 by blast
qed



section \<open>Reads do not write\<close>

text \<open>No other process changes the store.\<close>

definition calm :: "env \<Rightarrow> bool" where
  "calm E \<longleftrightarrow> (\<forall>n st. e_interf E n st = st)"

lemma enter_store: "calm E \<Longrightarrow> w_store (enter E w) = w_store w"
  by (simp add: enter_def calm_def)

lemma enter_calls [simp]: "w_calls (enter E w) = Suc (w_calls w)"
  by (simp add: enter_def)

lemma check_world:
  "checkAborted E w = (r, w') \<Longrightarrow> w' = w"
  "transport E w = (r', w') \<Longrightarrow> w' = w"
  by (auto simp: checkAborted_def transport_def)

lemma sftp_store: "calm E \<Longrightarrow> sftp E w = (r, w') \<Longrightarrow> w_store w' = w_store w"
  by (auto simp: sftp_def transport_def andThen_def enter_store split: option.splits if_splits)

lemma sftp_stat_result:
  assumes "calm E" "sftp_stat E p w = (r, w')"
  shows "w_store w' = w_store w" "r = Inr a \<Longrightarrow> \<exists>nd. resolved (w_store w) p = Some nd \<and> a = node_attrs nd"
proof -
  show "w_store w' = w_store w"
    using assms by (auto simp: sftp_stat_def Let_def enter_store split: option.splits)
  assume "r = Inr a"
  then show "\<exists>nd. resolved (w_store w) p = Some nd \<and> a = node_attrs nd"
    using assms by (simp add: sftp_stat_def Let_def enter_store split: option.splits)
qed

lemma statOrUndefined_store: "calm E \<Longrightarrow> statOrUndefined E p what w = (r, w') \<Longrightarrow> w_store w' = w_store w"
  by (auto simp: statOrUndefined_def dest: sftp_stat_result(1) split: prod.splits sum.splits if_splits)

lemma statOrUndefined_some:
  assumes "calm E" "statOrUndefined E p what w = (Inr (Some a), w')"
  shows "\<exists>nd. resolved (w_store w) p = Some nd \<and> a = node_attrs nd"
  using assms sftp_stat_result(2)[OF assms(1)]
  by (auto simp: statOrUndefined_def split: prod.splits sum.splits if_splits)

lemma basis_loop_store: "calm E \<Longrightarrow> basis_loop E p acc cs w = (r, w') \<Longrightarrow> w_store w' = w_store w"
  by (induction E p acc cs w rule: basis_loop.induct)
    (auto simp: enter_store split: if_splits prod.splits)

lemma tryReadBasis_store: "calm E \<Longrightarrow> tryReadBasis E key w = (r, w') \<Longrightarrow> w_store w' = w_store w"
  by (auto simp: tryReadBasis_def enter_store dest: basis_loop_store split: sum.splits prod.splits)

lemma read_loop_result:
  assumes "calm E" "read_loop E cap what acc got cs w = (r, w')"
  shows "w_store w' = w_store w" "r = Inr res \<Longrightarrow> res = acc @ cs"
proof -
  have "w_store w' = w_store w \<and> (\<forall>res. r = Inr res \<longrightarrow> res = acc @ cs)"
    using assms
  proof (induction E cap what acc got cs w rule: read_loop.induct)
    case (1 E cap what acc got w)
    then show ?case by (auto simp: enter_store split: option.splits)
  next
    case (2 E cap what acc got c cs w)
    then show ?case
      by (auto simp: enter_store Let_def checkAborted_def split: option.splits if_splits)
  qed
  then show "w_store w' = w_store w" "r = Inr res \<Longrightarrow> res = acc @ cs" by auto
qed

lemma readAll_result:
  assumes "calm E" "readAll E key cap what w = (r, w')"
  shows "w_store w' = w_store w" "r = Inr bs \<Longrightarrow> \<exists>m. resolved (w_store w) key = Some (File bs m)"
proof -
  show "w_store w' = w_store w"
    using assms sftp_store[OF assms(1)] read_loop_result(1)[OF assms(1)]
    by (auto simp: readAll_def andThen_def enter_store split: sum.splits prod.splits)
  assume r: "r = Inr bs"
  obtain w1 cs ds w2 where w1: "sftp E w = (Inr (), w1)" and cs: "read_stream E (w_store w1) key = Inr cs"
    and l: "read_loop E cap what [] 0 cs w1 = (Inr ds, w2)" and ds: "bs = concat ds"
    using assms(2) r by (auto simp: readAll_def andThen_def split: sum.splits prod.splits)
  have "bs = concat cs" using read_loop_result(2)[OF assms(1) l, of ds] ds by simp
  then show "\<exists>m. resolved (w_store w) key = Some (File bs m)"
    using sftp_store[OF assms(1) w1] cs
    by (auto simp: read_stream_def split: option.splits node.splits)
qed

section \<open>Staging and publishing\<close>

lemma follow_new_file:
  assumes "st p = None"
  shows "follow n (st(p \<mapsto> File d m)) q = Some x \<Longrightarrow> x = p \<or> follow n st q = Some x"
  using assms by (induction n arbitrary: q) (auto split: option.splits node.splits if_splits)

lemma is_dir_new_file: "st p = None \<Longrightarrow> is_dir (st(p \<mapsto> File d m)) q \<Longrightarrow> is_dir st q"
  using follow_new_file[of st p MAX_LINKS d m q]
  by (auto simp: is_dir_def resolved_def split: option.splits node.splits if_splits)

definition new_file :: "bytes \<Rightarrow> node \<Rightarrow> bool" where
  "new_file d nd \<longleftrightarrow> (\<exists>m. n_mode m = 33152 \<and> nd = File d m)"

lemma new_file_resolved: "st p = Some nd \<Longrightarrow> new_file d nd \<Longrightarrow> resolved st p = Some nd"
  by (rule resolved_plain) (auto simp: new_file_def is_link_def)

lemma upload_result:
  assumes "calm E" "upload E staged c w = (r, w')" "w_store w staged = None"
  shows "\<forall>p. p \<noteq> staged \<longrightarrow> w_store w' p = w_store w p"
    "r = Inr () \<Longrightarrow> \<exists>m. n_mode m = 33152 \<and> w_store w' = (w_store w)(staged \<mapsto> File (utf8 c) m)"
proof -
  show "\<forall>p. p \<noteq> staged \<longrightarrow> w_store w' p = w_store w p"
    using assms
    by (auto simp: upload_def sftp_write_def put_file_def Let_def enter_store
        split: option.splits fault.splits if_splits)
  assume "r = Inr ()"
  then have "w_store w' = put_file E (w_calls w) staged 384 (utf8 c) (w_store w)"
    using assms
    by (auto simp: upload_def sftp_write_def Let_def enter_store
        split: option.splits fault.splits if_splits)
  then show "\<exists>m. n_mode m = 33152 \<and> w_store w' = (w_store w)(staged \<mapsto> File (utf8 c) m)"
    using assms(3) unfolding put_file_def
    by (intro exI[of _ "\<lparr>n_mode = 33152, n_mtime = e_now E (w_calls w) div 1000\<rparr>"]) simp
qed

lemma silentUnlink_other: "calm E \<Longrightarrow> p \<noteq> staged \<Longrightarrow> w_store (silentUnlink E staged w) p = w_store w p"
  by (auto simp: silentUnlink_def sftp_unlink_def Let_def enter_store split: option.splits node.splits)

lemma mv_force_result:
  assumes "mv_force st src dst = (0, st')" "\<not> is_dir st dst"
  shows "st' = (st(src := None))(dst := st src)" "src \<noteq> dst"
  using assms by (auto simp: mv_force_def Let_def split: option.splits if_splits)

lemma guard_holds_cong: "st key = st' key \<Longrightarrow> guard_holds guard before key st = guard_holds guard before key st'"
  by (simp add: guard_holds_def split: option.split FsWriteIntent.split)

text \<open>
  What a mutation may do to the store: it touches the target and the staging name only, and the
  target keeps its node or becomes a new file with the bytes given, the latter under the guard.
\<close>

definition mutates :: "FsWriteIntent option \<Rightarrow> SftpAttrs option \<Rightarrow> jstr \<Rightarrow> jstr \<Rightarrow> bytes \<Rightarrow> store \<Rightarrow> store \<Rightarrow> bool" where
  "mutates guard before key staged d st st' \<longleftrightarrow>
     (\<forall>p. p \<noteq> key \<longrightarrow> p \<noteq> staged \<longrightarrow> st' p = st p) \<and>
     (st' key = st key \<or> guard_holds guard before key st \<and> (\<exists>nd. st' key = Some nd \<and> new_file d nd))"

lemma stage_and_publish_frame:
  assumes calm: "calm E" and run: "stage_and_publish E t c guard before post w = (r, w')"
  defines "key \<equiv> targetKey t" and "staged \<equiv> tempPathFor (e_rand E (w_calls w)) (targetKey t)"
  assumes ne: "staged \<noteq> key" and nd: "\<not> is_dir (w_store w) key" and fresh: "w_store w staged = None"
  shows "mutates guard before key staged (utf8 c) (w_store w) (w_store w')"
    "r = Inr a \<Longrightarrow> guard_holds guard before key (w_store w) \<and> w_store w' staged = None \<and>
       (\<exists>nd. w_store w' key = Some nd \<and> new_file (utf8 c) nd \<and> a = node_attrs nd)"
    "r = Inl e \<Longrightarrow> fs_code e \<in> {FS_STALE_VERSION, FS_NOT_OBSERVED} \<Longrightarrow> w_store w' key = w_store w key"
proof -
  obtain u w1 where u: "upload E staged c w = (u, w1)" by (cases "upload E staged c w")
  note up = upload_result[OF calm u fresh]
  have "mutates guard before key staged (utf8 c) (w_store w) (w_store w') \<and>
    (\<forall>a. r = Inr a \<longrightarrow> guard_holds guard before key (w_store w) \<and> w_store w' staged = None \<and>
       (\<exists>nd. w_store w' key = Some nd \<and> new_file (utf8 c) nd \<and> a = node_attrs nd)) \<and>
    (\<forall>e. r = Inl e \<longrightarrow> fs_code e \<in> {FS_STALE_VERSION, FS_NOT_OBSERVED} \<longrightarrow> w_store w' key = w_store w key)"
  proof (cases u)
    case (Inl e)
    then have "r = Inl (mapFsError e (js ''stage '' @ displayPath t))" "w' = silentUnlink E staged w1"
      using run u by (auto simp: stage_and_publish_def key_def staged_def Let_def)
    then show ?thesis
      using up(1) silentUnlink_other[OF calm] ne by (auto simp: mutates_def)
  next
    case (Inr x)
    obtain nd0 where nd0: "new_file (utf8 c) nd0" "w_store w1 = (w_store w)(staged \<mapsto> nd0)"
      using up(2) Inr by (auto simp: new_file_def)
    obtain p w2 where p: "execPublish E guard before staged key (displayPath t) w1 = (p, w2)"
      by (cases "execPublish E guard before staged key (displayPath t) w1")
    have s: "e_interf E (w_calls w1) (w_store w1) = w_store w1" using calm by (simp add: calm_def)
    note pub = execPublish_result[OF p, unfolded s]
    have ndir: "\<not> is_dir (w_store w1) key"
      using is_dir_new_file[of "w_store w" staged] fresh nd nd0 by (auto simp: new_file_def)
    have g: "guard_holds guard before key (w_store w1) = guard_holds guard before key (w_store w)"
      using nd0 ne by (intro guard_holds_cong) simp
    have mv: "w_store w2 = (w_store w)(key \<mapsto> nd0)"
      if "mv_force (w_store w1) staged key = (0, w_store w2)"
      using mv_force_result[OF that ndir] nd0 ne fresh by (auto simp: fun_eq_iff)
    have m2: "mutates guard before key staged (utf8 c) (w_store w) (w_store w2)"
      using pub mv g nd0 ne fresh unfolding mutates_def by auto
    show ?thesis
    proof (cases p)
      case (Inl e)
      then have "r = Inl e" "w' = silentUnlink E staged w2"
        using run u p \<open>u = Inr x\<close> by (auto simp: stage_and_publish_def key_def staged_def Let_def)
      then show ?thesis
        using m2 pub Inl silentUnlink_other[OF calm] ne nd0 by (auto simp: mutates_def)
    next
      case (Inr y)
      then have mv': "w_store w2 = (w_store w)(key \<mapsto> nd0)" "guard_holds guard before key (w_store w)"
        using pub mv g by auto
      obtain a w3 where a: "sftp_stat E key (invalidateResolveCache key w2) = (a, w3)"
        by (cases "sftp_stat E key (invalidateResolveCache key w2)")
      have r: "(r, w') = mapping (post @ displayPath t) (a, w3)"
        using run u p a \<open>u = Inr x\<close> Inr by (simp add: stage_and_publish_def key_def staged_def Let_def)
      have w3: "w_store w3 = w_store w2"
        using sftp_stat_result(1)[OF calm a] by (simp add: invalidateResolveCache_def)
      have res: "resolved (w_store w2) key = Some nd0"
        using mv' nd0 by (intro new_file_resolved) auto
      have av: "a = Inr b \<Longrightarrow> b = node_attrs nd0" for b
        using sftp_stat_result(2)[OF calm a] res by (auto simp: invalidateResolveCache_def)
      show ?thesis
        using r w3 mv' m2 av ne fresh nd0 by (cases a) auto
    qed
  qed
  then show "mutates guard before key staged (utf8 c) (w_store w) (w_store w')"
    "r = Inr a \<Longrightarrow> guard_holds guard before key (w_store w) \<and> w_store w' staged = None \<and>
       (\<exists>nd. w_store w' key = Some nd \<and> new_file (utf8 c) nd \<and> a = node_attrs nd)"
    "r = Inl e \<Longrightarrow> fs_code e \<in> {FS_STALE_VERSION, FS_NOT_OBSERVED} \<Longrightarrow> w_store w' key = w_store w key"
    by blast+
qed

end
