(* ===== verification/SshMutation.thy ===== *)
theory SshMutation
  imports SshPublish
begin

text \<open>
  What \<open>writeText\<close> and \<open>editText\<close> promise of a file: all or nothing, only under the guard, nothing
  else touched, and success when nothing goes wrong.
\<close>

section \<open>Writes\<close>

text \<open>Every early return leaves the store alone; the rest is staging and publishing.\<close>

lemma performWrite_cases:
  assumes calm: "calm E" and run: "performWrite E t c guard w = (r, w')"
  obtains (early) e where "r = Inl e" "w_store w' = w_store w"
  | (staged) before basis w1 where "w_store w1 = w_store w"
      "write_precheck E guard before (displayPath t) = None"
      "\<And>a. before = Some a \<Longrightarrow> \<exists>nd. resolved (w_store w) (targetKey t) = Some nd \<and> a = node_attrs nd"
      "andThen (stage_and_publish E t c guard before (js ''post-write stat '') w1) (\<lambda>a w.
         (Inr \<lparr>o_created = (before = None), o_version = versionOfAttrs (e_sha E) a,
            o_before = basis, o_after = normalizeLf c\<rparr>, w)) = (r, w')"
proof -
  define fin where "fin = (\<lambda>before basis w. andThen (checkAborted E w) (\<lambda>_ w.
      andThen (stage_and_publish E t c guard before (js ''post-write stat '') w) (\<lambda>a w.
        (Inr \<lparr>o_created = (before = None), o_version = versionOfAttrs (e_sha E) a,
           o_before = basis, o_after = normalizeLf c\<rparr>, w))))"
  define rest where "rest = (\<lambda>before w. case write_precheck E guard before (displayPath t) of
      Some e \<Rightarrow> (Inl e, w)
    | None \<Rightarrow> (case (case before of
          Some a \<Rightarrow> if isFile a then tryReadBasis E (targetKey t) w else (None, w)
        | None \<Rightarrow> (None, w)) of (basis, w) \<Rightarrow> fin before basis w))"
  have pw: "performWrite E t c guard w =
      andThen (checkAborted E w) (\<lambda>_ w. andThen (transport E w) (\<lambda>_ w. andThen (sftp E w) (\<lambda>_ w.
        andThen (statOrUndefined E (targetKey t) (displayPath t) w) rest)))"
    by (simp only: performWrite_def rest_def fin_def)
  show thesis
  proof (cases "\<exists>w1 before w2. sftp E w = (Inr (), w1) \<and>
      statOrUndefined E (targetKey t) (displayPath t) w1 = (Inr before, w2) \<and> rest before w2 = (r, w')")
    case False
    have "\<exists>e. r = Inl e \<and> w_store w' = w_store w"
      using run False sftp_store[OF calm] statOrUndefined_store[OF calm] unfolding pw
      by (auto elim!: andThen_cases dest!: check_world)
    then show ?thesis using early by blast
  next
    case True
    then obtain w1 before w2 where w1: "sftp E w = (Inr (), w1)"
      and w2: "statOrUndefined E (targetKey t) (displayPath t) w1 = (Inr before, w2)"
      and re: "rest before w2 = (r, w')" by blast
    have s1: "w_store w1 = w_store w" by (rule sftp_store[OF calm w1])
    have s2: "w_store w2 = w_store w" using statOrUndefined_store[OF calm w2] s1 by simp
    have at: "\<exists>nd. resolved (w_store w) (targetKey t) = Some nd \<and> a = node_attrs nd" if "before = Some a" for a
      using statOrUndefined_some[OF calm, of "targetKey t" "displayPath t" w1 a w2] w2 s1 that by simp
    show ?thesis
    proof (cases "write_precheck E guard before (displayPath t)")
      case (Some e)
      then show ?thesis using re s2 early[of e] by (auto simp: rest_def)
    next
      case None
      obtain basis w3 where b: "(case before of
          Some a \<Rightarrow> if isFile a then tryReadBasis E (targetKey t) w2 else (None, w2)
        | None \<Rightarrow> (None, w2)) = (basis, w3)" by (meson surj_pair)
      then have s3: "w_store w3 = w_store w"
        using s2 tryReadBasis_store[OF calm] by (auto split: option.splits if_splits)
      have "fin before basis w3 = (r, w')" using re None b by (simp add: rest_def)
      then show ?thesis
        unfolding fin_def
      proof (cases rule: andThen_cases)
        case (err e)
        then show ?thesis using early s3 check_world(1) by metis
      next
        case (ok x w4)
        then have "w_store w4 = w_store w" using check_world(1) s3 by metis
        then show ?thesis using staged[OF _ None at ok(2)] by blast
      qed
    qed
  qed
qed

text \<open>What a successful precheck and the guard say of the version on the host.\<close>

definition guard_allows :: "env \<Rightarrow> FsWriteIntent option \<Rightarrow> jstr \<Rightarrow> store \<Rightarrow> bool" where
  "guard_allows E guard key st =
     (case guard of
        None \<Rightarrow> True
      | Some CreateIfAbsent \<Rightarrow> st key = None
      | Some (ReplaceIfVersion v) \<Rightarrow>
          (\<exists>nd. st key = Some nd \<and> versionOfAttrs (e_sha E) (node_attrs nd) = v))"

lemma precheck_guard_allows:
  assumes "write_precheck E guard before what = None" "guard_holds guard before key st"
  shows "guard_allows E guard key st"
proof (cases guard)
  case (Some g)
  show ?thesis
  proof (cases g)
    case CreateIfAbsent
    then show ?thesis using Some assms(2) by (simp add: guard_holds_def guard_allows_def)
  next
    case (ReplaceIfVersion v)
    then obtain a where "before = Some a" "versionOfAttrs (e_sha E) a = v"
      using assms(1) Some by (auto simp: write_precheck_def split: option.splits if_splits)
    then show ?thesis
      using guard_holds_token[of v a key st "e_sha E"] assms(2) Some ReplaceIfVersion
      by (auto simp: guard_allows_def)
  qed
qed (simp add: guard_allows_def)

text \<open>A clean target: its key is a path of plain segments, not a directory and (being resolved) not a link, with
  free staging names.\<close>

definition clean_target :: "env \<Rightarrow> target \<Rightarrow> store \<Rightarrow> bool" where
  "clean_target E t st \<longleftrightarrow>
     (\<exists>ss s. targetKey t = abs_path (ss @ [s]) \<and> plain_seg s \<and> (\<forall>x \<in> set ss. plain_seg x)) \<and>
     \<not> is_dir st (targetKey t) \<and> \<not> is_link st (targetKey t) \<and> (\<forall>n. 47 \<notin> set (e_rand E n)) \<and>
     (\<forall>n. st (tempPathFor (e_rand E n) (targetKey t)) = None)"

lemma clean_targetD:
  assumes "clean_target E t st"
  shows "tempPathFor rand (targetKey t) \<noteq> targetKey t" "\<not> is_dir st (targetKey t)"
    "st (tempPathFor (e_rand E n) (targetKey t)) = None" "\<not> is_link st (targetKey t)"
  using assms tempPathFor_other by (auto simp: clean_target_def)



section \<open>When nothing goes wrong\<close>

definition faultless :: "env \<Rightarrow> bool" where
  "faultless E \<longleftrightarrow> (\<forall>n. e_fault E n = None \<and> \<not> e_aborted E n \<and> e_live E n)"

lemma faultless_calls:
  assumes "faultless E"
  shows "e_fault E n = None" "refused E w = None" "checkAborted E w = (Inr (), w)"
    "transport E w = (Inr (), w)" "sftp E w = (Inr (), enter E w)"
  using assms by (simp_all add: faultless_def refused_def checkAborted_def transport_def sftp_def)

lemma faultless_stat:
  assumes "calm E" "faultless E"
  shows "sftp_stat E p w = (case resolved (w_store w) p of
      None \<Rightarrow> Inl (no_such p) | Some nd \<Rightarrow> Inr (node_attrs nd), enter E w)"
    "statOrUndefined E p what w = (Inr (map_option node_attrs (resolved (w_store w) p)), enter E w)"
proof -
  show s: "sftp_stat E p w = (case resolved (w_store w) p of
      None \<Rightarrow> Inl (no_such p) | Some nd \<Rightarrow> Inr (node_attrs nd), enter E w)"
    using assms by (simp add: sftp_stat_def Let_def faultless_calls enter_store split: option.split)
  show "statOrUndefined E p what w = (Inr (map_option node_attrs (resolved (w_store w) p)), enter E w)"
    unfolding statOrUndefined_def s
    by (simp add: isNoSuch_def transportCode_def no_such_def split: option.split)
qed

lemma clean_target_staged_dir:
  assumes "clean_target E t st"
  shows "dirname (tempPathFor (e_rand E n) (targetKey t)) = dirname (targetKey t)"
proof -
  obtain ss s where k: "targetKey t = abs_path (ss @ [s])" "plain_seg s" "\<forall>x \<in> set ss. plain_seg x"
    and r: "47 \<notin> set (e_rand E n)" using assms by (auto simp: clean_target_def)
  define x where "x = s @ js ''.dsh-remote-tmp-'' @ e_rand E n"
  have "16 \<le> length x" by (simp add: x_def js_def)
  then have "x \<noteq> [] \<and> x \<noteq> DOT \<and> x \<noteq> DOTDOT" by auto
  moreover have "47 \<notin> set x" using k(2) r by (simp add: x_def js_def plain_seg_def)
  ultimately have p: "plain_seg x" by (simp add: plain_seg_def)
  have "tempPathFor (e_rand E n) (targetKey t) = abs_path (ss @ [x])"
    using tempPathFor_abs_path[OF k(2,3)] by (simp only: k(1) x_def)
  then show ?thesis
    using dirname_abs_path[OF p k(3)] dirname_abs_path[OF k(2,3)] by (simp only: k(1))
qed

text \<open>The guard a write needs to get through: for a replacement also that the file has no special bits.\<close>

definition guard_ready :: "env \<Rightarrow> FsWriteIntent option \<Rightarrow> jstr \<Rightarrow> store \<Rightarrow> bool" where
  "guard_ready E guard key st \<longleftrightarrow>
     (case guard of
        None \<Rightarrow> True
      | Some CreateIfAbsent \<Rightarrow> st key = None
      | Some (ReplaceIfVersion v) \<Rightarrow>
          (\<exists>nd. st key = Some nd \<and> versionOfAttrs (e_sha E) (node_attrs nd) = v \<and>
             a_mode (node_attrs nd) mod 4096 < 512))"

lemma small_mode: "m mod 4096 < 512 \<Longrightarrow> m mod 4096 = m mod (512::nat)"
proof -
  assume a: "m mod 4096 < 512"
  have "m mod 4096 mod 512 = m mod 512" by (rule mod_mod_cancel) simp
  then show ?thesis using a by simp
qed

lemma ready_guard_holds:
  assumes "guard_ready E guard key st" "\<not> is_link st key" "before = map_option node_attrs (st key)"
  shows "guard_holds guard before key st" "write_precheck E guard before what = None"
proof -
  show "guard_holds guard before key st"
    using assms small_mode
    by (auto simp: guard_ready_def guard_holds_def publish_elements_def versionElementsOf_def
        stat_words_def Let_def split: option.splits FsWriteIntent.splits)
  show "write_precheck E guard before what = None"
    using assms
    by (auto simp: guard_ready_def write_precheck_def split: option.splits FsWriteIntent.splits)
qed

lemma faultless_publish:
  assumes E: "calm E" "faultless E" and g: "guard_holds guard before key (w_store w)"
    and staged: "w_store w staged = Some nd" "staged \<noteq> key"
    and key: "\<not> is_dir (w_store w) key" "\<not> is_link (w_store w) key"
  shows "\<exists>w'. execPublish E guard before staged key what w = (Inr (), w') \<and>
    w_store w' = ((w_store w)(staged := None))(key \<mapsto> nd)"
proof -
  let ?s = "w_store w"
  obtain x y z where el: "publish_elements guard before = [x, y, z]" by (rule publish_elements_three)
  have mv: "mv_force ?s staged key = (0, (?s(staged := None))(key \<mapsto> nd))"
    using staged key by (simp add: mv_force_def)
  have "resolved ?s key = None" if "?s key = None" using that by (rule resolved_absent)
  moreover have "resolved ?s key = Some n" if "?s key = Some n" for n using that key(2) by (rule resolved_plain)
  ultimately have "sh_publish True True ?s [publish_mode guard, x, y, z, staged, key] =
      (0, (?s(staged := None))(key \<mapsto> nd))"
    using g mv el key(2)
    by (auto simp: sh_publish_def publish_mode_def guard_holds_def Let_def
        split: option.splits FsWriteIntent.splits)
  then have "remote_shell E None (publish_command guard before staged key) ?s =
      (0, [], (?s(staged := None))(key \<mapsto> nd))"
    using el by (simp add: publish_command_def remote_shell_publish)
  then show ?thesis
    using E by (simp add: execPublish_def execCapture_def remote_exec_def Let_def faultless_calls enter_store)
qed

lemma faultless_stage:
  assumes E: "calm E" "faultless E" and t: "clean_target E t (w_store w)"
    and par: "is_dir (w_store w) (dirname (targetKey t))"
    and g: "guard_holds guard before (targetKey t) (w_store w)" and l: "\<not> is_link (w_store w) (targetKey t)"
  shows "\<exists>a w'. stage_and_publish E t c guard before post w = (Inr a, w')"
proof -
  let ?key = "targetKey t" and ?tmp = "tempPathFor (e_rand E (w_calls w)) (targetKey t)"
  note cl = clean_targetD[OF t]
  have nd: "\<not> is_dir (w_store w) ?tmp"
    using resolved_absent[of "w_store w" ?tmp, OF cl(3)] by (simp add: is_dir_def)
  define m where "m = \<lparr>n_mode = 33152, n_mtime = e_now E (w_calls w) div 1000\<rparr>"
  have up: "upload E ?tmp c w = (Inr (), (enter E w)\<lparr>w_store := (w_store w)(?tmp \<mapsto> File (utf8 c) m)\<rparr>)"
    using E nd par clean_target_staged_dir[OF t]
    by (simp add: upload_def sftp_write_def put_file_def Let_def faultless_calls enter_store cl(3) m_def)
  let ?w1 = "(enter E w)\<lparr>w_store := (w_store w)(?tmp \<mapsto> File (utf8 c) m)\<rparr>"
  have s1: "w_store ?w1 ?key = w_store w ?key" using cl(1)[symmetric] by simp
  have "guard_holds guard before ?key (w_store ?w1)"
    using g guard_holds_cong[of "w_store ?w1" ?key "w_store w", OF s1] by simp
  moreover have "\<not> is_dir (w_store ?w1) ?key"
    using cl(2) is_dir_new_file[of "w_store w" ?tmp, OF cl(3)] by auto
  moreover have "\<not> is_link (w_store ?w1) ?key" using l s1 by (simp add: is_link_def)
  moreover have "w_store ?w1 ?tmp = Some (File (utf8 c) m)" by simp
  ultimately obtain w2 where w2: "execPublish E guard before ?tmp ?key (displayPath t) ?w1 = (Inr (), w2)"
    "w_store w2 ?key = Some (File (utf8 c) m)"
    using faultless_publish[OF E, of guard before ?key ?w1 ?tmp "File (utf8 c) m" "displayPath t"] cl(1)
    by auto
  have "resolved (w_store w2) ?key = Some (File (utf8 c) m)"
    using w2(2) by (rule resolved_plain) (simp add: is_link_def w2(2))
  then show ?thesis
    using up w2 by (simp add: stage_and_publish_def Let_def faultless_stat[OF E] invalidateResolveCache_def)
qed


lemma clean_target_cong:
  "clean_target E t st \<Longrightarrow> st' = st \<Longrightarrow> clean_target E t st'"
  by simp

text \<open>
  A write whose guard is met succeeds: when the host is not changed by others and refuses no
  call, the parent directory exists and the target is absent or a regular file, \<open>writeText\<close>
  returns, reports a creation exactly for an absent target, gives the content back with
  normalised line endings, and leaves the bytes of the content at the target.
\<close>

theorem write_succeeds:
  assumes "calm E" "faultless E" "clean_target E t (w_store w)"
    and "is_dir (w_store w) (dirname (targetKey t))"
    and "w_store w (targetKey t) \<in> insert None (Some ` range (case_prod File))"
    and "guard_ready E guard (targetKey t) (w_store w)"
  shows "\<exists>out w'. performWrite E t c guard w = (Inr out, w') \<and>
    o_created out = (w_store w (targetKey t) = None) \<and> o_after out = normalizeLf c \<and>
    (\<exists>nd. w_store w' (targetKey t) = Some nd \<and> new_file (utf8 c) nd)"
proof -
  let ?key = "targetKey t"
  have l: "\<not> is_link (w_store w) ?key" using assms(5) by (auto simp: is_link_def)
  define before where "before = map_option node_attrs (w_store w ?key)"
  have res: "resolved (w_store w) ?key = w_store w ?key"
    using resolved_absent[of "w_store w" ?key] resolved_plain[OF _ l] by (cases "w_store w ?key") auto
  have gh: "guard_holds guard before ?key (w_store w)" "write_precheck E guard before (displayPath t) = None"
    using ready_guard_holds[OF assms(6) l] by (simp_all add: before_def)
  define w1 where "w1 = enter E (enter E w)"
  have w1: "w_store w1 = w_store w" by (simp add: w1_def enter_store[OF assms(1)])
  obtain basis w2 where b: "(case before of
      Some a \<Rightarrow> if isFile a then tryReadBasis E ?key w1 else (None, w1) | None \<Rightarrow> (None, w1)) = (basis, w2)"
    by (meson surj_pair)
  then have w2: "w_store w2 = w_store w"
    using w1 tryReadBasis_store[OF assms(1)] by (auto split: option.splits if_splits)
  obtain a w3 where st: "stage_and_publish E t c guard before (js ''post-write stat '') w2 = (Inr a, w3)"
    using faultless_stage[OF assms(1,2), of t w2 guard before c "js ''post-write stat ''"] assms(3,4) gh l
    unfolding w2 by blast
  define out where "out = \<lparr>o_created = (before = None), o_version = versionOfAttrs (e_sha E) a,
    o_before = basis, o_after = normalizeLf c\<rparr>"
  have run: "performWrite E t c guard w = (Inr out, w3)"
    using gh(2) b[unfolded w1_def] st
    by (simp add: performWrite_def faultless_calls[OF assms(2)] faultless_stat[OF assms(1,2)]
        enter_store[OF assms(1)] res out_def flip: before_def)
  have "clean_target E t (w_store w2)" using assms(3) w2 by simp
  note cl = clean_targetD[OF this]
  have "\<exists>nd. w_store w3 ?key = Some nd \<and> new_file (utf8 c) nd"
    using stage_and_publish_frame(2)[OF assms(1) st cl(1) cl(2) cl(3)] by blast
  then show ?thesis using run by (auto simp: out_def before_def)
qed


section \<open>Edits\<close>

lemma performEdit_cases:
  assumes calm: "calm E" and run: "performEdit E t ed guard w = (r, w')"
  obtains (early) e where "r = Inl e" "w_store w' = w_store w"
  | (staged) a bs m before after wire w1 where "w_store w1 = w_store w"
      "resolved (w_store w) (targetKey t) = Some (File bs m)" "a = node_attrs (File bs m)"
      "guard = None \<or> guard = Some (versionOfAttrs (e_sha E) a)"
      "\<not> snd (probe_push new_probe bs)"
      "edit_text (decode bs) ed = (before, after, wire)" "edit_matches before ed (displayPath t) = None"
      "oldString ed \<noteq> []"
      "andThen (stage_and_publish E t wire (Some (ReplaceIfVersion (versionOfAttrs (e_sha E) a))) (Some a)
         (js ''post-edit stat '') w1) (\<lambda>a' w.
         (Inr \<lparr>e_version = versionOfAttrs (e_sha E) a', e_before = before, e_after = after\<rparr>, w)) = (r, w')"
proof -
  define fin where "fin = (\<lambda>a before after wire w. andThen (checkAborted E w) (\<lambda>_ w.
      andThen (stage_and_publish E t wire
          (Some (ReplaceIfVersion (versionOfAttrs (e_sha E) a))) (Some a)
          (js ''post-edit stat '') w) (\<lambda>a' w.
        (Inr \<lparr>e_version = versionOfAttrs (e_sha E) a', e_before = before, e_after = after\<rparr>, w))))"
  define body where "body = (\<lambda>a bs w.
      if snd (probe_push new_probe bs) then (Inl (binary_error (displayPath t)), w)
      else (case edit_text (decode bs) ed of (before, after, wire) \<Rightarrow>
        (case edit_matches before ed (displayPath t) of
           Some e \<Rightarrow> (Inl e, w) | None \<Rightarrow> fin a before after wire w)))"
  define rest where "rest = (\<lambda>attrs w. case attrs of
      None \<Rightarrow> (Inl (FsError FS_NOT_FOUND (js ''no such file: '' @ displayPath t)), w)
    | Some a \<Rightarrow>
        if \<not> isFile a then
          (Inl (FsError FS_NOT_REGULAR_FILE (js ''not a regular file: '' @ displayPath t)), w)
        else if guard \<noteq> None \<and> guard \<noteq> Some (versionOfAttrs (e_sha E) a) then
          (Inl (FsError FS_STALE_VERSION (js ''stale version for: '' @ displayPath t)), w)
        else andThen (readAll E (targetKey t) None (displayPath t) w) (body a))"
  have pw: "performEdit E t ed guard w =
      andThen (checkAborted E w) (\<lambda>_ w. if oldString ed = [] then
          (Inl (FsError FS_EDIT_NOT_FOUND (js ''oldString must be non-empty'')), w)
        else andThen (transport E w) (\<lambda>_ w. andThen (sftp E w) (\<lambda>_ w.
        andThen (statOrUndefined E (targetKey t) (displayPath t) w) rest)))"
    by (simp only: performEdit_def rest_def fin_def body_def)
  show thesis
  proof (cases "oldString ed \<noteq> [] \<and> (\<exists>w1 before w2. sftp E w = (Inr (), w1) \<and>
      statOrUndefined E (targetKey t) (displayPath t) w1 = (Inr before, w2) \<and> rest before w2 = (r, w'))")
    case False
    have "\<exists>e. r = Inl e \<and> w_store w' = w_store w"
      using run False sftp_store[OF calm] statOrUndefined_store[OF calm] unfolding pw
      by (auto elim!: andThen_cases dest!: check_world split: if_splits)
    then show ?thesis using early by blast
  next
    case True
    then obtain w1 attrs w2 where w1: "sftp E w = (Inr (), w1)" and ne: "oldString ed \<noteq> []"
      and w2: "statOrUndefined E (targetKey t) (displayPath t) w1 = (Inr attrs, w2)"
      and re: "rest attrs w2 = (r, w')" by blast
    have s1: "w_store w1 = w_store w" by (rule sftp_store[OF calm w1])
    have s2: "w_store w2 = w_store w" using statOrUndefined_store[OF calm w2] s1 by simp
    show ?thesis
    proof (cases "\<exists>a. attrs = Some a \<and> isFile a \<and> (guard = None \<or> guard = Some (versionOfAttrs (e_sha E) a)) \<and>
        (\<exists>bs w3. readAll E (targetKey t) None (displayPath t) w2 = (Inr bs, w3) \<and> body a bs w3 = (r, w'))")
      case False
      have "\<exists>e. r = Inl e \<and> w_store w' = w_store w"
        using re False s2 readAll_result(1)[OF calm] unfolding rest_def
        by (auto elim!: andThen_cases split: option.splits if_splits)
      then show ?thesis using early by blast
    next
      case True
      then obtain a bs w3 where a: "attrs = Some a" "guard = None \<or> guard = Some (versionOfAttrs (e_sha E) a)"
        and rd: "readAll E (targetKey t) None (displayPath t) w2 = (Inr bs, w3)"
        and bd: "body a bs w3 = (r, w')" by blast
      have s3: "w_store w3 = w_store w" using readAll_result(1)[OF calm rd] s2 by simp
      obtain m where m: "resolved (w_store w) (targetKey t) = Some (File bs m)"
        using readAll_result(2)[OF calm rd] s2 by auto
      have am: "a = node_attrs (File bs m)"
        using statOrUndefined_some[OF calm, of "targetKey t" "displayPath t" w1 a w2] w2 a(1) s1 m by simp
      obtain before after wire where et: "edit_text (decode bs) ed = (before, after, wire)"
        by (metis prod_cases3)
      show ?thesis
      proof (cases "\<not> snd (probe_push new_probe bs) \<and> edit_matches before ed (displayPath t) = None \<and>
          fin a before after wire w3 = (r, w')")
        case False
        have "\<exists>e. r = Inl e \<and> w_store w' = w_store w"
          using bd False s3 et unfolding body_def by (auto split: if_splits option.splits)
        then show ?thesis using early by blast
      next
        case True
        then have pr: "\<not> snd (probe_push new_probe bs)" and em: "edit_matches before ed (displayPath t) = None"
          and fn: "fin a before after wire w3 = (r, w')" by blast+
        from fn show ?thesis
          unfolding fin_def
        proof (cases rule: andThen_cases)
          case (err e)
          then show ?thesis using early s3 check_world(1) by metis
        next
          case (ok x w4)
          then have "w_store w4 = w_store w" using check_world(1) s3 by metis
          then show ?thesis using staged[OF _ m am a(2) pr et em ne ok(2)] by blast
        qed
      qed
    qed
  qed
qed

lemma execPublish_codes:
  "execPublish E g b s k what w = (Inl e, w') \<Longrightarrow> fs_code e \<in>
     {FS_NOT_FOUND, FS_PERMISSION_DENIED, FS_NOT_DIRECTORY, FS_IO_ERROR, FS_STALE_VERSION, FS_NOT_OBSERVED}"
  using mapFsError_code[of _ "js ''exec''"]
  by (auto simp: execPublish_def execCapture_def mapping_def andThen_def split: sum.splits if_splits prod.splits)

lemma stage_codes:
  assumes "stage_and_publish E t c g b post w = (Inl e, w')"
  shows "fs_code e \<in>
     {FS_NOT_FOUND, FS_PERMISSION_DENIED, FS_NOT_DIRECTORY, FS_IO_ERROR, FS_STALE_VERSION, FS_NOT_OBSERVED}"
proof -
  have "e \<in> range (\<lambda>(x, y). mapFsError x y) \<or> (\<exists>s k what w1 w2. execPublish E g b s k what w1 = (Inl e, w2))"
    using assms by (auto simp: stage_and_publish_def Let_def mapping_def split: sum.splits prod.splits)
  then show ?thesis using execPublish_codes mapFsError_code by fastforce
qed

text \<open>
  C25: An edit is all or nothing and does what it says. When nobody else changes the host, after
  \<open>editText\<close> with any faults nothing but the target and one staging name has changed, and the
  target is what it was or holds the UTF-8 bytes of the edited text. Success means the latter:
  the file was a text file at the version guarded, \<open>before\<close> is its content with LF line ends,
  \<open>oldString\<close> occurs in it, exactly once unless \<open>replaceAll\<close>, \<open>after\<close> is \<open>before\<close> with the
  occurrences replaced, and what is stored is \<open>after\<close> with the line ends the file had.
\<close>

theorem edit_all_or_nothing:
  assumes "calm E" "clean_target E t (w_store w)" "performEdit E t ed guard w = (r, w')"
  shows "\<exists>n bs m. let key = targetKey t; staged = tempPathFor (e_rand E n) key; raw = decode bs;
      before = normalizeLf raw; pieces = split_lit before (oldString ed);
      after = replaceLiteral before (oldString ed) (newString ed) (replaceAll ed);
      wire = (if hasCrlf raw then toCrlf after else after) in
    (\<forall>p. p \<noteq> key \<longrightarrow> p \<noteq> staged \<longrightarrow> w_store w' p = w_store w p) \<and>
    (w_store w' key = w_store w key \<or>
       w_store w key = Some (File bs m) \<and> (\<exists>nd. w_store w' key = Some nd \<and> new_file (utf8 wire) nd)) \<and>
    (\<forall>out. r = Inr out \<longrightarrow> w_store w key = Some (File bs m) \<and>
       (\<exists>nd. w_store w' key = Some nd \<and> new_file (utf8 wire) nd \<and>
          e_version out = versionOfAttrs (e_sha E) (node_attrs nd)) \<and> w_store w' staged = None \<and>
       (\<forall>v. guard = Some v \<longrightarrow> versionOfAttrs (e_sha E) (node_attrs (File bs m)) = v) \<and>
       0 \<notin> set (take 8192 bs) \<and> oldString ed \<noteq> [] \<and> length pieces \<ge> 2 \<and> (replaceAll ed \<or> length pieces = 2) \<and>
       e_before out = before \<and> e_after out = after \<and> after = join pieces (newString ed)) \<and>
    (\<forall>e. r = Inl e \<longrightarrow> fs_code e \<in> {FS_STALE_VERSION, FS_EDIT_NOT_FOUND, FS_AMBIGUOUS_EDIT, FS_NOT_TEXT} \<longrightarrow>
       w_store w' key = w_store w key)"
  using assms(1,3)
proof (cases rule: performEdit_cases)
  case (early e)
  then show ?thesis by (auto simp: Let_def)
next
  case (staged a bs m before after wire w1)
  let ?key = "targetKey t" and ?tmp = "tempPathFor (e_rand E (w_calls w1)) (targetKey t)"
  let ?g = "Some (ReplaceIfVersion (versionOfAttrs (e_sha E) a))"
  note cl = clean_targetD[OF assms(2), folded staged(1)]
  obtain x w2 where x: "stage_and_publish E t wire ?g (Some a) (js ''post-edit stat '') w1 = (x, w2)"
    by (meson surj_pair)
  note fr = stage_and_publish_frame[OF assms(1) x cl(1) cl(2) cl(3), unfolded staged(1)]
  have w2: "w' = w2" using staged(9) x by (cases x) auto
  have ok: "\<exists>a'. x = Inr a' \<and> out = \<lparr>e_version = versionOfAttrs (e_sha E) a', e_before = before, e_after = after\<rparr>"
    if "r = Inr out" for out
    using staged(9) x that by (cases x) auto
  have bad: "x = Inl e" if "r = Inl e" for e
    using staged(9) x that by (cases x) auto
  have st: "w_store w ?key = Some (File bs m)"
    using staged(2) resolved_plain[of "w_store w" ?key] resolved_absent[of "w_store w" ?key]
      clean_targetD(4)[OF assms(2)] by (cases "w_store w ?key") auto
  define pieces where "pieces = split_lit before (oldString ed)"
  have be: "before = normalizeLf (decode bs)"
    "after = replaceLiteral before (oldString ed) (newString ed) (replaceAll ed)"
    "wire = (if hasCrlf (decode bs) then toCrlf after else after)"
    using staged(6) by (auto simp: edit_text_def Let_def)
  have pc: "length pieces \<ge> 2" "replaceAll ed \<or> length pieces = 2"
    using staged(7,8) countLiteral_split[OF staged(8), of before]
    by (auto simp: edit_matches_def Let_def pieces_def split: if_splits)
  have af: "after = join pieces (newString ed)"
    using pc be(2) replace_one_split[OF staged(8), of before "newString ed"]
    by (cases "replaceAll ed") (auto simp: pieces_def replace_all_split)
  have bin: "0 \<notin> set (take 8192 bs)"
    using staged(5) probe_push_verdict[of new_probe bs] probe_chunking[of "[bs]"] by simp
  have 1: "\<forall>p. p \<noteq> ?key \<longrightarrow> p \<noteq> ?tmp \<longrightarrow> w_store w' p = w_store w p"
    "w_store w' ?key = w_store w ?key \<or> w_store w ?key = Some (File bs m) \<and>
      (\<exists>nd. w_store w' ?key = Some nd \<and> new_file (utf8 wire) nd)"
    using fr(1) st unfolding mutates_def w2 by blast+
  have 2: "w_store w ?key = Some (File bs m) \<and>
       (\<exists>nd. w_store w' ?key = Some nd \<and> new_file (utf8 wire) nd \<and>
          e_version out = versionOfAttrs (e_sha E) (node_attrs nd)) \<and> w_store w' ?tmp = None \<and>
       (\<forall>v. guard = Some v \<longrightarrow> versionOfAttrs (e_sha E) (node_attrs (File bs m)) = v) \<and>
       0 \<notin> set (take 8192 bs) \<and> oldString ed \<noteq> [] \<and> length pieces \<ge> 2 \<and> (replaceAll ed \<or> length pieces = 2) \<and>
       e_before out = before \<and> e_after out = after \<and> after = join pieces (newString ed)" if r: "r = Inr out" for out
  proof -
    obtain a' where a': "x = Inr a'"
      "out = \<lparr>e_version = versionOfAttrs (e_sha E) a', e_before = before, e_after = after\<rparr>"
      using ok[OF r] by blast
    have "versionOfAttrs (e_sha E) (node_attrs (File bs m)) = v" if "guard = Some v" for v
      using staged(3,4) that by simp
    then show ?thesis
      using fr(2)[OF a'(1)] a'(2) st bin staged(8) pc af unfolding w2 by (simp del: node_attrs.simps) blast
  qed
  have 3: "w_store w' ?key = w_store w ?key"
    if "r = Inl e" "fs_code e \<in> {FS_STALE_VERSION, FS_EDIT_NOT_FOUND, FS_AMBIGUOUS_EDIT, FS_NOT_TEXT}" for e
  proof -
    have "fs_code e \<in> {FS_STALE_VERSION, FS_NOT_OBSERVED}"
      using stage_codes[OF x[unfolded bad[OF that(1)]]] that(2) by auto
    then show ?thesis using fr(3)[OF bad[OF that(1)]] unfolding w2 by blast
  qed
  show ?thesis
    using 1 2 3 unfolding Let_def be(1)[symmetric] pieces_def[symmetric]
    by (intro exI[of _ "w_calls w1"] exI[of _ bs] exI[of _ m])
      (simp only: be(1)[symmetric] be(2)[symmetric] be(3)[symmetric] pieces_def[symmetric], blast)
qed

end
