(* ===== verification/SshFiles.thy ===== *)
theory SshFiles
  imports SshMutation
begin

text \<open>
  More of what the filesystem provider promises: edits that apply succeed, line ends, the limits
  of the guarded replacement, bounded reads and the cache of resolutions.
\<close>

section \<open>Edits that apply\<close>

lemma read_loop_faultless:
  assumes "calm E" "faultless E"
  shows "\<exists>w'. read_loop E None what acc got cs w = (Inr (acc @ cs), w') \<and> w_store w' = w_store w"
proof (induction cs arbitrary: acc got w)
  case Nil
  then show ?case by (simp add: faultless_calls[OF assms(2)] enter_store[OF assms(1)])
next
  case (Cons c cs)
  obtain w' where "read_loop E None what (acc @ [c]) (got + length c) cs (enter E w) = (Inr ((acc @ [c]) @ cs), w')"
    "w_store w' = w_store (enter E w)" using Cons by blast
  then show ?case by (simp add: faultless_calls[OF assms(2)] enter_store[OF assms(1)] Let_def)
qed

lemma readAll_faultless:
  assumes "calm E" "faultless E" "resolved (w_store w) key = Some (File bs m)"
  shows "\<exists>w'. readAll E key None what w = (Inr bs, w') \<and> w_store w' = w_store w"
proof -
  obtain w' where "read_loop E None what [] 0 (chunks_of (e_chunk E) bs) (enter E w) =
      (Inr (chunks_of (e_chunk E) bs), w')" "w_store w' = w_store (enter E w)"
    using read_loop_faultless[OF assms(1,2), of what "[]" 0 "chunks_of (e_chunk E) bs" "enter E w"] by auto
  then show ?thesis
    using assms(3)
    by (simp add: readAll_def faultless_calls[OF assms(2)] enter_store[OF assms(1)] read_stream_def)
qed

text \<open>
  An edit that applies succeeds: on a quiet host that refuses no call, if the target is a
  regular text file without special mode bits, at the guarded version, and \<open>oldString\<close> is not
  empty and occurs in its LF text (once, or with \<open>replaceAll\<close>), then \<open>editText\<close> returns the text
  before and after, and the file holds the edited text.
\<close>

theorem edit_succeeds:
  assumes "calm E" "faultless E" "clean_target E t (w_store w)"
    and "is_dir (w_store w) (dirname (targetKey t))"
    and src: "w_store w (targetKey t) = Some (File bs m)" "n_mode m mod 4096 < 512" "0 \<notin> set (take 8192 bs)"
    and guard: "guard = None \<or> guard = Some (versionOfAttrs (e_sha E) (node_attrs (File bs m)))"
    and ed: "edit_text (decode bs) ed = (before, after, wire)" "oldString ed \<noteq> []"
      "countLiteral before (oldString ed) = Some (Suc k)" "k = 0 \<or> replaceAll ed"
  shows "\<exists>out w'. performEdit E t ed guard w = (Inr out, w') \<and> e_before out = before \<and> e_after out = after \<and>
    (\<exists>nd. w_store w' (targetKey t) = Some nd \<and> new_file (utf8 wire) nd)"
proof -
  let ?key = "targetKey t" and ?a = "node_attrs (File bs m)"
  let ?g = "Some (ReplaceIfVersion (versionOfAttrs (e_sha E) ?a))"
  have l: "\<not> is_link (w_store w) ?key" using src(1) by (simp add: is_link_def)
  have res: "resolved (w_store w) ?key = Some (File bs m)" by (rule resolved_plain[OF src(1) l])
  have gh: "guard_holds ?g (Some ?a) ?key (w_store w)"
    using ready_guard_holds(1)[of E ?g ?key "w_store w" "Some ?a"] l src by (simp add: guard_ready_def)
  define w1 where "w1 = enter E (enter E w)"
  have w1: "w_store w1 = w_store w" by (simp add: w1_def enter_store[OF assms(1)])
  obtain w2 where rd: "readAll E ?key None (displayPath t) w1 = (Inr bs, w2)" "w_store w2 = w_store w"
    using readAll_faultless[OF assms(1,2), of w1 ?key bs m "displayPath t"] res w1 by auto
  obtain a' w3 where st: "stage_and_publish E t wire ?g (Some ?a) (js ''post-edit stat '') w2 = (Inr a', w3)"
    using faultless_stage[OF assms(1,2), of t w2 ?g "Some ?a" wire "js ''post-edit stat ''"] assms(3,4) gh l
    unfolding rd(2) by blast
  have pr: "\<not> snd (probe_push new_probe bs)"
    using src(3) probe_push_verdict[of new_probe bs] probe_chunking[of "[bs]"] by simp
  have em: "edit_matches before ed (displayPath t) = None"
    using ed by (auto simp: edit_matches_def Let_def)
  have fl: "isFile ?a" by (simp add: isFile_def)
  define out where "out = \<lparr>e_version = versionOfAttrs (e_sha E) a', e_before = before, e_after = after\<rparr>"
  have run: "performEdit E t ed guard w = (Inr out, w3)"
    using guard rd(1)[unfolded w1_def] st pr em fl ed(1,2)
    by (simp add: performEdit_def faultless_calls[OF assms(2)] faultless_stat[OF assms(1,2)]
        enter_store[OF assms(1)] res out_def del: node_attrs.simps split: if_splits)
  have "clean_target E t (w_store w2)" using assms(3) rd(2) by simp
  note cl = clean_targetD[OF this]
  have "\<exists>nd. w_store w3 ?key = Some nd \<and> new_file (utf8 wire) nd"
    using stage_and_publish_frame(2)[OF assms(1) st cl(1) cl(2) cl(3)] by blast
  then show ?thesis using run by (auto simp: out_def)
qed


section \<open>Line ends\<close>

text \<open>
  An edit keeps the line-ending style of uniform files: a text without CRLF is edited as it
  is, in a text with CRLF the stored text reads back as \<open>after\<close>. An edit that replaces a text by
  itself leaves the stored text as it was exactly when the file does not mix the two styles.
\<close>

theorem edit_line_endings:
  "case edit_text raw ed of (before, after, wire) \<Rightarrow>
     (\<not> hasCrlf raw \<longrightarrow> before = raw \<and> wire = after) \<and>
     (hasCrlf raw \<longrightarrow> normalizeLf wire = after \<and> wire = toCrlf after) \<and>
     (oldString ed \<noteq> [] \<and> newString ed = oldString ed \<longrightarrow>
        (wire = raw \<longleftrightarrow> \<not> hasCrlf raw \<or> crlf_only False raw))"
  using hasCrlf_normalizeLf[of raw] toCrlf_normalizeLf_iff[of raw]
  by (auto simp: edit_text_def Let_def normalizeLf_toCrlf replace_self)

lemma edit_line_endings_witness:
  "case edit_text (js ''a'' @ [10] @ js ''b'' @ [13, 10]) \<lparr>oldString = js ''b'', newString = js ''b'', replaceAll = False\<rparr>
     of (before, after, wire) \<Rightarrow> wire \<noteq> js ''a'' @ [10] @ js ''b'' @ [13, 10]"
  using edit_line_endings[of "js ''a'' @ [10] @ js ''b'' @ [13, 10]"
      "\<lparr>oldString = js ''b'', newString = js ''b'', replaceAll = False\<rparr>"]
  by (auto simp: js_def)

text \<open>A byte order mark at the start of a file is not part of its decoded text.\<close>

lemma decode_bom:
  assumes "wf_utf16 s"
  shows "decode ([239, 187, 191] @ utf8 s) = s"
proof -
  have "td_run td_new [239, 187, 191] = (td_idle True, [])"
    by (simp add: td_new_def td_step_def td_start_def td_emit_def)
  then show ?thesis
    using assms td_run_append[of td_new "[239, 187, 191]" "utf8 s"] td_run_utf8_True[OF assms]
    by (simp add: decode_def td_flush_def Let_def del: td_run.simps)
qed

section \<open>Limits of the guarded replacement\<close>

lemma special_mode_no_guard:
  assumes "st key = Some nd" "512 \<le> a_mode (node_attrs nd) mod 4096"
  shows "\<not> guard_holds (Some (ReplaceIfVersion v)) (Some a) key st"
proof
  assume "guard_holds (Some (ReplaceIfVersion v)) (Some a) key st"
  then have "a_mode (node_attrs nd) mod 4096 = a_mode a mod 512"
    using guard_holds_token[of v a key st id] assms(1) by auto
  then show False using assms(2) mod_less_divisor[of 512 "a_mode a"] by simp
qed

text \<open>
  A file with a special mode bit (setuid, setgid or sticky) can never be edited, nor replaced
  at a version: the version token covers nine mode bits, the script compares all twelve. On a host
  that nobody else changes, with any version asked for, the file is left as it is and the call
  does not succeed.
\<close>

theorem special_mode_never_replaced:
  assumes "calm E" "clean_target E t (w_store w)" "w_store w (targetKey t) = Some nd"
    and "512 \<le> a_mode (node_attrs nd) mod 4096"
  shows "(\<forall>r w'. performEdit E t ed guard w = (r, w') \<longrightarrow>
      w_store w' (targetKey t) = Some nd \<and> (\<exists>e. r = Inl e)) \<and>
    (\<forall>r w'. performWrite E t c (Some (ReplaceIfVersion v)) w = (r, w') \<longrightarrow>
      w_store w' (targetKey t) = Some nd \<and> (\<exists>e. r = Inl e))"
proof (intro conjI allI impI)
  note ng = special_mode_no_guard[of "w_store w" "targetKey t" nd, OF assms(3,4)]
  fix r w' assume "performEdit E t ed guard w = (r, w')"
  from assms(1) this have "w_store w' (targetKey t) = Some nd \<and> (\<exists>e. r = Inl e)"
  proof (cases rule: performEdit_cases)
    case (staged a bs m before after wire w1)
    note cl = clean_targetD[OF assms(2), folded staged(1)]
    obtain x w2 where x: "stage_and_publish E t wire (Some (ReplaceIfVersion (versionOfAttrs (e_sha E) a)))
        (Some a) (js ''post-edit stat '') w1 = (x, w2)" by (meson surj_pair)
    note fr = stage_and_publish_frame[OF assms(1) x cl(1) cl(2) cl(3), unfolded staged(1)]
    have "w' = w2" "\<exists>e. x = Inl e" using staged(9) x fr(2) ng by (cases x; auto)+
    then show ?thesis using staged(9) x fr(1) ng assms(3) by (auto simp: mutates_def)
  qed (use assms(3) in auto)
  then show "w_store w' (targetKey t) = Some nd" "\<exists>e. r = Inl e" by blast+
next
  note ng = special_mode_no_guard[of "w_store w" "targetKey t" nd, OF assms(3,4)]
  fix r w' assume "performWrite E t c (Some (ReplaceIfVersion v)) w = (r, w')"
  from assms(1) this have "w_store w' (targetKey t) = Some nd \<and> (\<exists>e. r = Inl e)"
  proof (cases rule: performWrite_cases)
    case (staged before basis w1)
    obtain a where a: "before = Some a"
      using staged(2) by (auto simp: write_precheck_def split: option.splits)
    note cl = clean_targetD[OF assms(2), folded staged(1)]
    obtain x w2 where x: "stage_and_publish E t c (Some (ReplaceIfVersion v)) before
        (js ''post-write stat '') w1 = (x, w2)" by (meson surj_pair)
    note fr = stage_and_publish_frame[OF assms(1) x cl(1) cl(2) cl(3), unfolded staged(1)]
    have "w' = w2" "\<exists>e. x = Inl e" using staged(4) x fr(2) ng a by (cases x; auto)+
    then show ?thesis using staged(4) x fr(1) ng assms(3) a by (auto simp: mutates_def)
  qed (use assms(3) in auto)
  then show "w_store w' (targetKey t) = Some nd" "\<exists>e. r = Inl e" by blast+
qed


lemma dir_resolved:
  assumes "st p = Some (Directory n m)"
  shows "follow MAX_LINKS st p = Some p" "is_dir st p" "resolved st p = Some (Directory n m)"
  using assms by (simp_all add: MAX_LINKS_def eval_nat_numeral is_dir_def resolved_def)

text \<open>
  An unguarded write to a directory reports success and leaves the staged file inside the
  directory: nothing checks the type of an existing target, and \<open>mv\<close> moves into a directory.
\<close>

theorem force_write_lands_in_directory:
  assumes E: "calm E" "faultless E"
    and key: "targetKey t = abs_path (ss @ [s])" "plain_seg s" "\<forall>x \<in> set ss. plain_seg x"
    and st: "w_store w (targetKey t) = Some (Directory n m)" "is_dir (w_store w) (dirname (targetKey t))"
    and free: "\<And>r. w_store w (tempPathFor r (targetKey t)) = None" "\<And>n. 47 \<notin> set (e_rand E n)"
      "\<And>r. w_store w (child_path (targetKey t) (basename (tempPathFor r (targetKey t)))) = None"
  shows "\<exists>out w' r nd. performWrite E t c None w = (Inr out, w') \<and> \<not> o_created out \<and>
    w_store w' (targetKey t) = Some (Directory n m) \<and> new_file (utf8 c) nd \<and>
    w_store w' (child_path (targetKey t) (basename (tempPathFor r (targetKey t)))) = Some nd"
proof -
  let ?key = "targetKey t" and ?st = "w_store w"
  define w1 where "w1 = enter E (enter E w)"
  have w1: "w_store w1 = ?st" by (simp add: w1_def enter_store[OF E(1)])
  let ?r = "e_rand E (w_calls w1)" let ?tmp = "tempPathFor ?r ?key"
  let ?d = "child_path ?key (basename ?tmp)"
  define md where "md = \<lparr>n_mode = 33152, n_mtime = e_now E (w_calls w1) div 1000\<rparr>"
  define nd where "nd = File (utf8 c) md"
  have nt: "?tmp \<noteq> ?key" using tempPathFor_other[OF key(2,3), of ?r] by (simp only: key(1)) simp
  have tp: "?tmp = abs_path (ss @ [s @ js ''.dsh-remote-tmp-'' @ ?r])"
    using tempPathFor_abs_path[OF key(2,3)] by (simp only: key(1))
  define x where "x = s @ js ''.dsh-remote-tmp-'' @ ?r"
  have "16 \<le> length x" by (simp add: x_def js_def)
  then have "x \<noteq> [] \<and> x \<noteq> DOT \<and> x \<noteq> DOTDOT" by auto
  moreover have "47 \<notin> set x" using key(2) free(2) by (simp add: x_def js_def plain_seg_def)
  ultimately have px: "plain_seg x" by (simp add: plain_seg_def)
  have dn: "dirname ?tmp = dirname ?key" "basename ?tmp = x"
    using dirname_abs_path[OF px key(3)] dirname_abs_path[OF key(2,3)] basename_abs_path[OF px]
    unfolding tp x_def[symmetric] by (simp_all only: key(1))
  have "length ?key < length ?d" using px by (auto simp: child_path_def dn plain_seg_def)
  then have dk: "?d \<noteq> ?key" by (metis less_irrefl)
  have "s \<noteq> []" using key(2) by (simp add: plain_seg_def)
  then have "length (abs_path (ss @ [x])) < length (child_path (abs_path (ss @ [s])) x)"
    by (cases "ss = []") (simp_all add: child_path_def abs_path_def join_append)
  then have "length ?tmp < length ?d"
    unfolding tp x_def[symmetric] basename_abs_path[OF px] unfolding key(1) .
  then have dt: "?d \<noteq> ?tmp" by (metis less_irrefl)
  have up: "upload E ?tmp c w1 = (Inr (), (enter E w1)\<lparr>w_store := ?st(?tmp \<mapsto> nd)\<rparr>)"
    using resolved_absent[of ?st ?tmp] free(1)[of ?r] st(2)
    by (simp add: upload_def sftp_write_def put_file_def Let_def faultless_calls[OF E(2)] enter_store[OF E(1)]
        w1 dn(1) is_dir_def nd_def md_def)
  let ?s1 = "?st(?tmp \<mapsto> nd)"
  have k1: "?s1 ?key = Some (Directory n m)" using st(1) nt[symmetric] by simp
  have d1: "?s1 ?d = None" using free(3)[of ?r] dt by simp
  let ?s2 = "(?s1(?tmp := None))(?d \<mapsto> nd)"
  have mv: "mv_force ?s1 ?tmp ?key = (0, ?s2)"
    using dir_resolved(1,2)[of ?s1 ?key, OF k1] d1 dt by (simp add: mv_force_def Let_def)
  then have "sh_publish True True ?s1 (publish_mode None # publish_elements None b @ [?tmp, ?key]) = (0, ?s2)" for b
    by (simp add: sh_publish_def publish_mode_def publish_elements_def)
  then have ex: "\<exists>w3. execPublish E None b ?tmp ?key (displayPath t) ((enter E w1)\<lparr>w_store := ?s1\<rparr>) = (Inr (), w3) \<and>
      w_store w3 = ?s2" for b
    using E by (simp add: execPublish_def execCapture_def remote_exec_def publish_command_def remote_shell_publish
        Let_def faultless_calls enter_store)
  let ?a = "node_attrs (Directory n m)"
  obtain w3 where w3: "execPublish E None (Some ?a) ?tmp ?key (displayPath t) ((enter E w1)\<lparr>w_store := ?s1\<rparr>) = (Inr (), w3)"
    "w_store w3 = ?s2" using ex by blast
  have k2: "?s2 ?key = Some (Directory n m)" "?s2 ?d = Some nd" using k1 dk[symmetric] nt[symmetric] by simp_all
  have "stage_and_publish E t c None (Some ?a) (js ''post-write stat '') w1 =
      (Inr ?a, enter E (invalidateResolveCache ?key w3))"
    using up w3 dir_resolved(3)[of ?s2 ?key, OF k2(1)]
    by (simp add: stage_and_publish_def Let_def faultless_stat[OF E] invalidateResolveCache_def del: node_attrs.simps)
  then have "performWrite E t c None w =
      (Inr \<lparr>o_created = False, o_version = versionOfAttrs (e_sha E) ?a, o_before = None, o_after = normalizeLf c\<rparr>,
       enter E (invalidateResolveCache ?key w3))"
    using dir_resolved(3)[of ?st ?key, OF st(1)]
    by (simp add: performWrite_def faultless_calls[OF E(2)] faultless_stat[OF E] enter_store[OF E(1)]
        write_precheck_def isFile_def w1_def)
  moreover have "new_file (utf8 c) nd" by (simp add: new_file_def nd_def md_def)
  moreover have "w_store (enter E (invalidateResolveCache ?key w3)) = ?s2"
    using enter_store[OF E(1)] by (simp add: invalidateResolveCache_def w3(2))
  ultimately show ?thesis using k2 by (metis FsWriteOutcome.select_convs(1))
qed

section \<open>Bounded reads\<close>

lemma read_loop_bounded:
  assumes "read_loop E (Some n) what acc got cs w = (Inr res, w')"
    and "got = length (concat acc)" "got \<le> n"
  shows "length (concat res) \<le> n"
  using assms
proof (induction cs arbitrary: acc got w)
  case Nil
  then show ?case by (auto split: option.splits)
next
  case (Cons c cs)
  show ?case
  proof (cases "refused E w")
    case None
    show ?thesis
    proof (cases "checkAborted E (enter E w)")
      case (Pair x w2)
      then show ?thesis
        using Cons.prems None Cons.IH[of "acc @ [c]" "got + length c" w2]
        by (cases x) (auto simp: Let_def split: if_splits)
    qed
  qed (use Cons.prems in simp)
qed

text \<open>
  Reads are bounded: whatever the host does, faults, lies about the size and growth of the
  file included, \<open>readBytes\<close> returns at most \<open>maxBytes\<close> bytes or an error.
\<close>

theorem readBytes_bounded:
  assumes "readBytes E t n w = (Inr bs, w')"
  shows "length bs \<le> n"
proof -
  obtain w1 where "readAll E (targetKey t) (Some n) (displayPath t) w1 = (Inr bs, w')"
    using assms by (auto simp: readBytes_def Let_def elim!: andThen_cases split: if_splits)
  then obtain cs res w2 where "read_loop E (Some n) (displayPath t) [] 0 cs w2 = (Inr res, w')" "bs = concat res"
    by (auto simp: readAll_def elim!: andThen_cases split: sum.splits)
  then show ?thesis using read_loop_bounded[of E n "displayPath t" "[]" 0 cs w2 res w'] by simp
qed

section \<open>The resolve cache\<close>

lemma remote_exec_cache: "remote_exec E cmd w = (r, w') \<Longrightarrow> w_cache w' = w_cache w"
  by (auto simp: remote_exec_def Let_def enter_def split: prod.splits option.splits fault.splits if_splits)

lemma map_of_filter_gone:
  "distinct (map fst xs) \<Longrightarrow> map_of xs k = Some v \<Longrightarrow> \<not> P (k, v) \<Longrightarrow> map_of (filter P xs) k = None"
  by (induction xs) (auto simp: map_of_eq_None_iff split: if_splits)

text \<open>
  A resolution is remembered for five seconds and dropped by a mutation of what it points to:
  resolving the same path again before that returns the same target without a remote call, and
  after \<open>invalidateResolveCache\<close> of its key no entry for it is left.
\<close>

theorem resolve_cached:
  assumes "resolve E path cwd w = (Inr t, w')" "distinct (map fst (w_cache w))"
  defines "ab \<equiv> toAbsolute (e_cwd E) path cwd"
  shows "\<exists>expires. map_of (w_cache w') ab = Some (t, expires) \<and> e_now E (w_calls w') < expires \<and>
    (\<forall>w''. w_cache w'' = w_cache w' \<longrightarrow> e_now E (w_calls w'') < expires \<longrightarrow> \<not> e_aborted E (w_calls w'') \<longrightarrow>
       resolve E path cwd w'' = (Inr t, w'')) \<and>
    map_of (w_cache (invalidateResolveCache (targetKey t) w')) ab = None"
proof -
  have nb: "\<not> e_aborted E (w_calls w)"
    using assms(1) by (auto simp: resolve_def checkAborted_def split: if_splits)
  have dist: "distinct (map fst (w_cache w')) \<and> (\<exists>expires. map_of (w_cache w') ab = Some (t, expires) \<and>
      e_now E (w_calls w') < expires)"
  proof (cases "\<exists>t' x. map_of (w_cache w) ab = Some (t', x) \<and> e_now E (w_calls w) < x")
    case True
    then show ?thesis
      using assms(1,2) nb by (auto simp: resolve_def checkAborted_def Let_def ab_def)
  next
    case False
    then obtain out w1 where x: "remote_exec E (realpath_command ab) w = (out, w1)"
      and w': "w' = w1\<lparr>w_cache := AList.update ab (t, e_now E (w_calls w1) + 5000) (w_cache w1)\<rparr>"
      using assms(1) nb
      by (fastforce simp: resolve_def checkAborted_def transport_def execCapture_def mapping_def Let_def
          RESOLVE_CACHE_TTL_MS_def andThen_def ab_def split: option.splits if_splits prod.splits sum.splits)
    then show ?thesis using remote_exec_cache[OF x] assms(2) by simp
  qed
  then obtain expires where e: "map_of (w_cache w') ab = Some (t, expires)" "e_now E (w_calls w') < expires" by blast
  have "map_of (filter (\<lambda>(_, t', _). targetKey t' \<noteq> targetKey t) (w_cache w')) ab = None"
    using dist e(1) by (intro map_of_filter_gone) auto
  then show ?thesis
    using e by (auto simp: resolve_def checkAborted_def Let_def ab_def invalidateResolveCache_def)
qed

end
