(* ===== verification/SshTyping.thy ===== *)
theory SshTyping
  imports SshMutation
begin

text \<open>
  Types of the filesystem provider: texts are strings of 16-bit code units, files hold bytes. The
  codecs and the edit helpers keep both, every call of the provider keeps a typed store, and
  \<open>has_type\<close> with its rule for \<open>andThen\<close> lifts that to whole methods.
\<close>

section \<open>Texts and bytes\<close>

lemma units_ok_filterlike:
  "units_ok s \<Longrightarrow> units_ok (normalizeLf s)" "units_ok s \<Longrightarrow> units_ok (toCrlf s)"
  by (induction s rule: normalizeLf.induct) (auto split: if_splits)

lemma units_ok_take: "units_ok s \<Longrightarrow> units_ok (take n s)" "units_ok s \<Longrightarrow> units_ok (drop n s)"
  using set_take_subset[of n s] set_drop_subset[of n s] by (auto simp: units_ok_def)

lemma units_ok_join: "\<forall>p \<in> set ps. units_ok p \<Longrightarrow> units_ok sep \<Longrightarrow> units_ok (join ps sep)"
  by (induction ps sep rule: join.induct) auto

lemma split_lit_units: "units_ok h \<Longrightarrow> \<forall>p \<in> set (split_lit h n). units_ok p"
proof (induction h n rule: split_lit.induct)
  case (1 h n)
  show ?case
  proof (cases "n = [] \<or> indexOf h n = None")
    case True
    then show ?thesis using 1(2) by (subst split_lit.simps) (auto simp: units_ok_def)
  next
    case False
    then obtain i where i: "n \<noteq> []" "indexOf h n = Some i" by auto
    show ?thesis
      using 1(1)[OF i] 1(2) units_ok_take[of h] by (simp add: split_lit_Some[OF i])
  qed
qed

lemma replaceLiteral_units: "units_ok h \<Longrightarrow> units_ok r \<Longrightarrow> units_ok (replaceLiteral h n r all)"
  using split_lit_units[of h n] units_ok_join[of "split_lit h n" r] units_ok_take[of h]
  by (auto simp: replaceLiteral_def split: option.split)

text \<open>The bound on a decoder's partial code point that keeps every code point below 0x110000.\<close>

definition td_bound :: "text_decoder \<Rightarrow> bool" where
  "td_bound td \<longleftrightarrow>
     td_need td \<le> 3 \<and> td_lo td \<ge> 128 \<and> td_hi td \<le> 191 \<and>
     (td_need td = 1 \<longrightarrow> td_cp td \<le> 17407) \<and> (td_need td = 2 \<longrightarrow> td_cp td \<le> 271) \<and>
     (td_need td = 3 \<longrightarrow> td_cp td \<le> 4 \<and> (td_cp td = 4 \<longrightarrow> td_hi td \<le> 143))"

lemma cp_units_ok: "cp < 1114112 \<Longrightarrow> units_ok (cp_units cp)"
  by (auto simp: cp_units_def)

lemma td_emit_ok: "cp < 1114112 \<Longrightarrow> units_ok (snd (td_emit bom cp)) \<and> td_bound (fst (td_emit bom cp))"
  using cp_units_ok[of cp] by (auto simp: td_emit_def td_bound_def td_idle_def)

lemma mod_sub: "a * k \<le> b \<Longrightarrow> b < Suc a * k \<Longrightarrow> b mod k = b - a * (k::nat)"
  by (auto simp: le_iff_add)

lemma td_start_ok: "b < 256 \<Longrightarrow> units_ok (snd (td_start bom b)) \<and> td_bound (fst (td_start bom b))"
proof -
  assume b: "b < 256"
  have m32: "b mod 32 < 32" "b mod 16 < 16" "b mod 8 < 8" by simp_all
  have h: "b mod 8 = b - 240" if "240 \<le> b" "b \<le> 244" using that mod_sub[of 30 8 b] by simp
  consider "b < 128" | "194 \<le> b" "b \<le> 223" | "224 \<le> b" "b \<le> 239" | "240 \<le> b" "b \<le> 244"
    | "\<not> b < 128" "\<not> (194 \<le> b \<and> b \<le> 223)" "\<not> (224 \<le> b \<and> b \<le> 239)" "\<not> (240 \<le> b \<and> b \<le> 244)"
    by blast
  then show ?thesis
  proof cases
    case 1
    then show ?thesis using td_emit_ok[of b bom] b by (simp add: td_start_def)
  next
    case 2
    then show ?thesis using m32 by (simp add: td_start_def td_bound_def)
  next
    case 3
    have "b mod 16 \<le> 271" using m32(2) by linarith
    then show ?thesis using 3 by (simp add: td_start_def td_bound_def)
  next
    case 4
    then show ?thesis using h by (auto simp: td_start_def td_bound_def)
  next
    case 5
    then have "td_start bom b = td_emit bom 65533" by (simp only: td_start_def if_False)
    then show ?thesis using td_emit_ok[of 65533 bom] by simp
  qed
qed

lemma td_step_ok:
  assumes "td_bound td" "b < 256"
  shows "units_ok (snd (td_step td b)) \<and> td_bound (fst (td_step td b))"
proof (cases "td_need td = 0 \<or> b < td_lo td \<or> td_hi td < b")
  case True
  then show ?thesis
    using td_start_ok[OF assms(2)] td_emit_ok[of 65533 "td_bom td"]
    by (auto simp: td_step_def Let_def split: prod.splits) (metis fst_conv snd_conv)+
next
  case False
  have bm: "b mod 64 < 64" "td_cp td = 4 \<and> td_need td = 3 \<Longrightarrow> b mod 64 \<le> 15"
    using assms False mod_sub[of 2 64 b] by (auto simp: td_bound_def)
  show ?thesis
  proof (cases "td_need td = 1")
    case True
    have "td_cp td * 64 + b mod 64 < 1114112" using assms(1) True bm by (auto simp: td_bound_def)
    then show ?thesis using False True td_emit_ok by (simp add: td_step_def Let_def)
  next
    case n1: False
    have n: "td_need td = 2 \<or> td_need td = 3" using assms(1) False n1 by (auto simp: td_bound_def)
    have "td_cp td * 64 + b mod 64 \<le> 271" if "td_need td = 3"
      using that assms(1) bm by (cases "td_cp td = 4") (auto simp: td_bound_def)
    moreover have "td_cp td * 64 + b mod 64 \<le> 17407" if "td_need td = 2"
      using that assms(1) bm(1) by (auto simp: td_bound_def)
    ultimately show ?thesis
      using False n1 n by (auto simp: td_step_def Let_def td_bound_def)
  qed
qed

lemma td_run_ok: "td_bound td \<Longrightarrow> bytes_ok bs \<Longrightarrow> units_ok (snd (td_run td bs)) \<and> td_bound (fst (td_run td bs))"
proof (induction bs arbitrary: td)
  case (Cons b bs)
  obtain td1 u where s: "td_step td b = (td1, u)" by (cases "td_step td b")
  then have "units_ok u" "td_bound td1" using td_step_ok[OF Cons.prems(1), of b] Cons.prems(2) by (auto simp: bytes_ok_def)
  then show ?case using Cons.IH[of td1] Cons.prems(2) s by (auto simp: bytes_ok_def Let_def split: prod.splits)
qed simp

lemma decode_units: "bytes_ok bs \<Longrightarrow> units_ok (decode bs)"
  using td_run_ok[of td_new bs]
  by (auto simp: decode_def td_flush_def td_bound_def td_new_def td_idle_def split: prod.splits)


section \<open>Typed stores\<close>

definition store_typed :: "store \<Rightarrow> bool" where
  "store_typed st \<longleftrightarrow> (\<forall>p d m. st p = Some (File d m) \<longrightarrow> bytes_ok d)"

definition env_typed :: "env \<Rightarrow> bool" where
  "env_typed E \<longleftrightarrow> (\<forall>n st. store_typed st \<longrightarrow> store_typed (e_interf E n st))"

abbreviation typed :: "world \<Rightarrow> bool" where
  "typed w \<equiv> store_typed (w_store w)"

lemma enter_typed: "env_typed E \<Longrightarrow> typed w \<Longrightarrow> typed (enter E w)"
  by (simp add: enter_def env_typed_def)

lemma store_typed_upd: "store_typed st \<Longrightarrow> bytes_ok d \<Longrightarrow> store_typed (st(p \<mapsto> File d m))"
  by (simp add: store_typed_def)

lemma store_typed_move: "store_typed st \<Longrightarrow> st q = Some nd \<Longrightarrow> store_typed ((st(q := None))(p \<mapsto> nd))"
  by (auto simp: store_typed_def)

lemma store_typed_del: "store_typed st \<Longrightarrow> store_typed (st(p := None))"
  by (auto simp: store_typed_def)

lemma bytes_ok_take: "bytes_ok d \<Longrightarrow> bytes_ok (take n d)"
  using set_take_subset[of n d] by (auto simp: bytes_ok_def)

lemma mv_force_typed: "store_typed st \<Longrightarrow> mv_force st p q = (c, st') \<Longrightarrow> store_typed st'"
  by (auto simp: mv_force_def Let_def intro: store_typed_move split: option.splits if_splits)

lemma sh_publish_typed:
  assumes "store_typed st" "sh_publish a b st args = (c, st')"
  shows "store_typed st'"
proof -
  have "st' = st \<or> (\<exists>p q c. mv_force st p q = (c, st'))"
    using assms(2) by (auto simp: sh_publish_def Let_def split: list.splits if_splits option.splits)
  then show ?thesis using assms(1) mv_force_typed by blast
qed

lemma remote_shell_typed:
  assumes "store_typed st" "remote_shell E f cmd st = (c, out, st')"
  shows "store_typed st'"
proof -
  have "st' = st \<or> (\<exists>a b args c. sh_publish a b st args = (c, st'))"
    using assms(2) by (auto simp: remote_shell_def Let_def split: option.splits list.splits if_splits prod.splits)
  then show ?thesis using assms(1) sh_publish_typed by blast
qed

lemma remote_exec_typed:
  assumes E: "env_typed E" and w: "typed w" and x: "remote_exec E cmd w = (r, w')"
  shows "typed w'"
proof -
  obtain c out st' where s: "remote_shell E (e_fault E (w_calls w)) cmd (w_store (enter E w)) = (c, out, st')"
    by (metis prod_cases3)
  have "w_store w' = st' \<or> w' = enter E w"
    using x s by (auto simp: remote_exec_def Let_def split: option.splits fault.splits if_splits)
  then show ?thesis using remote_shell_typed[OF enter_typed[OF E w] s] enter_typed[OF E w] by auto
qed

named_theorems typed_ops \<open>calls keep the store typed\<close>

lemma sftp_typed [typed_ops]: "env_typed E \<Longrightarrow> typed w \<Longrightarrow> sftp E w = (r, w') \<Longrightarrow> typed w'"
  by (auto simp: sftp_def transport_def enter_typed split: option.splits if_splits)

lemma sftp_stat_typed [typed_ops]: "env_typed E \<Longrightarrow> typed w \<Longrightarrow> sftp_stat E p w = (r, w') \<Longrightarrow> typed w'"
  by (auto simp: sftp_stat_def Let_def enter_typed split: option.splits)

lemma statOrUndefined_typed [typed_ops]:
  "env_typed E \<Longrightarrow> typed w \<Longrightarrow> statOrUndefined E p what w = (r, w') \<Longrightarrow> typed w'"
  by (auto simp: statOrUndefined_def dest: sftp_stat_typed split: prod.splits sum.splits if_splits)

lemma basis_loop_typed: "env_typed E \<Longrightarrow> typed w \<Longrightarrow> basis_loop E p acc cs w = (r, w') \<Longrightarrow> typed w'"
  by (induction E p acc cs w rule: basis_loop.induct) (auto simp: enter_typed split: if_splits prod.splits)

lemma tryReadBasis_typed [typed_ops]:
  "env_typed E \<Longrightarrow> typed w \<Longrightarrow> tryReadBasis E key w = (r, w') \<Longrightarrow> typed w'"
  by (auto simp: tryReadBasis_def enter_typed dest: basis_loop_typed split: sum.splits prod.splits)

lemma read_stream_typed: "store_typed st \<Longrightarrow> read_stream E st p = Inr cs \<Longrightarrow> bytes_ok (concat cs)"
  by (fastforce simp: read_stream_def resolved_def store_typed_def split: option.splits node.splits)

lemma read_loop_typed:
  assumes "env_typed E" "typed w" "read_loop E cap what acc got cs w = (r, w')"
  shows "typed w' \<and> (\<forall>res. r = Inr res \<longrightarrow> res = acc @ cs)"
  using assms(2,3)
proof (induction cs arbitrary: acc got w)
  case Nil
  then show ?case using enter_typed[OF assms(1)] by (auto split: option.splits)
next
  case (Cons c cs)
  have w1: "typed (enter E w)" by (rule enter_typed[OF assms(1) Cons.prems(1)])
  show ?case
    using Cons.prems(2) w1 Cons.IH[OF w1, of "acc @ [c]" "got + length c"]
    by (auto simp: Let_def checkAborted_def split: option.splits if_splits)
qed

lemma readAll_typed:
  assumes E: "env_typed E" and w: "typed w" and x: "readAll E key cap what w = (r, w')"
  shows "typed w' \<and> (\<forall>bs. r = Inr bs \<longrightarrow> bytes_ok bs)"
proof -
  obtain u w1 where u: "sftp E w = (u, w1)" by (cases "sftp E w")
  have w1: "typed w1" by (rule sftp_typed[OF E w u])
  show ?thesis
  proof (cases u)
    case (Inr y)
    show ?thesis
    proof (cases "read_stream E (w_store w1) key")
      case (Inl e)
      then show ?thesis using x u \<open>u = Inr y\<close> enter_typed[OF E w1] by (auto simp: readAll_def)
    next
      case (Inr cs)
      obtain q w2 where q: "read_loop E cap what [] 0 cs w1 = (q, w2)" by (meson surj_pair)
      show ?thesis
        using x u \<open>u = Inr y\<close> Inr q read_loop_typed[OF E w1 q] read_stream_typed[OF w1 Inr]
        by (cases q) (auto simp: readAll_def)
    qed
  qed (use x u w1 in \<open>auto simp: readAll_def\<close>)
qed

lemma upload_typed:
  assumes "env_typed E" "typed w" "units_ok c" "upload E p c w = (r, w')"
  shows "typed w'"
  using assms utf8_units_bytes[OF assms(3)] enter_typed[OF assms(1,2)]
  by (auto simp: upload_def sftp_write_def put_file_def Let_def store_typed_upd bytes_ok_take
      split: option.splits fault.splits if_splits)

lemma silentUnlink_typed: "env_typed E \<Longrightarrow> typed w \<Longrightarrow> typed (silentUnlink E p w)"
  using enter_typed[of E w]
  by (auto simp: silentUnlink_def sftp_unlink_def Let_def store_typed_del split: option.split node.split)

lemma execPublish_typed:
  "env_typed E \<Longrightarrow> typed w \<Longrightarrow> execPublish E g b s k what w = (r, w') \<Longrightarrow> typed w'"
  by (auto simp: execPublish_def execCapture_def mapping_def andThen_def dest: remote_exec_typed
      split: sum.splits prod.splits if_splits)

lemma stage_typed:
  assumes E: "env_typed E" and w: "typed w" and c: "units_ok c"
    and x: "stage_and_publish E t c g b post w = (r, w')"
  shows "typed w'"
proof -
  let ?s = "tempPathFor (e_rand E (w_calls w)) (targetKey t)"
  obtain u w1 where u: "upload E ?s c w = (u, w1)" by (meson surj_pair)
  obtain p w2 where p: "execPublish E g b ?s (targetKey t) (displayPath t) w1 = (p, w2)" by (meson surj_pair)
  obtain a w3 where a: "sftp_stat E (targetKey t) (invalidateResolveCache (targetKey t) w2) = (a, w3)"
    by (meson surj_pair)
  have w1: "typed w1" by (rule upload_typed[OF E w c u])
  have w2: "typed w2" by (rule execPublish_typed[OF E w1 p])
  have "typed (invalidateResolveCache (targetKey t) w2)" using w2 by (simp add: invalidateResolveCache_def)
  then have w3: "typed w3" by (rule sftp_stat_typed[OF E _ a])
  show ?thesis
    using x u p a w1 w2 w3 silentUnlink_typed[OF E]
    by (cases u; cases p; cases a) (auto simp: stage_and_publish_def Let_def)
qed

text \<open>The typing rule of sequencing.\<close>

definition has_type :: "('a \<Rightarrow> bool) \<Rightarrow> 'a outcome \<Rightarrow> bool" where
  "has_type P r \<longleftrightarrow> typed (snd r) \<and> (\<forall>a. fst r = Inr a \<longrightarrow> P a)"

lemma has_type_andThen:
  "has_type P r \<Longrightarrow> (\<And>a w. P a \<Longrightarrow> typed w \<Longrightarrow> has_type Q (f a w)) \<Longrightarrow> has_type Q (andThen r f)"
  by (auto simp: has_type_def andThen_def split: prod.splits sum.splits)

lemma has_type_Inl: "typed w \<Longrightarrow> has_type P (Inl e, w)"
  by (simp add: has_type_def)

lemma has_type_Inr: "typed w \<Longrightarrow> P a \<Longrightarrow> has_type P (Inr a, w)"
  by (simp add: has_type_def)

lemma has_type_calls:
  assumes "env_typed E" "typed w"
  shows "has_type (\<lambda>_. True) (checkAborted E w)" "has_type (\<lambda>_. True) (transport E w)"
    "has_type (\<lambda>_. True) (sftp E w)" "has_type (\<lambda>_. True) (statOrUndefined E p what w)"
    "has_type bytes_ok (readAll E key cap what w)"
    "units_ok c \<Longrightarrow> has_type (\<lambda>_. True) (stage_and_publish E t c g b post w)"
  using assms sftp_typed[OF assms surjective_pairing] statOrUndefined_typed[OF assms surjective_pairing]
    readAll_typed[OF assms surjective_pairing] stage_typed[OF assms _ surjective_pairing]
  by (auto simp: has_type_def checkAborted_def transport_def)


end
