(* ===== verification/SshSamples.thy ===== *)
theory SshSamples
  imports SshMutation SshFiles SshTyping
begin

text \<open>
  Concrete hosts on which the hypotheses of the filesystem theorems hold.
\<close>

text \<open>A quiet host with a root directory and one file \<open>/f\<close>.\<close>

definition sample_env :: env where
  "sample_env = \<lparr>e_interf = \<lambda>_ st. st, e_fault = \<lambda>_. None, e_aborted = \<lambda>_. False, e_live = \<lambda>_. True,
     e_now = \<lambda>n. n, e_chunk = 3, e_real = \<lambda>_ p. p, e_stderr = \<lambda>_. [], e_sha = id,
     e_rand = \<lambda>_. [], e_cwd = None\<rparr>"

definition sample_file :: target where
  "sample_file = \<lparr>targetKey = [47, 102], displayPath = [47, 102]\<rparr>"

definition sample_world :: "nat \<Rightarrow> world" where
  "sample_world mode = \<lparr>w_store = [[47] \<mapsto> Directory 0 \<lparr>n_mode = 16877, n_mtime = 0\<rparr>,
       [47, 102] \<mapsto> File [97, 10, 98] \<lparr>n_mode = mode, n_mtime = 5\<rparr>],
     w_calls = 0, w_cache = [], w_observed = []\<rparr>"

lemma sample_key: "[47, 102] = abs_path ([] @ [[102]])"
  by (simp add: abs_path_def)

lemma sample_staged: "tempPathFor r [47, 102] = [47, 102] @ js ''.dsh-remote-tmp-'' @ r"
  using tempPathFor_abs_path[of "[102]" "[]" r] by (simp add: abs_path_def plain_seg_def)

lemma sample_clean: "calm sample_env" "faultless sample_env"
  "clean_target sample_env sample_file (w_store (sample_world mode))"
  "is_dir (w_store (sample_world mode)) (dirname (targetKey sample_file))"
  "w_store (sample_world mode) (targetKey sample_file) = Some (File [97, 10, 98] \<lparr>n_mode = mode, n_mtime = 5\<rparr>)"
proof -
  show "calm sample_env" "faultless sample_env" by (simp_all add: calm_def faultless_def sample_env_def)
  show f: "w_store (sample_world mode) (targetKey sample_file) = Some (File [97, 10, 98] \<lparr>n_mode = mode, n_mtime = 5\<rparr>)"
    by (simp add: sample_world_def sample_file_def)
  have "\<exists>ss s. targetKey sample_file = abs_path (ss @ [s]) \<and> plain_seg s \<and> (\<forall>x \<in> set ss. plain_seg x)"
    by (intro exI[of _ "[]"] exI[of _ "[102]"]) (simp add: sample_file_def abs_path_def plain_seg_def)
  moreover have "\<not> is_link (w_store (sample_world mode)) (targetKey sample_file)"
    using f by (simp add: is_link_def)
  moreover have "\<not> is_dir (w_store (sample_world mode)) (targetKey sample_file)"
    using f resolved_plain[OF f calculation(2)] by (simp add: is_dir_def)
  moreover have "w_store (sample_world mode) (tempPathFor (e_rand sample_env n) (targetKey sample_file)) = None" for n
    by (simp add: sample_file_def sample_staged sample_world_def js_def)
  ultimately show "clean_target sample_env sample_file (w_store (sample_world mode))"
    by (simp add: clean_target_def sample_env_def)
  have "dirname (targetKey sample_file) = [47]"
    using dirname_abs_path[of "[102]" "[]"] by (simp add: sample_file_def abs_path_def plain_seg_def)
  then show "is_dir (w_store (sample_world mode)) (dirname (targetKey sample_file))"
    by (simp add: dir_resolved(2) sample_world_def)
qed



lemma write_succeeds_witness:
  "\<exists>out w'. performWrite sample_env sample_file (js ''x'') None (sample_world 33188) = (Inr out, w') \<and>
     \<not> o_created out \<and> (\<exists>nd. w_store w' [47, 102] = Some nd \<and> new_file (utf8 (js ''x'')) nd)"
  using write_succeeds[OF sample_clean(1,2,3,4), of 33188 None "js ''x''"] sample_clean(5)[of 33188]
  by (auto simp: guard_ready_def sample_file_def image_iff)

lemma edit_all_or_nothing_witness:
  "\<exists>r w'. performEdit sample_env sample_file \<lparr>oldString = [98], newString = [99], replaceAll = False\<rparr> None
       (sample_world 33188) = (r, w') \<and> w_store w' [47] = w_store (sample_world 33188) [47]"
proof -
  let ?ed = "\<lparr>oldString = [98], newString = [99], replaceAll = False\<rparr>"
  obtain r w' where x: "performEdit sample_env sample_file ?ed None (sample_world 33188) = (r, w')"
    by (meson surj_pair)
  have "w_store w' [47] = w_store (sample_world 33188) [47]"
    using edit_all_or_nothing[OF sample_clean(1) sample_clean(3) x]
    by (auto simp: Let_def sample_file_def sample_staged)
  then show ?thesis using x by blast
qed

lemma edit_succeeds_witness:
  "\<exists>out w'. performEdit sample_env sample_file \<lparr>oldString = [98], newString = [99], replaceAll = False\<rparr> None
       (sample_world 33188) = (Inr out, w') \<and> e_after out = [97, 10, 99]"
proof -
  let ?ed = "\<lparr>oldString = [98], newString = [99], replaceAll = False\<rparr>"
  have d: "decode [97, 10, 98] = [97, 10, 98]"
    by (simp add: decode_def td_new_def td_idle_def td_step_def td_start_def td_emit_def cp_units_def td_flush_def)
  have s: "split_lit [97, 10, 98] [98] = [[97, 10], []]"
    by (simp add: split_lit_Some[of _ _ 2] starts_with_def split_lit_None)
  have e: "edit_text (decode [97, 10, 98]) ?ed = ([97, 10, 98], [97, 10, 99], [97, 10, 99])"
    by (simp add: d edit_text_def replaceLiteral_def starts_with_def Let_def)
  have c: "countLiteral [97, 10, 98] [98] = Some (Suc 0)" by (simp add: countLiteral_split s)
  show ?thesis
    using edit_succeeds[OF sample_clean(1,2,3,4) sample_clean(5)[of 33188], of None ?ed "[97, 10, 98]" "[97, 10, 99]"
        "[97, 10, 99]" 0] e c by auto
qed

lemma special_mode_never_replaced_witness:
  "\<exists>e w'. performEdit sample_env sample_file \<lparr>oldString = [98], newString = [99], replaceAll = False\<rparr> None
       (sample_world 35309) = (Inl e, w')"
proof -
  let ?ed = "\<lparr>oldString = [98], newString = [99], replaceAll = False\<rparr>"
  obtain r w' where x: "performEdit sample_env sample_file ?ed None (sample_world 35309) = (r, w')"
    by (meson surj_pair)
  then show ?thesis
    using special_mode_never_replaced[OF sample_clean(1) sample_clean(3) sample_clean(5)[of 35309],
        of ?ed None "[]" "[]"] by auto
qed


end
