(* ===== verification/SpawnScripts.thy ===== *)
theory SpawnScripts
  imports PosixPath
begin

text \<open>
  The shell texts of \<^verbatim>\<open>subprocess-ssh/src/wrapper.ts\<close>, line by line as the template literals spell them
  (an em dash in a comment is the unit 8212, a backslash 92, a single quote at the edge of a piece 39), and the
  command lines that carry them. What the spawn wrapper does with its input is modelled in \<open>SpawnWire\<close>.
\<close>

definition SPAWN_WRAPPER_MARKER :: jstr where
  "SPAWN_WRAPPER_MARKER = js ''# dsh-ssh-spawn-wrapper v1''"

definition TERMINAL_WRAPPER_MARKER :: jstr where
  "TERMINAL_WRAPPER_MARKER = js ''# dsh-ssh-terminal-wrapper v1''"

definition TERMINAL_SETUP_MARKER :: jstr where
  "TERMINAL_SETUP_MARKER = js ''# dsh-ssh-terminal-setup v1''"

definition HEADER_MAGIC :: jstr where
  "HEADER_MAGIC = js ''DSHSSH1''"

definition SPAWN_INNER :: jstr where
  \<open>SPAWN_INNER = join
     [js ''# dsh-ssh-spawn-inner v2'',
      js ''set +e'',
      js ''dsh_dir=$1'',
      js ''dsh_outspill=$2'',
      js ''dsh_errspill=$3'',
      js ''dsh_stdin=$4'',
      js ''shift 4'',
      js ''dsh_fail() {'',
      js ''  printf '!DSHSSH FAIL %s'' @ [92] @ js ''n' "$(printf '%s' "$1" | base64 | tr -d '' @ [39, 92] @ js ''n')"'',
      js ''  exit 125'',
      js ''}'',
      js ''mapfile -d '' @ [39, 39] @ js '' -t dsh_env < "$dsh_dir/environment" || dsh_fail "cannot read environment"'',
      js ''rm -f -- "$dsh_dir/environment"'',
      js ''# The frame encoders must be FIFO-fed background jobs, NOT >(...) process'',
      js ''# substitutions: bash's `wait` (even with set -m, even with no arguments)'',
      js ''# does not wait for process substitutions, so END could overtake buffered'',
      js ''# frame bytes and interleave mid-line. Explicit job pids restore the drain'',
      js ''# guarantee '' @ [8212] @ js '' END is emitted only after every encoder hit FIFO EOF.'',
      js ''mkfifo -m 600 -- "$dsh_dir/out.fifo" "$dsh_dir/err.fifo" || dsh_fail "cannot create output fifos"'',
      js ''dsh_wait_pids=""'',
      js ''if [ "$dsh_outspill" != "-" ]; then'',
      js ''  mkfifo -m 600 -- "$dsh_dir/out.spillfifo" || dsh_fail "cannot create stdout spill fifo"'',
      js ''  head -c "$dsh_outspill" < "$dsh_dir/out.spillfifo" > "$dsh_dir/stdout.spill" &'',
      js ''  dsh_wait_pids="$dsh_wait_pids $!"'',
      js ''  # tee survives the capped spill reader exiting early (SIGPIPE on a pipe'',
      js ''  # output is ignored by default: --output-error=warn-nopipe).'',
      js ''  tee "$dsh_dir/out.spillfifo" < "$dsh_dir/out.fifo" | base64 &'',
      js ''else'',
      js ''  base64 < "$dsh_dir/out.fifo" &'',
      js ''fi'',
      js ''dsh_wait_pids="$dsh_wait_pids $!"'',
      js ''if [ "$dsh_errspill" != "-" ]; then'',
      js ''  mkfifo -m 600 -- "$dsh_dir/err.spillfifo" || dsh_fail "cannot create stderr spill fifo"'',
      js ''  head -c "$dsh_errspill" < "$dsh_dir/err.spillfifo" > "$dsh_dir/stderr.spill" &'',
      js ''  dsh_wait_pids="$dsh_wait_pids $!"'',
      js ''  tee "$dsh_dir/err.spillfifo" < "$dsh_dir/err.fifo" | base64 >&2 &'',
      js ''else'',
      js ''  base64 < "$dsh_dir/err.fifo" >&2 &'',
      js ''fi'',
      js ''dsh_wait_pids="$dsh_wait_pids $!"'',
      js ''set -m'',
      js ''if [ "$dsh_stdin" = "ignore" ]; then'',
      js ''  env -i -- "${dsh_env[@]}" "$@" > "$dsh_dir/out.fifo" 2> "$dsh_dir/err.fifo" < /dev/null &'',
      js ''else'',
      js ''  env -i -- "${dsh_env[@]}" "$@" > "$dsh_dir/out.fifo" 2> "$dsh_dir/err.fifo" &'',
      js ''fi'',
      js ''dsh_child=$!'',
      js ''printf '%s'' @ [92] @ js ''n' "$dsh_child" > "$dsh_dir/pgid" || dsh_fail "cannot publish pgid"'',
      js ''printf '!DSHSSH START %s'' @ [92] @ js ''n' "$dsh_child"'',
      js ''wait "$dsh_child"'',
      js ''dsh_status=$?'',
      js ''dsh_status_text=""'',
      js ''if [ "$dsh_status" -gt 128 ] 2>/dev/null; then'',
      js ''  dsh_signame=$(kill -l $((dsh_status - 128)) 2>/dev/null)'',
      js ''  dsh_signame=${dsh_signame#SIG}'',
      js ''  case "$dsh_signame" in'',
      js ''    ""|*[!A-Z0-9]*) dsh_status_text="exit:$dsh_status" ;;'',
      js ''    *) dsh_status_text="signal:SIG$dsh_signame" ;;'',
      js ''  esac'',
      js ''else'',
      js ''  dsh_status_text="exit:$dsh_status"'',
      js ''fi'',
      js ''printf '%s'' @ [92] @ js ''n' "$dsh_status_text" > "$dsh_dir/status"'',
      js ''# Drain the frame encoders (FIFO EOF after the child closed its descriptors)'',
      js ''# before publishing END.'',
      js ''wait $dsh_wait_pids'',
      js ''rm -f -- "$dsh_dir/out.fifo" "$dsh_dir/err.fifo" "$dsh_dir/out.spillfifo" "$dsh_dir/err.spillfifo"'',
      js ''printf '!DSHSSH END %s'' @ [92] @ js ''n' "$dsh_status_text"'',
      js ''exit "$dsh_status"'',
      []]
     [10]\<close>

definition SPAWN_WRAPPER :: jstr where
  \<open>SPAWN_WRAPPER = join
     [SPAWN_WRAPPER_MARKER,
      js ''set +e'',
      js ''dsh_fail() {'',
      js ''  printf '!DSHSSH FAIL %s'' @ [92] @ js ''n' "$(printf '%s' "$1" | base64 | tr -d '' @ [39, 92] @ js ''n')"'',
      js ''  exit 125'',
      js ''}'',
      js ''for dsh_tool in bash base64 tr mkdir chmod env rm kill head tee mkfifo; do'',
      js ''  command -v "$dsh_tool" >/dev/null 2>&1 || dsh_fail "missing required tool: $dsh_tool"'',
      js ''done'',
      js ''dsh_id=$1'',
      js ''dsh_root=$2'',
      js ''dsh_dir="$dsh_root/processes/$dsh_id"'',
      js ''mkdir -p -- "$dsh_dir" 2>/dev/null || dsh_fail "cannot create state directory: $dsh_dir"'',
      js ''chmod 700 -- "$dsh_dir" 2>/dev/null'',
      js ''dsh_readline() { IFS= read -r dsh_h || dsh_fail "truncated header"; }'',
      js ''dsh_readline'',
      js ''[ "$dsh_h" = "'' @ HEADER_MAGIC @ js ''" ] || dsh_fail "bad header magic"'',
      js ''dsh_readline; dsh_h_argv=$dsh_h'',
      js ''dsh_readline; dsh_h_env=$dsh_h'',
      js ''dsh_readline; dsh_h_cwd=$dsh_h'',
      js ''dsh_readline; dsh_h_stdin=$dsh_h'',
      js ''dsh_readline; dsh_h_outspill=$dsh_h'',
      js ''dsh_readline; dsh_h_errspill=$dsh_h'',
      js ''dsh_readline'',
      js ''[ "$dsh_h" = "END" ] || dsh_fail "bad header terminator"'',
      js ''case "$dsh_h_stdin" in'',
      js ''  ignore|-) ;;'',
      js ''  *) dsh_fail "bad stdin mode" ;;'',
      js ''esac'',
      js ''printf '%s' "$dsh_h_env" | base64 -d > "$dsh_dir/environment" 2>/dev/null || dsh_fail "bad environment encoding"'',
      js ''chmod 600 -- "$dsh_dir/environment" 2>/dev/null'',
      js ''mapfile -d '' @ [39, 39] @ js '' -t dsh_argv < <(printf '%s' "$dsh_h_argv" | base64 -d 2>/dev/null)'',
      js ''[ "${#dsh_argv[@]}" -ge 1 ] || dsh_fail "empty argv"'',
      js ''dsh_cwd=$(printf '%s' "$dsh_h_cwd" | base64 -d 2>/dev/null)'',
      js ''[ -n "$dsh_cwd" ] || dsh_fail "bad cwd encoding"'',
      js ''cd -- "$dsh_cwd" 2>/dev/null || dsh_fail "cannot chdir: $dsh_cwd"'',
      js ''exec bash -c '' @ (sq SPAWN_INNER) @ js '' dsh-ssh-inner "$dsh_dir" "$dsh_h_outspill" "$dsh_h_errspill" "$dsh_h_stdin" "${dsh_argv[@]}"'',
      []]
     [10]\<close>

definition TERMINAL_WRAPPER :: jstr where
  \<open>TERMINAL_WRAPPER = join
     [TERMINAL_WRAPPER_MARKER,
      js ''set +e'',
      js ''dsh_id=$1'',
      js ''dsh_root=$2'',
      js ''dsh_dir="$dsh_root/terminals/$dsh_id"'',
      js ''dsh_fail() {'',
      js ''  printf '%s'',
      [39] @ js '' "$1" > "$dsh_dir/error" 2>/dev/null'',
      js ''  exit 125'',
      js ''}'',
      js ''mapfile -d '' @ [39, 39] @ js '' -t dsh_argv < "$dsh_dir/argv" || dsh_fail 'cannot read argv setup'' @ [39],
      js ''mapfile -d '' @ [39, 39] @ js '' -t dsh_env < "$dsh_dir/environment" || dsh_fail 'cannot read environment setup'' @ [39],
      js ''dsh_cwd=$(cat "$dsh_dir/cwd") || dsh_fail 'cannot read cwd setup'' @ [39],
      js ''dsh_marker=$(cat "$dsh_dir/marker") || dsh_fail 'cannot read marker setup'' @ [39],
      js ''rm -f -- "$dsh_dir/argv" "$dsh_dir/environment" "$dsh_dir/cwd" "$dsh_dir/marker"'',
      js ''[ "${#dsh_argv[@]}" -ge 1 ] || dsh_fail 'empty argv setup'' @ [39],
      js ''printf '%s'' @ [92] @ js ''n' "$$" > "$dsh_dir/pid" || dsh_fail 'cannot publish pid'' @ [39],
      js ''dsh_tty=$(tty 2>/dev/null)'',
      js ''[ -n "$dsh_tty" ] || dsh_fail 'cannot determine tty'' @ [39],
      js ''printf '%s'' @ [92] @ js ''n' "${dsh_tty#/dev/}" > "$dsh_dir/tty" || dsh_fail 'cannot publish tty'' @ [39],
      js ''cd -- "$dsh_cwd" 2>/dev/null || dsh_fail "cannot chdir: $dsh_cwd"'',
      js ''printf '%s' "$dsh_marker"'',
      js ''exec env -i -- "${dsh_env[@]}" "${dsh_argv[@]}"'',
      []]
     [10]\<close>

definition buildSpawnCommand :: "jstr \<Rightarrow> jstr \<Rightarrow> jstr" where
  "buildSpawnCommand i runtimeRoot =
     js ''bash -c '' @ sq SPAWN_WRAPPER @ js '' dsh-ssh-spawn '' @ sq i @ [32] @ sq runtimeRoot"

definition buildTerminalCommand :: "jstr \<Rightarrow> jstr \<Rightarrow> jstr" where
  "buildTerminalCommand i runtimeRoot =
     js ''bash -c '' @ sq TERMINAL_WRAPPER @ js '' dsh-ssh-terminal '' @ sq i @ [32] @ sq runtimeRoot"

text \<open>The shell reads both as five words behind \<^verbatim>\<open>bash\<close>.\<close>

lemma sh_word_plain:
  "list_all sh_plain w \<Longrightarrow> sh_word False (w @ 32 # r) = Some (w, r)"
proof (induction w)
  case Nil
  show ?case by (cases r) simp_all
next
  case (Cons c w)
  then have "c \<noteq> 39" "c \<noteq> 92" "c \<noteq> 32" by (auto simp: sh_plain_def)
  with Cons show ?case by (cases "w @ 32 # r") auto
qed

lemma sh_words_plain: "list_all sh_plain w \<Longrightarrow> w \<noteq> [] \<Longrightarrow> sh_words (w @ 32 # r) = map_option ((#) w) (sh_words r)"
  using sh_word_plain[of w r] by (cases w) auto

lemma sh_words_quoted: "sh_words (sq v @ 32 # r) = map_option ((#) v) (sh_words r)" "sh_words (sq v) = Some [v]"
  using sh_word_sq[of v r] sh_word_sq_end[of v] by (auto simp: sq_sq_body)

lemma sh_words_bash:
  "sh_words (js ''bash -c '' @ sq script @ js '' dsh-ssh-spawn '' @ sq i @ [32] @ sq root) =
     Some [js ''bash'', js ''-c'', script, js ''dsh-ssh-spawn'', i, root]"
  "sh_words (js ''bash -c '' @ sq script @ js '' dsh-ssh-terminal '' @ sq i @ [32] @ sq root) =
     Some [js ''bash'', js ''-c'', script, js ''dsh-ssh-terminal'', i, root]"
proof -
  have split: "js ''bash -c '' = js ''bash'' @ 32 # js ''-c'' @ [32]"
    "js '' dsh-ssh-spawn '' = 32 # js ''dsh-ssh-spawn'' @ [32]" "js '' dsh-ssh-terminal '' = 32 # js ''dsh-ssh-terminal'' @ [32]"
    by (simp_all add: js_def)
  have plain: "list_all sh_plain (js ''bash'')" "list_all sh_plain (js ''-c'')"
    "list_all sh_plain (js ''dsh-ssh-spawn'')" "list_all sh_plain (js ''dsh-ssh-terminal'')"
    by (simp_all add: js_def sh_plain_def)
  have ne: "js ''bash'' \<noteq> []" "js ''-c'' \<noteq> []" "js ''dsh-ssh-spawn'' \<noteq> []" "js ''dsh-ssh-terminal'' \<noteq> []"
    by (simp_all add: js_def)
  note rules = sh_words_plain[OF plain(1) ne(1)] sh_words_plain[OF plain(2) ne(2)] sh_words_plain[OF plain(3) ne(3)]
    sh_words_plain[OF plain(4) ne(4)] sh_words_quoted
  show "sh_words (js ''bash -c '' @ sq script @ js '' dsh-ssh-spawn '' @ sq i @ [32] @ sq root) =
     Some [js ''bash'', js ''-c'', script, js ''dsh-ssh-spawn'', i, root]"
    unfolding split by (simp add: rules del: sh_words.simps js_Cons)
  show "sh_words (js ''bash -c '' @ sq script @ js '' dsh-ssh-terminal '' @ sq i @ [32] @ sq root) =
     Some [js ''bash'', js ''-c'', script, js ''dsh-ssh-terminal'', i, root]"
    unfolding split by (simp add: rules del: sh_words.simps js_Cons)
qed

lemma spawn_command_words:
  "sh_words (buildSpawnCommand i root) = Some [js ''bash'', js ''-c'', SPAWN_WRAPPER, js ''dsh-ssh-spawn'', i, root]"
  "sh_words (buildTerminalCommand i root) = Some [js ''bash'', js ''-c'', TERMINAL_WRAPPER, js ''dsh-ssh-terminal'', i, root]"
  by (simp_all only: buildSpawnCommand_def buildTerminalCommand_def sh_words_bash)

end
