(* ===== verification/FrameOutput.thy ===== *)
theory FrameOutput
  imports Framing "HOL-Library.Sublist"
begin

text \<open>
  Output of a remote process (\<^verbatim>\<open>subprocess-ssh/src/output.ts\<close>, and \<open>pump\<close> of \<^verbatim>\<open>process.ts\<close>): the decoder of
  the frame lines the remote wrapper prints, and the bounded tail of a collected stream. A callback
  of the decoder is an event; a \<open>push\<close> returns the decoded bytes or throws.
\<close>

section \<open>The frame decoder\<close>

text \<open>\<open>BASE64_LINE\<close>: \<^verbatim>\<open>/^[A-Za-z0-9+/]+={0,2}$/\<close>\<close>

definition b64_alpha :: "nat \<Rightarrow> bool" where
  "b64_alpha c \<longleftrightarrow> 65 \<le> c \<and> c \<le> 90 \<or> 97 \<le> c \<and> c \<le> 122 \<or> 48 \<le> c \<and> c \<le> 57 \<or> c = 43 \<or> c = 47"

definition BASE64_LINE :: "jstr \<Rightarrow> bool" where
  "BASE64_LINE s \<longleftrightarrow> takeWhile b64_alpha s \<noteq> [] \<and> dropWhile b64_alpha s \<in> {[], [61], [61, 61]}"

datatype frame_event = Control jstr | Diagnostic jstr

text \<open>Which callbacks the constructor was given, and the text after the last newline.\<close>

record frame_decoder =
  fd_onControl :: bool
  fd_onDiagnostic :: bool
  fd_pending :: jstr

definition FrameDecoder :: "bool \<Rightarrow> bool \<Rightarrow> frame_decoder" where
  "FrameDecoder c d = \<lparr>fd_onControl = c, fd_onDiagnostic = d, fd_pending = []\<rparr>"

definition chop_cr :: "jstr \<Rightarrow> jstr" where
  "chop_cr s = (if s \<noteq> [] \<and> last s = 13 then butlast s else s)"

text \<open>One complete line: the callback made, and the bytes or a throw (\<open>None\<close>).\<close>

definition read_frame :: "frame_decoder \<Rightarrow> jstr \<Rightarrow> frame_event list \<times> bytes option" where
  "read_frame fd raw =
     (let frame = chop_cr raw in
      if frame = [] then ([], Some [])
      else if hd frame = 33 then (if fd_onControl fd then [Control frame] else [], Some [])
      else if \<not> BASE64_LINE frame then (if fd_onDiagnostic fd then [Diagnostic frame] else [], Some [])
      else if b64_encode (b64_decode frame) \<noteq> frame then ([], None)
      else ([], Some (b64_decode frame)))"

text \<open>The loop of \<open>push\<close>: what is left in \<open>pending\<close>, the callbacks, and the bytes unless it throws.\<close>

function take_frames :: "frame_decoder \<Rightarrow> jstr \<Rightarrow> jstr \<times> frame_event list \<times> bytes option" where
  "take_frames fd s =
     (case next_line s of
        None \<Rightarrow> (s, [], Some [])
      | Some (raw, rest) \<Rightarrow>
          (case read_frame fd raw of
             (ev, None) \<Rightarrow> (rest, ev, None)
           | (ev, Some bs) \<Rightarrow>
               (case take_frames fd rest of (tail, ev', out) \<Rightarrow> (tail, ev @ ev', map_option ((@) bs) out))))"
  by pat_completeness auto
termination
  by (relation "measure (\<lambda>(fd, s). length s)") (auto dest: next_line_length)

declare take_frames.simps [simp del]

definition invalid_transport :: jstr where
  "invalid_transport = js ''subprocess-ssh: invalid base64 output transport''"

definition truncated_transport :: jstr where
  "truncated_transport = js ''subprocess-ssh: truncated base64 output transport''"

definition frames_push :: "frame_decoder \<Rightarrow> jstr \<Rightarrow> frame_decoder \<times> frame_event list \<times> (jstr + bytes)" where
  "frames_push fd s =
     (if s = [] then (fd, [], Inr [])
      else (case take_frames fd (fd_pending fd @ s) of
              (tail, ev, out) \<Rightarrow>
                (fd\<lparr>fd_pending := tail\<rparr>, ev,
                 case out of None \<Rightarrow> Inl invalid_transport | Some bs \<Rightarrow> Inr bs)))"

definition frames_finish :: "frame_decoder \<Rightarrow> bool \<Rightarrow> frame_decoder \<times> (jstr + unit)" where
  "frames_finish fd requireComplete =
     (if \<not> requireComplete then (fd\<lparr>fd_pending := []\<rparr>, Inr ())
      else (fd, if blank (fd_pending fd) then Inr () else Inl truncated_transport))"

text \<open>
  \<open>pump\<close>: chunks of channel bytes go through a streaming UTF-8 decoder into the frame decoder, what it
  returns is dispatched, and the end of the channel is checked. The first throw ends the pump, its
  message is the transport error of the handle.
\<close>

datatype pump_event = Callback frame_event | Dispatch bytes

definition dispatch :: "bytes \<Rightarrow> pump_event list" where
  "dispatch bs = (if bs = [] then [] else [Dispatch bs])"

definition pump_text :: "frame_decoder \<Rightarrow> jstr \<Rightarrow> frame_decoder \<times> pump_event list \<times> jstr option" where
  "pump_text fd s =
     (case frames_push fd s of
        (fd', ev, Inl e) \<Rightarrow> (fd', map Callback ev, Some e)
      | (fd', ev, Inr bs) \<Rightarrow> (fd', map Callback ev @ dispatch bs, None))"

fun pump_chunks :: "text_decoder \<Rightarrow> frame_decoder \<Rightarrow> bytes list \<Rightarrow>
    text_decoder \<times> frame_decoder \<times> pump_event list \<times> jstr option" where
  "pump_chunks td fd [] = (td, fd, [], None)"
| "pump_chunks td fd (chunk # cs) =
     (case td_run td chunk of
        (td1, u) \<Rightarrow>
          (case pump_text fd u of
             (fd1, ev, Some e) \<Rightarrow> (td1, fd1, ev, Some e)
           | (fd1, ev, None) \<Rightarrow>
               (case pump_chunks td1 fd1 cs of (td2, fd2, ev2, e) \<Rightarrow> (td2, fd2, ev @ ev2, e))))"

definition pump :: "frame_decoder \<Rightarrow> bytes list \<Rightarrow> bool \<Rightarrow> pump_event list \<times> jstr option" where
  "pump fd chunks requireComplete =
     (case pump_chunks td_new fd chunks of
        (_, _, ev, Some e) \<Rightarrow> (ev, Some e)
      | (td, fd1, ev, None) \<Rightarrow>
          (let tail = snd (td_flush td) in
           case (if tail = [] then (fd1, [], None) else pump_text fd1 tail) of
             (fd2, ev2, Some e) \<Rightarrow> (ev @ ev2, Some e)
           | (fd2, ev2, None) \<Rightarrow>
               (ev @ ev2, case snd (frames_finish fd2 requireComplete) of Inl e \<Rightarrow> Some e | Inr _ \<Rightarrow> None)))"

section \<open>The collected tail\<close>

record tail_reader =
  tr_maxBytes :: nat
  tr_maxSpillBytes :: "nat option"
  tr_spillPath :: jstr
  tr_chunks :: "bytes list"
  tr_retained :: nat
  tr_total :: nat
  tr_spillValid :: bool

definition TailOutputReader :: "nat \<Rightarrow> nat option \<Rightarrow> jstr \<Rightarrow> tail_reader" where
  "TailOutputReader m sp path =
     \<lparr>tr_maxBytes = m, tr_maxSpillBytes = sp, tr_spillPath = path, tr_chunks = [], tr_retained = 0,
      tr_total = 0, tr_spillValid = True\<rparr>"

definition invalidateSpill :: "tail_reader \<Rightarrow> tail_reader" where
  "invalidateSpill tr = tr\<lparr>tr_spillValid := False\<rparr>"

text \<open>The loop that drops the head; \<open>None\<close> is the read of an absent chunk.\<close>

fun drop_head :: "nat \<Rightarrow> bytes list \<Rightarrow> nat \<Rightarrow> (bytes list \<times> nat) option" where
  "drop_head m cs retained =
     (if retained \<le> m then Some (cs, retained)
      else (case cs of
              [] \<Rightarrow> None
            | front # cs' \<Rightarrow>
                let excess = retained - m in
                if length front \<le> excess then drop_head m cs' (retained - length front)
                else Some (drop excess front # cs', retained - excess)))"

declare drop_head.simps [simp del]

definition tail_push :: "tail_reader \<Rightarrow> bytes \<Rightarrow> tail_reader option" where
  "tail_push tr bs =
     (if bs = [] then Some tr
      else (case drop_head (tr_maxBytes tr) (tr_chunks tr @ [bs]) (tr_retained tr + length bs) of
              None \<Rightarrow> None
            | Some (cs, n) \<Rightarrow>
                Some (tr\<lparr>tr_total := tr_total tr + length bs, tr_chunks := cs, tr_retained := n\<rparr>)))"

text \<open>\<open>Buffer.toString('utf8')\<close>, which keeps a byte order mark.\<close>

definition buffer_text :: "bytes \<Rightarrow> jstr" where
  "buffer_text bs = (case td_run (td_idle True) bs of (td, u) \<Rightarrow> u @ snd (td_flush td))"

record SubprocessOutputRead =
  or_text :: jstr
  or_nextOffset :: nat
  or_lossy :: bool
  or_spillPath :: "jstr option"

definition readFrom :: "tail_reader \<Rightarrow> int \<Rightarrow> SubprocessOutputRead" where
  "readFrom tr fromByte =
     (let retained = take (tr_retained tr) (concat (tr_chunks tr));
          firstRetained = int (tr_total tr) - int (tr_retained tr);
          lossy = fromByte < firstRetained;
          start = (if lossy then 0 else min (int (length retained)) (max 0 (fromByte - firstRetained)))
      in \<lparr>or_text = buffer_text (drop (nat start) retained), or_nextOffset = tr_total tr, or_lossy = lossy,
          or_spillPath =
            (case tr_maxSpillBytes tr of
               Some m \<Rightarrow> if lossy \<and> tr_spillValid tr \<and> tr_total tr \<le> m then Some (tr_spillPath tr) else None
             | None \<Rightarrow> None)\<rparr>)"

section \<open>Lines\<close>

lemma take_frames_partial: "10 \<notin> set s \<Longrightarrow> take_frames fd s = (s, [], Some [])"
  by (subst take_frames.simps) (simp add: next_line_def)

lemma take_frames_line:
  assumes "10 \<notin> set raw"
  shows "take_frames fd (raw @ 10 # s) =
     (case read_frame fd raw of
        (ev, None) \<Rightarrow> (s, ev, None)
      | (ev, Some bs) \<Rightarrow>
          (case take_frames fd s of (tail, ev', out) \<Rightarrow> (tail, ev @ ev', map_option ((@) bs) out)))"
  by (subst take_frames.simps) (simp add: next_line_first[OF assms])

lemma take_frames_pending:
  "take_frames fd s = (tail, ev, Some bs) \<Longrightarrow> 10 \<notin> set tail"
  by (induction s arbitrary: ev bs rule: line_induct)
     (auto simp: take_frames_partial take_frames_line split: prod.splits option.splits)

lemma read_frame_pending [simp]: "read_frame (fd\<lparr>fd_pending := p\<rparr>) raw = read_frame fd raw"
  by (simp add: read_frame_def Let_def)

lemma take_frames_decoder [simp]: "take_frames (fd\<lparr>fd_pending := p\<rparr>) s = take_frames fd s"
  by (induction s rule: line_induct) (simp_all add: take_frames_partial take_frames_line split: prod.split option.split)

lemma map_option_append_Nil [simp]: "map_option ((@) []) x = x" "map_option (\<lambda>a. a) x = x"
  by (cases x; simp)+

text \<open>Text that arrives later continues where the earlier text stopped.\<close>

lemma take_frames_append:
  assumes "take_frames fd s = (tail, ev, Some bs)"
  shows "take_frames fd (s @ t) =
     (case take_frames fd (tail @ t) of (tail', ev', out) \<Rightarrow> (tail', ev @ ev', map_option ((@) bs) out))"
  using assms
proof (induction s arbitrary: ev bs rule: line_induct)
  case (last s)
  then show ?case by (auto simp: take_frames_partial split: prod.split option.split)
next
  case (line raw s)
  obtain e b where rf: "read_frame fd raw = (e, Some b)"
    using line.prems by (cases "read_frame fd raw"; cases "snd (read_frame fd raw)")
      (auto simp: take_frames_line[OF line.hyps])
  obtain ev1 bs1 where tf: "take_frames fd s = (tail, ev1, Some bs1)" "ev = e @ ev1" "bs = b @ bs1"
    using line.prems rf by (cases "take_frames fd s") (auto simp: take_frames_line[OF line.hyps])
  show ?case
    using line.IH[OF tf(1)] rf tf(2,3)
    by (cases "take_frames fd (tail @ t)")
       (auto simp: take_frames_line[OF line.hyps] option.map_comp comp_def split: option.split)
qed

lemma take_frames_throw_append:
  assumes "take_frames fd s = (tail, ev, None)"
  shows "snd (snd (take_frames fd (s @ t))) = None"
  using assms
proof (induction s arbitrary: ev rule: line_induct)
  case (last s)
  then show ?case by (simp add: take_frames_partial)
next
  case (line raw s)
  then show ?case
    by (auto simp: take_frames_line[OF line.hyps] split: prod.splits option.splits)
qed

section \<open>The pump\<close>

definition callbacks_of :: "pump_event list \<Rightarrow> frame_event list" where
  "callbacks_of evs = concat (map (\<lambda>e. case e of Callback c \<Rightarrow> [c] | Dispatch _ \<Rightarrow> []) evs)"

definition bytes_of :: "pump_event list \<Rightarrow> bytes" where
  "bytes_of evs = concat (map (\<lambda>e. case e of Callback _ \<Rightarrow> [] | Dispatch bs \<Rightarrow> bs) evs)"

lemma pump_projections [simp]:
  "callbacks_of [] = []" "bytes_of [] = []"
  "callbacks_of (a @ b) = callbacks_of a @ callbacks_of b" "bytes_of (a @ b) = bytes_of a @ bytes_of b"
  "callbacks_of (map Callback ev) = ev" "bytes_of (map Callback ev) = []"
  "callbacks_of (dispatch bs) = []" "bytes_of (dispatch bs) = bs"
proof -
  show "callbacks_of (map Callback ev) = ev" by (induction ev) (simp_all add: callbacks_of_def)
  show "bytes_of (map Callback ev) = []" by (induction ev) (simp_all add: bytes_of_def)
qed (simp_all add: callbacks_of_def bytes_of_def dispatch_def)

lemma pump_text_result:
  assumes "take_frames fd (fd_pending fd @ s) = (tail, ev, Some bs)" "10 \<notin> set (fd_pending fd)"
  shows "pump_text fd s = (fd\<lparr>fd_pending := tail\<rparr>, map Callback ev @ dispatch bs, None)"
  using assms by (cases "s = []") (auto simp: pump_text_def frames_push_def take_frames_partial dispatch_def)

lemma pump_chunks_result:
  assumes "take_frames fd (fd_pending fd @ snd (td_run td (concat chunks))) = (tail, ev, Some bs)"
    and "10 \<notin> set (fd_pending fd)"
  shows "\<exists>es. pump_chunks td fd chunks = (fst (td_run td (concat chunks)), fd\<lparr>fd_pending := tail\<rparr>, es, None)
    \<and> callbacks_of es = ev \<and> bytes_of es = bs"
  using assms
proof (induction chunks arbitrary: td fd ev bs)
  case Nil
  then show ?case by (simp add: take_frames_partial)
next
  case (Cons c cs)
  obtain td1 u where u: "td_run td c = (td1, u)" by (cases "td_run td c")
  obtain v where v: "snd (td_run td1 (concat cs)) = v" by simp
  have whole: "take_frames fd ((fd_pending fd @ u) @ v) = (tail, ev, Some bs)"
    using Cons.prems(1) u v by (simp add: td_run_append split: prod.splits)
  obtain t1 e1 b1 where tf: "take_frames fd (fd_pending fd @ u) = (t1, e1, Some b1)"
  proof (cases "take_frames fd (fd_pending fd @ u)")
    case (fields t1 e1 o1)
    then show ?thesis
      using whole take_frames_throw_append[of fd "fd_pending fd @ u" t1 e1 v] that by (cases o1) auto
  qed
  obtain t2 e2 b2 where tf2: "take_frames fd (t1 @ v) = (t2, e2, Some b2)" "tail = t2" "ev = e1 @ e2" "bs = b1 @ b2"
    using whole take_frames_append[OF tf, of v] by (cases "take_frames fd (t1 @ v)"; cases "snd (snd (take_frames fd (t1 @ v)))") auto
  let ?fd = "fd\<lparr>fd_pending := t1\<rparr>"
  have "take_frames ?fd (fd_pending ?fd @ snd (td_run td1 (concat cs))) = (tail, e2, Some b2)"
    using tf2 v by simp
  from Cons.IH[OF this] take_frames_pending[OF tf]
  obtain es where "pump_chunks td1 ?fd cs = (fst (td_run td1 (concat cs)), ?fd\<lparr>fd_pending := tail\<rparr>, es, None)"
    "callbacks_of es = e2" "bytes_of es = b2" by auto
  then show ?case
    using u pump_text_result[OF tf Cons.prems(2)] tf2 by (auto simp: td_run_append split: prod.splits)
qed

section \<open>What the remote wrapper prints\<close>

text \<open>
  A line of its own, or output of the child through \<^verbatim>\<open>base64\<close>, which wraps after 76 characters: each
  line encodes up to 57 bytes.
\<close>

datatype wire_item = Printed jstr | Encoded bytes

function base64_lines :: "bytes \<Rightarrow> jstr" where
  "base64_lines bs = (if bs = [] then [] else b64_encode (take 57 bs) @ 10 # base64_lines (drop 57 bs))"
  by pat_completeness auto
termination by (relation "measure length") auto

declare base64_lines.simps [simp del]

fun wire :: "wire_item \<Rightarrow> jstr" where
  "wire (Printed s) = s @ [10]"
| "wire (Encoded bs) = base64_lines bs"

fun wire_ok :: "wire_item \<Rightarrow> bool" where
  "wire_ok (Printed s) \<longleftrightarrow> s \<noteq> [] \<and> hd s = 33 \<and> last s \<noteq> 13 \<and> (\<forall>c \<in> set s. c < 128 \<and> c \<noteq> 10)"
| "wire_ok (Encoded bs) \<longleftrightarrow> bytes_ok bs"

definition printed :: "wire_item list \<Rightarrow> jstr list" where
  "printed ws = concat (map (\<lambda>w. case w of Printed s \<Rightarrow> [s] | Encoded _ \<Rightarrow> []) ws)"

definition encoded :: "wire_item list \<Rightarrow> bytes" where
  "encoded ws = concat (map (\<lambda>w. case w of Printed _ \<Rightarrow> [] | Encoded bs \<Rightarrow> bs) ws)"

lemma wire_projections [simp]:
  "printed [] = []" "encoded [] = []"
  "printed (Printed s # ws) = s # printed ws" "encoded (Printed s # ws) = encoded ws"
  "printed (Encoded bs # ws) = printed ws" "encoded (Encoded bs # ws) = bs @ encoded ws"
  by (simp_all add: printed_def encoded_def)

lemma b64_char_alpha: "n < 64 \<Longrightarrow> b64_alpha (b64_char n)"
  by (auto simp: b64_alpha_def b64_char_def)

lemma b64_encode_shape:
  "bytes_ok bs \<Longrightarrow> bs \<noteq> [] \<Longrightarrow> \<exists>body pad. b64_encode bs = body @ pad \<and> body \<noteq> [] \<and> (\<forall>c \<in> set body. b64_alpha c)
     \<and> pad \<in> {[], [61], [61, 61]}"
proof (induction bs rule: b64_encode.induct)
  case (2 a)
  then show ?case
    using b64_bits[of a 0 0] b64_char_alpha
    by (intro exI[of _ "[b64_char (a div 4), b64_char (a mod 4 * 16)]"] exI[of _ "[61, 61]"]) (auto simp: bytes_ok_def)
next
  case (3 a b)
  then show ?case
    using b64_bits[of a b 0] b64_char_alpha
    by (intro exI[of _ "[b64_char (a div 4), b64_char (a mod 4 * 16 + b div 16), b64_char (b mod 16 * 4)]"] exI[of _ "[61]"])
       (auto simp: bytes_ok_def)
next
  case (4 a b c r)
  let ?q = "[b64_char (a div 4), b64_char (a mod 4 * 16 + b div 16), b64_char (b mod 16 * 4 + c div 64), b64_char (c mod 64)]"
  have q: "\<forall>x \<in> set ?q. b64_alpha x"
    using b64_bits[of a b c] b64_char_alpha 4(2) by (auto simp: bytes_ok_def)
  show ?case
  proof (cases "r = []")
    case True
    with q show ?thesis by (intro exI[of _ ?q] exI[of _ "[]"]) auto
  next
    case False
    then obtain body pad where "b64_encode r = body @ pad" "\<forall>c \<in> set body. b64_alpha c" "pad \<in> {[], [61], [61, 61]}"
      using 4 by (auto simp: bytes_ok_def)
    with q show ?thesis by (intro exI[of _ "?q @ body"] exI[of _ pad]) auto
  qed
qed simp

lemma b64_line:
  assumes "bytes_ok bs" "bs \<noteq> []"
  shows "BASE64_LINE (b64_encode bs)" "\<forall>c \<in> set (b64_encode bs). c < 128 \<and> c \<noteq> 10 \<and> c \<noteq> 13 \<and> c \<noteq> 33" "b64_encode bs \<noteq> []"
proof -
  obtain body pad where s: "b64_encode bs = body @ pad" "body \<noteq> []" "\<forall>c \<in> set body. b64_alpha c" "pad \<in> {[], [61], [61, 61]}"
    using b64_encode_shape[OF assms] by blast
  have "\<not> b64_alpha 61" by (simp add: b64_alpha_def)
  with s show "BASE64_LINE (b64_encode bs)"
    by (auto simp: BASE64_LINE_def takeWhile_append dropWhile_append)
  show "\<forall>c \<in> set (b64_encode bs). c < 128 \<and> c \<noteq> 10 \<and> c \<noteq> 13 \<and> c \<noteq> 33"
    using s by (auto simp: b64_alpha_def)
  show "b64_encode bs \<noteq> []" using s by simp
qed

lemma read_frame_encoded:
  assumes "bytes_ok bs" "bs \<noteq> []"
  shows "read_frame fd (b64_encode bs) = ([], Some bs)"
proof -
  note l = b64_line[OF assms]
  have "last (b64_encode bs) \<noteq> 13" "hd (b64_encode bs) \<noteq> 33" using l by (metis last_in_set, metis hd_in_set)
  then show ?thesis
    using l b64_roundtrip[OF assms(1)] by (simp add: read_frame_def chop_cr_def)
qed

lemma bytes_ok_parts: "bytes_ok bs \<Longrightarrow> bytes_ok (take n bs) \<and> bytes_ok (drop n bs)"
  by (auto simp: bytes_ok_def dest: in_set_takeD in_set_dropD)

lemma take_frames_base64:
  "bytes_ok bs \<Longrightarrow> take_frames fd (base64_lines bs @ s) =
     (case take_frames fd s of (tail, ev, out) \<Rightarrow> (tail, ev, map_option ((@) bs) out))"
proof (induction bs rule: base64_lines.induct)
  case (1 bs)
  show ?case
  proof (cases "bs = []")
    case True
    then show ?thesis by (subst base64_lines.simps) (auto split: prod.split)
  next
    case False
    note t = bytes_ok_parts[OF 1(2), of 57] have ne: "take 57 bs \<noteq> []" using False by simp
    have "10 \<notin> set (b64_encode (take 57 bs))" using b64_line(2)[OF conjunct1[OF t] ne] by blast
    moreover have "(@) (take 57 bs) \<circ> (@) (drop 57 bs) = (@) bs" by (simp add: fun_eq_iff flip: append_assoc)
    ultimately show ?thesis
      using False 1(1)[OF False] t read_frame_encoded[OF conjunct1[OF t] ne, of fd]
      by (subst base64_lines.simps)
         (simp add: take_frames_line option.map_comp split: prod.split)
  qed
qed

lemma take_frames_wire:
  "list_all wire_ok ws \<Longrightarrow> fd_onControl fd \<Longrightarrow> fd_onDiagnostic fd \<Longrightarrow>
   take_frames fd (concat (map wire ws)) = ([], map Control (printed ws), Some (encoded ws))"
proof (induction ws)
  case Nil
  then show ?case by (simp add: take_frames_partial)
next
  case (Cons w ws)
  then have IH: "take_frames fd (concat (map wire ws)) = ([], map Control (printed ws), Some (encoded ws))" by simp
  show ?case
  proof (cases w)
    case (Printed s)
    then have s: "s \<noteq> []" "hd s = 33" "last s \<noteq> 13" "10 \<notin> set s" using Cons.prems by auto
    then have "read_frame fd s = ([Control s], Some [])"
      using Cons.prems by (simp add: read_frame_def chop_cr_def)
    then show ?thesis using Printed s IH by (simp add: take_frames_line)
  next
    case (Encoded bs)
    then show ?thesis using Cons.prems IH by (simp add: take_frames_base64)
  qed
qed

lemma base64_lines_ascii: "bytes_ok bs \<Longrightarrow> \<forall>c \<in> set (base64_lines bs). c < 128"
proof (induction bs rule: base64_lines.induct)
  case (1 bs)
  show ?case
  proof (cases "bs = []")
    case False
    note t = bytes_ok_parts[OF 1(2), of 57]
    have "\<forall>c \<in> set (b64_encode (take 57 bs)). c < 128" using b64_line(2)[of "take 57 bs"] t False by simp
    then show ?thesis using 1(1)[OF False] t by (subst base64_lines.simps) auto
  qed (simp add: base64_lines.simps)
qed

lemma wire_ascii: "list_all wire_ok ws \<Longrightarrow> \<forall>c \<in> set (concat (map wire ws)). c < 128"
proof (induction ws)
  case (Cons w ws)
  then show ?case using base64_lines_ascii by (cases w) auto
qed simp

lemma td_run_ascii: "\<forall>c \<in> set bs. c < 128 \<Longrightarrow> td_run (td_idle bom) bs = (td_idle (bom \<or> bs \<noteq> []), bs)"
  by (induction bs arbitrary: bom) (auto simp: td_step_def td_start_def td_emit_def cp_units_def)

lemma pump_ascii:
  assumes "\<forall>c \<in> set (concat chunks). c < 128"
    and "take_frames fd (concat chunks) = (tail, ev, Some bs)" and "fd_pending fd = []"
  shows "\<exists>es. pump fd chunks r = (es, if r \<and> \<not> blank tail then Some truncated_transport else None)
    \<and> callbacks_of es = ev \<and> bytes_of es = bs"
proof -
  have td: "td_run td_new (concat chunks) = (td_idle (concat chunks \<noteq> []), concat chunks)"
    unfolding td_new_def using td_run_ascii[OF assms(1), of False] by simp
  have "take_frames fd (fd_pending fd @ snd (td_run td_new (concat chunks))) = (tail, ev, Some bs)"
    using td assms(2,3) by simp
  from pump_chunks_result[OF this] assms(3) td
  obtain es where "pump_chunks td_new fd chunks = (td_idle (concat chunks \<noteq> []), fd\<lparr>fd_pending := tail\<rparr>, es, None)"
    "callbacks_of es = ev" "bytes_of es = bs" by auto
  then show ?thesis by (simp add: pump_def td_flush_def frames_finish_def)
qed



text \<open>
  A line of base64 letters that is no canonical base64 text, as a diagnostic of one word may be, is
  not routed to the diagnostics but ends the transport.
\<close>

lemma word_diagnostic_throws: "pump (FrameDecoder True True) [js ''Killed'' @ [10]] True = ([], Some invalid_transport)"
proof -
  have f: "read_frame (FrameDecoder True True) (js ''Killed'') = ([], None)"
    by (simp add: read_frame_def chop_cr_def BASE64_LINE_def b64_alpha_def js_def b64_decode_def map_filter_def
        b64_val_def b64_char_def)
  have n: "10 \<notin> set (js ''Killed'')" by (simp add: js_def)
  have "take_frames (FrameDecoder True True) (js ''Killed'' @ 10 # []) = ([], [], None)"
    by (simp add: take_frames_line[OF n] f)
  moreover have "td_run td_new (js ''Killed'' @ [10]) = (td_idle True, js ''Killed'' @ [10])"
    unfolding td_new_def by (subst td_run_ascii) (simp_all add: js_def)
  ultimately show ?thesis
    by (simp add: pump_def pump_text_def frames_push_def FrameDecoder_def)
qed

section \<open>Reading the tail\<close>

fun tail_pushes :: "tail_reader \<Rightarrow> bytes list \<Rightarrow> tail_reader option" where
  "tail_pushes tr [] = Some tr"
| "tail_pushes tr (c # cs) = (case tail_push tr c of None \<Rightarrow> None | Some tr' \<Rightarrow> tail_pushes tr' cs)"

definition tail_inv :: "tail_reader \<Rightarrow> bytes \<Rightarrow> bool" where
  "tail_inv tr stream \<longleftrightarrow> tr_total tr = length stream \<and> tr_retained tr = min (tr_maxBytes tr) (length stream)
     \<and> concat (tr_chunks tr) = drop (length stream - tr_maxBytes tr) stream"

lemma drop_head_result:
  "n = length (concat cs) \<Longrightarrow> \<exists>cs'. drop_head m cs n = Some (cs', min m n) \<and> concat cs' = drop (n - m) (concat cs)"
proof (induction cs arbitrary: n)
  case Nil
  then show ?case by (simp add: drop_head.simps)
next
  case (Cons c cs)
  show ?case
  proof (cases "n \<le> m")
    case True
    then show ?thesis by (simp add: drop_head.simps)
  next
    case False
    then show ?thesis
      using Cons.IH[of "n - length c"] Cons.prems
      by (subst drop_head.simps) (auto simp: Let_def)
  qed
qed

lemma tail_push_inv:
  assumes "tail_inv tr stream"
  shows "\<exists>tr'. tail_push tr bs = Some tr' \<and> tail_inv tr' (stream @ bs) \<and> tr_maxBytes tr' = tr_maxBytes tr
    \<and> tr_maxSpillBytes tr' = tr_maxSpillBytes tr \<and> tr_spillPath tr' = tr_spillPath tr \<and> tr_spillValid tr' = tr_spillValid tr"
proof (cases "bs = []")
  case True
  then show ?thesis using assms by (simp add: tail_push_def)
next
  case False
  let ?n = "tr_retained tr + length bs" and ?m = "tr_maxBytes tr"
  have "?n = length (concat (tr_chunks tr @ [bs]))" using assms by (simp add: tail_inv_def min_def)
  from drop_head_result[OF this, of ?m]
  obtain cs where cs: "drop_head ?m (tr_chunks tr @ [bs]) ?n = Some (cs, min ?m ?n)"
    "concat cs = drop (?n - ?m) (concat (tr_chunks tr @ [bs]))" by blast
  have "concat (tr_chunks tr @ [bs]) = drop (length stream - ?m) (stream @ bs)" using assms by (simp add: tail_inv_def)
  moreover have "?n - ?m + (length stream - ?m) = length stream + length bs - ?m" using assms by (auto simp: tail_inv_def)
  ultimately have "concat cs = drop (length stream + length bs - ?m) (stream @ bs)"
    using cs(2) by (simp del: drop_append)
  then have "concat cs = drop (length (stream @ bs) - ?m) (stream @ bs)" by (simp del: drop_append)
  moreover have "min ?m ?n = min ?m (length (stream @ bs))" using assms by (auto simp: tail_inv_def)
  ultimately show ?thesis
    using assms cs(1) False by (simp add: tail_push_def tail_inv_def del: drop_append)
qed

lemma tail_pushes_inv:
  assumes "tail_inv tr stream"
  shows "\<exists>tr'. tail_pushes tr cs = Some tr' \<and> tail_inv tr' (stream @ concat cs) \<and> tr_maxBytes tr' = tr_maxBytes tr
    \<and> tr_maxSpillBytes tr' = tr_maxSpillBytes tr \<and> tr_spillPath tr' = tr_spillPath tr \<and> tr_spillValid tr' = tr_spillValid tr"
  using assms
proof (induction cs arbitrary: tr stream)
  case (Cons c cs)
  from tail_push_inv[OF Cons.prems, of c] obtain tr1 where t: "tail_push tr c = Some tr1" "tail_inv tr1 (stream @ c)"
    "tr_maxBytes tr1 = tr_maxBytes tr" "tr_maxSpillBytes tr1 = tr_maxSpillBytes tr"
    "tr_spillPath tr1 = tr_spillPath tr" "tr_spillValid tr1 = tr_spillValid tr" by blast
  show ?case using Cons.IH[OF t(2)] t by simp
qed simp

text \<open>
  C37: A collected stream is its last \<open>maxBytes\<close> bytes: whatever chunks arrived, no more is held, and
  \<open>readFrom\<close> returns what was written since the offset asked for, or the whole tail marked lossy
  exactly when the offset has left it. The spill file is offered only to a lossy reader, while it is
  valid and holds the complete stream.
\<close>

theorem tail_reader_spec:
  "\<exists>tr. tail_pushes (TailOutputReader m sp path) chunks = Some tr \<and> length (concat (tr_chunks tr)) \<le> m \<and>
    (\<forall>n. let stream = concat chunks; first = length stream - m in
      readFrom tr n = \<lparr>or_text = buffer_text (drop (if n < int first then first else nat n) stream),
        or_nextOffset = length stream, or_lossy = n < int first,
        or_spillPath = (if n < int first \<and> sp \<noteq> None \<and> length stream \<le> the sp then Some path else None)\<rparr> \<and>
      or_spillPath (readFrom (invalidateSpill tr) n) = None)"
proof -
  have "tail_inv (TailOutputReader m sp path) []" by (simp add: tail_inv_def TailOutputReader_def)
  from tail_pushes_inv[OF this, of chunks]
  obtain tr where tr: "tail_pushes (TailOutputReader m sp path) chunks = Some tr" "tail_inv tr (concat chunks)"
    "tr_maxBytes tr = m" "tr_maxSpillBytes tr = sp" "tr_spillPath tr = path" "tr_spillValid tr"
    by (auto simp: TailOutputReader_def)
  let ?s = "concat chunks" and ?f = "length (concat chunks) - m"
  have inv: "tr_total tr = length ?s" "tr_retained tr = min m (length ?s)" "concat (tr_chunks tr) = drop ?f ?s"
    using tr(2,3) by (simp_all add: tail_inv_def)
  have off: "nat (min (int (length ?s - ?f)) (max 0 (n - int ?f))) + ?f = min (length ?s) (nat n)" if "\<not> n < int ?f" for n
    using that by linarith
  have cut: "drop (min (length ?s) k) ?s = drop k ?s" for k by (simp add: min_def)
  have "readFrom tr n = \<lparr>or_text = buffer_text (drop (if n < int ?f then ?f else nat n) ?s),
      or_nextOffset = length ?s, or_lossy = n < int ?f,
      or_spillPath = (if n < int ?f \<and> sp \<noteq> None \<and> length ?s \<le> the sp then Some path else None)\<rparr>" for n
  proof -
    have "int (length ?s) - int (min m (length ?s)) = int ?f" by (simp add: min_def)
    then show ?thesis
      using off[of n] cut[of "nat n"] tr(4-6)
      by (auto simp: readFrom_def inv Let_def min_def split: option.split)
  qed
  moreover have "or_spillPath (readFrom (invalidateSpill tr) n) = None" for n
    by (simp add: readFrom_def invalidateSpill_def Let_def split: option.split)
  ultimately show ?thesis using tr(1) inv by (auto simp: Let_def)
qed

text \<open>Two reads that meet within a character return two replacement characters instead of it.\<close>

lemma reads_split_character:
  "\<exists>tr1 tr2. tail_pushes (TailOutputReader 100 None []) [[195]] = Some tr1 \<and> tail_push tr1 [169] = Some tr2 \<and>
     or_text (readFrom tr1 0) = [65533] \<and> or_text (readFrom tr2 (int (or_nextOffset (readFrom tr1 0)))) = [65533] \<and>
     or_text (readFrom tr2 0) = [233]"
proof -
  have b: "buffer_text [195] = [65533]" "buffer_text [169] = [65533]" "buffer_text [195, 169] = [233]"
    by (simp_all add: buffer_text_def td_step_def td_start_def td_emit_def td_flush_def cp_units_def)
  define tr1 where "tr1 = (TailOutputReader 100 None [])\<lparr>tr_total := 1, tr_chunks := [[195]], tr_retained := 1\<rparr>"
  define tr2 where "tr2 = tr1\<lparr>tr_total := 2, tr_chunks := [[195], [169]], tr_retained := 2\<rparr>"
  have "tail_pushes (TailOutputReader 100 None []) [[195]] = Some tr1"
    by (simp add: tail_push_def TailOutputReader_def drop_head.simps tr1_def)
  moreover have "tail_push tr1 [169] = Some tr2"
    by (simp add: tail_push_def TailOutputReader_def drop_head.simps tr1_def tr2_def)
  ultimately show ?thesis
    using b by (auto simp: readFrom_def Let_def tr1_def tr2_def TailOutputReader_def)
qed

end
