(* ===== verification/SpawnWire.thy ===== *)
theory SpawnWire
  imports SpawnScripts FrameOutput
begin

text \<open>
  How a spawn request reaches the remote child (\<^verbatim>\<open>subprocess-ssh/src/environment.ts\<close>, the header codec and the
  status text of \<^verbatim>\<open>wrapper.ts\<close>, the checks of \<^verbatim>\<open>runtime.ts\<close>): the environment is probed, scrubbed and merged, the
  request is encoded in a header, the wrapper decodes it and starts \<^verbatim>\<open>env -i\<close>, and the exit status comes
  back as a text. The wrapper's side is the meaning of the lines of \<open>SPAWN_WRAPPER\<close> and \<open>SPAWN_INNER\<close>.
\<close>

section \<open>The environment\<close>

definition PROBE_VARS :: "jstr list" where
  "PROBE_VARS = map js
     [''HOME'', ''PATH'', ''USER'', ''LOGNAME'', ''SHELL'', ''LANG'', ''LC_ALL'', ''TERM'', ''TMPDIR'',
      ''http_proxy'', ''https_proxy'', ''no_proxy'', ''HTTP_PROXY'', ''HTTPS_PROXY'', ''NO_PROXY'']"

definition DEFAULT_PATH :: jstr where
  "DEFAULT_PATH = js ''/usr/local/bin:/usr/bin:/bin''"

definition ascii_upper :: "nat \<Rightarrow> nat" where
  "ascii_upper c = (if 97 \<le> c \<and> c \<le> 122 then c - 32 else c)"

text \<open>\<open>SENSITIVE_ENV_PATTERN.test(name)\<close>: \<^verbatim>\<open>/KEY|PASSWORD|SECRET|TOKEN/i\<close>\<close>

definition sensitive_env :: "jstr \<Rightarrow> bool" where
  "sensitive_env name \<longleftrightarrow>
     list_ex (\<lambda>w. indexOf (map ascii_upper name) (js w) \<noteq> None) [''KEY'', ''PASSWORD'', ''SECRET'', ''TOKEN'']"

text \<open>
  \<open>name.toUpperCase().startsWith('DSH_')\<close>; besides the ASCII letters only the long s (383) has one of
  these letters as its upper case.
\<close>

definition dsh_env :: "jstr \<Rightarrow> bool" where
  "dsh_env name \<longleftrightarrow> take 4 (map (\<lambda>c. if c = 383 then 83 else ascii_upper c) name) = js ''DSH_''"

definition scrubbed :: "jstr \<times> jstr \<Rightarrow> bool" where
  "scrubbed e \<longleftrightarrow> snd e = [] \<or> sensitive_env (fst e) \<or> dsh_env (fst e)"

definition probe :: "(jstr \<times> jstr) list \<Rightarrow> (jstr \<times> jstr) list" where
  "probe probed =
     (let env = fold (\<lambda>e m. if scrubbed e then m else AList.update (fst e) (snd e) m) probed [] in
      if map_of env (js ''PATH'') = None then AList.update (js ''PATH'') DEFAULT_PATH env else env)"

text \<open>
  \<open>base\<close>: the promise of a probe is kept per transport, a number here, also when it is rejected. The
  argument \<open>login\<close> is what \<open>probeLoginEnv\<close> gives, \<open>None\<close> a rejection.
\<close>

definition env_base :: "nat option \<Rightarrow> (jstr \<times> jstr) list option \<Rightarrow> (nat \<rightharpoonup> (jstr \<times> jstr) list option)
    \<Rightarrow> (jstr \<times> jstr) list option \<times> (nat \<rightharpoonup> (jstr \<times> jstr) list option)" where
  "env_base transport login cache =
     (case transport of
        None \<Rightarrow> (None, cache)
      | Some t \<Rightarrow>
          (case cache t of
             Some cached \<Rightarrow> (cached, cache)
           | None \<Rightarrow> (let p = map_option probe login in (p, cache(t \<mapsto> p)))))"

definition bad_entry :: "jstr \<times> jstr option \<Rightarrow> bool" where
  "bad_entry e \<longleftrightarrow> fst e = [] \<or> 61 \<in> set (fst e) \<or> 0 \<in> set (fst e) \<or> (\<exists>v. snd e = Some v \<and> 0 \<in> set v)"

lemma bad_entry_code [code]:
  "bad_entry e \<longleftrightarrow> fst e = [] \<or> 61 \<in> set (fst e) \<or> 0 \<in> set (fst e) \<or> (case snd e of None \<Rightarrow> False | Some v \<Rightarrow> 0 \<in> set v)"
  by (auto simp: bad_entry_def split: option.split)

definition bad_environment :: jstr where
  "bad_environment =
     js ''subprocess-ssh: environment entries require non-empty NUL-free names without = and NUL-free values''"

fun merge_entries :: "(jstr \<times> jstr) list \<Rightarrow> (jstr \<times> jstr option) list \<Rightarrow> jstr + (jstr \<times> jstr) list" where
  "merge_entries m [] = Inr m"
| "merge_entries m (e # es) =
     (if bad_entry e then Inl bad_environment
      else merge_entries
        (case snd e of None \<Rightarrow> AList.delete (fst e) m | Some v \<Rightarrow> AList.update (fst e) v m) es)"

definition mergeEnvironment :: "(jstr \<times> jstr) list \<Rightarrow> (jstr \<times> jstr option) list option \<Rightarrow> jstr + jstr list" where
  "mergeEnvironment base explicit =
     map_sum id (map (\<lambda>(n, v). n @ [61] @ v))
       (merge_entries base (case explicit of None \<Rightarrow> [] | Some es \<Rightarrow> es))"

section \<open>The header\<close>

record spawn_fields =
  sf_argv :: "jstr list"
  sf_env :: "jstr list"
  sf_cwd :: jstr
  sf_stdinIgnore :: bool
  sf_stdoutSpillMax :: "nat option"
  sf_stderrSpillMax :: "nat option"

definition b64 :: "jstr \<Rightarrow> jstr" where
  "b64 s = b64_encode (utf8 s)"

definition nul_terminated :: "jstr list \<Rightarrow> jstr" where
  "nul_terminated xs = concat (map (\<lambda>x. x @ [0]) xs)"

definition spill_text :: "nat option \<Rightarrow> jstr" where
  "spill_text m = (case m of None \<Rightarrow> js ''-'' | Some n \<Rightarrow> digits n)"

definition encodeSpawnHeader :: "spawn_fields \<Rightarrow> jstr" where
  "encodeSpawnHeader f = join
     [HEADER_MAGIC,
      b64 (nul_terminated (sf_argv f)),
      b64 (nul_terminated (sf_env f)),
      b64 (sf_cwd f),
      if sf_stdinIgnore f then js ''ignore'' else js ''-'',
      spill_text (sf_stdoutSpillMax f),
      spill_text (sf_stderrSpillMax f),
      js ''END'',
      []] [10]"

text \<open>\<open>validateSpawnSpec\<close>; the argument \<open>grace\<close> tells whether \<open>graceMs\<close> is finite and positive.\<close>

definition validateSpawnSpec :: "jstr list \<Rightarrow> jstr \<Rightarrow> bool \<Rightarrow> jstr option" where
  "validateSpawnSpec argv cwd grace =
     (if argv = [] then Some (js ''subprocess-ssh: argv must be non-empty'')
      else if list_ex (\<lambda>a. 0 \<in> set a) argv then Some (js ''subprocess-ssh: argv entries must not contain NUL bytes'')
      else if cwd = [] then Some (js ''subprocess-ssh: cwd must be a non-empty string'')
      else if \<not> grace then Some (js ''subprocess-ssh: graceMs must be a positive finite number'')
      else None)"

section \<open>The wrapper\<close>

text \<open>\<open>read -r\<close> of one line; \<open>mapfile -d ''\<close>: the strings between NUL bytes; \<open>base64 -d\<close> of canonical text.\<close>

function mapfile :: "bytes \<Rightarrow> bytes list" where
  "mapfile bs = (if bs = [] then []
     else takeWhile (\<lambda>b. b \<noteq> 0) bs # mapfile (tl (dropWhile (\<lambda>b. b \<noteq> 0) bs)))"
  by pat_completeness auto
termination
proof (relation "measure length")
  fix bs :: bytes assume "bs \<noteq> []"
  then show "(tl (dropWhile (\<lambda>b. b \<noteq> 0) bs), bs) \<in> measure length"
    using length_dropWhile_le[of "\<lambda>b. b \<noteq> 0" bs] by (cases bs) auto
qed simp

declare mapfile.simps [simp del]

definition base64_d :: "bytes \<Rightarrow> bytes option" where
  "base64_d s = (let bs = b64_decode s in if b64_encode bs = s then Some bs else None)"

text \<open>\<open>$(...)\<close> drops NUL bytes and the newlines at the end.\<close>

definition command_subst :: "bytes \<Rightarrow> bytes" where
  "command_subst bs = rev (dropWhile (\<lambda>b. b = 10) (rev (filter (\<lambda>b. b \<noteq> 0) bs)))"

fun read_lines :: "nat \<Rightarrow> bytes \<Rightarrow> (bytes list \<times> bytes) option" where
  "read_lines 0 s = Some ([], s)"
| "read_lines (Suc n) s =
     (case next_line s of
        None \<Rightarrow> None
      | Some (l, r) \<Rightarrow> map_option (\<lambda>(ls, r'). (l # ls, r')) (read_lines n r))"

record received =
  rc_argv :: "bytes list"
  rc_environment :: bytes
  rc_cwd :: bytes
  rc_ignore :: bool
  rc_outspill :: bytes
  rc_errspill :: bytes
  rc_stdin :: bytes

text \<open>\<open>SPAWN_WRAPPER\<close> behind its tool checks; \<open>chdir\<close> tells whether \<open>cd\<close> succeeds.\<close>

definition outer_wrapper :: "(bytes \<Rightarrow> bool) \<Rightarrow> bytes \<Rightarrow> jstr + received" where
  "outer_wrapper chdir inp =
     (case read_lines 8 inp of
        Some ([magic, argv, env, cwd, mode, outspill, errspill, fin], rest) \<Rightarrow>
          if magic \<noteq> HEADER_MAGIC then Inl (js ''bad header magic'')
          else if fin \<noteq> js ''END'' then Inl (js ''bad header terminator'')
          else if mode \<noteq> js ''ignore'' \<and> mode \<noteq> js ''-'' then Inl (js ''bad stdin mode'')
          else (case base64_d env of
            None \<Rightarrow> Inl (js ''bad environment encoding'')
          | Some environment \<Rightarrow>
              let args = (case base64_d argv of None \<Rightarrow> [] | Some bs \<Rightarrow> mapfile bs);
                  dir = (case base64_d cwd of None \<Rightarrow> [] | Some bs \<Rightarrow> command_subst bs) in
              if args = [] then Inl (js ''empty argv'')
              else if dir = [] then Inl (js ''bad cwd encoding'')
              else if \<not> chdir dir then Inl (js ''cannot chdir: '' @ dir)
              else Inr \<lparr>rc_argv = args, rc_environment = environment, rc_cwd = dir, rc_ignore = (mode = js ''ignore''),
                rc_outspill = outspill, rc_errspill = errspill, rc_stdin = rest\<rparr>)
      | _ \<Rightarrow> Inl (js ''truncated header''))"

text \<open>
  \<open>env -i -- "${dsh_env[@]}" "$@"\<close>: the leading words with an equals sign are the environment, the
  rest is the command.
\<close>

definition assignment :: "bytes \<Rightarrow> bytes \<times> bytes" where
  "assignment w = (takeWhile (\<lambda>c. c \<noteq> 61) w, tl (dropWhile (\<lambda>c. c \<noteq> 61) w))"

definition env_i :: "bytes list \<Rightarrow> (bytes \<times> bytes) list \<times> bytes list" where
  "env_i ws = (fold (\<lambda>w. AList.update (fst (assignment w)) (snd (assignment w))) (takeWhile (\<lambda>w. 61 \<in> set w) ws) [],
     dropWhile (\<lambda>w. 61 \<in> set w) ws)"

definition inner_child :: "received \<Rightarrow> (bytes \<times> bytes) list \<times> bytes list" where
  "inner_child rc = env_i (mapfile (rc_environment rc) @ rc_argv rc)"

section \<open>The status text\<close>

text \<open>\<open>kill_l n\<close> is what \<open>kill -l n\<close> prints.\<close>

definition status_text :: "(nat \<Rightarrow> jstr) \<Rightarrow> nat \<Rightarrow> jstr" where
  "status_text kill_l status =
     (if status > 128 then
        let printed = kill_l (status - 128);
            signame = (if take 3 printed = js ''SIG'' then drop 3 printed else printed) in
        if signame = [] \<or> list_ex (\<lambda>c. \<not> (65 \<le> c \<and> c \<le> 90 \<or> 48 \<le> c \<and> c \<le> 57)) signame
        then js ''exit:'' @ digits status else js ''signal:SIG'' @ signame
      else js ''exit:'' @ digits status)"

record SubprocessOutcome =
  so_exitCode :: "nat option"
  so_signal :: "jstr option"

definition js_trim :: "jstr \<Rightarrow> jstr" where
  "js_trim s = rev (dropWhile is_js_ws (rev (dropWhile is_js_ws s)))"

definition parseStatusText :: "jstr \<Rightarrow> SubprocessOutcome option" where
  "parseStatusText text =
     (let trimmed = js_trim text; ds = drop 5 trimmed; name = drop 10 trimmed in
      if take 5 trimmed = js ''exit:'' \<and> list_all is_digit ds \<and> 1 \<le> length ds \<and> length ds \<le> 3 then
        (if digits_val ds \<le> 255 then Some \<lparr>so_exitCode = Some (digits_val ds), so_signal = None\<rparr> else None)
      else if take 10 trimmed = js ''signal:SIG'' \<and> name \<noteq> [] \<and>
          list_all (\<lambda>c. 65 \<le> c \<and> c \<le> 90 \<or> 48 \<le> c \<and> c \<le> 57) name then
        Some \<lparr>so_exitCode = None, so_signal = Some (js ''SIG'' @ name)\<rparr>
      else None)"

section \<open>Merging\<close>

text \<open>What the child is to see of a name: the explicit entry, a tombstone included, else the baseline.\<close>

definition effective :: "(jstr \<times> jstr) list \<Rightarrow> (jstr \<times> jstr option) list \<Rightarrow> jstr \<Rightarrow> jstr option" where
  "effective base explicit n = (case map_of explicit n of Some v \<Rightarrow> v | None \<Rightarrow> map_of base n)"

definition entries_ok :: "(jstr \<times> jstr) list \<Rightarrow> bool" where
  "entries_ok m \<longleftrightarrow> distinct (map fst m) \<and> (\<forall>(n, v) \<in> set m. \<not> bad_entry (n, Some v) \<and> wf_utf16 n \<and> units_ok v)"

lemma set_update_subset: "set (AList.update n v m) \<subseteq> insert (n, v) (set m)"
  by (induction m) auto

lemma entries_ok_update:
  "entries_ok m \<Longrightarrow> \<not> bad_entry (n, Some v) \<Longrightarrow> wf_utf16 n \<Longrightarrow> units_ok v \<Longrightarrow> entries_ok (AList.update n v m)"
  using set_update_subset[of n v m] by (fastforce simp: entries_ok_def)

lemma entries_ok_delete: "entries_ok m \<Longrightarrow> entries_ok (AList.delete n m)"
  using distinct_keys_delete[of m n] by (auto simp: entries_ok_def AList.delete_eq)

lemma merge_entries_result:
  assumes "merge_entries m es = Inr r" "distinct (map fst es)" "entries_ok m"
    and "\<forall>(n, v) \<in> set es. wf_utf16 n \<and> (\<forall>x. v = Some x \<longrightarrow> units_ok x)"
  shows "entries_ok r \<and> (\<forall>n. map_of r n = effective m es n)"
  using assms
proof (induction m es rule: merge_entries.induct)
  case (1 m)
  then show ?case by (simp add: effective_def)
next
  case (2 m e es)
  obtain n v where e: "e = (n, v)" by (cases e)
  let ?m = "case v of None \<Rightarrow> AList.delete n m | Some x \<Rightarrow> AList.update n x m"
  have good: "\<not> bad_entry (n, v)" and r: "merge_entries ?m es = Inr r"
    using "2.prems"(1) e by (cases v; auto split: if_splits)+
  have "entries_ok ?m"
    using "2.prems" e good entries_ok_delete entries_ok_update by (auto split: option.split)
  moreover have "map_of es n = None" using "2.prems"(2) e by (auto simp: map_of_eq_None_iff image_iff)
  ultimately show ?case
    using "2.IH" good r "2.prems" e by (auto simp: effective_def split: option.splits)
qed

lemma probe_entries:
  assumes "entries_ok login"
  shows "entries_ok (probe login)"
    and "\<And>n. map_of (probe login) n \<noteq> None \<Longrightarrow> \<not> sensitive_env n \<and> \<not> dsh_env n"
    and "map_of (probe login) (js ''PATH'') \<noteq> None"
proof -
  define add where "add = (\<lambda>(e :: jstr \<times> jstr) m. if scrubbed e then m else AList.update (fst e) (snd e) m)"
  have path: "\<not> sensitive_env (js ''PATH'')" "\<not> dsh_env (js ''PATH'')" "\<not> bad_entry (js ''PATH'', Some DEFAULT_PATH)"
    "wf_utf16 (js ''PATH'')" "units_ok DEFAULT_PATH"
    by (simp_all add: sensitive_env_def dsh_env_def bad_entry_def js_def ascii_upper_def DEFAULT_PATH_def starts_with_def is_high_def is_low_def)
  have fold: "entries_ok (fold add es m) \<and> (\<forall>n. map_of (fold add es m) n \<noteq> None \<longrightarrow> \<not> sensitive_env n \<and> \<not> dsh_env n)"
    if "entries_ok m" "\<forall>n. map_of m n \<noteq> None \<longrightarrow> \<not> sensitive_env n \<and> \<not> dsh_env n"
      "\<forall>(n, v) \<in> set es. \<not> bad_entry (n, Some v) \<and> wf_utf16 n \<and> units_ok v" for es m
    using that
  proof (induction es arbitrary: m)
    case (Cons e es)
    have "entries_ok (add e m) \<and> (\<forall>n. map_of (add e m) n \<noteq> None \<longrightarrow> \<not> sensitive_env n \<and> \<not> dsh_env n)"
      using Cons.prems entries_ok_update[of m "fst e" "snd e"] by (auto simp: add_def scrubbed_def)
    then show ?case using Cons.IH[of "add e m"] Cons.prems(3) by simp
  qed simp
  have env: "entries_ok (fold add login []) \<and>
      (\<forall>n. map_of (fold add login []) n \<noteq> None \<longrightarrow> \<not> sensitive_env n \<and> \<not> dsh_env n)"
    using assms by (intro fold) (auto simp: entries_ok_def)
  have p: "probe login = (if map_of (fold add login []) (js ''PATH'') = None
      then AList.update (js ''PATH'') DEFAULT_PATH (fold add login []) else fold add login [])"
    by (simp add: probe_def add_def Let_def)
  show "entries_ok (probe login)" using env path entries_ok_update by (simp add: p)
  show "\<And>n. map_of (probe login) n \<noteq> None \<Longrightarrow> \<not> sensitive_env n \<and> \<not> dsh_env n"
    using env path by (auto simp: p split: if_splits)
  show "map_of (probe login) (js ''PATH'') \<noteq> None" by (auto simp: p)
qed

text \<open>A probe that failed once fails as long as the transport lives.\<close>

lemma failed_probe_cached:
  assumes "env_base (Some t) None (\<lambda>_. None) = (r, cache)"
  shows "r = None" "env_base (Some t) (Some login) cache = (None, cache)"
  using assms by (auto simp: env_base_def Let_def)

section \<open>Decoding the header\<close>

lemma mapfile_cut: "0 \<notin> set x \<Longrightarrow> mapfile (x @ 0 # r) = x # mapfile r"
  by (subst mapfile.simps) (auto simp: takeWhile_append dropWhile_append)

lemma mapfile_Nil [simp]: "mapfile [] = []"
  by (simp add: mapfile.simps)

lemma mapfile_terminated: "\<forall>x \<in> set xs. 0 \<notin> set x \<Longrightarrow> mapfile (concat (map (\<lambda>x. x @ [0]) xs)) = xs"
  by (induction xs) (simp_all add: mapfile_cut)

lemma utf8_terminated: "utf8 (nul_terminated xs) = concat (map (\<lambda>x. x @ [0]) (map utf8 xs))"
  by (induction xs) (simp_all add: nul_terminated_def utf8_ascii_cut)

lemma units_ok_terminated: "\<forall>x \<in> set xs. units_ok x \<Longrightarrow> units_ok (nul_terminated xs)"
  by (auto simp: nul_terminated_def units_ok_def)

lemma base64_d_b64: "units_ok s \<Longrightarrow> base64_d (b64 s) = Some (utf8 s)"
  by (simp add: base64_d_def b64_def b64_roundtrip utf8_units_bytes)

lemma b64_chars: "units_ok s \<Longrightarrow> \<forall>c \<in> set (b64 s). c < 128 \<and> c \<noteq> 10"
  using b64_line(2)[OF utf8_units_bytes, of s] by (cases "s = []") (auto simp: b64_def)

lemma utf8_last: "s \<noteq> [] \<Longrightarrow> b < 128 \<Longrightarrow> last (utf8 s) = b \<longleftrightarrow> last s = b"
proof (induction s rule: utf8.induct)
  case (2 c)
  then show ?case by (auto simp: utf8_cp_def scalar_def is_high_def is_low_def)
next
  case (3 c d r)
  then show ?case
    by (cases "r = []") (auto simp: utf8_cp_def scalar_def is_high_def is_low_def pair_cp_def)
qed simp

lemma command_subst_plain: "0 \<notin> set bs \<Longrightarrow> bs = [] \<or> last bs \<noteq> 10 \<Longrightarrow> command_subst bs = bs"
  proof -
  assume "0 \<notin> set bs" and l: "bs = [] \<or> last bs \<noteq> 10"
  then have "filter (\<lambda>b. b \<noteq> 0) bs = bs" by (metis (mono_tags, lifting) filter_True)
  then show ?thesis using l by (cases bs rule: rev_cases) (auto simp: command_subst_def)
qed

lemma spill_text_chars: "\<forall>c \<in> set (spill_text m). c < 128 \<and> c \<noteq> 10"
proof (cases m)
  case (Some n)
  then show ?thesis using digits_all[of n] by (auto simp: spill_text_def list_all_iff is_digit_def)
qed (simp add: spill_text_def js_def)

lemma read_lines_join:
  "\<forall>l \<in> set ls. 10 \<notin> set l \<Longrightarrow> read_lines (length ls) (join (ls @ [[]]) [10] @ r) = Some (ls, r)"
proof (induction ls)
  case (Cons l ls)
  have "join ((l # ls) @ [[]]) [10] @ r = l @ 10 # (join (ls @ [[]]) [10] @ r)"
    by (cases "ls @ [[]]") simp_all
  then show ?case using Cons by (simp add: next_line_first)
qed simp

definition header_lines :: "spawn_fields \<Rightarrow> jstr list" where
  "header_lines f = [HEADER_MAGIC, b64 (nul_terminated (sf_argv f)), b64 (nul_terminated (sf_env f)), b64 (sf_cwd f),
     if sf_stdinIgnore f then js ''ignore'' else js ''-'', spill_text (sf_stdoutSpillMax f),
     spill_text (sf_stderrSpillMax f), js ''END'']"

lemma header_is_lines: "encodeSpawnHeader f = join (header_lines f @ [[]]) [10]"
  by (simp add: encodeSpawnHeader_def header_lines_def)

definition fields_ok :: "spawn_fields \<Rightarrow> bool" where
  "fields_ok f \<longleftrightarrow> sf_argv f \<noteq> [] \<and> (\<forall>x \<in> set (sf_argv f). units_ok x \<and> 0 \<notin> set x)
     \<and> (\<forall>x \<in> set (sf_env f). units_ok x \<and> 0 \<notin> set x) \<and> units_ok (sf_cwd f) \<and> sf_cwd f \<noteq> []"

lemma header_chars:
  assumes "fields_ok f"
  shows "\<forall>l \<in> set (header_lines f). \<forall>c \<in> set l. c < 128 \<and> c \<noteq> 10"
  using assms b64_chars[OF units_ok_terminated[of "sf_argv f"]] b64_chars[OF units_ok_terminated[of "sf_env f"]]
    b64_chars[of "sf_cwd f"] spill_text_chars
  by (auto simp: header_lines_def fields_ok_def HEADER_MAGIC_def js_def)

lemma join_chars: "\<forall>l \<in> set ls. \<forall>c \<in> set l. c < 128 \<Longrightarrow> \<forall>c \<in> set (join ls [10]). c < 128"
  by (induction ls "[10::nat]" rule: join.induct) auto

lemma utf8_header: "fields_ok f \<Longrightarrow> utf8 (encodeSpawnHeader f) = encodeSpawnHeader f"
  unfolding header_is_lines using header_chars by (intro utf8_ascii join_chars) auto

lemma wrapper_decodes:
  assumes "fields_ok f" "command_subst (utf8 (sf_cwd f)) = dir" "dir \<noteq> []" "chdir dir"
  shows "outer_wrapper chdir (encodeSpawnHeader f @ inp) = Inr
    \<lparr>rc_argv = map utf8 (sf_argv f), rc_environment = utf8 (nul_terminated (sf_env f)), rc_cwd = dir,
     rc_ignore = sf_stdinIgnore f, rc_outspill = spill_text (sf_stdoutSpillMax f),
     rc_errspill = spill_text (sf_stderrSpillMax f), rc_stdin = inp\<rparr>"
proof -
  have "length (header_lines f) = 8" by (simp add: header_lines_def)
  then have lines: "read_lines 8 (encodeSpawnHeader f @ inp) = Some (header_lines f, inp)"
    using read_lines_join[of "header_lines f" inp] header_chars[OF assms(1)] by (metis header_is_lines)
  have "\<forall>x \<in> set (map utf8 (sf_argv f)). 0 \<notin> set x" using assms(1) by (auto simp: fields_ok_def utf8_ascii_iff)
  then have argv: "mapfile (utf8 (nul_terminated (sf_argv f))) = map utf8 (sf_argv f)"
    unfolding utf8_terminated by (rule mapfile_terminated)
  have d: "base64_d (b64 (nul_terminated (sf_argv f))) = Some (utf8 (nul_terminated (sf_argv f)))"
    "base64_d (b64 (nul_terminated (sf_env f))) = Some (utf8 (nul_terminated (sf_env f)))"
    "base64_d (b64 (sf_cwd f)) = Some (utf8 (sf_cwd f))"
    using assms(1) by (auto simp: fields_ok_def intro!: base64_d_b64 units_ok_terminated)
  have "sf_argv f \<noteq> []" using assms(1) by (simp add: fields_ok_def)
  then show ?thesis
    using assms(2-4) unfolding outer_wrapper_def lines header_lines_def
    by (simp add: d argv)
qed

text \<open>\<^verbatim>\<open>env -i\<close> takes exactly the entries when the command has no equals sign.\<close>

lemma fold_update_pairs:
  "distinct (map fst xs) \<Longrightarrow> fst ` set m \<inter> fst ` set xs = {} \<Longrightarrow>
   fold (\<lambda>e. AList.update (fst e) (snd e)) xs m = m @ xs"
  using fold_update_distinct[of xs m] by (simp add: case_prod_unfold)

lemma assignment_entry: "61 \<notin> set a \<Longrightarrow> assignment (a @ 61 # b) = (a, b)"
  by (simp add: assignment_def takeWhile_append dropWhile_append)

lemma env_i_entries:
  assumes "distinct (map fst xs)" "\<forall>(a, b) \<in> set xs. 61 \<notin> set a" "argv \<noteq> []" "61 \<notin> set (hd argv)"
  shows "env_i (map (\<lambda>(a, b). a @ 61 # b) xs @ argv) = (xs, argv)"
proof -
  let ?es = "map (\<lambda>(a, b). a @ 61 # b) xs"
  have all: "\<forall>w \<in> set ?es. 61 \<in> set w" by auto
  then have t: "takeWhile (\<lambda>w. 61 \<in> set w) (?es @ argv) = ?es" "dropWhile (\<lambda>w. 61 \<in> set w) (?es @ argv) = argv"
    using assms(3,4) by (cases argv; simp add: takeWhile_append2 dropWhile_append2 del: set_map)+
  have "fold (\<lambda>w. AList.update (fst (assignment w)) (snd (assignment w))) ?es m = fold (\<lambda>e. AList.update (fst e) (snd e)) xs m" for m
    using assms(2) by (induction xs arbitrary: m) (auto simp: assignment_entry)
  then show ?thesis using t fold_update_pairs[OF assms(1), of "[]"] by (simp add: env_i_def)
qed


text \<open>A login with a secret, an explicit entry and a deletion.\<close>

lemma sample_login: "entries_ok [(js ''HOME'', js ''/r''), (js ''API_KEY'', js ''x'')]"
  by (auto simp: entries_ok_def bad_entry_def js_def is_high_def is_low_def)

lemma sample_probe:
  "probe [(js ''HOME'', js ''/r''), (js ''API_KEY'', js ''x'')] = [(js ''HOME'', js ''/r''), (js ''PATH'', DEFAULT_PATH)]"
  by (simp add: probe_def scrubbed_def sensitive_env_def dsh_env_def js_def ascii_upper_def starts_with_def Let_def)


text \<open>A program name with an equals sign becomes a variable, and its first argument is run instead.\<close>

lemma equals_sign_runs_argument:
  "env_i (map (\<lambda>(a, b). a @ 61 # b) [] @ [js ''a=b'', js ''rm'']) = ([(js ''a'', js ''b'')], [js ''rm''])"
  by (simp add: env_i_def assignment_def js_def)

text \<open>Newlines at the end of the directory are lost.\<close>

lemma cwd_newline_lost: "command_subst (js ''/tmp/x'' @ [10]) = js ''/tmp/x''"
  by (simp add: command_subst_def js_def)

section \<open>The status comes back\<close>

lemma js_trim_id:
  assumes "s \<noteq> []" "\<not> is_js_ws (hd s)" "\<not> is_js_ws (last s)"
  shows "js_trim (s @ [10]) = s"
proof -
  obtain c r where s: "s = c # r" "\<not> is_js_ws c" using assms by (cases s) auto
  obtain xs d where l: "s = xs @ [d]" "\<not> is_js_ws d" using assms by (cases s rule: rev_cases) auto
  have "is_js_ws 10" by (simp add: is_js_ws_def)
  have "dropWhile is_js_ws (s @ [10]) = s @ [10]" using s by simp
  moreover have "dropWhile is_js_ws (rev (s @ [10])) = rev s" using l \<open>is_js_ws 10\<close> by simp
  ultimately show ?thesis by (simp add: js_trim_def)
qed

lemma digits_length: "n < 1000 \<Longrightarrow> length (digits n) \<le> 3"
proof -
  assume n: "n < 1000"
  have 1: "length (digits k) \<le> 1" if "k < 10" for k using that by (subst digits.simps) simp
  have 2: "length (digits k) \<le> 2" if "k < 100" for k using that 1[of "k div 10"] by (subst digits.simps) simp
  show ?thesis using n 2[of "n div 10"] by (subst digits.simps) simp
qed

lemma parse_exit: "n \<le> 255 \<Longrightarrow> parseStatusText (js ''exit:'' @ digits n @ [10]) = Some \<lparr>so_exitCode = Some n, so_signal = None\<rparr>"
proof -
  assume n: "n \<le> 255"
  have d: "list_all is_digit (digits n)" "digits n \<noteq> []" by simp_all
  then have "48 \<le> last (digits n) \<and> last (digits n) \<le> 57"
    using last_in_set[OF d(2)] by (simp add: list_all_iff is_digit_def)
  then have "\<not> is_js_ws (last (digits n))" by (auto simp: is_js_ws_def)
  then have "js_trim ((js ''exit:'' @ digits n) @ [10]) = js ''exit:'' @ digits n"
    by (intro js_trim_id) (auto simp: js_def is_js_ws_def)
  moreover have "length (js ''exit:'') = 5" by (simp add: js_def)
  moreover have "1 \<le> length (digits n)" using d(2) by (cases "digits n") auto
  ultimately show ?thesis
    using n digits_length[of n] d by (simp add: parseStatusText_def Let_def)
qed

text \<open>
  C36: The exit status comes back as it was: for every status of the child and whatever \<^verbatim>\<open>kill -l\<close>
  prints for its signal, the text the wrapper publishes parses to that signal when the status is
  above 128 and the number behind it has a plain name, and to the exit code otherwise.
\<close>

theorem status_roundtrip:
  assumes "status \<le> 255"
  shows "let printed = kill_l (status - 128); name = (if take 3 printed = js ''SIG'' then drop 3 printed else printed) in
    parseStatusText (status_text kill_l status @ [10]) = Some
      (if status > 128 \<and> name \<noteq> [] \<and> (\<forall>c \<in> set name. 65 \<le> c \<and> c \<le> 90 \<or> 48 \<le> c \<and> c \<le> 57)
       then \<lparr>so_exitCode = None, so_signal = Some (js ''SIG'' @ name)\<rparr>
       else \<lparr>so_exitCode = Some status, so_signal = None\<rparr>)"
proof -
  define name where "name = (if take 3 (kill_l (status - 128)) = js ''SIG'' then drop 3 (kill_l (status - 128)) else kill_l (status - 128))"
  let ?sig = "status > 128 \<and> name \<noteq> [] \<and> (\<forall>c \<in> set name. 65 \<le> c \<and> c \<le> 90 \<or> 48 \<le> c \<and> c \<le> 57)"
  have "parseStatusText (status_text kill_l status @ [10]) = Some
      (if ?sig then \<lparr>so_exitCode = None, so_signal = Some (js ''SIG'' @ name)\<rparr>
       else \<lparr>so_exitCode = Some status, so_signal = None\<rparr>)"
  proof (cases ?sig)
    case True
    have "65 \<le> last name \<and> last name \<le> 90 \<or> 48 \<le> last name \<and> last name \<le> 57" using True last_in_set[of name] by blast
    then have "\<not> is_js_ws (last name)" by (auto simp: is_js_ws_def)
    then have "js_trim ((js ''signal:SIG'' @ name) @ [10]) = js ''signal:SIG'' @ name"
      using True by (intro js_trim_id) (auto simp: js_def is_js_ws_def)
    moreover have "length (js ''signal:SIG'') = 10" "take 5 (js ''signal:SIG'' @ name) \<noteq> js ''exit:''" by (simp_all add: js_def)
    moreover have "status_text kill_l status = js ''signal:SIG'' @ name"
      using True by (auto simp: status_text_def name_def[symmetric] Let_def list_ex_iff)
    ultimately show ?thesis using True by (simp add: parseStatusText_def Let_def list_all_iff)
  next
    case False
    then have "status_text kill_l status = js ''exit:'' @ digits status"
      by (auto simp: status_text_def name_def[symmetric] Let_def list_ex_iff)
    then show ?thesis using parse_exit[OF assms] False by simp
  qed
  then show ?thesis by (simp add: name_def Let_def)
qed

theorem status_roundtrip_witness:
  "parseStatusText (status_text (\<lambda>n. js ''TERM'') 143 @ [10]) = Some \<lparr>so_exitCode = None, so_signal = Some (js ''SIGTERM'')\<rparr>"
  using status_roundtrip[of 143 "\<lambda>n. js ''TERM''"] by (simp add: js_def Let_def)

end
