(* ===== verification/RemoteProcess.thy ===== *)
theory RemoteProcess
  imports SpawnWire
begin

text \<open>
  One remote process (\<^verbatim>\<open>subprocess-ssh/src/process.ts\<close>, class \<open>SshSubprocessHandle\<close>) as a machine over
  everything that can resume it: the lines of the wrapper, the status poll, the end of the channel,
  the replies to its commands, timers and the calls of its user. A method that is suspended in an
  await is a phase in the state; a resumption that no phase waits for does nothing. The byte streams
  themselves are in \<open>FrameOutput\<close>; back pressure of the local pipes is not modelled.
\<close>

section \<open>Promises and results\<close>

datatype 'a deferred = Unsettled | Resolved 'a | Rejected jstr

definition is_settled :: "'a deferred \<Rightarrow> bool" where
  "is_settled d = (case d of Unsettled \<Rightarrow> False | _ \<Rightarrow> True)"

definition resolve_with :: "'a \<Rightarrow> 'a deferred \<Rightarrow> 'a deferred" where
  "resolve_with v d = (case d of Unsettled \<Rightarrow> Resolved v | _ \<Rightarrow> d)"

definition reject_with :: "jstr \<Rightarrow> 'a deferred \<Rightarrow> 'a deferred" where
  "reject_with e d = (case d of Unsettled \<Rightarrow> Rejected e | _ \<Rightarrow> d)"

text \<open>How a call of the transport ends.\<close>

datatype 'a call_result = Returned 'a | ConnectionLost | CallFailed jstr

definition connLostError :: "jstr \<Rightarrow> jstr" where
  "connLostError what = js ''subprocess-ssh: '' @ what @ js '': remote connection lost''"

text \<open>\<open>signalRemoteGroups\<close>: a nonzero \<^verbatim>\<open>kill\<close> and a lost connection are tolerated.\<close>

definition signalRemoteGroups :: "unit call_result \<Rightarrow> jstr option" where
  "signalRemoteGroups r = (case r of CallFailed e \<Rightarrow> Some e | _ \<Rightarrow> None)"

section \<open>The request and the state\<close>

datatype stdin_mode = StdinIgnore | StdinPipe | StdinData bytes

datatype output_mode = OutPipe | OutInherit | Collect nat "nat option"

record spawn_spec =
  sp_argv :: "jstr list"
  sp_cwd :: jstr
  sp_stdin :: stdin_mode
  sp_stdout :: output_mode
  sp_stderr :: output_mode

definition spill_max :: "output_mode \<Rightarrow> nat option" where
  "spill_max m = (case m of Collect _ sp \<Rightarrow> sp | _ \<Rightarrow> None)"

datatype race = ByEnd jstr | ByFail jstr | ByStatus jstr | ByClosed

text \<open>Where \<open>run\<close> is suspended, where \<open>terminateRemote\<close> is, where a call of \<open>waitForExit\<close> is.\<close>

datatype run_phase =
    Preparing | Opening "jstr list" | Racing
  | EndFlush jstr | StatusGrace jstr | CutKill jstr | CutFlush jstr | ClosedFlush | ClosedRead
  | RollingBack jstr bool | Removing jstr bool | Finished "jstr + SubprocessOutcome"

datatype term_phase =
    TLaunch | TStart | TChannelKill | TSettle
  | TTerm nat | TProbe1 nat | TTick1 nat | TKill nat | TProcKill nat | TProbe2 nat | TTick2 nat
  | TDone "jstr option"

datatype wait_phase = WRead | WProbe bool | WTick

record process =
  pr_id :: jstr
  pr_spec :: spawn_spec
  pr_root :: "jstr option"
  pr_live :: bool
  pr_dir :: jstr
  pr_phase :: run_phase
  pr_race :: "race option"
  pr_launched :: "unit deferred"
  pr_started :: "nat deferred"
  pr_failed :: "jstr deferred"
  pr_ended :: "jstr deferred"
  pr_settled :: bool
  pr_stdoutReader :: "tail_reader option"
  pr_stderrReader :: "tail_reader option"
  pr_diagnostics :: "jstr list"
  pr_remotePgid :: "nat option"
  pr_spawnFailed :: bool
  pr_outputDrainExpired :: bool
  pr_outputTransportError :: "jstr option"
  pr_quiescenceProven :: bool
  pr_terminationRequested :: bool
  pr_terminationAttempt :: "term_phase option"
  pr_terminationFailure :: "jstr option"
  pr_terminationSignal :: "jstr option"
  pr_waiters :: "(nat option \<times> wait_phase) list"

datatype proc_output =
    Command jstr
  | Write bytes
  | EndStdin
  | KillChannel
  | Settled "jstr + SubprocessOutcome"
  | WaitEnds nat "jstr + bool"

type_synonym reaction = "process \<times> proc_output list"

definition posix_join :: "jstr list \<Rightarrow> jstr" where
  "posix_join ps = posix_normalize (join (filter (\<lambda>p. p \<noteq> []) ps) [47])"

definition process_dir :: "jstr \<Rightarrow> jstr \<Rightarrow> jstr" where
  "process_dir root i = posix_join [root, js ''processes'', i]"

definition kill_command :: "jstr \<Rightarrow> nat \<Rightarrow> jstr" where
  "kill_command sig pgid = js ''kill -'' @ sig @ js '' -'' @ digits pgid"

definition statusPath :: "process \<Rightarrow> jstr" where
  "statusPath p = posix_join [pr_dir p, js ''status'']"

definition cat_command :: "jstr \<Rightarrow> jstr" where
  "cat_command path = js ''cat -- '' @ sq path"

definition rm_command :: "bool \<Rightarrow> jstr list \<Rightarrow> jstr" where
  "rm_command recursive paths =
     js ''rm '' @ (if recursive then js ''-rf'' else js ''-f'') @ js '' -- '' @ join (map sq paths) [32]"

section \<open>The wrapper's lines\<close>

definition MAX_SAFE_INTEGER :: nat where
  "MAX_SAFE_INTEGER = 9007199254740991"

definition parsePublishedPgid :: "jstr \<Rightarrow> jstr + nat" where
  "parsePublishedPgid raw =
     (let v = js_trim raw; pgid = digits_val v in
      if v = [] \<or> \<not> list_all is_digit v \<or> hd v = 48 \<or> pgid > MAX_SAFE_INTEGER then
        Inl (js ''subprocess-ssh: remote wrapper published invalid process-group id '' @ stringify (JStr v))
      else if pgid \<le> 1 then Inl (js ''subprocess-ssh: unsafe published process-group id '' @ digits pgid)
      else Inr pgid)"

datatype verb = START | FAIL | END

text \<open>\<^verbatim>\<open>/^!DSHSSH (START|FAIL|END)(?: (.*))?$/\<close>; the dot does not match a line terminator.\<close>

definition verb_rest :: "string \<Rightarrow> jstr \<Rightarrow> jstr option" where
  "verb_rest v line =
     (let p = js ''!DSHSSH '' @ js v; r = drop (length p) line in
      if take (length p) line \<noteq> p then None
      else (case r of
              [] \<Rightarrow> Some []
            | c # x \<Rightarrow> if c = 32 \<and> list_all (\<lambda>u. u \<notin> {10, 13, 8232, 8233}) x then Some x else None))"

definition parse_control :: "jstr \<Rightarrow> (verb \<times> jstr) option" where
  "parse_control line =
     (case verb_rest ''START'' line of
        Some x \<Rightarrow> Some (START, x)
      | None \<Rightarrow>
          (case verb_rest ''FAIL'' line of
             Some x \<Rightarrow> Some (FAIL, x)
           | None \<Rightarrow> map_option (Pair END) (verb_rest ''END'' line)))"

text \<open>The first promise of the race that settles decides it.\<close>

definition note_race :: "race \<Rightarrow> process \<Rightarrow> process" where
  "note_race r p = (if pr_phase p = Racing \<and> pr_race p = None then p\<lparr>pr_race := Some r\<rparr> else p)"

definition resolve_failed :: "jstr \<Rightarrow> process \<Rightarrow> process" where
  "resolve_failed m p =
     (if is_settled (pr_failed p) then p else note_race (ByFail m) (p\<lparr>pr_failed := Resolved m\<rparr>))"

definition resolve_ended :: "jstr \<Rightarrow> process \<Rightarrow> process" where
  "resolve_ended s p =
     (if is_settled (pr_ended p) then p else note_race (ByEnd s) (p\<lparr>pr_ended := Resolved s\<rparr>))"

definition onControl :: "jstr \<Rightarrow> process \<Rightarrow> process" where
  "onControl line p =
     (case parse_control line of
        None \<Rightarrow> p\<lparr>pr_diagnostics := pr_diagnostics p @ [line]\<rparr>
      | Some (START, rest) \<Rightarrow>
          (case parsePublishedPgid rest of
             Inl e \<Rightarrow> resolve_failed e p
           | Inr pgid \<Rightarrow> p\<lparr>pr_remotePgid := Some pgid, pr_started := resolve_with pgid (pr_started p)\<rparr>)
      | Some (FAIL, rest) \<Rightarrow> resolve_failed (buffer_text (b64_decode rest)) p
      | Some (END, rest) \<Rightarrow> resolve_ended rest p)"

section \<open>Termination\<close>

definition markQuiescent :: "process \<Rightarrow> process" where
  "markQuiescent p = p\<lparr>pr_quiescenceProven := True, pr_terminationFailure := None\<rparr>"

definition terminate :: "process \<Rightarrow> process" where
  "terminate p =
     (if pr_quiescenceProven p \<or> pr_terminationAttempt p \<noteq> None then p
      else p\<lparr>pr_terminationRequested := True, pr_terminationFailure := None,
             pr_terminationAttempt := Some TLaunch\<rparr>)"

definition at_term :: "term_phase \<Rightarrow> process \<Rightarrow> process" where
  "at_term t p = p\<lparr>pr_terminationAttempt := Some t\<rparr>"

definition probe_group :: "(nat \<Rightarrow> term_phase) \<Rightarrow> nat \<Rightarrow> process \<Rightarrow> reaction" where
  "probe_group t pgid p = (at_term (t pgid) p, [Command (kill_command (js ''0'') pgid)])"

definition force_kill :: "nat \<Rightarrow> process \<Rightarrow> reaction" where
  "force_kill pgid p =
     (at_term (TKill pgid) (p\<lparr>pr_terminationSignal := Some (js ''SIGKILL'')\<rparr>), [Command (kill_command (js ''KILL'') pgid)])"

definition quiet :: "process \<Rightarrow> reaction" where
  "quiet p = (at_term (TDone None) (markQuiescent p), [])"

text \<open>\<open>terminateRemote\<close> after \<open>await this.launched.promise\<close> and \<open>await this.started.promise\<close>.\<close>

definition term_launched :: "process \<Rightarrow> reaction" where
  "term_launched p =
     (case pr_launched p of
        Unsettled \<Rightarrow> (p, [])
      | Rejected _ \<Rightarrow> quiet p
      | Resolved _ \<Rightarrow> (at_term TStart p, []))"

definition term_started :: "process \<Rightarrow> reaction" where
  "term_started p =
     (case pr_started p of
        Unsettled \<Rightarrow> (p, [])
      | Rejected _ \<Rightarrow> (at_term TChannelKill p, [KillChannel])
      | Resolved pgid \<Rightarrow>
          if pgid \<le> 1 then (at_term TChannelKill p, [KillChannel])
          else if \<not> pr_live p then quiet p
          else (at_term (TTerm pgid) (p\<lparr>pr_terminationSignal := Some (js ''SIGTERM'')\<rparr>),
                [Command (kill_command (js ''TERM'') pgid)]))"

definition still_live :: "nat \<Rightarrow> jstr" where
  "still_live pgid =
     js ''subprocess-ssh: remote process group '' @ digits pgid @ js '' remained live after force termination''"

text \<open>\<open>waitGroupDead\<close> after a probe; \<open>late\<close>: the deadline has passed.\<close>

definition after_probe :: "(nat \<Rightarrow> term_phase) \<Rightarrow> (process \<Rightarrow> reaction) \<Rightarrow> (jstr \<Rightarrow> process \<Rightarrow> reaction) \<Rightarrow>
    nat \<Rightarrow> bool call_result \<Rightarrow> bool \<Rightarrow> process \<Rightarrow> reaction" where
  "after_probe tick expired broken pgid r late p =
     (case r of
        ConnectionLost \<Rightarrow> quiet p
      | Returned alive \<Rightarrow> if \<not> alive then quiet p else if late then expired p else (at_term (tick pgid) p, [])
      | CallFailed e \<Rightarrow> broken e p)"

datatype term_event =
    LaunchKnown
  | StartKnown
  | ChannelKilled "unit call_result"
  | RunSettled
  | Signalled "unit call_result"
  | Probed "bool call_result" bool
  | Ticked
  | AttemptEnded

definition term_step :: "term_phase \<Rightarrow> term_event \<Rightarrow> process \<Rightarrow> reaction" where
  "term_step t ev p =
     (case t of
        TLaunch \<Rightarrow> (case ev of LaunchKnown \<Rightarrow> term_launched p | _ \<Rightarrow> (p, []))
      | TStart \<Rightarrow> (case ev of StartKnown \<Rightarrow> term_started p | _ \<Rightarrow> (p, []))
      | TChannelKill \<Rightarrow>
          (case ev of
             ChannelKilled (CallFailed e) \<Rightarrow> (at_term (TDone (Some e)) p, [])
           | ChannelKilled _ \<Rightarrow> (at_term TSettle p, [])
           | _ \<Rightarrow> (p, []))
      | TSettle \<Rightarrow> (case ev of RunSettled \<Rightarrow> if pr_settled p then quiet p else (p, []) | _ \<Rightarrow> (p, []))
      | TTerm pgid \<Rightarrow>
          (case ev of
             Signalled r \<Rightarrow> if signalRemoteGroups r = None then probe_group TProbe1 pgid p else force_kill pgid p
           | _ \<Rightarrow> (p, []))
      | TProbe1 pgid \<Rightarrow>
          (case ev of
             Probed r late \<Rightarrow> after_probe TTick1 (force_kill pgid) (\<lambda>_. force_kill pgid) pgid r late p
           | _ \<Rightarrow> (p, []))
      | TTick1 pgid \<Rightarrow> (case ev of Ticked \<Rightarrow> probe_group TProbe1 pgid p | _ \<Rightarrow> (p, []))
      | TKill pgid \<Rightarrow> (case ev of Signalled _ \<Rightarrow> (at_term (TProcKill pgid) p, [KillChannel]) | _ \<Rightarrow> (p, []))
      | TProcKill pgid \<Rightarrow> (case ev of ChannelKilled _ \<Rightarrow> probe_group TProbe2 pgid p | _ \<Rightarrow> (p, []))
      | TProbe2 pgid \<Rightarrow>
          (case ev of
             Probed r late \<Rightarrow>
               after_probe TTick2 (\<lambda>p. (at_term (TDone (Some (still_live pgid))) p, []))
                 (\<lambda>e p. (at_term (TDone (Some e)) p, [])) pgid r late p
           | _ \<Rightarrow> (p, []))
      | TTick2 pgid \<Rightarrow> (case ev of Ticked \<Rightarrow> probe_group TProbe2 pgid p | _ \<Rightarrow> (p, []))
      | TDone err \<Rightarrow>
          (case ev of
             AttemptEnded \<Rightarrow>
               (p\<lparr>pr_terminationAttempt := None,
                  pr_terminationFailure := (if err = None \<or> pr_quiescenceProven p then pr_terminationFailure p else err)\<rparr>, [])
           | _ \<Rightarrow> (p, [])))"

section \<open>Waiting for the exit\<close>

text \<open>A waiter \<open>None\<close> is the call that \<open>run\<close> makes itself while it rolls back.\<close>

definition remove_state_dir :: "jstr \<Rightarrow> bool \<Rightarrow> process \<Rightarrow> reaction" where
  "remove_state_dir e canceled p =
     (p\<lparr>pr_phase := Removing e canceled\<rparr>,
      if pr_dir p \<noteq> [] \<and> pr_live p then [Command (rm_command True [pr_dir p])] else [])"

definition rollback_failed :: jstr where
  "rollback_failed =
     js ''subprocess-ssh: command monitoring failed and process-group rollback did not reach quiescence''"

definition wait_ends :: "nat option \<Rightarrow> jstr + bool \<Rightarrow> process \<Rightarrow> reaction" where
  "wait_ends k r p =
     (let p1 = p\<lparr>pr_waiters := AList.delete k (pr_waiters p)\<rparr> in
      case k of
        Some n \<Rightarrow> (p1, [WaitEnds n r])
      | None \<Rightarrow>
          (case pr_phase p1 of
             RollingBack e canceled \<Rightarrow>
               remove_state_dir (case r of Inl _ \<Rightarrow> rollback_failed | Inr _ \<Rightarrow> e) canceled p1
           | _ \<Rightarrow> (p1, [])))"

definition waits :: "nat option \<Rightarrow> wait_phase \<Rightarrow> process \<Rightarrow> process" where
  "waits k w p = p\<lparr>pr_waiters := AList.update k w (pr_waiters p)\<rparr>"

definition wait_decide :: "nat option \<Rightarrow> bool \<Rightarrow> bool \<Rightarrow> process \<Rightarrow> reaction" where
  "wait_decide k exited alive p =
     (if exited \<and> \<not> alive then wait_ends k (Inr True) (markQuiescent p) else (waits k WTick p, []))"

definition wait_probe :: "nat option \<Rightarrow> bool \<Rightarrow> process \<Rightarrow> reaction" where
  "wait_probe k exited p =
     (case pr_remotePgid p of
        Some pgid \<Rightarrow> (waits k (WProbe exited) p, [Command (kill_command (js ''0'') pgid)])
      | None \<Rightarrow> wait_decide k exited False p)"

definition wait_loop :: "nat option \<Rightarrow> bool \<Rightarrow> process \<Rightarrow> reaction" where
  "wait_loop k aborted p =
     (if pr_quiescenceProven p then wait_ends k (Inr True) p
      else case pr_terminationFailure p of
        Some e \<Rightarrow> wait_ends k (Inl e) p
      | None \<Rightarrow>
          if aborted then wait_ends k (Inr False) p
          else if pr_spawnFailed p \<or> \<not> pr_live p then wait_ends k (Inr True) (markQuiescent p)
          else if is_settled (pr_ended p) \<or> pr_settled p then wait_probe k True p
          else (waits k WRead p, [Command (cat_command (statusPath p))]))"

text \<open>The \<open>catch\<close> of the loop's calls.\<close>

definition wait_broken :: "nat option \<Rightarrow> bool \<Rightarrow> 'a call_result \<Rightarrow> process \<Rightarrow> reaction" where
  "wait_broken k aborted r p =
     (if aborted then wait_ends k (Inr False) p
      else case r of
        CallFailed e \<Rightarrow> wait_ends k (Inl e) p
      | _ \<Rightarrow> wait_ends k (Inr True) (markQuiescent p))"

datatype wait_event =
    StatusRead "jstr option call_result" bool
  | GroupProbed "bool call_result" bool
  | WaitTicked bool

definition wait_step :: "nat option \<Rightarrow> wait_phase \<Rightarrow> wait_event \<Rightarrow> process \<Rightarrow> reaction" where
  "wait_step k w ev p =
     (case (w, ev) of
        (WRead, StatusRead (Returned t) _) \<Rightarrow> wait_probe k (case t of Some s \<Rightarrow> \<not> blank s | None \<Rightarrow> False) p
      | (WRead, StatusRead r aborted) \<Rightarrow> wait_broken k aborted r p
      | (WProbe exited, GroupProbed (Returned alive) _) \<Rightarrow> wait_decide k exited alive p
      | (WProbe _, GroupProbed r aborted) \<Rightarrow> wait_broken k aborted r p
      | (WTick, WaitTicked aborted) \<Rightarrow> if aborted then wait_ends k (Inr False) p else wait_loop k False p
      | _ \<Rightarrow> (p, []))"

section \<open>The run\<close>

definition settle :: "jstr + SubprocessOutcome \<Rightarrow> process \<Rightarrow> reaction" where
  "settle r p = (p\<lparr>pr_phase := Finished r, pr_settled := True\<rparr>, [Settled r])"

text \<open>The \<open>catch\<close> of \<open>run\<close>.\<close>

definition run_catch :: "jstr \<Rightarrow> process \<Rightarrow> reaction" where
  "run_catch e p =
     (let canceled = pr_terminationRequested p \<and> \<not> is_settled (pr_started p) \<and> \<not> is_settled (pr_ended p);
          p1 = p\<lparr>pr_spawnFailed := pr_spawnFailed p \<or>
                   \<not> is_settled (pr_started p) \<and> \<not> is_settled (pr_ended p) \<and> \<not> is_settled (pr_failed p),
                 pr_started := reject_with e (pr_started p), pr_launched := reject_with e (pr_launched p)\<rparr> in
      if pr_remotePgid p1 \<noteq> None \<and> \<not> pr_quiescenceProven p1
      then wait_loop None False ((terminate p1)\<lparr>pr_phase := RollingBack e canceled\<rparr>)
      else remove_state_dir e canceled p1)"

definition spawnFailure :: "jstr option \<Rightarrow> process \<Rightarrow> jstr" where
  "spawnFailure detail p = join
     ([js ''subprocess-ssh: remote spawn failed''] @ (case detail of None \<Rightarrow> [] | Some d \<Rightarrow> [d]) @
      (if pr_diagnostics p \<noteq> [] then [join (pr_diagnostics p) [10]] else [])) (js '': '')"

text \<open>\<open>finalizeSpills\<close>: which spill files are removed.\<close>

definition useless_spill :: "bool \<Rightarrow> output_mode \<Rightarrow> tail_reader option \<Rightarrow> bool" where
  "useless_spill expired m reader =
     (case (m, reader) of
        (Collect maxBytes (Some spill), Some tr) \<Rightarrow> expired \<or> tr_total tr \<le> maxBytes \<or> tr_total tr > spill
      | _ \<Rightarrow> False)"

definition finalizeSpills :: "process \<Rightarrow> proc_output list" where
  "finalizeSpills p =
     (let rm = (if useless_spill (pr_outputDrainExpired p) (sp_stdout (pr_spec p)) (pr_stdoutReader p)
                then [posix_join [pr_dir p, js ''stdout.spill'']] else []) @
               (if useless_spill (pr_outputDrainExpired p) (sp_stderr (pr_spec p)) (pr_stderrReader p)
                then [posix_join [pr_dir p, js ''stderr.spill'']] else [])
      in if rm \<noteq> [] \<and> pr_live p then [Command (rm_command False rm)] else [])"

definition finishOutcome :: "jstr \<Rightarrow> process \<Rightarrow> reaction" where
  "finishOutcome status p =
     (case parseStatusText status of
        None \<Rightarrow> run_catch (js ''subprocess-ssh: remote wrapper published invalid status '' @ stringify (JStr status)) p
      | Some parsed \<Rightarrow>
          (case pr_outputTransportError p of
             Some e \<Rightarrow> run_catch e p
           | None \<Rightarrow>
               let rms = finalizeSpills p;
                   res = (case (so_signal parsed, pr_terminationSignal p, so_exitCode parsed) of
                          (None, Some sig, Some c) \<Rightarrow>
                            if c > 128 then \<lparr>so_exitCode = None, so_signal = Some sig\<rparr> else parsed
                        | _ \<Rightarrow> parsed)
               in (case settle (Inr res) p of (p1, out) \<Rightarrow> (p1, rms @ out))))"

definition expire_output :: "process \<Rightarrow> process" where
  "expire_output p =
     p\<lparr>pr_outputDrainExpired := True, pr_stdoutReader := map_option invalidateSpill (pr_stdoutReader p),
       pr_stderrReader := map_option invalidateSpill (pr_stderrReader p)\<rparr>"

text \<open>\<open>run\<close> after the child's environment is known, and after the channel is open.\<close>

definition open_channel :: "jstr list \<Rightarrow> process \<Rightarrow> reaction" where
  "open_channel env p =
     (p\<lparr>pr_phase := Opening env\<rparr>, [Command (buildSpawnCommand (pr_id p) (the (pr_root p)))])"

definition spawn_header :: "jstr list \<Rightarrow> process \<Rightarrow> jstr" where
  "spawn_header env p = encodeSpawnHeader
     \<lparr>sf_argv = sp_argv (pr_spec p), sf_env = env, sf_cwd = sp_cwd (pr_spec p),
      sf_stdinIgnore = (sp_stdin (pr_spec p) = StdinIgnore),
      sf_stdoutSpillMax = spill_max (sp_stdout (pr_spec p)), sf_stderrSpillMax = spill_max (sp_stderr (pr_spec p))\<rparr>"

definition channel_open :: "jstr list \<Rightarrow> process \<Rightarrow> reaction" where
  "channel_open env p =
     (p\<lparr>pr_phase := Racing, pr_launched := resolve_with () (pr_launched p)\<rparr>,
      Write (utf8 (spawn_header env p)) #
      (case sp_stdin (pr_spec p) of
         StdinIgnore \<Rightarrow> [EndStdin]
       | StdinData bs \<Rightarrow> [Write bs, EndStdin]
       | StdinPipe \<Rightarrow> []))"

text \<open>The winner of the race.\<close>

definition race_won :: "race \<Rightarrow> process \<Rightarrow> reaction" where
  "race_won r p =
     (case r of
        ByFail m \<Rightarrow> run_catch (spawnFailure (Some m) p) p
      | ByEnd s \<Rightarrow> (p\<lparr>pr_phase := EndFlush s\<rparr>, [])
      | ByStatus s \<Rightarrow> (p\<lparr>pr_phase := StatusGrace s\<rparr>, [])
      | ByClosed \<Rightarrow> (p\<lparr>pr_phase := ClosedFlush\<rparr>, []))"

definition closed_flushed :: "process \<Rightarrow> reaction" where
  "closed_flushed p =
     (case pr_failed p of
        Resolved m \<Rightarrow> run_catch (spawnFailure (Some m) p) p
      | _ \<Rightarrow>
          (case pr_ended p of
             Resolved s \<Rightarrow> finishOutcome s p
           | _ \<Rightarrow> (p\<lparr>pr_phase := ClosedRead\<rparr>, if pr_live p then [Command (cat_command (statusPath p))] else [])))"

definition closed_read :: "jstr option \<Rightarrow> process \<Rightarrow> reaction" where
  "closed_read t p =
     (case t of
        Some s \<Rightarrow>
          if \<not> blank s then finishOutcome s (expire_output p)
          else run_catch (if is_settled (pr_started p)
            then connLostError (js ''command channel closed before the wrapper published completion'')
            else spawnFailure None p) p
      | None \<Rightarrow> run_catch (if is_settled (pr_started p)
            then connLostError (js ''command channel closed before the wrapper published completion'')
            else spawnFailure None p) p)"

datatype run_event =
    EnvironmentReady "jstr + jstr list"
  | ChannelOpened "jstr option"
  | RaceContinues
  | PumpsFlushed
  | GraceOver bool
  | CutKilled
  | FinalStatus "jstr option"
  | StateRemoved

definition run_step :: "run_phase \<Rightarrow> run_event \<Rightarrow> process \<Rightarrow> reaction" where
  "run_step ph ev p =
     (case ph of
        Preparing \<Rightarrow>
          (case ev of
             EnvironmentReady (Inl e) \<Rightarrow> run_catch e p
           | EnvironmentReady (Inr env) \<Rightarrow> open_channel env p
           | _ \<Rightarrow> (p, []))
      | Opening env \<Rightarrow>
          (case ev of
             ChannelOpened (Some e) \<Rightarrow> run_catch e p
           | ChannelOpened None \<Rightarrow> channel_open env p
           | _ \<Rightarrow> (p, []))
      | Racing \<Rightarrow>
          (case ev of
             RaceContinues \<Rightarrow> (case pr_race p of None \<Rightarrow> (p, []) | Some r \<Rightarrow> race_won r p)
           | _ \<Rightarrow> (p, []))
      | EndFlush s \<Rightarrow> (case ev of PumpsFlushed \<Rightarrow> finishOutcome s p | _ \<Rightarrow> (p, []))
      | StatusGrace s \<Rightarrow>
          (case ev of
             GraceOver True \<Rightarrow> ((expire_output p)\<lparr>pr_phase := CutKill s\<rparr>, [KillChannel])
           | GraceOver False \<Rightarrow>
               (case pr_ended p of Resolved s' \<Rightarrow> (p\<lparr>pr_phase := EndFlush s'\<rparr>, []) | _ \<Rightarrow> (p, []))
           | _ \<Rightarrow> (p, []))
      | CutKill s \<Rightarrow> (case ev of CutKilled \<Rightarrow> (p\<lparr>pr_phase := CutFlush s\<rparr>, []) | _ \<Rightarrow> (p, []))
      | CutFlush s \<Rightarrow> (case ev of PumpsFlushed \<Rightarrow> finishOutcome s p | _ \<Rightarrow> (p, []))
      | ClosedFlush \<Rightarrow> (case ev of PumpsFlushed \<Rightarrow> closed_flushed p | _ \<Rightarrow> (p, []))
      | ClosedRead \<Rightarrow> (case ev of FinalStatus t \<Rightarrow> closed_read t p | _ \<Rightarrow> (p, []))
      | RollingBack _ _ \<Rightarrow> (p, [])
      | Removing e canceled \<Rightarrow>
          (case ev of
             StateRemoved \<Rightarrow>
               settle (if canceled then Inr \<lparr>so_exitCode = None, so_signal = Some (js ''SIGTERM'')\<rparr> else Inl e) p
           | _ \<Rightarrow> (p, []))
      | Finished _ \<Rightarrow> (p, []))"

section \<open>All events\<close>

datatype proc_event =
    Transport bool
  | ControlLine jstr
  | DiagnosticLine jstr
  | Decoded bool bytes
  | PumpFailed jstr
  | StatusPolled jstr
  | ChannelClosed
  | Run run_event
  | Terminate
  | Term term_event
  | WaitForExit nat bool
  | Wait "nat option" wait_event

definition read_more :: "bytes \<Rightarrow> tail_reader option \<Rightarrow> tail_reader option" where
  "read_more bs r = (case r of None \<Rightarrow> None | Some tr \<Rightarrow> tail_push tr bs)"

fun process_step :: "process \<Rightarrow> proc_event \<Rightarrow> reaction" where
  "process_step p (Transport l) = (p\<lparr>pr_live := l\<rparr>, [])"
| "process_step p (ControlLine l) = (onControl l p, [])"
| "process_step p (DiagnosticLine l) = (p\<lparr>pr_diagnostics := pr_diagnostics p @ [l]\<rparr>, [])"
| "process_step p (Decoded out bs) =
     (if out then p\<lparr>pr_stdoutReader := read_more bs (pr_stdoutReader p)\<rparr>
      else p\<lparr>pr_stderrReader := read_more bs (pr_stderrReader p)\<rparr>, [])"
| "process_step p (PumpFailed e) =
     (p\<lparr>pr_outputTransportError := (case pr_outputTransportError p of None \<Rightarrow> Some e | s \<Rightarrow> s)\<rparr>, [])"
| "process_step p (StatusPolled s) = (if blank s then p else note_race (ByStatus s) p, [])"
| "process_step p ChannelClosed = (note_race ByClosed p, [])"
| "process_step p (Run e) = run_step (pr_phase p) e p"
| "process_step p Terminate = (terminate p, [])"
| "process_step p (Term e) = (case pr_terminationAttempt p of None \<Rightarrow> (p, []) | Some t \<Rightarrow> term_step t e p)"
| "process_step p (WaitForExit n aborted) =
     (if map_of (pr_waiters p) (Some n) = None then wait_loop (Some n) aborted p else (p, []))"
| "process_step p (Wait k e) = (case map_of (pr_waiters p) k of None \<Rightarrow> (p, []) | Some w \<Rightarrow> wait_step k w e p)"

text \<open>The constructor, and the synchronous start of \<open>run\<close>.\<close>

definition reader_for :: "output_mode \<Rightarrow> jstr \<Rightarrow> jstr \<Rightarrow> tail_reader option" where
  "reader_for m dir name =
     (case m of Collect maxBytes sp \<Rightarrow> Some (TailOutputReader maxBytes sp (posix_join [dir, name])) | _ \<Rightarrow> None)"

definition SshSubprocessHandle :: "spawn_spec \<Rightarrow> jstr \<Rightarrow> bool \<Rightarrow> jstr option \<Rightarrow> bool \<Rightarrow> reaction" where
  "SshSubprocessHandle spec i live root aborted =
     (let dir = (case root of None \<Rightarrow> [] | Some r \<Rightarrow> process_dir r i);
          p = \<lparr>pr_id = i, pr_spec = spec, pr_root = root, pr_live = live, pr_dir = dir, pr_phase = Preparing,
            pr_race = None, pr_launched = Unsettled, pr_started = Unsettled, pr_failed = Unsettled, pr_ended = Unsettled,
            pr_settled = False, pr_stdoutReader = reader_for (sp_stdout spec) dir (js ''stdout.spill''),
            pr_stderrReader = reader_for (sp_stderr spec) dir (js ''stderr.spill''), pr_diagnostics = [],
            pr_remotePgid = None, pr_spawnFailed = False, pr_outputDrainExpired = False, pr_outputTransportError = None,
            pr_quiescenceProven = False, pr_terminationRequested = False, pr_terminationAttempt = None,
            pr_terminationFailure = None, pr_terminationSignal = None, pr_waiters = []\<rparr>;
          (p1, out) = (if \<not> live then run_catch (connLostError (js ''no live SSH connection'')) p
            else if (case root of None \<Rightarrow> True | Some r \<Rightarrow> \<not> isAbsolute r)
              then run_catch (connLostError (js ''remote runtime root unavailable'')) p
            else (p, []))
      in (if aborted then terminate p1 else p1, out))"

end
