(* ===== verification/ProcessSafety.thy ===== *)
theory ProcessSafety
  imports RemoteProcess
begin

text \<open>
  What holds of a remote process in every state it can reach (\<open>reactive\<close> with the step of
  \<open>RemoteProcess\<close>): which commands are sent, what \<open>done\<close> reports, how termination ends.
\<close>

section \<open>Commands\<close>

text \<open>The process groups the wrapper has published.\<close>

definition published :: "proc_event list \<Rightarrow> nat \<Rightarrow> bool" where
  "published g n \<longleftrightarrow> (\<exists>l x. ControlLine l \<in> set g \<and> parse_control l = Some (START, x) \<and> parsePublishedPgid x = Inr n)"

lemma published_mono: "published g n \<Longrightarrow> published (g @ g') n"
  by (auto simp: published_def)

lemma parsePublishedPgid_safe: "parsePublishedPgid x = Inr n \<Longrightarrow> 1 < n \<and> n \<le> MAX_SAFE_INTEGER"
  by (auto simp: parsePublishedPgid_def Let_def split: if_splits)

lemma published_safe: "published g n \<Longrightarrow> 1 < n"
  by (auto simp: published_def dest: parsePublishedPgid_safe)

definition own_paths :: "process \<Rightarrow> jstr set" where
  "own_paths p = {pr_dir p, posix_join [pr_dir p, js ''stdout.spill''], posix_join [pr_dir p, js ''stderr.spill'']}"

definition allowed :: "process \<Rightarrow> proc_event list \<Rightarrow> jstr \<Rightarrow> bool" where
  "allowed p g c \<longleftrightarrow> c = buildSpawnCommand (pr_id p) (the (pr_root p)) \<or> c = cat_command (statusPath p) \<or>
     (\<exists>r ps. c = rm_command r ps \<and> set ps \<subseteq> own_paths p) \<or>
     (\<exists>sig n. c = kill_command sig n \<and> sig \<in> {js ''0'', js ''TERM'', js ''KILL''} \<and> published g n)"

definition same_place :: "process \<Rightarrow> process \<Rightarrow> bool" where
  "same_place p q \<longleftrightarrow> pr_id p = pr_id q \<and> pr_root p = pr_root q \<and> pr_dir p = pr_dir q"

text \<open>Every group the state knows was published.\<close>

definition term_group :: "term_phase \<Rightarrow> nat option" where
  "term_group t = (case t of TTerm n \<Rightarrow> Some n | TProbe1 n \<Rightarrow> Some n | TTick1 n \<Rightarrow> Some n | TKill n \<Rightarrow> Some n
     | TProcKill n \<Rightarrow> Some n | TProbe2 n \<Rightarrow> Some n | TTick2 n \<Rightarrow> Some n | _ \<Rightarrow> None)"

definition knows_groups :: "proc_event list \<Rightarrow> process \<Rightarrow> bool" where
  "knows_groups g p \<longleftrightarrow> (\<forall>n. pr_remotePgid p = Some n \<longrightarrow> published g n) \<and> (\<forall>n. pr_started p = Resolved n \<longrightarrow> published g n) \<and>
     (\<forall>t n. pr_terminationAttempt p = Some t \<longrightarrow> term_group t = Some n \<longrightarrow> published g n)"

definition sends_allowed :: "proc_event list \<Rightarrow> process \<Rightarrow> reaction \<Rightarrow> bool" where
  "sends_allowed g p r \<longleftrightarrow> knows_groups g (fst r) \<and> same_place p (fst r) \<and> (\<forall>c. Command c \<in> set (snd r) \<longrightarrow> allowed p g c)"

lemma same_place_simps [simp]:
  "same_place p p" "same_place p (at_term t q) = same_place p q" "same_place p (markQuiescent q) = same_place p q"
  "same_place p (waits k w q) = same_place p q" "same_place p (terminate q) = same_place p q"
  "same_place p (expire_output q) = same_place p q" "same_place p (note_race r q) = same_place p q"
  by (auto simp: same_place_def at_term_def markQuiescent_def waits_def terminate_def expire_output_def note_race_def)

lemma knows_groups_simps [simp]:
  "knows_groups g (markQuiescent p) = knows_groups g p" "knows_groups g (waits k w p) = knows_groups g p"
  "knows_groups g (expire_output p) = knows_groups g p" "knows_groups g (note_race r p) = knows_groups g p"
  "knows_groups g p \<Longrightarrow> knows_groups g (terminate p)"
  "knows_groups g p \<Longrightarrow> (\<And>n. term_group t = Some n \<Longrightarrow> published g n) \<Longrightarrow> knows_groups g (at_term t p)"
  by (auto simp: knows_groups_def at_term_def markQuiescent_def waits_def terminate_def expire_output_def note_race_def
      term_group_def split: if_splits)

lemma allowed_intros [simp]:
  "published g n \<Longrightarrow> allowed p g (kill_command (js ''0'') n)"
  "published g n \<Longrightarrow> allowed p g (kill_command (js ''TERM'') n)"
  "published g n \<Longrightarrow> allowed p g (kill_command (js ''KILL'') n)"
  "allowed p g (cat_command (statusPath p))"
  "allowed p g (buildSpawnCommand (pr_id p) (the (pr_root p)))"
  "set ps \<subseteq> own_paths p \<Longrightarrow> allowed p g (rm_command r ps)"
  by (auto simp: allowed_def)

lemma sends_allowed_trans:
  "same_place p q \<Longrightarrow> sends_allowed g q r \<Longrightarrow> sends_allowed g p r"
proof -
  assume s: "same_place p q" and r: "sends_allowed g q r"
  then have "allowed p g c = allowed q g c" for c
    unfolding allowed_def own_paths_def statusPath_def same_place_def by simp
  then show ?thesis using s r by (auto simp: sends_allowed_def same_place_def)
qed

lemma term_step_allowed:
  assumes "knows_groups g p" "pr_terminationAttempt p = Some t"
  shows "sends_allowed g p (term_step t ev p)"
proof -
  have n: "published g n" if "term_group t = Some n" for n
    using assms that by (auto simp: knows_groups_def)
  have st: "published g n" if "pr_started p = Resolved n" for n
    using assms that by (auto simp: knows_groups_def)
  show ?thesis
    using assms(1) n st
    by (cases t; cases ev)
       (auto simp: sends_allowed_def term_step_def term_launched_def term_started_def after_probe_def quiet_def force_kill_def
          probe_group_def term_group_def knows_groups_def at_term_def markQuiescent_def same_place_def
          split: deferred.splits call_result.splits if_splits)
qed

lemma remove_state_dir_allowed: "knows_groups g p \<Longrightarrow> sends_allowed g p (remove_state_dir e c p)"
  by (auto simp: sends_allowed_def remove_state_dir_def knows_groups_def same_place_def own_paths_def)

lemma wait_ends_allowed: "knows_groups g p \<Longrightarrow> sends_allowed g p (wait_ends k r p)"
proof -
  assume k: "knows_groups g p"
  let ?q = "p\<lparr>pr_waiters := AList.delete k (pr_waiters p)\<rparr>"
  have q: "knows_groups g ?q" "same_place p ?q" using k by (simp_all add: knows_groups_def same_place_def)
  then have "sends_allowed g p (remove_state_dir e c ?q)" for e c
    using sends_allowed_trans remove_state_dir_allowed by blast
  then show ?thesis
    using q by (auto simp: wait_ends_def Let_def sends_allowed_def split: option.split run_phase.split)
qed

lemma wait_ends_quiet_allowed: "knows_groups g p \<Longrightarrow> sends_allowed g p (wait_ends k r (markQuiescent p))"
  by (rule sends_allowed_trans[of p "markQuiescent p"]) (simp_all add: wait_ends_allowed)

lemma wait_decide_allowed: "knows_groups g p \<Longrightarrow> sends_allowed g p (wait_decide k x a p)"
  by (simp add: wait_decide_def wait_ends_quiet_allowed) (simp add: sends_allowed_def)

lemma wait_probe_allowed: "knows_groups g p \<Longrightarrow> sends_allowed g p (wait_probe k x p)"
  by (auto simp: wait_probe_def wait_decide_allowed split: option.split)
     (auto simp: sends_allowed_def knows_groups_def waits_def same_place_def)

lemma wait_loop_allowed: "knows_groups g p \<Longrightarrow> sends_allowed g p (wait_loop k a p)"
  by (auto simp: wait_loop_def wait_probe_allowed wait_ends_allowed wait_ends_quiet_allowed split: option.split)
     (auto simp: sends_allowed_def)

lemma wait_broken_allowed: "knows_groups g p \<Longrightarrow> sends_allowed g p (wait_broken k a r p)"
  by (auto simp: wait_broken_def wait_ends_allowed wait_ends_quiet_allowed split: call_result.split)

lemma idle_allowed: "knows_groups g p \<Longrightarrow> sends_allowed g p (p, [])"
  by (simp add: sends_allowed_def)

lemma wait_step_allowed: "knows_groups g p \<Longrightarrow> sends_allowed g p (wait_step k w ev p)"
  by (auto simp: wait_step_def wait_probe_allowed wait_decide_allowed wait_loop_allowed wait_ends_allowed wait_broken_allowed
      idle_allowed split: wait_phase.split wait_event.split call_result.split)

lemma run_catch_allowed: "knows_groups g p \<Longrightarrow> sends_allowed g p (run_catch e p)"
proof -
  assume k: "knows_groups g p"
  define p1 where "p1 = p\<lparr>pr_spawnFailed := pr_spawnFailed p \<or>
                   \<not> is_settled (pr_started p) \<and> \<not> is_settled (pr_ended p) \<and> \<not> is_settled (pr_failed p),
                 pr_started := reject_with e (pr_started p), pr_launched := reject_with e (pr_launched p)\<rparr>"
  have p1: "knows_groups g p1" "same_place p p1"
    using k by (auto simp: p1_def knows_groups_def same_place_def reject_with_def split: deferred.splits)
  have "knows_groups g (terminate p1)" using p1 by simp
  then have w: "sends_allowed g p (wait_loop None False ((terminate p1)\<lparr>pr_phase := RollingBack e c\<rparr>))" for c
    using p1(2) by (intro sends_allowed_trans[OF _ wait_loop_allowed]) (auto simp: knows_groups_def same_place_def terminate_def)
  have r: "sends_allowed g p (remove_state_dir e c p1)" for c
    using sends_allowed_trans[OF p1(2) remove_state_dir_allowed[OF p1(1)]] .
  show ?thesis
    unfolding run_catch_def Let_def p1_def[symmetric] using w r by simp
qed

lemma finishOutcome_allowed: "knows_groups g p \<Longrightarrow> sends_allowed g p (finishOutcome s p)"
  by (auto simp: finishOutcome_def run_catch_allowed Let_def split: option.split)
     (auto simp: sends_allowed_def settle_def finalizeSpills_def knows_groups_def same_place_def own_paths_def Let_def)

lemma phase_allowed:
  assumes "knows_groups g p" "\<forall>c. Command c \<in> set out \<longrightarrow> allowed p g c"
  shows "sends_allowed g p (p\<lparr>pr_phase := x\<rparr>, out)"
    "sends_allowed g p ((expire_output p)\<lparr>pr_phase := x\<rparr>, out)"
    "sends_allowed g p (p\<lparr>pr_phase := x, pr_settled := b\<rparr>, out)"
    "sends_allowed g p (p\<lparr>pr_phase := x, pr_launched := y\<rparr>, out)"
  using assms by (auto simp: sends_allowed_def knows_groups_def same_place_def expire_output_def)

lemma finish_expired_allowed: "knows_groups g p \<Longrightarrow> sends_allowed g p (finishOutcome s (expire_output p))"
  by (rule sends_allowed_trans[OF _ finishOutcome_allowed]) simp_all

lemma run_parts_allowed:
  assumes "knows_groups g p"
  shows "sends_allowed g p (race_won r p)" "sends_allowed g p (closed_flushed p)" "sends_allowed g p (closed_read u p)"
    "sends_allowed g p (settle z p)" "sends_allowed g p (open_channel env p)" "sends_allowed g p (channel_open env p)"
  using assms
  by (auto simp: race_won_def closed_flushed_def closed_read_def settle_def open_channel_def channel_open_def phase_allowed
      run_catch_allowed finishOutcome_allowed finish_expired_allowed
      split: race.split deferred.split option.split stdin_mode.split)

lemma run_step_allowed: "knows_groups g p \<Longrightarrow> sends_allowed g p (run_step ph ev p)"
  by (cases ph; cases ev; simp add: run_step_def run_parts_allowed run_catch_allowed finishOutcome_allowed idle_allowed phase_allowed
        split: sum.split option.split bool.split deferred.split)

lemma onControl_groups:
  assumes "knows_groups g p"
  shows "knows_groups (g @ [ControlLine l]) (onControl l p) \<and> same_place p (onControl l p)"
proof -
  have "knows_groups (g @ [ControlLine l]) p" using assms by (auto simp: knows_groups_def intro: published_mono)
  moreover have "published (g @ [ControlLine l]) n" if "parse_control l = Some (START, x)" "parsePublishedPgid x = Inr n" for x n
    using that by (auto simp: published_def)
  ultimately show ?thesis
    by (auto simp: onControl_def resolve_failed_def resolve_ended_def same_place_def knows_groups_def note_race_def
        resolve_with_def split: option.split verb.split sum.split deferred.splits if_splits)
qed

lemma process_step_allowed:
  assumes "knows_groups g p"
  shows "sends_allowed (g @ [ev]) p (process_step p ev)"
proof -
  have k: "knows_groups (g @ [ev]) p" using assms by (auto simp: knows_groups_def intro: published_mono)
  show ?thesis
  proof (cases ev)
    case (ControlLine l)
    then show ?thesis using onControl_groups[OF assms] by (simp add: sends_allowed_def)
  next
    case (Term e)
    then show ?thesis using k term_step_allowed[OF k] by (auto simp: sends_allowed_def split: option.split)
  next
    case (WaitForExit n a)
    then show ?thesis using k wait_loop_allowed[OF k] by (auto simp: sends_allowed_def)
  next
    case (Wait n e)
    then show ?thesis using k wait_step_allowed[OF k] by (auto simp: sends_allowed_def split: option.split)
  next
    case (Run e)
    then show ?thesis using run_step_allowed[OF k] by simp
  next
    case Terminate
    then show ?thesis using k by (simp add: sends_allowed_def)
  next
    case (StatusPolled s)
    then show ?thesis using k by (simp add: sends_allowed_def)
  next
    case ChannelClosed
    then show ?thesis using k by (simp add: sends_allowed_def)
  qed (use k in \<open>auto simp: sends_allowed_def knows_groups_def same_place_def\<close>)
qed

definition commands_inv :: "process \<Rightarrow> proc_event list \<Rightarrow> proc_output list \<Rightarrow> bool" where
  "commands_inv p g h \<longleftrightarrow> knows_groups g p \<and> (\<forall>c. Command c \<in> set h \<longrightarrow> allowed p g c)"

lemma allowed_place: "same_place p q \<Longrightarrow> allowed p g c \<longleftrightarrow> allowed q g c"
  unfolding allowed_def own_paths_def statusPath_def same_place_def by simp

lemma allowed_mono: "allowed p g c \<Longrightarrow> allowed p (g @ g') c"
  unfolding allowed_def using published_mono by blast

interpretation proc_commands: reactive process_step commands_inv
proof
  fix p g h ev p' out
  assume "commands_inv p g h" "process_step p ev = (p', out)"
  then have "sends_allowed (g @ [ev]) p (p', out)" "\<forall>c. Command c \<in> set h \<longrightarrow> allowed p (g @ [ev]) c"
    using process_step_allowed[of g p ev] allowed_mono by (auto simp: commands_inv_def)
  then show "commands_inv p' (g @ [ev]) (h @ out)"
    using allowed_place[of p p'] by (auto simp: commands_inv_def sends_allowed_def)
qed

lemma steps_place: "knows_groups g p \<Longrightarrow> steps process_step p es = (q, out) \<Longrightarrow> same_place p q"
proof (induction es arbitrary: g p out)
  case (Cons ev es)
  obtain p1 o1 where s: "process_step p ev = (p1, o1)" by (cases "process_step p ev")
  have "sends_allowed (g @ [ev]) p (p1, o1)" using process_step_allowed[OF Cons.prems(1), of ev] s by simp
  then have "knows_groups (g @ [ev]) p1" "same_place p p1" by (simp_all add: sends_allowed_def)
  then show ?case using Cons.IH[of "g @ [ev]" p1] Cons.prems(2) s by (auto simp: same_place_def split: prod.splits)
qed simp

text \<open>The process as it is constructed, before \<open>run\<close> starts.\<close>

definition new_process :: "spawn_spec \<Rightarrow> jstr \<Rightarrow> bool \<Rightarrow> jstr option \<Rightarrow> process" where
  "new_process spec i live root =
     (let dir = (case root of None \<Rightarrow> [] | Some r \<Rightarrow> process_dir r i) in
      \<lparr>pr_id = i, pr_spec = spec, pr_root = root, pr_live = live, pr_dir = dir, pr_phase = Preparing,
       pr_race = None, pr_launched = Unsettled, pr_started = Unsettled, pr_failed = Unsettled, pr_ended = Unsettled,
       pr_settled = False, pr_stdoutReader = reader_for (sp_stdout spec) dir (js ''stdout.spill''),
       pr_stderrReader = reader_for (sp_stderr spec) dir (js ''stderr.spill''), pr_diagnostics = [],
       pr_remotePgid = None, pr_spawnFailed = False, pr_outputDrainExpired = False, pr_outputTransportError = None,
       pr_quiescenceProven = False, pr_terminationRequested = False, pr_terminationAttempt = None,
       pr_terminationFailure = None, pr_terminationSignal = None, pr_waiters = []\<rparr>)"

lemma handle_cases:
  "SshSubprocessHandle spec i live root aborted =
     (case (if \<not> live then run_catch (connLostError (js ''no live SSH connection'')) (new_process spec i live root)
       else if (case root of None \<Rightarrow> True | Some r \<Rightarrow> \<not> isAbsolute r)
         then run_catch (connLostError (js ''remote runtime root unavailable'')) (new_process spec i live root)
       else (new_process spec i live root, [])) of (p, out) \<Rightarrow> (if aborted then terminate p else p, out))"
  by (simp add: SshSubprocessHandle_def new_process_def Let_def)

text \<open>A property of the new process that \<open>run_catch\<close> and \<open>terminate\<close> keep holds of the handle.\<close>

lemma handle_inv:
  assumes "SshSubprocessHandle spec i live root aborted = (p, out)"
    and "I (new_process spec i live root, [])"
    and "\<And>e. I (run_catch e (new_process spec i live root))"
    and "\<And>q out. I (q, out) \<Longrightarrow> I (terminate q, out)"
  shows "I (p, out)"
  using assms by (auto simp: handle_cases split: if_splits prod.splits) (metis assms(3))+

lemma handle_allowed:
  assumes "SshSubprocessHandle spec i live root aborted = (p, out)"
  shows "sends_allowed [] (new_process spec i live root) (p, out)"
proof -
  have k: "knows_groups [] (new_process spec i live root)" by (simp add: knows_groups_def new_process_def Let_def)
  show ?thesis
    using assms
  proof (rule handle_inv)
    show "sends_allowed [] (new_process spec i live root) (new_process spec i live root, [])" using k by (rule idle_allowed)
    show "sends_allowed [] (new_process spec i live root) (run_catch e (new_process spec i live root))" for e
      using k by (rule run_catch_allowed)
  qed (simp add: sends_allowed_def)
qed

text \<open>
  C26: Nothing but the process's own group is ever signalled. In every run, whatever the wrapper, the
  transport and the user do, each command the handle sends is the spawn command, a read of its
  status file, a removal of its own state, or a \<^verbatim>\<open>kill\<close> with signal 0, TERM or KILL of a group above 1 that
  a START line of the wrapper published.
\<close>

theorem signals_only_own_group:
  assumes "SshSubprocessHandle spec i live root aborted = (p0, out0)" and "steps process_step p0 es = (p, out)"
    and "Command c \<in> set (out0 @ out)"
  shows "c = buildSpawnCommand i (the root) \<or> c = cat_command (statusPath p0) \<or>
    (\<exists>r ps. c = rm_command r ps \<and> set ps \<subseteq> own_paths p0) \<or>
    (\<exists>sig n l x. c = kill_command sig n \<and> sig \<in> {js ''0'', js ''TERM'', js ''KILL''} \<and> 1 < n \<and>
       ControlLine l \<in> set es \<and> parse_control l = Some (START, x) \<and> parsePublishedPgid x = Inr n)"
proof -
  note h = handle_allowed[OF assms(1)]
  have place: "same_place (new_process spec i live root) p0" using h by (simp add: sends_allowed_def)
  have inv: "commands_inv p0 [] out0"
    using h allowed_place[OF place] by (auto simp: commands_inv_def sends_allowed_def)
  have "same_place p0 p" using steps_place[OF _ assms(2)] h by (auto simp: sends_allowed_def)
  then have "allowed p0 es c"
    using proc_commands.always[OF inv assms(2)] assms(3) allowed_place by (auto simp: commands_inv_def)
  moreover have "pr_id p0 = i" "pr_root p0 = root" using place by (simp_all add: same_place_def new_process_def Let_def)
  ultimately show ?thesis
    using published_safe unfolding allowed_def published_def by metis
qed

end
