(* ===== verification/ProcessOutcome.thy ===== *)
theory ProcessOutcome
  imports ProcessSafety
begin

text \<open>
  What \<open>done\<close> of a remote process reports.
\<close>

section \<open>Outcomes\<close>

text \<open>The status texts the wrapper has published, by its END line or its status file.\<close>

definition told :: "proc_event list \<Rightarrow> jstr \<Rightarrow> bool" where
  "told g s \<longleftrightarrow> (\<exists>l. ControlLine l \<in> set g \<and> parse_control l = Some (END, s)) \<or> StatusPolled s \<in> set g \<or>
     Run (FinalStatus (Some s)) \<in> set g"

definition reported :: "proc_event list \<Rightarrow> nat deferred \<Rightarrow> SubprocessOutcome \<Rightarrow> bool" where
  "reported g st res \<longleftrightarrow>
     (\<exists>s r. told g s \<and> parseStatusText s = Some r \<and>
        (res = r \<or> Terminate \<in> set g \<and> (\<exists>c. so_exitCode r = Some c \<and> 128 < c) \<and>
           (\<exists>sig \<in> {js ''SIGTERM'', js ''SIGKILL''}. res = \<lparr>so_exitCode = None, so_signal = Some sig\<rparr>))) \<or>
     Terminate \<in> set g \<and> res = \<lparr>so_exitCode = None, so_signal = Some (js ''SIGTERM'')\<rparr> \<and> (\<exists>x. st = Rejected x)"

definition phase_inv :: "proc_event list \<Rightarrow> nat deferred \<Rightarrow> run_phase \<Rightarrow> bool" where
  "phase_inv g st ph \<longleftrightarrow> (case ph of
       EndFlush s \<Rightarrow> told g s | StatusGrace s \<Rightarrow> told g s | CutKill s \<Rightarrow> told g s | CutFlush s \<Rightarrow> told g s
     | RollingBack _ c \<Rightarrow> \<not> c
     | Removing _ c \<Rightarrow> c \<longrightarrow> Terminate \<in> set g \<and> (\<exists>x. st = Rejected x)
     | Finished (Inr res) \<Rightarrow> reported g st res
     | _ \<Rightarrow> True)"

definition failing :: "run_phase \<Rightarrow> bool" where
  "failing ph \<longleftrightarrow> (case ph of RollingBack _ _ \<Rightarrow> True | Removing _ c \<Rightarrow> \<not> c | Finished (Inl _) \<Rightarrow> True | _ \<Rightarrow> False)"

definition fin :: "process \<Rightarrow> (jstr + SubprocessOutcome) list" where
  "fin p = (case pr_phase p of Finished r \<Rightarrow> [r] | _ \<Rightarrow> [])"

definition settled_list :: "proc_output list \<Rightarrow> (jstr + SubprocessOutcome) list" where
  "settled_list out = concat (map (\<lambda>c. case c of Settled r \<Rightarrow> [r] | _ \<Rightarrow> []) out)"

definition outcome_inv :: "proc_event list \<Rightarrow> process \<Rightarrow> bool" where
  "outcome_inv g p \<longleftrightarrow> phase_inv g (pr_started p) (pr_phase p) \<and>
     (\<forall>s. pr_race p = Some (ByEnd s) \<or> pr_race p = Some (ByStatus s) \<or> pr_ended p = Resolved s \<longrightarrow> told g s) \<and>
     (pr_remotePgid p \<noteq> None \<longrightarrow> is_settled (pr_started p)) \<and>
     (pr_terminationRequested p \<longrightarrow> Terminate \<in> set g \<or> failing (pr_phase p)) \<and>
     (pr_terminationAttempt p \<noteq> None \<or> pr_terminationSignal p \<noteq> None \<longrightarrow> pr_terminationRequested p) \<and>
     (\<forall>sig. pr_terminationSignal p = Some sig \<longrightarrow> sig \<in> {js ''SIGTERM'', js ''SIGKILL''}) \<and>
     (pr_settled p \<longleftrightarrow> fin p \<noteq> [])"

definition outcome_step :: "proc_event list \<Rightarrow> process \<Rightarrow> reaction \<Rightarrow> bool" where
  "outcome_step g p r \<longleftrightarrow> outcome_inv g (fst r) \<and> fin (fst r) = fin p @ settled_list (snd r)"

lemma settled_list_simps [simp]:
  "settled_list [] = []" "settled_list (Settled r # out) = r # settled_list out"
  "settled_list (Command c # out) = settled_list out" "settled_list (Write b # out) = settled_list out"
  "settled_list (EndStdin # out) = settled_list out" "settled_list (KillChannel # out) = settled_list out"
  "settled_list (WaitEnds n wr # out) = settled_list out" "settled_list (out @ out') = settled_list out @ settled_list out'"
  by (simp_all add: settled_list_def)

lemma told_mono: "told g s \<Longrightarrow> told (g @ g') s"
  by (auto simp: told_def)

lemma reported_mono: "reported g st r \<Longrightarrow> reported (g @ g') st r"
  unfolding reported_def using told_mono by (metis UnCI set_append)

lemma outcome_inv_mono: "outcome_inv g p \<Longrightarrow> outcome_inv (g @ g') p"
  by (auto simp: outcome_inv_def phase_inv_def told_mono reported_mono split: run_phase.splits sum.splits)

lemma term_step_outcome:
  assumes "outcome_inv g p" "pr_terminationAttempt p = Some t"
  shows "outcome_step g p (term_step t ev p)"
  using assms
  by (cases t; cases ev)
     (auto simp: outcome_step_def outcome_inv_def fin_def term_step_def term_launched_def term_started_def after_probe_def
        quiet_def force_kill_def probe_group_def at_term_def markQuiescent_def
        split: deferred.splits call_result.splits if_splits)

lemma remove_state_dir_outcome:
  assumes "outcome_inv g (p\<lparr>pr_phase := Removing e c\<rparr>)" "fin p = []"
  shows "outcome_step g p (remove_state_dir e c p)"
  using assms by (simp add: outcome_step_def remove_state_dir_def) (simp add: fin_def)

lemma wait_frame:
  "outcome_inv g p \<Longrightarrow> outcome_inv g (p\<lparr>pr_waiters := w\<rparr>)" "outcome_inv g p \<Longrightarrow> outcome_inv g (markQuiescent p)"
  "outcome_inv g p \<Longrightarrow> outcome_inv g (waits k x p)"
  "fin (p\<lparr>pr_waiters := w\<rparr>) = fin p" "fin (markQuiescent p) = fin p" "fin (waits k x p) = fin p"
  by (simp_all add: outcome_inv_def fin_def markQuiescent_def waits_def)

lemma wait_ends_outcome:
  assumes "outcome_inv g p"
  shows "outcome_step g p (wait_ends k r p)"
proof -
  let ?q = "p\<lparr>pr_waiters := AList.delete k (pr_waiters p)\<rparr>"
  have q: "outcome_inv g ?q" "fin ?q = fin p" using assms by (simp_all add: wait_frame)
  show ?thesis
  proof (cases "k = None \<and> (\<exists>e c. pr_phase p = RollingBack e c)")
    case True
    then obtain e c where k: "k = None" "pr_phase p = RollingBack e c" by blast
    then have "\<not> c" using assms by (simp add: outcome_inv_def phase_inv_def)
    then have "outcome_inv g (?q\<lparr>pr_phase := Removing e' c\<rparr>)" for e'
      using q(1) k by (simp add: outcome_inv_def phase_inv_def failing_def fin_def)
    moreover have "fin ?q = []" using k by (simp add: fin_def)
    ultimately show ?thesis
      using k remove_state_dir_outcome[where p="?q" and c=c and g=g] q(2) by (simp add: wait_ends_def outcome_step_def split: sum.split)
  next
    case False
    then show ?thesis
      using q by (auto simp: wait_ends_def outcome_step_def Let_def split: option.split run_phase.split)
  qed
qed

lemma outcome_step_trans: "outcome_step g q r \<Longrightarrow> fin q = fin p \<Longrightarrow> outcome_step g p r"
  by (simp add: outcome_step_def)

lemma wait_outcome:
  assumes "outcome_inv g p"
  shows "outcome_step g p (p, [])" "outcome_step g p (wait_ends k r (markQuiescent p))" "settled_list out = [] \<Longrightarrow> outcome_step g p (waits k x p, out)"
  using assms outcome_step_trans[OF wait_ends_outcome[of g "markQuiescent p"]]
  by (simp_all add: outcome_step_def wait_frame)

lemma wait_decide_outcome: "outcome_inv g p \<Longrightarrow> outcome_step g p (wait_decide k x a p)"
  by (simp add: wait_decide_def wait_outcome)

lemma wait_probe_outcome: "outcome_inv g p \<Longrightarrow> outcome_step g p (wait_probe k x p)"
  by (simp add: wait_probe_def wait_decide_outcome wait_outcome split: option.split)

lemma wait_loop_outcome: "outcome_inv g p \<Longrightarrow> outcome_step g p (wait_loop k a p)"
  by (simp add: wait_loop_def wait_probe_outcome wait_ends_outcome wait_outcome split: option.split)

lemma wait_broken_outcome: "outcome_inv g p \<Longrightarrow> outcome_step g p (wait_broken k a r p)"
  by (simp add: wait_broken_def wait_ends_outcome wait_outcome split: call_result.split)

lemma wait_step_outcome: "outcome_inv g p \<Longrightarrow> outcome_step g p (wait_step k w ev p)"
  by (simp add: wait_step_def wait_probe_outcome wait_decide_outcome wait_loop_outcome wait_ends_outcome wait_broken_outcome
      wait_outcome split: wait_phase.split wait_event.split call_result.split)

text \<open>The phases of a run that has not failed.\<close>

definition under_way :: "run_phase \<Rightarrow> bool" where
  "under_way ph \<longleftrightarrow> (case ph of RollingBack _ _ \<Rightarrow> False | Removing _ _ \<Rightarrow> False | Finished _ \<Rightarrow> False | _ \<Rightarrow> True)"

lemma under_way_facts: "under_way (pr_phase p) \<Longrightarrow> fin p = [] \<and> \<not> failing (pr_phase p)"
  by (cases "pr_phase p") (auto simp: under_way_def fin_def failing_def)

lemma run_catch_outcome:
  assumes "outcome_inv g p" "under_way (pr_phase p)"
  shows "outcome_step g p (run_catch e p)"
proof -
  define canceled where "canceled = (pr_terminationRequested p \<and> \<not> is_settled (pr_started p) \<and> \<not> is_settled (pr_ended p))"
  define p1 where "p1 = p\<lparr>pr_spawnFailed := pr_spawnFailed p \<or>
                   \<not> is_settled (pr_started p) \<and> \<not> is_settled (pr_ended p) \<and> \<not> is_settled (pr_failed p),
                 pr_started := reject_with e (pr_started p), pr_launched := reject_with e (pr_launched p)\<rparr>"
  note f = under_way_facts[OF assms(2)]
  have s: "is_settled (pr_started p1)" by (simp add: p1_def is_settled_def reject_with_def split: deferred.split)
  have rej: "\<exists>x. pr_started p1 = Rejected x" if canceled
    using that by (auto simp: canceled_def p1_def is_settled_def reject_with_def split: deferred.splits)
  have t: "Terminate \<in> set g" if canceled
    using that assms(1) f by (simp add: canceled_def outcome_inv_def)
  have fin1: "fin p1 = []" using f by (simp add: p1_def fin_def)
  have inv: "outcome_inv g (p1\<lparr>pr_phase := Removing e canceled\<rparr>)"
    using assms f rej t s by (auto simp: outcome_inv_def phase_inv_def p1_def fin_def failing_def)
  have "\<not> canceled" if "pr_remotePgid p1 \<noteq> None"
    using that assms(1) by (auto simp: canceled_def outcome_inv_def p1_def)
  then have roll: "outcome_inv g ((terminate p1)\<lparr>pr_phase := RollingBack e canceled\<rparr>)" if "pr_remotePgid p1 \<noteq> None"
    using that assms f s by (auto simp: outcome_inv_def phase_inv_def p1_def fin_def failing_def terminate_def)
  have "outcome_step g p (wait_loop None False ((terminate p1)\<lparr>pr_phase := RollingBack e canceled\<rparr>))" if "pr_remotePgid p1 \<noteq> None"
    by (rule outcome_step_trans[OF wait_loop_outcome[OF roll[OF that]]]) (use f in \<open>simp add: fin_def\<close>)
  moreover have "outcome_step g p (remove_state_dir e canceled p1)"
    by (rule outcome_step_trans[OF remove_state_dir_outcome[OF inv fin1]]) (use f fin1 in simp)
  ultimately show ?thesis
    unfolding run_catch_def Let_def p1_def[symmetric] canceled_def[symmetric] by simp
qed

lemma settle_outcome:
  assumes "outcome_inv g p" "fin p = []" "case r of Inr res \<Rightarrow> reported g (pr_started p) res | Inl _ \<Rightarrow> True"
    and "pr_terminationRequested p \<Longrightarrow> Terminate \<in> set g \<or> failing (Finished r)"
  shows "outcome_step g p (settle r p)"
  using assms by (auto simp: settle_def outcome_step_def outcome_inv_def phase_inv_def fin_def split: sum.splits)

lemma finishOutcome_outcome:
  assumes "outcome_inv g p" "under_way (pr_phase p)" "told g s"
  shows "outcome_step g p (finishOutcome s p)"
proof (cases "parseStatusText s")
  case (Some r)
  note f = under_way_facts[OF assms(2)]
  have t: "Terminate \<in> set g" if "pr_terminationRequested p" using that assms(1) f by (auto simp: outcome_inv_def)
  define res where "res = (case (so_signal r, pr_terminationSignal p, so_exitCode r) of
                          (None, Some sig, Some c) \<Rightarrow>
                            if c > 128 then \<lparr>so_exitCode = None, so_signal = Some sig\<rparr> else r
                        | _ \<Rightarrow> r)"
  have "reported g (pr_started p) res"
    using assms(1,3) Some t unfolding reported_def res_def outcome_inv_def
    by (intro disjI1 exI[of _ s] exI[of _ r]) (auto split: option.split)
  then have st: "outcome_step g p (settle (Inr res) p)"
    using assms(1) f t by (intro settle_outcome) auto
  have "settled_list (finalizeSpills p) = []" by (simp add: finalizeSpills_def Let_def)
  then have "outcome_step g p (case settle (Inr res) p of (p1, out) \<Rightarrow> (p1, finalizeSpills p @ out))"
    using st by (cases "settle (Inr res) p") (simp add: outcome_step_def)
  then show ?thesis
    using Some run_catch_outcome[OF assms(1,2)] by (simp add: finishOutcome_def Let_def res_def split: option.split)
qed (simp add: finishOutcome_def run_catch_outcome[OF assms(1,2)])

lemma expire_frame:
  "outcome_inv g p \<Longrightarrow> outcome_inv g (expire_output p)" "fin (expire_output p) = fin p"
  "pr_phase (expire_output p) = pr_phase p"
  by (simp_all add: outcome_inv_def fin_def expire_output_def)

lemma finish_expired_outcome:
  "outcome_inv g p \<Longrightarrow> under_way (pr_phase p) \<Longrightarrow> told g s \<Longrightarrow> outcome_step g p (finishOutcome s (expire_output p))"
  using outcome_step_trans[OF finishOutcome_outcome[of g "expire_output p" s]] by (simp add: expire_frame)

lemma phase_outcome:
  assumes "outcome_inv g p" "under_way (pr_phase p)" "under_way ph" "phase_inv g (pr_started p) ph" "settled_list out = []"
  shows "outcome_step g p (p\<lparr>pr_phase := ph\<rparr>, out)" "outcome_step g p ((expire_output p)\<lparr>pr_phase := ph\<rparr>, out)"
    "outcome_step g p (p\<lparr>pr_phase := ph, pr_launched := y\<rparr>, out)"
proof -
  have "fin (p\<lparr>pr_phase := ph\<rparr>) = []" using under_way_facts[of "p\<lparr>pr_phase := ph\<rparr>"] assms(3) by simp
  then show "outcome_step g p (p\<lparr>pr_phase := ph\<rparr>, out)" "outcome_step g p ((expire_output p)\<lparr>pr_phase := ph\<rparr>, out)"
    "outcome_step g p (p\<lparr>pr_phase := ph, pr_launched := y\<rparr>, out)"
    using assms under_way_facts[OF assms(2)]
    by (auto simp: outcome_step_def outcome_inv_def fin_def expire_output_def)
qed

lemma phase_inv_simps [simp]:
  "phase_inv g st (Opening env)" "phase_inv g st Racing" "phase_inv g st ClosedFlush" "phase_inv g st ClosedRead"
  "phase_inv g st (EndFlush s) = told g s" "phase_inv g st (StatusGrace s) = told g s" "phase_inv g st (CutKill s) = told g s"
  "phase_inv g st (CutFlush s) = told g s"
  by (simp_all add: phase_inv_def)

lemma under_way_simps [simp]:
  "under_way Preparing" "under_way (Opening env)" "under_way Racing" "under_way ClosedFlush" "under_way ClosedRead"
  "under_way (EndFlush s)" "under_way (StatusGrace s)" "under_way (CutKill s)" "under_way (CutFlush s)"
  by (simp_all add: under_way_def)

lemma run_step_outcome:
  assumes "outcome_inv g p" "Run ev \<in> set g"
  shows "outcome_step g p (run_step (pr_phase p) ev p)"
proof -
  have i: "outcome_step g p (p, [])" using assms by (simp add: wait_outcome)
  have e: "\<And>s. pr_ended p = Resolved s \<Longrightarrow> told g s" "\<And>s. pr_race p = Some (ByEnd s) \<Longrightarrow> told g s"
    "\<And>s. pr_race p = Some (ByStatus s) \<Longrightarrow> told g s"
    using assms(1) by (auto simp: outcome_inv_def)
  have ph: "phase_inv g (pr_started p) (pr_phase p)" using assms(1) by (simp add: outcome_inv_def)
  have w: "outcome_step g p (race_won r p)" if "under_way (pr_phase p)" "pr_race p = Some r" for r
    using that assms(1) e by (cases r) (simp_all add: race_won_def run_catch_outcome phase_outcome)
  have f: "outcome_step g p (closed_flushed p)" if "under_way (pr_phase p)"
    using that assms(1) e by (simp add: closed_flushed_def run_catch_outcome finishOutcome_outcome phase_outcome split: deferred.split)
  have told: "told g s" if "ev = FinalStatus (Some s)" for s
    using that assms(2) by (auto simp: told_def)
  have r: "outcome_step g p (closed_read u p)" if "under_way (pr_phase p)" "ev = FinalStatus u" for u
    using that assms(1) told by (cases u) (simp_all add: closed_read_def run_catch_outcome finish_expired_outcome)
  have o: "outcome_step g p (open_channel env p)" "outcome_step g p (channel_open env p)" if "under_way (pr_phase p)" for env
    using that assms(1) by (simp_all add: open_channel_def channel_open_def phase_outcome split: stdin_mode.split)
  show ?thesis
  proof (cases "pr_phase p")
    case (Removing x c)
    then have "outcome_step g p (settle (if c then Inr \<lparr>so_exitCode = None, so_signal = Some (js ''SIGTERM'')\<rparr> else Inl x) p)"
      using assms(1) ph by (intro settle_outcome) (auto simp: fin_def outcome_inv_def phase_inv_def failing_def reported_def)
    then show ?thesis using i Removing by (cases ev) (simp_all add: run_step_def)
  next
    case Preparing
    then show ?thesis using assms(1) i o by (cases ev) (simp_all add: run_step_def run_catch_outcome split: sum.split)
  next
    case (Opening env)
    then show ?thesis using assms(1) i o by (cases ev) (simp_all add: run_step_def run_catch_outcome split: option.split)
  next
    case Racing
    then show ?thesis using i w by (cases ev; cases "pr_race p") (simp_all add: run_step_def)
  next
    case (EndFlush s)
    then show ?thesis using i finishOutcome_outcome[OF assms(1), of s] ph by (cases ev) (simp_all add: run_step_def)
  next
    case (StatusGrace s)
    have "outcome_step g p ((expire_output p)\<lparr>pr_phase := CutKill s\<rparr>, [KillChannel])"
      using StatusGrace assms(1) ph by (intro phase_outcome) simp_all
    moreover have "outcome_step g p (p\<lparr>pr_phase := EndFlush s'\<rparr>, [])" if "pr_ended p = Resolved s'" for s'
      using StatusGrace assms(1) e(1)[OF that] by (intro phase_outcome) simp_all
    ultimately show ?thesis
      using StatusGrace i by (cases ev) (simp_all add: run_step_def split: bool.split deferred.split)
  next
    case (CutKill s)
    have "outcome_step g p (p\<lparr>pr_phase := CutFlush s\<rparr>, [])"
      using CutKill assms(1) ph by (intro phase_outcome) simp_all
    then show ?thesis using CutKill i by (cases ev) (simp_all add: run_step_def)
  next
    case (CutFlush s)
    then show ?thesis using i finishOutcome_outcome[OF assms(1), of s] ph by (cases ev) (simp_all add: run_step_def)
  next
    case ClosedFlush
    then show ?thesis using i f by (cases ev) (simp_all add: run_step_def)
  next
    case ClosedRead
    then show ?thesis using i r by (cases ev) (simp_all add: run_step_def)
  next
    case (RollingBack x c)
    then show ?thesis using i by (simp add: run_step_def)
  next
    case (Finished z)
    then show ?thesis using i by (simp add: run_step_def)
  qed
qed

lemma note_race_outcome:
  "outcome_inv g p \<Longrightarrow> (\<forall>s. r = ByEnd s \<or> r = ByStatus s \<longrightarrow> told g s) \<Longrightarrow> outcome_inv g (note_race r p)"
  "fin (note_race r p) = fin p"
  by (auto simp: outcome_inv_def note_race_def fin_def)

lemma phase_inv_start: "phase_inv g st ph \<Longrightarrow> phase_inv g (resolve_with n st) ph"
proof -
  assume ph: "phase_inv g st ph"
  have "reported g (resolve_with n st) r" if "reported g st r" for r
    using that unfolding reported_def resolve_with_def by (cases st) simp_all
  moreover have "\<exists>x. resolve_with n st = Rejected x" if "\<exists>x. st = Rejected x" using that by (auto simp: resolve_with_def)
  ultimately show ?thesis using ph by (cases ph) (auto simp: phase_inv_def split: sum.splits)
qed

lemma onControl_outcome:
  assumes "outcome_inv g p" "ControlLine l \<in> set g"
  shows "outcome_inv g (onControl l p)" "fin (onControl l p) = fin p"
proof -
  have told: "told g s" if "parse_control l = Some (END, s)" for s using that assms(2) by (auto simp: told_def)
  have "outcome_inv g (p\<lparr>pr_failed := Resolved m\<rparr>)" for m
    using assms(1) by (simp add: outcome_inv_def fin_def)
  then have f: "outcome_inv g (resolve_failed m p)" for m
    using assms(1) by (simp add: resolve_failed_def note_race_outcome)
  have "outcome_inv g (p\<lparr>pr_ended := Resolved s\<rparr>)" if "told g s" for s
    using assms(1) that by (simp add: outcome_inv_def fin_def)
  then have e: "outcome_inv g (resolve_ended s p)" if "told g s" for s
    using assms(1) that by (simp add: resolve_ended_def note_race_outcome)
  have s: "outcome_inv g (p\<lparr>pr_remotePgid := Some n, pr_started := resolve_with n (pr_started p)\<rparr>)" for n
  proof -
    have "phase_inv g (resolve_with n (pr_started p)) (pr_phase p)"
      using assms(1) by (simp add: outcome_inv_def phase_inv_start)
    then show ?thesis
      using assms(1) by (auto simp: outcome_inv_def fin_def is_settled_def resolve_with_def split: deferred.splits)
  qed
  have d: "outcome_inv g (p\<lparr>pr_diagnostics := ds\<rparr>)" for ds using assms(1) by (simp add: outcome_inv_def fin_def)
  show "outcome_inv g (onControl l p)"
    unfolding onControl_def using f e s d told by (simp split: option.split verb.split sum.split)
  show "fin (onControl l p) = fin p"
    by (simp add: onControl_def resolve_failed_def resolve_ended_def note_race_def fin_def split: option.split verb.split sum.split)
qed

lemma terminate_outcome:
  "outcome_inv g p \<Longrightarrow> Terminate \<in> set g \<Longrightarrow> outcome_inv g (terminate p)" "fin (terminate p) = fin p"
  by (simp_all add: outcome_inv_def terminate_def fin_def)

lemma process_step_outcome:
  assumes "outcome_inv g p"
  shows "outcome_step (g @ [ev]) p (process_step p ev)"
proof -
  let ?g = "g @ [ev]"
  have i: "outcome_inv ?g p" using assms by (rule outcome_inv_mono)
  show ?thesis
  proof (cases ev)
    case (ControlLine l)
    then show ?thesis using onControl_outcome[OF i, of l] by (simp add: outcome_step_def)
  next
    case (StatusPolled s)
    then have "outcome_inv ?g (note_race (ByStatus s) p)" by (intro note_race_outcome i) (auto simp: told_def)
    then show ?thesis using StatusPolled i note_race_outcome(2) by (simp add: outcome_step_def)
  next
    case ChannelClosed
    then show ?thesis using note_race_outcome(1)[of ?g p ByClosed] note_race_outcome(2) i by (simp add: outcome_step_def)
  next
    case (Run e)
    then show ?thesis using run_step_outcome[OF i, of e] by simp
  next
    case Terminate
    then show ?thesis using terminate_outcome(1)[of ?g p] terminate_outcome(2) i by (simp add: outcome_step_def)
  next
    case (Term e)
    then show ?thesis using term_step_outcome[OF i] wait_outcome(1)[OF i] by (auto split: option.split)
  next
    case (WaitForExit n a)
    then show ?thesis using wait_loop_outcome[OF i] wait_outcome(1)[OF i] by auto
  next
    case (Wait n e)
    then show ?thesis using wait_step_outcome[OF i] wait_outcome(1)[OF i] by (auto split: option.split)
  next
    case (Decoded b bs)
    then show ?thesis using i by (cases b) (simp_all add: outcome_step_def outcome_inv_def fin_def)
  qed (use i in \<open>simp_all add: outcome_step_def outcome_inv_def fin_def\<close>)
qed

definition outcomes_kept :: "process \<Rightarrow> proc_event list \<Rightarrow> proc_output list \<Rightarrow> bool" where
  "outcomes_kept p g h \<longleftrightarrow> outcome_inv g p \<and> fin p = settled_list h"

interpretation proc_outcomes: reactive process_step outcomes_kept
proof
  fix p g h ev p' out
  assume "outcomes_kept p g h" "process_step p ev = (p', out)"
  then show "outcomes_kept p' (g @ [ev]) (h @ out)"
    using process_step_outcome[of g p ev] by (simp add: outcomes_kept_def outcome_step_def)
qed

lemma handle_outcome:
  assumes "SshSubprocessHandle spec i live root aborted = (p, out)"
  shows "outcomes_kept p (if aborted then [Terminate] else []) out"
proof -
  let ?n = "new_process spec i live root" and ?g = "if aborted then [Terminate] else []"
  have n: "outcome_inv [] ?n" "fin ?n = []" "under_way (pr_phase ?n)"
    by (simp_all add: outcome_inv_def new_process_def Let_def fin_def phase_inv_def)
  have mono: "outcome_inv ?g q" if "outcome_inv [] q" for q using outcome_inv_mono[OF that, of ?g] by simp
  have c: "outcomes_kept q [] o1" if "run_catch e ?n = (q, o1)" for e q o1
    using run_catch_outcome[OF n(1,3), of e] that n(2) by (simp add: outcomes_kept_def outcome_step_def)
  have "outcomes_kept ?n [] []" using n by (simp add: outcomes_kept_def)
  with c obtain q where q: "outcomes_kept q [] out" "p = (if aborted then terminate q else q)"
    using assms by (auto simp: handle_cases split: if_splits prod.splits)
  then have "outcome_inv ?g q" "fin q = settled_list out" using mono by (simp_all add: outcomes_kept_def)
  then show ?thesis
    using q(2) terminate_outcome by (cases aborted) (simp_all add: outcomes_kept_def)
qed

text \<open>
  C27: \<open>done\<close> tells the truth, once. In every run it settles at most once; a result it resolves with is the
  parse of a status the wrapper published, by its END line or its status file, except that after a
  termination was asked for an exit code above 128 may be given as the signal sent, and that a run
  cancelled before the group was published reports SIGTERM.
\<close>

theorem done_reports_published_status:
  assumes "SshSubprocessHandle spec i live root aborted = (p0, out0)" and "steps process_step p0 es = (p, out)"
  defines "g \<equiv> (if aborted then [Terminate] else []) @ es"
  shows "length (settled_list (out0 @ out)) \<le> 1 \<and> (pr_settled p \<longleftrightarrow> settled_list (out0 @ out) \<noteq> []) \<and>
    (\<forall>res. Inr res \<in> set (settled_list (out0 @ out)) \<longrightarrow>
      (\<exists>s r. told g s \<and> parseStatusText s = Some r \<and>
        (res = r \<or> Terminate \<in> set g \<and> (\<exists>c. so_exitCode r = Some c \<and> 128 < c) \<and>
           (\<exists>sig \<in> {js ''SIGTERM'', js ''SIGKILL''}. res = \<lparr>so_exitCode = None, so_signal = Some sig\<rparr>))) \<or>
      Terminate \<in> set g \<and> res = \<lparr>so_exitCode = None, so_signal = Some (js ''SIGTERM'')\<rparr> \<and> (\<forall>n. pr_started p \<noteq> Resolved n))"
proof -
  have k: "outcomes_kept p g (out0 @ out)"
    unfolding g_def by (rule proc_outcomes.always[OF handle_outcome[OF assms(1)] assms(2)])
  then have ph: "phase_inv g (pr_started p) (pr_phase p)" and f: "settled_list (out0 @ out) = fin p"
    and s: "pr_settled p \<longleftrightarrow> fin p \<noteq> []"
    by (simp_all add: outcomes_kept_def outcome_inv_def)
  have rep: "reported g (pr_started p) res" if "Inr res \<in> set (fin p)" for res
    using that ph by (cases "pr_phase p") (simp_all add: fin_def phase_inv_def split: sum.splits)
  have "length (fin p) \<le> 1" by (simp add: fin_def split: run_phase.split)
  moreover have "\<forall>n. pr_started p \<noteq> Resolved n" if "\<exists>x. pr_started p = Rejected x" using that by auto
  ultimately show ?thesis
    unfolding f using s rep unfolding reported_def by blast
qed

end
