(* ===== verification/ProcessEnds.thy ===== *)
theory ProcessEnds
  imports ProcessSafety
begin

text \<open>
  How termination and the run of a remote process end: the ladder of signals, and that every run
  can be brought to its end by the replies it waits for.
\<close>

section \<open>The ladder\<close>

lemma kill_command_inj:
  assumes "kill_command s m = kill_command s' n" "s \<in> {js ''0'', js ''TERM'', js ''KILL''}" "s' \<in> {js ''0'', js ''TERM'', js ''KILL''}"
  shows "s = s' \<and> m = n"
proof -
  have "s @ js '' -'' @ digits m = s' @ js '' -'' @ digits n" using assms(1) by (simp add: kill_command_def)
  moreover from this have "s = s'" using assms(2,3) by (auto simp: js_def)
  ultimately show ?thesis by (metis digits_val_digits same_append_eq)
qed

lemma other_commands:
  "buildSpawnCommand i root \<noteq> kill_command s n" "cat_command path \<noteq> kill_command s n" "rm_command r ps \<noteq> kill_command s n"
  by (simp_all add: buildSpawnCommand_def cat_command_def rm_command_def kill_command_def js_def)

definition forced :: "proc_output list \<Rightarrow> nat \<Rightarrow> bool" where
  "forced out n \<longleftrightarrow> Command (kill_command (js ''KILL'') n) \<in> set out"

definition asked :: "proc_output list \<Rightarrow> nat \<Rightarrow> bool" where
  "asked out n \<longleftrightarrow> Command (kill_command (js ''TERM'') n) \<in> set out"

text \<open>
  A group in the ladder was asked before; an attempt that is over left proof or a failure.
\<close>

definition ladder_inv :: "process \<Rightarrow> proc_event list \<Rightarrow> proc_output list \<Rightarrow> bool" where
  "ladder_inv p g h \<longleftrightarrow>
     (\<forall>t n. pr_terminationAttempt p = Some t \<longrightarrow> term_group t = Some n \<longrightarrow> asked h n) \<and> (\<forall>n. forced h n \<longrightarrow> asked h n) \<and>
     (pr_terminationAttempt p = Some (TDone None) \<longrightarrow> pr_quiescenceProven p) \<and>
     (pr_terminationRequested p \<longrightarrow>
        pr_terminationAttempt p \<noteq> None \<or> pr_quiescenceProven p \<or> pr_terminationFailure p \<noteq> None)"

text \<open>What a reaction outside the ladder may do: it forces nobody and leaves the attempt as it is, or starts one.\<close>

definition gentle :: "process \<Rightarrow> reaction \<Rightarrow> bool" where
  "gentle p r \<longleftrightarrow> (\<forall>n. \<not> forced (snd r) n) \<and>
     (pr_terminationAttempt (fst r) = pr_terminationAttempt p \<and> pr_terminationRequested (fst r) = pr_terminationRequested p \<and>
        (pr_quiescenceProven p \<longrightarrow> pr_quiescenceProven (fst r)) \<and>
        (pr_terminationFailure (fst r) = pr_terminationFailure p \<or> pr_quiescenceProven (fst r)) \<or>
      pr_terminationAttempt p = None \<and> pr_terminationAttempt (fst r) = Some TLaunch)"

lemma gentle_ladder:
  assumes "ladder_inv p g h" "gentle p r"
  shows "ladder_inv (fst r) g' (h @ snd r)"
proof -
  have a: "asked (h @ snd r) n" if "asked h n" for n using that by (simp add: asked_def)
  have f: "forced (h @ snd r) n \<longleftrightarrow> forced h n" for n using assms(2) by (simp add: gentle_def forced_def)
  show ?thesis
  proof (cases "pr_terminationAttempt p = None \<and> pr_terminationAttempt (fst r) = Some TLaunch")
    case True
    then show ?thesis using assms(1) a f by (simp add: ladder_inv_def term_group_def)
  next
    case False
    then have "pr_terminationAttempt (fst r) = pr_terminationAttempt p" "pr_terminationRequested (fst r) = pr_terminationRequested p"
      "pr_quiescenceProven p \<longrightarrow> pr_quiescenceProven (fst r)"
      "pr_terminationFailure (fst r) = pr_terminationFailure p \<or> pr_quiescenceProven (fst r)"
      using assms(2) by (auto simp: gentle_def)
    then show ?thesis using assms(1) a f unfolding ladder_inv_def by metis
  qed
qed

lemma forced_simps [simp]:
  "\<not> forced [] n" "forced (Command c # out) n \<longleftrightarrow> c = kill_command (js ''KILL'') n \<or> forced out n"
  "forced (Write b # out) n = forced out n" "forced (EndStdin # out) n = forced out n" "forced (KillChannel # out) n = forced out n"
  "forced (Settled r # out) n = forced out n" "forced (WaitEnds k w # out) n = forced out n"
  "forced (out @ out') n \<longleftrightarrow> forced out n \<or> forced out' n"
  by (auto simp: forced_def)

lemma probe_not_kill [simp]: "kill_command (js ''0'') m \<noteq> kill_command (js ''KILL'') n" "kill_command (js ''TERM'') m \<noteq> kill_command (js ''KILL'') n"
  using kill_command_inj[of "js ''0''" m "js ''KILL''" n] kill_command_inj[of "js ''TERM''" m "js ''KILL''" n] by (auto simp: js_def)

lemmas kill_not_probe [simp] = probe_not_kill[symmetric]

lemma kill_KILL_iff [simp]: "kill_command (js ''KILL'') m = kill_command (js ''KILL'') n \<longleftrightarrow> m = n"
  using kill_command_inj[of "js ''KILL''" m "js ''KILL''" n] by auto

lemma term_step_ladder:
  assumes "ladder_inv p g h" "pr_terminationAttempt p = Some t"
  shows "ladder_inv (fst (term_step t ev p)) g' (h @ snd (term_step t ev p))"
  using assms
  by (cases t; cases ev)
     (auto simp: ladder_inv_def term_step_def term_launched_def term_started_def after_probe_def quiet_def force_kill_def
        probe_group_def at_term_def markQuiescent_def term_group_def asked_def forced_def
        split: deferred.splits call_result.splits if_splits)

lemma gentle_trans:
  assumes "gentle q r" "pr_terminationAttempt q = pr_terminationAttempt p" "pr_terminationRequested q = pr_terminationRequested p"
    and "pr_quiescenceProven p \<longrightarrow> pr_quiescenceProven q" "pr_terminationFailure q = pr_terminationFailure p \<or> pr_quiescenceProven q"
  shows "gentle p r"
proof (cases "pr_terminationAttempt q = None \<and> pr_terminationAttempt (fst r) = Some TLaunch")
  case True
  then show ?thesis using assms by (simp add: gentle_def)
next
  case False
  then have "pr_terminationAttempt (fst r) = pr_terminationAttempt q" "pr_terminationRequested (fst r) = pr_terminationRequested q"
    "pr_quiescenceProven q \<longrightarrow> pr_quiescenceProven (fst r)" "\<forall>n. \<not> forced (snd r) n"
    "pr_terminationFailure (fst r) = pr_terminationFailure q \<or> pr_quiescenceProven (fst r)"
    using assms(1) by (auto simp: gentle_def)
  then show ?thesis using assms(2-5) unfolding gentle_def by metis
qed

lemma gentle_remove: "gentle p (remove_state_dir e c p)"
  by (simp add: gentle_def remove_state_dir_def other_commands)

lemma gentle_wait_ends: "gentle p (wait_ends k r p)"
  by (auto simp: wait_ends_def Let_def gentle_def remove_state_dir_def other_commands split: option.split run_phase.split)

lemma gentle_quiet_ends: "gentle p (wait_ends k r (markQuiescent p))"
  by (rule gentle_trans[OF gentle_wait_ends]) (simp_all add: markQuiescent_def)

lemma gentle_waits: "(\<forall>n. \<not> forced out n) \<Longrightarrow> gentle p (waits k x p, out)"
  by (simp add: gentle_def waits_def)

lemma gentle_wait_probe: "gentle p (wait_probe k x p)"
  by (simp add: wait_probe_def wait_decide_def gentle_quiet_ends gentle_waits split: option.split)

lemma gentle_wait_loop: "gentle p (wait_loop k a p)"
  by (simp add: wait_loop_def gentle_wait_ends gentle_quiet_ends gentle_wait_probe gentle_waits other_commands split: option.split)

lemma gentle_idle: "gentle p (p, [])"
  by (simp add: gentle_def)

lemma gentle_wait_step: "gentle p (wait_step k w ev p)"
  by (simp add: wait_step_def wait_broken_def wait_decide_def gentle_wait_probe gentle_wait_ends gentle_quiet_ends
      gentle_waits gentle_wait_loop gentle_idle
      split: wait_phase.split wait_event.split call_result.split)

lemma terminate_gentle_then:
  assumes "gentle (terminate p) r" "\<not> pr_quiescenceProven p"
  shows "gentle p r"
proof (cases "pr_terminationAttempt p")
  case None
  then have "pr_terminationAttempt (terminate p) = Some TLaunch" using assms(2) by (simp add: terminate_def)
  then show ?thesis using assms(1) None by (simp add: gentle_def)
qed (use assms in \<open>simp add: terminate_def\<close>)

lemma gentle_run_catch: "gentle p (run_catch e p)"
proof -
  define p1 where "p1 = p\<lparr>pr_spawnFailed := pr_spawnFailed p \<or>
                   \<not> is_settled (pr_started p) \<and> \<not> is_settled (pr_ended p) \<and> \<not> is_settled (pr_failed p),
                 pr_started := reject_with e (pr_started p), pr_launched := reject_with e (pr_launched p)\<rparr>"
  have up: "gentle p r" if "gentle p1 r" for r
    by (rule gentle_trans[OF that]) (simp_all add: p1_def)
  have "gentle p1 (wait_loop None False ((terminate p1)\<lparr>pr_phase := RollingBack e c\<rparr>))" if "\<not> pr_quiescenceProven p1" for c
    by (rule terminate_gentle_then[OF gentle_trans[OF gentle_wait_loop] that]) simp_all
  moreover have "gentle p1 (remove_state_dir e c p1)" for c by (rule gentle_remove)
  ultimately show ?thesis
    unfolding run_catch_def Let_def p1_def[symmetric] using up by simp
qed

lemma gentle_frame:
  "(\<forall>n. \<not> forced out n) \<Longrightarrow> gentle p (p\<lparr>pr_phase := x\<rparr>, out)" "(\<forall>n. \<not> forced out n) \<Longrightarrow> gentle p ((expire_output p)\<lparr>pr_phase := x\<rparr>, out)"
  "(\<forall>n. \<not> forced out n) \<Longrightarrow> gentle p (p\<lparr>pr_phase := x, pr_launched := y\<rparr>, out)"
  "(\<forall>n. \<not> forced out n) \<Longrightarrow> gentle p (p\<lparr>pr_phase := x, pr_settled := b\<rparr>, out)"
  by (simp_all add: gentle_def expire_output_def)

lemma gentle_finishOutcome: "gentle p (finishOutcome s p)"
proof -
  have "\<not> forced (finalizeSpills p) n" for n by (simp add: finalizeSpills_def Let_def other_commands)
  then show ?thesis
    by (simp add: finishOutcome_def gentle_run_catch Let_def settle_def gentle_frame split: option.split)
qed

lemma gentle_finish_expired: "gentle p (finishOutcome s (expire_output p))"
  by (rule gentle_trans[OF gentle_finishOutcome]) (simp_all add: expire_output_def)

lemma gentle_run_step: "gentle p (run_step ph ev p)"
  by (cases ph; cases ev)
     (simp_all add: run_step_def gentle_idle gentle_run_catch gentle_finishOutcome gentle_finish_expired gentle_frame
       open_channel_def channel_open_def race_won_def closed_flushed_def closed_read_def settle_def other_commands
       split: sum.split option.split bool.split deferred.split race.split stdin_mode.split)

lemma gentle_onControl: "gentle p (onControl l p, [])"
  by (simp add: gentle_def onControl_def resolve_failed_def resolve_ended_def note_race_def
      split: option.split verb.split sum.split)

interpretation proc_ladder: reactive process_step ladder_inv
proof
  fix p g h ev p' out
  assume i: "ladder_inv p g h" and s: "process_step p ev = (p', out)"
  have "ladder_inv (fst (process_step p ev)) (g @ [ev]) (h @ snd (process_step p ev))"
  proof (cases "\<exists>e t. ev = Term e \<and> pr_terminationAttempt p = Some t")
    case True
    then show ?thesis using term_step_ladder[OF i] by auto
  next
    case False
    have "gentle p (process_step p ev)"
    proof (cases ev)
      case (Term e)
      then show ?thesis using False gentle_idle by (auto split: option.split)
    next
      case Terminate
      then show ?thesis by (auto simp: gentle_def terminate_def)
    qed (auto simp: gentle_onControl gentle_run_step gentle_wait_loop gentle_wait_step gentle_idle split: option.split,
         auto simp: gentle_def note_race_def)
    then show ?thesis using gentle_ladder[OF i] by blast
  qed
  then show "ladder_inv p' (g @ [ev]) (h @ out)" using s by simp
qed

lemma handle_ladder:
  assumes "SshSubprocessHandle spec i live root aborted = (p, out)"
  shows "ladder_inv p [] out"
proof -
  have n: "ladder_inv (new_process spec i live root) [] []" by (simp add: ladder_inv_def new_process_def Let_def)
  have t: "gentle q (terminate q, [])" for q by (auto simp: gentle_def terminate_def)
  have "case_prod (\<lambda>q. ladder_inv q []) (p, out)"
    using assms
  proof (rule handle_inv)
    show "case_prod (\<lambda>q. ladder_inv q []) (run_catch e (new_process spec i live root))" for e
      using gentle_ladder[OF n gentle_run_catch[of _ e], of "[]"] by (simp add: case_prod_beta)
    show "case_prod (\<lambda>q. ladder_inv q []) (terminate q, o1)" if "case_prod (\<lambda>q. ladder_inv q []) (q, o1)" for q o1
      using gentle_ladder[OF _ t[of q], of "[]" o1 "[]"] that by simp
  qed (use n in simp)
  then show ?thesis by simp
qed


section \<open>Every run can end\<close>

text \<open>How far a run is from its end, and the events that answer what it awaits.\<close>

definition rank :: "run_phase \<Rightarrow> nat" where
  "rank ph = (case ph of
       Preparing \<Rightarrow> 9 | Opening _ \<Rightarrow> 8 | Racing \<Rightarrow> 7 | StatusGrace _ \<Rightarrow> 6 | CutKill _ \<Rightarrow> 5 | ClosedFlush \<Rightarrow> 5
     | EndFlush _ \<Rightarrow> 4 | CutFlush _ \<Rightarrow> 4 | ClosedRead \<Rightarrow> 4 | RollingBack _ _ \<Rightarrow> 2 | Removing _ _ \<Rightarrow> 1 | Finished _ \<Rightarrow> 0)"

lemma rank_simps [simp]:
  "rank Preparing = 9" "rank (Opening env) = 8" "rank Racing = 7" "rank (StatusGrace s) = 6" "rank (CutKill s) = 5"
  "rank ClosedFlush = 5" "rank (EndFlush s) = 4" "rank (CutFlush s) = 4" "rank ClosedRead = 4" "rank (RollingBack e c) = 2"
  "rank (Removing e c) = 1" "rank (Finished r) = 0"
  by (simp_all add: rank_def)

abbreviation rank_of :: "reaction \<Rightarrow> nat" where
  "rank_of r \<equiv> rank (pr_phase (fst r))"

definition answers :: "process \<Rightarrow> run_event \<Rightarrow> bool" where
  "answers p ev \<longleftrightarrow> (case (pr_phase p, ev) of
       (Preparing, EnvironmentReady _) \<Rightarrow> True
     | (Opening _, ChannelOpened _) \<Rightarrow> True
     | (Racing, RaceContinues) \<Rightarrow> pr_race p \<noteq> None
     | (EndFlush _, PumpsFlushed) \<Rightarrow> True
     | (StatusGrace _, GraceOver timer) \<Rightarrow> timer \<or> (\<exists>s. pr_ended p = Resolved s)
     | (CutKill _, CutKilled) \<Rightarrow> True
     | (CutFlush _, PumpsFlushed) \<Rightarrow> True
     | (ClosedFlush, PumpsFlushed) \<Rightarrow> True
     | (ClosedRead, FinalStatus _) \<Rightarrow> True
     | (Removing _ _, StateRemoved) \<Rightarrow> True
     | _ \<Rightarrow> False)"

text \<open>While a run rolls back, its own waiter is there.\<close>

definition rolls :: "process \<Rightarrow> bool" where
  "rolls p \<longleftrightarrow> (\<exists>e c. pr_phase p = RollingBack e c) \<longrightarrow> map_of (pr_waiters p) None \<noteq> None"

definition no_further :: "nat \<Rightarrow> reaction \<Rightarrow> bool" where
  "no_further n r \<longleftrightarrow> rank_of r \<le> n \<and> rolls (fst r)"

lemma no_further_idle: "rolls p \<Longrightarrow> no_further (rank (pr_phase p)) (p, out)"
  by (simp add: no_further_def)

lemma no_further_remove: "no_further n (remove_state_dir e c p)" if "1 \<le> n" for n
  using that by (simp add: no_further_def remove_state_dir_def rank_def rolls_def)

lemma wait_ends_progress: "rolls p \<or> k = None \<Longrightarrow> no_further (rank (pr_phase p)) (wait_ends k r p)"
  by (cases "pr_phase p")
     (auto simp: wait_ends_def Let_def no_further_def remove_state_dir_def rank_def rolls_def split: option.split)

lemma quiet_ends_progress: "rolls p \<or> k = None \<Longrightarrow> no_further (rank (pr_phase p)) (wait_ends k r (markQuiescent p))"
  using wait_ends_progress[of "markQuiescent p" k r] by (simp add: rolls_def markQuiescent_def)

lemma waits_progress: "rolls p \<or> k = None \<Longrightarrow> no_further (rank (pr_phase p)) (waits k x p, out)"
  by (auto simp: no_further_def waits_def rolls_def)

lemma wait_probe_progress: "rolls p \<or> k = None \<Longrightarrow> no_further (rank (pr_phase p)) (wait_probe k x p)"
  by (auto simp: wait_probe_def wait_decide_def quiet_ends_progress waits_progress split: option.split)

lemma wait_loop_progress: "rolls p \<or> k = None \<Longrightarrow> no_further (rank (pr_phase p)) (wait_loop k a p)"
  by (auto simp: wait_loop_def wait_ends_progress quiet_ends_progress wait_probe_progress waits_progress split: option.split)

lemma wait_step_progress: "rolls p \<Longrightarrow> no_further (rank (pr_phase p)) (wait_step k w ev p)"
  by (simp add: wait_step_def wait_broken_def wait_decide_def wait_probe_progress wait_ends_progress quiet_ends_progress
      waits_progress wait_loop_progress no_further_idle
      split: wait_phase.split wait_event.split call_result.split)

lemma run_catch_progress: "no_further 2 (run_catch e p)"
proof -
  have w: "no_further 2 (wait_loop None False (q\<lparr>pr_phase := RollingBack e c\<rparr>))" for q c
    using wait_loop_progress[of "q\<lparr>pr_phase := RollingBack e c\<rparr>" None False] by (simp add: rank_def)
  show ?thesis by (simp add: run_catch_def Let_def w no_further_remove)
qed

lemma finishOutcome_progress: "no_further 2 (finishOutcome s p)"
  by (simp add: finishOutcome_def run_catch_progress Let_def settle_def split: option.split)
     (simp add: no_further_def rank_def rolls_def)

lemma no_further_mono: "no_further m r \<Longrightarrow> m \<le> n \<Longrightarrow> no_further n r"
  by (simp add: no_further_def)

lemma run_step_progress:
  assumes "rolls p"
  shows "no_further (rank (pr_phase p)) (run_step (pr_phase p) ev p)"
    and "answers p ev \<Longrightarrow> rank_of (run_step (pr_phase p) ev p) < rank (pr_phase p)"
proof -
  have c: "no_further n (run_catch e p)" "no_further n (finishOutcome s q)" if "2 \<le> n" for n e s q
    using no_further_mono[OF run_catch_progress that] no_further_mono[OF finishOutcome_progress that] by auto
  have l: "rank_of (run_catch e p) \<le> 2" "rank_of (finishOutcome s q) \<le> 2" for e s q
    using run_catch_progress finishOutcome_progress by (simp_all add: no_further_def)
  have l': "rank_of (run_catch e p) < n" "rank_of (finishOutcome s q) < n" if "2 < n" for n e s q
    using that le_less_trans[OF l(1)] le_less_trans[OF l(2)] by blast+
  have r: "no_further n (p\<lparr>pr_phase := x\<rparr>, out)" "no_further n (p\<lparr>pr_phase := x, pr_launched := y\<rparr>, out)"
    "no_further n ((expire_output p)\<lparr>pr_phase := x\<rparr>, out)" "no_further n (p\<lparr>pr_phase := x, pr_settled := b\<rparr>, out)"
    if "rank x \<le> n" "\<forall>e c. x \<noteq> RollingBack e c" for n x y out b
    using that by (auto simp: no_further_def rolls_def)
  show "no_further (rank (pr_phase p)) (run_step (pr_phase p) ev p)"
    by (cases "pr_phase p"; cases ev)
       (use no_further_idle[OF assms, of "[]"] in \<open>simp_all add: run_step_def c r open_channel_def channel_open_def race_won_def
          closed_flushed_def closed_read_def settle_def
          split: sum.split option.split bool.split deferred.split race.split stdin_mode.split\<close>)
  show "rank_of (run_step (pr_phase p) ev p) < rank (pr_phase p)" if "answers p ev"
    using that
    by (cases "pr_phase p"; cases ev)
       (simp_all add: answers_def run_step_def l' open_channel_def channel_open_def race_won_def
          closed_flushed_def closed_read_def settle_def
          split: sum.split option.split bool.split deferred.split race.split stdin_mode.split, auto)
qed

lemma process_step_progress:
  assumes "rolls p"
  shows "no_further (rank (pr_phase p)) (process_step p ev)"
proof (cases ev)
  case (Run e)
  then show ?thesis using run_step_progress(1)[OF assms] by simp
next
  case (Wait k e)
  then show ?thesis using wait_step_progress[OF assms] no_further_idle[OF assms] by (simp split: option.split)
next
  case (WaitForExit n a)
  then show ?thesis using wait_loop_progress assms no_further_idle[OF assms] by simp
next
  case (Term e)
  have "rank_of (term_step t e p) \<le> rank (pr_phase p) \<and> rolls (fst (term_step t e p))" for t
    using assms
    by (cases t; cases e)
       (simp_all add: term_step_def term_launched_def term_started_def after_probe_def quiet_def force_kill_def probe_group_def
          at_term_def markQuiescent_def rolls_def split: deferred.split call_result.split)
  then show ?thesis using Term no_further_idle[OF assms] by (simp add: no_further_def split: option.split)
next
  case (ControlLine l)
  have "pr_phase (onControl l p) = pr_phase p" "pr_waiters (onControl l p) = pr_waiters p"
    by (simp_all add: onControl_def resolve_failed_def resolve_ended_def note_race_def split: option.split verb.split sum.split)
  then show ?thesis using ControlLine assms by (simp add: no_further_def rolls_def)
qed (use assms in \<open>simp_all add: no_further_def rolls_def note_race_def terminate_def\<close>)

lemma steps_roll: "rolls p \<Longrightarrow> steps process_step p es = (q, out) \<Longrightarrow> rolls q"
proof (induction es arbitrary: p out)
  case (Cons ev es)
  then show ?case
    using process_step_progress[OF Cons.prems(1), of ev] by (auto simp: no_further_def split: prod.splits)
qed simp

lemma handle_rolls:
  assumes "SshSubprocessHandle spec i live root aborted = (p, out)"
  shows "rolls p"
proof -
  have "rolls (fst (p, out))"
    using assms
    by (rule handle_inv[where I="\<lambda>r. rolls (fst r)"])
       (use run_catch_progress in \<open>auto simp: no_further_def rolls_def new_process_def Let_def terminate_def\<close>)
  then show ?thesis by simp
qed

text \<open>Events of the environment: the channel closes, the awaited call or timer of the run answers.\<close>

definition environment :: "proc_event \<Rightarrow> bool" where
  "environment ev \<longleftrightarrow> (case ev of ChannelClosed \<Rightarrow> True | Run _ \<Rightarrow> True | Wait None _ \<Rightarrow> True | _ \<Rightarrow> False)"

lemma run_answered:
  assumes "rolls p" "answers p e"
  shows "rank (pr_phase (fst (steps process_step p [Run e]))) < rank (pr_phase p)"
  using run_step_progress(2)[OF assms] by (simp split: prod.split)

lemma rollback_ends:
  assumes "pr_phase p = RollingBack e c" "map_of (pr_waiters p) None = Some w"
  shows "\<exists>es. (\<forall>ev \<in> set es. environment ev) \<and> rank (pr_phase (fst (steps process_step p es))) < 2"
proof -
  have lost: "\<exists>es. (\<forall>ev \<in> set es. environment ev) \<and> rank (pr_phase (fst (steps process_step q es))) < 2"
    if "pr_phase q = RollingBack e c" "map_of (pr_waiters q) None = Some WRead \<or> (\<exists>x. map_of (pr_waiters q) None = Some (WProbe x))" for q
  proof -
    have r: "rank_of (wait_ends None (Inr True) (markQuiescent q)) < 2"
      using that(1) by (simp add: wait_ends_def markQuiescent_def remove_state_dir_def Let_def)
    from that(2) show ?thesis
    proof
      assume "map_of (pr_waiters q) None = Some WRead"
      then show ?thesis
        using r by (intro exI[of _ "[Wait None (StatusRead ConnectionLost False)]"])
          (simp add: environment_def wait_step_def wait_broken_def split: prod.split)
    next
      assume "\<exists>x. map_of (pr_waiters q) None = Some (WProbe x)"
      then show ?thesis
        using r by (intro exI[of _ "[Wait None (GroupProbed ConnectionLost False)]"])
          (auto simp: environment_def wait_step_def wait_broken_def split: prod.split)
    qed
  qed
  show ?thesis
  proof (cases w)
    case WTick
    obtain q out where q: "wait_loop None False p = (q, out)" by (cases "wait_loop None False p")
    have step: "process_step p (Wait None (WaitTicked False)) = (q, out)"
      using assms(2) WTick q by (simp add: wait_step_def)
    have "rank (pr_phase q) < 2 \<or> pr_phase q = RollingBack e c \<and>
        (map_of (pr_waiters q) None = Some WRead \<or> (\<exists>x. map_of (pr_waiters q) None = Some (WProbe x)))"
      using q assms(1)
      by (auto simp: Let_def wait_loop_def wait_probe_def wait_decide_def wait_ends_def remove_state_dir_def waits_def markQuiescent_def
          split: option.splits if_splits)
    then show ?thesis
    proof
      assume "rank (pr_phase q) < 2"
      then show ?thesis using step by (intro exI[of _ "[Wait None (WaitTicked False)]"]) (simp add: environment_def)
    next
      assume "pr_phase q = RollingBack e c \<and>
        (map_of (pr_waiters q) None = Some WRead \<or> (\<exists>x. map_of (pr_waiters q) None = Some (WProbe x)))"
      then obtain es where "\<forall>ev \<in> set es. environment ev" "rank (pr_phase (fst (steps process_step q es))) < 2"
        using lost by blast
      then show ?thesis
        using step by (intro exI[of _ "Wait None (WaitTicked False) # es"]) (auto simp: environment_def split: prod.split)
    qed
  qed (use lost[OF assms(1)] assms(2) in auto)
qed

lemma run_moves_on:
  assumes "rolls p" "rank (pr_phase p) \<noteq> 0"
  shows "\<exists>es. (\<forall>ev \<in> set es. environment ev) \<and> rank (pr_phase (fst (steps process_step p es))) < rank (pr_phase p)"
proof -
  have one: ?thesis if "answers p e" for e
    using run_answered[OF assms(1) that] by (intro exI[of _ "[Run e]"]) (simp add: environment_def)
  show ?thesis
  proof (cases "pr_phase p")
    case Racing
    let ?q = "note_race ByClosed p"
    have q: "pr_phase ?q = Racing" "pr_race ?q \<noteq> None" "rolls ?q" using Racing assms(1) by (auto simp: note_race_def rolls_def)
    then have "rank (pr_phase (fst (steps process_step ?q [Run RaceContinues]))) < rank (pr_phase ?q)"
      by (intro run_answered) (simp_all add: answers_def)
    then show ?thesis
      using q Racing by (intro exI[of _ "[ChannelClosed, Run RaceContinues]"]) (simp add: environment_def split: prod.splits)
  next
    case (RollingBack e c)
    then obtain w where "map_of (pr_waiters p) None = Some w" using assms(1) by (auto simp: rolls_def)
    from rollback_ends[OF RollingBack this] show ?thesis using RollingBack by simp
  next
    case Preparing
    then show ?thesis by (intro one[of "EnvironmentReady (Inr [])"]) (simp add: answers_def)
  next
    case (Opening env)
    then show ?thesis by (intro one[of "ChannelOpened None"]) (simp add: answers_def)
  next
    case (StatusGrace s)
    then show ?thesis by (intro one[of "GraceOver True"]) (simp add: answers_def)
  next
    case (CutKill s)
    then show ?thesis by (intro one[of CutKilled]) (simp add: answers_def)
  next
    case ClosedRead
    then show ?thesis by (intro one[of "FinalStatus None"]) (simp add: answers_def)
  next
    case (Removing e c)
    then show ?thesis by (intro one[of StateRemoved]) (simp add: answers_def)
  next
    case (Finished r)
    then show ?thesis using assms(2) by simp
  next
    case (EndFlush s)
    then show ?thesis by (intro one[of PumpsFlushed]) (simp add: answers_def)
  next
    case (CutFlush s)
    then show ?thesis by (intro one[of PumpsFlushed]) (simp add: answers_def)
  next
    case ClosedFlush
    then show ?thesis by (intro one[of PumpsFlushed]) (simp add: answers_def)
  qed
qed

lemma rank_zero: "rank ph = 0 \<longleftrightarrow> (\<exists>r. ph = Finished r)"
  by (cases ph) auto

lemma run_ends:
  "rolls p \<Longrightarrow> \<exists>es. (\<forall>ev \<in> set es. environment ev) \<and> (\<exists>r. pr_phase (fst (steps process_step p es)) = Finished r)"
proof (induction "rank (pr_phase p)" arbitrary: p rule: less_induct)
  case less
  show ?case
  proof (cases "rank (pr_phase p) = 0")
    case True
    then show ?thesis by (intro exI[of _ "[]"]) (simp add: rank_zero)
  next
    case False
    from run_moves_on[OF less.prems this] obtain es where es: "\<forall>ev \<in> set es. environment ev"
      "rank (pr_phase (fst (steps process_step p es))) < rank (pr_phase p)" by blast
    obtain q out where q: "steps process_step p es = (q, out)" by (cases "steps process_step p es")
    obtain es' r where es': "\<forall>ev \<in> set es'. environment ev" "pr_phase (fst (steps process_step q es')) = Finished r"
      using less.hyps[of q] es(2) q steps_roll[OF less.prems q] by auto
    then show ?thesis
      using es(1) q by (intro exI[of _ "es @ es'"]) (auto simp: steps_append split: prod.splits)
  qed
qed


end
