(* ===== verification/ProcessSamples.thy ===== *)
theory ProcessSamples
  imports ProcessOutcome ProcessEnds
begin

text \<open>
  Concrete runs of a remote process on which the hypotheses of the process theorems hold: one that
  is terminated, one that exits.
\<close>

definition sample_spec :: spawn_spec where
  "sample_spec = \<lparr>sp_argv = [js ''ls''], sp_cwd = [47], sp_stdin = StdinIgnore, sp_stdout = OutPipe, sp_stderr = OutPipe\<rparr>"

definition sample_process :: process where
  "sample_process = fst (SshSubprocessHandle sample_spec (js ''i'') True (Some (js ''/r'')) False)"

lemma sample_start: "SshSubprocessHandle sample_spec (js ''i'') True (Some (js ''/r'')) False = (sample_process, [])"
proof -
  have "isAbsolute (js ''/r'')" by code_simp
  then show ?thesis by (simp add: sample_process_def SshSubprocessHandle_def Let_def)
qed

lemma sample_lines:
  "parse_control (js ''!DSHSSH START 42'') = Some (START, js ''42'')"
  "parse_control (js ''!DSHSSH END exit:3'') = Some (END, js ''exit:3'')"
  by (simp_all add: parse_control_def verb_rest_def js_def)

lemma sample_group: "parsePublishedPgid (js ''42'') = Inr 42"
  by (simp add: parsePublishedPgid_def js_trim_def is_js_ws_def js_def digits_val_def is_digit_def MAX_SAFE_INTEGER_def)

lemma sample_status: "parseStatusText (js ''exit:3'') = Some \<lparr>so_exitCode = Some 3, so_signal = None\<rparr>"
  by (simp add: parseStatusText_def js_trim_def is_js_ws_def js_def digits_val_def is_digit_def)

definition sample_launch :: "proc_event list" where
  "sample_launch = [Run (EnvironmentReady (Inr [])), Run (ChannelOpened None), ControlLine (js ''!DSHSSH START 42'')]"

definition sample_terminated :: "proc_event list" where
  "sample_terminated = sample_launch @ [Terminate, Term LaunchKnown, Term StartKnown]"

definition sample_exited :: "proc_event list" where
  "sample_exited = sample_launch @ [ControlLine (js ''!DSHSSH END exit:3''), Run RaceContinues, Run PumpsFlushed]"

lemmas sample_steps =
  sample_process_def SshSubprocessHandle_def sample_spec_def sample_launch_def open_channel_def channel_open_def run_step_def
  onControl_def sample_lines sample_group sample_status resolve_with_def is_settled_def terminate_def term_step_def term_launched_def
  term_started_def at_term_def resolve_ended_def note_race_def race_won_def finishOutcome_def finalizeSpills_def
  useless_spill_def settle_def reader_for_def Let_def

lemma sample_absolute: "isAbsolute (js ''/r'')"
  by code_simp

lemma sample_terminated_run:
  "Command (kill_command (js ''TERM'') 42) \<in> set (snd (steps process_step sample_process sample_terminated))"
  by (simp add: sample_terminated_def sample_steps sample_absolute)

lemma sample_exited_run:
  "settled_list (snd (steps process_step sample_process sample_exited)) = [Inr \<lparr>so_exitCode = Some 3, so_signal = None\<rparr>]"
  by (simp add: sample_exited_def sample_steps sample_absolute settled_list_def)

lemma sample_forced_run:
  "Command (kill_command (js ''KILL'') 42) \<in>
     set (snd (steps process_step sample_process (sample_terminated @ [Term (Signalled (CallFailed []))])))"
  by (simp add: sample_terminated_def sample_steps sample_absolute signalRemoteGroups_def force_kill_def)

lemma signals_only_own_group_witness:
  "\<exists>p out. steps process_step sample_process sample_terminated = (p, out) \<and>
     Command (kill_command (js ''TERM'') 42) \<in> set ([] @ out) \<and>
     (kill_command (js ''TERM'') 42 = buildSpawnCommand (js ''i'') (the (Some (js ''/r''))) \<or>
      kill_command (js ''TERM'') 42 = cat_command (statusPath sample_process) \<or>
      (\<exists>r ps. kill_command (js ''TERM'') 42 = rm_command r ps \<and> set ps \<subseteq> own_paths sample_process) \<or>
      (\<exists>sig n l x. kill_command (js ''TERM'') 42 = kill_command sig n \<and> sig \<in> {js ''0'', js ''TERM'', js ''KILL''} \<and> 1 < n \<and>
        ControlLine l \<in> set sample_terminated \<and> parse_control l = Some (START, x) \<and> parsePublishedPgid x = Inr n))"
proof -
  obtain p out where x: "steps process_step sample_process sample_terminated = (p, out)"
    by (cases "steps process_step sample_process sample_terminated")
  then have c: "Command (kill_command (js ''TERM'') 42) \<in> set ([] @ out)" using sample_terminated_run by simp
  from signals_only_own_group[OF sample_start x c] x c show ?thesis by blast
qed

lemma done_reports_published_status_witness:
  "\<exists>p out. steps process_step sample_process sample_exited = (p, out) \<and>
     settled_list out = [Inr \<lparr>so_exitCode = Some 3, so_signal = None\<rparr>] \<and> length (settled_list ([] @ out)) \<le> 1 \<and>
     told sample_exited (js ''exit:3'')"
proof -
  obtain p out where x: "steps process_step sample_process sample_exited = (p, out)"
    by (cases "steps process_step sample_process sample_exited")
  have "length (settled_list ([] @ out)) \<le> 1" using done_reports_published_status[OF sample_start x] by blast
  moreover have "settled_list out = [Inr \<lparr>so_exitCode = Some 3, so_signal = None\<rparr>]" using sample_exited_run x by simp
  moreover have "told sample_exited (js ''exit:3'')"
    using sample_lines by (auto simp: told_def sample_exited_def)
  ultimately show ?thesis using x by blast
qed



end
