(* ===== verification/TerminalBoot.thy ===== *)
theory TerminalBoot
  imports RemoteProcess
begin

text \<open>
  How a remote terminal is started (\<^verbatim>\<open>subprocess-ssh/src/terminal.ts\<close>): the setup script, the filter that drops what
  the pseudo terminal prints before the marker, and \<open>spawnSshTerminal\<close> as a machine over the replies to its
  commands, the chunks of the channel, its end and the abort signal of the caller.
\<close>

section \<open>The setup script\<close>

definition setup_write :: "jstr \<Rightarrow> jstr \<Rightarrow> jstr" where
  "setup_write name payload =
     js ''printf '%s' '' @ sq (b64 payload) @ js '' | base64 -d > \"$dsh_dir/'' @ name @ js ''\" || exit 125''"

definition buildTerminalSetupScript :: "jstr \<Rightarrow> jstr list \<Rightarrow> jstr list \<Rightarrow> jstr \<Rightarrow> jstr \<Rightarrow> jstr" where
  "buildTerminalSetupScript dir argv env cwd marker = join
     [TERMINAL_SETUP_MARKER,
      js ''set -e'',
      js ''dsh_dir='' @ sq dir,
      js ''umask 077'',
      js ''mkdir -p -- \"$dsh_dir\" && chmod 700 -- \"$dsh_dir\" || exit 125'',
      setup_write (js ''argv'') (nul_terminated argv),
      setup_write (js ''environment'') (nul_terminated env),
      setup_write (js ''cwd'') cwd,
      setup_write (js ''marker'') marker,
      js ''chmod 600 -- \"$dsh_dir/argv\" \"$dsh_dir/environment\" \"$dsh_dir/cwd\" \"$dsh_dir/marker\"'',
      []] [10]"

text \<open>What \<open>TERMINAL_WRAPPER\<close> makes of the four decoded files: the marker it prints and the child it becomes.\<close>

definition terminal_wrapper :: "(bytes \<Rightarrow> bool) \<Rightarrow> bool \<Rightarrow> bytes \<times> bytes \<times> bytes \<times> bytes \<Rightarrow>
    jstr + bytes \<times> bytes \<times> (bytes \<times> bytes) list \<times> bytes list" where
  "terminal_wrapper chdir has_tty files =
     (case files of (argv, env, cwd, marker) \<Rightarrow>
        let dir = command_subst cwd in
        if mapfile argv = [] then Inl (js ''empty argv setup'')
        else if \<not> has_tty then Inl (js ''cannot determine tty'')
        else if \<not> chdir dir then Inl (js ''cannot chdir: '' @ dir)
        else Inr (command_subst marker, dir, env_i (mapfile env @ mapfile argv)))"

section \<open>The bootstrap filter\<close>

record boot_filter =
  bf_marker :: bytes
  bf_pending :: bytes
  bf_published :: bool
  bf_output :: "bytes list"
  bf_destroyed :: bool

definition BootstrapOutputFilter :: "bytes \<Rightarrow> boot_filter" where
  "BootstrapOutputFilter marker =
     \<lparr>bf_marker = marker, bf_pending = [], bf_published = False, bf_output = [], bf_destroyed = False\<rparr>"

definition filter_write :: "bytes \<Rightarrow> boot_filter \<Rightarrow> boot_filter" where
  "filter_write bs f = (if bs \<noteq> [] \<and> \<not> bf_destroyed f then f\<lparr>bf_output := bf_output f @ [bs]\<rparr> else f)"

definition filter_push :: "bytes \<Rightarrow> boot_filter \<Rightarrow> boot_filter" where
  "filter_push bs f =
     (if bf_published f then filter_write bs f
      else let combined = bf_pending f @ bs in
        (case indexOf combined (bf_marker f) of
           None \<Rightarrow> (let retained = min (length combined) (length (bf_marker f) - 1) in
             f\<lparr>bf_pending := drop (length combined - retained) combined\<rparr>)
         | Some i \<Rightarrow> filter_write (drop (i + length (bf_marker f)) combined) (f\<lparr>bf_published := True, bf_pending := []\<rparr>)))"

section \<open>Starting a terminal\<close>

definition parsePositiveId :: "jstr \<Rightarrow> jstr \<Rightarrow> jstr + nat" where
  "parsePositiveId v message =
     (let raw = js_trim v in
      if raw = [] \<or> \<not> list_all is_digit raw \<or> hd raw = 48 \<or> digits_val raw > MAX_SAFE_INTEGER then Inl message
      else Inr (digits_val raw))"

record terminal_spec =
  ts_argv :: "jstr list"
  ts_cwd :: jstr
  ts_rows :: nat
  ts_cols :: nat

datatype exit_watch = Running | DrainingPump | ReadingError

datatype boot_phase =
    BootEnv
  | BootSetup "jstr list"
  | BootExec
  | BootWait exit_watch
  | BootPid
  | BootTty nat
  | BootKill jstr
  | BootRemove jstr
  | BootReturned nat jstr
  | BootThrew jstr

record terminal_boot =
  tb_id :: jstr
  tb_root :: jstr
  tb_spec :: terminal_spec
  tb_marker :: jstr
  tb_term :: jstr
  tb_phase :: boot_phase
  tb_filter :: boot_filter
  tb_opened :: bool
  tb_pumped :: bool
  tb_aborted :: "jstr option"

datatype boot_output =
    RunCommand jstr
  | OpenTerminal jstr nat nat jstr
  | CloseChannel
  | TerminalReady nat jstr
  | SpawnThrew jstr

type_synonym boot_reaction = "terminal_boot \<times> boot_output list"

definition tb_dir :: "terminal_boot \<Rightarrow> jstr" where
  "tb_dir b = posix_join [tb_root b, js ''terminals'', tb_id b]"

definition boot_threw :: "jstr \<Rightarrow> terminal_boot \<Rightarrow> boot_reaction" where
  "boot_threw e b = (b\<lparr>tb_phase := BootThrew e\<rparr>, [SpawnThrew e])"

definition boot_remove :: "jstr \<Rightarrow> terminal_boot \<Rightarrow> boot_reaction" where
  "boot_remove e b = (b\<lparr>tb_phase := BootRemove e\<rparr>, [RunCommand (rm_command True [tb_dir b])])"

text \<open>The \<open>catch\<close>: the output ends; what has been opened is closed and the private state removed.\<close>

definition boot_catch :: "jstr \<Rightarrow> terminal_boot \<Rightarrow> boot_reaction" where
  "boot_catch e b =
     (let b1 = b\<lparr>tb_filter := (tb_filter b)\<lparr>bf_destroyed := True\<rparr>\<rparr> in
      if tb_opened b then (b1\<lparr>tb_phase := BootKill e\<rparr>, [CloseChannel]) else boot_remove e b1)"

definition TERM_PREFIX :: jstr where "TERM_PREFIX = js ''TERM=''"

definition term_of :: "jstr list \<Rightarrow> jstr \<times> jstr list" where
  "term_of env =
     (case List.find (\<lambda>e. take 5 e = TERM_PREFIX) env of
        Some e \<Rightarrow> (drop 5 e, env)
      | None \<Rightarrow> (js ''xterm-256color'', env @ [TERM_PREFIX @ js ''xterm-256color'']))"

definition boot_env :: "jstr + jstr list \<Rightarrow> terminal_boot \<Rightarrow> boot_reaction" where
  "boot_env r b =
     (case r of
        Inl e \<Rightarrow> boot_threw e b
      | Inr env0 \<Rightarrow>
          (case term_of env0 of (term, env) \<Rightarrow>
             (b\<lparr>tb_phase := BootSetup env, tb_term := term\<rparr>,
              [RunCommand (buildTerminalSetupScript (tb_dir b) (ts_argv (tb_spec b)) env (ts_cwd (tb_spec b)) (tb_marker b))])))"

definition setup_failed :: "jstr \<Rightarrow> jstr" where
  "setup_failed stderr = js ''subprocess-ssh: terminal state setup failed: '' @ js_trim stderr"

definition boot_setup :: "jstr + (nat option \<times> jstr) \<Rightarrow> terminal_boot \<Rightarrow> boot_reaction" where
  "boot_setup r b =
     (case r of
        Inl e \<Rightarrow> boot_catch e b
      | Inr (code, stderr) \<Rightarrow>
          if code \<noteq> Some 0 then boot_catch (setup_failed stderr) b
          else (b\<lparr>tb_phase := BootExec\<rparr>,
            [OpenTerminal (buildTerminalCommand (tb_id b) (tb_root b)) (ts_rows (tb_spec b)) (ts_cols (tb_spec b)) (tb_term b)]))"

definition boot_file :: "terminal_boot \<Rightarrow> jstr \<Rightarrow> boot_output" where
  "boot_file b name = RunCommand (cat_command (posix_join [tb_dir b, name]))"

text \<open>\<open>finish(resolve)\<close>, and what follows the boundary.\<close>

definition boot_boundary :: "terminal_boot \<Rightarrow> boot_reaction" where
  "boot_boundary b =
     (case tb_aborted b of
        Some e \<Rightarrow> boot_catch e b
      | None \<Rightarrow> (b\<lparr>tb_phase := BootPid\<rparr>, [boot_file b (js ''pid'')]))"

text \<open>\<open>onExit\<close>, once the pump is drained.\<close>

definition boot_exit :: "terminal_boot \<Rightarrow> boot_reaction" where
  "boot_exit b =
     (if bf_published (tb_filter b) then boot_boundary b
      else (b\<lparr>tb_phase := BootWait ReadingError\<rparr>, [boot_file b (js ''error'')]))"

definition boot_no_boundary :: "jstr option \<Rightarrow> jstr" where
  "boot_no_boundary detail =
     js ''subprocess-ssh: terminal exited before publishing its output boundary'' @
       (case detail of None \<Rightarrow> [] | Some d \<Rightarrow> if d = [] then [] else js '': '' @ d)"

definition boot_pid :: "jstr + jstr option \<Rightarrow> terminal_boot \<Rightarrow> boot_reaction" where
  "boot_pid r b =
     (case r of
        Inl e \<Rightarrow> boot_catch e b
      | Inr None \<Rightarrow> boot_catch (js ''subprocess-ssh: terminal did not publish its pid'') b
      | Inr (Some raw) \<Rightarrow>
          (case parsePositiveId raw (js ''subprocess-ssh: terminal published invalid pid '' @ stringify (JStr raw)) of
             Inl e \<Rightarrow> boot_catch e b
           | Inr pid \<Rightarrow> (b\<lparr>tb_phase := BootTty pid\<rparr>, [boot_file b (js ''tty'')])))"

definition boot_tty :: "nat \<Rightarrow> jstr + jstr option \<Rightarrow> terminal_boot \<Rightarrow> boot_reaction" where
  "boot_tty pid r b =
     (case r of
        Inl e \<Rightarrow> boot_catch e b
      | Inr t \<Rightarrow>
          (case t of
             Some raw \<Rightarrow>
               if js_trim raw = [] then boot_catch (js ''subprocess-ssh: terminal did not publish its tty'') b
               else (b\<lparr>tb_phase := BootReturned pid (js_trim raw)\<rparr>, [TerminalReady pid (js_trim raw)])
           | None \<Rightarrow> boot_catch (js ''subprocess-ssh: terminal did not publish its tty'') b))"

definition boot_killed :: "jstr \<Rightarrow> unit call_result \<Rightarrow> terminal_boot \<Rightarrow> boot_reaction" where
  "boot_killed e r b = (case r of CallFailed _ \<Rightarrow> boot_threw e b | _ \<Rightarrow> boot_remove e b)"

datatype boot_event =
    EnvironmentKnown "jstr + jstr list"
  | SetupDone "jstr + (nat option \<times> jstr)"
  | ExecDone "jstr option"
  | Chunk bytes
  | PumpOver "jstr option"
  | ChannelEnded
  | PumpDrained
  | BoundarySeen
  | CallerAborted jstr
  | ErrorFile "jstr option"
  | PidFile "jstr + jstr option"
  | TtyFile "jstr + jstr option"
  | ChannelClosedBy "unit call_result"
  | StateGone

text \<open>Events of the channel reach the filter in every phase; the others wait for their await.\<close>

definition boot_resume :: "terminal_boot \<Rightarrow> boot_event \<Rightarrow> boot_reaction" where
  "boot_resume b ev =
     (case (tb_phase b, ev) of
        (BootEnv, EnvironmentKnown r) \<Rightarrow> boot_env r b
      | (BootSetup _, SetupDone r) \<Rightarrow> boot_setup r b
      | (BootExec, ExecDone (Some e)) \<Rightarrow> boot_catch e b
      | (BootExec, ExecDone None) \<Rightarrow> (b\<lparr>tb_phase := BootWait Running, tb_opened := True\<rparr>, [])
      | (BootWait _, BoundarySeen) \<Rightarrow> if bf_published (tb_filter b) then boot_boundary b else (b, [])
      | (BootWait Running, ChannelEnded) \<Rightarrow> (b\<lparr>tb_phase := BootWait DrainingPump\<rparr>, [])
      | (BootWait DrainingPump, PumpDrained) \<Rightarrow> if tb_pumped b then boot_exit b else (b, [])
      | (BootWait ReadingError, ErrorFile t) \<Rightarrow>
          if bf_published (tb_filter b) then boot_boundary b
          else boot_catch (boot_no_boundary (map_option js_trim t)) b
      | (BootWait _, CallerAborted e) \<Rightarrow> boot_catch e b
      | (BootPid, PidFile r) \<Rightarrow> boot_pid r b
      | (BootTty pid, TtyFile r) \<Rightarrow> boot_tty pid r b
      | (BootKill e, ChannelClosedBy r) \<Rightarrow> boot_killed e r b
      | (BootRemove e, StateGone) \<Rightarrow> boot_threw e b
      | _ \<Rightarrow> (b, []))"

definition boot_step :: "terminal_boot \<Rightarrow> boot_event \<Rightarrow> boot_reaction" where
  "boot_step b ev =
     (case ev of
        Chunk bs \<Rightarrow> (if tb_opened b \<and> \<not> tb_pumped b then b\<lparr>tb_filter := filter_push bs (tb_filter b)\<rparr> else b, [])
      | PumpOver err \<Rightarrow>
          (if tb_opened b \<and> \<not> tb_pumped b
           then b\<lparr>tb_pumped := True, tb_filter := (tb_filter b)\<lparr>bf_destroyed := bf_destroyed (tb_filter b) \<or> err \<noteq> None\<rparr>\<rparr>
           else b, [])
      | CallerAborted e \<Rightarrow>
          (case tb_aborted b of None \<Rightarrow> boot_resume (b\<lparr>tb_aborted := Some e\<rparr>) ev | Some _ \<Rightarrow> (b, []))
      | _ \<Rightarrow> boot_resume b ev)"

text \<open>Up to the first await. Nothing is to be undone yet.\<close>

definition spawnSshTerminal :: "terminal_spec \<Rightarrow> jstr \<Rightarrow> jstr \<Rightarrow> bool \<Rightarrow> jstr option \<Rightarrow> jstr option \<Rightarrow> boot_reaction" where
  "spawnSshTerminal spec i uuid live root aborted =
     (let marker = js ''dsh-ssh-bootstrap:'' @ uuid;
          b = \<lparr>tb_id = i, tb_root = (case root of None \<Rightarrow> [] | Some r \<Rightarrow> r), tb_spec = spec, tb_marker = marker, tb_term = [],
            tb_phase = BootEnv, tb_filter = BootstrapOutputFilter (utf8 marker), tb_opened = False, tb_pumped = False, tb_aborted = aborted\<rparr> in
      case aborted of
        Some e \<Rightarrow> boot_threw e b
      | None \<Rightarrow>
          if \<not> live then boot_threw (connLostError (js ''no live SSH connection'')) b
          else if (case root of None \<Rightarrow> True | Some r \<Rightarrow> \<not> isAbsolute r)
            then boot_threw (connLostError (js ''remote runtime root unavailable'')) b
          else (b, []))"

end
