(* ===== verification/TerminalFilter.thy ===== *)
theory TerminalFilter
  imports TerminalBoot
begin

text \<open>
  What holds of the start of a terminal (\<open>TerminalBoot\<close>): the filter drops exactly the bytes up to the end of the
  marker, the setup files start the child as asked, and a start either returns a terminal or undoes itself.
\<close>

section \<open>The filter is exact\<close>

lemma indexOf_skip:
  assumes "indexOf (a @ b) m = None" "a = [] \<or> length m \<le> Suc (length b)" "m \<noteq> []"
  shows "indexOf (a @ b @ d) m = map_option ((+) (length a)) (indexOf (b @ d) m)"
  using assms
proof (induction a)
  case Nil
  then show ?case by (simp add: option.map_ident)
next
  case (Cons x a)
  have no: "\<not> starts_with m (x # a @ b)" and rest: "indexOf (a @ b) m = None" using Cons.prems(1) by (auto split: if_splits)
  have "take (length m) (x # a @ b @ d) = take (length m) (x # a @ b)"
    using Cons.prems(2) by (cases m) auto
  then have "\<not> starts_with m (x # a @ b @ d)" using no by (simp add: starts_with_def)
  then have "indexOf ((x # a) @ b @ d) m = map_option Suc (indexOf (a @ b @ d) m)" by simp
  moreover have "a = [] \<or> length m \<le> Suc (length b)" using Cons.prems(2) by simp
  ultimately show ?case using Cons.IH[OF rest _ Cons.prems(3)] by (simp add: option.map_comp comp_def)
qed

lemma indexOf_prefix: "indexOf s m = Some i \<Longrightarrow> m \<noteq> [] \<Longrightarrow> indexOf (s @ t) m = Some i"
proof (induction s arbitrary: i)
  case (Cons x s)
  show ?case
  proof (cases "starts_with m (x # s)")
    case True
    then have "length m \<le> length (x # s)" by (metis starts_with_def length_take min.absorb_iff1 min.commute)
    then have "starts_with m (x # s @ t)" using True by (simp add: starts_with_def take_Cons' split: if_splits)
    then show ?thesis using True Cons.prems by simp
  next
    case False
    then obtain j where j: "indexOf s m = Some j" "i = Suc j" using Cons.prems by auto
    show ?thesis
    proof (cases "starts_with m (x # s @ t)")
      case True
      have "i + length m \<le> length (x # s)" using indexOf_bound[OF Cons.prems(1)] .
      then have "starts_with m (x # s)" using True by (simp add: starts_with_def take_Cons' split: if_splits)
      then show ?thesis using False by simp
    next
      case no: False
      then show ?thesis using Cons.IH[OF j(1) Cons.prems(2)] j(2) by simp
    qed
  qed
qed simp

definition filter_at :: "bytes \<Rightarrow> bytes \<Rightarrow> boot_filter \<Rightarrow> bool" where
  "filter_at m seen f \<longleftrightarrow> bf_marker f = m \<and> \<not> bf_destroyed f \<and>
     (case indexOf seen m of
        None \<Rightarrow> \<not> bf_published f \<and> bf_output f = [] \<and>
          (\<exists>front. seen = front @ bf_pending f \<and> (front = [] \<or> length m \<le> Suc (length (bf_pending f))))
      | Some i \<Rightarrow> bf_published f \<and> concat (bf_output f) = drop (i + length m) seen)"

lemma filter_write_concat:
  "\<not> bf_destroyed f \<Longrightarrow> concat (bf_output (filter_write bs f)) = concat (bf_output f) @ bs"
  "bf_marker (filter_write bs f) = bf_marker f" "bf_destroyed (filter_write bs f) = bf_destroyed f"
  "bf_published (filter_write bs f) = bf_published f"
  by (simp_all add: filter_write_def)

lemma filter_push_at:
  assumes "filter_at m seen f" "m \<noteq> []"
  shows "filter_at m (seen @ bs) (filter_push bs f)"
proof (cases "indexOf seen m")
  case (Some i)
  have "i + length m \<le> length seen" using indexOf_bound[OF Some] .
  then show ?thesis using assms Some indexOf_prefix[OF Some assms(2), of bs]
    by (simp add: filter_at_def filter_push_def filter_write_concat)
next
  case None
  then obtain front where f: "bf_marker f = m" "\<not> bf_destroyed f" "\<not> bf_published f" "bf_output f = []"
    "seen = front @ bf_pending f" "front = [] \<or> length m \<le> Suc (length (bf_pending f))"
    using assms(1) by (auto simp: filter_at_def)
  have skip: "indexOf (seen @ bs) m = map_option ((+) (length front)) (indexOf (bf_pending f @ bs) m)"
    using indexOf_skip[of front "bf_pending f" m bs] None f(5,6) assms(2) by simp
  let ?c = "bf_pending f @ bs"
  show ?thesis
  proof (cases "indexOf ?c m")
    case found: (Some k)
    then show ?thesis using f skip by (simp add: filter_at_def filter_push_def filter_write_concat)
  next
    case none: None
    let ?r = "min (length ?c) (length m - 1)"
    have len: "length (drop (length ?c - ?r) ?c) = ?r" by simp
    have "seen @ bs = (front @ take (length ?c - ?r) ?c) @ drop (length ?c - ?r) ?c"
      by (simp only: f(5) append_assoc append_take_drop_id)
    moreover have "front @ take (length ?c - ?r) ?c = [] \<or> length m \<le> Suc (length (drop (length ?c - ?r) ?c))"
    proof (cases "length m - 1 \<le> length ?c")
      case True
      then have "length m \<le> Suc (length (drop (length ?c - ?r) ?c))" unfolding len by simp
      then show ?thesis by blast
    next
      case False
      then show ?thesis using f(6) by auto
    qed
    ultimately have "\<exists>fr. seen @ bs = fr @ p \<and> (fr = [] \<or> length m \<le> Suc (length p))" if "p = drop (length ?c - ?r) ?c" for p
      using that by blast
    moreover obtain p where "p = drop (length ?c - ?r) ?c" by simp
    moreover from this have "filter_push bs f = f\<lparr>bf_pending := p\<rparr>" using f none by (simp add: filter_push_def Let_def)
    moreover have "indexOf (seen @ bs) m = None" using skip none by simp
    ultimately show ?thesis using f by (simp add: filter_at_def)
  qed
qed

lemma filter_pushes_at: "m \<noteq> [] \<Longrightarrow> filter_at m seen f \<Longrightarrow> filter_at m (seen @ concat cs) (fold filter_push cs f)"
proof (induction cs arbitrary: seen f)
  case (Cons c cs)
  then show ?case using Cons.IH[OF Cons.prems(1) filter_push_at[OF Cons.prems(2,1), of c]] by simp
qed simp

text \<open>
  C33: The bootstrap filter drops exactly the preamble. However the channel cuts what the pseudo
  terminal prints, the output of the terminal is what stands behind the first occurrence of the marker,
  and the boundary is seen exactly when there is one; so if the marker is first complete where the
  wrapper prints it, the output is exactly what the child prints.
\<close>

theorem bootstrap_filter_exact:
  assumes "m \<noteq> []"
  shows "let f = fold filter_push cs (BootstrapOutputFilter m) in
    (bf_published f \<longleftrightarrow> (\<exists>p q. concat cs = p @ m @ q)) \<and>
    concat (bf_output f) = (case indexOf (concat cs) m of None \<Rightarrow> [] | Some i \<Rightarrow> drop (i + length m) (concat cs)) \<and>
    (\<forall>noise child. concat cs = noise @ m @ child \<and> indexOf (noise @ m) m = Some (length noise) \<longrightarrow> concat (bf_output f) = child)"
proof -
  have "filter_at m [] (BootstrapOutputFilter m)" using assms by (simp add: filter_at_def BootstrapOutputFilter_def)
  from filter_pushes_at[OF assms this, of cs] have at: "filter_at m (concat cs) (fold filter_push cs (BootstrapOutputFilter m))" by simp
  have pub: "bf_published (fold filter_push cs (BootstrapOutputFilter m)) \<longleftrightarrow> indexOf (concat cs) m \<noteq> None"
    and out: "concat (bf_output (fold filter_push cs (BootstrapOutputFilter m))) =
      (case indexOf (concat cs) m of None \<Rightarrow> [] | Some i \<Rightarrow> drop (i + length m) (concat cs))"
    using at by (auto simp: filter_at_def split: option.splits)
  have "concat (bf_output (fold filter_push cs (BootstrapOutputFilter m))) = child"
    if "concat cs = noise @ m @ child" "indexOf (noise @ m) m = Some (length noise)" for noise child
    using out that(1) indexOf_prefix[OF that(2) assms, of child] by simp
  then show ?thesis using pub out by (simp add: Let_def indexOf_None_iff)
qed

lemma bootstrap_filter_exact_witness:
  "concat (bf_output (fold filter_push [[104, 77], [75], [120, 77], [75, 121]] (BootstrapOutputFilter [77, 75]))) = [120, 77, 75, 121]"
  using bootstrap_filter_exact[of "[77, 75]" "[[104, 77], [75], [120, 77], [75, 121]]"]
  by (simp add: Let_def starts_with_def)

section \<open>A start returns a terminal or undoes itself\<close>

definition over :: "boot_output \<Rightarrow> bool" where
  "over x = (case x of TerminalReady _ _ \<Rightarrow> True | SpawnThrew _ \<Rightarrow> True | _ \<Rightarrow> False)"

definition boot_over :: "boot_phase \<Rightarrow> bool" where
  "boot_over ph = (case ph of BootReturned _ _ \<Rightarrow> True | BootThrew _ \<Rightarrow> True | _ \<Rightarrow> False)"

definition rolling_back :: "boot_phase \<Rightarrow> bool" where
  "rolling_back ph = (case ph of BootKill _ \<Rightarrow> True | BootRemove _ \<Rightarrow> True | BootThrew _ \<Rightarrow> True | _ \<Rightarrow> False)"

definition removal :: "terminal_boot \<Rightarrow> boot_output" where
  "removal b = RunCommand (rm_command True [tb_dir b])"

definition kill_broke :: "boot_event list \<Rightarrow> bool" where
  "kill_broke g \<longleftrightarrow> (\<exists>e. ChannelClosedBy (CallFailed e) \<in> set g)"

text \<open>What a phase says about the past.\<close>

definition phase_past :: "boot_event list \<Rightarrow> boot_output list \<Rightarrow> terminal_boot \<Rightarrow> bool" where
  "phase_past g h b = (case tb_phase b of
       BootEnv \<Rightarrow> h = []
     | BootPid \<Rightarrow> bf_published (tb_filter b)
     | BootTty pid \<Rightarrow> bf_published (tb_filter b) \<and> 0 < pid \<and> pid \<le> MAX_SAFE_INTEGER
     | BootReturned pid tty \<Rightarrow> bf_published (tb_filter b) \<and> 0 < pid \<and> pid \<le> MAX_SAFE_INTEGER \<and> tty \<noteq> [] \<and>
         TerminalReady pid tty \<in> set h
     | BootKill _ \<Rightarrow> tb_opened b
     | BootRemove _ \<Rightarrow> removal b \<in> set h
     | BootThrew e \<Rightarrow> SpawnThrew e \<in> set h \<and>
         (h = [SpawnThrew e] \<and> \<not> tb_opened b \<or> removal b \<in> set h \<or> kill_broke g)
     | _ \<Rightarrow> True)"

definition opened_in :: "boot_phase \<Rightarrow> bool option" where
  "opened_in ph = (case ph of BootEnv \<Rightarrow> Some False | BootSetup _ \<Rightarrow> Some False | BootExec \<Rightarrow> Some False
     | BootWait _ \<Rightarrow> Some True | BootPid \<Rightarrow> Some True | BootTty _ \<Rightarrow> Some True | BootReturned _ _ \<Rightarrow> Some True | BootKill _ \<Rightarrow> Some True
     | _ \<Rightarrow> None)"

definition boot_inv :: "terminal_boot \<Rightarrow> boot_event list \<Rightarrow> boot_output list \<Rightarrow> bool" where
  "boot_inv b g h \<longleftrightarrow>
     length (filter over h) = (if boot_over (tb_phase b) then 1 else 0) \<and>
     (CloseChannel \<in> set h \<longleftrightarrow> tb_opened b \<and> rolling_back (tb_phase b)) \<and>
     (removal b \<in> set h \<longrightarrow> rolling_back (tb_phase b)) \<and>
     (tb_opened b \<and> rolling_back (tb_phase b) \<longrightarrow> bf_destroyed (tb_filter b)) \<and>
     (\<forall>o'. opened_in (tb_phase b) = Some o' \<longrightarrow> tb_opened b = o') \<and>
     phase_past g h b"

lemma digits_val_zero:
  assumes "digits_val ds = 0" "list_all is_digit ds" "ds \<noteq> []"
  shows "hd ds = 48"
  using assms
proof (induction ds rule: rev_induct)
  case (snoc d ds)
  have "d = 48" "digits_val ds = 0" using snoc.prems by (auto simp: is_digit_def)
  then show ?case using snoc.IH snoc.prems(2) by (cases ds) auto
qed simp

lemma parsePositiveId_range: "parsePositiveId v m = Inr n \<Longrightarrow> 0 < n \<and> n \<le> MAX_SAFE_INTEGER"
  using digits_val_zero[of "js_trim v"] by (auto simp: parsePositiveId_def Let_def split: if_splits)

lemma removal_fresh [simp]:
  "cat_command p \<noteq> rm_command r ps" "buildTerminalSetupScript dir argv env cwd marker \<noteq> rm_command r ps"
  "rm_command r ps \<noteq> cat_command p" "rm_command r ps \<noteq> buildTerminalSetupScript dir argv env cwd marker"
  by (simp_all add: cat_command_def rm_command_def buildTerminalSetupScript_def TERMINAL_SETUP_MARKER_def js_def)

lemma boot_inv_more: "boot_inv b g h \<Longrightarrow> boot_inv b (g @ k) h"
  by (auto simp: boot_inv_def phase_past_def kill_broke_def split: boot_phase.splits)

lemmas boot_defs = boot_inv_def phase_past_def removal_def over_def boot_over_def rolling_back_def opened_in_def tb_dir_def

lemma filter_push_keeps [simp]:
  "bf_destroyed (filter_push bs f) = bf_destroyed f" "bf_published f \<Longrightarrow> bf_published (filter_push bs f)"
  by (auto simp: filter_push_def filter_write_def Let_def split: option.splits)

lemma boot_catch_inv:
  "boot_inv b g h \<Longrightarrow> \<not> rolling_back (tb_phase b) \<Longrightarrow> \<not> boot_over (tb_phase b) \<Longrightarrow>
    boot_inv (fst (boot_catch e b)) g (h @ snd (boot_catch e b))"
  by (auto simp: boot_catch_def boot_remove_def boot_defs Let_def split: boot_phase.splits)

lemma boot_boundary_inv:
  assumes "boot_inv b g h" "tb_phase b = BootWait w" "bf_published (tb_filter b)"
  shows "boot_inv (fst (boot_boundary b)) g (h @ snd (boot_boundary b))"
proof (cases "tb_aborted b")
  case None
  then show ?thesis using assms by (auto simp: boot_boundary_def boot_file_def boot_defs)
next
  case (Some e)
  then show ?thesis using assms boot_catch_inv[OF assms(1), of e] by (simp add: boot_boundary_def rolling_back_def boot_over_def)
qed

lemma boot_env_inv: "boot_inv b g h \<Longrightarrow> tb_phase b = BootEnv \<Longrightarrow> boot_inv (fst (boot_env r b)) g (h @ snd (boot_env r b))"
  by (auto simp: boot_env_def boot_threw_def boot_defs split: sum.splits prod.splits)

lemma boot_setup_inv:
  assumes "boot_inv b g h" "tb_phase b = BootSetup env"
  shows "boot_inv (fst (boot_setup r b)) g (h @ snd (boot_setup r b))"
proof -
  note c = boot_catch_inv[OF assms(1)]
  have n: "\<not> rolling_back (tb_phase b)" "\<not> boot_over (tb_phase b)" using assms(2) by (simp_all add: rolling_back_def boot_over_def)
  have "boot_inv (b\<lparr>tb_phase := BootExec\<rparr>) g (h @ [OpenTerminal c1 c2 c3 c4])" for c1 c2 c3 c4
    using assms by (auto simp: boot_defs)
  then show ?thesis using c[OF n] by (auto simp: boot_setup_def split: sum.split prod.split)
qed

lemma boot_wait_inv:
  assumes "boot_inv b g h" "tb_phase b = BootWait w"
  shows "boot_inv (b\<lparr>tb_phase := BootWait w'\<rparr>) g h"
  using assms by (auto simp: boot_defs)

lemma boot_exit_inv:
  assumes "boot_inv b g h" "tb_phase b = BootWait w"
  shows "boot_inv (fst (boot_exit b)) g (h @ snd (boot_exit b))"
  using assms boot_boundary_inv[OF assms] by (auto simp: boot_exit_def boot_file_def boot_defs)

lemma boot_pid_inv:
  assumes "boot_inv b g h" "tb_phase b = BootPid"
  shows "boot_inv (fst (boot_pid r b)) g (h @ snd (boot_pid r b))"
proof -
  note c = boot_catch_inv[OF assms(1)]
  have n: "\<not> rolling_back (tb_phase b)" "\<not> boot_over (tb_phase b)" using assms(2) by (simp_all add: rolling_back_def boot_over_def)
  have "boot_inv (fst (b\<lparr>tb_phase := BootTty pid\<rparr>, [boot_file b nm])) g (h @ [boot_file b nm])"
    if "0 < pid" "pid \<le> MAX_SAFE_INTEGER" for pid nm
    using assms that by (auto simp: boot_file_def boot_defs)
  then show ?thesis using c[OF n]
    by (auto simp: boot_pid_def dest!: parsePositiveId_range split: sum.split option.split)
qed

lemma boot_tty_inv:
  assumes "boot_inv b g h" "tb_phase b = BootTty pid"
  shows "boot_inv (fst (boot_tty pid r b)) g (h @ snd (boot_tty pid r b))"
proof -
  note c = boot_catch_inv[OF assms(1)]
  have n: "\<not> rolling_back (tb_phase b)" "\<not> boot_over (tb_phase b)" using assms(2) by (simp_all add: rolling_back_def boot_over_def)
  have "boot_inv (b\<lparr>tb_phase := BootReturned pid t\<rparr>) g (h @ [TerminalReady pid t])" if "t \<noteq> []" for t
    using assms that by (auto simp: boot_defs)
  then show ?thesis using c[OF n] by (auto simp: boot_tty_def split: sum.split option.split)
qed

lemma boot_killed_inv:
  assumes "boot_inv b g h" "tb_phase b = BootKill e" "ChannelClosedBy r \<in> set g"
  shows "boot_inv (fst (boot_killed e r b)) g (h @ snd (boot_killed e r b))"
  using assms by (cases r) (auto simp: boot_killed_def boot_remove_def boot_threw_def kill_broke_def boot_defs)

lemma boot_threw_inv:
  assumes "boot_inv b g h" "tb_phase b = BootRemove e"
  shows "boot_inv (fst (boot_threw e b)) g (h @ snd (boot_threw e b))"
  using assms by (auto simp: boot_threw_def boot_defs)

lemma boot_opened_inv:
  "boot_inv b g h \<Longrightarrow> tb_phase b = BootExec \<Longrightarrow> boot_inv (b\<lparr>tb_phase := BootWait w, tb_opened := True\<rparr>) g h"
  by (auto simp: boot_defs)

lemma boot_resume_inv:
  assumes i: "boot_inv b g h" and ev: "ev \<in> set g"
  shows "boot_inv (fst (boot_resume b ev)) g (h @ snd (boot_resume b ev))"
proof -
  have same: "boot_inv (fst (b, [])) g (h @ snd (b, [] :: boot_output list))" using i by simp
  have catch: "\<not> rolling_back (tb_phase b) \<Longrightarrow> \<not> boot_over (tb_phase b) \<Longrightarrow>
      boot_inv (fst (boot_catch e b)) g (h @ snd (boot_catch e b))" for e using boot_catch_inv[OF i] .
  show ?thesis
  proof (cases "tb_phase b")
    case BootEnv
    then show ?thesis using same boot_env_inv[OF i BootEnv] by (cases ev) (simp_all add: boot_resume_def)
  next
    case (BootSetup env)
    then show ?thesis using same boot_setup_inv[OF i BootSetup] by (cases ev) (simp_all add: boot_resume_def)
  next
    case BootExec
    then show ?thesis using same catch boot_opened_inv[OF i BootExec]
      by (cases ev) (simp_all add: boot_resume_def rolling_back_def boot_over_def split: option.split)
  next
    case (BootWait w)
    note l = boot_boundary_inv[OF i BootWait] boot_exit_inv[OF i BootWait] boot_wait_inv[OF i BootWait]
    show ?thesis using same l catch BootWait
      by (cases ev; cases w) (simp_all add: boot_resume_def rolling_back_def boot_over_def)
  next
    case BootPid
    then show ?thesis using same boot_pid_inv[OF i BootPid] by (cases ev) (simp_all add: boot_resume_def)
  next
    case (BootTty pid)
    then show ?thesis using same boot_tty_inv[OF i BootTty] by (cases ev) (simp_all add: boot_resume_def)
  next
    case (BootKill e)
    then show ?thesis using same boot_killed_inv[OF i BootKill] ev by (cases ev) (simp_all add: boot_resume_def)
  next
    case (BootRemove e)
    then show ?thesis using same boot_threw_inv[OF i BootRemove] by (cases ev) (simp_all add: boot_resume_def)
  qed (use same in \<open>simp_all add: boot_resume_def\<close>)
qed

lemma boot_inv_cong:
  assumes "boot_inv b g h" "tb_phase b' = tb_phase b" "tb_opened b' = tb_opened b" "tb_dir b' = tb_dir b"
    and "bf_published (tb_filter b) \<Longrightarrow> bf_published (tb_filter b')"
    and "bf_destroyed (tb_filter b) \<Longrightarrow> bf_destroyed (tb_filter b')"
  shows "boot_inv b' g h"
  using assms by (auto simp: boot_inv_def phase_past_def removal_def split: boot_phase.splits)

lemma boot_step_inv:
  assumes "boot_inv b g h" "boot_step b ev = (b', out)"
  shows "boot_inv b' (g @ [ev]) (h @ out)"
proof -
  have i: "boot_inv b (g @ [ev]) h" using assms(1) by (rule boot_inv_more)
  have res: "boot_inv b1 (g @ [ev]) h \<Longrightarrow> boot_resume b1 ev = (b', out) \<Longrightarrow> ?thesis" for b1
    using boot_resume_inv[of b1 "g @ [ev]" h ev] by simp
  show ?thesis
  proof (cases ev)
    case (Chunk bs)
    have "boot_inv (b\<lparr>tb_filter := filter_push bs (tb_filter b)\<rparr>) (g @ [ev]) h" by (rule boot_inv_cong[OF i]) (simp_all add: tb_dir_def)
    then show ?thesis using assms(2) i Chunk by (auto simp: boot_step_def split: if_splits)
  next
    case (PumpOver err)
    have "boot_inv (b\<lparr>tb_pumped := True, tb_filter := (tb_filter b)\<lparr>bf_destroyed := bf_destroyed (tb_filter b) \<or> err \<noteq> None\<rparr>\<rparr>) (g @ [ev]) h"
      by (rule boot_inv_cong[OF i]) (simp_all add: tb_dir_def)
    then show ?thesis using assms(2) i PumpOver by (auto simp: boot_step_def split: if_splits)
  next
    case (CallerAborted e)
    have a: "boot_inv (b\<lparr>tb_aborted := Some e\<rparr>) (g @ [ev]) h" by (rule boot_inv_cong[OF i]) (simp_all add: tb_dir_def)
    show ?thesis
    proof (cases "tb_aborted b")
      case None
      then show ?thesis using res[OF a] assms(2) CallerAborted by (simp add: boot_step_def)
    next
      case (Some e')
      then show ?thesis using i assms(2) CallerAborted by (simp add: boot_step_def)
    qed
  qed (use assms(2) res[OF i] in \<open>simp_all add: boot_step_def\<close>)
qed

interpretation boot_runs: reactive boot_step boot_inv
  by unfold_locales (rule boot_step_inv)

lemma boot_start_inv:
  assumes "spawnSshTerminal spec i uuid live root aborted = (b, out)"
  shows "boot_inv b [] out"
  using assms by (auto simp: spawnSshTerminal_def boot_threw_def boot_defs BootstrapOutputFilter_def Let_def split: option.splits if_splits)

text \<open>
  C34: A terminal that does not start leaves nothing behind. In every run of a start, it is over at most
  once; a terminal is handed out only when the boundary was seen, with a pid that is a positive safe
  integer and a tty, and neither the channel was closed nor the state removed; and a start that throws
  after its channel was open has closed it and ended the output, and has asked for its private state
  to be removed once its setup was sent, unless closing the channel failed.
\<close>

theorem terminal_start_undone:
  assumes "spawnSshTerminal spec i uuid live root aborted = (b0, out0)" and "steps boot_step b0 es = (b, out)"
  shows "length (filter over (out0 @ out)) \<le> 1 \<and>
    (\<forall>pid tty. TerminalReady pid tty \<in> set (out0 @ out) \<longrightarrow>
      bf_published (tb_filter b) \<and> 0 < pid \<and> pid \<le> MAX_SAFE_INTEGER \<and> tty \<noteq> [] \<and>
      CloseChannel \<notin> set (out0 @ out) \<and> removal b \<notin> set (out0 @ out)) \<and>
    (\<forall>e. SpawnThrew e \<in> set (out0 @ out) \<longrightarrow>
      (tb_opened b \<longrightarrow> CloseChannel \<in> set (out0 @ out) \<and> bf_destroyed (tb_filter b)) \<and>
      ((\<exists>c. RunCommand c \<in> set (out0 @ out)) \<longrightarrow> removal b \<in> set (out0 @ out) \<or> kill_broke es))"
proof -
  let ?h = "out0 @ out"
  have inv: "boot_inv b es ?h" using boot_runs.always[OF boot_start_inv[OF assms(1)] assms(2)] by simp
  have n: "length (filter over ?h) = (if boot_over (tb_phase b) then 1 else 0)" and p: "phase_past es ?h b"
    and cl: "CloseChannel \<in> set ?h \<longleftrightarrow> tb_opened b \<and> rolling_back (tb_phase b)"
    and rm: "removal b \<in> set ?h \<longrightarrow> rolling_back (tb_phase b)"
    and de: "tb_opened b \<and> rolling_back (tb_phase b) \<longrightarrow> bf_destroyed (tb_filter b)"
    using inv unfolding boot_inv_def by blast+
  have once: "x = y" if "x \<in> set ?h" "y \<in> set ?h" "over x" "over y" for x y
  proof -
    have "{x, y} \<subseteq> set (filter over ?h)" using that by auto
    then have "card {x, y} \<le> card (set (filter over ?h))" by (intro card_mono) simp_all
    also have "\<dots> \<le> length (filter over ?h)" by (rule card_length)
    also have "\<dots> \<le> 1" using n by simp
    finally show ?thesis by (cases "x = y") simp_all
  qed
  have ended: "boot_over (tb_phase b)" if "x \<in> set ?h" "over x" for x
    using n that by (cases "boot_over (tb_phase b)") (auto simp: filter_empty_conv)
  have last: "(\<exists>pid tty. tb_phase b = BootReturned pid tty \<and> TerminalReady pid tty \<in> set ?h) \<or>
      (\<exists>e. tb_phase b = BootThrew e \<and> SpawnThrew e \<in> set ?h)" if "boot_over (tb_phase b)"
    using p that by (cases "tb_phase b") (simp_all add: phase_past_def boot_over_def)
  have o: "over (TerminalReady pid tty)" "over (SpawnThrew e)" for pid tty e by (simp_all add: over_def)
  have ready: "tb_phase b = BootReturned pid tty" if r: "TerminalReady pid tty \<in> set ?h" for pid tty
    using last[OF ended[OF r o(1)]] once[OF r _ o(1) o(1)] once[OF r _ o(1) o(2)] by blast
  have threw: "tb_phase b = BootThrew e" if r: "SpawnThrew e \<in> set ?h" for e
    using last[OF ended[OF r o(2)]] once[OF r _ o(2) o(1)] once[OF r _ o(2) o(2)] by blast
  have R: "bf_published (tb_filter b) \<and> 0 < pid \<and> pid \<le> MAX_SAFE_INTEGER \<and> tty \<noteq> [] \<and> CloseChannel \<notin> set ?h \<and> removal b \<notin> set ?h"
    if "TerminalReady pid tty \<in> set ?h" for pid tty
    using ready[OF that] p cl rm by (simp add: phase_past_def rolling_back_def)
  have T: "(tb_opened b \<longrightarrow> CloseChannel \<in> set ?h \<and> bf_destroyed (tb_filter b)) \<and>
      ((\<exists>c. RunCommand c \<in> set ?h) \<longrightarrow> removal b \<in> set ?h \<or> kill_broke es)" if r: "SpawnThrew e \<in> set ?h" for e
  proof -
    have "?h = [SpawnThrew e] \<and> \<not> tb_opened b \<or> removal b \<in> set ?h \<or> kill_broke es"
      using threw[OF r] p by (simp add: phase_past_def)
    moreover have "rolling_back (tb_phase b)" using threw[OF r] by (simp add: rolling_back_def)
    ultimately show ?thesis using cl de by (metis empty_iff list.set(1) boot_output.distinct(7) set_ConsD)
  qed
  show ?thesis using n R T by simp
qed


section \<open>The child of the terminal\<close>

definition setup_bytes :: "jstr list \<Rightarrow> jstr list \<Rightarrow> jstr \<Rightarrow> jstr \<Rightarrow> (bytes \<times> bytes \<times> bytes \<times> bytes) option" where
  "setup_bytes argv env cwd marker =
     (case (base64_d (b64 (nul_terminated argv)), base64_d (b64 (nul_terminated env)), base64_d (b64 cwd), base64_d (b64 marker)) of
        (Some a, Some e, Some c, Some m) \<Rightarrow> Some (a, e, c, m)
      | _ \<Rightarrow> None)"

definition plain_text :: "jstr \<Rightarrow> bool" where
  "plain_text s \<longleftrightarrow> units_ok s \<and> 0 \<notin> set (utf8 s)"

lemma mapfile_texts: "\<forall>x \<in> set xs. plain_text x \<Longrightarrow> mapfile (utf8 (nul_terminated xs)) = map utf8 xs"
  using mapfile_terminated[of "map utf8 xs"] by (simp add: utf8_terminated plain_text_def)

lemma terminal_runs_spec:
  assumes "\<forall>x \<in> set (cwd # marker # argv @ env). plain_text x" "argv \<noteq> []"
    and "cwd = [] \<or> last cwd \<noteq> 10" "marker = [] \<or> last marker \<noteq> 10" "chdir (utf8 cwd)"
  shows "\<exists>f. setup_bytes argv env cwd marker = Some f \<and>
    terminal_wrapper chdir True f = Inr (utf8 marker, utf8 cwd, env_i (map utf8 env @ map utf8 argv))"
proof -
  have u: "units_ok (nul_terminated argv)" "units_ok (nul_terminated env)" "units_ok cwd" "units_ok marker"
    using assms(1) units_ok_terminated[of argv] units_ok_terminated[of env] by (simp_all add: plain_text_def)
  have c: "command_subst (utf8 s) = utf8 s" if "plain_text s" "s = [] \<or> last s \<noteq> 10" for s
    using that utf8_last[of s 10] by (intro command_subst_plain) (auto simp: plain_text_def)
  show ?thesis
    using assms c u mapfile_texts[of argv] mapfile_texts[of env]
    by (simp add: setup_bytes_def terminal_wrapper_def base64_d_b64 Let_def)
qed

text \<open>An argument with a NUL, which \<open>spawnTerminal\<close> lets through, reaches the child as two arguments.\<close>

lemma nul_splits_argument:
  "\<exists>f m d. setup_bytes [[97], [98, 0, 99]] [] [47] [109] = Some f \<and>
    terminal_wrapper (\<lambda>_. True) True f = Inr (m, d, [], [[97], [98], [99]])"
proof -
  have u: "utf8 [97, 0, 98, 0, 99, 0] = [97, 0, 98, 0, 99, 0]" by (rule utf8_ascii) simp
  have m: "mapfile [97, 0, 98, 0, 99, 0] = [[97], [98], [99]]"
    using mapfile_cut[of "[97]" "[98, 0, 99, 0]"] mapfile_cut[of "[98]" "[99, 0]"] mapfile_cut[of "[99]" "[]"] by simp
  show ?thesis
    by (simp del: utf8.simps add: setup_bytes_def base64_d_b64 nul_terminated_def u terminal_wrapper_def env_i_def m Let_def utf8_ascii)
qed

section \<open>Samples\<close>

definition sample_terminal :: terminal_spec where
  "sample_terminal = \<lparr>ts_argv = [[115, 104]], ts_cwd = [47], ts_rows = 24, ts_cols = 80\<rparr>"

definition sample_boot :: "boot_event list" where
  "sample_boot = [EnvironmentKnown (Inr []), SetupDone (Inr (Some 0, [])), ExecDone None, CallerAborted [120],
     ChannelClosedBy (Returned ()), StateGone]"

lemma sample_boot_run:
  assumes "tb_phase b0 = BootEnv" "tb_aborted b0 = None" "steps boot_step b0 sample_boot = (b, out)"
  shows "tb_opened b \<and> SpawnThrew [120] \<in> set out \<and> (\<exists>c. RunCommand c \<in> set out)"
  using assms by (auto simp: sample_boot_def boot_step_def boot_resume_def boot_env_def boot_setup_def boot_catch_def boot_killed_def
      boot_remove_def boot_threw_def term_of_def Let_def)

lemma terminal_start_undone_witness:
  "\<exists>b0 b out. spawnSshTerminal sample_terminal [49] [117] True (Some [47, 114]) None = (b0, []) \<and>
    steps boot_step b0 sample_boot = (b, out) \<and> CloseChannel \<in> set out \<and> removal b \<in> set out"
proof -
  let ?s = "spawnSshTerminal sample_terminal [49] [117] True (Some [47, 114]) None"
  obtain b0 where b0: "?s = (b0, [])" "tb_phase b0 = BootEnv" "tb_aborted b0 = None"
    by (simp add: spawnSshTerminal_def isAbsolute_def Let_def del: utf8.simps)
  obtain b out where r: "steps boot_step b0 sample_boot = (b, out)" by (cases "steps boot_step b0 sample_boot")
  note o = sample_boot_run[OF b0(2,3) r]
  moreover have "\<not> kill_broke sample_boot" by (simp add: kill_broke_def sample_boot_def)
  ultimately have "CloseChannel \<in> set out \<and> removal b \<in> set out" using terminal_start_undone[OF b0(1) r] by auto
  then show ?thesis using b0(1) r by blast
qed

end
