(* ===== verification/TerminalSession.thy ===== *)
theory TerminalSession
  imports TerminalBoot
begin

text \<open>
  A running remote terminal (\<^verbatim>\<open>subprocess-ssh/src/terminal.ts\<close>, class \<open>SshTerminalHandle\<close>): what it reads
  from \<^verbatim>\<open>ps\<close>, its operations on the foreground group, and the clean-up of its session. A method that waits is a
  phase in the state; \<open>late\<close> tells whether the deadline of a loop has passed when its call is over.
\<close>

section \<open>Reading process tables\<close>

text \<open>A trimmed line split at its white space.\<close>

function ws_words :: "jstr \<Rightarrow> jstr list" where
  "ws_words s =
     (let r = dropWhile is_js_ws s in
      if r = [] then [] else takeWhile (\<lambda>c. \<not> is_js_ws c) r # ws_words (dropWhile (\<lambda>c. \<not> is_js_ws c) r))"
  by pat_completeness auto
termination
proof (relation "measure length")
  fix s r :: jstr
  assume r: "r = dropWhile is_js_ws s" "r \<noteq> []"
  then have "\<not> is_js_ws (hd r)" by (simp add: hd_dropWhile)
  then have "length (dropWhile (\<lambda>c. \<not> is_js_ws c) r) < length r"
    using r(2) length_dropWhile_le[of "\<lambda>c. \<not> is_js_ws c" "tl r"] by (cases r) auto
  also have "\<dots> \<le> length s" using r(1) length_dropWhile_le by auto
  finally show "(dropWhile (\<lambda>c. \<not> is_js_ws c) r, s) \<in> measure length" by simp
qed simp

declare ws_words.simps [simp del]

definition word_at :: "nat \<Rightarrow> jstr list \<Rightarrow> jstr" where
  "word_at k ws = (if k < length ws then ws ! k else [])"

text \<open>
  \<open>Number\<close> of a word; \<open>num\<close> stands for its value on words that are no decimal numerals (\<open>None\<close>: not an
  integer). A numeral too large for a double is not rounded here: it is not a safe integer either way.
\<close>

definition number_of :: "(jstr \<Rightarrow> int option) \<Rightarrow> jstr \<Rightarrow> int option" where
  "number_of num w = (if w \<noteq> [] \<and> list_all is_digit w then Some (int (digits_val w)) else num w)"

definition cannot_resolve :: "nat \<Rightarrow> jstr" where
  "cannot_resolve pid = js ''subprocess-ssh: cannot resolve foreground process group for terminal '' @ digits pid"

fun scan_foreground :: "jstr \<Rightarrow> jstr list \<Rightarrow> nat option \<Rightarrow> bool \<Rightarrow> jstr + nat option \<times> bool" where
  "scan_foreground message [] g w = Inr (g, w)"
| "scan_foreground message (l # ls) g w =
     (let trimmed = js_trim l; ws = ws_words trimmed in
      if trimmed = [] then scan_foreground message ls g w
      else case parsePositiveId (word_at 0 ws) message of
        Inl e \<Rightarrow> Inl e
      | Inr n \<Rightarrow> scan_foreground message ls (case g of None \<Rightarrow> Some n | Some k \<Rightarrow> Some k) (w \<or> take 1 (word_at 1 ws) = js ''S''))"

type_synonym answer = "nat option \<times> jstr"

definition foreground_of :: "nat \<Rightarrow> answer \<Rightarrow> jstr + (nat \<times> bool) option" where
  "foreground_of pid r =
     (if fst r \<noteq> Some 0 \<or> js_trim (snd r) = [] then Inr None
      else case scan_foreground (cannot_resolve pid) (split_lit (snd r) [10]) None False of
        Inl e \<Rightarrow> Inl e
      | Inr (g, w) \<Rightarrow> Inr (map_option (\<lambda>n. (n, w)) g))"

definition dead_stat :: "jstr \<Rightarrow> bool" where
  "dead_stat stat \<longleftrightarrow> take 1 stat \<in> {js ''Z'', js ''X'', js ''x''}"

definition is_header :: "jstr \<Rightarrow> bool" where
  "is_header l \<longleftrightarrow> take 3 l = js ''SID'' \<and> 3 < length l \<and> is_js_ws (l ! 3)"

definition member_group :: "(jstr \<Rightarrow> int option) \<Rightarrow> nat \<Rightarrow> jstr \<Rightarrow> nat option" where
  "member_group num pid line =
     (let trimmed = js_trim line; ws = ws_words trimmed in
      if trimmed = [] \<or> is_header trimmed \<or> number_of num (word_at 0 ws) \<noteq> Some (int pid) \<or> dead_stat (word_at 2 ws) then None
      else case (if 1 < length ws then number_of num (ws ! 1) else None) of
        Some g \<Rightarrow> if g \<le> int MAX_SAFE_INTEGER \<and> g > 1 then Some (nat g) else None
      | None \<Rightarrow> None)"

definition session_groups :: "(jstr \<Rightarrow> int option) \<Rightarrow> nat \<Rightarrow> answer \<Rightarrow> nat list" where
  "session_groups num pid r =
     (if fst r \<noteq> Some 0 then []
      else fold (\<lambda>l gs. case member_group num pid l of None \<Rightarrow> gs | Some g \<Rightarrow> set_add g gs) (split_lit (snd r) [10]) [])"

section \<open>State\<close>

datatype failure = LostConnection | Failure jstr

definition failure_of :: "'a call_result \<Rightarrow> failure" where
  "failure_of r = (case r of CallFailed e \<Rightarrow> Failure e | _ \<Rightarrow> LostConnection)"

datatype op_phase = OpInspect | OpSignalInspect jstr | OpSignalKill jstr nat

datatype close_phase =
    CloseOps | CloseGone | CloseList | CloseTerm | CloseAwait | CloseTick | CloseRace
  | CloseKillChannel | CloseAwaitKill | CloseKillGroups | CloseTickKill | CloseLast | CloseRaceKill "nat list"
  | CloseRemove | CloseDone | CloseFailed failure

record terminal =
  tm_pid :: nat
  tm_tty :: jstr
  tm_dir :: jstr
  tm_live :: bool
  tm_topLevelExited :: bool
  tm_outcome :: "(failure + SubprocessOutcome) option"
  tm_terminationSignal :: "jstr option"
  tm_aborted :: bool
  tm_operations :: "(nat \<times> op_phase) list"
  tm_cleanup :: "close_phase option"

definition SshTerminalHandle :: "nat \<Rightarrow> jstr \<Rightarrow> jstr \<Rightarrow> terminal" where
  "SshTerminalHandle pid tty dir = \<lparr>tm_pid = pid, tm_tty = tty, tm_dir = dir, tm_live = True, tm_topLevelExited = False,
     tm_outcome = None, tm_terminationSignal = None, tm_aborted = False, tm_operations = [], tm_cleanup = None\<rparr>"

datatype op_value = Written | Foreground "(nat \<times> bool) option" | SignalledGroup nat

datatype terminal_output =
    TmCommand jstr
  | TmWrite jstr
  | TmKillChannel
  | OpEnds nat "failure + op_value"
  | TerminateEnds "failure option"

type_synonym terminal_reaction = "terminal \<times> terminal_output list"

definition ps_tty :: "jstr \<Rightarrow> jstr" where
  "ps_tty tty = js ''ps -o tpgid=,stat= -t '' @ sq tty"

definition PS_SESSIONS :: jstr where
  "PS_SESSIONS = js ''ps -eo sid=,pgid=,stat=''"

definition kill_groups :: "jstr \<Rightarrow> nat list \<Rightarrow> jstr" where
  "kill_groups sig gs = js ''kill -'' @ sig @ [32] @ join (map (\<lambda>g. 45 # digits g) gs) [32]"

section \<open>Operations\<close>

definition terminating :: jstr where
  "terminating = js ''subprocess-ssh: terminal is terminating''"

definition op_ends :: "nat \<Rightarrow> failure + op_value \<Rightarrow> terminal \<Rightarrow> terminal_reaction" where
  "op_ends n r t = (t\<lparr>tm_operations := AList.delete n (tm_operations t)\<rparr>, [OpEnds n r])"

definition op_waits :: "nat \<Rightarrow> op_phase \<Rightarrow> jstr \<Rightarrow> terminal \<Rightarrow> terminal_reaction" where
  "op_waits n ph c t = (t\<lparr>tm_operations := AList.update n ph (tm_operations t)\<rparr>, [TmCommand c])"

definition no_transport :: failure where
  "no_transport = Failure (connLostError (js ''no live SSH connection''))"

definition trackOperation :: "nat \<Rightarrow> (terminal \<Rightarrow> terminal_reaction) \<Rightarrow> terminal \<Rightarrow> terminal_reaction" where
  "trackOperation n run t = (if tm_aborted t then (t, [OpEnds n (Inl (Failure terminating))]) else run t)"

definition terminal_write :: "nat \<Rightarrow> jstr \<Rightarrow> terminal \<Rightarrow> terminal_reaction" where
  "terminal_write n text = trackOperation n (\<lambda>t.
     if tm_topLevelExited t then (t, [OpEnds n (Inl (Failure (js ''subprocess-ssh: terminal process has exited'')))])
     else (t, [TmWrite text, OpEnds n (Inr Written)]))"

definition inspectForegroundOnce :: "nat \<Rightarrow> op_phase \<Rightarrow> terminal \<Rightarrow> terminal_reaction" where
  "inspectForegroundOnce n ph t = (if \<not> tm_live t then op_ends n (Inl no_transport) t else op_waits n ph (ps_tty (tm_tty t)) t)"

definition foreground_read :: "answer call_result \<Rightarrow> terminal \<Rightarrow> failure + (nat \<times> bool) option" where
  "foreground_read r t =
     (case r of
        Returned x \<Rightarrow> (case foreground_of (tm_pid t) x of Inl e \<Rightarrow> Inl (Failure e) | Inr f \<Rightarrow> Inr f)
      | _ \<Rightarrow> if tm_topLevelExited t then Inr None else Inl (failure_of r))"

definition signal_foreground :: "nat \<Rightarrow> jstr \<Rightarrow> failure + (nat \<times> bool) option \<Rightarrow> terminal \<Rightarrow> terminal_reaction" where
  "signal_foreground n sig f t =
     (case f of
        Inl e \<Rightarrow> op_ends n (Inl e) t
      | Inr None \<Rightarrow> op_ends n (Inl (Failure (cannot_resolve (tm_pid t)))) t
      | Inr (Some (g, w)) \<Rightarrow>
          if sig = js ''SIGKILL'' \<and> g = tm_pid t
          then op_ends n (Inl (Failure (js ''refusing to SIGKILL the terminal shell; terminate the terminal session instead''))) t
          else if \<not> tm_live t then op_ends n (Inl no_transport) t
          else op_waits n (OpSignalKill sig g) (kill_command (drop 3 sig) g) t)"

definition signal_failed :: "jstr \<Rightarrow> nat \<Rightarrow> jstr \<Rightarrow> jstr" where
  "signal_failed sig g stderr = js ''subprocess-ssh: signal '' @ sig @ js '' to group '' @ digits g @ js '' failed: '' @ js_trim stderr"

definition group_signalled :: "nat \<Rightarrow> jstr \<Rightarrow> nat \<Rightarrow> answer call_result \<Rightarrow> terminal \<Rightarrow> terminal_reaction" where
  "group_signalled n sig g r =
     op_ends n (case r of
       Returned (code, stderr) \<Rightarrow> if code \<noteq> Some 0 then Inl (Failure (signal_failed sig g stderr)) else Inr (SignalledGroup g)
     | _ \<Rightarrow> Inl (failure_of r))"

definition op_answered :: "nat \<Rightarrow> op_phase \<Rightarrow> answer call_result \<Rightarrow> terminal \<Rightarrow> terminal_reaction" where
  "op_answered n ph r t =
     (case ph of
        OpInspect \<Rightarrow> op_ends n (map_sum id Foreground (foreground_read r t)) t
      | OpSignalInspect sig \<Rightarrow> signal_foreground n sig (foreground_read r t) t
      | OpSignalKill sig g \<Rightarrow> group_signalled n sig g r t)"

section \<open>The exit of the command\<close>

definition exit_outcome :: "nat option \<times> jstr option \<Rightarrow> terminal \<Rightarrow> failure + SubprocessOutcome" where
  "exit_outcome r t =
     (case r of
        (code, Some (c # s)) \<Rightarrow>
          Inr \<lparr>so_exitCode = code, so_signal = Some (if take 3 (c # s) = js ''SIG'' then c # s else js ''SIG'' @ c # s)\<rparr>
      | (None, _) \<Rightarrow>
          (case tm_terminationSignal t of
             Some sig \<Rightarrow> Inr \<lparr>so_exitCode = None, so_signal = Some sig\<rparr>
           | None \<Rightarrow> Inl (Failure (connLostError (js ''terminal channel closed without an exit status''))))
      | (Some c, _) \<Rightarrow> Inr \<lparr>so_exitCode = Some c, so_signal = None\<rparr>)"

definition waitForCommand :: "(nat option \<times> jstr option) call_result \<Rightarrow> terminal \<Rightarrow> terminal" where
  "waitForCommand r t =
     (if tm_outcome t \<noteq> None then t
      else t\<lparr>tm_topLevelExited := True,
             tm_outcome := Some (case r of Returned x \<Rightarrow> exit_outcome x t | _ \<Rightarrow> Inl (failure_of r))\<rparr>)"

section \<open>Clean-up\<close>

definition closing :: "close_phase \<Rightarrow> terminal_output list \<Rightarrow> terminal \<Rightarrow> terminal_reaction" where
  "closing ph out t = (t\<lparr>tm_cleanup := Some ph\<rparr>, out)"

definition close_ends :: "failure option \<Rightarrow> terminal \<Rightarrow> terminal_reaction" where
  "close_ends e = closing (case e of None \<Rightarrow> CloseDone | Some f \<Rightarrow> CloseFailed f) [TerminateEnds e]"

definition terminal_terminate :: "terminal \<Rightarrow> terminal" where
  "terminal_terminate t = (if tm_cleanup t \<noteq> None then t else t\<lparr>tm_aborted := True, tm_cleanup := Some CloseOps\<rparr>)"

definition surviving_groups :: "nat list \<Rightarrow> failure" where
  "surviving_groups gs =
     Failure (js ''subprocess-ssh: terminal cleanup failed; surviving process groups: '' @ join (map digits gs) (js '', ''))"

definition surviving_pid :: "nat \<Rightarrow> failure" where
  "surviving_pid pid = Failure (js ''subprocess-ssh: terminal cleanup failed; surviving pid: '' @ digits pid)"

definition close_finish :: "nat list \<Rightarrow> terminal \<Rightarrow> terminal_reaction" where
  "close_finish gs t =
     (if gs \<noteq> [] then close_ends (Some (surviving_groups gs)) t
      else if \<not> tm_topLevelExited t then close_ends (Some (surviving_pid (tm_pid t))) t
      else closing CloseRemove [TmCommand (rm_command True [tm_dir t])] t)"

definition close_kill :: "nat list \<Rightarrow> terminal \<Rightarrow> terminal_reaction" where
  "close_kill gs t =
     (if gs \<noteq> [] \<or> \<not> tm_topLevelExited t
      then closing CloseKillChannel [TmKillChannel] (t\<lparr>tm_terminationSignal := Some (js ''SIGKILL'')\<rparr>)
      else close_finish gs t)"

text \<open>Behind \<open>awaitSessionEmpty\<close>, gracious and forced.\<close>

definition close_waited :: "nat list \<Rightarrow> terminal \<Rightarrow> terminal_reaction" where
  "close_waited gs t = (if gs = [] \<and> \<not> tm_topLevelExited t then closing CloseRace [] t else close_kill gs t)"

definition close_killed :: "nat list \<Rightarrow> terminal \<Rightarrow> terminal_reaction" where
  "close_killed gs t = (if \<not> tm_topLevelExited t then closing (CloseRaceKill gs) [] t else close_finish gs t)"

definition close_start :: "terminal \<Rightarrow> terminal_reaction" where
  "close_start t = (if tm_live t then closing CloseList [TmCommand PS_SESSIONS] t else closing CloseGone [TmKillChannel] t)"

definition close_listed :: "nat list \<Rightarrow> terminal \<Rightarrow> terminal_reaction" where
  "close_listed gs t =
     (if gs \<noteq> [] then closing CloseTerm [TmCommand (kill_groups (js ''TERM'') gs)] (t\<lparr>tm_terminationSignal := Some (js ''SIGTERM'')\<rparr>)
      else close_waited gs t)"

definition list_again :: "close_phase \<Rightarrow> terminal \<Rightarrow> terminal_reaction" where
  "list_again ph = closing ph [TmCommand PS_SESSIONS]"

datatype close_event =
    OpsSettled
  | ChannelKillDone "unit call_result"
  | Listed "answer call_result" bool
  | GroupsSignalled "unit call_result" bool
  | PollTick
  | RaceOver
  | StateRemovedHere
  | CleanupForgotten

definition close_step :: "(jstr \<Rightarrow> int option) \<Rightarrow> close_phase \<Rightarrow> close_event \<Rightarrow> terminal \<Rightarrow> terminal_reaction" where
  "close_step num ph ev t =
     (case (ph, ev) of
        (CloseOps, OpsSettled) \<Rightarrow> if tm_operations t = [] then close_start t else (t, [])
      | (CloseGone, ChannelKillDone _) \<Rightarrow> close_ends None t
      | (CloseList, Listed (Returned r) _) \<Rightarrow> close_listed (session_groups num (tm_pid t) r) t
      | (CloseList, Listed ConnectionLost _) \<Rightarrow> close_listed [] t
      | (CloseList, Listed (CallFailed e) _) \<Rightarrow> close_ends (Some (Failure e)) t
      | (CloseTerm, GroupsSignalled r _) \<Rightarrow>
          (case signalRemoteGroups r of Some e \<Rightarrow> close_ends (Some (Failure e)) t | None \<Rightarrow> list_again CloseAwait t)
      | (CloseAwait, Listed (Returned r) late) \<Rightarrow>
          (let gs = session_groups num (tm_pid t) r in if gs = [] \<or> late then close_waited gs t else closing CloseTick [] t)
      | (CloseAwait, Listed r _) \<Rightarrow> close_ends (Some (failure_of r)) t
      | (CloseTick, PollTick) \<Rightarrow> list_again CloseAwait t
      | (CloseRace, RaceOver) \<Rightarrow> close_kill [] t
      | (CloseKillChannel, ChannelKillDone (Returned _)) \<Rightarrow> list_again CloseAwaitKill t
      | (CloseKillChannel, ChannelKillDone ConnectionLost) \<Rightarrow> close_ends None t
      | (CloseKillChannel, ChannelKillDone (CallFailed e)) \<Rightarrow> close_ends (Some (Failure e)) t
      | (CloseAwaitKill, Listed (Returned r) _) \<Rightarrow>
          (let gs = session_groups num (tm_pid t) r in
           if gs = [] then close_killed gs t else closing CloseKillGroups [TmCommand (kill_groups (js ''KILL'') gs)] t)
      | (CloseAwaitKill, Listed r _) \<Rightarrow> close_ends (Some (failure_of r)) t
      | (CloseKillGroups, GroupsSignalled r late) \<Rightarrow>
          (case signalRemoteGroups r of
             Some e \<Rightarrow> close_ends (Some (Failure e)) t
           | None \<Rightarrow> if late then list_again CloseLast t else closing CloseTickKill [] t)
      | (CloseTickKill, PollTick) \<Rightarrow> list_again CloseAwaitKill t
      | (CloseLast, Listed (Returned r) _) \<Rightarrow> close_killed (session_groups num (tm_pid t) r) t
      | (CloseLast, Listed r _) \<Rightarrow> close_ends (Some (failure_of r)) t
      | (CloseRaceKill gs, RaceOver) \<Rightarrow> close_finish gs t
      | (CloseRemove, StateRemovedHere) \<Rightarrow> close_ends None t
      | (CloseFailed _, CleanupForgotten) \<Rightarrow> (t\<lparr>tm_cleanup := None\<rparr>, [])
      | _ \<Rightarrow> (t, []))"

section \<open>All events\<close>

datatype terminal_event =
    TransportIs bool
  | WriteCalled nat jstr
  | InspectCalled nat
  | SignalCalled nat jstr
  | OpAnswered nat "answer call_result"
  | ProcEnded "(nat option \<times> jstr option) call_result"
  | TerminateCalled
  | Closing close_event

definition op_number :: "terminal_event \<Rightarrow> nat option" where
  "op_number ev = (case ev of WriteCalled n _ \<Rightarrow> Some n | InspectCalled n \<Rightarrow> Some n | SignalCalled n _ \<Rightarrow> Some n | _ \<Rightarrow> None)"

text \<open>A call takes a number that no pending operation has.\<close>

definition terminal_step :: "(jstr \<Rightarrow> int option) \<Rightarrow> terminal \<Rightarrow> terminal_event \<Rightarrow> terminal_reaction" where
  "terminal_step num t ev =
     (if \<exists>n \<in> fst ` set (tm_operations t). op_number ev = Some n then (t, [])
      else case ev of
        TransportIs l \<Rightarrow> (t\<lparr>tm_live := l\<rparr>, [])
      | WriteCalled n text \<Rightarrow> terminal_write n text t
      | InspectCalled n \<Rightarrow> trackOperation n (inspectForegroundOnce n OpInspect) t
      | SignalCalled n sig \<Rightarrow> trackOperation n (inspectForegroundOnce n (OpSignalInspect sig)) t
      | OpAnswered n r \<Rightarrow> (case map_of (tm_operations t) n of None \<Rightarrow> (t, []) | Some ph \<Rightarrow> op_answered n ph r t)
      | ProcEnded r \<Rightarrow> (waitForCommand r t, [])
      | TerminateCalled \<Rightarrow> (terminal_terminate t, [])
      | Closing e \<Rightarrow> (case tm_cleanup t of None \<Rightarrow> (t, []) | Some ph \<Rightarrow> close_step num ph e t))"

end
