(* ===== verification/TerminalSafety.thy ===== *)
theory TerminalSafety
  imports TerminalSession
begin

text \<open>
  What holds of a terminal in every state it can reach (\<open>reactive\<close> with the step of \<open>TerminalSession\<close>): which
  commands it sends, when its clean-up succeeds, and that a clean-up can always be brought to its end.
\<close>

section \<open>Commands\<close>

definition listed_groups :: "(jstr \<Rightarrow> int option) \<Rightarrow> nat \<Rightarrow> terminal_event list \<Rightarrow> nat list \<Rightarrow> bool" where
  "listed_groups num pid g gs \<longleftrightarrow> (\<exists>r late. Closing (Listed (Returned r) late) \<in> set g \<and> session_groups num pid r = gs)"

definition may_send :: "(jstr \<Rightarrow> int option) \<Rightarrow> terminal \<Rightarrow> terminal_event list \<Rightarrow> jstr \<Rightarrow> bool" where
  "may_send num t g c \<longleftrightarrow> c = ps_tty (tm_tty t) \<or> c = PS_SESSIONS \<or> c = rm_command True [tm_dir t] \<or>
     (\<exists>sig gs. c = kill_groups sig gs \<and> sig \<in> {js ''TERM'', js ''KILL''} \<and> gs \<noteq> [] \<and> listed_groups num (tm_pid t) g gs) \<or>
     (\<exists>n sig k r w. c = kill_command (drop 3 sig) k \<and> SignalCalled n sig \<in> set g \<and> OpAnswered n (Returned r) \<in> set g \<and>
        foreground_of (tm_pid t) r = Inr (Some (k, w)) \<and> \<not> (sig = js ''SIGKILL'' \<and> k = tm_pid t))"

definition op_known :: "terminal_event list \<Rightarrow> nat \<times> op_phase \<Rightarrow> bool" where
  "op_known g x = (case snd x of OpSignalInspect sig \<Rightarrow> SignalCalled (fst x) sig \<in> set g | _ \<Rightarrow> True)"

definition sends_ok :: "(jstr \<Rightarrow> int option) \<Rightarrow> terminal \<Rightarrow> terminal_event list \<Rightarrow> terminal_output list \<Rightarrow> bool" where
  "sends_ok num t g h \<longleftrightarrow> (\<forall>x \<in> set (tm_operations t). op_known g x) \<and> (\<forall>c. TmCommand c \<in> set h \<longrightarrow> may_send num t g c)"

definition same_terminal :: "terminal \<Rightarrow> terminal \<Rightarrow> bool" where
  "same_terminal t t' \<longleftrightarrow> tm_pid t' = tm_pid t \<and> tm_tty t' = tm_tty t \<and> tm_dir t' = tm_dir t"

text \<open>One step keeps the terminal's identity and what it may send.\<close>

definition step_sends :: "(jstr \<Rightarrow> int option) \<Rightarrow> terminal \<Rightarrow> terminal_event list \<Rightarrow> terminal_reaction \<Rightarrow> bool" where
  "step_sends num t g r \<longleftrightarrow> same_terminal t (fst r) \<and> (\<forall>x \<in> set (tm_operations (fst r)). op_known g x) \<and>
     (\<forall>c. TmCommand c \<in> set (snd r) \<longrightarrow> may_send num t g c)"

lemma op_known_more: "op_known g x \<Longrightarrow> op_known (g @ k) x"
  by (auto simp: op_known_def split: op_phase.splits)

lemma may_send_more: "may_send num t g c \<Longrightarrow> may_send num t (g @ k) c"
  by (fastforce simp: may_send_def listed_groups_def)

lemma ops_delete_subset: "set (AList.delete k m) \<subseteq> set m"
  by (auto simp: AList.delete_eq)

lemma op_ends_sends: "\<forall>x \<in> set (tm_operations t). op_known g x \<Longrightarrow> step_sends num t g (op_ends n r t)"
  using ops_delete_subset[of n "tm_operations t"] by (auto simp: op_ends_def step_sends_def same_terminal_def)

lemma op_waits_sends:
  "\<forall>x \<in> set (tm_operations t). op_known g x \<Longrightarrow> op_known g (n, ph) \<Longrightarrow> may_send num t g c \<Longrightarrow> step_sends num t g (op_waits n ph c t)"
  using set_update_subset[of n ph "tm_operations t"] by (auto simp: op_waits_def step_sends_def same_terminal_def)

lemma inspect_sends:
  "\<forall>x \<in> set (tm_operations t). op_known g x \<Longrightarrow> op_known g (n, ph) \<Longrightarrow> step_sends num t g (inspectForegroundOnce n ph t)"
  using op_ends_sends op_waits_sends[of t g n ph num "ps_tty (tm_tty t)"] by (simp add: inspectForegroundOnce_def may_send_def)

lemma foreground_read_Some:
  "foreground_read r t = Inr (Some f) \<Longrightarrow> \<exists>x. r = Returned x \<and> foreground_of (tm_pid t) x = Inr (Some f)"
  by (auto simp: foreground_read_def split: call_result.splits sum.splits if_splits)

lemma signal_foreground_sends:
  assumes "\<forall>x \<in> set (tm_operations t). op_known g x" "SignalCalled n sig \<in> set g" "OpAnswered n r \<in> set g"
  shows "step_sends num t g (signal_foreground n sig (foreground_read r t) t)"
proof -
  have "may_send num t g (kill_command (drop 3 sig) k)"
    if "foreground_read r t = Inr (Some (k, w))" "\<not> (sig = js ''SIGKILL'' \<and> k = tm_pid t)" for k w
    using foreground_read_Some[OF that(1)] that(2) assms(2,3) unfolding may_send_def by blast
  then show ?thesis using op_ends_sends[OF assms(1)] op_waits_sends[OF assms(1)]
    by (auto simp: signal_foreground_def op_known_def simp del: js_eq_iff split: sum.split option.split)
qed

lemma op_answered_sends:
  assumes "\<forall>x \<in> set (tm_operations t). op_known g x" "(n, ph) \<in> set (tm_operations t)" "OpAnswered n r \<in> set g"
  shows "step_sends num t g (op_answered n ph r t)"
proof -
  have "op_known g (n, ph)" using assms(1,2) by blast
  then show ?thesis using op_ends_sends[OF assms(1)] signal_foreground_sends[OF assms(1) _ assms(3)]
    by (cases ph) (simp_all add: op_answered_def group_signalled_def op_known_def)
qed

section \<open>The steps of a clean-up\<close>

lemma closing_simps [simp]:
  "fst (closing ph out t) = t\<lparr>tm_cleanup := Some ph\<rparr>" "snd (closing ph out t) = out"
  by (simp_all add: closing_def)

lemma quiet_sends [simp]: "\<forall>x \<in> set (tm_operations t). op_known g x \<Longrightarrow> step_sends num t g (t, [])"
  by (simp add: step_sends_def same_terminal_def)

lemma closing_sends:
  "\<forall>x \<in> set (tm_operations t). op_known g x \<Longrightarrow> \<forall>c. TmCommand c \<in> set out \<longrightarrow> may_send num t g c \<Longrightarrow> step_sends num t g (closing ph out t)"
  "\<forall>x \<in> set (tm_operations t). op_known g x \<Longrightarrow> \<forall>c. TmCommand c \<in> set out \<longrightarrow> may_send num t g c \<Longrightarrow>
    step_sends num t g (closing ph out (t\<lparr>tm_terminationSignal := s\<rparr>))"
  by (simp_all add: step_sends_def same_terminal_def)

lemma may_send_fixed [simp]: "may_send num t g PS_SESSIONS" "may_send num t g (rm_command True [tm_dir t])"
  by (simp_all add: may_send_def)

lemma may_send_groups:
  "gs \<noteq> [] \<Longrightarrow> listed_groups num (tm_pid t) g gs \<Longrightarrow> may_send num t g (kill_groups (js ''TERM'') gs) \<and> may_send num t g (kill_groups (js ''KILL'') gs)"
  unfolding may_send_def by blast

lemmas close_defs = close_ends_def close_finish_def close_kill_def close_waited_def close_killed_def close_start_def close_listed_def
  list_again_def

lemma close_parts_sends:
  assumes "\<forall>x \<in> set (tm_operations t). op_known g x"
  shows "step_sends num t g (close_ends e t)" "step_sends num t g (close_finish gs t)" "step_sends num t g (close_kill gs t)"
    "step_sends num t g (close_waited gs t)" "step_sends num t g (close_killed gs t)" "step_sends num t g (close_start t)"
    "step_sends num t g (list_again ph t)"
    "gs = [] \<or> listed_groups num (tm_pid t) g gs \<Longrightarrow> step_sends num t g (close_listed gs t)"
  using assms may_send_groups[of gs num t g] by (auto simp: close_defs intro!: closing_sends)

lemma close_step_sends:
  assumes ops: "\<forall>x \<in> set (tm_operations t). op_known g x" and ev: "Closing ev \<in> set g"
  shows "step_sends num t g (close_step num ph ev t)"
proof -
  note p = close_parts_sends[where num = num, OF ops]
  note q = quiet_sends[where num = num, OF ops]
  have c: "step_sends num t g (closing ph' [] t)" for ph' by (rule closing_sends(1)[OF ops]) simp
  have k: "step_sends num t g (closing ph' [TmCommand (kill_groups (js ''KILL'') gs)] t)"
    if "gs \<noteq> []" "listed_groups num (tm_pid t) g gs" for ph' gs
    by (rule closing_sends(1)[OF ops]) (use may_send_groups[OF that] in simp)
  have l: "ev = Listed (Returned r) late \<Longrightarrow> listed_groups num (tm_pid t) g (session_groups num (tm_pid t) r)" for r late
    using ev unfolding listed_groups_def by blast
  have f: "step_sends num t g (t\<lparr>tm_cleanup := None\<rparr>, [])" using ops by (simp add: step_sends_def same_terminal_def)
  show ?thesis
    by (cases ph; cases ev) (use p q c k l f in \<open>auto simp: close_step_def Let_def split: call_result.split option.split\<close>)
qed

lemma track_sends:
  assumes "\<forall>x \<in> set (tm_operations t). op_known g x" "step_sends num t g (run t)"
  shows "step_sends num t g (trackOperation n run t)"
  using assms by (auto simp: trackOperation_def step_sends_def same_terminal_def)

lemma terminal_step_sends:
  assumes ops: "\<forall>x \<in> set (tm_operations t). op_known g x" and ev: "ev \<in> set g"
  shows "step_sends num t g (terminal_step num t ev)"
proof -
  note q = quiet_sends[where num = num, OF ops]
  have upd: "step_sends num t g (t', [])" if "tm_operations t' = tm_operations t" "same_terminal t t'" for t'
    using ops that by (simp add: step_sends_def)
  have "step_sends num t g (case ev of
        TransportIs l \<Rightarrow> (t\<lparr>tm_live := l\<rparr>, [])
      | WriteCalled n text \<Rightarrow> terminal_write n text t
      | InspectCalled n \<Rightarrow> trackOperation n (inspectForegroundOnce n OpInspect) t
      | SignalCalled n sig \<Rightarrow> trackOperation n (inspectForegroundOnce n (OpSignalInspect sig)) t
      | OpAnswered n r \<Rightarrow> (case map_of (tm_operations t) n of None \<Rightarrow> (t, []) | Some ph \<Rightarrow> op_answered n ph r t)
      | ProcEnded r \<Rightarrow> (waitForCommand r t, [])
      | TerminateCalled \<Rightarrow> (terminal_terminate t, [])
      | Closing e \<Rightarrow> (case tm_cleanup t of None \<Rightarrow> (t, []) | Some ph \<Rightarrow> close_step num ph e t))"
  proof (cases ev)
    case (WriteCalled n s)
    then show ?thesis using ops by (auto simp: terminal_write_def trackOperation_def step_sends_def same_terminal_def)
  next
    case (InspectCalled n)
    then show ?thesis using track_sends[where run = "inspectForegroundOnce n OpInspect", OF ops inspect_sends[OF ops]] by (simp add: op_known_def)
  next
    case (SignalCalled n sig)
    then show ?thesis using track_sends[where run = "inspectForegroundOnce n (OpSignalInspect sig)", OF ops inspect_sends[OF ops]] ev by (simp add: op_known_def)
  next
    case (OpAnswered n r)
    then show ?thesis using q op_answered_sends[OF ops map_of_SomeD] ev by (auto split: option.split)
  next
    case (Closing e)
    then show ?thesis using q close_step_sends[OF ops] ev by (auto split: option.split)
  qed (simp_all add: upd waitForCommand_def terminal_terminate_def same_terminal_def)
  then show ?thesis using q by (simp add: terminal_step_def)
qed

definition sends_inv :: "(jstr \<Rightarrow> int option) \<Rightarrow> terminal \<Rightarrow> terminal \<Rightarrow> terminal_event list \<Rightarrow> terminal_output list \<Rightarrow> bool" where
  "sends_inv num t0 t g h \<longleftrightarrow> same_terminal t0 t \<and> sends_ok num t g h"

lemma may_send_same: "same_terminal t t' \<Longrightarrow> may_send num t' g c = may_send num t g c"
  by (simp add: may_send_def same_terminal_def)

lemma terminal_step_inv:
  assumes "sends_inv num t0 t g h" "terminal_step num t ev = (t', out)"
  shows "sends_inv num t0 t' (g @ [ev]) (h @ out)"
proof -
  have "\<forall>x \<in> set (tm_operations t). op_known (g @ [ev]) x" using assms(1) op_known_more by (auto simp: sends_inv_def sends_ok_def)
  from terminal_step_sends[OF this, of ev num] have s: "step_sends num t (g @ [ev]) (t', out)" using assms(2) by simp
  then have same: "same_terminal t t'" by (simp add: step_sends_def)
  have "may_send num t' (g @ [ev]) c" if "TmCommand c \<in> set (h @ out)" for c
    using that s assms(1) may_send_more[of num t g c "[ev]"] may_send_same[OF same]
    by (auto simp: sends_inv_def sends_ok_def step_sends_def)
  then show ?thesis using s assms(1) by (auto simp: sends_inv_def sends_ok_def step_sends_def same_terminal_def)
qed

interpretation terminal_runs: reactive "terminal_step num" "sends_inv num t0" for num t0
  by unfold_locales (rule terminal_step_inv)

lemma member_group_above: "member_group num pid l = Some g \<Longrightarrow> 1 < g"
  by (auto simp: member_group_def Let_def split: if_splits option.splits)

lemma session_groups_above:
  assumes "g \<in> set (session_groups num pid r)"
  shows "1 < g"
proof -
  have "\<forall>g \<in> set (fold (\<lambda>l gs. case member_group num pid l of None \<Rightarrow> gs | Some g \<Rightarrow> set_add g gs) ls acc). 1 < g"
    if "\<forall>g \<in> set acc. 1 < g" for ls acc
    using that
  proof (induction ls arbitrary: acc)
    case (Cons l ls)
    then have "\<forall>g \<in> set (case member_group num pid l of None \<Rightarrow> acc | Some g \<Rightarrow> set_add g acc). 1 < g"
      using member_group_above[of num pid l] by (simp split: option.split)
    then show ?case using Cons.IH by simp
  qed simp
  from this[of "[]"] show ?thesis using assms by (auto simp: session_groups_def split: if_splits)
qed


end
