(* ===== verification/TerminalClose.thy ===== *)
theory TerminalClose
  imports TerminalSafety
begin

text \<open>
  The clean-up of a terminal (\<open>TerminalSession\<close>): what a success means, and that answers of a host on which
  the session is gone bring every clean-up, a failed one included, to success.
\<close>

section \<open>What a success means\<close>

definition none_seen :: "(jstr \<Rightarrow> int option) \<Rightarrow> nat \<Rightarrow> terminal_event list \<Rightarrow> bool" where
  "none_seen num pid g \<longleftrightarrow> (\<exists>r late. Closing (Listed r late) \<in> set g \<and>
     (r = ConnectionLost \<or> (\<exists>x. r = Returned x \<and> session_groups num pid x = [])))"

definition host_gone :: "terminal_event list \<Rightarrow> bool" where
  "host_gone g \<longleftrightarrow> TransportIs False \<in> set g \<or> Closing (ChannelKillDone ConnectionLost) \<in> set g"

definition all_over :: "(jstr \<Rightarrow> int option) \<Rightarrow> terminal \<Rightarrow> terminal_event list \<Rightarrow> terminal_output list \<Rightarrow> bool" where
  "all_over num t g h \<longleftrightarrow> tm_topLevelExited t \<and> none_seen num (tm_pid t) g \<and> TmCommand (rm_command True [tm_dir t]) \<in> set h"

definition phase_clean :: "(jstr \<Rightarrow> int option) \<Rightarrow> terminal \<Rightarrow> terminal_event list \<Rightarrow> terminal_output list \<Rightarrow> close_phase \<Rightarrow> bool" where
  "phase_clean num t g h ph = (case ph of
       CloseGone \<Rightarrow> TransportIs False \<in> set g \<and> TmKillChannel \<in> set h
     | CloseRace \<Rightarrow> none_seen num (tm_pid t) g
     | CloseKillChannel \<Rightarrow> TmKillChannel \<in> set h
     | CloseRaceKill gs \<Rightarrow> gs = [] \<longrightarrow> none_seen num (tm_pid t) g
     | CloseRemove \<Rightarrow> all_over num t g h
     | CloseDone \<Rightarrow> all_over num t g h \<or> TmKillChannel \<in> set h \<and> host_gone g
     | _ \<Rightarrow> True)"

definition clean_inv :: "(jstr \<Rightarrow> int option) \<Rightarrow> terminal \<Rightarrow> terminal_event list \<Rightarrow> terminal_output list \<Rightarrow> bool" where
  "clean_inv num t g h \<longleftrightarrow>
     (\<not> tm_live t \<longrightarrow> TransportIs False \<in> set g) \<and> (tm_terminationSignal t \<noteq> None \<longrightarrow> TerminateCalled \<in> set g) \<and>
     (tm_topLevelExited t \<longleftrightarrow> tm_outcome t \<noteq> None) \<and> (tm_cleanup t \<noteq> None \<longrightarrow> TerminateCalled \<in> set g) \<and>
     (TerminateEnds None \<in> set h \<longrightarrow> tm_cleanup t = Some CloseDone) \<and>
     (\<forall>ph. tm_cleanup t = Some ph \<longrightarrow> phase_clean num t g h ph) \<and>
     (\<forall>r. tm_outcome t = Some (Inr r) \<longrightarrow> (\<exists>code sig. ProcEnded (Returned (code, sig)) \<in> set g \<and> so_exitCode r = code \<and>
        (so_signal r \<noteq> None \<longrightarrow> sig \<notin> {None, Some []} \<or> TerminateCalled \<in> set g)))"

lemma none_seen_more: "none_seen num pid g \<Longrightarrow> none_seen num pid (g @ k)"
  unfolding none_seen_def by (metis Un_iff set_append)

lemma phase_clean_more: "phase_clean num t g h ph \<Longrightarrow> phase_clean num t (g @ k) (h @ k') ph"
  using none_seen_more[of num "tm_pid t" g k] by (auto simp: phase_clean_def all_over_def host_gone_def split: close_phase.splits)

lemma clean_inv_more: "clean_inv num t g h \<Longrightarrow> TerminateEnds None \<notin> set k' \<Longrightarrow> clean_inv num t (g @ k) (h @ k')"
  unfolding clean_inv_def using phase_clean_more[of num t g h _ k k'] by (simp; blast)

text \<open>A step that leaves the clean-up alone.\<close>

lemma clean_inv_same:
  assumes "clean_inv num t g h" "TerminateEnds None \<notin> set k'" "t' = t\<lparr>tm_operations := ops\<rparr>"
  shows "clean_inv num t' g (h @ k')"
proof -
  have "phase_clean num (t\<lparr>tm_operations := ops\<rparr>) g k p = phase_clean num t g k p" for g k p
    by (simp add: phase_clean_def all_over_def cong: close_phase.case_cong)
  then show ?thesis using clean_inv_more[OF assms(1,2), of "[]"] assms(3) by (simp add: clean_inv_def)
qed

text \<open>A step of the clean-up, which has not succeeded yet.\<close>

definition pre_clean :: "(jstr \<Rightarrow> int option) \<Rightarrow> terminal \<Rightarrow> terminal_event list \<Rightarrow> terminal_output list \<Rightarrow> bool" where
  "pre_clean num t g h \<longleftrightarrow> (\<exists>t0. clean_inv num t0 g h \<and> tm_cleanup t0 \<noteq> None \<and> tm_cleanup t0 \<noteq> Some CloseDone \<and>
     (\<exists>s. t = t0\<lparr>tm_terminationSignal := s\<rparr>))"

lemma closing_clean:
  assumes "pre_clean num t g h" "phase_clean num t g (h @ out) ph" "TerminateEnds None \<in> set out \<longrightarrow> ph = CloseDone"
  shows "clean_inv num (fst (closing ph out t)) g (h @ snd (closing ph out t))"
proof -
  have "phase_clean num (t\<lparr>tm_cleanup := c\<rparr>) g k p = phase_clean num t g k p" for c k p
    by (simp add: phase_clean_def all_over_def cong: close_phase.case_cong)
  then show ?thesis using assms by (auto simp: pre_clean_def clean_inv_def)
qed

lemma pre_clean_signal: "pre_clean num t g h \<Longrightarrow> pre_clean num (t\<lparr>tm_terminationSignal := s\<rparr>) g h"
  unfolding pre_clean_def
proof (elim exE conjE)
  fix t0 s' assume t0: "clean_inv num t0 g h" "tm_cleanup t0 \<noteq> None" "tm_cleanup t0 \<noteq> Some CloseDone" "t = t0\<lparr>tm_terminationSignal := s'\<rparr>"
  then have "t\<lparr>tm_terminationSignal := s\<rparr> = t0\<lparr>tm_terminationSignal := s\<rparr>" by simp
  then show "\<exists>t0. clean_inv num t0 g h \<and> tm_cleanup t0 \<noteq> None \<and> tm_cleanup t0 \<noteq> Some CloseDone \<and>
      (\<exists>r. t\<lparr>tm_terminationSignal := s\<rparr> = t0\<lparr>tm_terminationSignal := r\<rparr>)" using t0(1-3) by blast
qed

lemma close_parts_clean:
  assumes "pre_clean num t g h"
  shows "e \<noteq> None \<or> phase_clean num t g h CloseDone \<Longrightarrow> clean_inv num (fst (close_ends e t)) g (h @ snd (close_ends e t))"
    "gs \<noteq> [] \<or> none_seen num (tm_pid t) g \<Longrightarrow> clean_inv num (fst (close_finish gs t)) g (h @ snd (close_finish gs t))"
    "gs \<noteq> [] \<or> none_seen num (tm_pid t) g \<Longrightarrow> clean_inv num (fst (close_kill gs t)) g (h @ snd (close_kill gs t))"
    "gs \<noteq> [] \<or> none_seen num (tm_pid t) g \<Longrightarrow> clean_inv num (fst (close_waited gs t)) g (h @ snd (close_waited gs t))"
    "gs \<noteq> [] \<or> none_seen num (tm_pid t) g \<Longrightarrow> clean_inv num (fst (close_killed gs t)) g (h @ snd (close_killed gs t))"
    "gs \<noteq> [] \<or> none_seen num (tm_pid t) g \<Longrightarrow> clean_inv num (fst (close_listed gs t)) g (h @ snd (close_listed gs t))"
    "clean_inv num (fst (close_start t)) g (h @ snd (close_start t))"
    "ph \<in> {CloseAwait, CloseAwaitKill, CloseLast} \<Longrightarrow> clean_inv num (fst (list_again ph t)) g (h @ snd (list_again ph t))"
proof -
  note c = closing_clean[OF assms] and s = closing_clean[OF pre_clean_signal[OF assms]]
  have live: "\<not> tm_live t \<Longrightarrow> TransportIs False \<in> set g" using assms by (auto simp: pre_clean_def clean_inv_def)
  show ends: "clean_inv num (fst (close_ends e t)) g (h @ snd (close_ends e t))" if "e \<noteq> None \<or> phase_clean num t g h CloseDone" for e
  proof (cases e)
    case None
    then have "phase_clean num t g (h @ [TerminateEnds None]) CloseDone" using that phase_clean_more[of num t g h CloseDone "[]"] by simp
    then show ?thesis using None by (simp add: close_ends_def c del: closing_simps)
  next
    case (Some f)
    then show ?thesis by (simp add: close_ends_def c phase_clean_def del: closing_simps)
  qed
  show finish: "clean_inv num (fst (close_finish gs t)) g (h @ snd (close_finish gs t))" if "gs \<noteq> [] \<or> none_seen num (tm_pid t) g" for gs
    using that ends by (auto simp: close_finish_def phase_clean_def all_over_def simp del: closing_simps intro!: c)
  show kill: "clean_inv num (fst (close_kill gs t)) g (h @ snd (close_kill gs t))" if "gs \<noteq> [] \<or> none_seen num (tm_pid t) g" for gs
    using finish[OF that] by (auto simp: close_kill_def phase_clean_def simp del: closing_simps intro!: s)
  show waited: "clean_inv num (fst (close_waited gs t)) g (h @ snd (close_waited gs t))" if "gs \<noteq> [] \<or> none_seen num (tm_pid t) g" for gs
    using kill[OF that] that by (auto simp: close_waited_def phase_clean_def simp del: closing_simps intro!: c)
  show "clean_inv num (fst (close_killed gs t)) g (h @ snd (close_killed gs t))" if "gs \<noteq> [] \<or> none_seen num (tm_pid t) g" for gs
    using finish[OF that] that by (auto simp: close_killed_def phase_clean_def simp del: closing_simps intro!: c)
  show "clean_inv num (fst (close_listed gs t)) g (h @ snd (close_listed gs t))" if "gs \<noteq> [] \<or> none_seen num (tm_pid t) g" for gs
    using waited[OF that] by (auto simp: close_listed_def phase_clean_def simp del: closing_simps intro!: s)
  show "clean_inv num (fst (close_start t)) g (h @ snd (close_start t))"
    using live by (auto simp: close_start_def phase_clean_def simp del: closing_simps intro!: c)
  show "clean_inv num (fst (list_again ph t)) g (h @ snd (list_again ph t))" if "ph \<in> {CloseAwait, CloseAwaitKill, CloseLast}"
    using that by (auto simp: list_again_def phase_clean_def simp del: closing_simps intro!: c)
qed

lemma close_step_clean:
  assumes i: "clean_inv num t g h" and ph: "tm_cleanup t = Some ph" and ev: "Closing ev \<in> set g"
  shows "clean_inv num (fst (close_step num ph ev t)) g (h @ snd (close_step num ph ev t))"
proof (cases "ph = CloseDone")
  case True
  then show ?thesis using i by (simp add: close_step_def)
next
  case False
  then have pre: "pre_clean num t g h" using i ph unfolding pre_clean_def
    by (intro exI[of _ t] conjI exI[of _ "tm_terminationSignal t"]) simp_all
  note p = close_parts_clean[OF pre]
  have q: "clean_inv num (fst (t, [])) g (h @ snd (t, [] :: terminal_output list))" using i by simp
  have facts: "phase_clean num t g h ph" using i ph by (simp add: clean_inv_def)
  have c: "clean_inv num (fst (closing ph' out t)) g (h @ snd (closing ph' out t))"
    if "ph' \<in> {CloseTick, CloseTickKill, CloseKillGroups}" "TerminateEnds None \<notin> set out" for ph' out
    using closing_clean[OF pre, of out ph'] that by (auto simp: phase_clean_def simp del: closing_simps)
  have c0: "clean_inv num (t\<lparr>tm_cleanup := Some ph'\<rparr>) g h" if "ph' \<in> {CloseTick, CloseTickKill}" for ph'
    using c[of ph' "[]"] that by auto
  have l: "ev = Listed r late \<Longrightarrow> r = ConnectionLost \<or> (\<exists>x. r = Returned x \<and> session_groups num (tm_pid t) x = []) \<Longrightarrow>
      none_seen num (tm_pid t) g" for r late using ev unfolding none_seen_def by blast
  have seen: "ev = Listed (Returned r) late \<Longrightarrow> session_groups num (tm_pid t) r \<noteq> [] \<or> none_seen num (tm_pid t) g" for r late
    using l by blast
  have f: "clean_inv num (t\<lparr>tm_cleanup := None\<rparr>) g h" if "ph = CloseFailed e" for e
    using i ph that by (auto simp: clean_inv_def)
  show ?thesis
  proof (cases ph)
    case CloseOps then show ?thesis using p q by (cases ev) (simp_all add: close_step_def)
  next
    case CloseGone
    then have "phase_clean num t g h CloseDone" using facts by (simp add: phase_clean_def host_gone_def)
    then show ?thesis using CloseGone p q by (cases ev) (simp_all add: close_step_def)
  next
    case CloseList
    then show ?thesis using p q l seen by (cases ev) (auto simp: close_step_def split: call_result.split)
  next
    case CloseTerm then show ?thesis using p q by (cases ev) (auto simp: close_step_def split: option.split)
  next
    case CloseAwait
    then show ?thesis using p q c c0 seen by (cases ev) (auto simp: close_step_def Let_def split: call_result.split)
  next
    case CloseTick then show ?thesis using p q by (cases ev) (simp_all add: close_step_def)
  next
    case CloseRace
    then show ?thesis using p q facts by (cases ev) (simp_all add: close_step_def phase_clean_def)
  next
    case CloseKillChannel
    then have "ev = ChannelKillDone ConnectionLost \<Longrightarrow> phase_clean num t g h CloseDone"
      using facts ev by (simp add: phase_clean_def host_gone_def)
    then show ?thesis using CloseKillChannel p q by (cases ev) (auto simp: close_step_def split: call_result.split)
  next
    case CloseAwaitKill
    then show ?thesis using p q c c0 seen by (cases ev) (auto simp: close_step_def Let_def split: call_result.split)
  next
    case CloseKillGroups then show ?thesis using p q c c0 by (cases ev) (auto simp: close_step_def split: option.split)
  next
    case CloseTickKill then show ?thesis using p q by (cases ev) (simp_all add: close_step_def)
  next
    case CloseLast then show ?thesis using p q seen by (cases ev) (auto simp: close_step_def split: call_result.split)
  next
    case (CloseRaceKill gs)
    then have "gs \<noteq> [] \<or> none_seen num (tm_pid t) g" using facts by (auto simp: phase_clean_def)
    then show ?thesis using CloseRaceKill p q by (cases ev) (simp_all add: close_step_def)
  next
    case CloseRemove
    then have "phase_clean num t g h CloseDone" using facts by (simp add: phase_clean_def)
    then show ?thesis using CloseRemove p q by (cases ev) (simp_all add: close_step_def)
  next
    case CloseDone then show ?thesis using False by simp
  next
    case (CloseFailed e) then show ?thesis using q f by (cases ev) (simp_all add: close_step_def)
  qed
qed

lemma op_ends_none: "TerminateEnds None \<notin> set (snd (op_answered n ph r t))" "\<exists>ops. fst (op_answered n ph r t) = t\<lparr>tm_operations := ops\<rparr>"
  by (auto simp: op_answered_def op_ends_def op_waits_def signal_foreground_def group_signalled_def split: op_phase.split sum.split option.split)

lemma calls_none:
  "TerminateEnds None \<notin> set (snd (trackOperation n (inspectForegroundOnce n ph) t))"
  "\<exists>ops. fst (trackOperation n (inspectForegroundOnce n ph) t) = t\<lparr>tm_operations := ops\<rparr>"
  "TerminateEnds None \<notin> set (snd (terminal_write n s t))" "\<exists>ops. fst (terminal_write n s t) = t\<lparr>tm_operations := ops\<rparr>"
  by (auto simp: trackOperation_def inspectForegroundOnce_def op_ends_def op_waits_def terminal_write_def intro: exI[of _ "tm_operations t"])

lemma exit_outcome_from:
  assumes "exit_outcome (code, sig) t = Inr r"
  shows "so_exitCode r = code \<and> (so_signal r \<noteq> None \<longrightarrow> sig \<notin> {None, Some []} \<or> tm_terminationSignal t \<noteq> None)"
  using assms by (cases sig; cases code) (auto simp: exit_outcome_def split: list.splits option.splits)

lemma waitForCommand_clean:
  assumes "clean_inv num t g h" "ProcEnded r \<in> set g"
  shows "clean_inv num (waitForCommand r t) g h"
proof (cases "tm_outcome t")
  case None
  have "phase_clean num t' g h ph" if "phase_clean num t g h ph" "t' = waitForCommand r t" for ph t'
    using that by (auto simp: phase_clean_def all_over_def waitForCommand_def split: close_phase.splits)
  moreover have "\<exists>code sig. ProcEnded (Returned (code, sig)) \<in> set g \<and> so_exitCode o' = code \<and>
      (so_signal o' \<noteq> None \<longrightarrow> sig \<notin> {None, Some []} \<or> TerminateCalled \<in> set g)" if w: "tm_outcome (waitForCommand r t) = Some (Inr o')" for o'
  proof -
    obtain x where x: "r = Returned x" "exit_outcome x t = Inr o'"
      using w None by (cases r) (auto simp: waitForCommand_def)
    have "tm_terminationSignal t \<noteq> None \<longrightarrow> TerminateCalled \<in> set g" using assms(1) by (simp add: clean_inv_def)
    then show ?thesis using exit_outcome_from[of "fst x" "snd x" t o'] x assms(2) by (intro exI[of _ "fst x"] exI[of _ "snd x"]) auto
  qed
  ultimately show ?thesis using assms(1) None unfolding clean_inv_def by (simp add: waitForCommand_def)
qed (use assms in \<open>simp add: waitForCommand_def\<close>)

lemma terminal_step_clean:
  assumes i: "clean_inv num t g h" and st: "terminal_step num t ev = (t', out)"
  shows "clean_inv num t' (g @ [ev]) (h @ out)"
proof -
  have m: "clean_inv num t (g @ [ev]) h" using clean_inv_more[OF i, of "[]" "[ev]"] by simp
  have ops: "clean_inv num (fst r) (g @ [ev]) (h @ snd r)"
    if "TerminateEnds None \<notin> set (snd r)" "\<exists>o'. fst r = t\<lparr>tm_operations := o'\<rparr>" for r
    using that clean_inv_same[OF m that(1)] by blast
  have upd: "clean_inv num t'' (g @ [ev]) (h @ [])" if "\<And>k. phase_clean num t'' (g @ [ev]) h k = phase_clean num t (g @ [ev]) h k"
    "\<not> tm_live t'' \<longrightarrow> TransportIs False \<in> set (g @ [ev])" "t'' = t\<lparr>tm_live := l\<rparr>" for t'' l
    using that m by (simp add: clean_inv_def)
  have "clean_inv num (fst (terminal_step num t ev)) (g @ [ev]) (h @ snd (terminal_step num t ev))"
  proof (cases "\<exists>n \<in> fst ` set (tm_operations t). op_number ev = Some n")
    case True
    then show ?thesis using m by (simp add: terminal_step_def)
  next
    case False
    then show ?thesis
    proof (cases ev)
      case (TransportIs l)
      have "clean_inv num (t\<lparr>tm_live := l\<rparr>) (g @ [ev]) (h @ [])"
        by (rule upd) (use m TransportIs in \<open>auto simp: phase_clean_def all_over_def clean_inv_def cong: close_phase.case_cong\<close>)
      then show ?thesis using False TransportIs by (simp add: terminal_step_def)
    next
      case (WriteCalled n s)
      then show ?thesis using False ops[of "terminal_write n s t"] calls_none(3,4) by (simp add: terminal_step_def)
    next
      case (InspectCalled n)
      then show ?thesis using False ops[OF calls_none(1,2)] by (simp add: terminal_step_def)
    next
      case (SignalCalled n sig)
      then show ?thesis using False ops[OF calls_none(1,2)] by (simp add: terminal_step_def)
    next
      case (OpAnswered n r)
      then show ?thesis using m ops[OF op_ends_none] by (simp add: terminal_step_def op_number_def split: option.split)
    next
      case (ProcEnded r)
      then show ?thesis using waitForCommand_clean[OF m, of r] by (simp add: terminal_step_def op_number_def)
    next
      case TerminateCalled
      then show ?thesis using m by (auto simp: terminal_step_def op_number_def terminal_terminate_def clean_inv_def phase_clean_def)
    next
      case (Closing e)
      then show ?thesis using m close_step_clean[OF m, of _ e] by (auto simp: terminal_step_def op_number_def split: option.split)
    qed
  qed
  then show ?thesis using st by simp
qed

interpretation terminal_closes: reactive "terminal_step num" "clean_inv num" for num
  by unfold_locales (rule terminal_step_clean)

section \<open>No call stays in flight\<close>

definition quiet_inv :: "terminal \<Rightarrow> terminal_event list \<Rightarrow> terminal_output list \<Rightarrow> bool" where
  "quiet_inv t g h \<longleftrightarrow> (tm_cleanup t \<noteq> None \<longrightarrow> tm_aborted t) \<and>
     (tm_aborted t \<and> tm_cleanup t \<noteq> Some CloseOps \<longrightarrow> tm_operations t = []) \<and>
     (\<forall>e. TerminateEnds e \<in> set h \<longrightarrow> tm_aborted t \<and> tm_operations t = [])"

lemma close_step_keeps:
  "tm_operations (fst (close_step num ph ev t)) = tm_operations t" "tm_aborted (fst (close_step num ph ev t)) = tm_aborted t"
  by (cases ph; cases ev; auto simp: close_step_def close_defs Let_def split: call_result.split option.split)+

lemma close_step_waits:
  "tm_operations t \<noteq> [] \<Longrightarrow> close_step num CloseOps ev t = (t, [])"
  "ph \<noteq> CloseOps \<Longrightarrow> tm_cleanup t = Some ph \<Longrightarrow> tm_cleanup (fst (close_step num ph ev t)) \<noteq> Some CloseOps"
  by (cases ev; simp add: close_step_def)
     (cases ph; cases ev; auto simp: close_step_def close_defs Let_def split: call_result.split option.split)

lemma aborted_calls:
  "tm_aborted t \<Longrightarrow> fst (trackOperation n run t) = t"
  "TerminateEnds e \<notin> set (snd (trackOperation n (inspectForegroundOnce n ph) t))" "TerminateEnds e \<notin> set (snd (terminal_write n s t))"
  "TerminateEnds e \<notin> set (snd (op_answered n ph r t))"
  by (auto simp: trackOperation_def inspectForegroundOnce_def op_ends_def op_waits_def terminal_write_def op_answered_def
    signal_foreground_def group_signalled_def split: op_phase.split sum.split option.split)

lemma calls_keep:
  "tm_cleanup (fst (trackOperation n (inspectForegroundOnce n ph) t)) = tm_cleanup t"
  "tm_aborted (fst (trackOperation n (inspectForegroundOnce n ph) t)) = tm_aborted t"
  "tm_cleanup (fst (terminal_write n s t)) = tm_cleanup t" "tm_aborted (fst (terminal_write n s t)) = tm_aborted t"
  "tm_operations (fst (terminal_write n s t)) = tm_operations t"
  "tm_cleanup (fst (op_answered n op r t)) = tm_cleanup t" "tm_aborted (fst (op_answered n op r t)) = tm_aborted t"
  by (auto simp: trackOperation_def inspectForegroundOnce_def op_ends_def op_waits_def terminal_write_def op_answered_def
    signal_foreground_def group_signalled_def split: op_phase.split sum.split option.split)

lemma terminal_step_quiet:
  assumes i: "quiet_inv t g h" and st: "terminal_step num t ev = (t', out)"
  shows "quiet_inv t' (g @ [ev]) (h @ out)"
proof (cases "\<exists>n \<in> fst ` set (tm_operations t). op_number ev = Some n")
  case True
  then show ?thesis using i st by (simp add: terminal_step_def quiet_inv_def)
next
  case False
  note calls = aborted_calls calls_keep
  have easy: ?thesis if "tm_cleanup t' = tm_cleanup t" "tm_aborted t' = tm_aborted t"
    "tm_aborted t \<Longrightarrow> tm_operations t = [] \<Longrightarrow> tm_operations t' = []" "\<And>e. TerminateEnds e \<notin> set out"
    using i that by (auto simp: quiet_inv_def)
  show ?thesis
  proof (cases ev)
    case (TransportIs l)
    then show ?thesis using i st by (auto simp: terminal_step_def op_number_def quiet_inv_def)
  next
    case (WriteCalled n s)
    then have "terminal_write n s t = (t', out)" using st False by (simp add: terminal_step_def)
    then show ?thesis using easy calls(3)[of _ n s t] calls(7,8,9)[of n s t] by simp
  next
    case (InspectCalled n)
    let ?r = "trackOperation n (inspectForegroundOnce n OpInspect) t"
    have "?r = (t', out)" using InspectCalled st False by (simp add: terminal_step_def)
    then show ?thesis using easy calls(1)[of t n "inspectForegroundOnce n OpInspect"] calls(2)[of _ n OpInspect t] calls(5,6)[of n OpInspect t] by simp
  next
    case (SignalCalled n sig)
    let ?o = "OpSignalInspect sig"
    have "trackOperation n (inspectForegroundOnce n ?o) t = (t', out)" using SignalCalled st False by (simp add: terminal_step_def)
    then show ?thesis using easy calls(1)[of t n "inspectForegroundOnce n ?o"] calls(2)[of _ n ?o t] calls(5,6)[of n ?o t] by simp
  next
    case (OpAnswered n r)
    show ?thesis
    proof (cases "map_of (tm_operations t) n")
      case None
      then have "t' = t" "out = []" using st OpAnswered by (simp_all add: terminal_step_def op_number_def)
      then show ?thesis using easy by simp
    next
      case (Some op)
      then have "op_answered n op r t = (t', out)" "tm_operations t \<noteq> []"
        using OpAnswered st by (auto simp: terminal_step_def op_number_def)
      then show ?thesis using easy calls(4)[of _ n op r t] calls(10,11)[of n op r t] by simp
    qed
  next
    case (ProcEnded r)
    then have "t' = waitForCommand r t" "out = []" using st by (simp_all add: terminal_step_def op_number_def)
    then show ?thesis using easy by (cases "tm_outcome t") (simp_all add: waitForCommand_def)
  next
    case TerminateCalled
    then show ?thesis using i st by (auto simp: terminal_step_def op_number_def quiet_inv_def terminal_terminate_def)
  next
    case (Closing e)
    show ?thesis
    proof (cases "tm_cleanup t")
      case None
      then show ?thesis using i st Closing by (simp add: terminal_step_def op_number_def quiet_inv_def)
    next
      case (Some ph)
      then have s: "close_step num ph e t = (t', out)" using st Closing by (simp add: terminal_step_def op_number_def)
      have k: "tm_operations t' = tm_operations t" "tm_aborted t' = tm_aborted t" using close_step_keeps[of num ph e t] s by simp_all
      show ?thesis
      proof (cases "ph = CloseOps \<and> tm_operations t \<noteq> []")
        case True
        then show ?thesis using close_step_waits(1)[of t num e] s i by (simp add: quiet_inv_def)
      next
        case False
        then have "tm_operations t = [] \<and> tm_aborted t" using i Some by (auto simp: quiet_inv_def)
        then show ?thesis using k by (simp add: quiet_inv_def)
      qed
    qed
  qed
qed

interpretation terminal_quiets: reactive "terminal_step num" quiet_inv for num
  by unfold_locales (rule terminal_step_quiet)


section \<open>A clean-up can always be brought to success\<close>

text \<open>What a host answers on which the command has exited and the session is empty.\<close>

definition empty_table :: "answer call_result" where
  "empty_table = Returned (Some 0, [])"

definition calm_answer :: "terminal \<Rightarrow> terminal_event" where
  "calm_answer t =
     (case tm_cleanup t of
        None \<Rightarrow> TerminateCalled
      | Some ph \<Rightarrow>
          (case ph of
             CloseOps \<Rightarrow> (case tm_operations t of [] \<Rightarrow> Closing OpsSettled | (n, _) # _ \<Rightarrow> OpAnswered n ConnectionLost)
           | CloseTick \<Rightarrow> Closing PollTick
           | CloseTickKill \<Rightarrow> Closing PollTick
           | CloseTerm \<Rightarrow> Closing (GroupsSignalled (Returned ()) False)
           | CloseKillGroups \<Rightarrow> Closing (GroupsSignalled (Returned ()) False)
           | CloseRace \<Rightarrow> Closing RaceOver
           | CloseRaceKill _ \<Rightarrow> Closing RaceOver
           | CloseGone \<Rightarrow> Closing (ChannelKillDone (Returned ()))
           | CloseKillChannel \<Rightarrow> Closing (ChannelKillDone (Returned ()))
           | CloseRemove \<Rightarrow> Closing StateRemovedHere
           | CloseFailed _ \<Rightarrow> Closing CleanupForgotten
           | _ \<Rightarrow> Closing (Listed empty_table False)))"

fun calm_run :: "(jstr \<Rightarrow> int option) \<Rightarrow> nat \<Rightarrow> terminal \<Rightarrow> terminal" where
  "calm_run num 0 t = t"
| "calm_run num (Suc k) t = calm_run num k (fst (terminal_step num t (calm_answer t)))"

definition close_rank :: "terminal \<Rightarrow> nat" where
  "close_rank t = (case tm_cleanup t of
       None \<Rightarrow> 4 + length (tm_operations t)
     | Some ph \<Rightarrow> (case ph of CloseDone \<Rightarrow> 0 | CloseRemove \<Rightarrow> 1 | CloseGone \<Rightarrow> 1 | CloseOps \<Rightarrow> 3 + length (tm_operations t)
         | CloseFailed _ \<Rightarrow> 5 + length (tm_operations t) | CloseRaceKill gs \<Rightarrow> if gs = [] then 2 else 6 + length (tm_operations t)
         | CloseKillChannel \<Rightarrow> 3 | CloseTerm \<Rightarrow> 3 | CloseTick \<Rightarrow> 3 | CloseTickKill \<Rightarrow> 3 | CloseKillGroups \<Rightarrow> 4 | _ \<Rightarrow> 2))"

lemma empty_session [simp]: "session_groups num pid (Some 0, []) = []"
  by (simp add: session_groups_def split_lit.simps member_group_def js_trim_def)

lemma close_rank_bound: "close_rank t \<le> length (tm_operations t) + 6"
  by (auto simp: close_rank_def split: option.split close_phase.split)

lemma delete_head_shorter: "length (AList.delete n ((n, x) # m)) < length ((n, x) # m)"
  by (simp add: AList.delete_eq le_imp_less_Suc)

lemma lost_operation_ends:
  assumes "tm_operations t = (n, ph) # ops" "tm_topLevelExited t"
  shows "\<exists>out. terminal_step num t (OpAnswered n ConnectionLost) = (t\<lparr>tm_operations := AList.delete n (tm_operations t)\<rparr>, out)"
  using assms by (cases ph) (simp_all add: terminal_step_def op_number_def op_answered_def op_ends_def foreground_read_def
      signal_foreground_def group_signalled_def)

lemma calm_step:
  assumes ex: "tm_topLevelExited t" and nd: "tm_cleanup t \<noteq> Some CloseDone"
  shows "tm_topLevelExited (fst (terminal_step num t (calm_answer t))) \<and>
    close_rank (fst (terminal_step num t (calm_answer t))) < close_rank t"
proof (cases "tm_cleanup t")
  case None
  then show ?thesis using ex by (simp add: calm_answer_def terminal_step_def op_number_def terminal_terminate_def close_rank_def)
next
  case (Some ph)
  note d = calm_answer_def terminal_step_def op_number_def close_step_def close_defs closing_def close_rank_def empty_table_def
    signalRemoteGroups_def
  show ?thesis
  proof (cases ph)
    case CloseOps
    show ?thesis
    proof (cases "tm_operations t")
      case Nil
      then show ?thesis using ex Some CloseOps by (simp add: d)
    next
      case (Cons x ops)
      obtain n o' where x: "x = (n, o')" by (cases x)
      have c: "calm_answer t = OpAnswered n ConnectionLost" using Some CloseOps Cons x by (simp add: calm_answer_def)
      show ?thesis using lost_operation_ends[of t n o' ops num] delete_head_shorter[of n o' ops] ex Some CloseOps Cons x
        by (auto simp: c close_rank_def)
    qed
  qed (use ex nd Some in \<open>simp_all add: d\<close>)
qed

text \<open>
  C32: A clean-up can always be brought to success. However a clean-up stands, failed attempts included,
  once the command has exited and the host answers that the session is empty, a bounded number of
  answers brings \<open>terminate\<close>, called again where an attempt failed, to success.
\<close>

theorem terminal_cleanup_converges:
  assumes "tm_topLevelExited t" and "length (tm_operations t) + 6 \<le> k"
  shows "tm_cleanup (calm_run num k t) = Some CloseDone"
proof -
  have done_stays: "tm_cleanup (calm_run num j u) = Some CloseDone" if "tm_cleanup u = Some CloseDone" for j u
    using that by (induction j arbitrary: u) (simp_all add: calm_answer_def terminal_step_def op_number_def close_step_def)
  have "tm_cleanup (calm_run num j u) = Some CloseDone" if "tm_topLevelExited u" "close_rank u \<le> j" for j u
    using that
  proof (induction j arbitrary: u)
    case 0
    then show ?case by (auto simp: close_rank_def split: option.splits close_phase.splits if_splits)
  next
    case (Suc j)
    show ?case
    proof (cases "tm_cleanup u = Some CloseDone")
      case True
      then show ?thesis by (rule done_stays)
    next
      case False
      then show ?thesis using calm_step[OF Suc.prems(1) False, of num] Suc by simp
    qed
  qed
  then show ?thesis using assms close_rank_bound[of t] by (meson order_trans)
qed

end
