(* ===== verification/TerminalSamples.thy ===== *)
theory TerminalSamples
  imports TerminalFilter TerminalClose
begin

text \<open>Runs of a terminal on concrete hosts: the properties at work, and where the code does not do what it means to.\<close>

definition no_number :: "jstr \<Rightarrow> int option" where
  "no_number w = None"

text \<open>\<^verbatim>\<open>ps\<close> lists the shell 7, a job 9 of its session and a stranger.\<close>

definition ps_text :: jstr where
  "ps_text = [32, 55, 32, 55, 32, 83, 115, 10, 32, 55, 32, 57, 32, 82, 43, 10, 32, 56, 32, 56, 32, 83, 10]"

lemmas table_defs = split_lit.simps starts_with_def js_trim_def is_js_ws_def ws_words.simps word_at_def digits_val_def is_digit_def
  MAX_SAFE_INTEGER_def js_def

lemma sample_groups: "session_groups no_number 7 (Some 0, ps_text) = [7, 9]"
  by (simp add: ps_text_def session_groups_def table_defs member_group_def is_header_def number_of_def dead_stat_def set_add_def)

definition sample_close :: "terminal_event list" where
  "sample_close = [TerminateCalled, Closing OpsSettled, Closing (Listed (Returned (Some 0, ps_text)) False)]"


definition sample_end :: "terminal_event list" where
  "sample_end = [ProcEnded (Returned (Some 0, None)), TerminateCalled, Closing OpsSettled, Closing (Listed empty_table False),
     Closing StateRemovedHere]"


lemma terminal_cleanup_converges_witness:
  "tm_cleanup (calm_run no_number 6 ((SshTerminalHandle 7 [112] [100])\<lparr>tm_topLevelExited := True, tm_cleanup := Some (CloseRaceKill [9])\<rparr>))
    = Some CloseDone"
  using terminal_cleanup_converges[of "(SshTerminalHandle 7 [112] [100])\<lparr>tm_topLevelExited := True, tm_cleanup := Some (CloseRaceKill [9])\<rparr>" 6]
  by (simp add: SshTerminalHandle_def)

section \<open>Where it goes wrong\<close>

text \<open>A listing that failed counts as an empty session: the clean-up succeeds and no group is ever signalled.\<close>

lemma failed_listing_counts_as_empty:
  "\<exists>t out. steps (terminal_step num) (SshTerminalHandle pid tty dir)
      [ProcEnded (Returned (Some 0, None)), TerminateCalled, Closing OpsSettled, Closing (Listed (Returned (Some 1, x)) False),
       Closing StateRemovedHere] = (t, out) \<and>
    TerminateEnds None \<in> set out \<and> (\<forall>sig gs. TmCommand (kill_groups sig gs) \<notin> set out)"
  by (auto simp: terminal_step_def op_number_def SshTerminalHandle_def terminal_terminate_def close_step_def close_defs closing_def
    waitForCommand_def session_groups_def kill_groups_def PS_SESSIONS_def rm_command_def js_def)

text \<open>The shell that sleeps behind a running foreground job makes the job look as if it waited for input.\<close>

lemma sleeping_shell_looks_like_input:
  "foreground_of 7 (Some 0, [57, 32, 83, 115, 10, 57, 32, 82, 43, 10]) = Inr (Some (9, True))"
  by (simp add: foreground_of_def table_defs parsePositiveId_def)

text \<open>A foreground group 1 is not refused: the command signals every process the user may signal.\<close>

lemma foreground_one_signals_everything:
  "\<exists>t out. steps (terminal_step num) (SshTerminalHandle 7 tty dir)
      [SignalCalled 0 (js ''SIGINT''), OpAnswered 0 (Returned (Some 0, [49, 32, 83, 43, 10]))] = (t, out) \<and>
    TmCommand (js ''kill -INT -1'') \<in> set out"
proof -
  have f: "foreground_of 7 (Some 0, [49, 32, 83, 43, 10]) = Inr (Some (1, True))"
    by (simp add: foreground_of_def table_defs parsePositiveId_def)
  have k: "kill_command (drop 3 (js ''SIGINT'')) (Suc 0) = js ''kill -INT -1''" by (simp add: kill_command_def js_def digits.simps)
  show ?thesis
    by (simp add: terminal_step_def op_number_def SshTerminalHandle_def trackOperation_def inspectForegroundOnce_def op_waits_def
      op_answered_def foreground_read_def f k signal_foreground_def)
qed

end
