(* ===== verification/SubprocessRuntime.thy ===== *)
theory SubprocessRuntime
  imports TerminalBoot
begin

text \<open>
  \<^verbatim>\<open>subprocess-ssh/src/runtime.ts\<close>: the look-up of executables, and which processes the provider ends when it
  is disposed of. \<open>base\<close> is the probed environment of the remote host.
\<close>

section \<open>Executables\<close>

datatype resolve_phase =
    TestingFile jstr
  | ReadingBase jstr
  | LookingUp jstr
  | ResolvedTo jstr
  | ResolveThrew jstr

datatype lookup_command = Run jstr "jstr option"

definition not_executable :: "jstr \<Rightarrow> jstr" where
  "not_executable command = js ''subprocess-ssh: executable not found or not executable: '' @ command"

definition not_on_path :: "jstr \<Rightarrow> jstr" where
  "not_on_path command = js ''subprocess-ssh: executable not found on remote PATH: '' @ command"

definition no_connection :: jstr where
  "no_connection = connLostError (js ''no live SSH connection'')"

text \<open>Up to the first await; \<open>aborted\<close> is the reason of the caller's signal.\<close>

definition resolveExecutable :: "jstr \<Rightarrow> bool \<Rightarrow> jstr option \<Rightarrow> resolve_phase \<times> lookup_command list" where
  "resolveExecutable command live aborted =
     (case aborted of
        Some e \<Rightarrow> (ResolveThrew e, [])
      | None \<Rightarrow>
          if command = [] then (ResolveThrew (js ''subprocess-ssh: empty executable name''), [])
          else if isAbsolute command then
            (if live then (TestingFile command, [Run (js ''test -x '' @ sq command) None]) else (ResolveThrew no_connection, []))
          else if 47 \<in> set command then
            (ResolveThrew (js ''subprocess-ssh: relative executable paths containing separators are not supported: '' @ command), [])
          else if take 1 command = [45] then (ResolveThrew (js ''subprocess-ssh: invalid executable name: '' @ command), [])
          else (ReadingBase command, []))"

definition file_tested :: "jstr \<Rightarrow> jstr + nat option \<Rightarrow> resolve_phase" where
  "file_tested command r =
     (case r of Inl e \<Rightarrow> ResolveThrew e | Inr code \<Rightarrow> if code \<noteq> Some 0 then ResolveThrew (not_executable command) else ResolvedTo command)"

definition PATH_PREFIX :: jstr where "PATH_PREFIX = js ''PATH=''"

definition lookup_path :: "jstr list \<Rightarrow> jstr option" where
  "lookup_path merged = map_option (drop 5) (List.find (\<lambda>e. take 5 e = PATH_PREFIX) merged)"

definition base_read :: "jstr \<Rightarrow> bool \<Rightarrow> jstr + (jstr \<times> jstr) list \<Rightarrow> (jstr \<times> jstr option) list option \<Rightarrow>
    resolve_phase \<times> lookup_command list" where
  "base_read command live base env =
     (case base of
        Inl e \<Rightarrow> (ResolveThrew e, [])
      | Inr b \<Rightarrow>
          (case mergeEnvironment b env of
             Inl e \<Rightarrow> (ResolveThrew e, [])
           | Inr merged \<Rightarrow>
               if live then (LookingUp command, [Run (js ''command -v -- '' @ sq command) (lookup_path merged)])
               else (ResolveThrew no_connection, [])))"

definition looked_up :: "jstr \<Rightarrow> jstr + nat option \<times> jstr \<Rightarrow> jstr option \<Rightarrow> resolve_phase" where
  "looked_up command r aborted =
     (case r of
        Inl e \<Rightarrow> ResolveThrew e
      | Inr (code, stdout) \<Rightarrow>
          (case aborted of
             Some e \<Rightarrow> ResolveThrew e
           | None \<Rightarrow>
               let resolved = js_trim (hd (split_lit stdout [10])) in
               if code \<noteq> Some 0 \<or> resolved = [] then ResolveThrew (not_on_path command) else ResolvedTo resolved))"

section \<open>Managed processes\<close>

record runtime =
  rt_live :: "nat list"
  rt_disposed :: bool

definition SshSubprocessRuntime :: runtime where
  "SshSubprocessRuntime = \<lparr>rt_live = [], rt_disposed = False\<rparr>"

datatype runtime_output =
    NewProcess nat
  | NewTerminal nat
  | TerminateProcess nat
  | RuntimeThrew jstr

definition runtime_disposed :: jstr where
  "runtime_disposed = js ''subprocess-ssh: runtime is disposed''"

datatype runtime_event =
    Spawn nat "jstr list" jstr bool
  | SpawnTerminal nat "jstr list" bool
  | Untrack nat
  | DisposeRuntime

definition runtime_spawn :: "nat \<Rightarrow> jstr list \<Rightarrow> jstr \<Rightarrow> bool \<Rightarrow> runtime \<Rightarrow> runtime \<times> runtime_output list" where
  "runtime_spawn n argv cwd grace r =
     (if rt_disposed r then (r, [RuntimeThrew runtime_disposed])
      else case validateSpawnSpec argv cwd grace of
        Some e \<Rightarrow> (r, [RuntimeThrew e])
      | None \<Rightarrow> (r\<lparr>rt_live := set_add n (rt_live r)\<rparr>, [NewProcess n]))"

definition spawnTerminal :: "nat \<Rightarrow> jstr list \<Rightarrow> bool \<Rightarrow> runtime \<Rightarrow> runtime \<times> runtime_output list" where
  "spawnTerminal n argv grace r =
     (if rt_disposed r then (r, [RuntimeThrew runtime_disposed])
      else if argv = [] then (r, [RuntimeThrew (js ''subprocess-ssh: terminal argv must be non-empty'')])
      else if \<not> grace then (r, [RuntimeThrew (js ''subprocess-ssh: graceMs must be a positive finite number'')])
      else (r, [NewTerminal n]))"

definition runtime_dispose :: "runtime \<Rightarrow> runtime \<times> runtime_output list" where
  "runtime_dispose r = (r\<lparr>rt_disposed := True\<rparr>, map TerminateProcess (rt_live r))"

definition runtime_step :: "runtime \<Rightarrow> runtime_event \<Rightarrow> runtime \<times> runtime_output list" where
  "runtime_step r ev =
     (case ev of
        Spawn n argv cwd grace \<Rightarrow> runtime_spawn n argv cwd grace r
      | SpawnTerminal n argv grace \<Rightarrow> spawnTerminal n argv grace r
      | Untrack n \<Rightarrow> (r\<lparr>rt_live := set_del n (rt_live r)\<rparr>, [])
      | DisposeRuntime \<Rightarrow> runtime_dispose r)"

section \<open>What they do\<close>

lemma sh_words_command:
  "sh_words (js ''command -v -- '' @ sq v) = Some [js ''command'', js ''-v'', js ''--'', v]"
  "sh_words (js ''test -x '' @ sq v) = Some [js ''test'', js ''-x'', v]"
proof -
  have split: "js ''command -v -- '' = js ''command'' @ 32 # js ''-v'' @ 32 # js ''--'' @ [32]"
    "js ''test -x '' = js ''test'' @ 32 # js ''-x'' @ [32]" by (simp_all add: js_def)
  have plain: "list_all sh_plain (js ''command'')" "list_all sh_plain (js ''-v'')" "list_all sh_plain (js ''--'')"
    "list_all sh_plain (js ''test'')" "list_all sh_plain (js ''-x'')"
    by (simp_all add: js_def sh_plain_def)
  have ne: "js ''command'' \<noteq> []" "js ''-v'' \<noteq> []" "js ''--'' \<noteq> []" "js ''test'' \<noteq> []" "js ''-x'' \<noteq> []" by (simp_all add: js_def)
  note rules = sh_words_plain[OF plain(1) ne(1)] sh_words_plain[OF plain(2) ne(2)] sh_words_plain[OF plain(3) ne(3)]
    sh_words_plain[OF plain(4) ne(4)] sh_words_plain[OF plain(5) ne(5)] sh_words_quoted
  show "sh_words (js ''command -v -- '' @ sq v) = Some [js ''command'', js ''-v'', js ''--'', v]"
    "sh_words (js ''test -x '' @ sq v) = Some [js ''test'', js ''-x'', v]"
    unfolding split by (simp_all add: rules del: sh_words.simps js_Cons)
qed

text \<open>Every look-up runs exactly one command, whose last word is the name that was asked for.\<close>

lemma lookup_runs_one_command:
  "Run c p \<in> set (snd (resolveExecutable command live aborted)) \<Longrightarrow> sh_words c = Some [js ''test'', js ''-x'', command] \<and> isAbsolute command"
  "Run c p \<in> set (snd (base_read command live base env)) \<Longrightarrow> sh_words c = Some [js ''command'', js ''-v'', js ''--'', command]"
  by (auto simp: resolveExecutable_def base_read_def sh_words_command split: option.splits sum.splits if_splits)

text \<open>A terminal is not among the processes that are ended when the provider is disposed of.\<close>

lemma terminals_survive_dispose:
  "\<exists>r out. steps runtime_step SshSubprocessRuntime [SpawnTerminal 0 [[97]] True, DisposeRuntime] = (r, out) \<and>
    NewTerminal 0 \<in> set out \<and> (\<forall>n. TerminateProcess n \<notin> set out)"
  by (simp add: runtime_step_def spawnTerminal_def runtime_dispose_def SshSubprocessRuntime_def)

end
