(* ===== verification/MirrorEvents.thy ===== *)
theory MirrorEvents
  imports Broker "HOL-Library.Sublist"
begin

text \<open>
  \<^verbatim>\<open>remote-proxy/src/events.ts\<close>: reading a remote session's history page by page, and appending a wire
  event to the local session. The local session class belongs to the host application: its log is a
  list whose length is the next sequence number, and \<open>accepts\<close> stands for its validation of an append.
\<close>

section \<open>The local session\<close>

datatype surface_op = AppendOp | ReplaceOp int int

record surface_intent =
  si_surfaceOp :: surface_op
  si_sourceEventSeqs :: "int list option"

record local_event =
  le_type :: jstr
  le_seq :: int
  le_data :: json
  le_intent :: "surface_intent option"

record session =
  ss_id :: jstr
  ss_log :: "local_event list"

definition session_seq :: "session \<Rightarrow> int" where
  "session_seq s = int (length (ss_log s))"

type_synonym validation = "session \<Rightarrow> jstr \<Rightarrow> json \<Rightarrow> surface_intent option \<Rightarrow> jstr option"

definition session_append :: "validation \<Rightarrow> session \<Rightarrow> jstr \<Rightarrow> json \<Rightarrow> surface_intent option \<Rightarrow> jstr + session" where
  "session_append accepts s ty data intent =
     (case accepts s ty data intent of
        Some e \<Rightarrow> Inl e
      | None \<Rightarrow> Inr (s\<lparr>ss_log := ss_log s @
          [\<lparr>le_type = ty, le_seq = session_seq s, le_data = data, le_intent = intent\<rparr>]\<rparr>))"

section \<open>Wire events\<close>

text \<open>\<open>MirroredWireEvent\<close>: a wire event and the surface metadata that may travel with it.\<close>

record mirrored_event = wire_event +
  mw_surfaceOp :: "surface_op option"
  mw_sourceEventSeqs :: "int list option"

definition wire_data :: "mirrored_event \<Rightarrow> json" where
  "wire_data w = (case we_data w of None \<Rightarrow> JObj [] | Some JNull \<Rightarrow> JObj [] | Some d \<Rightarrow> d)"

definition wire_intent :: "(jstr \<Rightarrow> bool) \<Rightarrow> mirrored_event \<Rightarrow> surface_intent option" where
  "wire_intent eligible w =
     (if eligible (we_type w)
      then Some \<lparr>si_surfaceOp = (case mw_surfaceOp w of Some s \<Rightarrow> s | None \<Rightarrow> AppendOp),
                 si_sourceEventSeqs = mw_sourceEventSeqs w\<rparr>
      else None)"

definition appendMirroredEvent :: "validation \<Rightarrow> (jstr \<Rightarrow> bool) \<Rightarrow> session \<Rightarrow> mirrored_event \<Rightarrow> jstr + session" where
  "appendMirroredEvent accepts eligible s w =
     session_append accepts s (we_type w) (wire_data w) (wire_intent eligible w)"

text \<open>The local event a wire event becomes.\<close>

definition mirror_event :: "(jstr \<Rightarrow> bool) \<Rightarrow> mirrored_event \<Rightarrow> local_event" where
  "mirror_event eligible w =
     \<lparr>le_type = we_type w, le_seq = we_seq w, le_data = wire_data w, le_intent = wire_intent eligible w\<rparr>"

lemma appendMirroredEvent_log:
  assumes "appendMirroredEvent accepts eligible s w = Inr s'" "we_seq w = session_seq s"
  shows "ss_log s' = ss_log s @ [mirror_event eligible w]" "ss_id s' = ss_id s"
  using assms by (auto simp: appendMirroredEvent_def session_append_def mirror_event_def split: option.splits)

section \<open>Reading the history\<close>

record history_read =
  hy_entries :: "(int \<times> mirrored_event) list"
  hy_hasMore :: bool

text \<open>A fetcher answers its k-th call; the backend may have gone on between two calls.\<close>

type_synonym fetcher = "nat \<Rightarrow> int option \<Rightarrow> int \<Rightarrow> jstr + history_read"

partial_function (option) page_back ::
    "fetcher \<Rightarrow> int \<Rightarrow> int \<Rightarrow> nat \<Rightarrow> int option \<Rightarrow> mirrored_event list list \<Rightarrow> (jstr + mirrored_event list list) option" where
  "page_back fetch fromSeq pageSize k beforeSeq pages =
     (case fetch k beforeSeq pageSize of
        Inl e \<Rightarrow> Some (Inl e)
      | Inr page \<Rightarrow>
          if \<not> hy_hasMore page then Some (Inr (map snd (hy_entries page) # pages))
          else (case hy_entries page of
                  [] \<Rightarrow> Some (Inr (map snd (hy_entries page) # pages))
                | (q, _) # _ \<Rightarrow>
                    if q \<le> fromSeq then Some (Inr (map snd (hy_entries page) # pages))
                    else page_back fetch fromSeq pageSize (Suc k) (Some q) (map snd (hy_entries page) # pages)))"

fun first_gap :: "int \<Rightarrow> mirrored_event list \<Rightarrow> (int \<times> int) option" where
  "first_gap expected [] = None"
| "first_gap expected (e # es) =
     (if we_seq e \<noteq> expected then Some (expected, we_seq e) else first_gap (expected + 1) es)"

definition not_contiguous :: "int \<times> int \<Rightarrow> jstr" where
  "not_contiguous g = js ''remote session history is not contiguous: expected seq '' @ num_text (fst g) 0 @
     js '', got '' @ num_text (snd g) 0"

definition readRemoteHistory :: "fetcher \<Rightarrow> int \<Rightarrow> int \<Rightarrow> (jstr + mirrored_event list) option" where
  "readRemoteHistory fetch fromSeq pageSize =
     (case page_back fetch fromSeq pageSize 0 None [] of
        None \<Rightarrow> None
      | Some (Inl e) \<Rightarrow> Some (Inl e)
      | Some (Inr pages) \<Rightarrow>
          (let events = filter (\<lambda>e. we_seq e \<ge> fromSeq) (concat pages) in
           case first_gap fromSeq events of
             Some g \<Rightarrow> Some (Inl (not_contiguous g))
           | None \<Rightarrow> Some (Inr events)))"

section \<open>What is read\<close>

text \<open>\<open>contiguous n es\<close>: the events are numbered from \<open>n\<close> on.\<close>

definition contiguous :: "int \<Rightarrow> mirrored_event list \<Rightarrow> bool" where
  "contiguous n es \<longleftrightarrow> (\<forall>i < length es. we_seq (es ! i) = n + int i)"

lemma contiguous_simps [simp]:
  "contiguous n []" "contiguous n (e # es) \<longleftrightarrow> we_seq e = n \<and> contiguous (n + 1) es"
proof -
  show "contiguous n []" by (simp add: contiguous_def)
  have "contiguous n (e # es) \<longleftrightarrow> we_seq e = n \<and> (\<forall>i < length es. we_seq (es ! i) = n + int (Suc i))"
    by (auto simp: contiguous_def nth_Cons split: nat.splits)
  then show "contiguous n (e # es) \<longleftrightarrow> we_seq e = n \<and> contiguous (n + 1) es"
    by (simp add: contiguous_def algebra_simps)
qed

lemma contiguous_append: "contiguous n (es @ fs) \<longleftrightarrow> contiguous n es \<and> contiguous (n + int (length es)) fs"
  by (induction es arbitrary: n) (auto simp: algebra_simps)

lemma first_gap_None: "first_gap n es = None \<longleftrightarrow> contiguous n es"
  by (induction es arbitrary: n) auto

lemma readRemoteHistory_contiguous:
  "readRemoteHistory fetch fromSeq pageSize = Some (Inr es) \<Longrightarrow> contiguous fromSeq es"
  by (auto simp: readRemoteHistory_def Let_def first_gap_None split: option.splits sum.splits)

text \<open>The history method of the backend, on a log that may grow between two calls.\<close>

definition backend_fetch :: "(nat \<Rightarrow> wire_event list) \<Rightarrow> (wire_event \<Rightarrow> mirrored_event) \<Rightarrow> fetcher" where
  "backend_fetch log carry k beforeSeq n =
     (let r = history_page (log k) beforeSeq (Some n)
      in Inr \<lparr>hy_entries = map (\<lambda>e. (he_seq e, carry (he_event e))) (hr_entries r), hy_hasMore = hr_hasMore r\<rparr>)"

definition numbered :: "wire_event list \<Rightarrow> bool" where
  "numbered es \<longleftrightarrow> (\<forall>i < length es. we_seq (es ! i) = int i)"

lemma numbered_filter:
  assumes "numbered es" "prefix ds es" "m \<le> length ds"
  shows "filter (\<lambda>e. we_seq e < int m) es = take m ds"
proof -
  have le: "m \<le> length es" using assms(2,3) by (meson order_trans prefix_length_le)
  have ds: "take m ds = take m es" using assms(2,3) by (auto elim: prefixE)
  have "we_seq e < int m" if "e \<in> set (take m es)" for e
    using that assms(1) le by (auto simp: numbered_def in_set_conv_nth)
  moreover have "\<not> we_seq e < int m" if "e \<in> set (drop m es)" for e
    using that assms(1) by (auto simp: numbered_def in_set_conv_nth)
  ultimately have "filter (\<lambda>e. we_seq e < int m) (take m es @ drop m es) = take m es"
    by (simp only: filter_append) (simp add: filter_id_conv filter_empty_conv)
  then show ?thesis by (simp add: ds)
qed

lemma backend_fetch_page:
  assumes "numbered (log k)" "prefix ds (log k)" "m \<le> length ds"
    and "before = Some (int m) \<or> before = None \<and> ds = log k \<and> m = length ds"
    and "j = m - page_limit (Some n)"
  shows "\<exists>page. backend_fetch log carry k before n = Inr page \<and>
    map snd (hy_entries page) = map carry (drop j (take m ds)) \<and>
    map fst (hy_entries page) = map we_seq (drop j (take m ds)) \<and> hy_hasMore page = (0 < j)"
proof -
  have el: "take m ds = (case before of None \<Rightarrow> log k | Some q \<Rightarrow> filter (\<lambda>e. we_seq e < q) (log k))"
    using assms(4) numbered_filter[OF assms(1-3)] by auto
  have len: "length (take m ds) = m" using assms(3) by simp
  define r where "r = history_page (log k) before (Some n)"
  define page where "page = \<lparr>hy_entries = map (\<lambda>e. (he_seq e, carry (he_event e))) (hr_entries r), hy_hasMore = hr_hasMore r\<rparr>"
  note h = history_page_eq[OF el, of "Some n", folded r_def, unfolded len, folded assms(5)]
  have "map snd (hy_entries page) = map carry (map he_event (hr_entries r))"
    "map fst (hy_entries page) = map he_seq (hr_entries r)"
    by (simp_all add: page_def comp_def)
  moreover have "hr_hasMore r \<longleftrightarrow> 0 < j" using h(2) assms(5) by simp
  ultimately have "map snd (hy_entries page) = map carry (drop j (take m ds)) \<and>
      map fst (hy_entries page) = map we_seq (drop j (take m ds)) \<and> hy_hasMore page = (0 < j)"
    unfolding h(1) h(3) by (simp add: page_def)
  moreover have "backend_fetch log carry k before n = Inr page"
    by (simp add: backend_fetch_def Let_def page_def r_def)
  ultimately show ?thesis by blast
qed

lemma page_back_reads:
  assumes log: "\<And>k. numbered (log k)" "\<And>k. prefix (log 0) (log k)"
    and "m \<le> length (log 0)" "before = Some (int m) \<or> before = None \<and> k = 0 \<and> m = length (log 0)"
    and "concat pages = map carry (drop m (log 0))"
  shows "\<exists>pages' j. page_back (backend_fetch log carry) fromSeq n k before pages = Some (Inr pages') \<and>
    concat pages' = map carry (drop j (log 0)) \<and> (j = 0 \<or> int j \<le> fromSeq)"
  using assms(3-)
proof (induction m arbitrary: k before pages rule: less_induct)
  case (less m)
  define j where "j = m - page_limit (Some n)"
  obtain page where page: "backend_fetch log carry k before n = Inr page"
    "map snd (hy_entries page) = map carry (drop j (take m (log 0)))"
    "map fst (hy_entries page) = map we_seq (drop j (take m (log 0)))" "hy_hasMore page = (0 < j)"
    using backend_fetch_page[where log = log and k = k and before = before and n = n and carry = carry, OF log(1) log(2) less.prems(1) _ j_def]
      less.prems(2) by auto
  have split: "drop j (log 0) = drop j (take m (log 0)) @ drop m (log 0)"
    by (metis append_take_drop_id diff_le_self drop_append drop_drop j_def le_add_diff_inverse2
        length_take less.prems(1) min.absorb2 diff_is_0_eq' drop_0)
  have read: "concat (map snd (hy_entries page) # pages) = map carry (drop j (log 0))"
    using page(2) less.prems(3) by (simp add: split)
  show ?case
  proof (cases "0 < j")
    case False
    then show ?thesis using page(1,4) read by (subst page_back.simps) (auto intro: exI[of _ "0::nat"])
  next
    case True
    have j: "j < m" using True page_limit_pos[of "Some n"] by (auto simp: j_def)
    then have "drop j (take m (log 0)) = log 0 ! j # drop (Suc j) (take m (log 0))"
      using less.prems(1) by (simp add: Cons_nth_drop_Suc[symmetric])
    then obtain x rest where first: "hy_entries page = (we_seq (log 0 ! j), x) # rest"
      using page(3) by (cases "hy_entries page") auto
    have q: "we_seq (log 0 ! j) = int j" using log(1)[of 0] j less.prems(1) by (simp add: numbered_def)
    show ?thesis
    proof (cases "int j \<le> fromSeq")
      case True
      then show ?thesis using page(1,4) \<open>0 < j\<close> read first q by (subst page_back.simps) auto
    next
      case False
      have "page_back (backend_fetch log carry) fromSeq n k before pages =
          page_back (backend_fetch log carry) fromSeq n (Suc k) (Some (int j)) (map snd (hy_entries page) # pages)"
        using page(1,4) \<open>0 < j\<close> first q False by (subst page_back.simps) simp
      then show ?thesis
        using less.IH[OF j, of "Some (int j)" "Suc k" "map snd (hy_entries page) # pages"] j less.prems(1) read by simp
    qed
  qed
qed

text \<open>
  A session's history is read exactly. However many events the log has, whatever the page size, and
  however the log grows while the pages are fetched, reading from a sequence number ends and
  returns the events from that number on that the log had when the first page was answered, each
  once, in order.
\<close>

lemma history_read_exact:
  assumes "\<And>k. numbered (log k)" "\<And>k. prefix (log 0) (log k)" "\<And>e. we_seq (carry e) = we_seq e" "0 \<le> fromSeq"
  shows "readRemoteHistory (backend_fetch log carry) fromSeq n = Some (Inr (map carry (drop (nat fromSeq) (log 0))))"
proof -
  obtain pages j where p: "page_back (backend_fetch log carry) fromSeq n 0 None [] = Some (Inr pages)"
    "concat pages = map carry (drop j (log 0))" "j = 0 \<or> int j \<le> fromSeq"
    using page_back_reads[where log = log, OF assms(1,2), of "length (log 0)" None 0 "[]" carry fromSeq n] by auto
  let ?es = "drop (nat fromSeq) (log 0)"
  have seqs: "we_seq (log 0 ! i) = int i" if "i < length (log 0)" for i using assms(1)[of 0] that by (simp add: numbered_def)
  have "filter (\<lambda>e. we_seq e \<ge> fromSeq) (drop j (log 0)) = ?es"
  proof -
    have d: "drop j (log 0) = take (nat fromSeq - j) (drop j (log 0)) @ ?es"
      using p(3) assms(4) by (metis append_take_drop_id drop_drop le_add_diff_inverse2 nat_int nat_mono zero_le)
    have "\<not> we_seq e \<ge> fromSeq" if "e \<in> set (take (nat fromSeq - j) (drop j (log 0)))" for e
      using that seqs by (auto simp: in_set_conv_nth)
    moreover have "we_seq e \<ge> fromSeq" if "e \<in> set ?es" for e
      using that seqs by (auto simp: in_set_conv_nth)
    ultimately show ?thesis by (subst d) (simp add: filter_id_conv filter_empty_conv)
  qed
  then have f: "filter (\<lambda>e. we_seq e \<ge> fromSeq) (map carry (drop j (log 0))) = map carry ?es"
    using assms(3) by (simp add: filter_map comp_def)
  have "contiguous fromSeq (map carry ?es)"
    using assms(3,4) seqs by (simp add: contiguous_def)
  then show ?thesis using p f by (simp add: readRemoteHistory_def first_gap_None[symmetric])
qed

end
