(* ===== verification/AgentFacade.thy ===== *)
theory AgentFacade
  imports MirrorEvents TextEdit "HOL-Library.Multiset"
begin

text \<open>
  \<^verbatim>\<open>remote-proxy/src/agent.ts\<close>: the local agent that stands for a remote one. Its methods go to the
  client handle, its status follows the handle, its inbox is a projection of the mirrored log. The
  inbox class belongs to the host application: \<open>apply\<close> stands for its \<open>apply\<close>, which returns the
  removed messages or throws.
\<close>

section \<open>Data\<close>

datatype content_block = TextBlock jstr | OtherBlock json

type_synonym 'i inbox_apply = "'i \<Rightarrow> json \<Rightarrow> jstr + 'i \<times> json list"

record 'i facade =
  fa_id :: jstr
  fa_status :: agent_status
  fa_inbox :: 'i
  fa_idleWaiters :: "nat list"
  fa_maintenance :: bool
  fa_warnedNonText :: bool
  fa_announced :: bool

datatype facade_output =
    EmitInserted json
  | EmitDiscarded json
  | EmitStatus agent_status
  | AbortMaintenance
  | HandleCancel
  | HandlePrompt jstr
  | WarnSplice jstr
  | WarnNonText
  | IdleResolved nat
  | MaintenanceRefused nat
  | MaintenanceRuns nat
  | MaintenanceDone nat

type_synonym 'i facade_reaction = "'i facade \<times> facade_output list"

definition RemoteAgentFacade :: "jstr \<Rightarrow> agent_status \<Rightarrow> 'i \<Rightarrow> 'i facade" where
  "RemoteAgentFacade i status inbox =
     \<lparr>fa_id = i, fa_status = status, fa_inbox = inbox, fa_idleWaiters = [], fa_maintenance = False,
      fa_warnedNonText = False, fa_announced = False\<rparr>"

definition markAnnounced :: "'i facade \<Rightarrow> 'i facade" where
  "markAnnounced f = f\<lparr>fa_announced := True\<rparr>"

section \<open>The inbox\<close>

text \<open>The members of an \<open>InboxSplice\<close> the facade reads itself.\<close>

definition splice_inserted :: "json \<Rightarrow> json list" where
  "splice_inserted d =
     (case d of JObj ms \<Rightarrow> (case get_key ms ''inserted'' of Some (JArr xs) \<Rightarrow> xs | _ \<Rightarrow> []) | _ \<Rightarrow> [])"

definition splice_canceled :: "json \<Rightarrow> bool" where
  "splice_canceled d = (case d of JObj ms \<Rightarrow> get_key ms ''outcome'' = Some (JStr (js ''canceled'')) | _ \<Rightarrow> False)"

definition feedInboxSplice :: "'i inbox_apply \<Rightarrow> 'i facade \<Rightarrow> json \<Rightarrow> 'i facade_reaction" where
  "feedInboxSplice apply f d =
     (case apply (fa_inbox f) d of
        Inl e \<Rightarrow> (f, [WarnSplice e])
      | Inr (inbox, removed) \<Rightarrow>
          (f\<lparr>fa_inbox := inbox\<rparr>,
           if \<not> fa_announced f then []
           else map EmitInserted (splice_inserted d) @ (if splice_canceled d then map EmitDiscarded removed else [])))"

section \<open>Idle and maintenance\<close>

definition busy :: "'i facade \<Rightarrow> bool" where
  "busy f \<longleftrightarrow> fa_status f \<noteq> AgentIdle \<or> fa_maintenance f"

definition flushIdleWaiters :: "'i facade \<Rightarrow> 'i facade_reaction" where
  "flushIdleWaiters f =
     (if busy f then (f, []) else (f\<lparr>fa_idleWaiters := []\<rparr>, map IdleResolved (fa_idleWaiters f)))"

definition whenIdle :: "'i facade \<Rightarrow> nat \<Rightarrow> 'i facade_reaction" where
  "whenIdle f n =
     (if \<not> busy f then (f, [IdleResolved n]) else (f\<lparr>fa_idleWaiters := fa_idleWaiters f @ [n]\<rparr>, []))"

definition runMaintenance :: "'i facade \<Rightarrow> nat \<Rightarrow> 'i facade_reaction" where
  "runMaintenance f n =
     (if busy f then (f, [MaintenanceRefused n]) else (f\<lparr>fa_maintenance := True\<rparr>, [MaintenanceRuns n]))"

text \<open>The \<open>finally\<close> of the running task.\<close>

definition maintenance_over :: "'i facade \<Rightarrow> nat \<Rightarrow> 'i facade_reaction" where
  "maintenance_over f n =
     (case flushIdleWaiters (f\<lparr>fa_maintenance := False\<rparr>) of (f1, out) \<Rightarrow> (f1, out @ [MaintenanceDone n]))"

definition applyRemoteStatus :: "'i facade \<Rightarrow> agent_status \<Rightarrow> 'i facade_reaction" where
  "applyRemoteStatus f next =
     (if next = fa_status f then (f, [])
      else let f1 = f\<lparr>fa_status := next\<rparr>;
               emitted = (if fa_announced f then [EmitStatus next] else []) in
           if next = AgentIdle then (case flushIdleWaiters f1 of (f2, out) \<Rightarrow> (f2, emitted @ out)) else (f1, emitted))"

section \<open>Calls of the remote handle\<close>

definition facade_cancel :: "'i facade \<Rightarrow> 'i facade_reaction" where
  "facade_cancel f = (f, (if fa_maintenance f then [AbortMaintenance] else []) @ [HandleCancel])"

definition block_text :: "content_block \<Rightarrow> jstr option" where
  "block_text b = (case b of TextBlock t \<Rightarrow> Some t | OtherBlock _ \<Rightarrow> None)"

definition submit :: "'i facade \<Rightarrow> content_block list \<Rightarrow> 'i facade_reaction" where
  "submit f content =
     (let texts = List.map_filter block_text content;
          dropped = (\<not> fa_warnedNonText f \<and> (\<exists>b \<in> set content. block_text b = None)) in
      (if dropped then f\<lparr>fa_warnedNonText := True\<rparr> else f,
       (if dropped then [WarnNonText] else []) @ [HandlePrompt (join texts [10])]))"

datatype facade_event =
    FeedSplice json
  | Cancel
  | WhenIdle nat
  | RunMaintenance nat
  | MaintenanceOver nat
  | Submit "content_block list"
  | RemoteStatus agent_status
  | Announced

fun facade_step :: "'i inbox_apply \<Rightarrow> 'i facade \<Rightarrow> facade_event \<Rightarrow> 'i facade_reaction" where
  "facade_step apply f (FeedSplice d) = feedInboxSplice apply f d"
| "facade_step apply f Cancel = facade_cancel f"
| "facade_step apply f (WhenIdle n) = whenIdle f n"
| "facade_step apply f (RunMaintenance n) = runMaintenance f n"
| "facade_step apply f (MaintenanceOver n) = (if fa_maintenance f then maintenance_over f n else (f, []))"
| "facade_step apply f (Submit c) = submit f c"
| "facade_step apply f (RemoteStatus s) = applyRemoteStatus f s"
| "facade_step apply f Announced = (markAnnounced f, [])"

section \<open>Nobody waits for an idle agent\<close>

definition idle_calls :: "facade_event list \<Rightarrow> nat list" where
  "idle_calls es = concat (map (\<lambda>e. case e of WhenIdle n \<Rightarrow> [n] | _ \<Rightarrow> []) es)"

definition idle_resolved :: "facade_output list \<Rightarrow> nat list" where
  "idle_resolved out = concat (map (\<lambda>c. case c of IdleResolved n \<Rightarrow> [n] | _ \<Rightarrow> []) out)"

definition status_seen :: "facade_output list \<Rightarrow> agent_status list" where
  "status_seen out = concat (map (\<lambda>c. case c of EmitStatus s \<Rightarrow> [s] | _ \<Rightarrow> []) out)"

lemma idle_resolved_simps [simp]:
  "idle_resolved [] = []" "idle_resolved (x @ y) = idle_resolved x @ idle_resolved y"
  "idle_resolved (map IdleResolved ns) = ns" "idle_resolved (IdleResolved n # out) = n # idle_resolved out"
  "idle_resolved (map EmitInserted ms) = []" "idle_resolved (map EmitDiscarded ms) = []"
  "idle_resolved (EmitStatus s # out) = idle_resolved out" "idle_resolved (AbortMaintenance # out) = idle_resolved out"
  "idle_resolved (HandleCancel # out) = idle_resolved out" "idle_resolved (HandlePrompt t # out) = idle_resolved out"
  "idle_resolved (WarnSplice e # out) = idle_resolved out" "idle_resolved (WarnNonText # out) = idle_resolved out"
  "idle_resolved (MaintenanceRefused n # out) = idle_resolved out" "idle_resolved (MaintenanceRuns n # out) = idle_resolved out"
  "idle_resolved (MaintenanceDone n # out) = idle_resolved out"
  by (simp_all add: idle_resolved_def comp_def concat_eq_Nil_conv)

lemma idle_calls_simps [simp]: "idle_calls [] = []" "idle_calls (es @ fs) = idle_calls es @ idle_calls fs"
  by (simp_all add: idle_calls_def)

definition idle_inv :: "'i facade \<Rightarrow> facade_event list \<Rightarrow> facade_output list \<Rightarrow> bool" where
  "idle_inv f g h \<longleftrightarrow>
     (fa_idleWaiters f \<noteq> [] \<longrightarrow> busy f) \<and> mset (idle_resolved h) + mset (fa_idleWaiters f) = mset (idle_calls g)"

lemmas facade_defs = feedInboxSplice_def facade_cancel_def whenIdle_def runMaintenance_def maintenance_over_def
  submit_def applyRemoteStatus_def markAnnounced_def flushIdleWaiters_def busy_def

lemma facade_step_idle:
  assumes "idle_inv f g h" "facade_step apply f ev = (f', out)"
  shows "idle_inv f' (g @ [ev]) (h @ out) \<and> (busy f' \<longrightarrow> idle_resolved out = [])"
  using assms
  by (cases ev)
    (auto simp: facade_defs idle_inv_def idle_calls_def Let_def split: if_splits sum.splits prod.splits)

interpretation facade_idle: reactive "facade_step apply" idle_inv
  by unfold_locales (simp add: facade_step_idle)

text \<open>
  C19: No wake-up of the local agent is lost. Through any interleaving of calls, status changes of the
  remote agent and maintenance tasks, every call of \<open>whenIdle\<close> is either answered, once, or still
  waiting; somebody waits only while the agent runs or is being maintained; and nobody is answered by
  a step that leaves it so.
\<close>

theorem when_idle_settles_once:
  assumes "steps (facade_step apply) (RemoteAgentFacade i status inbox) es = (f, out)"
  shows "mset (idle_resolved out) + mset (fa_idleWaiters f) = mset (idle_calls es) \<and>
    (fa_idleWaiters f \<noteq> [] \<longrightarrow> busy f) \<and>
    (\<forall>ev. busy (fst (facade_step apply f ev)) \<longrightarrow> idle_resolved (snd (facade_step apply f ev)) = [])"
proof -
  have "idle_inv (RemoteAgentFacade i status inbox) [] []" by (simp add: idle_inv_def RemoteAgentFacade_def)
  from facade_idle.always[OF this assms] have inv: "idle_inv f es out" by simp
  then show ?thesis using facade_step_idle[OF inv prod.collapse[symmetric]] by (simp add: idle_inv_def)
qed

theorem when_idle_settles_once_witness:
  "mset (idle_resolved (snd (steps (facade_step (\<lambda>i d. Inr (i, []))) (RemoteAgentFacade [] AgentRunning ())
      [WhenIdle 7, RunMaintenance 1, RemoteStatus AgentIdle]))) = {#7#}"
  using when_idle_settles_once[OF prod.collapse[symmetric], of "\<lambda>i d. Inr (i, [])" "[]" AgentRunning "()"
      "[WhenIdle 7, RunMaintenance 1, RemoteStatus AgentIdle]"]
  by (simp add: facade_defs RemoteAgentFacade_def idle_calls_def)

end
