(* ===== verification/Mirror.thy ===== *)
theory Mirror
  imports AgentFacade
begin

text \<open>
  \<^verbatim>\<open>remote-proxy/src/mirror.ts\<close>: one remote session mirrored into a local one. \<open>SessionMirror.create\<close>
  taps the live events, reads the history, replays it into the session, composes the agent, publishes
  both and goes live. Every \<open>await\<close> is a phase; what the host application's classes do is in the
  parameters of the environment and in the arguments of the events.
\<close>

section \<open>State\<close>

type_synonym local_append = "jstr \<times> json \<times> surface_intent option"

text \<open>
  \<open>me_listeners\<close>: what listeners of \<^verbatim>\<open>session/event\<close> append to the session while the event is published.
\<close>

record 'i mirror_env =
  me_accepts :: validation
  me_eligible :: "jstr \<Rightarrow> bool"
  me_inbox :: "session \<Rightarrow> 'i"
  me_apply :: "'i inbox_apply"
  me_listeners :: "session \<Rightarrow> mirrored_event \<Rightarrow> local_append list"

datatype mirror_phase = BootHistory | BootSetup | BootLive | BootFailed jstr

record 'i mirror =
  mi_id :: jstr
  mi_phase :: mirror_phase
  mi_tapped :: bool
  mi_buffered :: "mirrored_event list"
  mi_session :: session
  mi_guarded :: bool
  mi_facade :: "'i facade option"
  mi_entered :: bool
  mi_registered :: bool
  mi_wired :: bool
  mi_failed :: "jstr option"
  mi_disposed :: bool
  mi_releasing :: "bool option"

datatype mirror_output =
    Warned jstr
  | Threw jstr
  | Created
  | AppendRejected jstr
  | FacadeOut facade_output
  | ReleaseControl
  | Torn
  | HandleDetach

type_synonym 'i mirror_reaction = "'i mirror \<times> mirror_output list"

section \<open>Bootstrap\<close>

definition mirror_create :: "jstr \<Rightarrow> session option \<Rightarrow> 'i mirror" where
  "mirror_create i seed =
     \<lparr>mi_id = i, mi_phase = BootHistory, mi_tapped = True, mi_buffered = [],
      mi_session = (case seed of Some s \<Rightarrow> s | None \<Rightarrow> \<lparr>ss_id = i, ss_log = []\<rparr>), mi_guarded = False,
      mi_facade = None, mi_entered = False, mi_registered = False, mi_wired = False, mi_failed = None,
      mi_disposed = False, mi_releasing = None\<rparr>"

definition boot_failed :: "jstr \<Rightarrow> 'i mirror \<Rightarrow> 'i mirror_reaction" where
  "boot_failed e m =
     (m\<lparr>mi_tapped := False, mi_phase := BootFailed e\<rparr>,
      [Warned (js ''session \"'' @ mi_id m @ js ''\": mirror bootstrap failed: '' @ e), Threw e])"

definition diverged :: "jstr \<Rightarrow> int \<Rightarrow> int \<Rightarrow> jstr" where
  "diverged i expected got = js ''session \"'' @ i @ js ''\": history replay diverged (expected seq '' @
     num_text expected 0 @ js '', got '' @ num_text got 0 @ js '')''"

fun replay_history :: "'i mirror_env \<Rightarrow> jstr \<Rightarrow> session \<Rightarrow> mirrored_event list \<Rightarrow> session \<times> jstr option" where
  "replay_history E i s [] = (s, None)"
| "replay_history E i s (w # ws) =
     (if we_seq w \<noteq> session_seq s then (s, Some (diverged i (session_seq s) (we_seq w)))
      else case appendMirroredEvent (me_accepts E) (me_eligible E) s w of
             Inl e \<Rightarrow> (s, Some e)
           | Inr s' \<Rightarrow> replay_history E i s' ws)"

definition history_arrived :: "'i mirror_env \<Rightarrow> jstr + mirrored_event list \<Rightarrow> agent_status \<Rightarrow> 'i mirror \<Rightarrow> 'i mirror_reaction" where
  "history_arrived E r status m =
     (case r of
        Inl e \<Rightarrow> boot_failed e m
      | Inr events \<Rightarrow>
          (case replay_history E (mi_id m) (mi_session m) events of
             (s, Some e) \<Rightarrow> boot_failed e (m\<lparr>mi_session := s, mi_guarded := True\<rparr>)
           | (s, None) \<Rightarrow>
               (m\<lparr>mi_session := s, mi_guarded := True, mi_phase := BootSetup,
                  mi_facade := Some (RemoteAgentFacade (mi_id m) status (me_inbox E s))\<rparr>, [])))"

section \<open>Live events\<close>

definition mirror_fail :: "jstr \<Rightarrow> 'i mirror \<Rightarrow> 'i mirror_reaction" where
  "mirror_fail e m = (m\<lparr>mi_failed := Some e\<rparr>, [Warned e])"

definition breaks_mirror :: "jstr \<Rightarrow> int \<Rightarrow> int \<Rightarrow> jstr" where
  "breaks_mirror i got next = js ''session \"'' @ i @ js ''\": remote event seq '' @ num_text got 0 @
     js '' breaks the mirror (next local seq is '' @ num_text next 0 @ js ''); mirroring stopped''"

text \<open>The appends the guard lets through while its window is open; one that throws is lost.\<close>

definition append_all :: "validation \<Rightarrow> local_append list \<Rightarrow> session \<Rightarrow> session" where
  "append_all accepts rs s =
     fold (\<lambda>(ty, d, intent) s. case session_append accepts s ty d intent of Inl _ \<Rightarrow> s | Inr s' \<Rightarrow> s') rs s"

definition SPLICED :: jstr where
  "SPLICED = js ''agent/inbox/spliced''"

definition facade_do :: "('i facade \<Rightarrow> 'i facade_reaction) \<Rightarrow> 'i mirror \<Rightarrow> 'i mirror_reaction" where
  "facade_do k m =
     (case mi_facade m of
        None \<Rightarrow> (m, [])
      | Some f \<Rightarrow> (case k f of (f', out) \<Rightarrow> (m\<lparr>mi_facade := Some f'\<rparr>, map FacadeOut out)))"

definition appendEvent :: "'i mirror_env \<Rightarrow> 'i mirror \<Rightarrow> mirrored_event \<Rightarrow> 'i mirror_reaction" where
  "appendEvent E m w =
     (if mi_failed m \<noteq> None then (m, [])
      else if we_seq w \<noteq> session_seq (mi_session m) then
        mirror_fail (breaks_mirror (mi_id m) (we_seq w) (session_seq (mi_session m))) m
      else case appendMirroredEvent (me_accepts E) (me_eligible E) (mi_session m) w of
             Inl e \<Rightarrow> mirror_fail e m
           | Inr s \<Rightarrow>
               let m1 = m\<lparr>mi_session := append_all (me_accepts E) (me_listeners E s w) s\<rparr> in
               if we_type w = SPLICED then facade_do (\<lambda>f. feedInboxSplice (me_apply E) f (wire_data w)) m1
               else (m1, []))"

section \<open>Publication\<close>

text \<open>How publishing the session and the agent went, and where it threw.\<close>

datatype publication =
    Published | EnterThrows jstr | AnnounceThrows jstr | AgentEnterThrows jstr | AgentAnnounceThrows jstr
  | StartThrows jstr | WireThrows jstr

definition announced :: "'i mirror \<Rightarrow> 'i mirror" where
  "announced m = m\<lparr>mi_entered := True, mi_registered := True, mi_facade := map_option markAnnounced (mi_facade m)\<rparr>"

definition setup_done :: "'i mirror_env \<Rightarrow> jstr option \<Rightarrow> publication \<Rightarrow> 'i mirror \<Rightarrow> 'i mirror_reaction" where
  "setup_done E r pub m =
     (case r of
        Some e \<Rightarrow> boot_failed e m
      | None \<Rightarrow>
          (case pub of
             EnterThrows e \<Rightarrow> boot_failed e m
           | AnnounceThrows e \<Rightarrow> boot_failed e m
           | AgentEnterThrows e \<Rightarrow> boot_failed e (m\<lparr>mi_entered := True\<rparr>)
           | AgentAnnounceThrows e \<Rightarrow> boot_failed e m
           | StartThrows e \<Rightarrow> boot_failed e (announced m)
           | WireThrows e \<Rightarrow> boot_failed e (announced m)
           | Published \<Rightarrow>
               (case steps (appendEvent E) ((announced m)\<lparr>mi_wired := True, mi_phase := BootLive\<rparr>) (mi_buffered m) of
                  (m1, out) \<Rightarrow> (m1, out @ [Created]))))"

section \<open>Disposal\<close>

definition teardown :: "bool \<Rightarrow> 'i mirror \<Rightarrow> 'i mirror_reaction" where
  "teardown dropping m =
     (m\<lparr>mi_releasing := None, mi_wired := False, mi_tapped := False, mi_registered := False, mi_entered := False\<rparr>,
      Torn # (if dropping then [HandleDetach] else []))"

definition mirror_dispose :: "bool \<Rightarrow> bool \<Rightarrow> bool \<Rightarrow> 'i mirror \<Rightarrow> 'i mirror_reaction" where
  "mirror_dispose writer dropping release m =
     (if mi_disposed m then (m, [])
      else let m1 = m\<lparr>mi_disposed := True\<rparr> in
           if release \<and> writer then (m1\<lparr>mi_releasing := Some dropping\<rparr>, [ReleaseControl]) else teardown dropping m1)"

section \<open>All events\<close>

datatype mirror_event_in =
    Tap mirrored_event
  | HistoryRead "jstr + mirrored_event list" agent_status
  | SetupDone "jstr option" publication
  | LocalAppend jstr json "surface_intent option"
  | AgentEvent facade_event
  | DisposeCalled bool bool bool
  | ControlReleased

definition owned_remotely :: "jstr \<Rightarrow> jstr" where
  "owned_remotely i = js ''session \"'' @ i @
     js ''\" is a remote mirror: its log is owned by the remote host; local appends are rejected''"

text \<open>
  Nobody holds the session before the guard is installed: a fresh one is made right before, a prepared
  one belongs to the caller of \<open>create\<close>.
\<close>

fun mirror_step :: "'i mirror_env \<Rightarrow> 'i mirror \<Rightarrow> mirror_event_in \<Rightarrow> 'i mirror_reaction" where
  "mirror_step E m (Tap w) =
     (if \<not> mi_tapped m then (m, [])
      else if mi_phase m = BootLive then appendEvent E m w
      else (m\<lparr>mi_buffered := mi_buffered m @ [w]\<rparr>, []))"
| "mirror_step E m (HistoryRead r status) = (if mi_phase m = BootHistory then history_arrived E r status m else (m, []))"
| "mirror_step E m (SetupDone r pub) = (if mi_phase m = BootSetup then setup_done E r pub m else (m, []))"
| "mirror_step E m (LocalAppend ty d intent) = (m, if mi_guarded m then [AppendRejected (owned_remotely (mi_id m))] else [])"
| "mirror_step E m (AgentEvent fe) = facade_do (\<lambda>f. facade_step (me_apply E) f fe) m"
| "mirror_step E m (DisposeCalled writer dropping release) =
     (if mi_phase m = BootLive then mirror_dispose writer dropping release m else (m, []))"
| "mirror_step E m ControlReleased = (case mi_releasing m of None \<Rightarrow> (m, []) | Some dropping \<Rightarrow> teardown dropping m)"

section \<open>The local log is a prefix of the remote one\<close>

definition of_log :: "mirrored_event list \<Rightarrow> mirrored_event \<Rightarrow> bool" where
  "of_log R w \<longleftrightarrow> 0 \<le> we_seq w \<and> nat (we_seq w) < length R \<and> R ! nat (we_seq w) = w"

definition from_remote :: "mirrored_event list \<Rightarrow> mirror_event_in \<Rightarrow> bool" where
  "from_remote R ev \<longleftrightarrow> (case ev of Tap w \<Rightarrow> of_log R w | HistoryRead (Inr ws) _ \<Rightarrow> \<forall>w \<in> set ws. of_log R w | _ \<Rightarrow> True)"

text \<open>The abstraction: how much of the remote log the session holds.\<close>

definition holds :: "(jstr \<Rightarrow> bool) \<Rightarrow> mirrored_event list \<Rightarrow> nat \<Rightarrow> session \<Rightarrow> bool" where
  "holds eligible R n s \<longleftrightarrow> n \<le> length R \<and> ss_log s = map (mirror_event eligible) (take n R)"

lemma holds_seq: "holds el R n s \<Longrightarrow> session_seq s = int n"
  by (simp add: holds_def session_seq_def)

lemma holds_append:
  assumes "holds el R n s" "of_log R w" "we_seq w = session_seq s" "appendMirroredEvent accepts el s w = Inr s'"
  shows "holds el R (Suc n) s'"
proof -
  have "n < length R" "R ! n = w" using assms(2,3) holds_seq[OF assms(1)] by (simp_all add: of_log_def)
  then show ?thesis
    using assms(1) appendMirroredEvent_log[OF assms(4,3)] by (simp add: holds_def take_Suc_conv_app_nth)
qed

lemma replay_holds:
  assumes "holds (me_eligible E) R n s" "\<forall>w \<in> set ws. of_log R w"
  shows "\<exists>k. holds (me_eligible E) R k (fst (replay_history E i s ws))"
  using assms
proof (induction ws arbitrary: s n)
  case (Cons w ws)
  show ?case
  proof (cases "we_seq w = session_seq s")
    case True
    then show ?thesis
      using Cons.IH[OF holds_append[OF Cons.prems(1) _ True]] Cons.prems
      by (auto split: sum.split)
  qed (use Cons.prems in auto)
qed auto

definition mirrors :: "'i mirror_env \<Rightarrow> mirrored_event list \<Rightarrow> 'i mirror \<Rightarrow> bool" where
  "mirrors E R m \<longleftrightarrow> (\<exists>n. holds (me_eligible E) R n (mi_session m)) \<and> (\<forall>w \<in> set (mi_buffered m). of_log R w)"

lemma facade_do_frame [simp]:
  "mi_session (fst (facade_do k m)) = mi_session m" "mi_buffered (fst (facade_do k m)) = mi_buffered m"
  "mi_failed (fst (facade_do k m)) = mi_failed m" "mi_phase (fst (facade_do k m)) = mi_phase m"
  "mi_tapped (fst (facade_do k m)) = mi_tapped m" "mi_id (fst (facade_do k m)) = mi_id m"
  "mi_guarded (fst (facade_do k m)) = mi_guarded m"
  by (simp_all add: facade_do_def split: option.split prod.split)

definition silent :: "'i mirror_env \<Rightarrow> bool" where
  "silent E \<longleftrightarrow> (\<forall>s w. me_listeners E s w = [])"

lemma append_all_Nil [simp]: "append_all accepts [] s = s"
  by (simp add: append_all_def)

lemma appendEvent_mirrors:
  assumes "silent E" "mirrors E R m" "of_log R w"
  shows "mirrors E R (fst (appendEvent E m w))"
proof -
  obtain n where n: "holds (me_eligible E) R n (mi_session m)" using assms(2) by (auto simp: mirrors_def)
  show ?thesis
  proof (cases "mi_failed m = None \<and> we_seq w = session_seq (mi_session m)")
    case True
    show ?thesis
    proof (cases "appendMirroredEvent (me_accepts E) (me_eligible E) (mi_session m) w")
      case (Inl e)
      then show ?thesis using True assms(2) by (simp add: appendEvent_def mirror_fail_def mirrors_def)
    next
      case (Inr s)
      have "holds (me_eligible E) R (Suc n) s" by (rule holds_append[OF n assms(3) _ Inr]) (simp add: True)
      then show ?thesis
        using True Inr assms(1,2) by (auto simp: appendEvent_def Let_def silent_def mirrors_def)
    qed
  qed (use assms(2) in \<open>auto simp: appendEvent_def mirror_fail_def mirrors_def\<close>)
qed

lemma fst_steps_Cons: "fst (steps f s (x # xs)) = fst (steps f (fst (f s x)) xs)"
  by (simp split: prod.split)

lemma drain_mirrors:
  "silent E \<Longrightarrow> mirrors E R m \<Longrightarrow> \<forall>w \<in> set ws. of_log R w \<Longrightarrow> mirrors E R (fst (steps (appendEvent E) m ws))"
proof (induction ws arbitrary: m)
  case (Cons w ws)
  then show ?case using appendEvent_mirrors[of E R m w] by (simp add: fst_steps_Cons del: steps.simps)
qed simp

lemma boot_failed_frame [simp]:
  "mi_session (fst (boot_failed e m)) = mi_session m" "mi_buffered (fst (boot_failed e m)) = mi_buffered m"
  by (simp_all add: boot_failed_def)

lemma history_mirrors:
  assumes "mirrors E R m" "\<forall>ws. r = Inr ws \<longrightarrow> (\<forall>w \<in> set ws. of_log R w)"
  shows "mirrors E R (fst (history_arrived E r status m))"
proof (cases r)
  case (Inr ws)
  obtain s e where rep: "replay_history E (mi_id m) (mi_session m) ws = (s, e)" by (cases "replay_history E (mi_id m) (mi_session m) ws")
  have "\<exists>n. holds (me_eligible E) R n s"
    using assms replay_holds[of E R _ "mi_session m" ws "mi_id m"] rep Inr by (auto simp: mirrors_def)
  then show ?thesis using assms(1) Inr rep by (auto simp: history_arrived_def mirrors_def split: option.split)
qed (use assms(1) in \<open>simp add: history_arrived_def mirrors_def\<close>)

lemma setup_mirrors:
  assumes "silent E" "mirrors E R m"
  shows "mirrors E R (fst (setup_done E r pub m))"
proof (cases r)
  case None
  let ?m = "(announced m)\<lparr>mi_wired := True, mi_phase := BootLive\<rparr>"
  have "mirrors E R ?m" using assms(2) by (simp add: mirrors_def announced_def)
  moreover have "\<forall>w \<in> set (mi_buffered m). of_log R w" using assms(2) by (simp add: mirrors_def)
  ultimately have "mirrors E R (fst (steps (appendEvent E) ?m (mi_buffered m)))" by (rule drain_mirrors[OF assms(1)])
  moreover have "setup_done E None Published m = (fst (steps (appendEvent E) ?m (mi_buffered m)),
      snd (steps (appendEvent E) ?m (mi_buffered m)) @ [Created])"
    by (simp add: setup_done_def split: prod.split)
  ultimately have "mirrors E R (fst (setup_done E None Published m))" by simp
  then show ?thesis
    using None assms(2) by (cases pub) (simp_all add: setup_done_def[of E None "EnterThrows _"] setup_done_def[of E None "AnnounceThrows _"]
      setup_done_def[of E None "AgentEnterThrows _"] setup_done_def[of E None "AgentAnnounceThrows _"]
      setup_done_def[of E None "StartThrows _"] setup_done_def[of E None "WireThrows _"] mirrors_def announced_def)
qed (use assms(2) in \<open>simp add: setup_done_def mirrors_def\<close>)

lemma teardown_frame [simp]:
  "mi_session (fst (teardown d m)) = mi_session m" "mi_buffered (fst (teardown d m)) = mi_buffered m"
  by (simp_all add: teardown_def)

lemma dispose_frame [simp]:
  "mi_session (fst (mirror_dispose w d r m)) = mi_session m" "mi_buffered (fst (mirror_dispose w d r m)) = mi_buffered m"
  by (simp_all add: mirror_dispose_def Let_def)

lemma mirror_step_mirrors:
  assumes "silent E" "mirrors E R m" "from_remote R ev"
  shows "mirrors E R (fst (mirror_step E m ev))"
proof (cases ev)
  case (Tap w)
  then have "of_log R w" using assms(3) by (simp add: from_remote_def)
  then show ?thesis
    using Tap appendEvent_mirrors[OF assms(1,2)] assms(2) by (auto simp: mirrors_def)
next
  case (HistoryRead r status)
  then have "\<forall>ws. r = Inr ws \<longrightarrow> (\<forall>w \<in> set ws. of_log R w)" using assms(3) by (auto simp: from_remote_def)
  then show ?thesis using HistoryRead history_mirrors[OF assms(2)] assms(2) by simp
next
  case (SetupDone r pub)
  then show ?thesis using setup_mirrors[OF assms(1,2)] assms(2) by simp
next
  case ControlReleased
  then show ?thesis using assms(2) by (simp add: mirrors_def split: option.split)
qed (use assms(2) in \<open>simp_all add: mirrors_def\<close>)

definition mirror_inv :: "'i mirror_env \<Rightarrow> mirrored_event list \<Rightarrow> 'i mirror \<Rightarrow> mirror_event_in list \<Rightarrow> mirror_output list \<Rightarrow> bool" where
  "mirror_inv E R m g h \<longleftrightarrow> (silent E \<and> (\<forall>ev \<in> set g. from_remote R ev) \<longrightarrow> mirrors E R m)"

lemma mirror_kept:
  "mirror_inv E R m g h \<Longrightarrow> mirror_step E m ev = (m', out) \<Longrightarrow> mirror_inv E R m' (g @ [ev]) (h @ out)"
  using mirror_step_mirrors[of E R m ev] by (simp add: mirror_inv_def)

interpretation mirror_runs: reactive "mirror_step E" "mirror_inv E R"
  by unfold_locales (rule mirror_kept)

text \<open>
  C6: A mirror never holds anything but the remote log. Whatever the order in which history pages, live
  events, local appends of other plugins, calls of the agent, failures of publication and disposal
  arrive, the log of the local session is the translation of a prefix of the remote log, at the very
  same sequence numbers, as long as the listeners of \<^verbatim>\<open>session/event\<close> append nothing while an event is
  published.
\<close>

theorem mirror_holds_remote_prefix:
  assumes "silent E" and "\<forall>ev \<in> set es. from_remote R ev"
    and "\<forall>s. seed = Some s \<longrightarrow> (\<exists>k. holds (me_eligible E) R k s)"
    and "steps (mirror_step E) (mirror_create i seed) es = (m, out)"
  shows "\<exists>n \<le> length R. ss_log (mi_session m) = map (mirror_event (me_eligible E)) (take n R)"
proof -
  have "\<exists>k. holds (me_eligible E) R k (mi_session (mirror_create i seed :: 'a mirror))"
    using assms(3) by (cases seed) (auto simp: mirror_create_def holds_def intro: exI[of _ "0::nat"])
  then have "mirror_inv E R (mirror_create i seed) [] []" by (simp add: mirror_inv_def mirrors_def mirror_create_def)
  from mirror_runs.always[OF this assms(4)] have "mirrors E R m" using assms(1,2) by (simp add: mirror_inv_def)
  then show ?thesis by (auto simp: mirrors_def holds_def)
qed

section \<open>Going live\<close>

definition permissive :: "'i mirror_env \<Rightarrow> bool" where
  "permissive E \<longleftrightarrow> (\<forall>s ty d i. me_accepts E s ty d i = None)"

lemma appendEvent_next:
  assumes "silent E" "permissive E" "mi_failed m = None" "holds (me_eligible E) R n (mi_session m)" "n < length R" "we_seq (R ! n) = int n"
  shows "mi_failed (fst (appendEvent E m (R ! n))) = None \<and>
    holds (me_eligible E) R (Suc n) (mi_session (fst (appendEvent E m (R ! n)))) \<and>
    mi_phase (fst (appendEvent E m (R ! n))) = mi_phase m"
proof -
  have seq: "we_seq (R ! n) = session_seq (mi_session m)" using assms(4,6) by (simp add: holds_seq)
  obtain s where s: "appendMirroredEvent (me_accepts E) (me_eligible E) (mi_session m) (R ! n) = Inr s"
    using assms(2) by (simp add: appendMirroredEvent_def session_append_def permissive_def)
  have "of_log R (R ! n)" using assms(5,6) by (simp add: of_log_def)
  then have "holds (me_eligible E) R (Suc n) s" using holds_append[OF assms(4) _ seq s] by simp
  then show ?thesis using assms(1,3) seq s by (simp add: appendEvent_def Let_def silent_def)
qed

lemma drain_next:
  assumes "silent E" "permissive E" "contiguous 0 R"
  shows "mi_failed m = None \<Longrightarrow> holds (me_eligible E) R n (mi_session m) \<Longrightarrow> n + l \<le> length R \<Longrightarrow>
    mi_failed (fst (steps (appendEvent E) m (take l (drop n R)))) = None \<and>
    holds (me_eligible E) R (n + l) (mi_session (fst (steps (appendEvent E) m (take l (drop n R))))) \<and>
    mi_phase (fst (steps (appendEvent E) m (take l (drop n R)))) = mi_phase m"
proof (induction l arbitrary: m n)
  case (Suc l)
  have "n < length R" using Suc.prems(3) by simp
  then have d: "take (Suc l) (drop n R) = R ! n # take l (drop (Suc n) R)" by (simp add: Cons_nth_drop_Suc[symmetric])
  have "we_seq (R ! n) = int n" using assms(3) \<open>n < length R\<close> by (simp add: contiguous_def)
  note a = appendEvent_next[OF assms(1,2) Suc.prems(1,2) \<open>n < length R\<close> this]
  then show ?case using Suc.IH[of "fst (appendEvent E m (R ! n))" "Suc n"] Suc.prems(3) by (simp add: d fst_steps_Cons del: steps.simps)
qed simp

lemma frozen_append: "mi_failed m \<noteq> None \<Longrightarrow> appendEvent E m w = (m, [])"
  by (simp add: appendEvent_def)

lemma frozen_drain: "mi_failed m \<noteq> None \<Longrightarrow> fst (steps (appendEvent E) m ws) = m"
  by (induction ws) (simp_all add: frozen_append split: prod.split)

lemma frozen_step:
  assumes "mi_failed m \<noteq> None" "mi_phase m = BootLive"
  shows "mi_failed (fst (mirror_step E m ev)) \<noteq> None \<and> mi_phase (fst (mirror_step E m ev)) = BootLive \<and>
    mi_session (fst (mirror_step E m ev)) = mi_session m"
  using assms
  by (cases ev) (auto simp: frozen_append mirror_dispose_def teardown_def Let_def split: option.split)

lemma frozen_steps:
  "mi_failed m \<noteq> None \<Longrightarrow> mi_phase m = BootLive \<Longrightarrow> mi_session (fst (steps (mirror_step E) m es)) = mi_session m"
proof (induction es arbitrary: m)
  case (Cons ev es)
  then show ?case using frozen_step[OF Cons.prems, of E ev] by (simp add: fst_steps_Cons del: steps.simps mirror_step.simps)
qed simp


section \<open>From the history method of the backend to the local session\<close>

lemma replay_copies:
  assumes "permissive E" "contiguous 0 R"
  shows "holds (me_eligible E) R n s \<Longrightarrow> n + l \<le> length R \<Longrightarrow>
    \<exists>s'. replay_history E i s (take l (drop n R)) = (s', None) \<and> holds (me_eligible E) R (n + l) s'"
proof (induction l arbitrary: s n)
  case (Suc l)
  have n: "n < length R" using Suc.prems(2) by simp
  then have d: "take (Suc l) (drop n R) = R ! n # take l (drop (Suc n) R)" by (simp add: Cons_nth_drop_Suc[symmetric])
  have seq: "we_seq (R ! n) = session_seq s" using assms(2) n Suc.prems(1) by (simp add: contiguous_def holds_seq)
  have log: "of_log R (R ! n)" using assms(2) n by (simp add: of_log_def contiguous_def)
  obtain s1 where s1: "appendMirroredEvent (me_accepts E) (me_eligible E) s (R ! n) = Inr s1"
    using assms(1) by (simp add: appendMirroredEvent_def session_append_def permissive_def)
  from Suc.IH[OF holds_append[OF Suc.prems(1) log seq s1]] show ?case using Suc.prems(2) seq s1 by (simp add: d)
qed simp


section \<open>Where the guard and the bootstrap leave gaps\<close>

definition sample_env :: "local_append list \<Rightarrow> unit mirror_env" where
  "sample_env rs = \<lparr>me_accepts = \<lambda>_ _ _ _. None, me_eligible = \<lambda>_. False, me_inbox = \<lambda>_. (),
     me_apply = \<lambda>i d. Inr (i, []), me_listeners = \<lambda>_ _. rs\<rparr>"

definition sample_wire :: "int \<Rightarrow> mirrored_event" where
  "sample_wire n = \<lparr>we_type = js ''turn/start'', we_seq = n, we_time = 0, we_data = None, we_ignorable = False,
     mw_surfaceOp = None, mw_sourceEventSeqs = None\<rparr>"

lemma sample_not_spliced: "js ''turn/start'' \<noteq> SPLICED"
  by (simp add: SPLICED_def)

lemmas sample_run_defs = sample_env_def sample_wire_def sample_not_spliced mirror_create_def history_arrived_def
  setup_done_def announced_def appendEvent_def mirror_fail_def appendMirroredEvent_def session_append_def
  session_seq_def append_all_def RemoteAgentFacade_def markAnnounced_def wire_data_def wire_intent_def mirror_event_def

text \<open>
  A listener that appends while an event is published is inside the window of the guard: its append
  is taken and the next remote event freezes the mirror.
\<close>

lemma listener_append_corrupts_mirror:
  fixes E :: "unit mirror_env"
  defines "E \<equiv> sample_env [(js ''session/title'', JNull, None)]"
  shows "\<exists>m out. steps (mirror_step E) (mirror_create (js ''s'') None)
      [HistoryRead (Inr []) AgentIdle, SetupDone None Published, Tap (sample_wire 0), Tap (sample_wire 1)] = (m, out) \<and>
    map le_type (ss_log (mi_session m)) = [js ''turn/start'', js ''session/title''] \<and> mi_failed m \<noteq> None"
  by (simp add: E_def sample_run_defs)

text \<open>When the registry refuses the agent, the session that was announced stays in the store.\<close>

lemma refused_agent_leaves_session:
  "\<exists>m out. steps (mirror_step (sample_env [])) (mirror_create (js ''s'') None)
      [HistoryRead (Inr []) AgentIdle, SetupDone None (AgentEnterThrows e)] = (m, out) \<and>
    mi_phase m = BootFailed e \<and> mi_entered m"
  by (simp add: sample_run_defs boot_failed_def)

section \<open>Samples\<close>

lemma mirror_holds_remote_prefix_witness:
  "\<exists>m out. steps (mirror_step (sample_env [])) (mirror_create (js ''s'') None)
      [HistoryRead (Inr [sample_wire 0]) AgentIdle, SetupDone None Published, LocalAppend (js ''x'') JNull None, Tap (sample_wire 1)] = (m, out) \<and>
    length (ss_log (mi_session m)) = 2 \<and>
    (\<exists>n \<le> 2. ss_log (mi_session m) = map (mirror_event (\<lambda>_. False)) (take n [sample_wire 0, sample_wire 1]))"
proof -
  let ?es = "[HistoryRead (Inr [sample_wire 0]) AgentIdle, SetupDone None Published, LocalAppend (js ''x'') JNull None, Tap (sample_wire 1)]"
  obtain m out where x: "steps (mirror_step (sample_env [])) (mirror_create (js ''s'') None) ?es = (m, out)"
    by (cases "steps (mirror_step (sample_env [])) (mirror_create (js ''s'') None) ?es")
  have "\<exists>n \<le> length [sample_wire 0, sample_wire 1]. ss_log (mi_session m) = map (mirror_event (me_eligible (sample_env []))) (take n [sample_wire 0, sample_wire 1])"
    by (rule mirror_holds_remote_prefix[OF _ _ _ x]) (simp_all add: silent_def sample_env_def from_remote_def of_log_def sample_wire_def)
  moreover have "length (ss_log (mi_session m)) = 2" using x by (auto simp: sample_run_defs)
  moreover have "me_eligible (sample_env []) = (\<lambda>_. False)" by (simp add: sample_env_def)
  ultimately show ?thesis using x by auto
qed



end
