(* ===== verification/ProxyBridges.thy ===== *)
theory ProxyBridges
  imports Protocol "HOL-Library.Multiset"
begin

text \<open>
  \<^verbatim>\<open>remote-proxy/src/bridges.ts\<close>: approvals and questions of the remote host, shown by the local user
  interface and answered to the remote one. The local waterfall and the local question service are the
  host application's; what they return is in the events.
\<close>

section \<open>State\<close>

record bridges =
  ib_wired :: "(jstr \<times> bool) list"
  ib_surfaced :: "(jstr \<times> jstr list) list"
  ib_approving :: "approval_request_params list"
  ib_asking :: "question_request_params list"

definition InteractionBridges :: bridges where
  "InteractionBridges = \<lparr>ib_wired = [], ib_surfaced = [], ib_approving = [], ib_asking = []\<rparr>"

record local_approval =
  la_toolName :: jstr
  la_reason :: jstr

record local_option =
  lo_label :: jstr
  lo_description :: "jstr option"

record local_question =
  lq_id :: jstr
  lq_question :: jstr
  lq_detail :: "jstr option"
  lq_header :: "jstr option"
  lq_multiSelect :: "bool option"
  lq_intent :: "question_intent option"
  lq_options :: "local_option list option"

record local_answer =
  an_id :: jstr
  an_selected :: "jstr list"
  an_custom :: "jstr option"

datatype bridge_output =
    Waterfall approval_request_params local_approval
  | AnswerApproval approval_request_params decision "jstr option"
  | AskLocal question_request_params "local_question list"
  | AnswerQuestion question_request_params answers
  | LeftPending question_request_params

section \<open>Wiring\<close>

definition bridge_unwire :: "jstr \<Rightarrow> bridges \<Rightarrow> bridges" where
  "bridge_unwire s b = b\<lparr>ib_wired := AList.delete s (ib_wired b), ib_surfaced := AList.delete s (ib_surfaced b)\<rparr>"

definition bridge_wire :: "jstr \<Rightarrow> bool \<Rightarrow> bridges \<Rightarrow> bridges" where
  "bridge_wire s questions b =
     (let b1 = bridge_unwire s b in b1\<lparr>ib_wired := AList.update s questions (ib_wired b1)\<rparr>)"

definition surfaced_in :: "bridges \<Rightarrow> jstr \<Rightarrow> jstr list" where
  "surfaced_in b s = (case map_of (ib_surfaced b) s of None \<Rightarrow> [] | Some ids \<Rightarrow> ids)"

definition claim :: "jstr \<Rightarrow> jstr \<Rightarrow> bridges \<Rightarrow> bridges option" where
  "claim s i b =
     (if i \<in> set (surfaced_in b s) then None
      else Some (b\<lparr>ib_surfaced := AList.update s (surfaced_in b s @ [i]) (ib_surfaced b)\<rparr>))"

section \<open>Approvals\<close>

definition safeDetail :: "json \<Rightarrow> jstr" where
  "safeDetail d = (let t = stringify d in if length t > 500 then take 500 t @ [8230] else t)"

definition local_request :: "approval_request_params \<Rightarrow> local_approval" where
  "local_request req =
     \<lparr>la_toolName = aq_kind req,
      la_reason = (case aq_detail req of None \<Rightarrow> aq_summary req | Some d \<Rightarrow> aq_summary req @ [10] @ safeDetail d)\<rparr>"

definition approval_key :: "approval_request_params \<Rightarrow> jstr" where
  "approval_key req = js ''approval:'' @ aq_requestId req"

definition bridge_onApproval :: "approval_request_params \<Rightarrow> bridges \<Rightarrow> bridges \<times> bridge_output list" where
  "bridge_onApproval req b =
     (case claim (aq_sessionId req) (approval_key req) b of
        None \<Rightarrow> (b, [])
      | Some b1 \<Rightarrow> (b1\<lparr>ib_approving := ib_approving b1 @ [req]\<rparr>, [Waterfall req (local_request req)]))"

definition OUTCOMES :: "jstr list" where
  "OUTCOMES = map js [''allowed-once'', ''rejected'', ''cancelled'', ''unavailable'']"

text \<open>What the waterfall resolved with; \<open>None\<close>: it threw.\<close>

definition outcome_of :: "jstr option \<Rightarrow> jstr" where
  "outcome_of r = (case r of None \<Rightarrow> js ''unavailable'' | Some v \<Rightarrow> if v \<in> set OUTCOMES then v else js ''unavailable'')"

definition waterfall_done :: "approval_request_params \<Rightarrow> jstr option \<Rightarrow> bridges \<Rightarrow> bridges \<times> bridge_output list" where
  "waterfall_done req r b =
     (if req \<notin> set (ib_approving b) then (b, [])
      else let outcome = outcome_of r in
           (b\<lparr>ib_approving := remove1 req (ib_approving b)\<rparr>,
            [AnswerApproval req (if outcome = js ''allowed-once'' then Approve else Deny)
              (if outcome = js ''allowed-once'' \<or> outcome = js ''rejected'' then None
               else Some (js ''local approval outcome: '' @ outcome))]))"

section \<open>Questions\<close>

definition local_item :: "question_item \<Rightarrow> local_question" where
  "local_item item =
     \<lparr>lq_id = qm_id item, lq_question = qm_question item, lq_detail = qm_detail item, lq_header = qm_header item,
      lq_multiSelect = qm_multiSelect item, lq_intent = qm_intent item,
      lq_options = (if qm_options item = [] then None
        else Some (map (\<lambda>x. \<lparr>lo_label = qo_label x, lo_description = qo_description x\<rparr>) (qm_options item)))\<rparr>"

definition option_id :: "question_item \<Rightarrow> jstr \<Rightarrow> jstr" where
  "option_id item label = (case List.find (\<lambda>x. qo_label x = label) (qm_options item) of Some x \<Rightarrow> qo_id x | None \<Rightarrow> label)"

definition wire_answer :: "question_item \<Rightarrow> local_answer \<Rightarrow> answer_value" where
  "wire_answer item entry =
     (let ids = map (option_id item) (an_selected entry) in
      if qm_multiSelect item = Some True then ManyAnswers (case an_custom entry of None \<Rightarrow> ids | Some c \<Rightarrow> ids @ [c])
      else OneAnswer (case ids of i # _ \<Rightarrow> i | [] \<Rightarrow> (case an_custom entry of Some c \<Rightarrow> c | None \<Rightarrow> [])))"

definition toWireAnswers :: "question_item list \<Rightarrow> local_answer list \<Rightarrow> answers" where
  "toWireAnswers items answers =
     fold (\<lambda>item out. case List.find (\<lambda>a. an_id a = qm_id item) answers of
             None \<Rightarrow> out
           | Some entry \<Rightarrow> AList.update (qm_id item) (wire_answer item entry) out) items []"

definition question_key :: "question_request_params \<Rightarrow> jstr" where
  "question_key req = js ''question:'' @ qq_questionId req"

definition bridge_onQuestion :: "question_request_params \<Rightarrow> bool \<Rightarrow> bridges \<Rightarrow> bridges \<times> bridge_output list" where
  "bridge_onQuestion req service b =
     (case claim (qq_sessionId req) (question_key req) b of
        None \<Rightarrow> (b, [])
      | Some b1 \<Rightarrow>
          if \<not> service then (b1, [LeftPending req])
          else (b1\<lparr>ib_asking := ib_asking b1 @ [req]\<rparr>, [AskLocal req (map local_item (qq_items req))]))"

text \<open>What the local question service answered; \<open>None\<close>: it threw.\<close>

definition ask_done :: "question_request_params \<Rightarrow> local_answer list option \<Rightarrow> bridges \<Rightarrow> bridges \<times> bridge_output list" where
  "ask_done req r b =
     (if req \<notin> set (ib_asking b) then (b, [])
      else (b\<lparr>ib_asking := remove1 req (ib_asking b)\<rparr>,
            case r of None \<Rightarrow> [LeftPending req] | Some answers \<Rightarrow> [AnswerQuestion req (toWireAnswers (qq_items req) answers)]))"

section \<open>All events\<close>

datatype bridge_event =
    WireSession jstr bool
  | UnwireSession jstr
  | ApprovalRequested approval_request_params
  | WaterfallDone approval_request_params "jstr option"
  | QuestionRequested question_request_params bool
  | AskDone question_request_params "local_answer list option"

fun bridge_step :: "bridges \<Rightarrow> bridge_event \<Rightarrow> bridges \<times> bridge_output list" where
  "bridge_step b (WireSession s questions) = (bridge_wire s questions b, [])"
| "bridge_step b (UnwireSession s) = (bridge_unwire s b, [])"
| "bridge_step b (ApprovalRequested req) =
     (if map_of (ib_wired b) (aq_sessionId req) = None then (b, []) else bridge_onApproval req b)"
| "bridge_step b (WaterfallDone req r) = waterfall_done req r b"
| "bridge_step b (QuestionRequested req service) =
     (if map_of (ib_wired b) (qq_sessionId req) \<noteq> Some True then (b, []) else bridge_onQuestion req service b)"
| "bridge_step b (AskDone req r) = ask_done req r b"

section \<open>Approvals fail closed\<close>

definition shown :: "bridge_output list \<Rightarrow> approval_request_params list" where
  "shown out = concat (map (\<lambda>c. case c of Waterfall req _ \<Rightarrow> [req] | _ \<Rightarrow> []) out)"

definition answered :: "bridge_output list \<Rightarrow> approval_request_params list" where
  "answered out = concat (map (\<lambda>c. case c of AnswerApproval req _ _ \<Rightarrow> [req] | _ \<Rightarrow> []) out)"

lemma shown_simps [simp]:
  "shown [] = []" "shown (x @ y) = shown x @ shown y" "shown [Waterfall req l] = [req]" "shown [AnswerApproval req d n] = []"
  "shown [AskLocal q k] = []" "shown [AnswerQuestion q a] = []" "shown [LeftPending q] = []"
  by (simp_all add: shown_def)

lemma answered_simps [simp]:
  "answered [] = []" "answered (x @ y) = answered x @ answered y" "answered [Waterfall req l] = []"
  "answered [AnswerApproval req d n] = [req]" "answered [AskLocal q k] = []" "answered [AnswerQuestion q a] = []"
  "answered [LeftPending q] = []"
  by (simp_all add: answered_def)

lemmas bridge_defs = bridge_wire_def bridge_unwire_def bridge_onApproval_def waterfall_done_def bridge_onQuestion_def
  ask_done_def claim_def Let_def

definition approval_inv :: "bridges \<Rightarrow> bridge_event list \<Rightarrow> bridge_output list \<Rightarrow> bool" where
  "approval_inv b g h \<longleftrightarrow>
     mset (answered h) + mset (ib_approving b) = mset (shown h) \<and>
     (\<forall>req n. AnswerApproval req Approve n \<in> set h \<longrightarrow> WaterfallDone req (Some (js ''allowed-once'')) \<in> set g)"

lemma outcome_allowed: "outcome_of r = js ''allowed-once'' \<longleftrightarrow> r = Some (js ''allowed-once'')"
  by (auto simp: outcome_of_def OUTCOMES_def split: option.splits)

lemma bridge_step_approval:
  assumes "approval_inv b g h" "bridge_step b ev = (b', out)"
  shows "approval_inv b' (g @ [ev]) (h @ out)"
proof (cases ev)
  case (WaterfallDone req r)
  show ?thesis
  proof (cases "req \<in> set (ib_approving b)")
    case True
    have "mset (answered h) + mset (ib_approving b) = mset (shown h)" using assms(1) by (simp add: approval_inv_def)
    then have "req \<in># mset (shown h)" using True by (metis union_iff set_mset_mset)
    then have "add_mset req (mset (shown h) - {#req#}) = mset (shown h)" by (rule insert_DiffM)
    then show ?thesis
      using assms WaterfallDone True
      by (auto simp: approval_inv_def bridge_defs outcome_allowed split: if_splits)
  qed (use assms WaterfallDone in \<open>auto simp: approval_inv_def bridge_defs\<close>)
qed (use assms in \<open>auto simp: approval_inv_def bridge_defs split: option.splits if_splits\<close>)

interpretation bridge_approvals: reactive bridge_step approval_inv
  by unfold_locales (rule bridge_step_approval)

section \<open>Nothing is shown twice\<close>

definition shown_in :: "jstr \<Rightarrow> bridge_output list \<Rightarrow> approval_request_params list" where
  "shown_in s out = filter (\<lambda>req. aq_sessionId req = s) (shown out)"

lemma shown_in_simps [simp]: "shown_in s [] = []" "shown_in s (x @ y) = shown_in s x @ shown_in s y"
  by (simp_all add: shown_in_def)

definition rewires :: "jstr \<Rightarrow> bridge_event \<Rightarrow> bool" where
  "rewires s ev \<longleftrightarrow> (case ev of WireSession t _ \<Rightarrow> t = s | UnwireSession t \<Rightarrow> t = s | _ \<Rightarrow> False)"

definition shown_inv :: "jstr \<Rightarrow> bridges \<Rightarrow> bridge_event list \<Rightarrow> bridge_output list \<Rightarrow> bool" where
  "shown_inv s b g h \<longleftrightarrow> ((\<forall>ev \<in> set g. \<not> rewires s ev) \<longrightarrow>
     distinct (map approval_key (shown_in s h)) \<and> approval_key ` set (shown_in s h) \<subseteq> set (surfaced_in b s))"

lemma claim_Some:
  assumes "claim t i b = Some b1"
  shows "i \<notin> set (surfaced_in b t) \<and> set (surfaced_in b1 t) = insert i (set (surfaced_in b t)) \<and>
    (\<forall>s. s \<noteq> t \<longrightarrow> surfaced_in b1 s = surfaced_in b s)"
  using assms by (auto simp: claim_def surfaced_in_def split: if_splits option.splits)

lemma surfaced_in_frame: "ib_surfaced b' = ib_surfaced b \<Longrightarrow> surfaced_in b' s = surfaced_in b s"
  by (simp add: surfaced_in_def)

lemma bridge_step_shown:
  assumes "shown_inv s b g h" "bridge_step b ev = (b', out)"
  shows "shown_inv s b' (g @ [ev]) (h @ out)"
proof (cases "(\<forall>ev \<in> set g. \<not> rewires s ev) \<and> \<not> rewires s ev")
  case True
  then have inv: "distinct (map approval_key (shown_in s h))" "approval_key ` set (shown_in s h) \<subseteq> set (surfaced_in b s)"
    using assms(1) by (simp_all add: shown_inv_def)
  have "distinct (map approval_key (shown_in s (h @ out))) \<and> approval_key ` set (shown_in s (h @ out)) \<subseteq> set (surfaced_in b' s)"
  proof (cases ev)
    case (WireSession t q)
    then have "surfaced_in b' s = surfaced_in b s" "out = []"
      using assms(2) True by (auto simp: bridge_defs surfaced_in_def rewires_def)
    then show ?thesis using inv by simp
  next
    case (UnwireSession t)
    then have "surfaced_in b' s = surfaced_in b s" "out = []"
      using assms(2) True by (auto simp: bridge_defs surfaced_in_def rewires_def)
    then show ?thesis using inv by simp
  next
    case (ApprovalRequested req)
    show ?thesis
    proof (cases "out = []")
      case True
      then have "b' = b" using assms(2) ApprovalRequested by (auto simp: bridge_onApproval_def split: if_splits option.splits)
      then show ?thesis using inv True by simp
    next
      case False
      then obtain b1 where c: "claim (aq_sessionId req) (approval_key req) b = Some b1"
        and o: "out = [Waterfall req (local_request req)]" "ib_surfaced b' = ib_surfaced b1"
        using assms(2) ApprovalRequested by (auto simp: bridge_onApproval_def split: if_splits option.splits)
      have "surfaced_in b' s = surfaced_in b1 s" using o(2) by (rule surfaced_in_frame)
      then show ?thesis
        using inv claim_Some[OF c] o(1) by (auto simp: shown_in_def)
    qed
  next
    case (QuestionRequested req service)
    have "shown out = [] \<and> set (surfaced_in b s) \<subseteq> set (surfaced_in b' s)"
    proof (cases "claim (qq_sessionId req) (question_key req) b")
      case (Some b1)
      have "set (surfaced_in b s) \<subseteq> set (surfaced_in b1 s)" using claim_Some[OF Some] by (cases "s = qq_sessionId req") auto
      moreover have "shown out = [] \<and> (b' = b \<or> ib_surfaced b' = ib_surfaced b1)"
        using assms(2) QuestionRequested Some by (auto simp: bridge_onQuestion_def split: if_splits)
      ultimately show ?thesis using surfaced_in_frame[of b' b1 s] by auto
    qed (use assms(2) QuestionRequested in \<open>auto simp: bridge_onQuestion_def split: if_splits\<close>)
    then show ?thesis using inv by (auto simp: shown_in_def)
  next
    case (WaterfallDone req r)
    then have "ib_surfaced b' = ib_surfaced b" "shown out = []" using assms(2) by (auto simp: bridge_defs split: if_splits)
    then show ?thesis using inv surfaced_in_frame[of b' b s] by (simp add: shown_in_def)
  next
    case (AskDone req r)
    then have "ib_surfaced b' = ib_surfaced b" "shown out = []" using assms(2) by (auto simp: bridge_defs split: if_splits option.splits)
    then show ?thesis using inv surfaced_in_frame[of b' b s] by (simp add: shown_in_def)
  qed
  then show ?thesis by (simp add: shown_inv_def)
qed (auto simp: shown_inv_def)

interpretation bridge_shown: reactive bridge_step "shown_inv s"
  by unfold_locales (rule bridge_step_shown)

text \<open>
  C12: Approvals fail closed and are shown once. In every run the answers sent to the remote host are
  answers to requests that were shown to the local user, at most one for each showing; the host is told to
  go on only when the local waterfall resolved with exactly \<^verbatim>\<open>allowed-once\<close>; and for as long as a
  session is not wired again, no request of it is shown twice, however often it is replayed.
\<close>

theorem approvals_fail_closed:
  assumes "steps bridge_step InteractionBridges es = (b, out)" and "steps bridge_step b fs = (b', out')"
  shows "mset (answered out) + mset (ib_approving b) = mset (shown out) \<and>
    (\<forall>req n. AnswerApproval req Approve n \<in> set out \<longrightarrow> WaterfallDone req (Some (js ''allowed-once'')) \<in> set es) \<and>
    ((\<forall>ev \<in> set fs. \<not> rewires s ev) \<longrightarrow> distinct (map aq_requestId (shown_in s out')))"
proof -
  have "approval_inv InteractionBridges [] []" by (simp add: approval_inv_def InteractionBridges_def)
  from bridge_approvals.always[OF this assms(1)] have "approval_inv b es out" by simp
  moreover have "shown_inv s b [] []" by (simp add: shown_inv_def)
  from bridge_shown.always[OF this assms(2)] have "shown_inv s b' fs out'" by simp
  moreover have "distinct (map approval_key rs) \<Longrightarrow> distinct (map aq_requestId rs)" for rs
    by (simp add: distinct_map inj_on_def approval_key_def)
  ultimately show ?thesis by (simp add: approval_inv_def shown_inv_def)
qed

section \<open>Answers to questions\<close>

lemma find_label:
  "distinct (map qo_label opts) \<Longrightarrow> x \<in> set opts \<Longrightarrow> List.find (\<lambda>y. qo_label y = qo_label x) opts = Some x"
  by (induction opts) auto

lemma toWireAnswers_map_of:
  assumes "distinct (map qm_id items)" "item \<in> set items"
  shows "map_of (toWireAnswers items answers) (qm_id item) =
    map_option (wire_answer item) (List.find (\<lambda>a. an_id a = qm_id item) answers)"
proof -
  let ?f = "\<lambda>item out. case List.find (\<lambda>a. an_id a = qm_id item) answers of None \<Rightarrow> out
     | Some entry \<Rightarrow> AList.update (qm_id item) (wire_answer item entry) out"
  have other: "map_of (fold ?f xs out) i = map_of out i" if "i \<notin> qm_id ` set xs" for xs out i
    using that by (induction xs arbitrary: out) (auto split: option.split)
  have "map_of (fold ?f items out) (qm_id item) =
      (case List.find (\<lambda>a. an_id a = qm_id item) answers of None \<Rightarrow> map_of out (qm_id item) | Some e \<Rightarrow> Some (wire_answer item e))" for out
    using assms
  proof (induction items arbitrary: out)
    case (Cons x xs)
    show ?case
    proof (cases "x = item")
      case True
      then have "qm_id item \<notin> qm_id ` set xs" using Cons.prems(1) by simp
      then show ?thesis using True by (simp add: other split: option.split)
    next
      case False
      then have i: "item \<in> set xs" "qm_id x \<noteq> qm_id item" using Cons.prems by auto
      then show ?thesis using Cons.IH[OF _ i(1)] Cons.prems(1) by (auto split: option.split)
    qed
  qed simp
  then show ?thesis by (simp add: toWireAnswers_def split: option.split)
qed

text \<open>
  What the user picks is what the remote host is told. When the questions have different ids and the
  options of a question different labels, picking options of it by their labels sends exactly the ids of
  these options, in the order picked, with the free text after them for a question of many answers, and
  the first of them, or the free text when nothing was picked, for a question of one.
\<close>

theorem picked_options_reach_host:
  assumes "distinct (map qm_id items)" "item \<in> set items" "distinct (map qo_label (qm_options item))"
    and "set opts \<subseteq> set (qm_options item)"
    and "List.find (\<lambda>a. an_id a = qm_id item) answers = Some \<lparr>an_id = i, an_selected = map qo_label opts, an_custom = c\<rparr>"
  shows "map_of (toWireAnswers items answers) (qm_id item) = Some
    (if qm_multiSelect item = Some True then ManyAnswers (map qo_id opts @ (case c of None \<Rightarrow> [] | Some t \<Rightarrow> [t]))
     else OneAnswer (case opts of x # _ \<Rightarrow> qo_id x | [] \<Rightarrow> (case c of Some t \<Rightarrow> t | None \<Rightarrow> [])))"
proof -
  have "map (option_id item) (map qo_label opts) = map qo_id opts"
    using find_label[OF assms(3)] assms(4) by (auto simp: option_id_def)
  then show ?thesis
    using assms(5) toWireAnswers_map_of[OF assms(1,2)]
    by (simp add: wire_answer_def Let_def split: option.split list.split)
qed

section \<open>Samples\<close>

definition sample_approval :: approval_request_params where
  "sample_approval = \<lparr>aq_requestId = js ''r'', aq_sessionId = js ''s'', aq_kind = js ''bash'', aq_summary = js ''ls'', aq_detail = None\<rparr>"

lemma approvals_fail_closed_witness:
  "\<exists>b out. steps bridge_step InteractionBridges [WireSession (js ''s'') False, ApprovalRequested sample_approval,
       WaterfallDone sample_approval (Some (js ''allowed-always''))] = (b, out) \<and>
     mset (answered out) + mset (ib_approving b) = mset (shown out) \<and> answered out = [sample_approval] \<and>
     (\<forall>n. AnswerApproval sample_approval Approve n \<notin> set out)"
proof -
  let ?es = "[WireSession (js ''s'') False, ApprovalRequested sample_approval, WaterfallDone sample_approval (Some (js ''allowed-always''))]"
  obtain b out where x: "steps bridge_step InteractionBridges ?es = (b, out)" by (cases "steps bridge_step InteractionBridges ?es")
  have y: "steps bridge_step b [] = (b, [])" by simp
  have "answered out = [sample_approval]"
    using x by (auto simp: bridge_defs InteractionBridges_def sample_approval_def surfaced_in_def answered_def)
  moreover have "WaterfallDone sample_approval (Some (js ''allowed-once'')) \<notin> set ?es" by simp
  ultimately show ?thesis using approvals_fail_closed[OF x y] x by blast
qed

lemma picked_options_reach_host_witness:
  fixes a b item
  defines "a \<equiv> \<lparr>qo_id = js ''1'', qo_label = js ''yes'', qo_description = None\<rparr>"
    and "b \<equiv> \<lparr>qo_id = js ''2'', qo_label = js ''no'', qo_description = None\<rparr>"
  defines "item \<equiv> \<lparr>qm_id = js ''q'', qm_question = [], qm_detail = None, qm_header = None, qm_multiSelect = None,
    qm_intent = None, qm_options = [a, b]\<rparr>"
  shows "map_of (toWireAnswers [item] [\<lparr>an_id = js ''q'', an_selected = [js ''no''], an_custom = None\<rparr>]) (js ''q'') = Some (OneAnswer (js ''2''))"
  using picked_options_reach_host[of "[item]" item "[b]" "[\<lparr>an_id = js ''q'', an_selected = [js ''no''], an_custom = None\<rparr>]" "js ''q''" None]
  by (simp add: item_def a_def b_def)

end
