(* ===== verification/RemotePersistence.thy ===== *)
theory RemotePersistence
  imports MirrorEvents
begin

text \<open>
  \<^verbatim>\<open>remote-proxy/src/persistence.ts\<close>: the local session persistence, which reads cold sessions from the
  remote host and live ones from the mirrored store, and writes nothing. \<open>live\<close> is the store's \<open>get\<close>,
  \<open>fetch\<close> the paged history call, \<open>summaries\<close> the answer of the session list.
\<close>

section \<open>Headers\<close>

record session_header =
  sh_id :: jstr
  sh_createdAt :: int
  sh_cwd :: "jstr option"

text \<open>An empty \<open>cwd\<close> is left out.\<close>

definition summaryHeader :: "session_summary option \<Rightarrow> jstr \<Rightarrow> session_header" where
  "summaryHeader summary i =
     (case summary of
        None \<Rightarrow> \<lparr>sh_id = i, sh_createdAt = 0, sh_cwd = None\<rparr>
      | Some s \<Rightarrow> \<lparr>sh_id = su_sessionId s, sh_createdAt = (case su_createdAt s of Some n \<Rightarrow> n | None \<Rightarrow> 0),
          sh_cwd = (if su_cwd s = [] then None else Some (su_cwd s))\<rparr>)"

type_synonym live_store = "jstr \<Rightarrow> (session_header \<times> session) option"

section \<open>Open turns\<close>

definition TURN_START :: jstr where "TURN_START = js ''turn/start''"
definition TURN_END :: jstr where "TURN_END = js ''turn/end''"

fun last_boundary :: "local_event list \<Rightarrow> bool" where
  "last_boundary [] = False"
| "last_boundary (e # es) =
     (if le_type e = TURN_START then True else if le_type e = TURN_END then False else last_boundary es)"

definition hasOpenTurn :: "local_event list \<Rightarrow> bool" where
  "hasOpenTurn events = last_boundary (rev events)"

section \<open>Cold reads\<close>

text \<open>\<open>None\<close>: the paging does not end; \<open>Inl\<close>: a call failed or the history has a gap.\<close>

definition readCold :: "fetcher \<Rightarrow> jstr + session_summary list \<Rightarrow> jstr \<Rightarrow> (jstr + session_header \<times> mirrored_event list) option" where
  "readCold fetch summaries i =
     (case readRemoteHistory fetch 0 500 of
        None \<Rightarrow> None
      | Some (Inl e) \<Rightarrow> Some (Inl e)
      | Some (Inr events) \<Rightarrow>
          (case summaries of
             Inl e \<Rightarrow> Some (Inl e)
           | Inr ss \<Rightarrow> Some (Inr (summaryHeader (List.find (\<lambda>s. su_sessionId s = i) ss) i, events))))"

fun append_wires :: "validation \<Rightarrow> (jstr \<Rightarrow> bool) \<Rightarrow> session \<Rightarrow> mirrored_event list \<Rightarrow> jstr + session" where
  "append_wires accepts eligible s [] = Inr s"
| "append_wires accepts eligible s (w # ws) =
     (case appendMirroredEvent accepts eligible s w of
        Inl e \<Rightarrow> Inl e
      | Inr s' \<Rightarrow> append_wires accepts eligible s' ws)"

definition buildDetached :: "validation \<Rightarrow> (jstr \<Rightarrow> bool) \<Rightarrow> fetcher \<Rightarrow> jstr + session_summary list \<Rightarrow> jstr \<Rightarrow>
    (jstr + session_header \<times> session) option" where
  "buildDetached accepts eligible fetch summaries i =
     (case readCold fetch summaries i of
        None \<Rightarrow> None
      | Some (Inl e) \<Rightarrow> Some (Inl e)
      | Some (Inr (meta, events)) \<Rightarrow>
          Some (case append_wires accepts eligible \<lparr>ss_id = i, ss_log = []\<rparr> events of
                  Inl e \<Rightarrow> Inl e
                | Inr s \<Rightarrow> Inr (meta, s)))"

definition live_in_process :: "jstr \<Rightarrow> jstr" where
  "live_in_process i = js ''@dsh-remote/proxy: session \"'' @ i @
     js ''\" is live in this process; prepare() serves cold sessions only''"

definition rsp_prepare :: "validation \<Rightarrow> (jstr \<Rightarrow> bool) \<Rightarrow> live_store \<Rightarrow> fetcher \<Rightarrow> jstr + session_summary list \<Rightarrow> jstr \<Rightarrow>
    (jstr + session) option" where
  "rsp_prepare accepts eligible live fetch summaries i =
     (if live i \<noteq> None then Some (Inl (live_in_process i))
      else map_option (map_sum id snd) (buildDetached accepts eligible fetch summaries i))"

section \<open>Reads of live and cold sessions\<close>

definition cold_inspection :: "jstr + session_header \<times> session \<Rightarrow> jstr + session_header \<times> local_event list" where
  "cold_inspection = map_sum id (\<lambda>(meta, s). (meta, ss_log s))"

definition rsp_inspect :: "validation \<Rightarrow> (jstr \<Rightarrow> bool) \<Rightarrow> live_store \<Rightarrow> fetcher \<Rightarrow> jstr + session_summary list \<Rightarrow> jstr \<Rightarrow>
    (jstr + session_header \<times> local_event list) option" where
  "rsp_inspect accepts eligible live fetch summaries i =
     (case live i of
        Some (meta, s) \<Rightarrow> Some (Inr (meta, ss_log s))
      | None \<Rightarrow> map_option cold_inspection (buildDetached accepts eligible fetch summaries i))"

definition open_turn :: "jstr \<Rightarrow> jstr" where
  "open_turn i = js ''@dsh-remote/proxy: session \"'' @ i @ js ''\" has an open live turn; load() serves balanced logs only''"

definition rsp_load :: "validation \<Rightarrow> (jstr \<Rightarrow> bool) \<Rightarrow> live_store \<Rightarrow> fetcher \<Rightarrow> jstr + session_summary list \<Rightarrow> jstr \<Rightarrow>
    (jstr + session_header \<times> local_event list) option" where
  "rsp_load accepts eligible live fetch summaries i =
     (case live i of
        Some (meta, s) \<Rightarrow> Some (if hasOpenTurn (ss_log s) then Inl (open_turn i) else Inr (meta, ss_log s))
      | None \<Rightarrow> map_option cold_inspection (buildDetached accepts eligible fetch summaries i))"

definition rsp_readFrom :: "validation \<Rightarrow> (jstr \<Rightarrow> bool) \<Rightarrow> live_store \<Rightarrow> fetcher \<Rightarrow> jstr + session_summary list \<Rightarrow> jstr \<Rightarrow> int \<Rightarrow>
    (jstr + session_header \<times> local_event list) option" where
  "rsp_readFrom accepts eligible live fetch summaries i fromSeq =
     map_option (map_sum id (\<lambda>(meta, es). (meta, filter (\<lambda>e. le_seq e \<ge> fromSeq) es)))
       (rsp_inspect accepts eligible live fetch summaries i)"

definition rsp_list :: "session_summary list \<Rightarrow> session_header list" where
  "rsp_list ss = map (\<lambda>s. summaryHeader (Some s) []) ss"

definition rsp_listSnapshots :: "jstr \<Rightarrow> session_summary list \<Rightarrow> (session_header \<times> jstr) list" where
  "rsp_listSnapshots target ss =
     map (\<lambda>s. (summaryHeader (Some s) [],
       js ''remote-proxy:'' @ target @ js '':'' @ su_sessionId s @ js '':seq'' @ num_text (su_lastSeq s) 0)) ss"

section \<open>What is read\<close>

lemma append_wires_copies:
  assumes "\<And>s ty d i. accepts s ty d i = None"
  shows "contiguous (session_seq s) ws \<Longrightarrow>
    append_wires accepts eligible s ws = Inr (s\<lparr>ss_log := ss_log s @ map (mirror_event eligible) ws\<rparr>)"
proof (induction ws arbitrary: s)
  case (Cons w ws)
  let ?s = "s\<lparr>ss_log := ss_log s @ [mirror_event eligible w]\<rparr>"
  have "appendMirroredEvent accepts eligible s w = Inr ?s"
    using Cons.prems assms by (simp add: appendMirroredEvent_def session_append_def mirror_event_def)
  moreover have "contiguous (session_seq ?s) ws" using Cons.prems by (simp add: session_seq_def algebra_simps)
  ultimately show ?case using Cons.IH[of ?s] by simp
qed simp

definition boundary :: "local_event \<Rightarrow> bool" where
  "boundary e \<longleftrightarrow> le_type e \<in> {TURN_START, TURN_END}"

lemma last_boundary_iff:
  "last_boundary es \<longleftrightarrow> (\<exists>xs e ys. es = xs @ e # ys \<and> le_type e = TURN_START \<and> (\<forall>x \<in> set xs. \<not> boundary x))"
proof (induction es)
  case (Cons e es)
  have ne: "TURN_START \<noteq> TURN_END" by (simp add: TURN_START_def TURN_END_def)
  have split: "(\<exists>xs x ys. e # es = xs @ x # ys \<and> le_type x = TURN_START \<and> (\<forall>z \<in> set xs. \<not> boundary z)) \<longleftrightarrow>
      le_type e = TURN_START \<or>
      \<not> boundary e \<and> (\<exists>xs x ys. es = xs @ x # ys \<and> le_type x = TURN_START \<and> (\<forall>z \<in> set xs. \<not> boundary z))" (is "?l \<longleftrightarrow> ?r")
  proof
    assume ?l
    then obtain xs x ys where "e # es = xs @ x # ys" "le_type x = TURN_START" "\<forall>z \<in> set xs. \<not> boundary z" by blast
    then show ?r by (cases xs) auto
  next
    assume ?r
    then show ?l
    proof
      assume "le_type e = TURN_START"
      then show ?l by (intro exI[of _ "[]"] exI[of _ e] exI[of _ es]) simp
    next
      assume "\<not> boundary e \<and> (\<exists>xs x ys. es = xs @ x # ys \<and> le_type x = TURN_START \<and> (\<forall>z \<in> set xs. \<not> boundary z))"
      then obtain xs x ys where "es = xs @ x # ys" "le_type x = TURN_START" "\<forall>z \<in> set (e # xs). \<not> boundary z" by auto
      then show ?l by (intro exI[of _ "e # xs"] exI[of _ x] exI[of _ ys]) simp
    qed
  qed
  show ?case unfolding split using Cons.IH ne by (auto simp: boundary_def)
qed simp

lemma hasOpenTurn_iff:
  "hasOpenTurn es \<longleftrightarrow> (\<exists>xs e ys. es = xs @ e # ys \<and> le_type e = TURN_START \<and> (\<forall>x \<in> set ys. \<not> boundary x))" (is "_ \<longleftrightarrow> ?r")
proof
  assume "hasOpenTurn es"
  then obtain xs e ys where x: "rev es = xs @ e # ys" "le_type e = TURN_START" "\<forall>x \<in> set xs. \<not> boundary x"
    unfolding hasOpenTurn_def last_boundary_iff by blast
  have "es = rev (rev es)" by simp
  also have "\<dots> = rev ys @ e # rev xs" unfolding x(1) by simp
  finally show ?r using x(2,3) by (intro exI[of _ "rev ys"] exI[of _ e] exI[of _ "rev xs"]) simp
next
  assume ?r
  then obtain xs e ys where "es = xs @ e # ys" "le_type e = TURN_START" "\<forall>x \<in> set ys. \<not> boundary x" by blast
  then have "rev es = rev ys @ e # rev xs \<and> le_type e = TURN_START \<and> (\<forall>x \<in> set (rev ys). \<not> boundary x)" by simp
  then show "hasOpenTurn es" unfolding hasOpenTurn_def last_boundary_iff by blast
qed

lemma later_events:
  assumes "\<And>k. k < length es \<Longrightarrow> le_seq (es ! k) = int k" "0 \<le> n"
  shows "filter (\<lambda>e. le_seq e \<ge> n) es = drop (nat n) es"
proof -
  have "\<not> le_seq e \<ge> n" if e: "e \<in> set (take (nat n) es)" for e
  proof -
    from e obtain k where "k < nat n" "k < length es" "e = es ! k" by (auto simp: in_set_conv_nth)
    then show ?thesis using assms(1)[of k] assms(2) by (simp add: zless_nat_eq_int_zless)
  qed
  moreover have "le_seq e \<ge> n" if e: "e \<in> set (drop (nat n) es)" for e
  proof -
    obtain k where "k < length (drop (nat n) es)" "e = drop (nat n) es ! k" using e by (metis in_set_conv_nth)
    then have "nat n + k < length es" "e = es ! (nat n + k)" by simp_all
    then show ?thesis using assms(1)[of "nat n + k"] assms(2) by simp
  qed
  ultimately have "filter (\<lambda>e. le_seq e \<ge> n) (take (nat n) es @ drop (nat n) es) = drop (nat n) es"
    by (simp only: filter_append) (simp add: filter_id_conv filter_empty_conv)
  then show ?thesis by simp
qed


section \<open>Samples\<close>

definition turn_event :: "int \<Rightarrow> jstr \<Rightarrow> wire_event" where
  "turn_event n ty = \<lparr>we_type = ty, we_seq = n, we_time = 0, we_data = None, we_ignorable = False\<rparr>"

definition plain_wire :: "wire_event \<Rightarrow> mirrored_event" where
  "plain_wire e = wire_event.extend e (mirrored_event.fields None None)"


end
