(* ===== verification/Proxy.thy ===== *)
theory Proxy
  imports Prelude
begin

text \<open>
  \<^verbatim>\<open>remote-proxy/src/proxy.ts\<close> and \<^verbatim>\<open>factory.ts\<close>: which sessions are mirrored. Every async operation is a
  task that is suspended at one of its awaits; a mirror object is a number, its bootstrap is the
  component \<^verbatim>\<open>Mirror\<close>, of which only success or failure matters here.
\<close>

section \<open>State\<close>

datatype task =
    Listing
  | Attaching jstr "jstr list" "jstr list"
  | Mirroring nat "jstr list" "jstr list"
  | Tearing "(jstr \<times> nat) list" "jstr list"
  | Forking
  | ForkAttaching jstr
  | ForkMirroring nat
  | Creating
  | CreateMirroring nat jstr
  | Escalating nat
  | Preparing jstr
  | WriteAttaching jstr
  | ResumeMirroring nat jstr
  | Detaching jstr
  | DisposingOwned nat
  | Closing "nat list"

record proxy =
  px_mirrors :: "(jstr \<times> nat) list"
  px_inflight :: "(jstr \<times> nat) list"
  px_next :: nat
  px_session :: "(nat \<times> jstr) list"
  px_settled :: "(nat \<times> jstr option) list"
  px_gone :: "nat list"
  px_tasks :: "(nat \<times> task) list"
  px_disposed :: bool

definition RemoteProxy :: proxy where
  "RemoteProxy = \<lparr>px_mirrors = [], px_inflight = [], px_next = 0, px_session = [], px_settled = [], px_gone = [],
     px_tasks = [], px_disposed = False\<rparr>"

datatype proxy_output =
    ListSessions nat
  | AttachRead nat jstr
  | AttachWrite nat jstr
  | StartMirror nat jstr
  | DisposeMirror nat
  | ForkCall nat
  | CreateRemote nat
  | AcquireWrite nat
  | Prepare nat jstr
  | DetachHandle jstr
  | Finished nat "nat option"
  | TaskThrew nat jstr
  | PreMirrorFailed jstr

type_synonym proxy_reaction = "proxy \<times> proxy_output list"

definition awaits :: "nat \<Rightarrow> task \<Rightarrow> proxy \<Rightarrow> proxy" where
  "awaits t k p = p\<lparr>px_tasks := AList.update t k (px_tasks p)\<rparr>"

definition ends :: "nat \<Rightarrow> proxy \<Rightarrow> proxy" where
  "ends t p = p\<lparr>px_tasks := AList.delete t (px_tasks p)\<rparr>"

section \<open>Mirrors\<close>

text \<open>\<open>mirrorSession\<close> up to the promise it waits for: the mirror there is, the one under way, or a new one.\<close>

definition mirrorSession :: "jstr \<Rightarrow> proxy \<Rightarrow> nat \<times> proxy_reaction" where
  "mirrorSession s p =
     (case map_of (px_mirrors p) s of
        Some n \<Rightarrow> (n, p, [])
      | None \<Rightarrow>
          (case map_of (px_inflight p) s of
             Some n \<Rightarrow> (n, p, [])
           | None \<Rightarrow>
               let n = px_next p in
               (n, p\<lparr>px_next := Suc n, px_inflight := AList.update s n (px_inflight p),
                     px_session := AList.update n s (px_session p)\<rparr>, [StartMirror n s])))"

definition session_of :: "proxy \<Rightarrow> nat \<Rightarrow> jstr" where
  "session_of p n = (case map_of (px_session p) n of Some s \<Rightarrow> s | None \<Rightarrow> [])"

text \<open>The end of a bootstrap, and what \<open>mirrorSession\<close> does after its await.\<close>

definition creation_done :: "nat \<Rightarrow> jstr option \<Rightarrow> proxy \<Rightarrow> proxy_reaction" where
  "creation_done n r p =
     (if map_of (px_inflight p) (session_of p n) \<noteq> Some n then (p, [])
      else let s = session_of p n;
               p1 = p\<lparr>px_inflight := AList.delete s (px_inflight p), px_settled := AList.update n r (px_settled p)\<rparr> in
           (case r of
              None \<Rightarrow> (p1\<lparr>px_mirrors := AList.update s n (px_mirrors p1)\<rparr>, [])
            | Some _ \<Rightarrow> (p1, [])))"

text \<open>\<open>mirror.dispose\<close>, which does nothing the second time.\<close>

definition dispose_mirror :: "nat \<Rightarrow> proxy \<Rightarrow> proxy_reaction" where
  "dispose_mirror n p = (if n \<in> set (px_gone p) then (p, []) else (p\<lparr>px_gone := n # px_gone p\<rparr>, [DisposeMirror n]))"

section \<open>Reconciling\<close>

fun tear_down :: "nat \<Rightarrow> (jstr \<times> nat) list \<Rightarrow> jstr list \<Rightarrow> proxy \<Rightarrow> proxy_reaction" where
  "tear_down t [] active p = (ends t p, [Finished t None])"
| "tear_down t ((s, n) # rest) active p =
     (if s \<in> set active then tear_down t rest active p
      else dispose_mirror n (awaits t (Tearing rest active) (p\<lparr>px_mirrors := AList.delete s (px_mirrors p)\<rparr>)))"

fun pre_mirror :: "nat \<Rightarrow> jstr list \<Rightarrow> jstr list \<Rightarrow> proxy \<Rightarrow> proxy_reaction" where
  "pre_mirror t [] active p = tear_down t (px_mirrors p) active p"
| "pre_mirror t (s # todo) active p =
     (if map_of (px_mirrors p) s \<noteq> None \<or> map_of (px_inflight p) s \<noteq> None then pre_mirror t todo active p
      else (awaits t (Attaching s todo active) p, [AttachRead t s]))"

definition reconcile :: "nat \<Rightarrow> proxy \<Rightarrow> proxy_reaction" where
  "reconcile t p = (if px_disposed p then (p, []) else (awaits t Listing p, [ListSessions t]))"

definition list_answered :: "nat \<Rightarrow> jstr + (jstr \<times> bool) list \<Rightarrow> proxy \<Rightarrow> proxy_reaction" where
  "list_answered t r p =
     (case r of
        Inl _ \<Rightarrow> (ends t p, [Finished t None])
      | Inr summaries \<Rightarrow> (let active = map fst (filter snd summaries) in pre_mirror t active active p))"

definition with_mirror :: "nat \<Rightarrow> jstr \<Rightarrow> (nat \<Rightarrow> task) \<Rightarrow> proxy \<Rightarrow> proxy_reaction" where
  "with_mirror t s k p = (case mirrorSession s p of (n, p1, out) \<Rightarrow> (awaits t (k n) p1, out))"

section \<open>Other operations\<close>

definition forkRemote :: "nat \<Rightarrow> jstr \<Rightarrow> proxy \<Rightarrow> proxy_reaction" where
  "forkRemote t source p =
     (case map_of (px_mirrors p) source of
        None \<Rightarrow> (p, [TaskThrew t (js ''@dsh-remote/proxy: forkRemote source \"'' @ source @
          js ''\" is not a live mirrored session (fork a session visible in ctx.sessions.list())'')])
      | Some n \<Rightarrow> (awaits t Forking p, [ForkCall n]))"

definition createAgent :: "nat \<Rightarrow> bool \<Rightarrow> proxy \<Rightarrow> proxy_reaction" where
  "createAgent t seed p =
     (if seed then (p, [TaskThrew t (js ''@dsh-remote/proxy: agents.create({ seed }) is unsupported '' @ [8212] @
        js '' a remote fork must match the daemon log prefix; use sessions.forkRemote(source, { atSeq }) instead'')])
      else (awaits t Creating p, [CreateRemote t]))"

definition resumeAgent :: "nat \<Rightarrow> jstr \<Rightarrow> proxy \<Rightarrow> proxy_reaction" where
  "resumeAgent t s p =
     (case map_of (px_mirrors p) s of
        Some n \<Rightarrow> (awaits t (Escalating n) p, [AcquireWrite n])
      | None \<Rightarrow> (awaits t (Preparing s) p, [Prepare t s]))"

definition disposeOwned :: "nat \<Rightarrow> nat \<Rightarrow> proxy \<Rightarrow> proxy_reaction" where
  "disposeOwned t n p = dispose_mirror n (awaits t (DisposingOwned n) p)"

fun close_next :: "nat \<Rightarrow> nat list \<Rightarrow> proxy \<Rightarrow> proxy_reaction" where
  "close_next t [] p = (ends t p, [Finished t None])"
| "close_next t (n # rest) p = dispose_mirror n (awaits t (Closing rest) p)"

definition proxy_dispose :: "nat \<Rightarrow> proxy \<Rightarrow> proxy_reaction" where
  "proxy_dispose t p =
     (if px_disposed p then (p, [])
      else close_next t (map snd (px_mirrors p)) (p\<lparr>px_disposed := True, px_mirrors := []\<rparr>))"

section \<open>Going on after an await\<close>

text \<open>A call of the client or a disposal that a task waited for is over.\<close>

definition answered :: "nat \<Rightarrow> jstr + jstr \<Rightarrow> task \<Rightarrow> proxy \<Rightarrow> proxy_reaction" where
  "answered t r k p =
     (case k of
        Attaching s todo active \<Rightarrow>
          (case r of
             Inl _ \<Rightarrow> (case pre_mirror t todo active p of (p1, out) \<Rightarrow> (p1, PreMirrorFailed s # out))
           | Inr _ \<Rightarrow> with_mirror t s (\<lambda>n. Mirroring n todo active) p)
      | Tearing rest active \<Rightarrow> tear_down t rest active p
      | Forking \<Rightarrow>
          (case r of Inl e \<Rightarrow> (ends t p, [TaskThrew t e]) | Inr child \<Rightarrow> (awaits t (ForkAttaching child) p, [AttachRead t child]))
      | ForkAttaching child \<Rightarrow>
          (case r of Inl e \<Rightarrow> (ends t p, [TaskThrew t e]) | Inr _ \<Rightarrow> with_mirror t child ForkMirroring p)
      | Creating \<Rightarrow>
          (case r of Inl e \<Rightarrow> (ends t p, [TaskThrew t e]) | Inr s \<Rightarrow> with_mirror t s (\<lambda>n. CreateMirroring n s) p)
      | Escalating n \<Rightarrow> (ends t p, case r of Inl e \<Rightarrow> [TaskThrew t e] | Inr _ \<Rightarrow> [Finished t (Some n)])
      | Preparing s \<Rightarrow>
          (case r of Inl e \<Rightarrow> (ends t p, [TaskThrew t e]) | Inr _ \<Rightarrow> (awaits t (WriteAttaching s) p, [AttachWrite t s]))
      | WriteAttaching s \<Rightarrow>
          (case r of Inl e \<Rightarrow> (ends t p, [TaskThrew t e]) | Inr _ \<Rightarrow> with_mirror t s (\<lambda>n. ResumeMirroring n s) p)
      | Detaching e \<Rightarrow> (ends t p, [TaskThrew t e])
      | DisposingOwned n \<Rightarrow>
          ((ends t p)\<lparr>px_mirrors := AList.delete (session_of p n) (px_mirrors p)\<rparr>, [Finished t None])
      | Closing rest \<Rightarrow> close_next t rest p
      | _ \<Rightarrow> (p, []))"

text \<open>The mirror a task waited for is there, or its bootstrap failed.\<close>

definition mirror_settled :: "nat \<Rightarrow> task \<Rightarrow> proxy \<Rightarrow> proxy_reaction" where
  "mirror_settled t k p =
     (let back = (\<lambda>n s. case map_of (px_settled p) n of
          None \<Rightarrow> (p, [])
        | Some None \<Rightarrow> (ends t p, [Finished t (Some n)])
        | Some (Some e) \<Rightarrow> (awaits t (Detaching e) p, [DetachHandle s])) in
      case k of
        Mirroring n todo active \<Rightarrow>
          (case map_of (px_settled p) n of
             None \<Rightarrow> (p, [])
           | Some None \<Rightarrow> pre_mirror t todo active p
           | Some (Some e) \<Rightarrow> (case pre_mirror t todo active p of (p1, out) \<Rightarrow> (p1, PreMirrorFailed (session_of p n) # out)))
      | ForkMirroring n \<Rightarrow>
          (case map_of (px_settled p) n of
             None \<Rightarrow> (p, [])
           | Some None \<Rightarrow> (ends t p, [Finished t (Some n)])
           | Some (Some e) \<Rightarrow> (ends t p, [TaskThrew t e]))
      | CreateMirroring n s \<Rightarrow> back n s
      | ResumeMirroring n s \<Rightarrow> back n s
      | _ \<Rightarrow> (p, []))"

section \<open>All events\<close>

datatype proxy_event =
    SessionsChanged nat
  | ListAnswered nat "jstr + (jstr \<times> bool) list"
  | Answered nat "jstr + jstr"
  | CreationDone nat "jstr option"
  | MirrorSettled nat
  | ForkCalled nat jstr
  | CreateCalled nat bool
  | ResumeCalled nat jstr
  | OwnedDisposed nat nat
  | ProxyDisposed nat

definition starts :: "proxy_event \<Rightarrow> nat option" where
  "starts ev = (case ev of SessionsChanged t \<Rightarrow> Some t | ForkCalled t _ \<Rightarrow> Some t | CreateCalled t _ \<Rightarrow> Some t
     | ResumeCalled t _ \<Rightarrow> Some t | OwnedDisposed t _ \<Rightarrow> Some t | ProxyDisposed t \<Rightarrow> Some t | _ \<Rightarrow> None)"

text \<open>A call takes a task number that is free.\<close>

definition proxy_step :: "proxy \<Rightarrow> proxy_event \<Rightarrow> proxy_reaction" where
  "proxy_step p ev =
     (if (\<exists>t \<in> fst ` set (px_tasks p). starts ev = Some t) then (p, [])
      else case ev of
        SessionsChanged t \<Rightarrow> reconcile t p
      | ListAnswered t r \<Rightarrow> (if map_of (px_tasks p) t = Some Listing then list_answered t r p else (p, []))
      | Answered t r \<Rightarrow> (case map_of (px_tasks p) t of None \<Rightarrow> (p, []) | Some k \<Rightarrow> answered t r k p)
      | CreationDone n r \<Rightarrow> creation_done n r p
      | MirrorSettled t \<Rightarrow> (case map_of (px_tasks p) t of None \<Rightarrow> (p, []) | Some k \<Rightarrow> mirror_settled t k p)
      | ForkCalled t source \<Rightarrow> forkRemote t source p
      | CreateCalled t seed \<Rightarrow> createAgent t seed p
      | ResumeCalled t s \<Rightarrow> resumeAgent t s p
      | OwnedDisposed t n \<Rightarrow> (if map_of (px_settled p) n = Some None then disposeOwned t n p else (p, []))
      | ProxyDisposed t \<Rightarrow> proxy_dispose t p)"

section \<open>The tables agree\<close>

definition proxy_ok :: "proxy \<Rightarrow> bool" where
  "proxy_ok p \<longleftrightarrow>
     distinct (map fst (px_mirrors p)) \<and> distinct (map fst (px_inflight p)) \<and>
     fst ` set (px_mirrors p) \<inter> fst ` set (px_inflight p) = {} \<and>
     (\<forall>(s, n) \<in> set (px_mirrors p). map_of (px_session p) n = Some s \<and> map_of (px_settled p) n = Some None) \<and>
     (\<forall>(s, n) \<in> set (px_inflight p). map_of (px_session p) n = Some s \<and> map_of (px_settled p) n = None) \<and>
     (\<forall>n. map_of (px_session p) n \<noteq> None \<longleftrightarrow> n < px_next p) \<and>
     (\<forall>n < px_next p. n \<in> snd ` set (px_inflight p) \<or> map_of (px_settled p) n \<noteq> None) \<and>
     (\<forall>n. map_of (px_settled p) n \<noteq> None \<longrightarrow> n < px_next p)"

lemma awaits_simps [simp]:
  "px_mirrors (awaits t k p) = px_mirrors p" "px_inflight (awaits t k p) = px_inflight p" "px_next (awaits t k p) = px_next p"
  "px_session (awaits t k p) = px_session p" "px_settled (awaits t k p) = px_settled p" "px_gone (awaits t k p) = px_gone p"
  "px_tasks (awaits t k p) = AList.update t k (px_tasks p)" "px_disposed (awaits t k p) = px_disposed p"
  by (simp_all add: awaits_def)

lemma ends_simps [simp]:
  "px_mirrors (ends t p) = px_mirrors p" "px_inflight (ends t p) = px_inflight p" "px_next (ends t p) = px_next p"
  "px_session (ends t p) = px_session p" "px_settled (ends t p) = px_settled p" "px_gone (ends t p) = px_gone p"
  "px_tasks (ends t p) = AList.delete t (px_tasks p)" "px_disposed (ends t p) = px_disposed p"
  by (simp_all add: ends_def)

lemma dispose_mirror_simps [simp]:
  "px_mirrors (fst (dispose_mirror n p)) = px_mirrors p" "px_inflight (fst (dispose_mirror n p)) = px_inflight p"
  "px_next (fst (dispose_mirror n p)) = px_next p" "px_session (fst (dispose_mirror n p)) = px_session p"
  "px_settled (fst (dispose_mirror n p)) = px_settled p" "px_tasks (fst (dispose_mirror n p)) = px_tasks p"
  "StartMirror m s \<notin> set (snd (dispose_mirror n p))"
  by (simp_all add: dispose_mirror_def)

text \<open>Steps that start no mirror and finish none: they may only take entries out of the table.\<close>

definition calm_step :: "proxy \<Rightarrow> proxy_reaction \<Rightarrow> bool" where
  "calm_step p r \<longleftrightarrow>
     set (px_mirrors (fst r)) \<subseteq> set (px_mirrors p) \<and> (distinct (map fst (px_mirrors p)) \<longrightarrow> distinct (map fst (px_mirrors (fst r)))) \<and>
     px_inflight (fst r) = px_inflight p \<and> px_next (fst r) = px_next p \<and> px_session (fst r) = px_session p \<and>
     px_settled (fst r) = px_settled p \<and> (\<forall>n s. StartMirror n s \<notin> set (snd r))"

lemma calm_step_same:
  "px_mirrors (fst r) = px_mirrors p \<Longrightarrow> px_inflight (fst r) = px_inflight p \<Longrightarrow> px_next (fst r) = px_next p \<Longrightarrow>
   px_session (fst r) = px_session p \<Longrightarrow> px_settled (fst r) = px_settled p \<Longrightarrow> (\<forall>n s. StartMirror n s \<notin> set (snd r)) \<Longrightarrow> calm_step p r"
  by (simp add: calm_step_def)

lemma set_delete: "set (AList.delete k m) \<subseteq> set m"
  by (auto simp: AList.delete_eq)

lemma calm_tear_down: "calm_step p (tear_down t rest active p)"
proof (induction rest)
  case (Cons x rest)
  obtain s n where x: "x = (s, n)" by (cases x)
  show ?case
    using Cons set_delete[of s "px_mirrors p"] distinct_keys_delete[of "px_mirrors p" s]
    by (simp add: x) (simp add: calm_step_def)
qed (simp add: calm_step_def)

lemma calm_pre_mirror: "calm_step p (pre_mirror t todo active p)"
  by (induction todo) (simp_all add: calm_tear_down calm_step_same)

lemma calm_close: "calm_step p (close_next t ns p)"
  by (cases ns) (simp_all add: calm_step_same)

lemma calm_more: "calm_step p r \<Longrightarrow> calm_step p (fst r, PreMirrorFailed s # snd r)"
  by (simp add: calm_step_def)

lemma proxy_okD:
  assumes "proxy_ok p"
  shows "distinct (map fst (px_mirrors p))" "distinct (map fst (px_inflight p))"
    "fst ` set (px_mirrors p) \<inter> fst ` set (px_inflight p) = {}"
    "(s, n) \<in> set (px_mirrors p) \<Longrightarrow> map_of (px_session p) n = Some s \<and> map_of (px_settled p) n = Some None"
    "(s, n) \<in> set (px_inflight p) \<Longrightarrow> map_of (px_session p) n = Some s \<and> map_of (px_settled p) n = None"
    "map_of (px_session p) n = Some s \<Longrightarrow> n < px_next p" "n < px_next p \<Longrightarrow> map_of (px_session p) n \<noteq> None"
    "n < px_next p \<Longrightarrow> n \<in> snd ` set (px_inflight p) \<or> map_of (px_settled p) n \<noteq> None"
    "map_of (px_settled p) n = Some r \<Longrightarrow> n < px_next p"
  using assms unfolding proxy_ok_def by blast+

lemma proxy_okI:
  assumes "distinct (map fst (px_mirrors p))" "distinct (map fst (px_inflight p))"
    "fst ` set (px_mirrors p) \<inter> fst ` set (px_inflight p) = {}"
    "\<And>s n. (s, n) \<in> set (px_mirrors p) \<Longrightarrow> map_of (px_session p) n = Some s \<and> map_of (px_settled p) n = Some None"
    "\<And>s n. (s, n) \<in> set (px_inflight p) \<Longrightarrow> map_of (px_session p) n = Some s \<and> map_of (px_settled p) n = None"
    "\<And>n. map_of (px_session p) n \<noteq> None \<longleftrightarrow> n < px_next p"
    "\<And>n. n < px_next p \<Longrightarrow> n \<in> snd ` set (px_inflight p) \<or> map_of (px_settled p) n \<noteq> None"
    "\<And>n. map_of (px_settled p) n \<noteq> None \<Longrightarrow> n < px_next p"
  shows "proxy_ok p"
  using assms unfolding proxy_ok_def by blast

lemma proxy_ok_calm:
  assumes "proxy_ok p" "calm_step p r"
  shows "proxy_ok (fst r)"
proof -
  have m: "set (px_mirrors (fst r)) \<subseteq> set (px_mirrors p)" "distinct (map fst (px_mirrors (fst r)))"
    using assms proxy_okD(1)[OF assms(1)] by (simp_all add: calm_step_def)
  have "fst ` set (px_mirrors (fst r)) \<inter> fst ` set (px_inflight p) = {}"
    using proxy_okD(3)[OF assms(1)] image_mono[OF m(1), of fst] by blast
  moreover have "\<forall>x \<in> set (px_mirrors (fst r)). case x of (s, n) \<Rightarrow> map_of (px_session p) n = Some s \<and> map_of (px_settled p) n = Some None"
    using proxy_okD(4)[OF assms(1)] m(1) by blast
  ultimately show ?thesis using assms m(2) by (simp add: proxy_ok_def calm_step_def)
qed

text \<open>A step that starts a mirror does it for a session that has none.\<close>

definition fresh_step :: "proxy \<Rightarrow> proxy_reaction \<Rightarrow> bool" where
  "fresh_step p r \<longleftrightarrow> (\<exists>s. map_of (px_mirrors p) s = None \<and> map_of (px_inflight p) s = None \<and>
     px_mirrors (fst r) = px_mirrors p \<and> px_inflight (fst r) = AList.update s (px_next p) (px_inflight p) \<and>
     px_next (fst r) = Suc (px_next p) \<and> px_session (fst r) = AList.update (px_next p) s (px_session p) \<and>
     px_settled (fst r) = px_settled p \<and> snd r = [StartMirror (px_next p) s])"

lemma with_mirror_step: "calm_step p (with_mirror t s k p) \<or> fresh_step p (with_mirror t s k p)"
  by (auto simp: with_mirror_def mirrorSession_def calm_step_def fresh_step_def Let_def split: option.splits)

lemma answered_step: "calm_step p (answered t r k p) \<or> fresh_step p (answered t r k p)"
proof (cases k)
  case (Attaching s todo active)
  then show ?thesis
    using calm_more[OF calm_pre_mirror[of p t todo active], of s] with_mirror_step
    by (cases r) (auto simp: answered_def split: prod.split)
next
  case (DisposingOwned n)
  then show ?thesis
    using set_delete[of "session_of p n" "px_mirrors p"] distinct_keys_delete[of "px_mirrors p" "session_of p n"]
    by (simp add: answered_def calm_step_def)
qed (use with_mirror_step in \<open>auto simp: answered_def calm_tear_down calm_close calm_step_same split: sum.split\<close>)

lemma mirror_settled_step: "calm_step p (mirror_settled t k p)"
proof (cases k)
  case (Mirroring n todo active)
  then show ?thesis
    using calm_more[OF calm_pre_mirror[of p t todo active], of "session_of p n"] calm_pre_mirror[of p t todo active]
    by (auto simp: mirror_settled_def Let_def calm_step_same split: option.split prod.split)
qed (auto simp: mirror_settled_def Let_def calm_step_same split: option.split)

lemma proxy_step_cases:
  "calm_step p (proxy_step p ev) \<or> fresh_step p (proxy_step p ev) \<or>
   (\<exists>n r. ev = CreationDone n r \<and> map_of (px_inflight p) (session_of p n) = Some n \<and> proxy_step p ev = creation_done n r p)"
proof (cases "\<exists>t \<in> fst ` set (px_tasks p). starts ev = Some t")
  case False
  have nil: "calm_step p (p, [])" by (simp add: calm_step_same)
  show ?thesis
  proof (cases ev)
    case (ProxyDisposed t)
    have "calm_step p (proxy_dispose t p)"
      by (cases "map snd (px_mirrors p)") (auto simp: proxy_dispose_def calm_step_def)
    then show ?thesis using ProxyDisposed False by (simp add: proxy_step_def)
  next
    case (OwnedDisposed t n)
    then show ?thesis using False nil by (simp add: proxy_step_def disposeOwned_def calm_step_same)
  qed (use False nil answered_step mirror_settled_step calm_pre_mirror in
      \<open>auto simp: proxy_step_def reconcile_def list_answered_def Let_def creation_done_def forkRemote_def createAgent_def
        resumeAgent_def calm_step_same split: option.split sum.split\<close>)
qed (simp add: proxy_step_def calm_step_same)

lemma proxy_ok_fresh:
  assumes "proxy_ok p" "fresh_step p r"
  shows "proxy_ok (fst r)"
proof -
  obtain s where s: "map_of (px_mirrors p) s = None" "map_of (px_inflight p) s = None"
    "px_mirrors (fst r) = px_mirrors p" "px_inflight (fst r) = px_inflight p @ [(s, px_next p)]"
    "px_next (fst r) = Suc (px_next p)" "px_session (fst r) = AList.update (px_next p) s (px_session p)"
    "px_settled (fst r) = px_settled p"
    using assms(2) by (auto simp: fresh_step_def map_of_eq_None_iff update_fresh)
  have new: "map_of (px_session p) (px_next p) = None" "map_of (px_settled p) (px_next p) = None"
    using assms(1) by (auto simp: proxy_ok_def)
  have old: "n \<noteq> px_next p" if "(t, n) \<in> set (px_mirrors p @ px_inflight p)" for t n
    using that assms(1) new by (auto simp: proxy_ok_def)
  have keys: "s \<notin> fst ` set (px_mirrors p)" "s \<notin> fst ` set (px_inflight p)" using s(1,2) by (simp_all add: map_of_eq_None_iff)
  note ok = proxy_okD[OF assms(1)]
  show ?thesis
  proof (rule proxy_okI)
    show "distinct (map fst (px_mirrors (fst r)))" "distinct (map fst (px_inflight (fst r)))"
      using ok(1,2) keys s by simp_all
    show "fst ` set (px_mirrors (fst r)) \<inter> fst ` set (px_inflight (fst r)) = {}" using ok(3) keys s by simp
    show "map_of (px_session (fst r)) n = Some t \<and> map_of (px_settled (fst r)) n = Some None" if "(t, n) \<in> set (px_mirrors (fst r))" for t n
      using ok(4)[of t n] old[of t n] that s by simp
    show "map_of (px_session (fst r)) n = Some t \<and> map_of (px_settled (fst r)) n = None" if "(t, n) \<in> set (px_inflight (fst r))" for t n
      using ok(5)[of t n] old[of t n] new(2) that s by auto
    show "map_of (px_session (fst r)) n \<noteq> None \<longleftrightarrow> n < px_next (fst r)" for n
      using ok(6)[of n] ok(7)[of n] s by (auto simp: less_Suc_eq)
    show "n \<in> snd ` set (px_inflight (fst r)) \<or> map_of (px_settled (fst r)) n \<noteq> None" if "n < px_next (fst r)" for n
      using ok(8)[of n] that s by (auto simp: less_Suc_eq)
    show "n < px_next (fst r)" if "map_of (px_settled (fst r)) n \<noteq> None" for n
      using ok(9)[of n] that s by (auto intro: less_SucI)
  qed
qed

lemma proxy_ok_created:
  assumes "proxy_ok p" "map_of (px_inflight p) (session_of p n) = Some n"
  shows "proxy_ok (fst (creation_done n r p))"
proof -
  define s where "s = session_of p n"
  have d: "distinct (map fst (px_mirrors p))" "distinct (map fst (px_inflight p))" and
    inf: "(s, n) \<in> set (px_inflight p)" using assms by (auto simp: proxy_ok_def s_def dest: map_of_SomeD)
  have ss: "map_of (px_session p) n = Some s" "map_of (px_settled p) n = None" "n < px_next p"
    using proxy_okD(5,6)[OF assms(1)] inf by blast+
  have nm: "s \<notin> fst ` set (px_mirrors p)" using proxy_okD(3)[OF assms(1)] inf by force
  then have m: "AList.update s n (px_mirrors p) = px_mirrors p @ [(s, n)]" by (simp add: update_fresh)
  have other: "k \<noteq> n" if "(t, k) \<in> set (px_mirrors p)" for t k using that proxy_okD(4)[OF assms(1)] ss(2) by force
  have del: "(t, k) \<in> set (AList.delete s (px_inflight p)) \<longleftrightarrow> (t, k) \<in> set (px_inflight p) \<and> t \<noteq> s" for t k
    by (auto simp: AList.delete_eq)
  have same: "k \<noteq> n" if "(t, k) \<in> set (px_inflight p)" "t \<noteq> s" for t k using that proxy_okD(5)[OF assms(1)] ss(1) by force
  have only: "k = n" if "(s, k) \<in> set (px_inflight p)" for k
    using that inf d(2) by (meson eq_key_imp_eq_value)
  have cd: "fst (creation_done n r p) = p\<lparr>px_inflight := AList.delete s (px_inflight p), px_settled := AList.update n r (px_settled p),
      px_mirrors := (if r = None then px_mirrors p @ [(s, n)] else px_mirrors p)\<rparr>"
    using assms(2) by (auto simp: creation_done_def Let_def s_def[symmetric] m split: option.split)
  have cover: "n' \<in> snd ` set (AList.delete s (px_inflight p)) \<or> n' = n \<or> map_of (px_settled p) n' \<noteq> None" if "n' < px_next p" for n'
  proof -
    have "n' \<in> snd ` set (px_inflight p) \<or> map_of (px_settled p) n' \<noteq> None" using proxy_okD(8)[OF assms(1) that] .
    then show ?thesis using only del by force
  qed
  have disj: "fst ` set (if r = None then px_mirrors p @ [(s, n)] else px_mirrors p) \<inter> fst ` set (AList.delete s (px_inflight p)) = {}"
    using proxy_okD(3)[OF assms(1)] by (simp split: if_split) blast
  note ok = proxy_okD[OF assms(1)]
  let ?p = "fst (creation_done n r p)"
  have f: "px_mirrors ?p = (if r = None then px_mirrors p @ [(s, n)] else px_mirrors p)" "px_inflight ?p = AList.delete s (px_inflight p)"
    "px_next ?p = px_next p" "px_session ?p = px_session p" "map_of (px_settled ?p) = (map_of (px_settled p))(n \<mapsto> r)"
    by (simp_all add: cd)
  show ?thesis
  proof (rule proxy_okI)
    show "distinct (map fst (px_mirrors ?p))" using d(1) nm by (simp add: f)
    show "distinct (map fst (px_inflight ?p))" using distinct_keys_delete[OF d(2), of s] by (simp add: f)
    show "fst ` set (px_mirrors ?p) \<inter> fst ` set (px_inflight ?p) = {}" using disj by (simp add: f)
    show "map_of (px_session ?p) k = Some t \<and> map_of (px_settled ?p) k = Some None" if "(t, k) \<in> set (px_mirrors ?p)" for t k
      using that ok(4)[of t k] other[of t k] ss(1) by (auto simp: f split: if_splits)
    show "map_of (px_session ?p) k = Some t \<and> map_of (px_settled ?p) k = None" if "(t, k) \<in> set (px_inflight ?p)" for t k
      using that ok(5)[of t k] same[of t k] del by (simp add: f)
    show "map_of (px_session ?p) k \<noteq> None \<longleftrightarrow> k < px_next ?p" for k
      using ok(6)[of k] ok(7)[of k] by (auto simp: f)
    show "k \<in> snd ` set (px_inflight ?p) \<or> map_of (px_settled ?p) k \<noteq> None" if "k < px_next ?p" for k
      using cover[of k] that by (auto simp: f)
    show "k < px_next ?p" if "map_of (px_settled ?p) k \<noteq> None" for k
      using ok(9)[of k] ss(3) that by (auto simp: f split: if_splits)
  qed
qed

lemma proxy_ok_step:
  assumes "proxy_ok p"
  shows "proxy_ok (fst (proxy_step p ev))"
  using proxy_step_cases[of p ev]
proof (elim disjE exE conjE)
  fix n r
  assume "map_of (px_inflight p) (session_of p n) = Some n" "proxy_step p ev = creation_done n r p"
  then show ?thesis using proxy_ok_created[OF assms] by simp
qed (use assms proxy_ok_calm proxy_ok_fresh in blast)+

lemma proxy_ok_new: "proxy_ok RemoteProxy"
  by (simp add: proxy_ok_def RemoteProxy_def)

definition proxy_inv :: "proxy \<Rightarrow> proxy_event list \<Rightarrow> proxy_output list \<Rightarrow> bool" where
  "proxy_inv p g h \<longleftrightarrow> proxy_ok p \<and> (\<forall>n s. StartMirror n s \<in> set h \<longleftrightarrow> map_of (px_session p) n = Some s)"

lemma proxy_step_inv:
  assumes "proxy_inv p g h" "proxy_step p ev = (p', out)"
  shows "proxy_inv p' (g @ [ev]) (h @ out)"
proof -
  have ok: "proxy_ok p" "\<forall>n s. StartMirror n s \<in> set h \<longleftrightarrow> map_of (px_session p) n = Some s"
    using assms(1) by (simp_all add: proxy_inv_def)
  have new: "map_of (px_session p) (px_next p) = None" using proxy_okD(6)[OF ok(1), of "px_next p"] by (cases "map_of (px_session p) (px_next p)") auto
  have "\<forall>n s. StartMirror n s \<in> set (h @ out) \<longleftrightarrow> map_of (px_session p') n = Some s"
    using proxy_step_cases[of p ev] ok(2) new assms(2)
    by (auto simp: calm_step_def fresh_step_def creation_done_def Let_def split: option.splits if_splits)
  then show ?thesis using proxy_ok_step[OF ok(1), of ev] assms(2) by (simp add: proxy_inv_def)
qed

interpretation proxy_runs: reactive proxy_step proxy_inv
  by unfold_locales (rule proxy_step_inv)

lemma distinct_values:
  assumes "distinct (map fst xs)" "\<And>s n. (s, n) \<in> set xs \<Longrightarrow> f n = Some s"
  shows "distinct (map snd xs)"
proof -
  have "x = y" if "x \<in> set xs" "y \<in> set xs" "snd x = snd y" for x y
  proof -
    have "f (snd x) = Some (fst x)" "f (snd y) = Some (fst y)" using that assms(2) by (metis prod.collapse)+
    then show ?thesis using that(3) by (simp add: prod_eq_iff)
  qed
  then show ?thesis using assms(1) by (simp add: distinct_map inj_on_def)
qed

text \<open>
  C8: A session has one mirror. In every run of concurrent reconciliations, creations, resumptions,
  forks and disposals, no session is in the table twice, nor in the table and under way; every entry
  is a mirror that was started for that session; every mirror that was started is under way or has
  settled; and no step starts one for a session that has one.
\<close>

theorem one_mirror_per_session:
  assumes "steps proxy_step RemoteProxy es = (p, out)"
  shows "distinct (map fst (px_mirrors p @ px_inflight p)) \<and> distinct (map snd (px_mirrors p @ px_inflight p)) \<and>
    (\<forall>(s, n) \<in> set (px_mirrors p @ px_inflight p). StartMirror n s \<in> set out) \<and>
    (\<forall>n s. StartMirror n s \<in> set out \<longrightarrow> (s, n) \<in> set (px_inflight p) \<or> map_of (px_settled p) n \<noteq> None) \<and>
    (\<forall>ev n s. StartMirror n s \<in> set (snd (proxy_step p ev)) \<longrightarrow> map_of (px_mirrors p) s = None \<and> map_of (px_inflight p) s = None)"
proof -
  have "proxy_inv RemoteProxy [] []" using proxy_ok_new by (simp add: proxy_inv_def RemoteProxy_def)
  from proxy_runs.always[OF this assms] have inv: "proxy_ok p" "\<And>n s. StartMirror n s \<in> set out \<longleftrightarrow> map_of (px_session p) n = Some s"
    by (simp_all add: proxy_inv_def)
  note ok = proxy_okD[OF inv(1)]
  have d: "distinct (map fst (px_mirrors p @ px_inflight p))" using ok(1-3) by auto
  have own: "map_of (px_session p) n = Some s" if "(s, n) \<in> set (px_mirrors p @ px_inflight p)" for s n
    using that ok(4,5) by auto
  have "(s, n) \<in> set (px_inflight p) \<or> map_of (px_settled p) n \<noteq> None" if n: "map_of (px_session p) n = Some s" for n s
    using ok(6)[OF n] ok(8)[of n] ok(5)[of _ n] n by fastforce
  moreover have "map_of (px_mirrors p) s = None \<and> map_of (px_inflight p) s = None" if "StartMirror n s \<in> set (snd (proxy_step p ev))" for ev n s
    using that proxy_step_cases[of p ev]
    by (auto simp: calm_step_def fresh_step_def creation_done_def Let_def split: option.splits if_splits)
  moreover have "distinct (map snd (px_mirrors p @ px_inflight p))" by (rule distinct_values[OF d]) (rule own)
  ultimately show ?thesis using d own inv(2) by blast
qed

section \<open>A reconciliation that runs alone\<close>

text \<open>The successful answer to what a reconciliation awaits, and the run that gets such answers only.\<close>

definition good_reply :: "proxy \<Rightarrow> nat \<Rightarrow> proxy_event option" where
  "good_reply p t =
     (case map_of (px_tasks p) t of
        Some (Attaching _ _ _) \<Rightarrow> Some (Answered t (Inr []))
      | Some (Mirroring n _ _) \<Rightarrow> Some (if map_of (px_settled p) n = None then CreationDone n None else MirrorSettled t)
      | Some (Tearing _ _) \<Rightarrow> Some (Answered t (Inr []))
      | _ \<Rightarrow> None)"

fun drive :: "nat \<Rightarrow> nat \<Rightarrow> proxy \<Rightarrow> proxy" where
  "drive 0 t p = p"
| "drive (Suc k) t p = (case good_reply p t of None \<Rightarrow> p | Some ev \<Rightarrow> drive k t (fst (proxy_step p ev)))"

lemma step_answered: "map_of (px_tasks p) t = Some k \<Longrightarrow> proxy_step p (Answered t r) = answered t r k p"
  by (simp add: proxy_step_def starts_def)

lemma drive_over: "map_of (px_tasks p) t = None \<Longrightarrow> drive k t p = p"
  by (cases k) (simp_all add: good_reply_def)

lemma drive_tears:
  "length rest \<le> k \<Longrightarrow>
   (let q = drive k t (fst (tear_down t rest active p)) in
      map_of (px_tasks q) t = None \<and> px_inflight q = px_inflight p \<and>
      fst ` set (px_mirrors q) = fst ` set (px_mirrors p) - (fst ` set rest - set active) \<and>
      (\<forall>x \<in> set (px_mirrors p). fst x \<in> set active \<longrightarrow> x \<in> set (px_mirrors q)) \<and>
      set (px_gone p) \<subseteq> set (px_gone q) \<and> (\<forall>x \<in> set rest. fst x \<notin> set active \<longrightarrow> snd x \<in> set (px_gone q)))"
proof (induction rest arbitrary: k p)
  case Nil
  then show ?case by (simp add: drive_over)
next
  case (Cons x rest)
  obtain s n where x: "x = (s, n)" by (cases x)
  show ?case
  proof (cases "s \<in> set active")
    case True
    then show ?thesis using Cons.IH[of k p] Cons.prems by (auto simp: x Let_def)
  next
    case False
    obtain k' where k: "k = Suc k'" "length rest \<le> k'" using Cons.prems by (cases k) auto
    define p1 where "p1 = fst (dispose_mirror n (awaits t (Tearing rest active) (p\<lparr>px_mirrors := AList.delete s (px_mirrors p)\<rparr>)))"
    have t1: "map_of (px_tasks p1) t = Some (Tearing rest active)" by (simp add: p1_def)
    have f: "px_inflight p1 = px_inflight p" "px_mirrors p1 = AList.delete s (px_mirrors p)" "set (px_gone p1) = insert n (set (px_gone p))"
      by (auto simp: p1_def dispose_mirror_def)
    have "drive k t (fst (tear_down t (x # rest) active p)) = drive k' t (fst (tear_down t rest active p1))"
      using t1 False by (simp add: x k p1_def[symmetric] good_reply_def step_answered[OF t1] answered_def)
    moreover have "y \<in> set (AList.delete s (px_mirrors p))" if "y \<in> set (px_mirrors p)" "fst y \<in> set active" for y
      using that False by (auto simp: AList.delete_eq)
    ultimately show ?thesis using Cons.IH[OF k(2), of p1] False by (auto simp: x f Let_def)
  qed
qed

lemma drive_mirrors:
  assumes "proxy_ok p" "px_inflight p = []"
  shows "\<exists>q j. j \<le> 3 * length todo \<and> px_inflight q = [] \<and> fst ` set (px_mirrors q) = fst ` set (px_mirrors p) \<union> set todo \<and>
    set (px_mirrors p) \<subseteq> set (px_mirrors q) \<and> length (px_mirrors q) \<le> length (px_mirrors p) + length todo \<and> px_gone q = px_gone p \<and>
    (\<forall>k. drive (j + k) t (fst (pre_mirror t todo active p)) = drive k t (fst (tear_down t (px_mirrors q) active q)))"
  using assms
proof (induction todo arbitrary: p)
  case Nil
  then show ?case by (intro exI[of _ p] exI[of _ 0]) simp
next
  case (Cons s todo)
  show ?case
  proof (cases "map_of (px_mirrors p) s")
    case (Some n)
    then have "s \<in> fst ` set (px_mirrors p)" by (force dest: map_of_SomeD)
    then have un: "fst ` set (px_mirrors p) \<union> set (s # todo) = fst ` set (px_mirrors p) \<union> set todo" by auto
    from Cons.IH[OF Cons.prems] obtain q j where
      "j \<le> 3 * length todo" "px_inflight q = []" "fst ` set (px_mirrors q) = fst ` set (px_mirrors p) \<union> set todo"
      "set (px_mirrors p) \<subseteq> set (px_mirrors q)" "length (px_mirrors q) \<le> length (px_mirrors p) + length todo" "px_gone q = px_gone p"
      "\<forall>k. drive (j + k) t (fst (pre_mirror t todo active p)) = drive k t (fst (tear_down t (px_mirrors q) active q))" by blast
    then show ?thesis using Some un by (intro exI[of _ q] exI[of _ j]) simp
  next
    case None
    define n where "n = px_next p"
    define p1 where "p1 = awaits t (Attaching s todo active) p"
    define p2 where "p2 = fst (with_mirror t s (\<lambda>n. Mirroring n todo active) p1)"
    define p3 where "p3 = fst (creation_done n None p2)"
    have new: "map_of (px_settled p) n = None"
      using proxy_okD(9)[OF Cons.prems(1), of n] by (cases "map_of (px_settled p) n") (auto simp: n_def)
    have ok1: "proxy_ok p1" using Cons.prems(1) by (simp add: p1_def proxy_ok_def)
    have p2: "p2 = awaits t (Mirroring n todo active) (p1\<lparr>px_next := Suc n, px_inflight := [(s, n)],
        px_session := AList.update n s (px_session p)\<rparr>)"
      using None Cons.prems(2) by (simp add: p2_def with_mirror_def mirrorSession_def p1_def n_def Let_def)
    have ok2: "proxy_ok p2"
      using with_mirror_step[of p1 t s "\<lambda>n. Mirroring n todo active"] proxy_ok_calm[OF ok1] proxy_ok_fresh[OF ok1]
      unfolding p2_def by blast
    have inf: "map_of (px_inflight p2) (session_of p2 n) = Some n" by (simp add: p2 session_of_def)
    have ok3: "proxy_ok p3" using proxy_ok_created[OF ok2 inf] by (simp add: p3_def)
    have so: "session_of p2 n = s" by (simp add: p2 session_of_def)
    have p3: "px_inflight p3 = []" "px_mirrors p3 = px_mirrors p @ [(s, n)]" "px_gone p3 = px_gone p"
      "map_of (px_tasks p3) t = Some (Mirroring n todo active)" "map_of (px_settled p3) n = Some None"
      using inf None by (simp_all add: p3_def creation_done_def so Let_def)
        (simp_all add: p2 p1_def update_fresh map_of_eq_None_iff)
    have r1: "good_reply p1 t = Some (Answered t (Inr []))" "proxy_step p1 (Answered t (Inr [])) = answered t (Inr []) (Attaching s todo active) p1"
      by (simp_all add: good_reply_def p1_def step_answered)
    have r2: "good_reply p2 t = Some (CreationDone n None)" using new by (simp add: good_reply_def p2 p1_def)
    have s2: "proxy_step p2 (CreationDone n None) = creation_done n None p2" by (simp add: proxy_step_def starts_def)
    have r3: "good_reply p3 t = Some (MirrorSettled t)" using p3 by (simp add: good_reply_def)
    have s3: "proxy_step p3 (MirrorSettled t) = pre_mirror t todo active p3"
      using p3 by (simp add: proxy_step_def starts_def mirror_settled_def Let_def)
    have drive: "drive (3 + k) t (fst (pre_mirror t (s # todo) active p)) = drive k t (fst (pre_mirror t todo active p3))" for k
    proof -
      have "fst (pre_mirror t (s # todo) active p) = p1" using None Cons.prems(2) by (simp add: p1_def)
      moreover have "fst (answered t (Inr []) (Attaching s todo active) p1) = p2" by (simp add: answered_def p2_def)
      ultimately have "drive (Suc (Suc (Suc k))) t (fst (pre_mirror t (s # todo) active p)) = drive k t (fst (pre_mirror t todo active p3))"
        by (simp add: r1 r2 s2 r3 s3 p3_def[symmetric] del: pre_mirror.simps)
      moreover have "3 + k = Suc (Suc (Suc k))" by simp
      ultimately show ?thesis by (simp only:)
    qed
    from Cons.IH[OF ok3 p3(1)] obtain q j where q:
      "j \<le> 3 * length todo" "px_inflight q = []" "fst ` set (px_mirrors q) = fst ` set (px_mirrors p3) \<union> set todo"
      "set (px_mirrors p3) \<subseteq> set (px_mirrors q)" "length (px_mirrors q) \<le> length (px_mirrors p3) + length todo" "px_gone q = px_gone p3"
      "\<forall>k. drive (j + k) t (fst (pre_mirror t todo active p3)) = drive k t (fst (tear_down t (px_mirrors q) active q))" by blast
    have "drive ((3 + j) + k) t (fst (pre_mirror t (s # todo) active p)) = drive k t (fst (tear_down t (px_mirrors q) active q))" for k
      using q(7) drive[of "j + k"] by (simp add: add.assoc del: pre_mirror.simps)
    then show ?thesis using q p3 by (intro exI[of _ q] exI[of _ "3 + j"]) (auto simp del: pre_mirror.simps)
  qed
qed

text \<open>
  C9: A reconciliation reaches the session list. From every state a run can reach in which no bootstrap
  is under way, a reconciliation whose calls succeed and which nothing interrupts ends, after at most four steps
  per active session and one per mirror, with exactly the active sessions mirrored: the mirrors of
  active sessions are kept, all others are disposed of.
\<close>

theorem reconcile_converges:
  assumes "steps proxy_step RemoteProxy es = (p, out)" and "px_inflight p = []" and "map_of (px_tasks p) t = Some Listing"
    and "active = map fst (filter snd summaries)"
    and "4 * length active + length (px_mirrors p) \<le> k"
  shows "let q = drive k t (fst (proxy_step p (ListAnswered t (Inr summaries)))) in
    map_of (px_tasks q) t = None \<and> px_inflight q = [] \<and> fst ` set (px_mirrors q) = set active \<and>
    (\<forall>(s, n) \<in> set (px_mirrors p). if s \<in> set active then (s, n) \<in> set (px_mirrors q) else n \<in> set (px_gone q))"
proof -
  have "proxy_inv RemoteProxy [] []" using proxy_ok_new by (simp add: proxy_inv_def RemoteProxy_def)
  from proxy_runs.always[OF this assms(1)] have ok: "proxy_ok p" by (simp add: proxy_inv_def)
  have start: "proxy_step p (ListAnswered t (Inr summaries)) = pre_mirror t active active p"
    using assms(3,4) by (simp add: proxy_step_def starts_def list_answered_def Let_def)
  obtain q j where q: "j \<le> 3 * length active" "px_inflight q = []" "fst ` set (px_mirrors q) = fst ` set (px_mirrors p) \<union> set active"
    "set (px_mirrors p) \<subseteq> set (px_mirrors q)" "length (px_mirrors q) \<le> length (px_mirrors p) + length active" "px_gone q = px_gone p"
    "\<And>k. drive (j + k) t (fst (pre_mirror t active active p)) = drive k t (fst (tear_down t (px_mirrors q) active q))"
    using drive_mirrors[OF ok assms(2), of active t active] by blast
  have k: "k = j + (k - j)" "length (px_mirrors q) \<le> k - j" using q(1,5) assms(5) by auto
  define r where "r = drive (k - j) t (fst (tear_down t (px_mirrors q) active q))"
  have run: "drive k t (fst (proxy_step p (ListAnswered t (Inr summaries)))) = r"
    using q(7)[of "k - j"] k(1) start by (simp add: r_def)
  have r: "map_of (px_tasks r) t = None" "px_inflight r = []" "fst ` set (px_mirrors r) = set active"
    and keep: "\<forall>x \<in> set (px_mirrors q). fst x \<in> set active \<longrightarrow> x \<in> set (px_mirrors r)"
      "\<forall>x \<in> set (px_mirrors q). fst x \<notin> set active \<longrightarrow> snd x \<in> set (px_gone r)"
    using drive_tears[OF k(2), of t active q] q(2,3) by (auto simp: Let_def r_def[symmetric])
  have "if s \<in> set active then (s, n) \<in> set (px_mirrors r) else n \<in> set (px_gone r)" if "(s, n) \<in> set (px_mirrors p)" for s n
  proof -
    have "(s, n) \<in> set (px_mirrors q)" using q(4) that by blast
    then show ?thesis using bspec[OF keep(1), of "(s, n)"] bspec[OF keep(2), of "(s, n)"] by simp
  qed
  then show ?thesis unfolding Let_def run using r by blast
qed

section \<open>Interleavings that go wrong\<close>

lemmas proxy_run_defs = proxy_step_def starts_def RemoteProxy_def reconcile_def list_answered_def answered_def with_mirror_def
  mirrorSession_def creation_done_def mirror_settled_def session_of_def createAgent_def proxy_dispose_def dispose_mirror_def
  awaits_def ends_def Let_def

text \<open>
  A session created while a reconciliation is under way is not in the list that reconciliation works
  with: its mirror is torn down although the session was handed out and is active.
\<close>

lemma reconcile_tears_down_new_mirror:
  "\<exists>p out. steps proxy_step RemoteProxy
      [SessionsChanged 0, ListAnswered 0 (Inr [([97], True)]), CreateCalled 1 False, Answered 1 (Inr [98]), CreationDone 0 None,
       MirrorSettled 1, Answered 0 (Inr []), CreationDone 1 None, MirrorSettled 0] = (p, out) \<and>
    Finished 1 (Some 0) \<in> set out \<and> DisposeMirror 0 \<in> set out"
  by (simp add: proxy_run_defs)

text \<open>A bootstrap that ends after the proxy was disposed puts its mirror into the table for good.\<close>

lemma creation_outlives_proxy:
  "\<exists>p out. steps proxy_step RemoteProxy
      [SessionsChanged 0, ListAnswered 0 (Inr [([97], True)]), Answered 0 (Inr []), ProxyDisposed 1, CreationDone 0 None] = (p, out) \<and>
    px_disposed p \<and> px_mirrors p = [([97], 0)] \<and> px_gone p = [] \<and> (\<forall>t. proxy_step p (ProxyDisposed t) = (p, []))"
  by (simp add: proxy_run_defs)

section \<open>Samples\<close>

lemma one_mirror_per_session_witness:
  "\<exists>p out. steps proxy_step RemoteProxy [SessionsChanged 0, ListAnswered 0 (Inr [([97], True)]), Answered 0 (Inr [])] = (p, out) \<and>
    px_inflight p = [([97], 0)] \<and> distinct (map fst (px_mirrors p @ px_inflight p)) \<and> StartMirror 0 [97] \<in> set out"
proof -
  let ?es = "[SessionsChanged 0, ListAnswered 0 (Inr [([97], True)]), Answered 0 (Inr [])]"
  obtain p out where x: "steps proxy_step RemoteProxy ?es = (p, out)" by (cases "steps proxy_step RemoteProxy ?es")
  have "px_inflight p = [([97], 0)]" using x by (auto simp: proxy_run_defs)
  then show ?thesis using one_mirror_per_session[OF x] x by auto
qed

lemma reconcile_converges_witness:
  "\<exists>p out. steps proxy_step RemoteProxy [SessionsChanged 0] = (p, out) \<and>
    fst ` set (px_mirrors (drive 8 0 (fst (proxy_step p (ListAnswered 0 (Inr [([97], True), ([98], False)])))))) = {[97]}"
proof -
  obtain p out where x: "steps proxy_step RemoteProxy [SessionsChanged 0] = (p, out)" by (cases "steps proxy_step RemoteProxy [SessionsChanged 0]")
  have p: "px_inflight p = []" "map_of (px_tasks p) 0 = Some Listing" "px_mirrors p = []" using x by (auto simp: proxy_run_defs)
  have "[[97]] = map fst (filter snd [([97 :: nat], True), ([98], False)])" by simp
  from reconcile_converges[OF x p(1,2) this, of 8] x p show ?thesis by (auto simp: Let_def)
qed

end
