(* ===== verification/Spec2Isabelle.thy ===== *)
theory Spec2Isabelle
  imports Auth Mux Serve Client KeyedMutex SshSamples ProcessSamples TerminalSamples SubprocessRuntime Mirror ProxyBridges RemotePersistence Proxy
begin

text \<open>
  dsh-remote lets a terminal frontend drive sessions of a coding agent that run in a daemon on another
  machine. Both ends speak JSON-RPC over one byte stream (the standard streams of a process started over
  SSH); bulk data travels on multiplexed channels of the same stream. This development models the
  protocol stack, the backend that serves it and the client that uses it, and proves what each part
  promises and that the parts fit together.

  \<^bold>\<open>The parts and their theories.\<close> Each operation is one definition under the source's name, or its name
  with a short prefix of the component; a class is a record of its fields, and an operation returns the
  new record and what it emits, in order.

  \<^item> \<open>Prelude\<close>: strings as UTF-16 code units, insertion-ordered sets and maps as lists, sequences of
    events (\<open>steps\<close>) and the locale \<open>reactive\<close>: an invariant over state, history of events and history
    of outputs, which every state machine below is an interpretation of.
  \<^item> \<open>Json\<close>, \<open>Utf8\<close>: \<open>JSON.stringify\<close> and \<open>JSON.parse\<close>, and the incremental UTF-8 decoder of the
    platform, as far as the stack uses them.
  \<^item> \<open>Errors\<close> (\<^verbatim>\<open>remote-core/src/errors.ts\<close>), \<open>Framing\<close> (\<^verbatim>\<open>framing.ts\<close>): error values; newline-delimited
    JSON with a byte limit, data frames. The locale \<open>line_pump\<close> is what peer and mux share: a decoder
    feeding a handler. Shown: what is encoded is decoded, whatever the chunking.
  \<^item> \<open>Auth\<close> (\<^verbatim>\<open>auth.ts\<close>): canonical JSON and keyed proofs; the hash is the parameter \<open>hmac\<close>.
  \<^item> \<open>Jsonrpc\<close> (\<^verbatim>\<open>jsonrpc.ts\<close>), \<open>Mux\<close> (\<^verbatim>\<open>mux.ts\<close>): the peer with its pending calls and the channel mux, as
    machines over all their callbacks. Shown: every call settles once, channels deliver in order within
    their budget, teardown leaves nothing open, both end to end through any chunking.
  \<^item> \<open>Protocol\<close> (\<^verbatim>\<open>protocol.ts\<close>): method names and payload records.
  \<^item> \<open>Broker\<close> (\<^verbatim>\<open>remote-backend/src/broker.ts\<close> over \<^verbatim>\<open>host.ts\<close>): connections, attachments, control leases,
    replay and history. The invariant \<open>broker_ok\<close> ties its four tables together.
  \<^item> \<open>Interaction\<close>, \<open>Approval\<close>, \<open>Question\<close> (\<^verbatim>\<open>approval.ts\<close>, \<^verbatim>\<open>question.ts\<close>): requests of the host to the
    users. The locale \<open>ask_table\<close> is the contract of a table of outstanding requests; both bridges
    interpret it, which gives that each request is settled once.
  \<^item> \<open>FileTransfer\<close> (\<^verbatim>\<open>transfer.ts\<close>), \<open>Monitor\<close> (\<^verbatim>\<open>monitor.ts\<close>): transfers over a file system whose every
    call may fail; metric subscriptions.
  \<^item> \<open>Serve\<close> (\<^verbatim>\<open>serve.ts\<close>): fan-out of the stream, handshake gate, dispatch to the subsystems above,
    teardown. Shown: nobody is served without the token, and the end of a connection cleans up.
  \<^item> \<open>Handle\<close>, \<open>Connection\<close>, \<open>Client\<close> (\<^verbatim>\<open>remote-client/src/handle.ts\<close>, \<^verbatim>\<open>connection.ts\<close>, \<^verbatim>\<open>client.ts\<close>): the
    frontend's handle on a session, the channel to a target with its reconnect loop, the registry of
    both. Shown: events arrive once and in order across reconnects, the channel keeps trying.
  \<^item> \<open>TextEdit\<close>, \<open>KeyedMutex\<close>, \<open>PosixPath\<close> (\<^verbatim>\<open>fs-ssh/src/text.ts\<close>, \<^verbatim>\<open>mutex.ts\<close>, the path functions of
    \<^verbatim>\<open>fs-ssh.ts\<close>): literal edits, line ends and the binary probe; the promise chain per key; paths, shell
    quoting and file URLs.
  \<^item> \<open>SshHost\<close> (\<^verbatim>\<open>version.ts\<close>, the publish script): version tokens, and a host whose files are a map from
    paths to nodes, whose every call may fail and which other processes may change before every call.
    \<open>SshFs\<close> (\<^verbatim>\<open>fs-ssh.ts\<close>): the provider's methods on it. \<open>SshPublish\<close>, \<open>SshMutation\<close>, \<open>SshFiles\<close>,
    \<open>SshTyping\<close>: publishing, writes and edits, reads and limits, types; \<open>SshSamples\<close> has a concrete host.
  \<^item> \<open>FrameOutput\<close> (\<^verbatim>\<open>subprocess-ssh/src/output.ts\<close>, the pump of \<^verbatim>\<open>process.ts\<close>): what the remote wrapper
    prints, decoded, and the bounded tail of a stream. \<open>SpawnScripts\<close>, \<open>SpawnWire\<close> (\<^verbatim>\<open>wrapper.ts\<close>,
    \<^verbatim>\<open>environment.ts\<close>): the shell texts as they are sent, the header, the environment, and what the shell
    makes of them. Shown: the bytes come out as they were written, the child gets what was asked for.
  \<^item> \<open>RemoteProcess\<close> (\<^verbatim>\<open>process.ts\<close>, \<^verbatim>\<open>util.ts\<close>): one remote process as a machine whose phases are the awaits of
    \<open>run\<close>, \<open>terminateRemote\<close> and \<open>waitForExit\<close>. \<open>ProcessSafety\<close>, \<open>ProcessOutcome\<close>, \<open>ProcessEnds\<close>: which commands
    it sends, what \<open>done\<close> reports, that it can always end; \<open>ProcessSamples\<close> has the runs.
  \<^item> \<open>TerminalBoot\<close>, \<open>TerminalSession\<close> (\<^verbatim>\<open>terminal.ts\<close>): the start of a terminal with its bootstrap filter, and
    the running terminal with its clean-up. \<open>TerminalFilter\<close>, \<open>TerminalSafety\<close>, \<open>TerminalClose\<close>: the filter drops
    exactly the preamble, a failed start undoes itself, only the terminal's own session is signalled, a
    clean-up that succeeds has ended it and can always be brought to success; \<open>TerminalSamples\<close> has the runs.
    \<open>SubprocessRuntime\<close> (\<^verbatim>\<open>runtime.ts\<close>): look-up of executables and the set of managed processes.
  \<^item> \<open>MirrorEvents\<close>, \<open>Mirror\<close> (\<^verbatim>\<open>remote-proxy/src/events.ts\<close>, \<^verbatim>\<open>mirror.ts\<close>): the local copy of a remote session, from
    the paged history to the live events; the session class of the host application is the parameter
    \<open>validation\<close>. Shown: its log is a prefix of the remote one. \<open>AgentFacade\<close> (\<^verbatim>\<open>agent.ts\<close>): the local agent of
    such a session. \<open>ProxyBridges\<close> (\<^verbatim>\<open>bridges.ts\<close>): approvals and questions shown to the local user.
    \<open>RemotePersistence\<close> (\<^verbatim>\<open>persistence.ts\<close>): cold and live reads, which agree. \<open>Proxy\<close> (\<^verbatim>\<open>proxy.ts\<close>, \<^verbatim>\<open>factory.ts\<close>): the
    table of mirrors under every interleaving of its tasks.
  \<^item> This theory: properties that span frontend and backend.

  \<^bold>\<open>Conventions.\<close> Concurrency is interleaving of events: what runs between two awaits of the source is one
  step, and an operation suspended in an await is a field of the state. Exceptions are values of
  \<open>thrown\<close> or \<open>remote_error\<close>. Hosts, clocks, random bytes, timers, the file system and the keyed hash are
  arguments of the operations that use them. Loops of the
  source are structural recursion or folds, except the JSON parser, whose fuel is the length of the text,
  which \<open>Json\<close> proves to be enough, and the paging of a history, which is a \<open>partial_function\<close> that \<open>Mirror\<close>
  proves to return on the history of the backend. Loops over remote calls are phases: \<open>Proxy.drive\<close> and
  \<open>TerminalClose.calm_run\<close> answer such calls a given number of times, and their theorems say how many are enough.

  \<^bold>\<open>Not modelled.\<close> Decoding the parameters of a request from JSON into records (the source casts without
  checking); token files (\<^verbatim>\<open>config.ts\<close>, \<^verbatim>\<open>init.ts\<close>), which are file access; the plugin glue
  (\<^verbatim>\<open>remote-backend/src/index.ts\<close>, \<^verbatim>\<open>profile-boot.ts\<close>, \<^verbatim>\<open>remote-daemon\<close>, \<^verbatim>\<open>remote-sessions\<close>), which wires services of
  the host application; the SSH transport (\<^verbatim>\<open>remote-ssh\<close>), which calls an SSH library: its calls are events
  of the machines above; the store and the catalogs of \<^verbatim>\<open>remote-proxy\<close>, adapters of classes of the host
  application; the terminal frontend and the test doubles. Back pressure of local streams is left out. The
  metrics other than the CPU ratio reformat what the kernel prints.
\<close>

text \<open>
  C21: Pairing works end to end: the frontend's handshake, answering the challenge the backend
  drew, is accepted exactly when the token it resolved gives the same proof as the backend's token. Then
  the new client is connected to the broker and its methods are served; else the failure is counted, the
  answer delayed, and nobody is connected.
\<close>

theorem pairing_handshake:
  assumes "hello = createHello rnd0 clientNonce caps" and "resolveToken (the ref) = Inr token"
    and "client_handshake hmac target ref resolveToken hello (hex rnd) = Inr sent"
    and "gateway_step hmac gw (GHello rnd i (Some (hello_json hello))) = (gw1, out1)"
    and "gateway_step hmac gw1 (GProof j c obj (Some sent)) = (gw2, out2)"
  shows "out1 = [GReply i (Inr (RpChallenge \<lparr>ch_nonce = hex rnd, ch_capabilities = map (js \<circ> Capabilities) (sv_capabilities (gw_server gw))\<rparr>))]
    \<and> (if computeProof hmac token (hello_nonce hello) (hex rnd) (hello_json hello) =
          computeProof hmac (sv_token (gw_server gw)) (hello_nonce hello) (hex rnd) (hello_json hello)
       then out2 = [GReply j (Inr (RpAuthenticated c))] \<and> sv_registered (gw_server gw2) = Some c
         \<and> map_of (connections (gw_broker gw2)) c = Some \<lparr>cn_clientId = c, cn_object = obj\<rparr>
       else (\<exists>ms. out2 = [GSleep j ms]) \<and> sv_failures (gw_server gw2) = Suc (sv_failures (gw_server gw))
         \<and> sv_registered (gw_server gw2) = sv_registered (gw_server gw) \<and> gw_broker gw2 = gw_broker gw)"
proof -
  have k: "js ''protocolVersion'' \<noteq> js ''nonce''" "js ''capabilities'' \<noteq> js ''nonce''" "js ''protocolVersion'' \<noteq> js ''capabilities''"
    "js ''clientNonce'' \<noteq> js ''proof''" "js ''serverNonce'' \<noteq> js ''proof''" "js ''hello'' \<noteq> js ''proof''"
    "js ''clientNonce'' \<noteq> js ''serverNonce''"
    by (simp_all add: js_def)
  have sent: "sent = hello_proof_json hmac token hello (hex rnd)"
    using assms(2,3) by (auto simp: client_handshake_def split: if_splits)
  have "hello_protocolVersion hello = 1" by (simp add: assms(1) createHello_def)
  then have h: "well_formed_hello (Some (hello_json hello)) = Some (hello_json hello, hello_nonce hello)"
    using k by (simp add: well_formed_hello_def hello_json_def get_key_def)
  have m: "string_member (Some sent) ''proof'' = Some (computeProof hmac token (hello_nonce hello) (hex rnd) (hello_json hello))"
    "string_member (Some sent) ''clientNonce'' = Some (hello_nonce hello)" "string_member (Some sent) ''serverNonce'' = Some (hex rnd)"
    using k by (simp_all add: sent hello_proof_json_def string_member_def get_key_def)
  have g1: "gw1 = gw\<lparr>gw_server := (gw_server gw)\<lparr>sv_pendingHello := Some (hello_json hello, hello_nonce hello, hex rnd)\<rparr>\<rparr>"
    "out1 = [GReply i (Inr (RpChallenge \<lparr>ch_nonce = hex rnd, ch_capabilities = map (js \<circ> Capabilities) (sv_capabilities (gw_server gw))\<rparr>))]"
    using assms(4) h by (auto simp: serve_hello_def createChallenge_def Let_def)
  show ?thesis using assms(5) m g1 by (auto simp: serve_proof_def proof_ok_def verifyProof_iff connect_def Let_def)
qed

theorem pairing_handshake_witness:
  "\<exists>gw1 gw2 sent out1. client_handshake plain_hash (js ''t'') (Some (js ''ref'')) (\<lambda>_. Inr (js ''k'')) (createHello [] (Some (js ''n'')) []) (hex [7]) = Inr sent
    \<and> gateway_step plain_hash sample_server (GHello [7] (NumId 1 0) (Some (hello_json (createHello [] (Some (js ''n'')) [])))) = (gw1, out1)
    \<and> gateway_step plain_hash gw1 (GProof (NumId 2 0) (js ''a'') 1 (Some sent)) = (gw2, [GReply (NumId 2 0) (Inr (RpAuthenticated (js ''a'')))])"
proof -
  let ?hello = "createHello [] (Some (js ''n'')) []"
  obtain sent where s: "client_handshake plain_hash (js ''t'') (Some (js ''ref'')) (\<lambda>_. Inr (js ''k'')) ?hello (hex [7]) = Inr sent"
    by (simp add: client_handshake_def js_def)
  obtain gw1 out1 where g1: "gateway_step plain_hash sample_server (GHello [7] (NumId 1 0) (Some (hello_json ?hello))) = (gw1, out1)"
    by (meson surj_pair)
  obtain gw2 out2 where g2: "gateway_step plain_hash gw1 (GProof (NumId 2 0) (js ''a'') 1 (Some sent)) = (gw2, out2)" by (meson surj_pair)
  have "sv_token (gw_server sample_server) = js ''k''" by (simp add: sample_server_def BackendServer_def)
  then show ?thesis using pairing_handshake[OF refl _ s g1 g2] s g1 g2 by auto
qed

end
